(* ===== verification/Prelude.thy ===== *)
theory Prelude
  imports Main "HOL-Library.Word"
begin

text \<open>
  The prelude of the development: names for the machine integers the C++ sources use,
  the fact collections the component proofs draw on, and generic lemmas on natural
  numbers, lists and words that several components share.

  \<^item> \<open>u8\<close>, \<open>u16\<close>, \<open>u32\<close>, \<open>u64\<close> are \<open>uint8_t\<close> to \<open>uint64_t\<close>: \<open>+\<close>, \<open>-\<close>, \<open>*\<close> wrap
    around exactly as unsigned C++ arithmetic does at that width.
  \<^item> \<open>le16\<close> reads two bytes in little-endian order, as \<open>ReadU16\<close> does on both processors;
    \<open>lo8\<close> and \<open>hi8\<close> are the two \<open>static_cast<uint8_t>\<close> halves of a \<open>uint16_t\<close>.
\<close>

unbundle bit_operations_syntax

type_synonym u8 = "8 word"
type_synonym u16 = "16 word"
type_synonym u32 = "32 word"
type_synonym u64 = "64 word"

named_theorems frame_simps \<open>fields an operation leaves alone\<close>
named_theorems inv_intros \<open>preservation of a component's invariant, one fact per operation\<close>
named_theorems lit_simps \<open>values of the float literals of the sources\<close>

section \<open>Bytes of 16-bit values\<close>

definition lo8 :: "u16 \<Rightarrow> u8" where
  "lo8 w = ucast w"

definition hi8 :: "u16 \<Rightarrow> u8" where
  "hi8 w = ucast (drop_bit 8 w)"

definition le16 :: "u8 \<Rightarrow> u8 \<Rightarrow> u16" where
  "le16 lo hi = (ucast lo) OR push_bit 8 (ucast hi)"

lemma le16_lo_hi [simp]: "le16 (lo8 w) (hi8 w) = w"
  unfolding le16_def lo8_def hi8_def
  by (rule bit_word_eqI) (auto simp: bit_simps)

lemma lo8_le16 [simp]: "lo8 (le16 a b) = a"
  unfolding le16_def lo8_def
  by (rule bit_word_eqI) (auto simp: bit_simps)

lemma hi8_le16 [simp]: "hi8 (le16 a b) = b"
  unfolding le16_def hi8_def
  by (rule bit_word_eqI) (auto simp: bit_simps dest: bit_imp_le_length)

section \<open>Division on natural numbers\<close>

lemma div_ratio_mono:
  fixes a b c d :: nat
  assumes "a * d \<le> c * b" and "0 < b" and "0 < d"
  shows "a div b \<le> c div d"
proof -
  have "a div b * b * d \<le> a * d"
    by (simp add: div_times_less_eq_dividend)
  also have "\<dots> \<le> c * b" by (rule assms(1))
  finally have "(a div b * d) * b \<le> c * b" by (simp add: ac_simps)
  then have "a div b * d \<le> c" using assms(2) by simp
  then show ?thesis using assms(3) by (simp add: less_eq_div_iff_mult_less_eq)
qed

section \<open>Lists updated by index\<close>

lemma nth_update_if:
  "i < length xs \<Longrightarrow> xs[i := v] ! j = (if j = i then v else xs ! j)"
  by (simp add: nth_list_update)

lemma list_all2_update:
  "list_all2 P xs ys \<Longrightarrow> P a b \<Longrightarrow> list_all2 P (xs[i := a]) (ys[i := b])"
  by (rule list_all2_update_cong)

section \<open>Words\<close>

lemma unat_of_nat_small: "n < 2 ^ LENGTH('a) \<Longrightarrow> unat (of_nat n :: 'a::len word) = n"
  by (simp add: unat_of_nat take_bit_nat_eq_self)

lemma word_neq_0_unat: "(w :: 'a::len word) \<noteq> 0 \<Longrightarrow> 0 < unat w"
  by (simp add: unat_gt_0)

lemma unat_ucast_mod: "unat (ucast (w :: 'a::len word) :: 'b::len word) = unat w mod 2 ^ LENGTH('b)"
  by (simp add: unsigned_ucast_eq take_bit_eq_mod)

lemma unat_ucast_up:
  assumes "LENGTH('a) \<le> LENGTH('b)"
  shows "unat (ucast (w :: 'a::len word) :: 'b::len word) = unat w"
proof -
  have "unat w < 2 ^ LENGTH('a)" by (rule unsigned_less)
  also have "(2::nat) ^ LENGTH('a) \<le> 2 ^ LENGTH('b)" using assms by simp
  finally show ?thesis by (simp add: unat_ucast_mod)
qed

lemma unat_mult_small:
  "unat a * unat b < 2 ^ LENGTH('a) \<Longrightarrow> unat ((a :: 'a::len word) * b) = unat a * unat b"
  by (simp add: unat_word_ariths)

lemma unat_add_small:
  "unat a + unat b < 2 ^ LENGTH('a) \<Longrightarrow> unat ((a :: 'a::len word) + b) = unat a + unat b"
  by (simp add: unat_word_ariths)

lemma unat_sub_small: "b \<le> a \<Longrightarrow> unat ((a :: 'a::len word) - b) = unat a - unat b"
  by (simp add: unat_sub)

lemma u8_bound: "unat (w :: u8) < 256" using unsigned_less [of w] by simp
lemma u16_bound: "unat (w :: u16) < 65536" using unsigned_less [of w] by simp
lemma u32_bound: "unat (w :: u32) < 4294967296" using unsigned_less [of w] by simp

section \<open>Transition systems with an invariant\<close>

text \<open>
  What every reachability argument of the development uses: an initial-state predicate, a step
  relation and an invariant that the one establishes and the other preserves.
\<close>

locale inv_system =
  fixes initial :: "'s \<Rightarrow> bool"
    and step :: "'s \<Rightarrow> 's \<Rightarrow> bool"
    and inv :: "'s \<Rightarrow> bool"
  assumes initial_inv: "initial s \<Longrightarrow> inv s"
    and step_inv: "inv s \<Longrightarrow> step s t \<Longrightarrow> inv t"
begin

lemma steps_inv: "step\<^sup>*\<^sup>* s t \<Longrightarrow> inv s \<Longrightarrow> inv t"
  by (induction rule: rtranclp_induct) (auto intro: step_inv)

lemma reachable_inv: "initial s \<Longrightarrow> step\<^sup>*\<^sup>* s t \<Longrightarrow> inv t"
  using steps_inv initial_inv by blast

lemma reachable_implies:
  "initial s \<Longrightarrow> step\<^sup>*\<^sup>* s t \<Longrightarrow> (\<And>u. inv u \<Longrightarrow> P u) \<Longrightarrow> P t"
  using reachable_inv by blast

end

end
