(* ===== verification/LpcProtocol.thy ===== *)
theory LpcProtocol
  imports Prelude "HOL-Library.Sublist"
begin

text \<open>
  The serial protocol between the SAM4E main board (the host) and the LPC1115
  coprocessor: \<open>Shared/src/LpcProtocol.h\<close> and \<open>Shared/src/LpcProtocol.cpp\<close>, compiled into
  both firmwares. A frame is the sync byte, a type byte, a length byte, up to 16 payload
  bytes and a CRC-8 (polynomial \<open>0x07\<close>) over type, length and payload.

  The enumerations of the header are datatypes. C++ casts any byte into them, so the ones
  the sources cast received bytes into without a check carry a constructor for the values
  that have no name. \<open>feed\<close> returns the frame where the C++ function returns true and
  writes its output parameter, \<open>None\<close> where it returns false.
\<close>

section \<open>Constants and enumerations\<close>

definition Version :: u8 where "Version = 3"
definition SyncByte :: u8 where "SyncByte = 0xA5"
definition MaxPayload :: nat where "MaxPayload = 16"
definition MaxEncodedFrame :: nat where "MaxEncodedFrame = MaxPayload + 4"

definition PinFilamentRunout :: u8 where "PinFilamentRunout = 0x27"
definition PinRotation :: u8 where "PinRotation = 0x21"
definition PinHotendFilament :: u8 where "PinHotendFilament = 0x06"
definition PinStatusLed :: u8 where "PinStatusLed = 0x2A"
definition PinHeater :: u8 where "PinHeater = 0x09"
definition PinHotendFan :: u8 where "PinHotendFan = 0x25"
definition PinReflowFan :: u8 where "PinReflowFan = 0x1A"
definition PinHotendNtc :: u8 where "PinHotendNtc = 0x10"

lemmas pin_ids = PinFilamentRunout_def PinRotation_def PinHotendFilament_def PinStatusLed_def
  PinHeater_def PinHotendFan_def PinReflowFan_def PinHotendNtc_def

datatype MessageType = Ping | Pong | GpioConfig | GpioWrite | GpioState | PwmWrite
  | ThermistorConfig | HeaterModelA | HeaterModelB | HeaterModelC | HeaterConfig
  | HeaterCommandMsg | ThermalStatusMsg | HeaterFeedForward | ConfigurationReset
  | ConfigurationComplete | OtherMessage u8

fun msg_byte :: "MessageType \<Rightarrow> u8" where
  "msg_byte Ping = 1"
| "msg_byte Pong = 2"
| "msg_byte GpioConfig = 3"
| "msg_byte GpioWrite = 4"
| "msg_byte GpioState = 5"
| "msg_byte PwmWrite = 6"
| "msg_byte ThermistorConfig = 7"
| "msg_byte HeaterModelA = 8"
| "msg_byte HeaterModelB = 9"
| "msg_byte HeaterModelC = 10"
| "msg_byte HeaterConfig = 11"
| "msg_byte HeaterCommandMsg = 12"
| "msg_byte ThermalStatusMsg = 13"
| "msg_byte HeaterFeedForward = 14"
| "msg_byte ConfigurationReset = 15"
| "msg_byte ConfigurationComplete = 16"
| "msg_byte (OtherMessage b) = b"

definition msg_of :: "u8 \<Rightarrow> MessageType" where
  "msg_of b = (if b = 1 then Ping else if b = 2 then Pong else if b = 3 then GpioConfig
    else if b = 4 then GpioWrite else if b = 5 then GpioState else if b = 6 then PwmWrite
    else if b = 7 then ThermistorConfig else if b = 8 then HeaterModelA
    else if b = 9 then HeaterModelB else if b = 10 then HeaterModelC
    else if b = 11 then HeaterConfig else if b = 12 then HeaterCommandMsg
    else if b = 13 then ThermalStatusMsg else if b = 14 then HeaterFeedForward
    else if b = 15 then ConfigurationReset else if b = 16 then ConfigurationComplete
    else OtherMessage b)"

lemma msg_byte_of [simp]: "msg_byte (msg_of b) = b"
  by (simp add: msg_of_def)

text \<open>A message type is \<open>named\<close> when it is an enumerator or an unnamed value of the type.\<close>

definition msg_ok :: "MessageType \<Rightarrow> bool" where
  "msg_ok t \<longleftrightarrow> (case t of OtherMessage b \<Rightarrow> b = 0 \<or> 16 < b | _ \<Rightarrow> True)"

lemma msg_of_byte [simp]: "msg_ok t \<Longrightarrow> msg_of (msg_byte t) = t"
  by (cases t) (auto simp: msg_ok_def msg_of_def)

datatype GpioMode = Disabled | Input | InputPullup | Output | PwmMode | Analog | OtherMode u8

fun mode_byte :: "GpioMode \<Rightarrow> u8" where
  "mode_byte Disabled = 0"
| "mode_byte Input = 1"
| "mode_byte InputPullup = 2"
| "mode_byte Output = 3"
| "mode_byte PwmMode = 4"
| "mode_byte Analog = 5"
| "mode_byte (OtherMode b) = b"

definition mode_of :: "u8 \<Rightarrow> GpioMode" where
  "mode_of b = (if b = 0 then Disabled else if b = 1 then Input else if b = 2 then InputPullup
    else if b = 3 then Output else if b = 4 then PwmMode else if b = 5 then Analog
    else OtherMode b)"

definition mode_ok :: "GpioMode \<Rightarrow> bool" where
  "mode_ok m \<longleftrightarrow> (case m of OtherMode b \<Rightarrow> 5 < b | _ \<Rightarrow> True)"

lemma mode_byte_of [simp]: "mode_byte (mode_of b) = b"
  by (simp add: mode_of_def)

lemma mode_of_byte [simp]: "mode_ok m \<Longrightarrow> mode_of (mode_byte m) = m"
  by (cases m) (auto simp: mode_ok_def mode_of_def)

datatype HeaterCommand = CmdOff | CmdOn | CmdSuspend | CmdResetFault | OtherCommand u8

fun command_byte :: "HeaterCommand \<Rightarrow> u8" where
  "command_byte CmdOff = 0"
| "command_byte CmdOn = 1"
| "command_byte CmdSuspend = 2"
| "command_byte CmdResetFault = 3"
| "command_byte (OtherCommand b) = b"

definition command_of :: "u8 \<Rightarrow> HeaterCommand" where
  "command_of b = (if b = 0 then CmdOff else if b = 1 then CmdOn else if b = 2 then CmdSuspend
    else if b = 3 then CmdResetFault else OtherCommand b)"

lemma command_of_byte [simp]:
  "command_of (command_byte CmdOff) = CmdOff" "command_of (command_byte CmdOn) = CmdOn"
  "command_of (command_byte CmdSuspend) = CmdSuspend"
  "command_of (command_byte CmdResetFault) = CmdResetFault"
  by (simp_all add: command_of_def)

text \<open>
  The heater states are compared as numbers by the sources (\<open>state >= cooling\<close>), so the
  type is a linear order in the order of the enumerators.
\<close>

datatype HeaterState = HFault | HOffline | HOff | HSuspended | HCooling | HStable | HHeating

fun state_num :: "HeaterState \<Rightarrow> nat" where
  "state_num HFault = 0"
| "state_num HOffline = 1"
| "state_num HOff = 2"
| "state_num HSuspended = 3"
| "state_num HCooling = 4"
| "state_num HStable = 5"
| "state_num HHeating = 6"

lemma state_num_inj: "state_num s = state_num t \<Longrightarrow> s = t"
  by (cases s; cases t) auto

instantiation HeaterState :: linorder
begin

definition less_eq_HeaterState :: "HeaterState \<Rightarrow> HeaterState \<Rightarrow> bool" where
  "less_eq_HeaterState s t \<longleftrightarrow> state_num s \<le> state_num t"

definition less_HeaterState :: "HeaterState \<Rightarrow> HeaterState \<Rightarrow> bool" where
  "less_HeaterState s t \<longleftrightarrow> state_num s < state_num t"

instance
  by standard (auto simp: less_eq_HeaterState_def less_HeaterState_def intro: state_num_inj)

end

lemmas state_order = less_eq_HeaterState_def less_HeaterState_def

definition state_byte :: "HeaterState \<Rightarrow> u8" where
  "state_byte s = word_of_nat (state_num s)"

definition state_of :: "u8 \<Rightarrow> HeaterState" where
  "state_of b = (if b = 0 then HFault else if b = 1 then HOffline else if b = 2 then HOff
    else if b = 3 then HSuspended else if b = 4 then HCooling else if b = 5 then HStable
    else HHeating)"

lemma state_of_byte [simp]: "state_of (state_byte s) = s"
  by (cases s) (auto simp: state_of_def state_byte_def)

lemma state_byte_le [simp]: "state_byte s \<le> 6"
  by (cases s) (auto simp: state_byte_def)

datatype ThermalError = ErrNone | NotConfigured | AdcTimeout | ShortCircuit | OpenCircuit
  | OverTemperature | UnderTemperature | LinkTimeout | ControlFault | HeatingTooSlow
  | TemperatureExcursion

fun error_num :: "ThermalError \<Rightarrow> nat" where
  "error_num ErrNone = 0"
| "error_num NotConfigured = 1"
| "error_num AdcTimeout = 2"
| "error_num ShortCircuit = 3"
| "error_num OpenCircuit = 4"
| "error_num OverTemperature = 5"
| "error_num UnderTemperature = 6"
| "error_num LinkTimeout = 7"
| "error_num ControlFault = 8"
| "error_num HeatingTooSlow = 9"
| "error_num TemperatureExcursion = 10"

definition error_byte :: "ThermalError \<Rightarrow> u8" where
  "error_byte e = word_of_nat (error_num e)"

definition error_of :: "u8 \<Rightarrow> ThermalError" where
  "error_of b = (if b = 0 then ErrNone else if b = 1 then NotConfigured
    else if b = 2 then AdcTimeout else if b = 3 then ShortCircuit else if b = 4 then OpenCircuit
    else if b = 5 then OverTemperature else if b = 6 then UnderTemperature
    else if b = 7 then LinkTimeout else if b = 8 then ControlFault
    else if b = 9 then HeatingTooSlow else TemperatureExcursion)"

lemma error_of_byte [simp]: "error_of (error_byte e) = e"
  by (cases e) (auto simp: error_of_def error_byte_def)

lemma error_byte_le [simp]: "error_byte e \<le> 10"
  by (cases e) (auto simp: error_byte_def)

section \<open>Frames and the decoder\<close>

record Frame =
  ftype :: MessageType
  flength :: u8
  payload :: "u8 list"

record Decoder =
  dframe :: Frame
  dstate :: u8
  dindex :: u8
  dcrc :: u8

definition crc_shift :: "u8 \<Rightarrow> u8" where
  "crc_shift crc = (if crc AND 0x80 \<noteq> 0 then push_bit 1 crc XOR 0x07 else push_bit 1 crc)"

definition UpdateCrc :: "u8 \<Rightarrow> u8 \<Rightarrow> u8" where
  "UpdateCrc crc v = (crc_shift ^^ 8) (crc XOR v)"

definition Reset :: "Decoder \<Rightarrow> Decoder" where
  "Reset d = d\<lparr>dstate := 0, dindex := 0, dcrc := 0, dframe := (dframe d)\<lparr>flength := 0\<rparr>\<rparr>"

definition feed :: "Decoder \<Rightarrow> u8 \<Rightarrow> Decoder \<times> Frame option" where
  "feed d b =
    (if dstate d = 0 then
       (if b = SyncByte then (d\<lparr>dstate := 1\<rparr>, None) else (d, None))
     else if dstate d = 1 then
       (d\<lparr>dframe := (dframe d)\<lparr>ftype := msg_of b\<rparr>, dcrc := UpdateCrc 0 b, dstate := 2\<rparr>, None)
     else if dstate d = 2 then
       (if MaxPayload < unat b then (Reset d, None)
        else (d\<lparr>dframe := (dframe d)\<lparr>flength := b\<rparr>, dcrc := UpdateCrc (dcrc d) b,
                dindex := 0, dstate := 3\<rparr>, None))
     else if dstate d = 3 then
       (if dindex d < flength (dframe d) then
          (d\<lparr>dframe := (dframe d)\<lparr>payload := (payload (dframe d))[unat (dindex d) := b]\<rparr>,
             dindex := dindex d + 1, dcrc := UpdateCrc (dcrc d) b\<rparr>, None)
        else (Reset d, if b = dcrc d then Some (dframe d) else None))
     else (d, None))"

fun feed_all :: "Decoder \<Rightarrow> u8 list \<Rightarrow> Decoder \<times> Frame list" where
  "feed_all d [] = (d, [])"
| "feed_all d (b # bs) =
     (case feed d b of (d', r) \<Rightarrow> case feed_all d' bs of (d'', fs) \<Rightarrow>
        (d'', (case r of None \<Rightarrow> fs | Some f \<Rightarrow> f # fs)))"

text \<open>
  \<open>Encode\<close> writes into the caller's buffer of \<open>MaxEncodedFrame\<close> bytes and returns how many
  bytes it wrote; the model returns these bytes, none when the length is refused.
  \<open>payload[i]\<close> is read for \<open>i < length\<close> only.
\<close>

definition Encode :: "MessageType \<Rightarrow> u8 list \<Rightarrow> u8 \<Rightarrow> u8 list" where
  "Encode t p len =
    (if MaxPayload < unat len then []
     else let body = take (unat len) p in
       [SyncByte, msg_byte t, len] @ body
         @ [foldl UpdateCrc (UpdateCrc (UpdateCrc 0 (msg_byte t)) len) body])"

section \<open>Checksums that see every single-byte error\<close>

text \<open>
  What the detection arguments need of a bytewise checksum: for a fixed byte the update
  permutes the checksum values, and for a fixed checksum different bytes give different
  results.
\<close>

locale byte_checksum =
  fixes upd :: "'c \<Rightarrow> 'b \<Rightarrow> 'c"
  assumes upd_inj_crc: "upd c b = upd c' b \<Longrightarrow> c = c'"
    and upd_inj_byte: "upd c b = upd c b' \<Longrightarrow> b = b'"
begin

lemma fold_inj: "foldl upd c bs = foldl upd c' bs \<Longrightarrow> c = c'"
  by (induction bs arbitrary: c c') (auto dest: upd_inj_crc)

lemma fold_single_byte:
  "foldl upd c (xs @ b # ys) = foldl upd c (xs @ b' # ys) \<longleftrightarrow> b = b'"
  by (auto dest: fold_inj upd_inj_byte)

lemma fold_update_changes:
  assumes "i < length bs" and "bs ! i \<noteq> v"
  shows "foldl upd c (bs[i := v]) \<noteq> foldl upd c bs"
proof -
  have "bs = take i bs @ bs ! i # drop (Suc i) bs"
    using assms(1) by (rule id_take_nth_drop)
  moreover have "bs[i := v] = take i bs @ v # drop (Suc i) bs"
    using assms(1) by (rule upd_conv_take_nth_drop)
  ultimately show ?thesis
    using assms(2) fold_single_byte [of c "take i bs" v "drop (Suc i) bs" "bs ! i"] by metis
qed

end

lemma crc_shift_bit: "bit (crc_shift c) n \<longleftrightarrow>
    n < 8 \<and> ((0 < n \<and> bit c (n - 1)) \<noteq> (bit c 7 \<and> n < 3))"
proof -
  have top: "(c AND 0x80 \<noteq> 0) = bit c 7"
    by (simp add: bit_iff_and_push_bit_not_eq_0 [of c 7])
  have "(0x07 :: u8) = mask 3" by (simp add: mask_numeral)
  then have seven: "bit (0x07 :: u8) n \<longleftrightarrow> n < 3"
    by (simp only: bit_mask_iff) auto
  have shift: "bit (push_bit 1 c) n \<longleftrightarrow> n < 8 \<and> 0 < n \<and> bit c (n - 1)"
    by (simp only: bit_push_bit_iff) auto
  have "bit (crc_shift c) n \<longleftrightarrow> bit (push_bit 1 c) n \<noteq> (bit c 7 \<and> bit (0x07 :: u8) n)"
    by (simp only: crc_shift_def top bit_xor_iff split: if_splits) blast
  then show ?thesis by (simp only: seven shift) auto
qed

lemma crc_shift_inj: "crc_shift a = crc_shift b \<Longrightarrow> a = b"
proof (rule bit_word_eqI)
  fix n
  assume eq: "crc_shift a = crc_shift b" and n: "n < LENGTH(8)"
  have all: "bit (crc_shift a) k = bit (crc_shift b) k" for k using eq by simp
  have b7: "bit a 7 = bit b 7" using all [of 0] by (simp add: crc_shift_bit)
  show "bit a n = bit b n"
  proof (cases "n = 7")
    case True
    with b7 show ?thesis by simp
  next
    case False
    with n have "Suc n < 8" by simp
    then show ?thesis using all [of "Suc n"] b7 by (auto simp: crc_shift_bit)
  qed
qed

lemma crc_shift_pow_inj: "(crc_shift ^^ k) a = (crc_shift ^^ k) b \<Longrightarrow> a = b"
  by (induction k) (auto dest: crc_shift_inj)

lemma xor_cancel_right: "(a :: 'a::len word) XOR b = c XOR b \<longleftrightarrow> a = c"
proof
  assume "a XOR b = c XOR b"
  then have "(a XOR b) XOR b = (c XOR b) XOR b" by (rule arg_cong)
  then show "a = c" by (simp only: xor.assoc xor_self_eq xor.right_neutral)
qed simp

lemma UpdateCrc_eq_iff: "UpdateCrc c b = UpdateCrc c' b' \<longleftrightarrow> c XOR b = c' XOR b'"
  by (auto simp: UpdateCrc_def dest: crc_shift_pow_inj)

interpretation crc8: byte_checksum UpdateCrc
proof unfold_locales
  fix c b c' b' :: u8
  show "UpdateCrc c b = UpdateCrc c' b \<Longrightarrow> c = c'"
    by (simp only: UpdateCrc_eq_iff xor_cancel_right)
  show "UpdateCrc c b = UpdateCrc c b' \<Longrightarrow> b = b'"
    by (simp only: UpdateCrc_eq_iff xor.commute [of c] xor_cancel_right)
qed

section \<open>The decoder's invariant\<close>

text \<open>
  \<open>header_bytes\<close> and \<open>frame_crc\<close> name the parts of an encoded frame. \<open>dec_ok\<close> is the
  invariant of the decoder: the payload array has its 16 bytes and, while a payload is
  being received, index and length stay within it. \<open>heard d h\<close> says what a decoder that
  has consumed the bytes \<open>h\<close> since it was reset knows about the last of them.
\<close>

definition header_bytes :: "MessageType \<Rightarrow> u8 \<Rightarrow> u8 list" where
  "header_bytes t len = [msg_byte t, len]"

definition frame_crc :: "MessageType \<Rightarrow> u8 \<Rightarrow> u8 list \<Rightarrow> u8" where
  "frame_crc t len body = foldl UpdateCrc 0 (header_bytes t len @ body)"

lemma Encode_alt:
  "Encode t p len = (if MaxPayload < unat len then []
     else SyncByte # header_bytes t len @ take (unat len) p @ [frame_crc t len (take (unat len) p)])"
  by (simp add: Encode_def header_bytes_def frame_crc_def Let_def)

definition dec_ok :: "Decoder \<Rightarrow> bool" where
  "dec_ok d \<longleftrightarrow> length (payload (dframe d)) = 16 \<and>
     (dstate d = 3 \<longrightarrow> unat (flength (dframe d)) \<le> 16 \<and> dindex d \<le> flength (dframe d))"

definition heard :: "Decoder \<Rightarrow> u8 list \<Rightarrow> bool" where
  "heard d h \<longleftrightarrow> dec_ok d \<and>
     (dstate d = 1 \<longrightarrow> suffix [SyncByte] h) \<and>
     (dstate d = 2 \<longrightarrow> suffix [SyncByte, msg_byte (ftype (dframe d))] h
        \<and> dcrc d = UpdateCrc 0 (msg_byte (ftype (dframe d)))) \<and>
     (dstate d = 3 \<longrightarrow>
        (let got = take (unat (dindex d)) (payload (dframe d)) in
         suffix (SyncByte # header_bytes (ftype (dframe d)) (flength (dframe d)) @ got) h
         \<and> dcrc d = frame_crc (ftype (dframe d)) (flength (dframe d)) got))"

lemma suffix_snoc [simp]: "suffix (xs @ [b]) (ys @ [b]) = suffix xs ys"
  by (simp add: suffix_def)

lemma suffix_sublist_append: "suffix e xs \<Longrightarrow> sublist e (xs @ ys)"
proof -
  assume "suffix e xs"
  then obtain zs where "xs = zs @ e" by (auto simp: suffix_def)
  then have "xs @ ys = zs @ e @ ys" by simp
  then show ?thesis unfolding sublist_def by blast
qed

lemma dec_ok_Reset [simp]: "length (payload (dframe d)) = 16 \<Longrightarrow> dec_ok (Reset d)"
  by (simp add: dec_ok_def Reset_def)

lemma Reset_fields [simp]:
  "dstate (Reset d) = 0" "dindex (Reset d) = 0" "dcrc (Reset d) = 0"
  "payload (dframe (Reset d)) = payload (dframe d)" "ftype (dframe (Reset d)) = ftype (dframe d)"
  "flength (dframe (Reset d)) = 0"
  by (simp_all add: Reset_def)

lemma u8_Suc: "a < (b :: u8) \<Longrightarrow> unat (a + 1) = Suc (unat a)"
proof -
  assume "a < b"
  then have "a \<noteq> - 1" using word_order.extremum [of b] by (auto simp: not_less [symmetric])
  then have "1 + a \<noteq> 0" by (metis add.commute eq_neg_iff_add_eq_0)
  then show ?thesis using unatSuc [of a] by (simp add: add.commute)
qed

lemma u8_less_Suc_le: "a < (b :: u8) \<Longrightarrow> a + 1 \<le> b"
  by (simp add: word_le_nat_alt word_less_nat_alt u8_Suc)

lemma feed_dec_ok:
  assumes "dec_ok d"
  shows "dec_ok (fst (feed d b))"
  using assms by (auto simp: feed_def dec_ok_def MaxPayload_def u8_less_Suc_le)

lemma feed_all_dec_ok: "dec_ok d \<Longrightarrow> dec_ok (fst (feed_all d bs))"
  by (induction bs arbitrary: d) (simp_all add: split_beta feed_dec_ok)

text \<open>The payload store of \<open>Feed\<close> stays inside the 16-byte array.\<close>

lemma payload_index_in_bounds:
  assumes "dec_ok d" and "dstate d = 3" and "dindex d < flength (dframe d)"
  shows "unat (dindex d) < length (payload (dframe d))"
  using assms by (simp add: dec_ok_def word_less_nat_alt)

lemma feed_heard:
  assumes h: "heard d h" and f: "feed d b = (d', r)"
  shows "heard d' (h @ [b])"
proof -
  have ok: "dec_ok d'" using feed_dec_ok [of d b] h f by (simp add: heard_def)
  consider "dstate d = 0" | "dstate d = 1" | "dstate d = 2" | "dstate d = 3"
    | "dstate d \<notin> {0, 1, 2, 3}" by blast
  then show ?thesis
  proof cases
    case 1
    then show ?thesis using f ok h
      by (auto simp: feed_def heard_def suffix_def split: if_splits)
  next
    case 2
    then have "suffix ([SyncByte] @ [b]) (h @ [b])" using h by (simp only: heard_def suffix_snoc)
    then show ?thesis using 2 f ok by (auto simp: feed_def heard_def)
  next
    case 3
    then have "suffix ([SyncByte, msg_byte (ftype (dframe d))] @ [b]) (h @ [b])"
      using h by (simp only: heard_def suffix_snoc)
    then show ?thesis using 3 f ok h
      by (auto simp: feed_def heard_def header_bytes_def frame_crc_def split: if_splits)
  next
    case 4
    show ?thesis
    proof (cases "dindex d < flength (dframe d)")
      case False
      then show ?thesis using 4 f ok by (auto simp: feed_def heard_def)
    next
      case True
      define i where "i = unat (dindex d)"
      have i: "i < length (payload (dframe d))" and i1: "unat (dindex d + 1) = Suc i"
        using payload_index_in_bounds [of d] h 4 True by (simp_all add: heard_def i_def u8_Suc)
      have "take (Suc i) ((payload (dframe d))[i := b]) = take i (payload (dframe d)) @ [b]"
        using i by (simp add: take_Suc_conv_app_nth)
      moreover from h 4 have
        "suffix ((SyncByte # header_bytes (ftype (dframe d)) (flength (dframe d))
            @ take i (payload (dframe d))) @ [b]) (h @ [b])"
        by (simp only: heard_def Let_def i_def suffix_snoc)
      ultimately show ?thesis using 4 True f ok h i1
        by (auto simp: feed_def heard_def i_def [symmetric] Let_def frame_crc_def)
    qed
  next
    case 5
    then show ?thesis using f ok h by (auto simp: feed_def heard_def)
  qed
qed

lemma feed_accepts_encoding:
  assumes h: "heard d h" and f: "feed d b = (d', Some fr)"
  shows "suffix (Encode (ftype fr) (payload fr) (flength fr)) (h @ [b])"
proof -
  from f have s: "dstate d = 3" and no: "\<not> dindex d < flength (dframe d)"
    and b: "b = dcrc d" and fr: "fr = dframe d"
    by (auto simp: feed_def split: if_splits)
  have ok: "dec_ok d" using h by (simp add: heard_def)
  then have i: "dindex d = flength (dframe d)" and le: "unat (flength (dframe d)) \<le> 16"
    using s no by (auto simp: dec_ok_def)
  have "suffix ((SyncByte # header_bytes (ftype fr) (flength fr)
      @ take (unat (flength fr)) (payload fr)) @ [b]) (h @ [b])"
    using h s i by (simp only: heard_def Let_def suffix_snoc fr)
  moreover have "b = frame_crc (ftype fr) (flength fr) (take (unat (flength fr)) (payload fr))"
    using h s i b by (simp add: heard_def Let_def fr)
  ultimately show ?thesis using le fr by (simp add: Encode_alt MaxPayload_def)
qed

section \<open>Sending frames\<close>

lemma feed_all_append:
  "feed_all d (xs @ ys) =
     (fst (feed_all (fst (feed_all d xs)) ys),
      snd (feed_all d xs) @ snd (feed_all (fst (feed_all d xs)) ys))"
  by (induction xs arbitrary: d) (simp_all add: split_beta split: option.splits)

lemma feed_all_heard: "heard d h \<Longrightarrow> heard (fst (feed_all d bs)) (h @ bs)"
proof (induction bs arbitrary: d h)
  case (Cons b bs)
  then have "heard (fst (feed d b)) (h @ [b])"
    by (auto intro: feed_heard simp: prod_eq_iff)
  from Cons.IH [OF this] show ?case by (simp add: split_beta)
qed simp

lemma feed_payload:
  assumes "dec_ok d" and "dstate d = 3"
    and "unat (dindex d) + length bs \<le> unat (flength (dframe d))"
  shows "\<exists>d'. feed_all d bs = (d', []) \<and> dec_ok d' \<and> dstate d' = 3
    \<and> ftype (dframe d') = ftype (dframe d) \<and> flength (dframe d') = flength (dframe d)
    \<and> unat (dindex d') = unat (dindex d) + length bs
    \<and> dcrc d' = foldl UpdateCrc (dcrc d) bs
    \<and> take (unat (dindex d')) (payload (dframe d'))
        = take (unat (dindex d)) (payload (dframe d)) @ bs"
  using assms
proof (induction bs arbitrary: d)
  case Nil
  then show ?case by simp
next
  case (Cons b bs)
  define d1 where "d1 = fst (feed d b)"
  have lt: "dindex d < flength (dframe d)" using Cons.prems(3) by (simp add: word_less_nat_alt)
  have i: "unat (dindex d) < length (payload (dframe d))"
    using payload_index_in_bounds Cons.prems(1,2) lt by simp
  have step: "feed d b = (d1, None)" and st: "dstate d1 = 3"
      and fr: "ftype (dframe d1) = ftype (dframe d)" "flength (dframe d1) = flength (dframe d)"
      and ix: "unat (dindex d1) = Suc (unat (dindex d))" and crc: "dcrc d1 = UpdateCrc (dcrc d) b"
      and pl: "payload (dframe d1) = (payload (dframe d))[unat (dindex d) := b]"
    using Cons.prems(2) lt by (simp_all add: d1_def feed_def u8_Suc)
  have ok: "dec_ok d1" using feed_dec_ok [OF Cons.prems(1), of b] by (simp add: d1_def)
  have "unat (dindex d1) + length bs \<le> unat (flength (dframe d1))"
    using Cons.prems(3) ix fr by simp
  from Cons.IH [OF ok st this] obtain d' where d': "feed_all d1 bs = (d', [])" "dec_ok d'"
      "dstate d' = 3" "ftype (dframe d') = ftype (dframe d1)"
      "flength (dframe d') = flength (dframe d1)" "unat (dindex d') = unat (dindex d1) + length bs"
      "dcrc d' = foldl UpdateCrc (dcrc d1) bs"
      "take (unat (dindex d')) (payload (dframe d'))
        = take (unat (dindex d1)) (payload (dframe d1)) @ bs"
    by blast
  have "take (Suc (unat (dindex d))) ((payload (dframe d))[unat (dindex d) := b])
      = take (unat (dindex d)) (payload (dframe d)) @ [b]"
    using i by (simp add: take_Suc_conv_app_nth)
  then show ?case using step d' fr ix crc pl by (simp add: split_beta)
qed

text \<open>
  Three bytes of header bring an idle decoder to the start of the payload.
\<close>

lemma feed_header:
  assumes "dec_ok d" and "dstate d = 0" and "unat len \<le> MaxPayload"
  shows "\<exists>d'. feed_all d (SyncByte # header_bytes t len) = (d', []) \<and> dec_ok d' \<and> dstate d' = 3
    \<and> ftype (dframe d') = msg_of (msg_byte t) \<and> flength (dframe d') = len \<and> dindex d' = 0
    \<and> dcrc d' = foldl UpdateCrc 0 (header_bytes t len)"
proof -
  have ok: "dec_ok (fst (feed_all d (SyncByte # header_bytes t len)))"
    using assms(1) by (rule feed_all_dec_ok)
  show ?thesis using assms ok
    by (simp add: feed_def header_bytes_def split_beta not_less)
qed

text \<open>
  The bytes of one frame, with any byte in the place of the checksum: the decoder delivers
  the frame exactly when that byte is the checksum, and is idle again either way.
\<close>

lemma feed_frame:
  assumes ok: "dec_ok d" and idle: "dstate d = 0"
    and len: "unat len \<le> MaxPayload" and body: "length body = unat len"
  shows "\<exists>d' fr. feed_all d (SyncByte # header_bytes t len @ body @ [c])
       = (d', if c = frame_crc t len body then [fr] else [])
    \<and> dec_ok d' \<and> dstate d' = 0 \<and> ftype fr = msg_of (msg_byte t) \<and> flength fr = len
    \<and> length (payload fr) = 16 \<and> take (unat len) (payload fr) = body"
proof -
  obtain d1 where d1: "feed_all d (SyncByte # header_bytes t len) = (d1, [])" "dec_ok d1"
      "dstate d1 = 3" "ftype (dframe d1) = msg_of (msg_byte t)" "flength (dframe d1) = len"
      "dindex d1 = 0" "dcrc d1 = foldl UpdateCrc 0 (header_bytes t len)"
    using feed_header [OF ok idle len] by blast
  have "unat (dindex d1) + length body \<le> unat (flength (dframe d1))" using d1 body by simp
  from feed_payload [OF d1(2,3) this] obtain d2 where d2: "feed_all d1 body = (d2, [])" "dec_ok d2"
      "dstate d2 = 3" "ftype (dframe d2) = ftype (dframe d1)"
      "flength (dframe d2) = flength (dframe d1)" "unat (dindex d2) = length body"
      "dcrc d2 = foldl UpdateCrc (dcrc d1) body"
      "take (unat (dindex d2)) (payload (dframe d2)) = body"
    using d1(6) by auto
  have full: "\<not> dindex d2 < flength (dframe d2)"
    using d2 d1 body by (simp add: word_less_nat_alt)
  have crc: "dcrc d2 = frame_crc t len body" using d1 d2 by (simp add: frame_crc_def)
  have last: "feed d2 c = (Reset d2, if c = frame_crc t len body then Some (dframe d2) else None)"
    using d2(3) full crc by (simp add: feed_def)
  have "feed_all d (SyncByte # header_bytes t len @ body @ [c])
      = (Reset d2, if c = frame_crc t len body then [dframe d2] else [])"
    using feed_all_append [of d "SyncByte # header_bytes t len" "body @ [c]"]
      feed_all_append [of d1 body "[c]"] d1(1) d2(1) last by (simp add: split_beta)
  moreover have "length (payload (dframe d2)) = 16" using d2(2) by (simp add: dec_ok_def)
  ultimately show ?thesis using d1 d2 body by (intro exI) auto
qed

text \<open>One message through the link: sent on an idle line, it is received, once, as it was sent.\<close>

definition delivers :: "Frame \<Rightarrow> MessageType \<Rightarrow> u8 list \<Rightarrow> u8 \<Rightarrow> bool" where
  "delivers fr t p len \<longleftrightarrow> ftype fr = t \<and> flength fr = len \<and> length (payload fr) = 16
     \<and> take (unat len) (payload fr) = take (unat len) p"

lemma feed_encoded:
  assumes "dec_ok d" and "dstate d = 0" and "unat len \<le> MaxPayload"
    and "unat len \<le> length p" and "msg_ok t"
  shows "\<exists>d' fr. feed_all d (Encode t p len) = (d', [fr]) \<and> dec_ok d' \<and> dstate d' = 0
    \<and> delivers fr t p len"
  using feed_frame [OF assms(1-3), of "take (unat len) p" t "frame_crc t len (take (unat len) p)"]
    assms(3-5) by (auto simp: Encode_alt delivers_def)

section \<open>The link as its users see it\<close>

text \<open>
  What both firmwares rely on: an idle receiver that is fed the bytes of a message
  delivers a matching frame and is idle again, and feeding is compositional. Everything
  about streams of messages follows from these laws alone.
\<close>

locale message_link =
  fixes step_all :: "'d \<Rightarrow> 'b list \<Rightarrow> 'd \<times> 'f list"
    and enc :: "'m \<Rightarrow> 'b list"
    and idle :: "'d \<Rightarrow> bool"
    and sendable :: "'m \<Rightarrow> bool"
    and matches :: "'f \<Rightarrow> 'm \<Rightarrow> bool"
  assumes step_nil: "step_all d [] = (d, [])"
    and step_append: "step_all d (xs @ ys) =
      (fst (step_all (fst (step_all d xs)) ys),
       snd (step_all d xs) @ snd (step_all (fst (step_all d xs)) ys))"
    and step_enc: "idle d \<Longrightarrow> sendable m \<Longrightarrow>
      \<exists>d' f. step_all d (enc m) = (d', [f]) \<and> idle d' \<and> matches f m"
begin

lemma stream_received:
  assumes "idle d" and "list_all sendable ms"
  shows "\<exists>d' fs. step_all d (concat (map enc ms)) = (d', fs) \<and> idle d' \<and> list_all2 matches fs ms"
  using assms
proof (induction ms arbitrary: d)
  case Nil
  then show ?case by (simp add: step_nil)
next
  case (Cons m ms)
  obtain d1 f where 1: "step_all d (enc m) = (d1, [f])" "idle d1" "matches f m"
    using step_enc [of d m] Cons.prems by auto
  obtain d2 fs where 2: "step_all d1 (concat (map enc ms)) = (d2, fs)" "idle d2"
      "list_all2 matches fs ms"
    using Cons.IH [OF 1(2)] Cons.prems(2) by auto
  show ?case using 1 2 step_append [of d "enc m" "concat (map enc ms)"] by auto
qed

lemma stream_after_noise:
  assumes "idle (fst (step_all d noise))" and "list_all sendable ms"
  shows "\<exists>d' fs. step_all d (noise @ concat (map enc ms)) = (d', snd (step_all d noise) @ fs)
    \<and> idle d' \<and> list_all2 matches fs ms"
  using stream_received [OF assms] step_append [of d noise "concat (map enc ms)"] by auto

end

definition enc_msg :: "MessageType \<times> u8 list \<Rightarrow> u8 list" where
  "enc_msg m = Encode (fst m) (snd m) (word_of_nat (length (snd m)))"

definition msg_sendable :: "MessageType \<times> u8 list \<Rightarrow> bool" where
  "msg_sendable m \<longleftrightarrow> msg_ok (fst m) \<and> length (snd m) \<le> MaxPayload"

definition dec_idle :: "Decoder \<Rightarrow> bool" where
  "dec_idle d \<longleftrightarrow> dec_ok d \<and> dstate d = 0"

definition received_as :: "Frame \<Rightarrow> MessageType \<times> u8 list \<Rightarrow> bool" where
  "received_as fr m \<longleftrightarrow> ftype fr = fst m \<and> unat (flength fr) = length (snd m)
     \<and> length (payload fr) = 16 \<and> take (length (snd m)) (payload fr) = snd m"

lemma unat_len8: "n \<le> MaxPayload \<Longrightarrow> unat (word_of_nat n :: u8) = n"
  by (simp add: MaxPayload_def unat_of_nat_small)

interpretation lpc_link: message_link feed_all enc_msg dec_idle msg_sendable received_as
proof unfold_locales
  fix d :: Decoder and m :: "MessageType \<times> u8 list" and xs ys :: "u8 list"
  show "feed_all d [] = (d, [])" by simp
  show "feed_all d (xs @ ys) = (fst (feed_all (fst (feed_all d xs)) ys),
      snd (feed_all d xs) @ snd (feed_all (fst (feed_all d xs)) ys))"
    by (rule feed_all_append)
  assume "dec_idle d" and m: "msg_sendable m"
  then have d: "dec_ok d" "dstate d = 0" by (simp_all add: dec_idle_def)
  have len: "unat (word_of_nat (length (snd m)) :: u8) = length (snd m)"
    using m by (simp add: msg_sendable_def unat_len8)
  show "\<exists>d' f. feed_all d (enc_msg m) = (d', [f]) \<and> dec_idle d' \<and> received_as f m"
    using feed_encoded [OF d, of "word_of_nat (length (snd m))" "snd m" "fst m"] m len
    by (auto simp: enc_msg_def msg_sendable_def dec_idle_def received_as_def delivers_def)
qed

section \<open>Properties of the protocol\<close>

text \<open>
  C14. Round trip: any sequence of messages with payloads of at most 16 bytes, encoded one
  after the other and fed byte by byte to an idle decoder, is received as exactly these
  messages, in order, and the decoder is idle again.
\<close>

theorem protocol_roundtrip:
  assumes "dec_idle d" and "list_all msg_sendable ms"
  shows "\<exists>d' fs. feed_all d (concat (map enc_msg ms)) = (d', fs) \<and> dec_idle d'
    \<and> list_all2 received_as fs ms"
  using assms by (rule lpc_link.stream_received)

definition fresh_decoder :: Decoder where
  "fresh_decoder = Reset \<lparr>dframe = \<lparr>ftype = OtherMessage 0, flength = 0, payload = replicate 16 0\<rparr>,
     dstate = 0, dindex = 0, dcrc = 0\<rparr>"

lemma fresh_idle [simp]: "dec_idle fresh_decoder"
  by (simp add: fresh_decoder_def dec_idle_def)

theorem protocol_roundtrip_witness:
  "\<exists>d' fs. feed_all fresh_decoder (concat (map enc_msg [(Ping, [Version]), (GpioState, [0x27, 1])]))
      = (d', fs) \<and> dec_idle d' \<and> list_all2 received_as fs [(Ping, [Version]), (GpioState, [0x27, 1])]"
  by (rule protocol_roundtrip) (simp_all add: msg_sendable_def msg_ok_def MaxPayload_def)

lemma deliveries_encoded:
  assumes "heard d h" and "fr \<in> set (snd (feed_all d bs))"
  shows "sublist (Encode (ftype fr) (payload fr) (flength fr)) (h @ bs)
    \<and> unat (flength fr) \<le> MaxPayload"
  using assms
proof (induction bs arbitrary: d h)
  case (Cons b bs)
  obtain d1 r where f: "feed d b = (d1, r)" by (cases "feed d b")
  have h1: "heard d1 (h @ [b])" using Cons.prems(1) f by (rule feed_heard)
  from Cons.prems(2) f consider "r = Some fr" | "fr \<in> set (snd (feed_all d1 bs))"
    by (auto simp: split_beta split: option.splits)
  then show ?case
  proof cases
    case 1
    then have "suffix (Encode (ftype fr) (payload fr) (flength fr)) (h @ [b])"
      using feed_accepts_encoding [OF Cons.prems(1)] f by blast
    then have "sublist (Encode (ftype fr) (payload fr) (flength fr)) ((h @ [b]) @ bs)"
      by (rule suffix_sublist_append)
    moreover have "unat (flength fr) \<le> MaxPayload"
      using 1 f Cons.prems(1)
      by (auto simp: feed_def heard_def dec_ok_def MaxPayload_def split: if_splits)
    ultimately show ?thesis by simp
  next
    case 2
    from Cons.IH [OF h1 2] show ?thesis by simp
  qed
qed simp

text \<open>
  C15. Soundness of reception: whatever bytes arrive, every frame a freshly reset decoder
  delivers is one whose complete encoding, checksum included, occurs in the bytes received,
  and its length never exceeds the 16 bytes of the payload array.
\<close>

theorem protocol_no_forgery:
  "fr \<in> set (snd (feed_all fresh_decoder bs)) \<Longrightarrow>
     sublist (Encode (ftype fr) (payload fr) (flength fr)) bs \<and> unat (flength fr) \<le> MaxPayload"
  using deliveries_encoded [of fresh_decoder "[]" fr bs]
  by (simp add: heard_def fresh_decoder_def)


theorem protocol_no_forgery_witness:
  "\<exists>fr. fr \<in> set (snd (feed_all fresh_decoder (0x55 # enc_msg (Ping, [Version]))))
    \<and> sublist (Encode (ftype fr) (payload fr) (flength fr)) (0x55 # enc_msg (Ping, [Version]))"
proof -
  have s: "msg_sendable (Ping, [Version])"
    by (simp add: msg_sendable_def msg_ok_def MaxPayload_def)
  have n: "feed fresh_decoder 0x55 = (fresh_decoder, None)"
    by (simp add: feed_def fresh_decoder_def SyncByte_def)
  obtain d' fr where "feed_all fresh_decoder (enc_msg (Ping, [Version])) = (d', [fr])"
    using lpc_link.step_enc [OF fresh_idle s] by blast
  then have "fr \<in> set (snd (feed_all fresh_decoder (0x55 # enc_msg (Ping, [Version]))))"
    by (simp add: n)
  then show ?thesis using protocol_no_forgery by blast
qed

lemma frame_crc_inj_type: "frame_crc t len body = frame_crc t' len body \<Longrightarrow> msg_byte t = msg_byte t'"
  using crc8.fold_single_byte [of 0 "[]" "msg_byte t" "len # body" "msg_byte t'"]
  by (simp add: frame_crc_def header_bytes_def)

lemma frame_crc_inj_body:
  "i < length body \<Longrightarrow> body ! i \<noteq> v \<Longrightarrow> frame_crc t len (body[i := v]) \<noteq> frame_crc t len body"
  using crc8.fold_update_changes [of i body v "foldl UpdateCrc 0 (header_bytes t len)"]
  by (simp add: frame_crc_def)

text \<open>
  C35. Error detection: corrupt any single byte of an encoded frame other than the sync byte
  and the length byte (the type, any payload byte, or the checksum) in any way at all, and
  an idle decoder delivers nothing; it is idle again after the last byte.
\<close>

theorem protocol_detects_corruption:
  assumes d: "dec_idle d" and m: "msg_sendable m"
    and i: "i < length (enc_msg m)" "i \<noteq> 0" "i \<noteq> 2" and v: "v \<noteq> enc_msg m ! i"
  shows "\<exists>d'. feed_all d ((enc_msg m)[i := v]) = (d', []) \<and> dec_idle d'"
proof -
  obtain t p where mtp: "m = (t, p)" by (cases m)
  define len :: u8 where "len = word_of_nat (length p)"
  have len: "unat len = length p" "unat len \<le> MaxPayload"
    using m unat_len8 by (auto simp: mtp len_def msg_sendable_def)
  have enc: "enc_msg m = SyncByte # header_bytes t len @ p @ [frame_crc t len p]"
    using len by (simp add: enc_msg_def Encode_alt mtp len_def [symmetric])
  have ok: "dec_ok d" "dstate d = 0" using d by (simp_all add: dec_idle_def)
  have reject: "\<exists>d'. feed_all d (SyncByte # header_bytes t' len @ p' @ [c]) = (d', []) \<and> dec_idle d'"
    if "length p' = length p" and "c \<noteq> frame_crc t' len p'" for t' p' c
    using feed_frame [OF ok len(2), of p' t' c] that len by (auto simp: dec_idle_def)
  consider "i = 1" | j where "i = 3 + j" "j < length p" | "i = 3 + length p"
  proof -
    have "i < 4 + length p" using i(1) by (simp add: enc header_bytes_def)
    then have "i = 1 \<or> i = 3 + (i - 3) \<and> i - 3 < length p \<or> i = 3 + length p"
      using i(2,3) by linarith
    then show thesis using that by blast
  qed
  then show ?thesis
  proof cases
    case 1
    then have "(enc_msg m)[i := v] = SyncByte # header_bytes (msg_of v) len @ p @ [frame_crc t len p]"
      by (simp add: enc header_bytes_def)
    moreover have "frame_crc t len p \<noteq> frame_crc (msg_of v) len p"
      using v 1 by (auto simp: enc header_bytes_def dest: frame_crc_inj_type)
    ultimately show ?thesis using reject [of p] by simp
  next
    case (2 j)
    then have "(enc_msg m)[i := v] = SyncByte # header_bytes t len @ p[j := v] @ [frame_crc t len p]"
      by (simp add: enc header_bytes_def numeral_3_eq_3 list_update_append)
    moreover have "p ! j \<noteq> v"
      using v 2 by (simp add: enc header_bytes_def numeral_3_eq_3 nth_append)
    moreover have "frame_crc t len p \<noteq> frame_crc t len (p[j := v])"
      using frame_crc_inj_body [of j p v t len] 2 \<open>p ! j \<noteq> v\<close> by simp
    ultimately show ?thesis using reject [of "p[j := v]" "frame_crc t len p" t] by simp
  next
    case 3
    then have "(enc_msg m)[i := v] = SyncByte # header_bytes t len @ p @ [v]"
      by (simp add: enc header_bytes_def numeral_3_eq_3 list_update_append)
    moreover have "v \<noteq> frame_crc t len p"
      using v 3 by (simp add: enc header_bytes_def numeral_3_eq_3 nth_append)
    ultimately show ?thesis using reject [of p v t] by simp
  qed
qed

theorem protocol_detects_corruption_witness:
  "\<exists>d'. feed_all fresh_decoder ((enc_msg (GpioState, [0x27, 1]))[4 := 0]) = (d', []) \<and> dec_idle d'"
  by (rule protocol_detects_corruption)
    (simp_all add: msg_sendable_def msg_ok_def MaxPayload_def enc_msg_def Encode_def)

section \<open>Resynchronisation\<close>

text \<open>
  \<open>backlog d\<close> bounds how many bytes a decoder can still swallow before it is idle when
  the line carries only zeros.
\<close>

definition backlog :: "Decoder \<Rightarrow> nat" where
  "backlog d = (if dstate d = 1 then 3 else if dstate d = 2 then 2
     else if dstate d = 3 then 1 + (unat (flength (dframe d)) - unat (dindex d)) else 0)"

definition dec_live :: "Decoder \<Rightarrow> bool" where
  "dec_live d \<longleftrightarrow> dec_ok d \<and> dstate d \<in> {0, 1, 2, 3}"

lemma feed_dec_live: "dec_live d \<Longrightarrow> dec_live (fst (feed d b))"
  using feed_dec_ok [of d b] by (auto simp: dec_live_def feed_def)

lemma feed_all_dec_live: "dec_live d \<Longrightarrow> dec_live (fst (feed_all d bs))"
  by (induction bs arbitrary: d) (simp_all add: split_beta feed_dec_live)

lemma feed_zero_backlog:
  assumes "dec_live d"
  shows "backlog (fst (feed d 0)) \<le> backlog d - 1"
  using assms
  by (auto simp: dec_live_def backlog_def feed_def SyncByte_def MaxPayload_def dec_ok_def u8_Suc
      word_less_nat_alt)

lemma feed_zeros_idle:
  assumes "dec_live d" and "backlog d \<le> n"
  shows "dec_idle (fst (feed_all d (replicate n 0)))"
  using assms
proof (induction n arbitrary: d)
  case 0
  then show ?case by (auto simp: dec_live_def dec_idle_def backlog_def split: if_splits)
next
  case (Suc n)
  have "backlog (fst (feed d 0)) \<le> n"
    using feed_zero_backlog [OF Suc.prems(1)] Suc.prems(2) by linarith
  with Suc.IH [OF feed_dec_live [OF Suc.prems(1)]] show ?case by (simp add: split_beta)
qed

lemma backlog_le_17: "dec_live d \<Longrightarrow> backlog d \<le> 17"
  by (auto simp: dec_live_def backlog_def dec_ok_def)

text \<open>
  C36. Resynchronisation: after any bytes at all, 17 idle (zero) bytes bring the decoder
  back to the idle state, and any messages sent after that are received exactly. The decoder
  never gets stuck, and no garbage on the line can write outside its payload array.
\<close>

theorem protocol_resynchronises:
  assumes "list_all msg_sendable ms"
  shows "\<exists>d' fs. feed_all fresh_decoder (noise @ replicate 17 0 @ concat (map enc_msg ms))
      = (d', snd (feed_all fresh_decoder (noise @ replicate 17 0)) @ fs)
    \<and> dec_idle d' \<and> list_all2 received_as fs ms"
proof -
  define d where "d = fst (feed_all fresh_decoder noise)"
  have "dec_live d"
    unfolding d_def by (rule feed_all_dec_live) (simp add: dec_live_def fresh_decoder_def)
  then have "dec_idle (fst (feed_all d (replicate 17 0)))"
    by (intro feed_zeros_idle backlog_le_17)
  then have "dec_idle (fst (feed_all fresh_decoder (noise @ replicate 17 0)))"
    by (simp add: feed_all_append d_def)
  from lpc_link.stream_after_noise [OF this assms] show ?thesis by simp
qed

theorem protocol_resynchronises_witness:
  "\<exists>d' fs. feed_all fresh_decoder ([0xA5, 1, 16] @ replicate 17 0 @ concat (map enc_msg [(Ping, [Version])]))
      = (d', snd (feed_all fresh_decoder ([0xA5, 1, 16] @ replicate 17 0)) @ fs)
    \<and> dec_idle d' \<and> list_all2 received_as fs [(Ping, [Version])]"
  by (rule protocol_resynchronises) (simp add: msg_sendable_def msg_ok_def MaxPayload_def)

end
