(* ===== verification/LpcGpio.thy ===== *)
theory LpcGpio
  imports LpcProtocol
begin

text \<open>
  The pin driver of the coprocessor, \<open>LpcFirmware/src/Gpio.cpp\<close>, over a memory-mapped
  register file. \<open>regs\<close> holds, for each address the firmware writes, the value last written
  there: IOCON (pin function and pulls), the GPIO direction registers, the masked GPIO data
  registers and the timers behave as memory for the writer. What the masked data register
  \<^emph>\<open>reads\<close> is the level of the pin, which comes from outside: the functions that read pins
  take the levels as the argument \<open>lvl\<close>. \<open>pstates\<close> is the static array \<open>states\<close>.
\<close>

record PinDefinition =
  pd_id :: u8
  pd_ioconOffset :: u16
  pd_gpioFunction :: u8
  pd_analogCapable :: bool

record PinState =
  ps_mode :: GpioMode
  ps_lastValue :: bool

record Hw =
  regs :: "u32 \<Rightarrow> u32"
  pstates :: "PinState list"

definition pins :: "PinDefinition list" where
  "pins =
    [\<lparr>pd_id = PinFilamentRunout, pd_ioconOffset = 0x020, pd_gpioFunction = 0, pd_analogCapable = False\<rparr>,
     \<lparr>pd_id = PinRotation, pd_ioconOffset = 0x028, pd_gpioFunction = 0, pd_analogCapable = False\<rparr>,
     \<lparr>pd_id = PinHotendFilament, pd_ioconOffset = 0x04C, pd_gpioFunction = 0, pd_analogCapable = False\<rparr>,
     \<lparr>pd_id = PinStatusLed, pd_ioconOffset = 0x058, pd_gpioFunction = 0, pd_analogCapable = False\<rparr>,
     \<lparr>pd_id = PinHeater, pd_ioconOffset = 0x064, pd_gpioFunction = 0, pd_analogCapable = False\<rparr>,
     \<lparr>pd_id = PinHotendFan, pd_ioconOffset = 0x044, pd_gpioFunction = 0, pd_analogCapable = False\<rparr>,
     \<lparr>pd_id = PinReflowFan, pd_ioconOffset = 0x06C, pd_gpioFunction = 0, pd_analogCapable = True\<rparr>,
     \<lparr>pd_id = PinHotendNtc, pd_ioconOffset = 0x078, pd_gpioFunction = 1, pd_analogCapable = True\<rparr>]"

fun find_index :: "('a \<Rightarrow> bool) \<Rightarrow> 'a list \<Rightarrow> nat option" where
  "find_index P [] = None"
| "find_index P (x # xs) = (if P x then Some 0 else map_option Suc (find_index P xs))"

text \<open>\<open>FindPin\<close> returns -1 for a pin it does not know: \<open>None\<close>.\<close>

definition FindPin :: "u8 \<Rightarrow> nat option" where
  "FindPin pin = find_index (\<lambda>p. pd_id p = pin) pins"

definition LPC_IOCON_BASE :: u32 where "LPC_IOCON_BASE = 0x40044000"
definition LPC_SYSCON_SYSAHBCLKCTRL :: u32 where "LPC_SYSCON_SYSAHBCLKCTRL = 0x40048080"

definition Iocon :: "nat \<Rightarrow> u32" where
  "Iocon index = LPC_IOCON_BASE + ucast (pd_ioconOffset (pins ! index))"

definition pin_mask :: "u8 \<Rightarrow> u32" where
  "pin_mask pin = push_bit (unat (pin AND 0x0F)) 1"

definition port_base :: "u8 \<Rightarrow> u32" where
  "port_base pin = 0x50000000 + ucast (drop_bit 4 pin) * 0x10000"

definition Direction :: "u8 \<Rightarrow> u32" where
  "Direction pin = port_base pin + 0x8000"

definition MaskedData :: "u8 \<Rightarrow> u32" where
  "MaskedData pin = port_base pin + push_bit 2 (pin_mask pin)"

definition reg_write :: "u32 \<Rightarrow> u32 \<Rightarrow> Hw \<Rightarrow> Hw" where
  "reg_write a v hw = hw\<lparr>regs := (regs hw)(a := v)\<rparr>"

definition set_pstate :: "nat \<Rightarrow> PinState \<Rightarrow> Hw \<Rightarrow> Hw" where
  "set_pstate i s hw = hw\<lparr>pstates := (pstates hw)[i := s]\<rparr>"

text \<open>The masked data register reads as the pin's level at the pin's own bit.\<close>

definition ReadRaw :: "(u8 \<Rightarrow> bool) \<Rightarrow> u8 \<Rightarrow> bool" where
  "ReadRaw lvl pin = ((if lvl pin then pin_mask pin else 0) AND pin_mask pin \<noteq> 0)"

definition WriteRaw :: "u8 \<Rightarrow> bool \<Rightarrow> Hw \<Rightarrow> Hw" where
  "WriteRaw pin v hw = reg_write (MaskedData pin) (if v then pin_mask pin else 0) hw"

definition Configure :: "(u8 \<Rightarrow> bool) \<Rightarrow> u8 \<Rightarrow> GpioMode \<Rightarrow> bool \<Rightarrow> Hw \<Rightarrow> bool \<times> Hw" where
  "Configure lvl pin mode initialValue hw =
    (case FindPin pin of None \<Rightarrow> (False, hw)
     | Some index \<Rightarrow>
       let m = pin_mask pin; io = Iocon index in
       if mode = Analog then
         let hw1 = reg_write io ((regs hw io AND NOT 0x9F) OR 0x02) hw;
             hw2 = reg_write (Direction pin) (regs hw1 (Direction pin) AND NOT m) hw1
         in (True, set_pstate index ((pstates hw2 ! index)\<lparr>ps_mode := mode\<rparr>) hw2)
       else
         let hw1 = reg_write io ((regs hw io AND NOT (0x07 OR push_bit 3 0x03))
                     OR ucast (pd_gpioFunction (pins ! index))) hw;
             hw2 = (if pd_analogCapable (pins ! index)
                    then reg_write io (regs hw1 io OR push_bit 7 1) hw1 else hw1);
             hw3 = (if mode = InputPullup
                    then reg_write io (regs hw2 io OR push_bit 3 0x02) hw2 else hw2);
             hw4 = (if mode = Output \<or> mode = PwmMode then
                      let w = WriteRaw pin initialValue hw3
                      in reg_write (Direction pin) (regs w (Direction pin) OR m) w
                    else reg_write (Direction pin) (regs hw3 (Direction pin) AND NOT m) hw3);
             st = (pstates hw4 ! index)\<lparr>ps_mode := mode\<rparr>;
             st' = (if mode = Input \<or> mode = InputPullup
                    then st\<lparr>ps_lastValue := \<not> ReadRaw lvl pin\<rparr> else st)
         in (True, set_pstate index st' hw4))"

fun init_pins :: "(u8 \<Rightarrow> bool) \<Rightarrow> nat \<Rightarrow> PinDefinition list \<Rightarrow> Hw \<Rightarrow> Hw" where
  "init_pins lvl i [] hw = hw"
| "init_pins lvl i (p # ps) hw =
     init_pins lvl (Suc i) ps
       (snd (Configure lvl (pd_id p) Disabled False
         (set_pstate i \<lparr>ps_mode = Disabled, ps_lastValue = False\<rparr> hw)))"

definition Gpio_Init :: "(u8 \<Rightarrow> bool) \<Rightarrow> Hw \<Rightarrow> Hw" where
  "Gpio_Init lvl hw = init_pins lvl 0 pins
     (reg_write LPC_SYSCON_SYSAHBCLKCTRL
       (regs hw LPC_SYSCON_SYSAHBCLKCTRL OR (push_bit 16 1 OR push_bit 6 1)) hw)"

definition Gpio_Write :: "u8 \<Rightarrow> bool \<Rightarrow> Hw \<Rightarrow> bool \<times> Hw" where
  "Gpio_Write pin v hw =
    (case FindPin pin of None \<Rightarrow> (False, hw)
     | Some index \<Rightarrow> if ps_mode (pstates hw ! index) \<noteq> Output then (False, hw)
                     else (True, WriteRaw pin v hw))"

definition is_input :: "GpioMode \<Rightarrow> bool" where
  "is_input m \<longleftrightarrow> m = Input \<or> m = InputPullup"

text \<open>
  \<open>Poll\<close> scans the pins in table order and reports the first input whose level differs from
  the last one reported: \<open>Some (pin, value)\<close> where the C++ function returns true and sets its
  output parameters.
\<close>

fun poll_from :: "(u8 \<Rightarrow> bool) \<Rightarrow> nat \<Rightarrow> PinDefinition list \<Rightarrow> Hw \<Rightarrow> (u8 \<times> bool) option \<times> Hw" where
  "poll_from lvl i [] hw = (None, hw)"
| "poll_from lvl i (p # ps) hw =
     (if \<not> is_input (ps_mode (pstates hw ! i)) then poll_from lvl (Suc i) ps hw
      else let current = ReadRaw lvl (pd_id p) in
        if current \<noteq> ps_lastValue (pstates hw ! i) then
          (Some (pd_id p, current),
           set_pstate i ((pstates hw ! i)\<lparr>ps_lastValue := current\<rparr>) hw)
        else poll_from lvl (Suc i) ps hw)"

definition Poll :: "(u8 \<Rightarrow> bool) \<Rightarrow> Hw \<Rightarrow> (u8 \<times> bool) option \<times> Hw" where
  "Poll lvl hw = poll_from lvl 0 pins hw"

text \<open>\<open>while (Gpio::Poll(pin, value)) Send(...)\<close> with the levels unchanged meanwhile.\<close>

fun poll_all :: "nat \<Rightarrow> (u8 \<Rightarrow> bool) \<Rightarrow> Hw \<Rightarrow> (u8 \<times> bool) list option \<times> Hw" where
  "poll_all 0 lvl hw = (None, hw)"
| "poll_all (Suc fuel) lvl hw =
     (case Poll lvl hw of
        (None, hw') \<Rightarrow> (Some [], hw')
      | (Some e, hw') \<Rightarrow> (case poll_all fuel lvl hw' of
            (None, hw'') \<Rightarrow> (None, hw'')
          | (Some es, hw'') \<Rightarrow> (Some (e # es), hw'')))"

section \<open>Registers\<close>

lemma reg_write_regs [simp]: "regs (reg_write a v hw) b = (if b = a then v else regs hw b)"
  by (simp add: reg_write_def)

lemma reg_write_pstates [simp]: "pstates (reg_write a v hw) = pstates hw"
  by (simp add: reg_write_def)

lemma set_pstate_sel [simp]:
  "regs (set_pstate i s hw) = regs hw" "pstates (set_pstate i s hw) = (pstates hw)[i := s]"
  by (simp_all add: set_pstate_def)

lemma length_pins [simp]: "length pins = 8"
  by (simp add: pins_def)

lemma FindPin_eval:
  "FindPin PinFilamentRunout = Some 0" "FindPin PinRotation = Some 1"
  "FindPin PinHotendFilament = Some 2" "FindPin PinStatusLed = Some 3" "FindPin PinHeater = Some 4"
  "FindPin PinHotendFan = Some 5" "FindPin PinReflowFan = Some 6" "FindPin PinHotendNtc = Some 7"
  by (simp_all add: FindPin_def pins_def pin_ids)

lemma find_index_Some:
  "find_index P xs = Some i \<Longrightarrow> i < length xs \<and> P (xs ! i)"
  by (induction xs arbitrary: i) (auto split: if_splits)

lemma FindPin_Some: "FindPin pin = Some i \<Longrightarrow> i < 8 \<and> pd_id (pins ! i) = pin"
  unfolding FindPin_def by (drule find_index_Some) simp

lemma pin_mask_eval:
  "pin_mask PinFilamentRunout = 0x80" "pin_mask PinRotation = 0x02"
  "pin_mask PinHotendFilament = 0x40" "pin_mask PinStatusLed = 0x400" "pin_mask PinHeater = 0x200"
  "pin_mask PinHotendFan = 0x20" "pin_mask PinReflowFan = 0x400" "pin_mask PinHotendNtc = 0x01"
  by (simp_all add: pin_mask_def pin_ids)

lemma port_base_eval:
  "port_base PinFilamentRunout = 0x50020000" "port_base PinRotation = 0x50020000"
  "port_base PinHotendFilament = 0x50000000" "port_base PinStatusLed = 0x50020000"
  "port_base PinHeater = 0x50000000" "port_base PinHotendFan = 0x50020000"
  "port_base PinReflowFan = 0x50010000" "port_base PinHotendNtc = 0x50010000"
  by (simp_all add: port_base_def pin_ids)

lemmas addr_eval = Direction_def MaskedData_def port_base_eval pin_mask_eval

lemma Iocon_eval:
  "Iocon 0 = 0x40044020" "Iocon (Suc 0) = 0x40044028" "Iocon 2 = 0x4004404C" "Iocon 3 = 0x40044058"
  "Iocon 4 = 0x40044064" "Iocon 5 = 0x40044044" "Iocon 6 = 0x4004406C" "Iocon 7 = 0x40044078"
  by (simp_all add: Iocon_def pins_def LPC_IOCON_BASE_def)

lemma index_cases:
  assumes "i < (8::nat)"
  obtains "i = 0" | "i = 1" | "i = 2" | "i = 3" | "i = 4" | "i = 5" | "i = 6" | "i = 7"
  using assms by linarith

lemma known_pin_cases:
  assumes "FindPin pin = Some i"
  obtains "pin = PinFilamentRunout" "i = 0" | "pin = PinRotation" "i = 1"
  | "pin = PinHotendFilament" "i = 2" | "pin = PinStatusLed" "i = 3" | "pin = PinHeater" "i = 4"
  | "pin = PinHotendFan" "i = 5" | "pin = PinReflowFan" "i = 6" | "pin = PinHotendNtc" "i = 7"
proof -
  have "i < 8" and "pd_id (pins ! i) = pin" using FindPin_Some [OF assms] by simp_all
  then show thesis
    by (cases rule: index_cases [of i]) (auto simp: pins_def intro: that)
qed

lemma ReadRaw_lvl: "FindPin pin = Some i \<Longrightarrow> ReadRaw lvl pin = lvl pin"
  by (erule known_pin_cases) (simp_all add: ReadRaw_def pin_mask_eval)

section \<open>Polling the inputs\<close>

text \<open>
  \<open>pend lvl hw i\<close>: table entry \<open>i\<close> is an input whose level has not been reported yet.
\<close>

definition pend :: "(u8 \<Rightarrow> bool) \<Rightarrow> Hw \<Rightarrow> nat \<Rightarrow> bool" where
  "pend lvl hw i \<longleftrightarrow> is_input (ps_mode (pstates hw ! i))
     \<and> lvl (pd_id (pins ! i)) \<noteq> ps_lastValue (pstates hw ! i)"

definition pending :: "(u8 \<Rightarrow> bool) \<Rightarrow> Hw \<Rightarrow> nat list" where
  "pending lvl hw = filter (pend lvl hw) [0..<8]"

definition pin_event :: "(u8 \<Rightarrow> bool) \<Rightarrow> nat \<Rightarrow> u8 \<times> bool" where
  "pin_event lvl i = (pd_id (pins ! i), lvl (pd_id (pins ! i)))"

definition mark_seen :: "(u8 \<Rightarrow> bool) \<Rightarrow> nat \<Rightarrow> Hw \<Rightarrow> Hw" where
  "mark_seen lvl i hw =
     set_pstate i ((pstates hw ! i)\<lparr>ps_lastValue := lvl (pd_id (pins ! i))\<rparr>) hw"

lemma ReadRaw_pins: "i < 8 \<Longrightarrow> ReadRaw lvl (pd_id (pins ! i)) = lvl (pd_id (pins ! i))"
proof -
  assume "i < 8"
  then have "FindPin (pd_id (pins ! i)) = Some i"
    by (cases rule: index_cases [of i]) (auto simp: pins_def FindPin_eval)
  then show ?thesis by (rule ReadRaw_lvl)
qed

lemma poll_from_eq:
  assumes "ps = drop i pins"
  shows "poll_from lvl i ps hw =
    (case filter (pend lvl hw) [i..<8] of [] \<Rightarrow> (None, hw)
     | k # _ \<Rightarrow> (Some (pin_event lvl k), mark_seen lvl k hw))"
  using assms
proof (induction ps arbitrary: i)
  case Nil
  then have "8 \<le> i" by simp
  then show ?case by simp
next
  case (Cons p ps)
  then have i: "i < 8" by (metis drop_eq_Nil length_pins list.distinct(1) not_less)
  then have p: "p = pins ! i" and rest: "ps = drop (Suc i) pins"
    using Cons.prems by (simp_all add: Cons_nth_drop_Suc [symmetric])
  have up: "[i..<8] = i # [Suc i..<8]" using i by (rule upt_conv_Cons)
  show ?case
    using Cons.IH [OF rest] i
    by (simp add: up p pend_def ReadRaw_pins pin_event_def mark_seen_def Let_def)
qed

lemma Poll_eq:
  "Poll lvl hw = (case pending lvl hw of [] \<Rightarrow> (None, hw)
     | k # _ \<Rightarrow> (Some (pin_event lvl k), mark_seen lvl k hw))"
  by (simp add: Poll_def pending_def poll_from_eq)

lemma pend_mark_seen:
  "k < length (pstates hw) \<Longrightarrow> pend lvl (mark_seen lvl k hw) i \<longleftrightarrow> i \<noteq> k \<and> pend lvl hw i"
  by (auto simp: pend_def mark_seen_def nth_list_update)

lemma pending_tail:
  assumes "pending lvl hw = k # ks" and "length (pstates hw) = 8"
  shows "pending lvl (mark_seen lvl k hw) = ks"
proof -
  have "k \<in> set (pending lvl hw)" using assms(1) by simp
  then have k: "k < 8" by (simp add: pending_def)
  have "distinct (k # ks)" using assms(1) by (metis distinct_filter distinct_upt pending_def)
  then have "filter (\<lambda>i. i \<noteq> k) (k # ks) = ks"
    by (auto intro: filter_True)
  moreover have "pending lvl (mark_seen lvl k hw) = filter (\<lambda>i. i \<noteq> k) (pending lvl hw)"
  proof -
    have "pend lvl (mark_seen lvl k hw) = (\<lambda>i. pend lvl hw i \<and> i \<noteq> k)"
      using k assms(2) by (auto simp: pend_mark_seen fun_eq_iff)
    then show ?thesis by (simp add: pending_def)
  qed
  ultimately show ?thesis using assms(1) by simp
qed

lemma mark_seen_frame [simp]:
  "length (pstates (mark_seen lvl k hw)) = length (pstates hw)"
  "regs (mark_seen lvl k hw) = regs hw"
  by (simp_all add: mark_seen_def)

lemma pstates_mark_seen_mode [simp]:
  "ps_mode (pstates (mark_seen lvl k hw) ! i) = ps_mode (pstates hw ! i)"
  by (cases "k < length (pstates hw)") (auto simp: mark_seen_def nth_list_update not_less list_update_beyond)

text \<open>
  The reporting loop ends: with \<open>n\<close> unreported inputs it makes \<open>n + 1\<close> calls of \<open>Poll\<close>, sends
  each of them once in table order, and leaves none unreported.
\<close>

lemma poll_all_pending:
  assumes "length (pstates hw) = 8" and "length (pending lvl hw) < fuel"
  shows "\<exists>hw'. poll_all fuel lvl hw = (Some (map (pin_event lvl) (pending lvl hw)), hw')
    \<and> pending lvl hw' = [] \<and> regs hw' = regs hw \<and> length (pstates hw') = 8
    \<and> (\<forall>i. ps_mode (pstates hw' ! i) = ps_mode (pstates hw ! i))"
  using assms
proof (induction fuel arbitrary: hw)
  case (Suc fuel)
  show ?case
  proof (cases "pending lvl hw")
    case Nil
    then show ?thesis using Suc.prems by (simp add: Poll_eq)
  next
    case (Cons k ks)
    have t: "pending lvl (mark_seen lvl k hw) = ks"
      using Cons Suc.prems(1) by (rule pending_tail)
    obtain hw' where "poll_all fuel lvl (mark_seen lvl k hw) = (Some (map (pin_event lvl) ks), hw')"
        "pending lvl hw' = []" "regs hw' = regs hw" "length (pstates hw') = 8"
        "\<forall>i. ps_mode (pstates hw' ! i) = ps_mode (pstates hw ! i)"
      using Suc.IH [of "mark_seen lvl k hw"] Suc.prems Cons t by auto
    then show ?thesis using Cons by (simp add: Poll_eq)
  qed
qed simp

lemma length_pending: "length (pending lvl hw) \<le> 8"
proof -
  have "length (filter (pend lvl hw) [0..<8]) \<le> length [0..<(8::nat)]" by (rule length_filter_le)
  then show ?thesis by (simp add: pending_def)
qed

section \<open>Configuring pins\<close>

lemma Configure_known:
  "FindPin pin = Some i \<Longrightarrow> fst (Configure lvl pin mode v hw)"
  by (simp add: Configure_def Let_def)

lemma Configure_unknown: "FindPin pin = None \<Longrightarrow> Configure lvl pin mode v hw = (False, hw)"
  by (simp add: Configure_def)

lemma Configure_pstates:
  "FindPin pin = Some i \<Longrightarrow> pstates (snd (Configure lvl pin mode v hw)) =
     (pstates hw)[i := (pstates hw ! i)\<lparr>ps_mode := mode,
        ps_lastValue := (if is_input mode then \<not> lvl pin else ps_lastValue (pstates hw ! i))\<rparr>]"
  by (auto simp: Configure_def Let_def WriteRaw_def ReadRaw_lvl is_input_def)

lemma Configure_length [simp]:
  "length (pstates (snd (Configure lvl pin mode v hw))) = length (pstates hw)"
  by (cases "FindPin pin") (simp_all add: Configure_unknown Configure_pstates)

lemma Gpio_Write_pstates [simp]: "pstates (snd (Gpio_Write pin v hw)) = pstates hw"
  by (auto simp: Gpio_Write_def WriteRaw_def split: option.splits)

text \<open>
  Configuring a pin as an input makes its level known to the host: whatever the state
  before, the next run of the reporting loop ends within nine polls and its report contains
  the configured pin with its current level; afterwards no input is left unreported.
\<close>

theorem gpio_input_is_reported:
  assumes "FindPin pin = Some i" and "is_input mode" and "length (pstates hw) = 8"
  shows "\<exists>es hw'. poll_all 9 lvl (snd (Configure lvl pin mode v hw)) = (Some es, hw')
    \<and> (pin, lvl pin) \<in> set es \<and> pending lvl hw' = []"
proof -
  define hw1 where "hw1 = snd (Configure lvl pin mode v hw)"
  have len: "length (pstates hw1) = 8" using assms(3) by (simp add: hw1_def)
  have i: "i < 8" "pd_id (pins ! i) = pin" using FindPin_Some [OF assms(1)] by simp_all
  have "pend lvl hw1 i"
    using assms i by (simp add: hw1_def pend_def Configure_pstates)
  then have "pin_event lvl i \<in> set (map (pin_event lvl) (pending lvl hw1))"
    using i by (simp add: pending_def)
  moreover have "length (pending lvl hw1) < 9" using length_pending [of lvl hw1] by simp
  ultimately show ?thesis
    using poll_all_pending [OF len, of lvl 9] i by (fastforce simp: pin_event_def hw1_def)
qed

definition idle_hw :: Hw where
  "idle_hw = \<lparr>regs = (\<lambda>_. 0), pstates = replicate 8 \<lparr>ps_mode = Disabled, ps_lastValue = False\<rparr>\<rparr>"

theorem gpio_input_is_reported_witness:
  "\<exists>es hw'. poll_all 9 (\<lambda>_. True) (snd (Configure (\<lambda>_. True) PinFilamentRunout Input False idle_hw))
      = (Some es, hw') \<and> (PinFilamentRunout, True) \<in> set es \<and> pending (\<lambda>_. True) hw' = []"
  by (rule gpio_input_is_reported [where i = 0]) (simp_all add: FindPin_eval is_input_def idle_hw_def)

end
