(* ===== verification/LpcPwm.thy ===== *)
theory LpcPwm
  imports LpcGpio
begin

text \<open>
  The PWM driver of the coprocessor, \<open>LpcFirmware/src/Pwm.cpp\<close>: it programs one of three
  match timers for a duty cycle in 65535ths, or parks the pin at a constant level. \<open>Pwm_Set\<close>
  is \<open>Pwm::Set\<close> write for write. A constant level is set through \<open>Gpio::Configure\<close> in mode
  \<open>pwm\<close>, which samples no pin level.

  \<open>heater_off\<close> reads off the register file that the heater output cannot be high: the pin is
  disconnected from its timer and, as a GPIO pin, is an input or an output driven low.
\<close>

definition CoreClock :: u32 where "CoreClock = 12000000"
definition Ct16b1Base :: u32 where "Ct16b1Base = 0x40010000"
definition Ct32b0Base :: u32 where "Ct32b0Base = 0x40014000"
definition Ct16b0Base :: u32 where "Ct16b0Base = 0x4000C000"

record Channel =
  ch_pin :: u8
  ch_ioconOffset :: u16
  ch_timerBase :: u32
  ch_maxPeriod :: u32
  ch_clockBit :: u8
  ch_matchChannel :: u8
  ch_pinFunction :: u8
  ch_analogCapable :: bool

definition channels :: "Channel list" where
  "channels =
    [\<lparr>ch_pin = PinHeater, ch_ioconOffset = 0x064, ch_timerBase = Ct16b0Base, ch_maxPeriod = 0x0000FFFF,
      ch_clockBit = 7, ch_matchChannel = 1, ch_pinFunction = 2, ch_analogCapable = False\<rparr>,
     \<lparr>ch_pin = PinHotendFan, ch_ioconOffset = 0x044, ch_timerBase = Ct32b0Base, ch_maxPeriod = 0xFFFFFFFF,
      ch_clockBit = 9, ch_matchChannel = 0, ch_pinFunction = 1, ch_analogCapable = False\<rparr>,
     \<lparr>ch_pin = PinReflowFan, ch_ioconOffset = 0x06C, ch_timerBase = Ct16b1Base, ch_maxPeriod = 0x0000FFFF,
      ch_clockBit = 8, ch_matchChannel = 1, ch_pinFunction = 2, ch_analogCapable = True\<rparr>]"

definition TimerRegister :: "Channel \<Rightarrow> u32 \<Rightarrow> u32" where
  "TimerRegister ch off = ch_timerBase ch + off"

definition Pwm_Iocon :: "Channel \<Rightarrow> u32" where
  "Pwm_Iocon ch = LPC_IOCON_BASE + ucast (ch_ioconOffset ch)"

definition Find :: "u8 \<Rightarrow> Channel option" where
  "Find pin = find (\<lambda>ch. ch_pin ch = pin) channels"

definition SetConstant :: "Channel \<Rightarrow> bool \<Rightarrow> Hw \<Rightarrow> Hw" where
  "SetConstant ch high hw =
     snd (Configure (\<lambda>_. False) (ch_pin ch) PwmMode high (reg_write (TimerRegister ch 0x004) 0 hw))"

text \<open>The timer arithmetic of \<open>Set\<close>, at the widths the code computes in.\<close>

definition pwm_divider :: "Channel \<Rightarrow> u16 \<Rightarrow> u32" where
  "pwm_divider ch frequency =
    (let maxTimerClock = (ucast frequency :: u64) * ucast (ch_maxPeriod ch)
     in if ucast CoreClock \<le> maxTimerClock then 1
        else ucast ((ucast CoreClock + maxTimerClock - 1) div maxTimerClock))"

definition pwm_period :: "Channel \<Rightarrow> u16 \<Rightarrow> u32" where
  "pwm_period ch frequency = (CoreClock div pwm_divider ch frequency) div ucast frequency"

definition pwm_highTicks :: "u32 \<Rightarrow> u16 \<Rightarrow> u32" where
  "pwm_highTicks period duty = ucast (((ucast period :: u64) * ucast duty + 32767) div 65535)"

definition start_timer :: "Channel \<Rightarrow> u16 \<Rightarrow> u16 \<Rightarrow> Hw \<Rightarrow> Hw" where
  "start_timer ch duty frequency hw =
    (let divider = pwm_divider ch frequency;
         period = pwm_period ch frequency;
         match = period - pwm_highTicks period duty;
         hw1 = reg_write LPC_SYSCON_SYSAHBCLKCTRL
                 (regs hw LPC_SYSCON_SYSAHBCLKCTRL OR push_bit (unat (ch_clockBit ch)) 1) hw;
         io = Pwm_Iocon ch;
         hw2 = reg_write io ((regs hw1 io AND NOT 0x07) OR ucast (ch_pinFunction ch)) hw1;
         hw3 = (if ch_analogCapable ch then reg_write io (regs hw2 io OR push_bit 7 1) hw2 else hw2)
     in reg_write (TimerRegister ch 0x004) 0x01
          (reg_write (TimerRegister ch 0x074) (push_bit 3 1 OR push_bit (unat (ch_matchChannel ch)) 1)
          (reg_write (TimerRegister ch 0x014) (push_bit 10 1)
          (reg_write (TimerRegister ch 0x024) period
          (reg_write (TimerRegister ch (0x018 + 4 * ucast (ch_matchChannel ch))) match
          (reg_write (TimerRegister ch 0x00C) (divider - 1)
          (reg_write (TimerRegister ch 0x004) 0x02 hw3)))))))"

definition Pwm_Set :: "u8 \<Rightarrow> u16 \<Rightarrow> u16 \<Rightarrow> Hw \<Rightarrow> bool \<times> Hw" where
  "Pwm_Set pin duty frequency hw =
    (case Find pin of None \<Rightarrow> (False, hw)
     | Some ch \<Rightarrow>
       if duty = 0 then (True, SetConstant ch False hw)
       else if frequency = 0 then (False, hw)
       else if duty = 65535 then (True, SetConstant ch True hw)
       else if pwm_period ch frequency < 2 \<or> ch_maxPeriod ch < pwm_period ch frequency
         then (False, hw)
       else (True, start_timer ch duty frequency hw))"

section \<open>The channels\<close>

lemma Find_cases:
  assumes "Find pin = Some ch"
  obtains "pin = PinHeater" "ch = channels ! 0" | "pin = PinHotendFan" "ch = channels ! 1"
  | "pin = PinReflowFan" "ch = channels ! 2"
  using assms by (auto simp: Find_def channels_def split: if_splits)

lemma Find_eval:
  "Find PinHeater = Some (channels ! 0)" "Find PinHotendFan = Some (channels ! 1)"
  "Find PinReflowFan = Some (channels ! 2)"
  by (simp_all add: Find_def channels_def pin_ids)

lemma Find_FindPin: "Find pin = Some ch \<Longrightarrow> ch_pin ch = pin \<and> (\<exists>i. FindPin pin = Some i)"
  by (erule Find_cases) (auto simp: channels_def FindPin_eval)

lemma channel_pin_in: "Find pin = Some ch \<Longrightarrow> ch \<in> set channels"
  by (erule Find_cases) (simp_all add: channels_def)

lemma channel_maxPeriod:
  "ch \<in> set channels \<Longrightarrow> ch_maxPeriod ch = 0xFFFF \<or> ch_maxPeriod ch = 0xFFFFFFFF"
  by (auto simp: channels_def)

section \<open>The timer arithmetic on naturals\<close>

lemma CoreClock_nat [simp]: "unat CoreClock = 12000000"
  by (simp add: CoreClock_def)

lemma unat_maxTimerClock:
  "unat ((ucast (f :: u16) :: u64) * ucast (m :: u32)) = unat f * unat m"
proof -
  have "unat f * unat m < 65536 * 4294967296"
    using u16_bound [of f] u32_bound [of m] by (intro mult_strict_mono) auto
  then have "unat (ucast f :: u64) * unat (ucast m :: u64) < 2 ^ LENGTH(64)"
    by (simp add: unat_ucast_up)
  then show ?thesis by (simp add: unat_mult_small unat_ucast_up)
qed

lemma unat_divider:
  assumes f: "f \<noteq> 0" and m: "0 < unat (ch_maxPeriod ch)"
  shows "unat (pwm_divider ch f) =
    (if 12000000 \<le> unat f * unat (ch_maxPeriod ch) then 1
     else (12000000 + unat f * unat (ch_maxPeriod ch) - 1) div (unat f * unat (ch_maxPeriod ch)))"
proof -
  define c where "c = (ucast f :: u64) * ucast (ch_maxPeriod ch)"
  have c: "unat c = unat f * unat (ch_maxPeriod ch)" unfolding c_def by (rule unat_maxTimerClock)
  have pos: "0 < unat c" using f m by (simp add: c word_neq_0_unat)
  have clk: "unat (ucast CoreClock :: u64) = 12000000" by (simp add: unat_ucast_up)
  show ?thesis
  proof (cases "12000000 \<le> unat c")
    case True
    then have "ucast CoreClock \<le> c" by (simp only: word_le_nat_alt clk)
    with True show ?thesis by (simp add: pwm_divider_def c_def [symmetric] c)
  next
    case False
    then have no: "\<not> ucast CoreClock \<le> c" by (simp only: word_le_nat_alt clk not_le) 
    have sum: "unat (ucast CoreClock + c) = 12000000 + unat c"
      using False by (subst unat_add_small) (simp_all add: clk)
    have "unat (ucast CoreClock + c - 1) = 12000000 + unat c - 1"
    proof -
      have "1 \<le> ucast CoreClock + c" by (simp add: word_le_nat_alt sum)
      then show ?thesis by (simp add: unat_sub_small sum)
    qed
    then have q: "unat ((ucast CoreClock + c - 1) div c) = (12000000 + unat c - 1) div unat c"
      by (simp add: unat_div)
    have "(12000000 + unat c - 1) div unat c \<le> 12000000 + unat c - 1" by (rule div_le_dividend)
    then have "(12000000 + unat c - 1) div unat c < 4294967296" using False by linarith
    then have "unat (ucast ((ucast CoreClock + c - 1) div c) :: u32)
        = (12000000 + unat c - 1) div unat c"
      by (simp add: unat_ucast_mod q)
    with False no show ?thesis by (simp add: pwm_divider_def c_def [symmetric] c)
  qed
qed

lemma unat_period:
  "unat (pwm_period ch f) = 12000000 div unat (pwm_divider ch f) div unat f"
  by (simp add: pwm_period_def unat_div unat_ucast_up)

lemma ceil_div_bound:
  fixes a b :: nat
  assumes "0 < b"
  shows "a div ((a + b - 1) div b) \<le> b"
proof (cases "a = 0")
  case False
  define q where "q = (a + b - 1) div b"
  have "a \<le> q * b"
  proof -
    have "a + b - 1 < (q + 1) * b"
      unfolding q_def using assms by (metis Suc_eq_plus1 dividend_less_div_times mult_Suc add.commute)
    then show ?thesis using assms by simp
  qed
  moreover have "0 < q" unfolding q_def using False assms by (simp add: div_greater_zero_iff)
  ultimately show ?thesis unfolding q_def [symmetric]
    by (metis div_le_mono nonzero_mult_div_cancel_left not_gr_zero)
qed simp

text \<open>Every nonzero frequency gives a usable period on every channel.\<close>

lemma period_bounds:
  assumes ch: "ch \<in> set channels" and f: "f \<noteq> 0"
  shows "2 \<le> unat (pwm_period ch f)" and "unat (pwm_period ch f) \<le> unat (ch_maxPeriod ch)"
    and "0 < unat (pwm_divider ch f)" and "unat (pwm_divider ch f) \<le> 184"
proof -
  define n m d where nm: "n = unat f" "m = unat (ch_maxPeriod ch)" "d = unat (pwm_divider ch f)"
  have n: "0 < n" "n < 65536" using f u16_bound [of f] by (simp_all add: nm word_neq_0_unat)
  have m: "m = 65535 \<or> m = 4294967295" using channel_maxPeriod [OF ch] by (auto simp: nm)
  then have m0: "0 < unat (ch_maxPeriod ch)" by (auto simp: nm)
  have d: "d = (if 12000000 \<le> n * m then 1 else (12000000 + n * m - 1) div (n * m))"
    unfolding nm by (rule unat_divider [OF f m0])
  have p: "unat (pwm_period ch f) = 12000000 div d div n" by (simp add: unat_period nm)
  have big: "m = 65535 \<and> n < 184" if "\<not> 12000000 \<le> n * m"
  proof -
    have "m = 65535" using that m n(1) by (auto simp: not_le)
    then show ?thesis using that by auto
  qed
  have d184: "d \<le> 184"
  proof (cases "12000000 \<le> n * m")
    case False
    then have nm65: "n * m = n * 65535" using big by simp
    have "12000000 + n * 65535 - 1 < 185 * (n * 65535)" using n(1) by linarith
    then have "(12000000 + n * 65535 - 1) div (n * 65535) < 185"
      using less_mult_imp_div_less by blast
    moreover have "d = (12000000 + n * m - 1) div (n * m)" using False by (simp only: d if_False)
    ultimately show ?thesis unfolding nm65 by linarith
  qed (simp add: d)
  have d0: "0 < d"
    using n(1) m by (auto simp: d div_greater_zero_iff)
  show "0 < unat (pwm_divider ch f)" "unat (pwm_divider ch f) \<le> 184"
    using d0 d184 by (simp_all add: nm)
  show "2 \<le> unat (pwm_period ch f)"
  proof (cases "12000000 \<le> n * m")
    case True
    have "183 \<le> 12000000 div n"
      using n by (simp add: less_eq_div_iff_mult_less_eq)
    with True show ?thesis by (simp add: p d)
  next
    case False
    then have "n < 184" using big by simp
    have "65217 \<le> 12000000 div d" using d0 d184 by (simp add: less_eq_div_iff_mult_less_eq)
    moreover have "2 * n \<le> 65217" using \<open>n < 184\<close> by simp
    ultimately have "2 * n \<le> 12000000 div d" by linarith
    then show ?thesis using n by (simp add: p less_eq_div_iff_mult_less_eq)
  qed
  show "unat (pwm_period ch f) \<le> unat (ch_maxPeriod ch)"
  proof (cases "12000000 \<le> n * m")
    case True
    show ?thesis
    proof (cases "m = 65535")
      case True
      have "12000000 div n \<le> 65535"
      proof -
        have "12000000 \<le> 65535 * n" using \<open>12000000 \<le> n * m\<close> True by (simp add: mult.commute)
        then have "12000000 div n \<le> (65535 * n) div n" by (rule div_le_mono)
        then show ?thesis using n by simp
      qed
      then show ?thesis using True \<open>12000000 \<le> n * m\<close> by (simp add: p d nm(2) [symmetric])
    next
      case False
      have "12000000 div d div n \<le> 12000000" by (meson div_le_dividend order.trans)
      then show ?thesis using False m by (simp add: p nm(2) [symmetric])
    qed
  next
    case False
    have "12000000 div d \<le> n * m"
      using ceil_div_bound [of "n * m" 12000000] False n m by (auto simp: d)
    then have "12000000 div d div n \<le> (n * m) div n" by (rule div_le_mono)
    then show ?thesis using n by (simp add: p nm(2) [symmetric])
  qed
qed

lemma unat_highTicks:
  assumes "unat p * unat duty + 32767 < 2 ^ 47"
  shows "unat (pwm_highTicks p duty) = (unat p * unat duty + 32767) div 65535 mod 4294967296"
proof -
  have e: "unat ((ucast p :: u64) * ucast duty) = unat p * unat duty"
    using assms by (subst unat_mult_small) (simp_all add: unat_ucast_up)
  have "unat ((ucast p :: u64) * ucast duty + 32767) = unat p * unat duty + 32767"
    using assms by (subst unat_add_small) (simp_all add: e)
  then show ?thesis by (simp add: pwm_highTicks_def unat_ucast_mod unat_div)
qed

text \<open>The duty cycle the timer produces: never more than the period, and to the nearest tick.\<close>

lemma highTicks_bounds:
  assumes p: "unat p \<le> 12000000"
  shows "unat (pwm_highTicks p duty) \<le> unat p"
    and "unat (pwm_highTicks p duty) * 65535 \<le> unat p * unat duty + 32767"
    and "unat p * unat duty \<le> unat (pwm_highTicks p duty) * 65535 + 32767"
proof -
  define n h where nh: "n = unat p * unat duty" "h = (n + 32767) div 65535"
  have n: "n \<le> unat p * 65535" unfolding nh using u16_bound [of duty] by (intro mult_left_mono) auto
  then have "n \<le> 12000000 * 65535" using p by linarith
  then have "n + 32767 < 2 ^ 47" by simp
  moreover have "h < 4294967296"
    unfolding nh(2) using \<open>n \<le> 12000000 * 65535\<close> by (intro less_mult_imp_div_less) simp
  ultimately have h: "unat (pwm_highTicks p duty) = h"
    using unat_highTicks [of p duty] by (simp add: nh)
  have "n + 32767 = h * 65535 + (n + 32767) mod 65535" by (simp add: nh(2))
  moreover have "(n + 32767) mod 65535 < 65535" by simp
  ultimately have b: "h * 65535 \<le> n + 32767" "n + 32767 \<le> h * 65535 + 65534" by linarith+
  show "unat (pwm_highTicks p duty) * 65535 \<le> unat p * unat duty + 32767"
    and "unat p * unat duty \<le> unat (pwm_highTicks p duty) * 65535 + 32767"
    using b by (simp_all add: h nh(1) [symmetric])
  have "h * 65535 < (unat p + 1) * 65535" using b(1) n by simp
  then have "h < unat p + 1" by simp
  then show "unat (pwm_highTicks p duty) \<le> unat p" by (simp add: h)
qed

section \<open>The heater output\<close>

definition heater_off :: "Hw \<Rightarrow> bool" where
  "heater_off hw \<longleftrightarrow> regs hw (Iocon 4) AND 0x07 = 0 \<and>
     (regs hw (Direction PinHeater) AND pin_mask PinHeater = 0
      \<or> regs hw (MaskedData PinHeater) AND pin_mask PinHeater = 0)"

text \<open>Every register that reaches the heater output: its pin and its timer.\<close>

definition heater_view :: "Hw \<Rightarrow> u32 list" where
  "heater_view hw = [regs hw (Iocon 4), regs hw (MaskedData PinHeater),
     regs hw (Direction PinHeater) AND pin_mask PinHeater,
     regs hw 0x4000C004, regs hw 0x4000C00C, regs hw 0x4000C014, regs hw 0x4000C01C,
     regs hw 0x4000C024, regs hw 0x4000C074]"

lemma heater_off_view: "heater_view a = heater_view b \<Longrightarrow> heater_off a = heater_off b"
  by (simp add: heater_view_def heater_off_def)

lemma or_and_distrib: "(x OR (m :: u32)) AND k = (x AND k) OR (m AND k)"
  by (rule bit_word_eqI) (auto simp: bit_simps)

lemmas mask_simps = and.assoc or_and_distrib

lemma Configure_other_view:
  assumes "pin \<noteq> PinHeater"
  shows "heater_view (snd (Configure lvl pin mode v hw)) = heater_view hw"
proof (cases "FindPin pin")
  case (Some i)
  then show ?thesis
    by (rule known_pin_cases)
      (use assms in \<open>simp_all add: Configure_def FindPin_eval Let_def heater_view_def WriteRaw_def
        addr_eval Iocon_eval mask_simps\<close>)
qed (simp add: Configure_unknown)

lemma Gpio_Write_other_view:
  assumes "pin \<noteq> PinHeater"
  shows "heater_view (snd (Gpio_Write pin v hw)) = heater_view hw"
proof (cases "FindPin pin")
  case (Some i)
  then show ?thesis
    by (rule known_pin_cases)
      (use assms in \<open>simp_all add: Gpio_Write_def FindPin_eval Let_def heater_view_def WriteRaw_def
        addr_eval Iocon_eval\<close>)
qed (simp add: Gpio_Write_def)

lemma reg_write_view:
  "a \<notin> {Iocon 4, MaskedData PinHeater, Direction PinHeater, 0x4000C004, 0x4000C00C, 0x4000C014,
     0x4000C01C, 0x4000C024, 0x4000C074} \<Longrightarrow> heater_view (reg_write a x hw) = heater_view hw"
  by (auto simp: heater_view_def)

lemma Pwm_Set_other_view:
  assumes "pin \<noteq> PinHeater"
  shows "heater_view (snd (Pwm_Set pin duty f hw)) = heater_view hw"
proof (cases "Find pin")
  case (Some ch)
  have c: "heater_view (SetConstant ch b hw) = heater_view hw" for b
  proof -
    have "ch_pin ch \<noteq> PinHeater" using Find_FindPin [OF Some] assms by simp
    moreover have "heater_view (reg_write (TimerRegister ch 4) 0 hw) = heater_view hw"
      by (rule Find_cases [OF Some])
        (use assms in \<open>simp_all add: heater_view_def channels_def TimerRegister_def Ct32b0Base_def
          Ct16b1Base_def addr_eval Iocon_eval\<close>)
    ultimately show ?thesis by (simp add: SetConstant_def Configure_other_view)
  qed
  have "heater_view (start_timer ch duty f hw) = heater_view hw"
    by (rule Find_cases [OF Some])
      (use assms in \<open>simp_all add: start_timer_def Let_def heater_view_def channels_def
        TimerRegister_def Pwm_Iocon_def LPC_IOCON_BASE_def LPC_SYSCON_SYSAHBCLKCTRL_def
        Ct32b0Base_def Ct16b1Base_def addr_eval Iocon_eval\<close>)
  with c Some show ?thesis by (simp add: Pwm_Set_def)
qed (simp add: Pwm_Set_def)

lemma Configure_heater_disabled_off: "heater_off (snd (Configure lvl PinHeater Disabled v hw))"
  by (simp add: Configure_def FindPin_eval Let_def heater_off_def addr_eval Iocon_eval mask_simps
      pins_def)

lemma set_pstate_view [simp]: "heater_view (set_pstate i st hw) = heater_view hw"
  by (simp add: heater_view_def)

lemma mark_seen_view [simp]: "heater_view (mark_seen lvl k hw) = heater_view hw"
  by (simp add: heater_view_def)

lemma init_pins_other_view:
  "PinHeater \<notin> pd_id ` set ps \<Longrightarrow> heater_view (init_pins lvl i ps hw) = heater_view hw"
  by (induction ps arbitrary: i hw) (auto simp: Configure_other_view)

lemma Gpio_Init_off: "heater_off (Gpio_Init lvl hw)"
proof -
  have tail: "PinHeater \<notin> pd_id ` set (drop 5 pins)" by (simp add: pins_def pin_ids)
  have "\<exists>hw'. Gpio_Init lvl hw =
      init_pins lvl 5 (drop 5 pins) (snd (Configure lvl PinHeater Disabled False hw'))"
    by (simp add: Gpio_Init_def pins_def eval_nat_numeral) blast
  then obtain hw' where e: "Gpio_Init lvl hw =
      init_pins lvl 5 (drop 5 pins) (snd (Configure lvl PinHeater Disabled False hw'))" by blast
  show ?thesis
    unfolding e using heater_off_view [OF init_pins_other_view [OF tail]]
      Configure_heater_disabled_off by blast
qed

lemma SetConstant_heater_off: "heater_off (SetConstant (channels ! 0) False hw)"
  by (simp add: SetConstant_def channels_def Configure_def FindPin_eval Let_def heater_off_def
      WriteRaw_def addr_eval Iocon_eval mask_simps pins_def TimerRegister_def Ct16b0Base_def)

lemma Pwm_Set_heater_zero_off: "heater_off (snd (Pwm_Set PinHeater 0 f hw))"
  by (simp add: Pwm_Set_def Find_eval SetConstant_heater_off)

lemma Pwm_Set_pstates_length [simp]:
  "length (pstates (snd (Pwm_Set pin duty f hw))) = length (pstates hw)"
  by (auto simp: Pwm_Set_def SetConstant_def start_timer_def Let_def split: option.splits)

lemma init_pins_length [simp]: "length (pstates (init_pins lvl i ps hw)) = length (pstates hw)"
  by (induction ps arbitrary: i hw) simp_all

lemma Gpio_Init_length [simp]: "length (pstates (Gpio_Init lvl hw)) = length (pstates hw)"
  by (simp add: Gpio_Init_def)

section \<open>Properties of the drivers\<close>

lemma start_timer_regs:
  assumes "Find pin = Some ch"
  shows "regs (start_timer ch duty f hw) (TimerRegister ch 0x24) = pwm_period ch f"
    and "regs (start_timer ch duty f hw) (TimerRegister ch (0x18 + 4 * ucast (ch_matchChannel ch)))
       = pwm_period ch f - pwm_highTicks (pwm_period ch f) duty"
    and "regs (start_timer ch duty f hw) (TimerRegister ch 0x04) = 1"
    and "regs (start_timer ch duty f hw) (TimerRegister ch 0x0C) = pwm_divider ch f - 1"
  by (rule Find_cases [OF assms]; simp add: start_timer_def Let_def TimerRegister_def channels_def
      Ct16b0Base_def Ct16b1Base_def Ct32b0Base_def)+

text \<open>
  \<open>Pwm::Set\<close> succeeds for each of the three PWM pins with every duty and every nonzero
  frequency, and for duties strictly between 0 and 65535 the timer it starts has a period that
  fits its counter, a match value within the period, and a high time that is the requested
  fraction of the period to the nearest tick.
\<close>

theorem pwm_set_total_accurate:
  assumes ch: "Find pin = Some ch" and f: "f \<noteq> 0" and d: "duty \<noteq> 0" "duty \<noteq> 65535"
  shows "fst (Pwm_Set pin duty f hw)
      \<and> (let hw' = snd (Pwm_Set pin duty f hw);
             period = unat (regs hw' (TimerRegister ch 0x24));
             match = unat (regs hw' (TimerRegister ch (0x18 + 4 * ucast (ch_matchChannel ch))));
             high = period - match
         in regs hw' (TimerRegister ch 0x04) = 1
          \<and> 2 \<le> period \<and> period \<le> unat (ch_maxPeriod ch) \<and> match \<le> period
          \<and> high * 65535 \<le> period * unat duty + 32767
          \<and> period * unat duty \<le> high * 65535 + 32767)"
proof -
  have in_ch: "ch \<in> set channels" using ch by (rule channel_pin_in)
  note pb = period_bounds [OF in_ch f]
  define p where "p = pwm_period ch f"
  have fits: "\<not> (p < 2 \<or> ch_maxPeriod ch < p)"
    using pb(1,2) by (simp add: word_less_nat_alt p_def)
  have "unat p \<le> 12000000" unfolding p_def unat_period by (meson div_le_dividend order.trans)
  note hb = highTicks_bounds [OF this, of duty]
  have sub: "unat (p - pwm_highTicks p duty) = unat p - unat (pwm_highTicks p duty)"
    using hb(1) by (simp add: unat_sub_small word_le_nat_alt)
  have set: "Pwm_Set pin duty f hw = (True, start_timer ch duty f hw)"
    using ch f d fits by (simp add: Pwm_Set_def p_def)
  show ?thesis
    unfolding set Let_def fst_conv snd_conv start_timer_regs [OF ch] p_def [symmetric] sub
    using hb pb(1,2) by (simp add: p_def)
qed

theorem pwm_set_total_accurate_witness:
  "fst (Pwm_Set PinHotendFan 32768 250 \<lparr>regs = \<lambda>_. 0, pstates = []\<rparr>)"
  using pwm_set_total_accurate [of PinHotendFan "channels ! 1" 250 32768] by (simp add: Find_eval)

text \<open>
  Whatever the coprocessor does with another pin - configuring it in any mode, writing it or
  driving it with PWM at any duty and frequency - no register of the heater output changes; a
  zero duty leaves the heater output off from every state, and so does initialisation.
\<close>

theorem heater_output_isolated:
  "(pin = PinHeater \<or>
      heater_view (snd (Configure lvl pin mode v hw)) = heater_view hw
    \<and> heater_view (snd (Gpio_Write pin v hw)) = heater_view hw
    \<and> heater_view (snd (Pwm_Set pin duty f hw)) = heater_view hw)
    \<and> heater_off (snd (Pwm_Set PinHeater 0 f hw)) \<and> heater_off (Gpio_Init lvl hw)"
  using Configure_other_view Gpio_Write_other_view Pwm_Set_other_view Pwm_Set_heater_zero_off
    Gpio_Init_off by blast

end
