(* ===== verification/FloatFormat.thy ===== *)
theory FloatFormat
  imports Prelude
begin

text \<open>
  Binary floating point formats with \<open>p\<close> fraction bits. The magnitude bits of a number are its exponent
  and fraction fields as one natural number; \<open>fmt_mag p\<close> is the value they stand for, in units of the least
  positive number, and \<open>fmt_round p cap n d\<close> the bits nearest to \<open>n / d\<close> units, ties to even, with \<open>cap\<close> the
  bits of infinity. \<open>Float32\<close> and \<open>Float64\<close> are the instances.
\<close>

section \<open>Rounding\<close>

fun bitlen :: "nat \<Rightarrow> nat" where
  "bitlen n = (if n = 0 then 0 else Suc (bitlen (n div 2)))"

declare bitlen.simps [simp del]

lemma bitlen_0 [simp]: "bitlen 0 = 0"
  by (simp add: bitlen.simps)

lemma bitlen_pos: "0 < n \<Longrightarrow> bitlen n = Suc (bitlen (n div 2))"
  by (simp add: bitlen.simps [of n])

lemma less_two_pow_bitlen: "n < 2 ^ bitlen n"
proof (induction n rule: bitlen.induct)
  case (1 n)
  then show ?case
    by (cases "n = 0") (auto simp: bitlen_pos)
qed

lemma two_pow_bitlen_le: "0 < n \<Longrightarrow> 2 ^ (bitlen n - 1) \<le> n"
proof (induction n rule: bitlen.induct)
  case (1 n)
  show ?case
  proof (cases "n div 2 = 0")
    case True
    with 1(2) show ?thesis by (simp add: bitlen_pos)
  next
    case False
    with 1 have IH: "2 ^ (bitlen (n div 2) - 1) \<le> n div 2" by simp
    from False have "bitlen (n div 2) = Suc (bitlen (n div 2) - 1)"
      by (simp add: bitlen_pos)
    then have "(2::nat) ^ bitlen (n div 2) = 2 * 2 ^ (bitlen (n div 2) - 1)"
      by (metis power_Suc)
    with IH have "2 ^ bitlen (n div 2) \<le> n" by linarith
    then show ?thesis using 1(2) by (simp add: bitlen_pos)
  qed
qed

lemma bitlen_mono: "m \<le> n \<Longrightarrow> bitlen m \<le> bitlen n"
proof (rule ccontr)
  assume le: "m \<le> n" and "\<not> bitlen m \<le> bitlen n"
  then have lt: "bitlen n \<le> bitlen m - 1" and pos: "0 < bitlen m" by auto
  from pos have "0 < m" by (cases m) auto
  have "n < 2 ^ bitlen n" by (rule less_two_pow_bitlen)
  also have "(2::nat) ^ bitlen n \<le> 2 ^ (bitlen m - 1)" using lt by simp
  also have "\<dots> \<le> m" using \<open>0 < m\<close> by (rule two_pow_bitlen_le)
  finally show False using le by simp
qed

lemma bitlen_eqI: "2 ^ k \<le> n \<Longrightarrow> n < 2 ^ Suc k \<Longrightarrow> bitlen n = Suc k"
proof -
  assume lo: "2 ^ k \<le> n" and hi: "n < 2 ^ Suc k"
  have "0 < n" using lo by (meson order_less_le_trans zero_less_numeral zero_less_power)
  have "k < bitlen n"
    using le_less_trans [OF lo less_two_pow_bitlen] by simp
  moreover have "bitlen n - 1 < Suc k"
    using le_less_trans [OF two_pow_bitlen_le [OF \<open>0 < n\<close>] hi]
    by (rule power_less_imp_less_exp [rotated]) simp
  ultimately show ?thesis by simp
qed

definition rne :: "nat \<Rightarrow> nat \<Rightarrow> nat" where
  "rne a b = (let q = a div b; r = a mod b
    in if b < 2 * r \<or> (2 * r = b \<and> odd q) then q + 1 else q)"

lemma rne_bounds: "a div b \<le> rne a b" "rne a b \<le> a div b + 1"
  by (simp_all add: rne_def Let_def)

lemma rne_exact: "0 < b \<Longrightarrow> rne (b * q) b = q"
  by (simp add: rne_def)

lemma rne_cases:
  "rne a b = a div b + (if b < 2 * (a mod b) \<or> (2 * (a mod b) = b \<and> odd (a div b)) then 1 else 0)"
  by (simp add: rne_def Let_def)

lemma rne_mono:
  assumes le: "a1 * b2 \<le> a2 * b1" and b: "0 < b1" "0 < b2"
  shows "rne a1 b1 \<le> rne a2 b2"
proof -
  have q: "a1 div b1 \<le> a2 div b2" using le b by (rule div_ratio_mono)
  then consider "a1 div b1 < a2 div b2" | "a1 div b1 = a2 div b2" by linarith
  then show ?thesis
  proof cases
    case 1
    then show ?thesis using rne_bounds [of a1 b1] rne_bounds [of a2 b2] by linarith
  next
    case 2
    have "a1 * b2 = (a1 div b1) * b1 * b2 + (a1 mod b1) * b2"
      by (metis add_mult_distrib div_mult_mod_eq)
    moreover have "a2 * b1 = (a1 div b1) * b1 * b2 + (a2 mod b2) * b1"
      by (metis 2 add_mult_distrib div_mult_mod_eq mult.assoc mult.commute)
    ultimately have r: "(a1 mod b1) * b2 \<le> (a2 mod b2) * b1" using le by linarith
    have up: "b2 < 2 * (a2 mod b2)" if "b1 < 2 * (a1 mod b1)"
    proof -
      have "b1 * b2 < 2 * (a1 mod b1) * b2" using that b(2) by simp
      also have "\<dots> \<le> b1 * (2 * (a2 mod b2))" using r by (simp add: mult.commute)
      finally show ?thesis using b(1) by simp
    qed
    have tie: "b2 \<le> 2 * (a2 mod b2)" if "2 * (a1 mod b1) = b1"
    proof -
      have "b1 * b2 = 2 * (a1 mod b1) * b2" using that by simp
      also have "\<dots> \<le> b1 * (2 * (a2 mod b2))" using r by (simp add: mult.commute)
      finally show ?thesis using b(1) by simp
    qed
    show ?thesis
      using up tie 2 by (auto simp: rne_cases)
  qed
qed

definition fmt_mag :: "nat \<Rightarrow> nat \<Rightarrow> nat" where
  "fmt_mag p b = (if b < 2 ^ p then b else (2 ^ p + b mod 2 ^ p) * 2 ^ (b div 2 ^ p - 1))"

definition fmt_shift :: "nat \<Rightarrow> nat \<Rightarrow> nat" where
  "fmt_shift p q = bitlen q - Suc p"

definition fmt_round :: "nat \<Rightarrow> nat \<Rightarrow> nat \<Rightarrow> nat \<Rightarrow> nat" where
  "fmt_round p cap n d = (let k = fmt_shift p (n div d) in min cap (k * 2 ^ p + rne n (d * 2 ^ k)))"

lemma fmt_shift_mono: "q \<le> r \<Longrightarrow> fmt_shift p q \<le> fmt_shift p r"
  by (simp add: fmt_shift_def bitlen_mono diff_le_mono)

lemma fmt_shift_lt: "q div 2 ^ fmt_shift p q < 2 ^ Suc p"
proof -
  have "q < 2 ^ bitlen q" by (rule less_two_pow_bitlen)
  also have "(2::nat) ^ bitlen q \<le> 2 ^ (Suc p + fmt_shift p q)"
    by (rule power_increasing) (simp_all add: fmt_shift_def)
  finally have "q < 2 ^ Suc p * 2 ^ fmt_shift p q" by (simp add: power_add)
  then show ?thesis by (simp add: less_mult_imp_div_less)
qed

lemma fmt_shift_ge: "0 < fmt_shift p q \<Longrightarrow> 2 ^ p \<le> q div 2 ^ fmt_shift p q"
proof -
  assume k: "0 < fmt_shift p q"
  then have len: "bitlen q - 1 = p + fmt_shift p q" and "0 < q"
    by (auto simp: fmt_shift_def intro: gr0I)
  have "2 ^ (p + fmt_shift p q) \<le> q" using two_pow_bitlen_le [OF \<open>0 < q\<close>] len by simp
  then have "2 ^ p * 2 ^ fmt_shift p q \<le> q" by (simp add: power_add)
  then show ?thesis by (simp add: less_eq_div_iff_mult_less_eq)
qed

lemma rne_fmt_bounds:
  fixes n d p :: nat
  defines "k \<equiv> fmt_shift p (n div d)"
  shows "rne n (d * 2 ^ k) \<le> 2 ^ Suc p" and "0 < k \<Longrightarrow> 2 ^ p \<le> rne n (d * 2 ^ k)"
proof -
  have dd: "n div (d * 2 ^ k) = n div d div 2 ^ k" by (simp add: div_mult2_eq)
  show "rne n (d * 2 ^ k) \<le> 2 ^ Suc p"
    using fmt_shift_lt [of "n div d" p] rne_bounds(2) [of n "d * 2 ^ k"]
    by (simp add: dd k_def [symmetric])
  show "2 ^ p \<le> rne n (d * 2 ^ k)" if "0 < k"
    using fmt_shift_ge [of p "n div d"] that rne_bounds(1) [of n "d * 2 ^ k"]
    by (simp add: dd k_def [symmetric])
qed

lemma fmt_round_le [simp]: "fmt_round p cap n d \<le> cap"
  by (simp add: fmt_round_def Let_def)

text \<open>Rounding is monotone in the quotient.\<close>

lemma fmt_round_mono:
  assumes le: "n1 * d2 \<le> n2 * d1" and d: "0 < d1" "0 < d2"
  shows "fmt_round p cap n1 d1 \<le> fmt_round p cap n2 d2"
proof -
  define k1 k2 where k: "k1 = fmt_shift p (n1 div d1)" "k2 = fmt_shift p (n2 div d2)"
  define m1 m2 where m: "m1 = rne n1 (d1 * 2 ^ k1)" "m2 = rne n2 (d2 * 2 ^ k2)"
  have "k1 \<le> k2" unfolding k using div_ratio_mono [OF le d] by (rule fmt_shift_mono)
  then consider "k1 = k2" | "k1 < k2" by linarith
  then have "k1 * 2 ^ p + m1 \<le> k2 * 2 ^ p + m2"
  proof cases
    case 1
    have "n1 * (d2 * 2 ^ k2) \<le> n2 * (d1 * 2 ^ k1)" using le 1 by (simp add: mult.assoc [symmetric])
    then have "m1 \<le> m2" unfolding m using d by (intro rne_mono) auto
    with 1 show ?thesis by simp
  next
    case 2
    then have "m1 \<le> 2 ^ Suc p" and "2 ^ p \<le> m2"
      using rne_fmt_bounds [where n = n1 and d = d1 and p = p] rne_fmt_bounds [where n = n2 and d = d2 and p = p] by (auto simp: k m)
    moreover have "(k1 + 1) * 2 ^ p \<le> k2 * 2 ^ p" using 2 by (intro mult_right_mono) auto
    ultimately show ?thesis by simp
  qed
  then show ?thesis by (simp add: fmt_round_def Let_def k [symmetric] m [symmetric] min_le_iff_disj)
qed

text \<open>A representable magnitude rounds to itself.\<close>

lemma fmt_mag_normal:
  assumes "2 ^ Suc p \<le> b"
  shows "fmt_shift p (fmt_mag p b) = b div 2 ^ p - 1"
    and "fmt_mag p b = (2 ^ p + b mod 2 ^ p) * 2 ^ (b div 2 ^ p - 1)"
    and "2 \<le> b div 2 ^ p"
proof -
  define e f where ef: "e = b div 2 ^ p - 1" "f = b mod 2 ^ p"
  have "2 ^ p * 2 \<le> b" using assms by simp
  then show "2 \<le> b div 2 ^ p" by (simp add: less_eq_div_iff_mult_less_eq mult.commute)
  then have e: "0 < e" by (simp add: ef)
  have f: "f < 2 ^ p" by (simp add: ef)
  have "(2::nat) ^ p \<le> 2 ^ Suc p" by simp
  then have "2 ^ p \<le> b" using assms by (rule order_trans)
  then show m: "fmt_mag p b = (2 ^ p + b mod 2 ^ p) * 2 ^ (b div 2 ^ p - 1)"
    by (simp add: fmt_mag_def)
  have "2 ^ (p + e) \<le> fmt_mag p b" unfolding m by (simp add: power_add ef)
  moreover have "fmt_mag p b < 2 ^ Suc (p + e)"
    unfolding m ef [symmetric] using f by (simp add: power_add)
  ultimately have "bitlen (fmt_mag p b) = Suc (p + e)" by (rule bitlen_eqI)
  then show "fmt_shift p (fmt_mag p b) = b div 2 ^ p - 1" by (simp add: fmt_shift_def ef)
qed

lemma fmt_mag_small: "b < 2 ^ Suc p \<Longrightarrow> fmt_mag p b = b"
proof -
  assume b: "b < 2 ^ Suc p"
  show ?thesis
  proof (cases "b < 2 ^ p")
    case False
    with b have "b div 2 ^ p = 1" by (intro div_nat_eqI) auto
    moreover from this have "b mod 2 ^ p = b - 2 ^ p" by (simp add: minus_div_mult_eq_mod [symmetric])
    ultimately show ?thesis using False by (simp add: fmt_mag_def)
  qed (simp add: fmt_mag_def)
qed

lemma fmt_shift_small: "q < 2 ^ Suc p \<Longrightarrow> fmt_shift p q = 0"
proof (cases "q = 0")
  case False
  assume "q < 2 ^ Suc p"
  then have "2 ^ (bitlen q - 1) < (2::nat) ^ Suc p"
    using le_less_trans [OF two_pow_bitlen_le, of q "2 ^ Suc p"] False by simp
  then have "bitlen q - 1 < Suc p" by (rule power_less_imp_less_exp [rotated]) simp
  then show ?thesis by (simp add: fmt_shift_def)
qed (simp add: fmt_shift_def)

lemma fmt_round_exact:
  assumes d: "0 < d" and b: "b \<le> cap"
  shows "fmt_round p cap (d * fmt_mag p b) d = b"
proof (cases "b < 2 ^ Suc p")
  case True
  then show ?thesis
    using d b by (simp add: fmt_round_def fmt_mag_small fmt_shift_small rne_exact)
next
  case False
  define e where "e = b div 2 ^ p - 1"
  have k: "fmt_shift p (fmt_mag p b) = e" and m: "fmt_mag p b = (2 ^ p + b mod 2 ^ p) * 2 ^ e"
    and two: "2 \<le> b div 2 ^ p"
    using False fmt_mag_normal [of p b] by (auto simp: e_def)
  have "rne (d * fmt_mag p b) (d * 2 ^ e) = 2 ^ p + b mod 2 ^ p"
    using rne_exact [of "d * 2 ^ e" "2 ^ p + b mod 2 ^ p"] d
    by (simp add: m mult.assoc mult.commute mult.left_commute)
  moreover have "e * 2 ^ p + (2 ^ p + b mod 2 ^ p) = b"
  proof -
    have "b div 2 ^ p = Suc e" using two by (simp add: e_def)
    then have "b = Suc e * 2 ^ p + b mod 2 ^ p" by (metis div_mult_mod_eq)
    then show ?thesis by simp
  qed
  ultimately show ?thesis using d b by (simp add: fmt_round_def Let_def k)
qed

lemma fmt_round_at_most:
  assumes "n \<le> d * fmt_mag p b" and "0 < d" and "b \<le> cap"
  shows "fmt_round p cap n d \<le> b"
proof -
  have "fmt_round p cap n d \<le> fmt_round p cap (d * fmt_mag p b) d"
    using assms(1,2) by (intro fmt_round_mono) auto
  then show ?thesis using assms by (simp add: fmt_round_exact)
qed

lemma fmt_round_at_least:
  assumes "d * fmt_mag p b \<le> n" and "0 < d" and "b \<le> cap"
  shows "b \<le> fmt_round p cap n d"
proof -
  have "fmt_round p cap (d * fmt_mag p b) d \<le> fmt_round p cap n d"
    using assms(1,2) by (intro fmt_round_mono) auto
  then show ?thesis using assms by (simp add: fmt_round_exact)
qed

lemma fmt_mag_mono: "a \<le> b \<Longrightarrow> fmt_mag p a \<le> fmt_mag p b"
proof (rule ccontr)
  assume le: "a \<le> b" and "\<not> fmt_mag p a \<le> fmt_mag p b"
  then have "fmt_round p b (fmt_mag p b) 1 \<le> fmt_round p b (fmt_mag p a) 1" by (intro fmt_round_mono) auto
  then have "b = a" using fmt_round_exact [of 1 _ b p] le by fastforce
  then show False using \<open>\<not> fmt_mag p a \<le> fmt_mag p b\<close> by simp
qed

section \<open>The rounding error\<close>

lemma rne_half: "0 < b \<Longrightarrow> 2 * a \<le> (2 * rne a b + 1) * b" "0 < b \<Longrightarrow> 2 * rne a b * b \<le> 2 * a + b"
proof -
  assume b: "0 < b"
  have e: "a = (a div b) * b + a mod b" by simp
  have r: "a mod b < b" using b by simp
  show "2 * a \<le> (2 * rne a b + 1) * b"
  proof (cases "b < 2 * (a mod b) \<or> (2 * (a mod b) = b \<and> odd (a div b))")
    case True
    then have "rne a b = a div b + 1" by (simp add: rne_cases)
    then have "(2 * rne a b + 1) * b = 2 * ((a div b) * b) + 3 * b" by (simp add: algebra_simps)
    then show ?thesis using e r by linarith
  next
    case False
    then have "rne a b = a div b" "2 * (a mod b) \<le> b" by (auto simp: rne_cases)
    moreover from this have "(2 * rne a b + 1) * b = 2 * ((a div b) * b) + b" by (simp add: algebra_simps)
    ultimately show ?thesis using e by linarith
  qed
  show "2 * rne a b * b \<le> 2 * a + b"
  proof (cases "b < 2 * (a mod b) \<or> (2 * (a mod b) = b \<and> odd (a div b))")
    case True
    then have "rne a b = a div b + 1" "b \<le> 2 * (a mod b)" by (auto simp: rne_cases)
    moreover from this have "2 * rne a b * b = 2 * ((a div b) * b) + 2 * b" by (simp add: algebra_simps)
    ultimately show ?thesis using e by linarith
  next
    case False
    then have "rne a b = a div b" by (auto simp: rne_cases)
    then have "2 * rne a b * b = 2 * ((a div b) * b)" by (simp add: algebra_simps)
    then show ?thesis using e by linarith
  qed
qed

lemma rne_eqI:
  assumes "2 * a < (2 * v + 1) * b" "2 * v * b < 2 * a + b"
  shows "rne a b = v"
proof -
  have b: "0 < b" using assms(1) by (cases b) auto
  have "2 * rne a b * b < (2 * v + 1) * b + b" using rne_half(2) [OF b, of a] assms(1) by linarith
  then have "(2 * rne a b) * b < (2 * v + 2) * b" by (simp add: algebra_simps)
  then have "2 * rne a b < 2 * v + 2" by (simp only: mult_less_cancel2)
  moreover have "2 * v * b < (2 * rne a b + 1) * b + b" using rne_half(1) [OF b, of a] assms(2) by linarith
  then have "(2 * v) * b < (2 * rne a b + 2) * b" by (simp add: algebra_simps)
  then have "2 * v < 2 * rne a b + 2" by (simp only: mult_less_cancel2)
  ultimately show ?thesis by simp
qed

text \<open>The magnitude of a pattern made of an exponent and a rounded significand.\<close>

lemma fmt_mag_pack:
  assumes "m \<le> 2 ^ Suc p" "0 < k \<Longrightarrow> 2 ^ p \<le> m"
  shows "fmt_mag p (k * 2 ^ p + m) = m * 2 ^ k"
proof (cases "m = 2 ^ Suc p")
  case True
  have a: "k * 2 ^ p + m = (k + 2) * 2 ^ p" unfolding True by (simp add: algebra_simps)
  show ?thesis unfolding a fmt_mag_def True by simp
next
  case False
  then have m: "m < 2 ^ Suc p" using assms(1) by simp
  show ?thesis
  proof (cases "k = 0")
    case True
    then show ?thesis using m fmt_mag_small [of m p] by simp
  next
    case k: False
    then have ge: "2 ^ p \<le> m" using assms(2) by simp
    have a: "k * 2 ^ p + m = (k + 1) * 2 ^ p + (m - 2 ^ p)" using ge by simp
    have l: "m - 2 ^ p < 2 ^ p" using m ge by simp
    have "(k * 2 ^ p + m) div 2 ^ p = k + 1" "(k * 2 ^ p + m) mod 2 ^ p = m - 2 ^ p"
      unfolding a using l by (simp_all only: div_mult_self3 mod_mult_self3) simp_all
    moreover have "\<not> k * 2 ^ p + m < 2 ^ p" using ge by simp
    ultimately show ?thesis using ge by (simp add: fmt_mag_def)
  qed
qed

lemma fmt_round_error:
  assumes "2 ^ p \<le> n div d" "0 < d" "fmt_round p cap n d < cap"
  defines "M \<equiv> fmt_mag p (fmt_round p cap n d)"
  shows "2 ^ Suc p * (M * d) \<le> (2 ^ Suc p + 1) * n" "2 ^ Suc p * n \<le> 2 ^ Suc p * (M * d) + n"
proof -
  define k where "k = fmt_shift p (n div d)"
  define m where "m = rne n (d * 2 ^ k)"
  have "fmt_round p cap n d = k * 2 ^ p + m"
    using assms(3) by (auto simp: fmt_round_def Let_def k_def m_def min_def split: if_splits)
  moreover have "m \<le> 2 ^ Suc p" "0 < k \<Longrightarrow> 2 ^ p \<le> m"
    using rne_fmt_bounds [where n = n and d = d and p = p] by (simp_all add: k_def m_def)
  ultimately have M: "M = m * 2 ^ k" unfolding M_def by (simp add: fmt_mag_pack)
  have "2 ^ p \<le> n div d div 2 ^ k"
  proof (cases "k = 0")
    case False
    then show ?thesis using fmt_shift_ge [of p "n div d"] by (simp add: k_def)
  qed (use assms(1) in simp)
  then have "2 ^ p \<le> n div (d * 2 ^ k)" by (simp add: div_mult2_eq)
  then have big: "2 ^ p * (d * 2 ^ k) \<le> n" using assms(2) by (simp add: less_eq_div_iff_mult_less_eq)
  have d: "0 < d * 2 ^ k" using assms(2) by simp
  have half: "2 * (M * d) \<le> 2 * n + d * 2 ^ k" "2 * n \<le> 2 * (M * d) + d * 2 ^ k"
    using rne_half [OF d, of n] unfolding M m_def [symmetric] by (simp_all add: algebra_simps)
  have "2 ^ p * (2 * (M * d)) \<le> 2 ^ p * (2 * n + d * 2 ^ k)" using half(1) by (rule mult_le_mono2)
  then show "2 ^ Suc p * (M * d) \<le> (2 ^ Suc p + 1) * n" using big by (simp add: algebra_simps)
  have "2 ^ p * (2 * n) \<le> 2 ^ p * (2 * (M * d) + d * 2 ^ k)" using half(2) by (rule mult_le_mono2)
  then show "2 ^ Suc p * n \<le> 2 ^ Suc p * (M * d) + n" using big by (simp add: algebra_simps)
qed

text \<open>What is a multiple of a power of two with few enough digits is representable.\<close>


lemma fmt_round_repr:
  assumes q: "q = m * 2 ^ s" "m < 2 ^ Suc p" "q < fmt_mag p cap" and d: "0 < d"
  shows "fmt_mag p (fmt_round p cap (d * q) d) = q \<and> fmt_round p cap (d * q) d < cap"
proof -
  have "\<exists>b. fmt_mag p b = q"
  proof (cases "q < 2 ^ Suc p")
    case True
    then show ?thesis using fmt_mag_small by blast
  next
    case False
    define k where "k = fmt_shift p q"
    define c where "c = q div 2 ^ k"
    have "\<not> bitlen q \<le> Suc p"
    proof
      assume "bitlen q \<le> Suc p"
      then have "(2 :: nat) ^ bitlen q \<le> 2 ^ Suc p" by (intro power_increasing) auto
      then show False using less_two_pow_bitlen [of q] False by linarith
    qed
    then have k: "0 < k" by (simp add: k_def fmt_shift_def)
    have "k \<le> s"
    proof (rule ccontr)
      assume s: "\<not> k \<le> s"
      have "2 ^ p * 2 ^ k \<le> q" using fmt_shift_ge [of p q] k
        by (simp add: k_def less_eq_div_iff_mult_less_eq)
      moreover have "q < 2 ^ Suc p * 2 ^ s" using q(1,2) by simp
      ultimately have "2 ^ p * 2 ^ k < (2 :: nat) ^ Suc p * 2 ^ s" by linarith
      also have "\<dots> = 2 ^ p * 2 ^ Suc s" by simp
      also have "\<dots> \<le> 2 ^ p * 2 ^ k" using s by (intro mult_left_mono power_increasing) auto
      finally show False by simp
    qed
    then have "q = (m * 2 ^ (s - k)) * 2 ^ k" unfolding q(1) by (simp add: mult.assoc flip: power_add)
    then have qc: "q = c * 2 ^ k" unfolding c_def by (metis nonzero_mult_div_cancel_right power_not_zero zero_neq_numeral)
    have c: "2 ^ p \<le> c" "c < 2 ^ Suc p"
      using fmt_shift_ge [of p q] fmt_shift_lt [of q p] k by (simp_all add: k_def c_def)
    have "fmt_mag p (k * 2 ^ p + c) = c * 2 ^ k" using c by (intro fmt_mag_pack) simp_all
    then show ?thesis using qc by blast
  qed
  then obtain b where b: "fmt_mag p b = q" by blast
  have "b < cap" using fmt_mag_mono [of cap b p] b q(3) by (simp add: not_le [symmetric]) (meson not_le)
  moreover from this have "fmt_round p cap (d * q) d = b"
    using fmt_round_exact [OF d, of b cap p] b by simp
  ultimately show ?thesis using b by simp
qed

lemma fmt_mag_odd_part: "\<exists>m s. fmt_mag p b = m * 2 ^ s \<and> m < 2 ^ Suc p"
proof (cases "b < 2 ^ p")
  case True
  then have "fmt_mag p b = b * 2 ^ 0 \<and> b < 2 ^ Suc p" by (simp add: fmt_mag_def)
  then show ?thesis by blast
next
  case False
  have "b mod 2 ^ p < 2 ^ p" by simp
  then have "2 ^ p + b mod 2 ^ p < 2 ^ Suc p" by simp
  then show ?thesis using False unfolding fmt_mag_def by auto
qed
lemma rne_scale: "0 < c \<Longrightarrow> 0 < b \<Longrightarrow> rne (a * c) (b * c) = rne a b"
  by (intro antisym rne_mono) simp_all

lemma fmt_round_uncapped:
  assumes "n \<le> d * 2 ^ s" "0 < d" "2 ^ s < fmt_mag p cap"
  shows "fmt_round p cap n d < cap"
proof -
  have "fmt_round p cap n d \<le> fmt_round p cap (1 * 2 ^ s) 1"
    using assms(1,2) by (intro fmt_round_mono) (simp_all add: mult.commute)
  moreover have "fmt_round p cap (1 * 2 ^ s) 1 < cap"
    using fmt_round_repr [of "2 ^ s" 1 s p cap 1] assms(3) one_less_power [of "2 :: nat" "Suc p"] by simp
  ultimately show ?thesis by simp
qed

lemma fmt_round_scale: "0 < c \<Longrightarrow> 0 < d \<Longrightarrow> fmt_round p cap (n * c) (d * c) = fmt_round p cap n d"
  by (intro antisym fmt_round_mono) simp_all

lemma fmt_mag_eq_0 [simp]: "fmt_mag p b = 0 \<longleftrightarrow> b = 0"
  by (cases "b = 0") (auto simp: fmt_mag_def intro: gr0I)

lemma fmt_round_0 [simp]: "0 < d \<Longrightarrow> fmt_round p cap 0 d = 0"
  by (simp add: fmt_round_def fmt_shift_def rne_def)

end
