(* ===== verification/Float32.thy ===== *)
theory Float32
  imports FloatFormat
begin

text \<open>
  The \<open>float\<close> type of the sources: IEEE-754 binary32, as the 32-bit pattern that
  \<open>memcpy\<close> in \<open>PutFloat\<close> and \<open>ReadFloat\<close> copies. Both processors compute \<open>float\<close>
  expressions in single precision (soft-float library on the Cortex-M0, FPv4-SP on the
  Cortex-M4F), rounding to nearest even.

  A finite pattern is an integer multiple of \<open>2 ^ -149\<close>, the smallest subnormal. \<open>fmag\<close>
  is that integer for the magnitude bits, so every operation is an exact computation on
  integers followed by one rounding, \<open>round_mag\<close>, of a quotient of naturals. The order of
  finite and infinite values is the order of the magnitude bits, which is what the
  comparison functions use. The payload of a NaN result is not modelled: every invalid
  operation yields the default quiet NaN. A conversion to an integer type whose range the
  truncated value leaves is undefined behaviour in C++; it takes its result from the
  parameter \<open>ub\<close> of the conversion.
\<close>

type_synonym f32 = u32

section \<open>Fields of a pattern\<close>

definition INF_BITS :: nat where "INF_BITS = 2139095040"

definition fbits :: "f32 \<Rightarrow> nat" where
  "fbits x = unat x mod 2147483648"

definition fsign :: "f32 \<Rightarrow> bool" where
  "fsign x \<longleftrightarrow> 2147483648 \<le> unat x"

definition f_isnan :: "f32 \<Rightarrow> bool" where
  "f_isnan x \<longleftrightarrow> INF_BITS < fbits x"

definition f_isinf :: "f32 \<Rightarrow> bool" where
  "f_isinf x \<longleftrightarrow> fbits x = INF_BITS"

definition f_isfinite :: "f32 \<Rightarrow> bool" where
  "f_isfinite x \<longleftrightarrow> fbits x < INF_BITS"

definition f_iszero :: "f32 \<Rightarrow> bool" where
  "f_iszero x \<longleftrightarrow> fbits x = 0"

definition f_qnan :: f32 where "f_qnan = 0x7FC00000"

definition mk_float :: "bool \<Rightarrow> nat \<Rightarrow> f32" where
  "mk_float s b = word_of_nat (if s then b + 2147483648 else b)"

definition f_inf :: "bool \<Rightarrow> f32" where
  "f_inf s = mk_float s INF_BITS"

text \<open>The magnitude in units of \<open>2 ^ -149\<close>, of the 31 bits below the sign.\<close>

definition mag_of :: "nat \<Rightarrow> nat" where
  "mag_of b = (if b < 8388608 then b
    else (8388608 + b mod 8388608) * 2 ^ (b div 8388608 - 1))"

definition fmag :: "f32 \<Rightarrow> nat" where
  "fmag x = mag_of (fbits x)"

definition fint :: "f32 \<Rightarrow> int" where
  "fint x = (if fsign x then - int (fmag x) else int (fmag x))"

lemma fbits_lt: "fbits x < 2147483648"
  by (simp add: fbits_def)

lemma fbits_mk [simp]: "b < 2147483648 \<Longrightarrow> fbits (mk_float s b) = b"
  by (simp add: fbits_def mk_float_def unat_of_nat_small)

lemma fsign_mk [simp]: "b < 2147483648 \<Longrightarrow> fsign (mk_float s b) = s"
  by (simp add: fsign_def mk_float_def unat_of_nat_small)

lemma mk_fbits: "mk_float (fsign x) (fbits x) = x"
proof -
  have "unat x < 4294967296" using unsigned_less [of x] by simp
  then have "(if fsign x then fbits x + 2147483648 else fbits x) = unat x"
    by (auto simp: fsign_def fbits_def mod_if)
  then show ?thesis by (simp add: mk_float_def)
qed

lemma f_classes: "f_isnan x \<or> f_isinf x \<or> f_isfinite x"
  by (auto simp: f_isnan_def f_isinf_def f_isfinite_def)

section \<open>Rounding\<close>

definition round_shift :: "nat \<Rightarrow> nat" where
  "round_shift q = bitlen q - 24"

text \<open>\<open>round_mag n d\<close>: the magnitude bits of the binary32 nearest to \<open>n / d\<close> units.\<close>

definition round_mag :: "nat \<Rightarrow> nat \<Rightarrow> nat" where
  "round_mag n d = (let k = round_shift (n div d)
    in min INF_BITS (k * 8388608 + rne n (d * 2 ^ k)))"

text \<open>The instance of \<open>FloatFormat\<close> with 23 fraction bits.\<close>

lemma binary32_format:
  "mag_of = fmt_mag 23" "round_shift = fmt_shift 23" "round_mag = fmt_round 23 INF_BITS"
  by (simp_all add: fun_eq_iff mag_of_def fmt_mag_def round_shift_def fmt_shift_def round_mag_def fmt_round_def)

lemma round_mag_le_INF [simp]: "round_mag n d \<le> INF_BITS"
  by (simp add: binary32_format)

lemma round_mag_lt [simp]: "round_mag n d < 2147483648"
  using round_mag_le_INF [of n d] by (simp add: INF_BITS_def del: round_mag_le_INF)

lemma round_mag_mono:
  "n1 * d2 \<le> n2 * d1 \<Longrightarrow> 0 < d1 \<Longrightarrow> 0 < d2 \<Longrightarrow> round_mag n1 d1 \<le> round_mag n2 d2"
  unfolding binary32_format by (rule fmt_round_mono)

lemma mag_of_small: "b < 16777216 \<Longrightarrow> mag_of b = b"
  using fmt_mag_small [of b 23] by (simp add: binary32_format)

lemma round_mag_exact: "0 < d \<Longrightarrow> b \<le> INF_BITS \<Longrightarrow> round_mag (d * mag_of b) d = b"
  unfolding binary32_format by (rule fmt_round_exact)

lemma round_mag_le: "n \<le> d * mag_of b \<Longrightarrow> 0 < d \<Longrightarrow> b \<le> INF_BITS \<Longrightarrow> round_mag n d \<le> b"
  unfolding binary32_format by (rule fmt_round_at_most)

lemma round_mag_ge: "d * mag_of b \<le> n \<Longrightarrow> 0 < d \<Longrightarrow> b \<le> INF_BITS \<Longrightarrow> b \<le> round_mag n d"
  unfolding binary32_format by (rule fmt_round_at_least)

lemma mag_of_mono: "a \<le> b \<Longrightarrow> mag_of a \<le> mag_of b"
  unfolding binary32_format by (rule fmt_mag_mono)

section \<open>Comparison\<close>

text \<open>
  \<open>fkey\<close> orders the non-NaN patterns: the magnitude bits with the sign. Both zeros have
  key 0. Every comparison with a NaN operand is false.
\<close>

definition fkey :: "f32 \<Rightarrow> int" where
  "fkey x = (if fsign x then - int (fbits x) else int (fbits x))"

definition f_lt :: "f32 \<Rightarrow> f32 \<Rightarrow> bool" where
  "f_lt x y \<longleftrightarrow> \<not> f_isnan x \<and> \<not> f_isnan y \<and> fkey x < fkey y"

definition f_le :: "f32 \<Rightarrow> f32 \<Rightarrow> bool" where
  "f_le x y \<longleftrightarrow> \<not> f_isnan x \<and> \<not> f_isnan y \<and> fkey x \<le> fkey y"

definition f_eq :: "f32 \<Rightarrow> f32 \<Rightarrow> bool" where
  "f_eq x y \<longleftrightarrow> \<not> f_isnan x \<and> \<not> f_isnan y \<and> fkey x = fkey y"

abbreviation f_gt :: "f32 \<Rightarrow> f32 \<Rightarrow> bool" where "f_gt x y \<equiv> f_lt y x"
abbreviation f_ge :: "f32 \<Rightarrow> f32 \<Rightarrow> bool" where "f_ge x y \<equiv> f_le y x"

lemma f_lt_trans: "f_lt x y \<Longrightarrow> f_lt y z \<Longrightarrow> f_lt x z"
  by (auto simp: f_lt_def)

lemma f_le_lt_trans: "f_le x y \<Longrightarrow> f_lt y z \<Longrightarrow> f_lt x z"
  by (auto simp: f_lt_def f_le_def)

lemma f_not_lt: "\<not> f_isnan x \<Longrightarrow> \<not> f_isnan y \<Longrightarrow> \<not> f_lt x y \<Longrightarrow> f_le y x"
  by (auto simp: f_lt_def f_le_def)

lemma f_le_refl: "\<not> f_isnan x \<Longrightarrow> f_le x x"
  by (simp add: f_le_def)

lemma f_lt_le: "f_lt x y \<Longrightarrow> f_le x y"
  by (auto simp: f_lt_def f_le_def)

section \<open>Arithmetic\<close>

definition f_neg :: "f32 \<Rightarrow> f32" where
  "f_neg x = mk_float (\<not> fsign x) (fbits x)"

definition f_abs :: "f32 \<Rightarrow> f32" where
  "f_abs x = mk_float False (fbits x)"

definition f_add :: "f32 \<Rightarrow> f32 \<Rightarrow> f32" where
  "f_add x y = (if f_isnan x \<or> f_isnan y then f_qnan
    else if f_isinf x then (if f_isinf y \<and> fsign x \<noteq> fsign y then f_qnan else x)
    else if f_isinf y then y
    else let s = fint x + fint y
      in if s = 0 then mk_float (fsign x \<and> fsign y) 0
         else mk_float (s < 0) (round_mag (nat \<bar>s\<bar>) 1))"

definition f_sub :: "f32 \<Rightarrow> f32 \<Rightarrow> f32" where
  "f_sub x y = f_add x (f_neg y)"

definition f_mul :: "f32 \<Rightarrow> f32 \<Rightarrow> f32" where
  "f_mul x y = (if f_isnan x \<or> f_isnan y \<or> (f_isinf x \<and> f_iszero y) \<or> (f_iszero x \<and> f_isinf y)
      then f_qnan
    else if f_isinf x \<or> f_isinf y then f_inf (fsign x \<noteq> fsign y)
    else mk_float (fsign x \<noteq> fsign y) (round_mag (fmag x * fmag y) (2 ^ 149)))"

definition f_div :: "f32 \<Rightarrow> f32 \<Rightarrow> f32" where
  "f_div x y = (if f_isnan x \<or> f_isnan y \<or> (f_isinf x \<and> f_isinf y) \<or> (f_iszero x \<and> f_iszero y)
      then f_qnan
    else if f_isinf x \<or> f_iszero y then f_inf (fsign x \<noteq> fsign y)
    else if f_isinf y then mk_float (fsign x \<noteq> fsign y) 0
    else mk_float (fsign x \<noteq> fsign y) (round_mag (fmag x * 2 ^ 149) (fmag y)))"

text \<open>
  \<open>sqrtf\<close>, correctly rounded: the integer square root of the operand scaled by \<open>2 ^ 120\<close>, with a
  sticky bit for a remainder, is rounded once.
\<close>

fun isqrt_bits :: "nat \<Rightarrow> nat \<Rightarrow> nat \<Rightarrow> nat" where
  "isqrt_bits 0 n r = r"
| "isqrt_bits (Suc k) n r =
     isqrt_bits k n (if (r + 2 ^ k) * (r + 2 ^ k) \<le> n then r + 2 ^ k else r)"

definition f_sqrt :: "f32 \<Rightarrow> f32" where
  "f_sqrt x = (if f_isnan x then f_qnan else if f_iszero x then x else if fsign x then f_qnan
    else if f_isinf x then x
    else let n = fmag x * 2 ^ 269; r = isqrt_bits 280 n 0
         in mk_float False (round_mag (2 * r + (if r * r = n then 0 else 1)) (2 ^ 61)))"

lemma isqrt_bits_correct:
  assumes "r * r \<le> n" and "n < (r + 2 ^ k) * (r + 2 ^ k)"
  shows "isqrt_bits k n r * isqrt_bits k n r \<le> n
    \<and> n < (isqrt_bits k n r + 1) * (isqrt_bits k n r + 1)"
  using assms by (induction k n r rule: isqrt_bits.induct) (auto simp: algebra_simps)

text \<open>Integers to \<open>float\<close>, decimal literals \<open>n/d\<close>, and truncation towards zero.\<close>

definition f_of_int :: "int \<Rightarrow> f32" where
  "f_of_int i = mk_float (i < 0) (round_mag (nat \<bar>i\<bar> * 2 ^ 149) 1)"

definition f_lit :: "nat \<Rightarrow> nat \<Rightarrow> f32" where
  "f_lit n d = mk_float False (round_mag (n * 2 ^ 149) d)"

definition f_of_nat :: "nat \<Rightarrow> f32" where
  "f_of_nat n = f_of_int (int n)"

definition f_trunc :: "f32 \<Rightarrow> int" where
  "f_trunc x = (if fsign x then - int (fmag x div 2 ^ 149) else int (fmag x div 2 ^ 149))"

text \<open>
  Conversions of a \<open>float\<close> to an integer type. In range: the truncated value. Out of range
  or not finite: undefined behaviour, the value comes from \<open>ub\<close>.
\<close>

definition f_in_range :: "int \<Rightarrow> int \<Rightarrow> f32 \<Rightarrow> bool" where
  "f_in_range lo hi x \<longleftrightarrow> f_isfinite x \<and> lo \<le> f_trunc x \<and> f_trunc x \<le> hi"

definition f_to_u16 :: "(f32 \<Rightarrow> u16) \<Rightarrow> f32 \<Rightarrow> u16" where
  "f_to_u16 ub x = (if f_in_range 0 65535 x then word_of_int (f_trunc x) else ub x)"

definition f_to_i16 :: "(f32 \<Rightarrow> u16) \<Rightarrow> f32 \<Rightarrow> u16" where
  "f_to_i16 ub x = (if f_in_range (-32768) 32767 x then word_of_int (f_trunc x) else ub x)"

definition f_to_u32 :: "(f32 \<Rightarrow> u32) \<Rightarrow> f32 \<Rightarrow> u32" where
  "f_to_u32 ub x = (if f_in_range 0 4294967295 x then word_of_int (f_trunc x) else ub x)"

section \<open>Bounds that survive rounding\<close>

lemma mag_of_0 [simp]: "mag_of 0 = 0"
  by (simp add: mag_of_def)

lemma mag_of_INF: "mag_of INF_BITS = 2 ^ 277"
  by (simp add: mag_of_def INF_BITS_def)

lemma fmag_lt_iff: "f_isfinite x \<Longrightarrow> f_isfinite y \<Longrightarrow> fmag x \<le> fmag y \<longleftrightarrow> fbits x \<le> fbits y"
proof
  assume fin: "f_isfinite x" "f_isfinite y"
  then have le: "fbits x \<le> INF_BITS" "fbits y \<le> INF_BITS" by (auto simp: f_isfinite_def)
  show "fmag x \<le> fmag y" if "fbits x \<le> fbits y"
    using that le by (simp add: fmag_def mag_of_mono)
  show "fbits x \<le> fbits y" if "fmag x \<le> fmag y"
  proof -
    have "round_mag (fmag x) 1 \<le> round_mag (fmag y) 1" using that by (intro round_mag_mono) auto
    then show ?thesis using le round_mag_exact [of 1] by (simp add: fmag_def)
  qed
qed

lemma fbits_fmag_eq: "f_isfinite x \<Longrightarrow> round_mag (fmag x) 1 = fbits x"
  using round_mag_exact [of 1 "fbits x"] by (simp add: fmag_def f_isfinite_def)

lemma f_trunc_nonneg_bound:
  assumes "f_isfinite x" and "\<not> fsign x" and "fmag x < (n + 1) * 2 ^ 149"
  shows "0 \<le> f_trunc x \<and> f_trunc x \<le> int n"
proof -
  have "fmag x div 2 ^ 149 < n + 1"
    using assms(3) by (simp add: less_mult_imp_div_less)
  then show ?thesis using assms(2) by (simp add: f_trunc_def)
qed

lemma f_neg_neg [simp]: "f_neg (f_neg x) = x"
  using mk_fbits [of x] by (simp add: f_neg_def fbits_lt)

end
