(* ===== verification/LpcThermal.thy ===== *)
theory LpcThermal
  imports LpcPwm Float32
begin

text \<open>
  The thermal controller of the coprocessor, \<open>LpcFirmware/src/Thermal.cpp\<close>: thermistor
  sampling, the heater state machine with its faults, the PID, the configuration messages, the
  SysTick interrupt with the link timeout, and the status report.

  \<open>Lpc\<close> is the file's static state, one field per variable, and the hardware. \<open>Env\<close> holds what
  comes from outside: \<open>logf\<close> and \<open>powf\<close>, whose accuracy C leaves to the implementation; the
  successive values the ADC data register reads; and what a \<open>float\<close> to integer conversion yields
  when it is out of range, which C++ leaves undefined. Arithmetic is IEEE single precision with
  one rounding per operation (the Cortex-M0 has no fused multiply-add).
\<close>

record Env =
  e_logf :: "f32 \<Rightarrow> f32"
  e_powf :: "f32 \<Rightarrow> f32 \<Rightarrow> f32"
  e_adc :: "nat \<Rightarrow> u32"
  e_ub16 :: "f32 \<Rightarrow> u16"
  e_ub32 :: "f32 \<Rightarrow> u32"

definition SampleIntervalMillis :: u32 where "SampleIntervalMillis = 250"
definition LinkTimeoutMillis :: u32 where "LinkTimeoutMillis = 2500"
definition AbsoluteZero :: f32 where "AbsoluteZero = f_neg (f_lit 27315 100)"
definition MinimumConnectedTemperature :: f32 where "MinimumConnectedTemperature = f_neg (f_lit 5 1)"
definition NormalAmbientTemperature :: f32 where "NormalAmbientTemperature = f_lit 25 1"
definition TemperatureCloseEnough :: f32 where "TemperatureCloseEnough = f_lit 15 10"
definition MaxAmbientTemperature :: f32 where "MaxAmbientTemperature = f_lit 45 1"
definition FanFeedForwardMultiplier :: f32 where "FanFeedForwardMultiplier = f_lit 7 10"
definition AdcRange :: u16 where "AdcRange = 1024"

abbreviation f0 :: f32 where "f0 \<equiv> 0"
definition f1 :: f32 where "f1 = f_lit 1 1"

record Model =
  m_heatingRate :: f32
  m_basicCoolingRate :: f32
  m_fanCoolingRate :: f32
  m_coolingRateExponent :: f32
  m_deadTime :: f32
  m_maxPwm :: f32
  m_overrideKp :: f32
  m_overrideRecipTi :: f32
  m_overrideTd :: f32
  m_usePid :: bool
  m_inverted :: bool
  m_pidOverridden :: bool

record Pid =
  pid_kP :: f32
  pid_recipTi :: f32
  pid_tD :: f32

record Lpc =
  th_millisTicks :: u32
  th_lastHostHeartbeat :: u32
  th_statusDirty :: bool
  th_lastSampleTime :: u32
  th_excursionFaultMillis :: u32
  th_heatingFaultMillis :: u32
  th_heatingReferenceMillis :: u32
  th_timeSetHeating :: u32
  th_lastRawAdc :: u16
  th_heaterFrequency :: u16
  th_maxBadReadings :: u8
  th_badReadings :: u8
  th_r25 :: f32
  th_beta :: f32
  th_shC :: f32
  th_pullupR :: f32
  th_shA :: f32
  th_shB :: f32
  th_temperature :: f32
  th_targetTemperature :: f32
  th_upperLimit :: f32
  th_lowerLimit :: f32
  th_maxTempExcursion :: f32
  th_maxFaultTime :: f32
  th_fanPwm :: f32
  th_extrusionPwmBoost :: f32
  th_extrusionTemperatureBoost :: f32
  th_lastExtrusionTemperatureBoost :: f32
  th_integral :: f32
  th_averagePwm :: f32
  th_lastPwm :: f32
  th_heatingReferenceTemperature :: f32
  th_previousTemperatures :: "f32 list"
  th_previousIndex :: u8
  th_goodTemperatureMask :: u8
  th_thermistorConfigured :: bool
  th_heaterConfigured :: bool
  th_modelConfigured :: bool
  th_model :: Model
  th_pendingModel :: Model
  th_pendingModelParts :: u8
  th_state :: HeaterState
  th_error :: ThermalError
  th_linkTimeoutLatched :: bool
  th_hw :: Hw
  th_adcPos :: nat

section \<open>Helpers\<close>

definition ReadFloat :: "u8 list \<Rightarrow> nat \<Rightarrow> f32" where
  "ReadFloat p k = ucast (p ! k) OR push_bit 8 (ucast (p ! (k + 1)))
     OR push_bit 16 (ucast (p ! (k + 2))) OR push_bit 24 (ucast (p ! (k + 3)))"

text \<open>\<open>ReadU16\<close> and the bits of \<open>ReadI16\<close>.\<close>

definition Thermal_ReadU16 :: "u8 list \<Rightarrow> nat \<Rightarrow> u16" where
  "Thermal_ReadU16 p k = le16 (p ! k) (p ! (k + 1))"

definition Clamp :: "f32 \<Rightarrow> f32 \<Rightarrow> f32 \<Rightarrow> f32" where
  "Clamp v low high = (if f_lt v low then low else if f_gt v high then high else v)"

definition ModelReady :: "Model \<Rightarrow> bool" where
  "ModelReady c \<longleftrightarrow>
     f_isfinite (m_heatingRate c) \<and> f_gt (m_heatingRate c) f0
   \<and> f_isfinite (m_basicCoolingRate c) \<and> f_ge (m_basicCoolingRate c) f0
   \<and> f_isfinite (m_fanCoolingRate c) \<and> f_ge (m_fanCoolingRate c) f0
   \<and> f_isfinite (m_coolingRateExponent c) \<and> f_ge (m_coolingRateExponent c) f1
   \<and> f_le (m_coolingRateExponent c) (f_lit 16 10)
   \<and> f_isfinite (m_deadTime c) \<and> f_gt (m_deadTime c) f0
   \<and> f_isfinite (m_maxPwm c) \<and> f_gt (m_maxPwm c) f0 \<and> f_le (m_maxPwm c) f1
   \<and> (\<not> m_pidOverridden c \<or> (f_isfinite (m_overrideKp c) \<and> f_isfinite (m_overrideRecipTi c)
        \<and> f_isfinite (m_overrideTd c)))"

definition LinkAlive :: "Lpc \<Rightarrow> bool" where
  "LinkAlive st \<longleftrightarrow> th_millisTicks st - th_lastHostHeartbeat st \<le> LinkTimeoutMillis"

definition Active :: "Lpc \<Rightarrow> bool" where
  "Active st \<longleftrightarrow> HCooling \<le> th_state st"

definition InPidMode :: "Lpc \<Rightarrow> bool" where
  "InPidMode st \<longleftrightarrow> HCooling \<le> th_state st \<and> th_state st \<le> HHeating"

definition target_state :: "f32 \<Rightarrow> f32 \<Rightarrow> HeaterState" where
  "target_state temp target =
    (if f_lt (f_add temp TemperatureCloseEnough) target then HHeating
     else if f_gt temp (f_add target TemperatureCloseEnough) then HCooling else HStable)"

definition UpdateHeaterState :: "f32 \<Rightarrow> Lpc \<Rightarrow> Lpc" where
  "UpdateHeaterState target st =
    (let newState = target_state (th_temperature st) target in
     if newState \<noteq> th_state st then
       let st1 = (if newState = HHeating
                  then st\<lparr>th_heatingReferenceTemperature := th_temperature st,
                          th_heatingReferenceMillis := th_millisTicks st,
                          th_timeSetHeating := th_millisTicks st\<rparr> else st)
       in st1\<lparr>th_heatingFaultMillis := 0, th_excursionFaultMillis := 0, th_state := newState\<rparr>
     else st)"

section \<open>The heater output\<close>

text \<open>
  \<open>ApplyHeater\<close> can be interrupted by \<open>Tick\<close>, which is what its second test of
  \<open>linkTimeoutLatched\<close> is for. \<open>ApplyHeater_with\<close> has the three places where that matters as
  arguments: \<open>pre\<close> runs after the first read of the flag, \<open>pset\<close> executes \<open>Pwm::Set\<close> (with
  whatever interrupts it), \<open>post\<close> runs after the final test. Undisturbed, they are
  \<open>id\<close>, \<open>Pwm_Set\<close> and \<open>id\<close>.
\<close>

definition heater_set :: "u16 \<Rightarrow> Lpc \<Rightarrow> Lpc" where
  "heater_set duty st = st\<lparr>th_hw := snd (Pwm_Set PinHeater duty (th_heaterFrequency st) (th_hw st))\<rparr>"

definition heater_duty :: "Env \<Rightarrow> f32 \<Rightarrow> u16" where
  "heater_duty env limited =
     f_to_u16 (e_ub16 env) (f_add (f_mul limited (f_lit 65535 1)) (f_lit 1 2))"

definition ApplyHeater_with ::
    "Env \<Rightarrow> (Lpc \<Rightarrow> Lpc) \<Rightarrow> (u16 \<Rightarrow> Lpc \<Rightarrow> Lpc) \<Rightarrow> (Lpc \<Rightarrow> Lpc) \<Rightarrow> f32 \<Rightarrow> Lpc \<Rightarrow> Lpc" where
  "ApplyHeater_with env pre pset post pwm st =
    (let timeoutBeforeWrite = th_linkTimeoutLatched st;
         st1 = pre st;
         limited = (if timeoutBeforeWrite then f0 else Clamp pwm f0 f1);
         st2 = pset (heater_duty env limited) st1;
         st3 = (if \<not> timeoutBeforeWrite \<and> th_linkTimeoutLatched st2 then heater_set 0 st2 else st2)
     in post st3)"

definition ApplyHeater :: "Env \<Rightarrow> f32 \<Rightarrow> Lpc \<Rightarrow> Lpc" where
  "ApplyHeater env pwm st = ApplyHeater_with env id heater_set id pwm st"

definition SetFault :: "Env \<Rightarrow> ThermalError \<Rightarrow> Lpc \<Rightarrow> Lpc" where
  "SetFault env newError st =
     (ApplyHeater env f0 st)\<lparr>th_state := HFault, th_error := newError, th_statusDirty := True\<rparr>"

section \<open>Sampling\<close>

definition LPC_ADC_CR :: u32 where "LPC_ADC_CR = 0x4001C000"

definition adc_control :: u32 where
  "adc_control = push_bit 1 1 OR push_bit 8 2"

definition set_hw :: "(Hw \<Rightarrow> Hw) \<Rightarrow> Lpc \<Rightarrow> Lpc" where
  "set_hw f st = st\<lparr>th_hw := f (th_hw st)\<rparr>"

text \<open>Each read of the data register takes the next value of \<open>e_adc\<close>.\<close>

fun adc_wait :: "(nat \<Rightarrow> u32) \<Rightarrow> nat \<Rightarrow> nat \<Rightarrow> u16 option \<times> nat" where
  "adc_wait adc 0 pos = (None, pos)"
| "adc_wait adc (Suc timeout) pos =
     (let reading = adc pos in
      if reading AND push_bit 31 1 \<noteq> 0
      then (Some (ucast (drop_bit 6 reading AND 0x03FF)), Suc pos)
      else adc_wait adc timeout (Suc pos))"

definition ReadAdc :: "Env \<Rightarrow> Lpc \<Rightarrow> u16 option \<times> Lpc" where
  "ReadAdc env st =
    (let st1 = set_hw (reg_write LPC_ADC_CR (adc_control OR push_bit 24 1)) st;
         (r, pos) = adc_wait (e_adc env) 10000 (th_adcPos st1)
     in (r, set_hw (reg_write LPC_ADC_CR adc_control) (st1\<lparr>th_adcPos := pos\<rparr>)))"

fun sum_readings :: "Env \<Rightarrow> nat \<Rightarrow> u32 \<Rightarrow> Lpc \<Rightarrow> u32 option \<times> Lpc" where
  "sum_readings env 0 acc st = (Some acc, st)"
| "sum_readings env (Suc k) acc st =
     (case ReadAdc env st of
        (None, st') \<Rightarrow> (None, st')
      | (Some reading, st') \<Rightarrow> sum_readings env k (acc + ucast reading) st')"

definition ntc_resistance :: "f32 \<Rightarrow> u16 \<Rightarrow> f32" where
  "ntc_resistance pullup raw =
     f_div (f_mul pullup (f_of_nat (unat raw))) (f_of_nat (unat (AdcRange - raw)))"

definition ntc_recipT :: "Lpc \<Rightarrow> f32 \<Rightarrow> f32" where
  "ntc_recipT st logR =
     f_add (f_add (th_shA st) (f_mul (th_shB st) logR))
       (f_mul (f_mul (f_mul (th_shC st) logR) logR) logR)"

definition SampleTemperature :: "Env \<Rightarrow> Lpc \<Rightarrow> bool \<times> Lpc" where
  "SampleTemperature env st =
    (if \<not> th_thermistorConfigured st then (False, st\<lparr>th_error := NotConfigured\<rparr>)
     else case sum_readings env 8 0 st of
       (None, st1) \<Rightarrow> (False, st1\<lparr>th_error := AdcTimeout\<rparr>)
     | (Some acc, st1) \<Rightarrow>
       let st2 = st1\<lparr>th_lastRawAdc := ucast ((acc + 4) div 8)\<rparr> in
       if th_lastRawAdc st2 = 0 then (False, st2\<lparr>th_error := ShortCircuit\<rparr>)
       else let resistance = ntc_resistance (th_pullupR st2) (th_lastRawAdc st2);
                logResistance = e_logf env resistance;
                recipT = ntc_recipT st2 logResistance
         in if \<not> f_gt recipT f0 then (False, st2\<lparr>th_error := OpenCircuit\<rparr>)
         else let st3 = st2\<lparr>th_temperature := f_add (f_div f1 recipT) AbsoluteZero\<rparr>
           in if \<not> f_isfinite (th_temperature st3)
                \<or> (f_lt (th_temperature st3) MinimumConnectedTemperature
                   \<and> f_gt resistance (f_mul (th_pullupR st3) (f_lit 100 1)))
              then (False, st3\<lparr>th_error := OpenCircuit\<rparr>)
              else (True, st3\<lparr>th_error := ErrNone\<rparr>))"

section \<open>The thermal model\<close>

definition CoolingRate :: "Env \<Rightarrow> Model \<Rightarrow> f32 \<Rightarrow> f32 \<Rightarrow> f32" where
  "CoolingRate env m temperatureRise pwmFan =
    (let scaledRise = f_mul temperatureRise (f_lit 1 100);
         base = (if f_lt scaledRise f0
                 then f_neg (e_powf env (f_neg scaledRise) (m_coolingRateExponent m))
                 else e_powf env scaledRise (m_coolingRateExponent m))
     in f_add (f_mul (m_basicCoolingRate m) base)
          (f_mul (f_mul scaledRise (m_fanCoolingRate m)) pwmFan))"

definition PidForTarget :: "Env \<Rightarrow> Model \<Rightarrow> bool \<Rightarrow> f32 \<Rightarrow> Pid" where
  "PidForTarget env m loadMode target =
    (if m_pidOverridden m
     then \<lparr>pid_kP = m_overrideKp m, pid_recipTi = m_overrideRecipTi m, pid_tD = m_overrideTd m\<rparr>
     else let above = f_sub target NormalAmbientTemperature;
              rise = (if f_gt above f1 then above else f1);
              coolingPerDegree = f_div (CoolingRate env m rise (f_lit 2 10)) rise;
              kP = f_div (f_lit 7 10) (f_mul (m_heatingRate m) (m_deadTime m));
              recipTi = (if loadMode
                then f_div (e_powf env coolingPerDegree (f_lit 25 100))
                       (f_mul (f_lit 114 100) (e_powf env (m_deadTime m) (f_lit 75 100)))
                else f_sqrt (f_div coolingPerDegree (m_deadTime m)))
          in \<lparr>pid_kP = kP, pid_recipTi = recipTi, pid_tD = f_mul (m_deadTime m) (f_lit 7 10)\<rparr>)"

section \<open>The control loop\<close>

text \<open>
  \<open>Control\<close> in the order of its body. Each phase either returns early, \<open>Inl\<close> of the state it
  returns in, or goes on, \<open>Inr\<close>.
\<close>

definition control_sample :: "Env \<Rightarrow> Lpc \<Rightarrow> bool \<times> f32 \<times> bool \<times> Lpc" where
  "control_sample env st =
    (let faultWasLatched = (th_state st = HFault);
         latchedError = th_error st;
         (good, st1) = SampleTemperature env st;
         st2 = (if faultWasLatched then st1\<lparr>th_error := latchedError\<rparr> else st1);
         st3 = st2\<lparr>th_goodTemperatureMask := push_bit 1 (th_goodTemperatureMask st2)\<rparr>
     in if good then
          let index = unat (th_previousIndex st3);
              have3 = (th_goodTemperatureMask st3 AND 0x08 \<noteq> 0);
              derivative = (if have3
                then f_sub (th_temperature st3) (th_previousTemperatures st3 ! index) else f0);
              gotDerivative = (have3 \<and> f_le (f_abs derivative) (f_lit 10 1))
          in (True, derivative, gotDerivative,
              st3\<lparr>th_badReadings := 0,
                th_previousTemperatures := (th_previousTemperatures st3)[index := th_temperature st3],
                th_previousIndex := (th_previousIndex st3 + 1) AND 3,
                th_goodTemperatureMask := th_goodTemperatureMask st3 OR 1\<rparr>)
        else (False, f0, False,
              if th_badReadings st3 < 0xFF then st3\<lparr>th_badReadings := th_badReadings st3 + 1\<rparr>
              else st3))"

definition control_checks :: "Env \<Rightarrow> bool \<Rightarrow> Lpc \<Rightarrow> Lpc + Lpc" where
  "control_checks env goodTemperature st =
    (if \<not> Active st then
       Inl ((ApplyHeater env f0 st)
              \<lparr>th_averagePwm := f_mul (th_averagePwm st) (f_lit 95 100), th_statusDirty := True\<rparr>)
     else if \<not> LinkAlive st then Inl (SetFault env LinkTimeout st)
     else if \<not> goodTemperature \<and> th_maxBadReadings st < th_badReadings st
       then Inl (SetFault env (th_error st) st)
     else if \<not> goodTemperature then Inl (st\<lparr>th_statusDirty := True\<rparr>)
     else if f_gt (th_temperature st) (th_upperLimit st) then Inl (SetFault env OverTemperature st)
     else if f_gt (th_lowerLimit st) (f_add AbsoluteZero f1)
          \<and> f_lt (th_temperature st) (th_lowerLimit st)
       then Inl (SetFault env UnderTemperature st)
     else Inr st)"

definition control_target :: "Lpc \<Rightarrow> f32 \<times> Lpc" where
  "control_target st =
    (let boosted = f_add (th_targetTemperature st) (th_extrusionTemperatureBoost st);
         adjusted = (if f_lt boosted (th_upperLimit st) then boosted else th_upperLimit st)
     in (adjusted,
         if InPidMode st
            \<and> \<not> f_eq (th_extrusionTemperatureBoost st) (th_lastExtrusionTemperatureBoost st)
         then (UpdateHeaterState adjusted st)
                \<lparr>th_lastExtrusionTemperatureBoost := th_extrusionTemperatureBoost st\<rparr>
         else st))"

definition max_fault_millis :: "Env \<Rightarrow> Lpc \<Rightarrow> u32" where
  "max_fault_millis env st = f_to_u32 (e_ub32 env) (f_mul (th_maxFaultTime st) (f_lit 1000 1))"

text \<open>\<open>case HeaterState::heating\<close>.\<close>

definition control_heating :: "Env \<Rightarrow> bool \<Rightarrow> f32 \<Rightarrow> Lpc \<Rightarrow> Lpc + Lpc" where
  "control_heating env gotDerivative tempError st =
    (let now = th_millisTicks st; m = th_model st; temp = th_temperature st in
     if f_le tempError TemperatureCloseEnough then
       Inr (st\<lparr>th_state := HStable, th_heatingFaultMillis := 0\<rparr>)
     else if f_lt (f_of_nat (unat (now - th_timeSetHeating st))) (f_mul (m_deadTime m) (f_lit 2000 1)) then
       Inr (st\<lparr>th_heatingReferenceTemperature := temp, th_heatingReferenceMillis := now,
               th_heatingFaultMillis := 0\<rparr>)
     else if gotDerivative then
       let temperatureRise = (if f_gt temp (f_lit 15 1) then f_sub temp (f_lit 15 1) else f0);
           heatingPwm = (if f_lt (th_averagePwm st) (th_lastPwm st) then th_averagePwm st
                         else th_lastPwm st);
           expectedRate = f_sub (f_mul (m_heatingRate m) heatingPwm)
                            (CoolingRate env m temperatureRise f1);
           actualInterval = f_of_nat (unat (now - th_heatingReferenceMillis st))
       in if f_le expectedRate f0 \<or> f_ge (f_mul actualInterval expectedRate) (f_lit 3000 1) then
            let expectedRise = f_mul (f_mul expectedRate actualInterval) (f_lit 1 1000);
                actualRise = f_sub temp (th_heatingReferenceTemperature st)
            in if f_gt expectedRate f0 \<and> f_lt actualRise (f_mul expectedRise (f_lit 6 10)) then
                 let st1 = st\<lparr>th_heatingFaultMillis := th_heatingFaultMillis st + SampleIntervalMillis\<rparr>
                 in if max_fault_millis env st1 < th_heatingFaultMillis st1
                    then Inl (SetFault env HeatingTooSlow st1) else Inr st1
               else
                 let st1 = st\<lparr>th_heatingReferenceTemperature := temp, th_heatingReferenceMillis := now\<rparr>
                 in Inr (if SampleIntervalMillis \<le> th_heatingFaultMillis st1
                         then st1\<lparr>th_heatingFaultMillis := th_heatingFaultMillis st1 - SampleIntervalMillis\<rparr>
                         else st1)
          else Inr st
     else Inr st)"

text \<open>\<open>case HeaterState::stable\<close>.\<close>

definition control_stable :: "Env \<Rightarrow> f32 \<Rightarrow> Lpc \<Rightarrow> Lpc + Lpc" where
  "control_stable env tempError st =
    (if f_gt (f_abs tempError) (th_maxTempExcursion st)
        \<and> f_gt (th_temperature st) MaxAmbientTemperature then
       let st1 = st\<lparr>th_excursionFaultMillis := th_excursionFaultMillis st + SampleIntervalMillis\<rparr>
       in if max_fault_millis env st1 < th_excursionFaultMillis st1
          then Inl (SetFault env TemperatureExcursion st1) else Inr st1
     else Inr (if SampleIntervalMillis \<le> th_excursionFaultMillis st
               then st\<lparr>th_excursionFaultMillis := th_excursionFaultMillis st - SampleIntervalMillis\<rparr>
               else st))"

text \<open>\<open>case HeaterState::cooling\<close>.\<close>

definition control_cooling :: "f32 \<Rightarrow> f32 \<Rightarrow> Lpc \<Rightarrow> Lpc" where
  "control_cooling adjustedTarget tempError st =
    (if f_le (f_neg tempError) TemperatureCloseEnough \<and> f_gt adjustedTarget MaxAmbientTemperature
     then st\<lparr>th_state := HStable, th_heatingFaultMillis := 0, th_excursionFaultMillis := 0\<rparr>
     else st)"

definition control_switch :: "Env \<Rightarrow> bool \<Rightarrow> f32 \<Rightarrow> f32 \<Rightarrow> Lpc \<Rightarrow> Lpc + Lpc" where
  "control_switch env gotDerivative adjustedTarget tempError st =
    (case th_state st of
       HHeating \<Rightarrow> control_heating env gotDerivative tempError st
     | HStable \<Rightarrow> control_stable env tempError st
     | HCooling \<Rightarrow> Inr (control_cooling adjustedTarget tempError st)
     | _ \<Rightarrow> Inr st)"

text \<open>The PWM and the new integral of \<open>if (model.usePid)\<close>.\<close>

definition control_pid :: "Env \<Rightarrow> f32 \<Rightarrow> bool \<Rightarrow> f32 \<Rightarrow> f32 \<Rightarrow> Lpc \<Rightarrow> f32 \<times> f32" where
  "control_pid env derivative gotDerivative adjustedTarget tempError st =
    (let m = th_model st;
         loadMode = (th_state st = HStable \<or> f_lt (f_abs tempError) (f_lit 3 1));
         pid = PidForTarget env m loadMode adjustedTarget;
         errorMinusD = f_sub tempError (if gotDerivative then f_mul (pid_tD pid) derivative else f0);
         pPlusD = f_mul (pid_kP pid) errorMinusD;
         expected = f_div (CoolingRate env m (f_sub (th_temperature st) NormalAmbientTemperature)
                             (th_fanPwm st)) (m_heatingRate m)
     in if f_gt (f_add pPlusD expected) (m_maxPwm m) then
          (m_maxPwm m,
           if th_state st = HHeating \<and> f_gt tempError f0 \<and> f_gt derivative f0 then expected
           else th_integral st)
        else if f_lt (f_add pPlusD expected) f0 then (f0, th_integral st)
        else let i = Clamp (f_add (th_integral st)
                       (f_mul (f_mul (f_mul tempError (pid_kP pid)) (pid_recipTi pid)) (f_lit 25 100)))
                       f0 (m_maxPwm m)
             in (Clamp (f_add pPlusD i) f0 (m_maxPwm m), i))"

definition control_pwm :: "Env \<Rightarrow> f32 \<Rightarrow> bool \<Rightarrow> f32 \<Rightarrow> f32 \<Rightarrow> Lpc \<Rightarrow> f32 \<times> Lpc" where
  "control_pwm env derivative gotDerivative adjustedTarget tempError st =
    (let m = th_model st;
         (pwm, i) = (if m_usePid m
            then control_pid env derivative gotDerivative adjustedTarget tempError st
            else (if f_gt tempError f0 then m_maxPwm m else f0, th_integral st))
     in (if m_inverted m then f_sub (m_maxPwm m) pwm else pwm, st\<lparr>th_integral := i\<rparr>))"

definition control_output :: "Env \<Rightarrow> f32 \<Rightarrow> Lpc \<Rightarrow> Lpc" where
  "control_output env pwm st =
    (if th_linkTimeoutLatched st then SetFault env LinkTimeout st
     else (ApplyHeater env pwm st)
        \<lparr>th_lastPwm := pwm,
         th_averagePwm := f_add (f_mul (th_averagePwm st) (f_lit 95 100)) (f_mul pwm (f_lit 5 100)),
         th_statusDirty := True\<rparr>)"

definition Control :: "Env \<Rightarrow> Lpc \<Rightarrow> Lpc" where
  "Control env st =
    (let (good, derivative, gotDerivative, st1) = control_sample env st in
     case control_checks env good st1 of
       Inl st2 \<Rightarrow> st2
     | Inr st2 \<Rightarrow>
       let (adjustedTarget, st3) = control_target st2;
           tempError = f_sub adjustedTarget (th_temperature st3)
       in case control_switch env gotDerivative adjustedTarget tempError st3 of
            Inl st4 \<Rightarrow> st4
          | Inr st4 \<Rightarrow>
            let (pwm, st5) = control_pwm env derivative gotDerivative adjustedTarget tempError st4
            in control_output env pwm st5)"

definition Thermal_Spin :: "Env \<Rightarrow> Lpc \<Rightarrow> Lpc" where
  "Thermal_Spin env st =
    (let now = th_millisTicks st in
     if SampleIntervalMillis \<le> now - th_lastSampleTime st
     then Control env (st\<lparr>th_lastSampleTime := now\<rparr>) else st)"

section \<open>Initialisation, the timer interrupt and the heartbeat\<close>

definition ResetConfiguration :: "Env \<Rightarrow> Lpc \<Rightarrow> Lpc" where
  "ResetConfiguration env st =
    (ApplyHeater env f0
      (st\<lparr>th_heaterFrequency := 250, th_maxBadReadings := 3,
          th_thermistorConfigured := False, th_heaterConfigured := False,
          th_modelConfigured := False, th_pendingModelParts := 0, th_badReadings := 0,
          th_lastRawAdc := 0, th_temperature := AbsoluteZero, th_targetTemperature := f0,
          th_upperLimit := f_lit 2000 1, th_lowerLimit := AbsoluteZero,
          th_maxTempExcursion := f_lit 15 1, th_maxFaultTime := f_lit 5 1, th_fanPwm := f0,
          th_extrusionPwmBoost := f0, th_extrusionTemperatureBoost := f0,
          th_lastExtrusionTemperatureBoost := f0, th_integral := f0, th_averagePwm := f0,
          th_lastPwm := f0, th_heatingReferenceTemperature := f0, th_heatingReferenceMillis := 0,
          th_timeSetHeating := 0, th_excursionFaultMillis := 0, th_heatingFaultMillis := 0,
          th_previousIndex := 0, th_goodTemperatureMask := 0, th_state := HOff,
          th_error := NotConfigured, th_linkTimeoutLatched := False\<rparr>))\<lparr>th_statusDirty := True\<rparr>"

definition thermal_hw_init :: "Hw \<Rightarrow> Hw" where
  "thermal_hw_init hw =
    (let hw1 = reg_write LPC_SYSCON_SYSAHBCLKCTRL
                 (regs hw LPC_SYSCON_SYSAHBCLKCTRL OR (push_bit 13 1 OR push_bit 16 1)) hw;
         hw2 = reg_write 0x40048238 (regs hw1 0x40048238 AND NOT (push_bit 4 1)) hw1;
         hw3 = reg_write (Iocon 7) ((regs hw2 (Iocon 7) AND NOT 0x9F) OR 0x02) hw2
     in reg_write LPC_ADC_CR adc_control hw3)"

definition start_systick :: "Hw \<Rightarrow> Hw" where
  "start_systick hw = reg_write 0xE000E010 0x07 (reg_write 0xE000E018 0
     (reg_write 0xE000E014 (CoreClock div 1000 - 1) hw))"

definition Thermal_Init :: "Env \<Rightarrow> Lpc \<Rightarrow> Lpc" where
  "Thermal_Init env st = set_hw start_systick (ResetConfiguration env (set_hw thermal_hw_init st))"

definition Tick :: "Env \<Rightarrow> Lpc \<Rightarrow> Lpc" where
  "Tick env st =
    (let st1 = st\<lparr>th_millisTicks := th_millisTicks st + 1\<rparr> in
     if Active st1 \<and> LinkTimeoutMillis < th_millisTicks st1 - th_lastHostHeartbeat st1
     then SetFault env LinkTimeout (st1\<lparr>th_linkTimeoutLatched := True\<rparr>) else st1)"

definition HostHeartbeat :: "Lpc \<Rightarrow> Lpc" where
  "HostHeartbeat st = st\<lparr>th_lastHostHeartbeat := th_millisTicks st\<rparr>"

section \<open>Configuration messages\<close>

definition not_configured :: "Env \<Rightarrow> ThermalError \<Rightarrow> Lpc \<Rightarrow> Lpc" where
  "not_configured env e st =
    (if Active st then SetFault env e st
     else st\<lparr>th_error := NotConfigured, th_statusDirty := True\<rparr>)"

definition ConfigureThermistor :: "Env \<Rightarrow> u8 list \<Rightarrow> nat \<Rightarrow> Lpc \<Rightarrow> Lpc" where
  "ConfigureThermistor env p len st =
    (if len \<noteq> 16 then st
     else let st1 = st\<lparr>th_r25 := ReadFloat p 0, th_beta := ReadFloat p 4, th_shC := ReadFloat p 8,
                       th_pullupR := ReadFloat p 12\<rparr>
       in if \<not> f_isfinite (th_r25 st1) \<or> \<not> f_isfinite (th_beta st1) \<or> \<not> f_isfinite (th_shC st1)
             \<or> \<not> f_isfinite (th_pullupR st1) \<or> \<not> f_gt (th_r25 st1) f0 \<or> \<not> f_gt (th_beta st1) f0
             \<or> \<not> f_gt (th_pullupR st1) f0
          then not_configured env NotConfigured (st1\<lparr>th_thermistorConfigured := False\<rparr>)
          else let b = f_div f1 (th_beta st1);
                   lnR25 = e_logf env (th_r25 st1);
                   a = f_sub (f_sub (f_div f1 (f_sub (f_lit 25 1) AbsoluteZero)) (f_mul b lnR25))
                         (f_mul (f_mul (f_mul (th_shC st1) lnR25) lnR25) lnR25)
            in st1\<lparr>th_shB := b, th_shA := a, th_thermistorConfigured := True,
                   th_badReadings := 0, th_statusDirty := True\<rparr>)"

definition RejectModelUpdate :: "Env \<Rightarrow> Lpc \<Rightarrow> Lpc" where
  "RejectModelUpdate env st =
    (let st1 = st\<lparr>th_pendingModelParts := 0\<rparr>
     in if Active st1 then SetFault env ControlFault st1 else st1)"

definition ConfigureModelA :: "Env \<Rightarrow> u8 list \<Rightarrow> nat \<Rightarrow> Lpc \<Rightarrow> Lpc" where
  "ConfigureModelA env p len st =
    (if len \<noteq> 16 then RejectModelUpdate env st
     else st\<lparr>th_pendingModel := (th_model st)
               \<lparr>m_heatingRate := ReadFloat p 0, m_basicCoolingRate := ReadFloat p 4,
                m_fanCoolingRate := ReadFloat p 8, m_coolingRateExponent := ReadFloat p 12\<rparr>,
             th_pendingModelParts := 0x01\<rparr>)"

definition ConfigureModelB :: "Env \<Rightarrow> u8 list \<Rightarrow> nat \<Rightarrow> Lpc \<Rightarrow> Lpc" where
  "ConfigureModelB env p len st =
    (if len \<noteq> 16 then RejectModelUpdate env st
     else if th_pendingModelParts st \<noteq> 0x01 then RejectModelUpdate env st
     else st\<lparr>th_pendingModel := (th_pendingModel st)
               \<lparr>m_deadTime := ReadFloat p 0, m_maxPwm := ReadFloat p 4,
                m_overrideKp := ReadFloat p 8, m_overrideRecipTi := ReadFloat p 12\<rparr>,
             th_pendingModelParts := 0x03\<rparr>)"

definition ConfigureModelC :: "Env \<Rightarrow> u8 list \<Rightarrow> nat \<Rightarrow> Lpc \<Rightarrow> Lpc" where
  "ConfigureModelC env p len st =
    (if len \<noteq> 5 then RejectModelUpdate env st
     else if th_pendingModelParts st \<noteq> 0x03 then RejectModelUpdate env st
     else let st1 = st\<lparr>th_pendingModel := (th_pendingModel st)\<lparr>m_overrideTd := ReadFloat p 0\<rparr>\<rparr>;
              flags = p ! 4
       in if flags AND NOT 0x07 \<noteq> 0 then RejectModelUpdate env st1
          else let st2 = st1\<lparr>th_pendingModel := (th_pendingModel st1)
                 \<lparr>m_usePid := flags AND 0x01 \<noteq> 0, m_inverted := flags AND 0x02 \<noteq> 0,
                  m_pidOverridden := flags AND 0x04 \<noteq> 0\<rparr>\<rparr>
            in if ModelReady (th_pendingModel st2)
               then st2\<lparr>th_model := th_pendingModel st2, th_modelConfigured := True,
                        th_pendingModelParts := 0\<rparr>
               else RejectModelUpdate env st2)"

definition ConfigureHeater :: "Env \<Rightarrow> u8 list \<Rightarrow> nat \<Rightarrow> Lpc \<Rightarrow> Lpc" where
  "ConfigureHeater env p len st =
    (if len \<noteq> 11 then st
     else let newFrequency = Thermal_ReadU16 p 0;
              newUpperLimit = f_mul (f_of_int (sint (Thermal_ReadU16 p 2))) (f_lit 1 10);
              newLowerLimit = f_mul (f_of_int (sint (Thermal_ReadU16 p 4))) (f_lit 1 10)
       in if newFrequency = 0 \<or> f_le newUpperLimit newLowerLimit
          then not_configured env ControlFault (st\<lparr>th_heaterConfigured := False\<rparr>)
          else st\<lparr>th_heaterFrequency := newFrequency, th_upperLimit := newUpperLimit,
                  th_lowerLimit := newLowerLimit,
                  th_maxTempExcursion := f_mul (f_of_nat (unat (Thermal_ReadU16 p 6))) (f_lit 1 100),
                  th_maxFaultTime := f_mul (f_of_nat (unat (Thermal_ReadU16 p 8))) (f_lit 1 10),
                  th_maxBadReadings := p ! 10, th_heaterConfigured := True,
                  th_statusDirty := True\<rparr>)"

definition configured :: "Lpc \<Rightarrow> bool" where
  "configured st \<longleftrightarrow> th_thermistorConfigured st \<and> th_heaterConfigured st \<and> th_modelConfigured st"

definition command_off :: "Env \<Rightarrow> Lpc \<Rightarrow> Lpc" where
  "command_off env st =
    (let st1 = ApplyHeater env f0 st;
         st2 = (if th_state st1 \<noteq> HFault then st1\<lparr>th_state := HOff\<rparr> else st1)
     in st2\<lparr>th_integral := f0, th_extrusionPwmBoost := f0, th_extrusionTemperatureBoost := f0,
            th_lastExtrusionTemperatureBoost := f0, th_excursionFaultMillis := 0,
            th_heatingFaultMillis := 0, th_lastPwm := f0\<rparr>)"

text \<open>
  \<open>case HeaterCommand::on\<close>: \<open>Inl\<close> where the code returns, \<open>Inr\<close> where it breaks out of the
  switch. The tests are evaluated left to right, so a temperature is sampled only when every
  earlier test passes.
\<close>

definition command_on :: "Env \<Rightarrow> f32 \<Rightarrow> Lpc \<Rightarrow> Lpc + Lpc" where
  "command_on env requestedTarget st =
    (let (refused, st1) =
           (if \<not> LinkAlive st \<or> \<not> configured st \<or> th_state st = HFault then (True, st)
            else let (good, st') = SampleTemperature env st in (\<not> good, st'))
     in if refused then
          Inl (if th_state st1 \<noteq> HFault then
                 SetFault env (if \<not> LinkAlive st1 then LinkTimeout
                               else if \<not> configured st1 then NotConfigured else th_error st1) st1
               else st1)
        else if f_ge (th_upperLimit st1) (f_lit 1000 1) \<or> f_gt requestedTarget (th_upperLimit st1)
             \<or> (f_gt (th_lowerLimit st1) (f_add AbsoluteZero f1)
                \<and> f_lt requestedTarget (th_lowerLimit st1))
          then Inl (SetFault env ControlFault st1)
        else let st2 = st1\<lparr>th_targetTemperature := requestedTarget\<rparr>;
                 boosted = f_add (th_targetTemperature st2) (th_extrusionTemperatureBoost st2)
          in Inr (UpdateHeaterState
               (if f_lt boosted (th_upperLimit st2) then boosted else th_upperLimit st2) st2))"

definition command_suspend :: "Env \<Rightarrow> Lpc \<Rightarrow> Lpc" where
  "command_suspend env st =
    (let st1 = ApplyHeater env f0 st;
         st2 = (if th_state st1 \<noteq> HFault then st1\<lparr>th_state := HSuspended\<rparr> else st1)
     in st2\<lparr>th_lastPwm := f0\<rparr>)"

definition command_resetFault :: "Env \<Rightarrow> Lpc \<Rightarrow> Lpc" where
  "command_resetFault env st =
    (if \<not> LinkAlive st then st
     else let (good, st1) = SampleTemperature env st in
       if \<not> good then st1
       else (ApplyHeater env f0 (st1\<lparr>th_linkTimeoutLatched := False\<rparr>))
         \<lparr>th_state := HOff, th_error := ErrNone, th_badReadings := 0, th_integral := f0,
          th_extrusionPwmBoost := f0, th_extrusionTemperatureBoost := f0,
          th_lastExtrusionTemperatureBoost := f0, th_lastPwm := f0,
          th_heatingFaultMillis := 0, th_excursionFaultMillis := 0\<rparr>)"

definition Command :: "Env \<Rightarrow> u8 list \<Rightarrow> nat \<Rightarrow> Lpc \<Rightarrow> Lpc" where
  "Command env p len st =
    (if len \<noteq> 3 then st
     else let requestedTarget = f_mul (f_of_int (sint (Thermal_ReadU16 p 1))) (f_lit 1 100) in
       case command_of (p ! 0) of
         CmdOff \<Rightarrow> (command_off env st)\<lparr>th_statusDirty := True\<rparr>
       | CmdOn \<Rightarrow> (case command_on env requestedTarget st of
            Inl st' \<Rightarrow> st' | Inr st' \<Rightarrow> st'\<lparr>th_statusDirty := True\<rparr>)
       | CmdSuspend \<Rightarrow> (command_suspend env st)\<lparr>th_statusDirty := True\<rparr>
       | CmdResetFault \<Rightarrow> (command_resetFault env st)\<lparr>th_statusDirty := True\<rparr>
       | OtherCommand _ \<Rightarrow> st\<lparr>th_statusDirty := True\<rparr>)"

definition ConfigureFeedForward :: "Env \<Rightarrow> u8 list \<Rightarrow> nat \<Rightarrow> Lpc \<Rightarrow> Lpc" where
  "ConfigureFeedForward env p len st =
    (if len \<noteq> 12 then st
     else let newFanPwm = ReadFloat p 0; newExtrusionPwmBoost = ReadFloat p 4;
              newExtrusionTemperatureBoost = ReadFloat p 8
       in if \<not> f_isfinite newFanPwm \<or> \<not> f_isfinite newExtrusionPwmBoost
             \<or> \<not> f_isfinite newExtrusionTemperatureBoost
          then SetFault env ControlFault st
          else let clampedFanPwm = Clamp newFanPwm f0 f1;
                   st1 = (if th_state st = HStable then
                       let pwmBoost = f_sub newExtrusionPwmBoost (th_extrusionPwmBoost st);
                           sta = st\<lparr>th_extrusionPwmBoost := newExtrusionPwmBoost\<rparr>;
                           changed = (\<not> f_eq clampedFanPwm (th_fanPwm sta));
                           pwmChange = f_sub clampedFanPwm (th_fanPwm sta);
                           pwmBoost' = (if changed then f_add pwmBoost
                             (f_mul (f_div (f_mul (f_mul (f_mul
                                (f_sub (th_targetTemperature sta) NormalAmbientTemperature) (f_lit 1 100))
                                (m_fanCoolingRate (th_model sta))) pwmChange)
                                (m_heatingRate (th_model sta))) FanFeedForwardMultiplier) else pwmBoost);
                           stb = (if changed then sta\<lparr>th_fanPwm := clampedFanPwm\<rparr> else sta)
                       in stb\<lparr>th_integral := f_add (th_integral stb) pwmBoost'\<rparr>
                     else st)
            in st1\<lparr>th_extrusionTemperatureBoost := newExtrusionTemperatureBoost\<rparr>)"

definition HandleFrame :: "Env \<Rightarrow> Frame \<Rightarrow> Lpc \<Rightarrow> Lpc" where
  "HandleFrame env fr st =
    (let p = payload fr; len = unat (flength fr) in
     case ftype fr of
       ThermistorConfig \<Rightarrow> ConfigureThermistor env p len st
     | HeaterModelA \<Rightarrow> ConfigureModelA env p len st
     | HeaterModelB \<Rightarrow> ConfigureModelB env p len st
     | HeaterModelC \<Rightarrow> ConfigureModelC env p len st
     | HeaterConfig \<Rightarrow> ConfigureHeater env p len st
     | HeaterCommandMsg \<Rightarrow> Command env p len st
     | HeaterFeedForward \<Rightarrow> ConfigureFeedForward env p len st
     | _ \<Rightarrow> st)"

section \<open>The status report\<close>

definition temperature_centi :: "Env \<Rightarrow> Lpc \<Rightarrow> u16" where
  "temperature_centi env st =
    f_to_i16 (e_ub16 env)
      (f_mul (Clamp (th_temperature st) (f_neg (f_lit 32768 100)) (f_lit 32767 100)) (f_lit 100 1))"

definition status_pwm :: "Env \<Rightarrow> Lpc \<Rightarrow> u16" where
  "status_pwm env st =
    f_to_u16 (e_ub16 env)
      (f_add (f_mul (Clamp (th_averagePwm st) f0 f1) (f_lit 65535 1)) (f_lit 1 2))"

definition TakeStatus :: "Env \<Rightarrow> Lpc \<Rightarrow> u8 list option \<times> Lpc" where
  "TakeStatus env st =
    (if \<not> th_statusDirty st then (None, st)
     else let temperatureCenti = temperature_centi env st; pwm = status_pwm env st in
       (Some [lo8 temperatureCenti, hi8 temperatureCenti, lo8 (th_lastRawAdc st),
          hi8 (th_lastRawAdc st), lo8 pwm, hi8 pwm, state_byte (th_state st), error_byte (th_error st)],
        st\<lparr>th_statusDirty := False\<rparr>))"

end
