(* ===== verification/LpcThermalSafety.thy ===== *)
theory LpcThermalSafety
  imports LpcThermal
begin

text \<open>
  What keeps the heater of \<open>LpcFirmware/src/Thermal.cpp\<close> safe. \<open>guard_ok\<close> is the invariant of
  the coprocessor: unless a heating state is active and the link to the host is alive, the
  heater output is off; a latched link timeout is a fault; a heating state needs a complete
  configuration. \<open>data_ok\<close> is the well-formedness of the controller's data: an accepted thermal
  model, a usable PWM frequency, ordered limits, a temperature that is a number.

  Every operation of \<open>LpcThermal\<close> preserves both; the per-operation facts are collected in
  \<open>inv_intros\<close>.
\<close>

section \<open>Writing the heater\<close>

lemma f_mul_0_left: "f_mul 0 (f_lit 65535 1) = 0"
  by (simp add: f_mul_def f_lit_def round_mag_def round_shift_def bitlen.simps rne_cases mk_float_def
      Let_def INF_BITS_def f_isnan_def f_isinf_def f_iszero_def fbits_def fsign_def fmag_def mag_of_def)

lemma heater_duty_0 [simp]: "heater_duty env f0 = 0"
  unfolding heater_duty_def f_mul_0_left
  by (simp add: f_add_def f_lit_def round_mag_def round_shift_def bitlen.simps rne_cases mk_float_def
      Let_def INF_BITS_def f_isnan_def f_isinf_def f_iszero_def fbits_def fsign_def fint_def fmag_def
      mag_of_def f_to_u16_def f_in_range_def f_isfinite_def f_trunc_def)


lemma f1_val [lit_simps]: "f1 = 0x3F800000"
  by (simp add: f1_def f_lit_def round_mag_def round_shift_def bitlen.simps rne_cases mk_float_def
      Let_def INF_BITS_def)

lemma Clamp_0 [simp]: "Clamp f0 f0 f1 = f0"
  by (simp add: Clamp_def f1_val f_lt_def f_isnan_def fkey_def fbits_def fsign_def INF_BITS_def)

text \<open>Undisturbed, \<open>ApplyHeater\<close> only sets the output; at zero, or with a latched timeout, to off.\<close>

definition heater_out :: "Env \<Rightarrow> f32 \<Rightarrow> Lpc \<Rightarrow> Hw" where
  "heater_out env pwm st =
     snd (Pwm_Set PinHeater
       (heater_duty env (if th_linkTimeoutLatched st then f0 else Clamp pwm f0 f1))
       (th_heaterFrequency st) (th_hw st))"

lemma ApplyHeater_eq [simp]: "ApplyHeater env pwm st = st\<lparr>th_hw := heater_out env pwm st\<rparr>"
  by (simp add: ApplyHeater_def ApplyHeater_with_def heater_set_def heater_out_def Let_def)

lemma heater_out_off [simp]: "heater_off (heater_out env f0 st)"
  by (simp add: heater_out_def Pwm_Set_heater_zero_off)

lemma heater_out_latched [simp]: "th_linkTimeoutLatched st \<Longrightarrow> heater_off (heater_out env pwm st)"
  by (simp add: heater_out_def Pwm_Set_heater_zero_off)

lemma heater_out_length [simp]: "length (pstates (heater_out env pwm st)) = length (pstates (th_hw st))"
  by (simp add: heater_out_def)

section \<open>The invariants\<close>

definition guard_ok :: "Lpc \<Rightarrow> bool" where
  "guard_ok st \<longleftrightarrow> ((Active st \<and> LinkAlive st) \<or> heater_off (th_hw st))
     \<and> (th_linkTimeoutLatched st \<longrightarrow> th_state st = HFault)
     \<and> (Active st \<longrightarrow> configured st)"

definition data_ok :: "Lpc \<Rightarrow> bool" where
  "data_ok st \<longleftrightarrow> th_heaterFrequency st \<noteq> 0 \<and> \<not> f_isnan (th_temperature st)
     \<and> (th_modelConfigured st \<longrightarrow> ModelReady (th_model st))
     \<and> (th_heaterConfigured st \<longrightarrow> f_lt (th_lowerLimit st) (th_upperLimit st))
     \<and> th_previousIndex st < 4 \<and> length (th_previousTemperatures st) = 4
     \<and> th_pendingModelParts st \<in> {0, 1, 3} \<and> length (pstates (th_hw st)) = 8
     \<and> th_lastRawAdc st < 1024"

definition thermal_ok :: "Lpc \<Rightarrow> bool" where
  "thermal_ok st \<longleftrightarrow> guard_ok st \<and> data_ok st"

lemma Active_states: "Active st \<longleftrightarrow> th_state st \<in> {HCooling, HStable, HHeating}"
  by (cases "th_state st") (auto simp: Active_def state_order)

lemma InPidMode_Active: "InPidMode st = Active st"
  by (cases "th_state st") (auto simp: Active_def InPidMode_def state_order)

lemmas guard_defs = guard_ok_def Active_states LinkAlive_def configured_def
lemmas ok_defs = thermal_ok_def data_ok_def guard_defs

text \<open>Fields that neither invariant looks at: updating them changes nothing about safety.\<close>

abbreviation inert :: "(Lpc \<Rightarrow> Lpc) \<Rightarrow> bool" where
  "inert u \<equiv> (\<forall>st. thermal_ok (u st) = thermal_ok st \<and> data_ok (u st) = data_ok st
     \<and> guard_ok (u st) = guard_ok st \<and> Active (u st) = Active st \<and> LinkAlive (u st) = LinkAlive st
     \<and> configured (u st) = configured st)"

lemma inert_fields [simp]:
  "inert (th_statusDirty_update g0)"
  "inert (th_lastSampleTime_update g1)"
  "inert (th_excursionFaultMillis_update g2)"
  "inert (th_heatingFaultMillis_update g3)"
  "inert (th_heatingReferenceMillis_update g4)"
  "inert (th_timeSetHeating_update g5)"
  "inert (th_maxBadReadings_update g7)"
  "inert (th_badReadings_update g8)"
  "inert (th_r25_update g9)"
  "inert (th_beta_update g10)"
  "inert (th_shC_update g11)"
  "inert (th_pullupR_update g12)"
  "inert (th_shA_update g13)"
  "inert (th_shB_update g14)"
  "inert (th_targetTemperature_update g15)"
  "inert (th_maxTempExcursion_update g16)"
  "inert (th_maxFaultTime_update g17)"
  "inert (th_fanPwm_update g18)"
  "inert (th_extrusionPwmBoost_update g19)"
  "inert (th_extrusionTemperatureBoost_update g20)"
  "inert (th_lastExtrusionTemperatureBoost_update g21)"
  "inert (th_integral_update g22)"
  "inert (th_averagePwm_update g23)"
  "inert (th_lastPwm_update g24)"
  "inert (th_heatingReferenceTemperature_update g25)"
  "inert (th_goodTemperatureMask_update g26)"
  "inert (th_pendingModel_update g27)"
  "inert (th_error_update g28)"
  "inert (th_adcPos_update g29)"
  by (simp_all add: thermal_ok_def data_ok_def guard_ok_def Active_def LinkAlive_def configured_def)

lemma guard_ok_off: "guard_ok st \<Longrightarrow> \<not> Active st \<or> \<not> LinkAlive st \<Longrightarrow> heater_off (th_hw st)"
  by (auto simp: guard_ok_def)

lemma SetFault_ok [inv_intros]: "data_ok st \<Longrightarrow> thermal_ok (SetFault env e st)"
  by (simp add: SetFault_def ok_defs)

lemma SetFault_sel [simp]:
  "th_state (SetFault env e st) = HFault" "th_error (SetFault env e st) = e"
  "heater_off (th_hw (SetFault env e st))" "th_statusDirty (SetFault env e st)"
  "th_linkTimeoutLatched (SetFault env e st) = th_linkTimeoutLatched st"
  "th_millisTicks (SetFault env e st) = th_millisTicks st"
  "th_lastHostHeartbeat (SetFault env e st) = th_lastHostHeartbeat st"
  "th_model (SetFault env e st) = th_model st"
  by (simp_all add: SetFault_def)

section \<open>Sampling\<close>

lemma adc_cr_view [simp]: "heater_view (reg_write LPC_ADC_CR x hw) = heater_view hw"
  by (rule reg_write_view) (simp add: LPC_ADC_CR_def Iocon_eval addr_eval)

lemma adc_cr_off [simp]: "heater_off (reg_write LPC_ADC_CR x hw) = heater_off hw"
  by (rule heater_off_view) simp

text \<open>What sampling may change: the hardware (not the heater), the ADC position and its results.\<close>

definition unsample :: "Lpc \<Rightarrow> Lpc \<Rightarrow> Lpc" where
  "unsample st st' = st'\<lparr>th_hw := th_hw st, th_adcPos := th_adcPos st,
     th_lastRawAdc := th_lastRawAdc st, th_temperature := th_temperature st, th_error := th_error st\<rparr>"

definition sampled :: "Lpc \<Rightarrow> Lpc \<Rightarrow> bool" where
  "sampled st st' \<longleftrightarrow> unsample st st' = st
     \<and> heater_view (th_hw st') = heater_view (th_hw st)
     \<and> pstates (th_hw st') = pstates (th_hw st)
     \<and> (\<not> f_isnan (th_temperature st) \<longrightarrow> \<not> f_isnan (th_temperature st'))
     \<and> (th_lastRawAdc st < 1024 \<longrightarrow> th_lastRawAdc st' < 1024)"

lemma sampled_refl [simp]: "sampled st st"
  by (simp add: sampled_def unsample_def)

lemma unsample_trans: "unsample a (unsample b c) = unsample a c"
  by (simp add: unsample_def)

lemma sampled_trans: "sampled a b \<Longrightarrow> sampled b c \<Longrightarrow> sampled a c"
  unfolding sampled_def by (metis unsample_trans)

lemma ReadAdc_sampled: "ReadAdc env st = (r, st') \<Longrightarrow> sampled st st'"
  by (auto simp: ReadAdc_def set_hw_def Let_def sampled_def unsample_def split: prod.splits)

lemma sum_readings_sampled: "sum_readings env k acc st = (r, st') \<Longrightarrow> sampled st st'"
  by (induction k arbitrary: acc st)
    (auto split: prod.splits option.splits dest: ReadAdc_sampled intro: sampled_trans)

lemma sampled_setters:
  "sampled st (st'\<lparr>th_error := e\<rparr>) = sampled st st'"
  "sampled st st' \<Longrightarrow> raw < 1024 \<Longrightarrow> sampled st (st'\<lparr>th_lastRawAdc := raw\<rparr>)"
  "sampled st st' \<Longrightarrow> \<not> f_isnan t \<Longrightarrow> sampled st (st'\<lparr>th_temperature := t\<rparr>)"
  by (simp_all add: sampled_def unsample_def)

text \<open>A positive \<open>recipT\<close> gives a temperature that is a number, possibly infinite.\<close>

lemma mk_float_not_nan: "m \<le> INF_BITS \<Longrightarrow> \<not> f_isnan (mk_float s m)"
  by (simp add: f_isnan_def INF_BITS_def)

lemma f_add_not_nan:
  "\<not> f_isnan x \<Longrightarrow> f_isfinite y \<Longrightarrow> \<not> f_isnan (f_add x y)"
  by (auto simp: f_add_def Let_def mk_float_not_nan) 
    (auto simp: f_isnan_def f_isinf_def f_isfinite_def)

lemma f_div_pos_not_nan: "f_gt r f0 \<Longrightarrow> \<not> f_isnan (f_div f1 r)"
  by (auto simp: f_div_def f1_val f_inf_def mk_float_not_nan f_lt_def f_iszero_def)
    (auto simp: f_isnan_def f_isinf_def f_iszero_def fkey_def fbits_def INF_BITS_def split: if_splits)

lemma AbsoluteZero_val [lit_simps]: "AbsoluteZero = 0xC3889333"
  by (simp add: AbsoluteZero_def f_neg_def f_lit_def round_mag_def round_shift_def bitlen.simps
      rne_cases mk_float_def Let_def INF_BITS_def fbits_def fsign_def)

lemma AbsoluteZero_finite: "f_isfinite AbsoluteZero"
  by (simp add: AbsoluteZero_val f_isfinite_def fbits_def INF_BITS_def)

text \<open>The average of eight 10-bit readings is a 10-bit value.\<close>

lemma adc_wait_bound: "adc_wait adc n pos = (Some r, pos') \<Longrightarrow> unat r \<le> 1023"
proof (induction n arbitrary: pos)
  case (Suc n)
  have "unat (ucast (drop_bit 6 (adc pos) AND 0x03FF) :: u16) \<le> 1023"
  proof -
    have "(drop_bit 6 (adc pos) AND 0x03FF) \<le> 0x3FF" by (rule word_and_le1)
    then have "unat (drop_bit 6 (adc pos) AND 0x03FF) \<le> 1023" by (simp add: word_le_nat_alt)
    then show ?thesis by (simp add: unat_ucast_mod)
  qed
  with Suc show ?case by (auto simp: Let_def split: if_splits)
qed simp

lemma ReadAdc_bound: "ReadAdc env st = (Some r, st') \<Longrightarrow> unat r \<le> 1023"
  by (auto simp: ReadAdc_def Let_def split: prod.splits dest: adc_wait_bound)

lemma sum_readings_bound:
  "sum_readings env k acc st = (Some s, st') \<Longrightarrow> unat acc + 1023 * k < 2 ^ 32
    \<Longrightarrow> unat s \<le> unat acc + 1023 * k"
proof (induction k arbitrary: acc st)
  case (Suc k)
  obtain r st1 where r: "ReadAdc env st = (Some r, st1)"
    "sum_readings env k (acc + ucast r) st1 = (Some s, st')"
    using Suc.prems(1) by (auto split: prod.splits option.splits)
  have b: "unat r \<le> 1023" using r(1) by (rule ReadAdc_bound)
  have "unat (acc + ucast r) = unat acc + unat r"
    using b Suc.prems(2) by (subst unat_add_small) (simp_all add: unat_ucast_up)
  then show ?case using Suc.IH [OF r(2)] b Suc.prems(2) by simp
qed simp

lemma raw_average_bound:
  assumes "sum_readings env 8 0 st = (Some s, st')"
  shows "(ucast ((s + 4) div 8) :: u16) < 1024"
proof -
  have s: "unat s \<le> 8184" using sum_readings_bound [OF assms] by simp
  then have "unat (s + 4) = unat s + 4" by (subst unat_add_small) simp_all
  then have "unat ((s + 4) div 8) = (unat s + 4) div 8" by (simp add: unat_div)
  moreover have "(unat s + 4) div 8 < 1024" using s by simp
  ultimately have "unat (ucast ((s + 4) div 8) :: u16) < 1024" by (simp add: unat_ucast_mod)
  then show ?thesis by (simp add: word_less_nat_alt)
qed

lemma SampleTemperature_sampled: "sampled st (snd (SampleTemperature env st))"
proof (cases "th_thermistorConfigured st")
  case True
  obtain r st1 where s: "sum_readings env 8 0 st = (r, st1)" by fastforce
  note s1 = sum_readings_sampled [OF s]
  show ?thesis
    using s1 True f_add_not_nan [OF f_div_pos_not_nan AbsoluteZero_finite]
      raw_average_bound [of env st _ st1] s
    by (auto simp: SampleTemperature_def Let_def sampled_setters split: option.splits)
qed (simp add: SampleTemperature_def sampled_setters)

lemma sampled_sel:
  assumes "sampled st st'"
  shows "th_state st' = th_state st" "th_linkTimeoutLatched st' = th_linkTimeoutLatched st"
    "th_millisTicks st' = th_millisTicks st" "th_lastHostHeartbeat st' = th_lastHostHeartbeat st"
    "Active st' = Active st" "LinkAlive st' = LinkAlive st" "configured st' = configured st"
    "th_model st' = th_model st" "th_maxBadReadings st' = th_maxBadReadings st"
    "th_badReadings st' = th_badReadings st"
    "th_thermistorConfigured st' = th_thermistorConfigured st"
proof -
  have u: "st'\<lparr>th_hw := th_hw st, th_adcPos := th_adcPos st, th_lastRawAdc := th_lastRawAdc st,
      th_temperature := th_temperature st, th_error := th_error st\<rparr> = st"
    using assms by (simp add: sampled_def unsample_def)
  show "th_state st' = th_state st" "th_linkTimeoutLatched st' = th_linkTimeoutLatched st"
    "th_millisTicks st' = th_millisTicks st" "th_lastHostHeartbeat st' = th_lastHostHeartbeat st"
    "Active st' = Active st" "LinkAlive st' = LinkAlive st" "configured st' = configured st"
    "th_model st' = th_model st" "th_maxBadReadings st' = th_maxBadReadings st"
    "th_badReadings st' = th_badReadings st"
    "th_thermistorConfigured st' = th_thermistorConfigured st"
    using arg_cong [OF u, of th_state]
      arg_cong [OF u, of th_linkTimeoutLatched]
      arg_cong [OF u, of th_millisTicks]
      arg_cong [OF u, of th_lastHostHeartbeat]
      arg_cong [OF u, of th_model]
      arg_cong [OF u, of th_maxBadReadings]
      arg_cong [OF u, of th_badReadings]
      arg_cong [OF u, of th_thermistorConfigured]
      arg_cong [OF u, of th_heaterConfigured]
      arg_cong [OF u, of th_modelConfigured]
    by (simp_all add: Active_def LinkAlive_def configured_def)
qed

lemma sampled_ok [inv_intros]:
  assumes "sampled st st'"
  shows "thermal_ok st \<Longrightarrow> thermal_ok st'" and "data_ok st \<Longrightarrow> data_ok st'"
    and "guard_ok st \<Longrightarrow> guard_ok st'"
proof -
  have u: "st = st'\<lparr>th_hw := th_hw st, th_adcPos := th_adcPos st, th_lastRawAdc := th_lastRawAdc st,
      th_temperature := th_temperature st, th_error := th_error st\<rparr>"
    using assms by (simp add: sampled_def unsample_def)
  have off: "heater_off (th_hw st') = heater_off (th_hw st)"
    using assms by (intro heater_off_view) (simp add: sampled_def)
  have len: "length (pstates (th_hw st')) = length (pstates (th_hw st))"
    and nan: "\<not> f_isnan (th_temperature st) \<longrightarrow> \<not> f_isnan (th_temperature st')"
    and raw: "th_lastRawAdc st < 1024 \<longrightarrow> th_lastRawAdc st' < 1024"
    using assms by (simp_all add: sampled_def)
  show g: "guard_ok st \<Longrightarrow> guard_ok st'"
    using off sampled_sel [OF assms] by (simp add: guard_ok_def)
  show d: "data_ok st \<Longrightarrow> data_ok st'"
    using len nan raw by (subst (asm) u) (simp add: data_ok_def)
  show "thermal_ok st \<Longrightarrow> thermal_ok st'"
    using d g by (simp add: thermal_ok_def)
qed

section \<open>The control loop preserves the invariant\<close>

lemma and_3_less: "(x :: u8) AND 3 < 4"
  using word_and_le1 [of x 3] by (rule order.strict_trans1) simp

lemma history_ok:
  "thermal_ok st \<Longrightarrow> length l = length (th_previousTemperatures st) \<Longrightarrow> x < 4
    \<Longrightarrow> thermal_ok (st\<lparr>th_previousTemperatures := l, th_previousIndex := x\<rparr>)"
  by (simp add: thermal_ok_def data_ok_def guard_ok_def Active_def LinkAlive_def configured_def)

lemma control_sample_frame:
  assumes "control_sample env st = (good, d, gd, st')"
  shows "th_state st' = th_state st" and "Active st' = Active st" and "LinkAlive st' = LinkAlive st"
    and "th_linkTimeoutLatched st' = th_linkTimeoutLatched st"
    and "th_maxBadReadings st' = th_maxBadReadings st"
    and "th_badReadings st' = (if good then 0 else if th_badReadings st < 0xFF
           then th_badReadings st + 1 else th_badReadings st)"
    and "good = fst (SampleTemperature env st)"
    and "thermal_ok st \<Longrightarrow> thermal_ok st'"
    and "heater_view (th_hw st') = heater_view (th_hw st)"
    and "th_error st' = (if th_state st = HFault then th_error st
           else th_error (snd (SampleTemperature env st)))"
    and "th_temperature st' = th_temperature (snd (SampleTemperature env st))"
proof -
  obtain g st1 where s: "SampleTemperature env st = (g, st1)" by fastforce
  have sm: "sampled st st1" using SampleTemperature_sampled [of st env] s by simp
  note sel = sampled_sel [OF sm]
  have view: "heater_view (th_hw st1) = heater_view (th_hw st)"
    using sm by (simp add: sampled_def)
  have idx: "(th_previousIndex st1 + 1) AND 3 < 4" by (rule and_3_less)
  have all: "th_state st' = th_state st \<and> th_millisTicks st' = th_millisTicks st
      \<and> th_lastHostHeartbeat st' = th_lastHostHeartbeat st
      \<and> th_linkTimeoutLatched st' = th_linkTimeoutLatched st
      \<and> th_maxBadReadings st' = th_maxBadReadings st
      \<and> th_badReadings st' = (if good then 0 else if th_badReadings st < 0xFF
           then th_badReadings st + 1 else th_badReadings st)
      \<and> good = g \<and> (thermal_ok st \<longrightarrow> thermal_ok st') \<and> th_hw st' = th_hw st1
      \<and> th_error st' = (if th_state st = HFault then th_error st else th_error st1)
      \<and> th_temperature st' = th_temperature st1"
  proof (cases g)
    case True
    then have "st' = st1\<lparr>th_error := if th_state st = HFault then th_error st else th_error st1,
        th_badReadings := 0,
        th_previousTemperatures := (th_previousTemperatures st1)
          [unat (th_previousIndex st1) := th_temperature st1],
        th_previousIndex := (th_previousIndex st1 + 1) AND 3,
        th_goodTemperatureMask := push_bit 1 (th_goodTemperatureMask st1) OR 1\<rparr>" and "good = g"
      using assms by (cases "th_state st = HFault"; simp add: control_sample_def s Let_def)+
    moreover have "thermal_ok st'" if "thermal_ok st"
      unfolding calculation(1)
      using history_ok [OF _ _ idx, of "st1\<lparr>th_error := if th_state st = HFault then th_error st
        else th_error st1, th_badReadings := 0\<rparr>"] sampled_ok(1) [OF sm that] by simp
    ultimately show ?thesis using True by (simp add: sel)
  next
    case False
    then have "control_sample env st = (False, f0, False,
        st1\<lparr>th_error := if th_state st = HFault then th_error st else th_error st1,
        th_goodTemperatureMask := push_bit 1 (th_goodTemperatureMask st1),
        th_badReadings := if th_badReadings st1 < 0xFF then th_badReadings st1 + 1
          else th_badReadings st1\<rparr>)"
      by (cases "th_state st = HFault"; cases "th_badReadings st1 < 0xFF";
          simp only: control_sample_def s Let_def prod.case if_True if_False; simp)
    then have st': "st' = st1\<lparr>th_error := if th_state st = HFault then th_error st else th_error st1,
        th_goodTemperatureMask := push_bit 1 (th_goodTemperatureMask st1),
        th_badReadings := if th_badReadings st1 < 0xFF then th_badReadings st1 + 1
          else th_badReadings st1\<rparr>" and g: "good = g"
      using assms False by (metis prod.inject)+
    show ?thesis using False sampled_ok(1) [OF sm] unfolding st' g by (simp add: sel)
  qed
  show "th_state st' = th_state st" "Active st' = Active st" "LinkAlive st' = LinkAlive st"
    "th_linkTimeoutLatched st' = th_linkTimeoutLatched st"
    "th_maxBadReadings st' = th_maxBadReadings st"
    "th_badReadings st' = (if good then 0 else if th_badReadings st < 0xFF
           then th_badReadings st + 1 else th_badReadings st)"
    "good = fst (SampleTemperature env st)" "thermal_ok st \<Longrightarrow> thermal_ok st'"
    "heater_view (th_hw st') = heater_view (th_hw st)"
    "th_error st' = (if th_state st = HFault then th_error st
           else th_error (snd (SampleTemperature env st)))"
    "th_temperature st' = th_temperature (snd (SampleTemperature env st))"
    using all s view by (simp_all add: Active_def LinkAlive_def)
qed

lemma live_running:
  "thermal_ok st \<Longrightarrow> Active st \<Longrightarrow> configured st \<and> \<not> th_linkTimeoutLatched st"
  by (auto simp: thermal_ok_def guard_ok_def Active_def state_order)

lemma applied_off_ok: "thermal_ok st \<Longrightarrow> heater_off hw \<Longrightarrow> length (pstates hw) = 8
    \<Longrightarrow> thermal_ok (st\<lparr>th_hw := hw\<rparr>)"
  by (simp add: thermal_ok_def guard_ok_def data_ok_def Active_def LinkAlive_def configured_def)

lemma data_ok_pstates: "data_ok st \<Longrightarrow> length (pstates (th_hw st)) = 8"
  by (simp add: data_ok_def)

lemma ApplyHeater_0_ok [inv_intros]: "thermal_ok st \<Longrightarrow> thermal_ok (ApplyHeater env f0 st)"
  by (simp add: applied_off_ok data_ok_pstates thermal_ok_def [of st])

lemma thermal_data: "thermal_ok st \<Longrightarrow> data_ok st"
  by (simp add: thermal_ok_def)

lemma control_checks_ok [inv_intros]:
  assumes "thermal_ok st"
  shows "case control_checks env good st of Inl st' \<Rightarrow> thermal_ok st'
     | Inr st' \<Rightarrow> st' = st \<and> Active st \<and> LinkAlive st \<and> good
         \<and> \<not> f_gt (th_temperature st) (th_upperLimit st)"
  using assms SetFault_ok [OF thermal_data [OF assms]] ApplyHeater_0_ok [OF assms, of env]
  by (simp add: control_checks_def del: ApplyHeater_eq)

text \<open>In the rest of \<open>Control\<close> the heater is active and the link alive.\<close>

definition running_ok :: "Lpc \<Rightarrow> bool" where
  "running_ok st \<longleftrightarrow> thermal_ok st \<and> Active st \<and> LinkAlive st"

lemma running_state_ok:
  assumes "data_ok st" "configured st" "LinkAlive st" "\<not> th_linkTimeoutLatched st"
    and "s \<in> {HCooling, HStable, HHeating}"
  shows "running_ok (st\<lparr>th_state := s\<rparr>)"
  using assms
  by (auto simp: running_ok_def thermal_ok_def guard_ok_def Active_states LinkAlive_def data_ok_def
      configured_def)

lemma running_data:
  "running_ok st \<Longrightarrow> data_ok st" "running_ok st \<Longrightarrow> configured st"
  "running_ok st \<Longrightarrow> LinkAlive st" "running_ok st \<Longrightarrow> \<not> th_linkTimeoutLatched st"
  using live_running [of st] by (simp_all add: running_ok_def thermal_data)

lemma running_set_state:
  "running_ok st \<Longrightarrow> s \<in> {HCooling, HStable, HHeating} \<Longrightarrow> running_ok (st\<lparr>th_state := s\<rparr>)"
  using running_state_ok [OF running_data] by simp

lemma target_state_active: "target_state t x \<in> {HCooling, HStable, HHeating}"
  by (simp add: target_state_def)

lemma UpdateHeaterState_eq:
  "\<exists>u v w a b. UpdateHeaterState t st =
     st\<lparr>th_heatingReferenceTemperature := u, th_heatingReferenceMillis := v, th_timeSetHeating := w,
        th_heatingFaultMillis := a, th_excursionFaultMillis := b,
        th_state := target_state (th_temperature st) t\<rparr>"
proof (cases "target_state (th_temperature st) t = th_state st")
  case True
  then have "UpdateHeaterState t st =
     st\<lparr>th_heatingReferenceTemperature := th_heatingReferenceTemperature st,
        th_heatingReferenceMillis := th_heatingReferenceMillis st,
        th_timeSetHeating := th_timeSetHeating st,
        th_heatingFaultMillis := th_heatingFaultMillis st,
        th_excursionFaultMillis := th_excursionFaultMillis st,
        th_state := target_state (th_temperature st) t\<rparr>"
    by (simp add: UpdateHeaterState_def)
  then show ?thesis by blast
next
  case False
  let ?h = "target_state (th_temperature st) t = HHeating"
  have "UpdateHeaterState t st =
     st\<lparr>th_heatingReferenceTemperature :=
          if ?h then th_temperature st else th_heatingReferenceTemperature st,
        th_heatingReferenceMillis := if ?h then th_millisTicks st else th_heatingReferenceMillis st,
        th_timeSetHeating := if ?h then th_millisTicks st else th_timeSetHeating st,
        th_heatingFaultMillis := 0, th_excursionFaultMillis := 0,
        th_state := target_state (th_temperature st) t\<rparr>"
    using False by (cases ?h) (simp_all add: UpdateHeaterState_def Let_def)
  then show ?thesis by blast
qed

lemma UpdateHeaterState_ok [inv_intros]:
  assumes "data_ok st" and "configured st" and "LinkAlive st" and "\<not> th_linkTimeoutLatched st"
  shows "running_ok (UpdateHeaterState t st)"
proof -
  obtain u v w a b where e: "UpdateHeaterState t st =
     st\<lparr>th_heatingReferenceTemperature := u, th_heatingReferenceMillis := v, th_timeSetHeating := w,
        th_heatingFaultMillis := a, th_excursionFaultMillis := b,
        th_state := target_state (th_temperature st) t\<rparr>"
    using UpdateHeaterState_eq by blast
  show ?thesis
    unfolding e by (rule running_state_ok) (use assms target_state_active in simp_all)
qed

lemma control_target_ok [inv_intros]:
  assumes "running_ok st"
  shows "running_ok (snd (control_target st))"
  using assms UpdateHeaterState_ok [OF running_data [OF assms]]
  by (simp add: control_target_def Let_def running_ok_def)

lemma control_heating_ok [inv_intros]:
  assumes "running_ok st"
  shows "case control_heating env gd e st of Inl st' \<Rightarrow> thermal_ok st' | Inr st' \<Rightarrow> running_ok st'"
  using assms running_set_state [OF assms, of HStable] running_data(1) [OF assms]
  by (simp add: control_heating_def Let_def running_ok_def SetFault_ok)

lemma control_stable_ok [inv_intros]:
  assumes "running_ok st"
  shows "case control_stable env e st of Inl st' \<Rightarrow> thermal_ok st' | Inr st' \<Rightarrow> running_ok st'"
  using assms running_data(1) [OF assms]
  by (simp add: control_stable_def Let_def running_ok_def SetFault_ok)

lemma control_cooling_ok [inv_intros]:
  "running_ok st \<Longrightarrow> running_ok (control_cooling a e st)"
  using running_set_state [of st HStable]
  by (simp add: control_cooling_def running_ok_def)

lemma control_switch_ok [inv_intros]:
  assumes "running_ok st"
  shows "case control_switch env gd a e st of Inl st' \<Rightarrow> thermal_ok st' | Inr st' \<Rightarrow> running_ok st'"
  using control_heating_ok [OF assms, of env gd e] control_stable_ok [OF assms, of env e]
    control_cooling_ok [OF assms, of a e] assms
  by (cases "th_state st") (simp_all add: control_switch_def)

lemma running_hw_ok:
  "running_ok st \<Longrightarrow> length (pstates hw) = 8 \<Longrightarrow> running_ok (st\<lparr>th_hw := hw\<rparr>)"
  by (simp add: running_ok_def thermal_ok_def guard_ok_def data_ok_def Active_def LinkAlive_def
      configured_def)

lemma control_output_ok [inv_intros]:
  assumes "running_ok st"
  shows "thermal_ok (control_output env pwm st)"
proof -
  have "running_ok (st\<lparr>th_hw := heater_out env pwm st\<rparr>)"
    using assms data_ok_pstates [OF running_data(1) [OF assms]] by (intro running_hw_ok) simp_all
  then show ?thesis
    using running_data(4) [OF assms] by (simp add: control_output_def running_ok_def)
qed

lemma control_pwm_frame: "\<exists>i. snd (control_pwm env d gd a e st) = st\<lparr>th_integral := i\<rparr>"
  by (rule exI [of _ "th_integral (snd (control_pwm env d gd a e st))"])
    (simp add: control_pwm_def Let_def split: prod.splits)

lemma Control_ok [inv_intros]:
  assumes "thermal_ok st"
  shows "thermal_ok (Control env st)"
proof -
  obtain good d gd st1 where s: "control_sample env st = (good, d, gd, st1)"
    by (metis surj_pair)
  have ok1: "thermal_ok st1" using control_sample_frame(8) [OF s] assms by simp
  note chk = control_checks_ok [OF ok1, where env = env and good = good]
  show ?thesis
  proof (cases "control_checks env good st1")
    case (Inl st2)
    then show ?thesis using chk by (simp add: Control_def s)
  next
    case (Inr st2)
    then have run: "running_ok st2" using chk ok1 by (simp add: running_ok_def)
    obtain a st3 where t: "control_target st2 = (a, st3)" by fastforce
    have run3: "running_ok st3" using control_target_ok [OF run] by (simp add: t)
    define e where "e = f_sub a (th_temperature st3)"
    note sw = control_switch_ok [OF run3, where env = env and gd = gd and a = a and e = e]
    show ?thesis
    proof (cases "control_switch env gd a e st3")
      case (Inl st4)
      then show ?thesis using sw by (simp add: Control_def s Inr t e_def [symmetric])
    next
      case R: (Inr st4)
      obtain pwm st5 where p: "control_pwm env d gd a e st4 = (pwm, st5)" by fastforce
      have "running_ok st5"
        using sw R control_pwm_frame [of env d gd a e st4] p by (auto simp: running_ok_def)
      then show ?thesis
        using control_output_ok by (simp add: Control_def s Inr t e_def [symmetric] R p)
    qed
  qed
qed

section \<open>Interrupt, heartbeat, configuration and commands preserve the invariant\<close>

lemma Thermal_Spin_ok [inv_intros]: "thermal_ok st \<Longrightarrow> thermal_ok (Thermal_Spin env st)"
  by (simp add: Thermal_Spin_def Let_def Control_ok)

lemma Tick_ok [inv_intros]:
  assumes "thermal_ok st"
  shows "thermal_ok (Tick env st)"
proof -
  have d: "data_ok (st\<lparr>th_millisTicks := n, th_linkTimeoutLatched := b\<rparr>)"
    "data_ok (st\<lparr>th_millisTicks := n\<rparr>)" for n b
    using assms by (simp_all add: thermal_ok_def data_ok_def)
  show ?thesis
    using assms SetFault_ok [OF d(1)] d(2)
    by (auto simp: Tick_def Let_def thermal_ok_def guard_ok_def Active_def LinkAlive_def
        configured_def not_less)
qed

lemma HostHeartbeat_ok [inv_intros]: "thermal_ok st \<Longrightarrow> thermal_ok (HostHeartbeat st)"
  by (auto simp: HostHeartbeat_def thermal_ok_def guard_ok_def data_ok_def Active_def LinkAlive_def
      configured_def LinkTimeoutMillis_def)

definition storage_ok :: "Lpc \<Rightarrow> bool" where
  "storage_ok st \<longleftrightarrow> length (th_previousTemperatures st) = 4 \<and> length (pstates (th_hw st)) = 8"

lemma ResetConfiguration_ok [inv_intros]:
  "storage_ok st \<Longrightarrow> thermal_ok (ResetConfiguration env st)"
  using AbsoluteZero_finite
  by (simp add: ResetConfiguration_def storage_ok_def thermal_ok_def data_ok_def guard_ok_def
      Active_def state_order f_isnan_def f_isfinite_def)

lemma thermal_storage: "thermal_ok st \<Longrightarrow> storage_ok st"
  by (simp add: thermal_ok_def data_ok_def storage_ok_def)

lemma other_hw_ok [inv_intros]:
  assumes "thermal_ok st" "heater_view hw = heater_view (th_hw st)"
    "length (pstates hw) = length (pstates (th_hw st))"
  shows "thermal_ok (st\<lparr>th_hw := hw\<rparr>)"
  using assms heater_off_view [OF assms(2)]
  by (simp add: thermal_ok_def guard_ok_def data_ok_def Active_def LinkAlive_def configured_def)

lemma start_systick_view [simp]: "heater_view (start_systick hw) = heater_view hw"
  "length (pstates (start_systick hw)) = length (pstates hw)"
  by (simp_all add: start_systick_def reg_write_view Iocon_eval addr_eval)

lemma thermal_hw_init_length [simp]: "length (pstates (thermal_hw_init hw)) = length (pstates hw)"
  by (simp add: thermal_hw_init_def Let_def)

lemma Thermal_Init_ok [inv_intros]: "storage_ok st \<Longrightarrow> thermal_ok (Thermal_Init env st)"
proof -
  assume "storage_ok st"
  then have "storage_ok (set_hw thermal_hw_init st)" by (simp add: storage_ok_def set_hw_def)
  then have ok: "thermal_ok (ResetConfiguration env (set_hw thermal_hw_init st))"
    by (rule ResetConfiguration_ok)
  show ?thesis unfolding Thermal_Init_def set_hw_def [of start_systick]
    using ok by (rule other_hw_ok) simp_all
qed

lemma not_configured_ok: "data_ok st \<Longrightarrow> \<not> Active st \<longrightarrow> thermal_ok st
    \<Longrightarrow> thermal_ok (not_configured env e st)"
  by (simp add: not_configured_def SetFault_ok)

lemma flag_off_ok:
  assumes "thermal_ok st"
  shows "data_ok (st\<lparr>th_thermistorConfigured := False\<rparr>)" "data_ok (st\<lparr>th_heaterConfigured := False\<rparr>)"
    "\<not> Active st \<Longrightarrow> thermal_ok (st\<lparr>th_thermistorConfigured := False\<rparr>)"
    "\<not> Active st \<Longrightarrow> thermal_ok (st\<lparr>th_heaterConfigured := False\<rparr>)"
    "Active (st\<lparr>th_thermistorConfigured := b\<rparr>) = Active st"
    "Active (st\<lparr>th_heaterConfigured := b\<rparr>) = Active st"
    "thermal_ok (st\<lparr>th_thermistorConfigured := True\<rparr>)"
  using assms
  by (simp_all add: thermal_ok_def data_ok_def guard_ok_def Active_def LinkAlive_def configured_def)

lemma ConfigureThermistor_ok [inv_intros]:
  assumes "thermal_ok st"
  shows "thermal_ok (ConfigureThermistor env p len st)"
proof -
  let ?s = "st\<lparr>th_r25 := ReadFloat p 0, th_beta := ReadFloat p 4, th_shC := ReadFloat p 8,
                       th_pullupR := ReadFloat p 12\<rparr>"
  have ok: "thermal_ok ?s" using assms by simp
  have off: "thermal_ok (not_configured env NotConfigured (?s\<lparr>th_thermistorConfigured := False\<rparr>))"
    using flag_off_ok [OF ok] by (intro not_configured_ok) simp_all
  have on: "thermal_ok (?s\<lparr>th_shB := b, th_shA := a, th_thermistorConfigured := True\<rparr>)" for a b
    using flag_off_ok(7) [of "?s\<lparr>th_shB := b, th_shA := a\<rparr>"] assms by simp
  show ?thesis
    using assms off on by (simp add: ConfigureThermistor_def Let_def)
qed

lemma parts_ok:
  "thermal_ok st \<Longrightarrow> x \<in> {0, 1, 3} \<Longrightarrow> thermal_ok (st\<lparr>th_pendingModelParts := x\<rparr>)"
  by (simp add: thermal_ok_def data_ok_def guard_ok_def Active_def LinkAlive_def configured_def)

lemma RejectModelUpdate_ok [inv_intros]:
  assumes "thermal_ok st"
  shows "thermal_ok (RejectModelUpdate env st)"
proof -
  have ok: "thermal_ok (st\<lparr>th_pendingModelParts := 0\<rparr>)" using assms by (rule parts_ok) simp
  then show ?thesis
    by (simp add: RejectModelUpdate_def Let_def SetFault_ok thermal_data)
qed

lemma ConfigureModelA_ok [inv_intros]:
  "thermal_ok st \<Longrightarrow> thermal_ok (ConfigureModelA env p len st)"
  by (simp add: ConfigureModelA_def RejectModelUpdate_ok parts_ok)

lemma ConfigureModelB_ok [inv_intros]:
  "thermal_ok st \<Longrightarrow> thermal_ok (ConfigureModelB env p len st)"
  by (simp add: ConfigureModelB_def RejectModelUpdate_ok parts_ok)

lemma model_commit_ok:
  "thermal_ok st \<Longrightarrow> ModelReady m
    \<Longrightarrow> thermal_ok (st\<lparr>th_model := m, th_modelConfigured := True, th_pendingModelParts := 0\<rparr>)"
  by (simp add: thermal_ok_def data_ok_def guard_ok_def Active_def LinkAlive_def configured_def)

lemma ConfigureModelC_ok [inv_intros]:
  "thermal_ok st \<Longrightarrow> thermal_ok (ConfigureModelC env p len st)"
  by (simp add: ConfigureModelC_def Let_def RejectModelUpdate_ok model_commit_ok)

lemma heater_config_ok:
  "thermal_ok st \<Longrightarrow> f \<noteq> 0 \<Longrightarrow> f_lt lo up
    \<Longrightarrow> thermal_ok (st\<lparr>th_heaterFrequency := f, th_upperLimit := up, th_lowerLimit := lo,
          th_maxTempExcursion := a, th_maxFaultTime := b, th_maxBadReadings := c,
          th_heaterConfigured := True\<rparr>)"
  by (simp add: thermal_ok_def data_ok_def guard_ok_def Active_def LinkAlive_def configured_def)

lemma f_mul_not_nan:
  assumes "\<not> f_isnan x" and "f_isfinite y" and "\<not> f_iszero y"
  shows "\<not> f_isnan (f_mul x y)"
proof -
  have "\<not> f_isnan y" "\<not> f_isinf y"
    using assms(2) by (auto simp: f_isfinite_def f_isnan_def f_isinf_def)
  then show ?thesis
    using assms by (simp add: f_mul_def f_inf_def mk_float_not_nan)
qed

lemma f_of_int_not_nan [simp]: "\<not> f_isnan (f_of_int i)"
  by (simp add: f_of_int_def mk_float_not_nan)

lemma tenth_val [lit_simps]: "f_lit (Suc 0) 10 = 0x3DCCCCCD"
  by (simp add: f_lit_def round_mag_def round_shift_def bitlen.simps rne_cases mk_float_def
      Let_def INF_BITS_def)

lemma ConfigureHeater_ok [inv_intros]:
  assumes "thermal_ok st"
  shows "thermal_ok (ConfigureHeater env p len st)"
proof -
  let ?up = "f_mul (f_of_int (sint (Thermal_ReadU16 p 2))) (f_lit 1 10)"
  let ?lo = "f_mul (f_of_int (sint (Thermal_ReadU16 p 4))) (f_lit 1 10)"
  have tenth: "f_isfinite (f_lit 1 10)" "\<not> f_iszero (f_lit 1 10)"
    by (simp_all add: tenth_val f_isfinite_def f_iszero_def fbits_def INF_BITS_def)
  have "\<not> f_isnan ?up" "\<not> f_isnan ?lo" using tenth by (simp_all add: f_mul_not_nan)
  then have lt: "\<not> f_le ?up ?lo \<Longrightarrow> f_lt ?lo ?up" by (auto simp: f_le_def f_lt_def)
  have bad: "thermal_ok (not_configured env ControlFault (st\<lparr>th_heaterConfigured := False\<rparr>))"
    using flag_off_ok [OF assms] by (intro not_configured_ok) simp_all
  have good: "thermal_ok (st\<lparr>th_heaterFrequency := f, th_upperLimit := ?up, th_lowerLimit := ?lo,
      th_maxTempExcursion := a, th_maxFaultTime := b, th_maxBadReadings := c,
      th_heaterConfigured := True\<rparr>)" if "f \<noteq> 0" "\<not> f_le ?up ?lo" for f a b c
    using heater_config_ok [OF assms that(1) lt [OF that(2)]] .
  show ?thesis
    using assms bad good by (simp add: ConfigureHeater_def Let_def)
qed

lemma stopped_ok:
  assumes "thermal_ok st" and "s < HCooling" and "th_linkTimeoutLatched st \<longrightarrow> s = HFault"
  shows "thermal_ok (st\<lparr>th_hw := heater_out env f0 st', th_state := s\<rparr>)
    \<longleftrightarrow> length (pstates (th_hw st')) = 8"
  using assms by (cases s)
    (simp_all add: thermal_ok_def guard_ok_def data_ok_def Active_def state_order)

lemma off_suspend_ok [inv_intros]:
  assumes "thermal_ok st"
  shows "thermal_ok (command_off env st)" "thermal_ok (command_suspend env st)"
proof -
  have len: "length (pstates (th_hw st)) = 8"
    using assms by (simp add: thermal_ok_def data_ok_def)
  have l: "th_linkTimeoutLatched st \<Longrightarrow> th_state st = HFault"
    using assms by (simp add: thermal_ok_def guard_ok_def)
  have keep: "thermal_ok (st\<lparr>th_hw := heater_out env f0 st\<rparr>)"
    using ApplyHeater_0_ok [OF assms, of env] by simp
  have new: "thermal_ok (st\<lparr>th_hw := heater_out env f0 st, th_state := s\<rparr>)"
    if "th_state st \<noteq> HFault" "s = HOff \<or> s = HSuspended" for s
  proof -
    have "\<not> th_linkTimeoutLatched st" using l that by blast
    then show ?thesis
      using stopped_ok [OF assms, of s env st] that len by (auto simp: state_order)
  qed
  show "thermal_ok (command_off env st)" "thermal_ok (command_suspend env st)"
    using keep new by (simp_all add: command_off_def command_suspend_def Let_def)
qed

lemma sample_ok:
  "SampleTemperature env st = (g, st') \<Longrightarrow> thermal_ok st \<Longrightarrow> thermal_ok st'"
  using SampleTemperature_sampled [of st env] sampled_ok(1) by simp

lemma sample_sel:
  assumes "SampleTemperature env st = (g, st')"
  shows "th_state st' = th_state st" "th_linkTimeoutLatched st' = th_linkTimeoutLatched st"
    "th_millisTicks st' = th_millisTicks st" "th_lastHostHeartbeat st' = th_lastHostHeartbeat st"
    "Active st' = Active st" "LinkAlive st' = LinkAlive st" "configured st' = configured st"
    "th_model st' = th_model st" "th_maxBadReadings st' = th_maxBadReadings st"
    "th_badReadings st' = th_badReadings st"
    "th_thermistorConfigured st' = th_thermistorConfigured st"
  using sampled_sel [of st st'] SampleTemperature_sampled [of st env] assms by simp_all

lemma command_resetFault_ok [inv_intros]:
  assumes "thermal_ok st"
  shows "thermal_ok (command_resetFault env st)"
proof -
  obtain g st1 where s: "SampleTemperature env st = (g, st1)" by fastforce
  have ok: "thermal_ok st1" using s assms by (rule sample_ok)
  then have "data_ok (st1\<lparr>th_linkTimeoutLatched := False,
      th_hw := heater_out env f0 (st1\<lparr>th_linkTimeoutLatched := False\<rparr>), th_state := HOff\<rparr>)"
    by (simp add: thermal_ok_def data_ok_def)
  then have "thermal_ok (st1\<lparr>th_linkTimeoutLatched := False,
      th_hw := heater_out env f0 (st1\<lparr>th_linkTimeoutLatched := False\<rparr>), th_state := HOff\<rparr>)"
    by (simp add: thermal_ok_def guard_ok_def Active_def state_order)
  then show ?thesis
    using assms ok by (simp add: command_resetFault_def s)
qed

lemma command_on_ok [inv_intros]:
  assumes "thermal_ok st"
  shows "case command_on env t st of Inl st' \<Rightarrow> thermal_ok st' | Inr st' \<Rightarrow> running_ok st'"
proof (cases "LinkAlive st \<and> configured st \<and> th_state st \<noteq> HFault")
  case False
  then show ?thesis
    using assms SetFault_ok [OF thermal_data [OF assms]] by (auto simp: command_on_def)
next
  case True
  obtain g st1 where s: "SampleTemperature env st = (g, st1)" by fastforce
  have ok: "thermal_ok st1" using s assms by (rule sample_ok)
  note sel = sample_sel [OF s]
  have "\<not> th_linkTimeoutLatched st" using True assms by (auto simp: thermal_ok_def guard_ok_def)
  then have u: "running_ok (UpdateHeaterState x (st1\<lparr>th_targetTemperature := y\<rparr>))" for x y
    using True ok by (intro UpdateHeaterState_ok) (simp_all add: sel thermal_data)
  show ?thesis
    using True ok u SetFault_ok [OF thermal_data [OF ok]]
    by (simp add: command_on_def s sel Let_def)
qed

lemma Command_ok [inv_intros]:
  assumes "thermal_ok st"
  shows "thermal_ok (Command env p len st)"
proof -
  let ?t = "f_mul (f_of_int (sint (Thermal_ReadU16 p 1))) (f_lit 1 100)"
  have on: "thermal_ok (case command_on env ?t st of
      Inl st' \<Rightarrow> st' | Inr st' \<Rightarrow> st'\<lparr>th_statusDirty := True\<rparr>)"
    using command_on_ok [OF assms, where env = env and t = ?t]
    by (cases "command_on env ?t st") (simp_all add: running_ok_def)
  show ?thesis
    using assms off_suspend_ok [OF assms, of env] command_resetFault_ok [OF assms, of env] on
    by (cases "command_of (p ! 0)") (simp_all add: Command_def Let_def)
qed

lemma ConfigureFeedForward_ok [inv_intros]:
  "thermal_ok st \<Longrightarrow> thermal_ok (ConfigureFeedForward env p len st)"
  by (simp add: ConfigureFeedForward_def Let_def SetFault_ok thermal_data)

lemma HandleFrame_ok [inv_intros]: "thermal_ok st \<Longrightarrow> thermal_ok (HandleFrame env fr st)"
  by (cases "ftype fr") (simp_all add: HandleFrame_def Let_def inv_intros)

lemma TakeStatus_ok [inv_intros]: "thermal_ok st \<Longrightarrow> thermal_ok (snd (TakeStatus env st))"
  by (simp add: TakeStatus_def Let_def)

end
