(* ===== verification/LpcThermalProps.thy ===== *)
theory LpcThermalProps
  imports LpcThermalSafety
begin

text \<open>
  Properties of the thermal controller of \<open>LpcFirmware/src/Thermal.cpp\<close> that a single operation
  or a run of one operation has: interrupted heater writes, latched faults, the link timeout, the
  limits, failing sensors, the model transaction, and the ranges of every conversion to an
  integer.
\<close>

text \<open>The surroundings the witnesses run in: a converter that never answers.\<close>

definition dead_env :: Env where
  "dead_env = \<lparr>e_logf = id, e_powf = (\<lambda>x _. x), e_adc = (\<lambda>_. 0), e_ub16 = (\<lambda>_. 0), e_ub32 = (\<lambda>_. 0)\<rparr>"

section \<open>Float bounds\<close>

lemma f_mul_bits:
  assumes "f_isfinite x" "f_isfinite y" "fmag x * fmag y \<le> 2 ^ 149 * mag_of b" "b \<le> INF_BITS"
  shows "fbits (f_mul x y) \<le> b" and "fsign (f_mul x y) = (fsign x \<noteq> fsign y)"
proof -
  have e: "f_mul x y = mk_float (fsign x \<noteq> fsign y) (round_mag (fmag x * fmag y) (2 ^ 149))"
    using assms(1,2) by (auto simp: f_mul_def f_isfinite_def f_isnan_def f_isinf_def)
  show "fbits (f_mul x y) \<le> b" using round_mag_le [OF assms(3) _ assms(4)] by (simp add: e)
  show "fsign (f_mul x y) = (fsign x \<noteq> fsign y)" by (simp add: e)
qed

lemma f_add_bits:
  assumes "f_isfinite x" "f_isfinite y" "0 < fint x + fint y" "nat (fint x + fint y) \<le> mag_of b"
    "b \<le> INF_BITS"
  shows "fbits (f_add x y) \<le> b" and "\<not> fsign (f_add x y)"
proof -
  have e: "f_add x y = mk_float False (round_mag (nat (fint x + fint y)) 1)"
    using assms(1-3) by (auto simp: f_add_def f_isfinite_def f_isnan_def f_isinf_def Let_def)
  show "fbits (f_add x y) \<le> b" using round_mag_le [of "nat (fint x + fint y)" 1 b] assms(4,5)
    by (simp add: e)
  show "\<not> fsign (f_add x y)" by (simp add: e)
qed

lemma finite_bits: "fbits x \<le> b \<Longrightarrow> b < INF_BITS \<Longrightarrow> f_isfinite x"
  by (simp add: f_isfinite_def)

lemma fmag_le: "fbits x \<le> b \<Longrightarrow> b \<le> INF_BITS \<Longrightarrow> fmag x \<le> mag_of b"
  by (simp add: fmag_def mag_of_mono)

text \<open>The result of a clamp lies within the limits.\<close>

lemma Clamp_bounds:
  assumes "\<not> f_isnan x" "f_le lo hi"
  shows "f_le lo (Clamp x lo hi) \<and> f_le (Clamp x lo hi) hi"
  using assms by (auto simp: Clamp_def f_le_def f_lt_def)

lemma Clamp_nan: "f_isnan x \<Longrightarrow> Clamp x lo hi = x"
  by (simp add: Clamp_def f_lt_def)

lemma lit_values [lit_simps]:
  "f_lit 65535 (Suc 0) = 0x477FFF00" "f_lit (Suc 0) 2 = 0x3F000000" "f_lit 100 (Suc 0) = 0x42C80000"
  "f_lit 32768 100 = 0x43A3D70A" "f_lit 32767 100 = 0x43A3D5C3"
  by (simp_all add: f_lit_def round_mag_def round_shift_def bitlen.simps rne_cases mk_float_def
      Let_def INF_BITS_def)

lemma unit_range:
  assumes "f_le f0 x" "f_le x f1"
  shows "fbits x \<le> 0x3F800000" and "0 \<le> fint x" and "fint x \<le> 2 ^ 149"
proof -
  have k: "0 \<le> fkey x" "fkey x \<le> 0x3F800000"
    using assms by (auto simp: f_le_def f1_val fkey_def fbits_def fsign_def)
  then show b: "fbits x \<le> 0x3F800000" by (auto simp: fkey_def split: if_splits)
  have "mag_of 0x3F800000 = 2 ^ 149" by (simp add: mag_of_def)
  then have m: "fmag x \<le> 2 ^ 149" using fmag_le [OF b] by (simp add: INF_BITS_def)
  show "fint x \<le> 2 ^ 149" using m by (auto simp: fint_def)
  show "0 \<le> fint x"
    using k(1) by (auto simp: fint_def fkey_def fmag_def split: if_splits)
qed

lemma duty_in_range:
  assumes "f_le f0 x" "f_le x f1"
  shows "f_in_range 0 65535 (f_add (f_mul x (f_lit 65535 1)) (f_lit 1 2))"
proof -
  note u = unit_range [OF assms]
  let ?c = "f_lit 65535 1" let ?h = "f_lit 1 2"
  have xf: "f_isfinite x" using finite_bits [OF u(1)] by (simp add: INF_BITS_def)
  have c: "f_isfinite ?c" "fmag ?c = 65535 * 2 ^ 149" "\<not> fsign ?c"
    by (simp_all add: lit_values f_isfinite_def fbits_def INF_BITS_def fmag_def mag_of_def fsign_def)
  have h: "f_isfinite ?h" "fint ?h = 2 ^ 148"
    by (simp_all add: lit_values f_isfinite_def fbits_def INF_BITS_def fmag_def mag_of_def fint_def
        fsign_def)
  have mx: "fmag x \<le> 2 ^ 149" using u(2,3) by (auto simp: fint_def split: if_splits)
  have mb: "mag_of 0x477FFF00 = 65535 * 2 ^ 149" by (simp add: mag_of_def)
  have "fmag x * fmag ?c \<le> 2 ^ 149 * mag_of 0x477FFF00"
    unfolding c(2) mb using mx by (rule mult_right_mono) simp
  note p = f_mul_bits [OF xf c(1) this]
  have pb: "fbits (f_mul x ?c) \<le> 0x477FFF00" "fsign (f_mul x ?c) = fsign x"
    using p c(3) by (simp_all add: INF_BITS_def)
  have pf: "f_isfinite (f_mul x ?c)" using finite_bits [OF pb(1)] by (simp add: INF_BITS_def)
  have pm: "fmag (f_mul x ?c) \<le> 65535 * 2 ^ 149"
    using fmag_le [OF pb(1)] mb by (simp add: INF_BITS_def)
  have "fsign x \<Longrightarrow> fmag x = 0" using u(2) by (auto simp: fint_def)
  moreover have "fmag x = 0 \<Longrightarrow> fmag (f_mul x ?c) = 0"
  proof -
    assume "fmag x = 0"
    then have "fbits (f_mul x ?c) \<le> 0" using f_mul_bits(1) [OF xf c(1), of 0] by simp
    then show ?thesis by (simp add: fmag_def)
  qed
  ultimately have pi: "0 \<le> fint (f_mul x ?c)" "fint (f_mul x ?c) \<le> 65535 * 2 ^ 149"
    using pb(2) pm by (auto simp: fint_def)
  have mb2: "mag_of 0x477FFF80 = 65535 * 2 ^ 149 + 2 ^ 148" by (simp add: mag_of_def)
  have "nat (fint (f_mul x ?c) + fint ?h) \<le> mag_of 0x477FFF80"
    unfolding mb2 h(2) using pi by (simp add: nat_le_iff)
  note s = f_add_bits [OF pf h(1) _ this]
  have sb: "fbits (f_add (f_mul x ?c) ?h) \<le> 0x477FFF80" "\<not> fsign (f_add (f_mul x ?c) ?h)"
    using s pi h(2) by (simp_all add: INF_BITS_def)
  have "fmag (f_add (f_mul x ?c) ?h) < (65535 + 1) * 2 ^ 149"
    using fmag_le [OF sb(1)] unfolding mb2 by (simp add: INF_BITS_def)
  moreover have fin: "f_isfinite (f_add (f_mul x ?c) ?h)"
    using finite_bits [OF sb(1)] by (simp add: INF_BITS_def)
  ultimately show ?thesis
    using f_trunc_nonneg_bound [OF fin sb(2), of 65535] by (simp add: f_in_range_def)
qed

lemma centi_in_range:
  assumes "f_le (f_neg (f_lit 32768 100)) x" "f_le x (f_lit 32767 100)"
  shows "f_in_range (- 32768) 32767 (f_mul x (f_lit 100 1))"
proof -
  let ?c = "f_lit 100 1"
  have c: "f_isfinite ?c" "fmag ?c = 100 * 2 ^ 149" "\<not> fsign ?c"
    by (simp_all add: lit_values f_isfinite_def fbits_def INF_BITS_def fmag_def mag_of_def fsign_def)
  have k: "- 0x43A3D70A \<le> fkey x" "fkey x \<le> 0x43A3D5C3"
    using assms by (auto simp: f_le_def lit_values f_neg_def mk_float_def fkey_def fbits_def fsign_def)
  have neg: "fsign x \<Longrightarrow> fbits x \<le> 0x43A3D70A" and pos: "\<not> fsign x \<Longrightarrow> fbits x \<le> 0x43A3D5C3"
    using k by (auto simp: fkey_def split: if_splits)
  then have b: "fbits x \<le> 0x43A3D70A" by (cases "fsign x") auto
  have xf: "f_isfinite x" using finite_bits [OF b] by (simp add: INF_BITS_def)
  have up: "fmag x * fmag ?c \<le> 2 ^ 149 * mag_of n" "n \<le> INF_BITS"
    if "fbits x \<le> l" "mag_of l * (100 * 2 ^ 149) \<le> 2 ^ 149 * mag_of n" "l \<le> INF_BITS" "n \<le> INF_BITS"
    for l n
  proof -
    have "fmag x * fmag ?c \<le> mag_of l * (100 * 2 ^ 149)"
      unfolding c(2) using fmag_le [OF that(1,3)] by (rule mult_right_mono) simp
    then show "fmag x * fmag ?c \<le> 2 ^ 149 * mag_of n" "n \<le> INF_BITS" using that by linarith+
  qed
  show ?thesis
  proof (cases "fsign x")
    case True
    have mb: "mag_of 0x47000000 = 32768 * 2 ^ 149" by (simp add: mag_of_def)
    have l: "mag_of 0x43A3D70A * (100 * 2 ^ 149) \<le> 2 ^ 149 * mag_of 0x47000000"
      by (simp add: mag_of_def)
    note p = f_mul_bits [OF xf c(1) up [OF neg [OF True] l]]
    have pb: "fbits (f_mul x ?c) \<le> 0x47000000" "fsign (f_mul x ?c)"
      using p True c(3) by (simp_all add: INF_BITS_def)
    have fin: "f_isfinite (f_mul x ?c)" using finite_bits [OF pb(1)] by (simp add: INF_BITS_def)
    have "fmag (f_mul x ?c) \<le> 32768 * 2 ^ 149"
      using fmag_le [OF pb(1)] mb by (simp add: INF_BITS_def)
    then have "fmag (f_mul x ?c) div 2 ^ 149 \<le> 32768"
      by (metis div_le_mono div_mult_self_is_m zero_less_numeral zero_less_power)
    then show ?thesis using fin pb(2) by (simp add: f_in_range_def f_trunc_def)
  next
    case False
    have mb: "mag_of 0x46FFFFFF < 32768 * 2 ^ 149" by (simp add: mag_of_def)
    have l: "mag_of 0x43A3D5C3 * (100 * 2 ^ 149) \<le> 2 ^ 149 * mag_of 0x46FFFFFF"
      by (simp add: mag_of_def)
    note p = f_mul_bits [OF xf c(1) up [OF pos [OF False] l]]
    have pb: "fbits (f_mul x ?c) \<le> 0x46FFFFFF" "\<not> fsign (f_mul x ?c)"
      using p False c(3) by (simp_all add: INF_BITS_def)
    have fin: "f_isfinite (f_mul x ?c)" using finite_bits [OF pb(1)] by (simp add: INF_BITS_def)
    have "fmag (f_mul x ?c) < (32767 + 1) * 2 ^ 149"
      using fmag_le [OF pb(1)] mb by (simp add: INF_BITS_def)
    then show ?thesis
      using f_trunc_nonneg_bound [OF fin pb(2), of 32767] fin by (simp add: f_in_range_def)
  qed
qed

text \<open>
  No conversion of \<open>Thermal.cpp\<close> from \<open>float\<close> to an integer is undefined while the PWM values
  are numbers: the duty cycle \<open>ApplyHeater\<close> programs is the same whatever undefined conversions
  would yield, for every requested PWM that is not NaN, and so is the whole status report, for
  every temperature and average PWM that are not NaN. (For a NaN PWM the clamp returns the NaN and
  the conversion is undefined.)
\<close>

theorem conversions_defined:
  assumes "\<not> f_isnan pwm" and "\<not> f_isnan (th_temperature st)" and "\<not> f_isnan (th_averagePwm st)"
  shows "heater_duty env (Clamp pwm f0 f1) = heater_duty env' (Clamp pwm f0 f1)
    \<and> fst (TakeStatus env st) = fst (TakeStatus env' st)"
proof -
  have le: "f_le f0 f1" by (simp add: f1_val f_le_def f_isnan_def fkey_def fbits_def fsign_def INF_BITS_def)
  have le2: "f_le (f_neg (f_lit 32768 100)) (f_lit 32767 100)"
    by (simp add: lit_values f_le_def f_isnan_def fkey_def fbits_def fsign_def INF_BITS_def f_neg_def
        mk_float_def)
  have duty: "f_in_range 0 65535 (f_add (f_mul (Clamp x f0 f1) (f_lit 65535 1)) (f_lit 1 2))"
    if "\<not> f_isnan x" for x
    using Clamp_bounds [OF that le] by (intro duty_in_range) auto
  have centi: "f_in_range (- 32768) 32767
      (f_mul (Clamp (th_temperature st) (f_neg (f_lit 32768 100)) (f_lit 32767 100)) (f_lit 100 1))"
    using Clamp_bounds [OF assms(2) le2] by (intro centi_in_range) auto
  show ?thesis
    using duty [OF assms(1)] duty [OF assms(3)] centi
    by (simp add: heater_duty_def TakeStatus_def status_pwm_def temperature_centi_def f_to_u16_def
        f_to_i16_def Let_def)
qed

theorem conversions_defined_witness:
  "heater_duty dead_env (Clamp (f_lit 1 2) f0 f1) = heater_duty (dead_env\<lparr>e_ub16 := (\<lambda>_. 7)\<rparr>) (Clamp (f_lit 1 2) f0 f1)"
  using conversions_defined [of "f_lit 1 2" "undefined\<lparr>th_temperature := 0, th_averagePwm := 0\<rparr>"]
  by (simp add: lit_values f_isnan_def fbits_def INF_BITS_def)

section \<open>Interrupted heater writes\<close>

text \<open>
  \<open>Pwm::Set\<close> as a sequence of register accesses with timer interrupts between them: \<open>n\<close> ticks,
  then the access, for each pair \<open>(n, access)\<close>.
\<close>

definition ticks :: "Env \<Rightarrow> nat \<Rightarrow> Lpc \<Rightarrow> Lpc" where
  "ticks env n = Tick env ^^ n"

fun run_interrupted :: "Env \<Rightarrow> (nat \<times> (Hw \<Rightarrow> Hw)) list \<Rightarrow> Lpc \<Rightarrow> Lpc" where
  "run_interrupted env [] st = st"
| "run_interrupted env ((n, access) # rest) st =
     run_interrupted env rest (set_hw access (ticks env n st))"

text \<open>The register accesses of \<open>Pwm::Set\<close> on the heater, in order; each reads before it writes.\<close>

definition pwm_set_accesses :: "u16 \<Rightarrow> u16 \<Rightarrow> (Hw \<Rightarrow> Hw) list" where
  "pwm_set_accesses duty f =
    (let ch = channels ! 0; divider = pwm_divider ch f; period = pwm_period ch f;
         constant = (\<lambda>high. [\<lambda>h. reg_write (TimerRegister ch 0x004) 0 h,
                             \<lambda>h. snd (Configure (\<lambda>_. False) PinHeater PwmMode high h)])
     in if duty = 0 then constant False
        else if f = 0 then []
        else if duty = 65535 then constant True
        else if period < 2 \<or> ch_maxPeriod ch < period then []
        else [\<lambda>h. reg_write LPC_SYSCON_SYSAHBCLKCTRL
                (regs h LPC_SYSCON_SYSAHBCLKCTRL OR push_bit (unat (ch_clockBit ch)) 1) h,
              \<lambda>h. reg_write (Pwm_Iocon ch) ((regs h (Pwm_Iocon ch) AND NOT 0x07)
                OR ucast (ch_pinFunction ch)) h,
              \<lambda>h. reg_write (TimerRegister ch 0x004) 0x02 h,
              \<lambda>h. reg_write (TimerRegister ch 0x00C) (divider - 1) h,
              \<lambda>h. reg_write (TimerRegister ch (0x018 + 4 * ucast (ch_matchChannel ch)))
                (period - pwm_highTicks period duty) h,
              \<lambda>h. reg_write (TimerRegister ch 0x024) period h,
              \<lambda>h. reg_write (TimerRegister ch 0x014) (push_bit 10 1) h,
              \<lambda>h. reg_write (TimerRegister ch 0x074)
                (push_bit 3 1 OR push_bit (unat (ch_matchChannel ch)) 1) h,
              \<lambda>h. reg_write (TimerRegister ch 0x004) 0x01 h])"

lemma pwm_set_accesses_Set:
  "foldl (\<lambda>h acc. acc h) hw (pwm_set_accesses duty f) = snd (Pwm_Set PinHeater duty f hw)"
proof -
  have "\<not> ch_analogCapable (channels ! 0)" "ch_pin (channels ! 0) = PinHeater"
    by (simp_all add: channels_def)
  then show ?thesis
    by (simp add: pwm_set_accesses_def Pwm_Set_def Find_eval Let_def SetConstant_def start_timer_def)
qed

definition latch_fault :: "Lpc \<Rightarrow> bool" where
  "latch_fault st \<longleftrightarrow> (th_linkTimeoutLatched st \<longrightarrow> th_state st = HFault)"

lemma Tick_latch:
  assumes "latch_fault st"
  shows "latch_fault (Tick env st)"
    and "th_linkTimeoutLatched (Tick env st) \<Longrightarrow>
      (th_linkTimeoutLatched st \<and> th_hw (Tick env st) = th_hw st) \<or> heater_off (th_hw (Tick env st))"
    and "th_linkTimeoutLatched st \<Longrightarrow> th_hw (Tick env st) = th_hw st \<and> th_linkTimeoutLatched (Tick env st)"
    and "th_heaterFrequency (Tick env st) = th_heaterFrequency st"
  using assms by (auto simp: Tick_def Let_def latch_fault_def SetFault_def Active_def state_order)

lemma ticks_latch:
  assumes "latch_fault st"
  shows "latch_fault (ticks env n st)"
    and "th_linkTimeoutLatched (ticks env n st) \<Longrightarrow>
      (th_linkTimeoutLatched st \<and> th_hw (ticks env n st) = th_hw st)
      \<or> heater_off (th_hw (ticks env n st))"
    and "th_linkTimeoutLatched st \<Longrightarrow>
      th_hw (ticks env n st) = th_hw st \<and> th_linkTimeoutLatched (ticks env n st)"
    and "th_heaterFrequency (ticks env n st) = th_heaterFrequency st"
proof -
  have "latch_fault (ticks env n st) \<and>
    (th_linkTimeoutLatched (ticks env n st) \<longrightarrow>
      (th_linkTimeoutLatched st \<and> th_hw (ticks env n st) = th_hw st)
      \<or> heater_off (th_hw (ticks env n st))) \<and>
    (th_linkTimeoutLatched st \<longrightarrow>
      th_hw (ticks env n st) = th_hw st \<and> th_linkTimeoutLatched (ticks env n st)) \<and>
    th_heaterFrequency (ticks env n st) = th_heaterFrequency st"
  proof (induction n)
    case 0
    then show ?case using assms by (simp add: ticks_def)
  next
    case (Suc n)
    have e: "ticks env (Suc n) st = Tick env (ticks env n st)" by (simp add: ticks_def)
    show ?case
      unfolding e using Suc Tick_latch [of "ticks env n st" env] by metis
  qed
  then show "latch_fault (ticks env n st)"
    and "th_linkTimeoutLatched (ticks env n st) \<Longrightarrow>
      (th_linkTimeoutLatched st \<and> th_hw (ticks env n st) = th_hw st)
      \<or> heater_off (th_hw (ticks env n st))"
    and "th_linkTimeoutLatched st \<Longrightarrow>
      th_hw (ticks env n st) = th_hw st \<and> th_linkTimeoutLatched (ticks env n st)"
    and "th_heaterFrequency (ticks env n st) = th_heaterFrequency st"
    by simp_all
qed

lemma set_hw_latch [simp]:
  "latch_fault (set_hw f st) = latch_fault st"
  "th_linkTimeoutLatched (set_hw f st) = th_linkTimeoutLatched st"
  "th_hw (set_hw f st) = f (th_hw st)" "th_heaterFrequency (set_hw f st) = th_heaterFrequency st"
  by (simp_all add: set_hw_def latch_fault_def)

lemma run_interrupted_latch:
  assumes "latch_fault st"
  shows "latch_fault (run_interrupted env steps st)"
    and "th_linkTimeoutLatched st \<Longrightarrow> th_hw (run_interrupted env steps st)
           = foldl (\<lambda>h acc. acc h) (th_hw st) (map snd steps)
         \<and> th_linkTimeoutLatched (run_interrupted env steps st)"
  using assms
  by (induction env steps st rule: run_interrupted.induct)
    (auto simp: ticks_latch(1,3))

text \<open>
  C4. \<open>ApplyHeater\<close> is safe against the timer interrupt. Let the interrupt strike any number of
  times after the flag is first read, between any two of the register accesses of \<open>Pwm::Set\<close>,
  and after the final test: if the link timeout is latched when \<open>ApplyHeater\<close> and those interrupts
  are over, the heater output is off, whatever PWM was being applied.
\<close>

theorem apply_heater_interrupted:
  assumes "latch_fault st"
    and "\<And>duty. map snd (steps duty) = pwm_set_accesses duty (th_heaterFrequency st)"
  shows "let st' = ApplyHeater_with env (ticks env a) (\<lambda>duty. run_interrupted env (steps duty))
      (ticks env b) pwm st in th_linkTimeoutLatched st' \<longrightarrow> heater_off (th_hw st')"
proof (unfold Let_def, rule impI)
  define st' where "st' = ApplyHeater_with env (ticks env a)
    (\<lambda>duty. run_interrupted env (steps duty)) (ticks env b) pwm st"
  assume "th_linkTimeoutLatched (ApplyHeater_with env (ticks env a)
    (\<lambda>duty. run_interrupted env (steps duty)) (ticks env b) pwm st)"
  then have latched: "th_linkTimeoutLatched st'" by (simp add: st'_def)
  let ?d = "heater_duty env (if th_linkTimeoutLatched st then f0 else Clamp pwm f0 f1)"
  define st1 st2 where s1: "st1 = ticks env a st" and s2: "st2 = run_interrupted env (steps ?d) st1"
  define st3 where s3: "st3 = (if \<not> th_linkTimeoutLatched st \<and> th_linkTimeoutLatched st2
    then heater_set 0 st2 else st2)"
  have l1: "latch_fault st1" unfolding s1 using assms(1) by (rule ticks_latch)
  have l2: "latch_fault st2" unfolding s2 using l1 by (rule run_interrupted_latch)
  have l3: "latch_fault st3" using l2 by (simp add: s3 heater_set_def latch_fault_def)
  have st': "st' = ticks env b st3"
    unfolding st'_def ApplyHeater_with_def Let_def s3 s2 s1 by (rule refl)
  have off3: "heater_off (th_hw st3)" if lt: "th_linkTimeoutLatched st3"
  proof (cases "th_linkTimeoutLatched st")
    case True
    then have one: "th_hw st1 = th_hw st" "th_linkTimeoutLatched st1"
      using ticks_latch(3) [OF assms(1)] by (simp_all add: s1)
    have "th_hw st2 = snd (Pwm_Set PinHeater 0 (th_heaterFrequency st) (th_hw st1))"
      using run_interrupted_latch(2) [OF l1 one(2)] assms(2) [of 0] True
      by (simp add: s2 pwm_set_accesses_Set)
    then show ?thesis using True by (simp add: s3 Pwm_Set_heater_zero_off)
  next
    case False
    have "th_linkTimeoutLatched st2"
      using lt by (auto simp: s3 heater_set_def split: if_splits)
    then show ?thesis using False by (simp add: s3 heater_set_def Pwm_Set_heater_zero_off)
  qed
  have "heater_off (th_hw st')"
    using ticks_latch(2) [OF l3] latched off3 unfolding st' by metis
  then show "heater_off (th_hw (ApplyHeater_with env (ticks env a)
      (\<lambda>duty. run_interrupted env (steps duty)) (ticks env b) pwm st))"
    by (simp add: st'_def)
qed

theorem apply_heater_interrupted_witness:
  "\<exists>st. latch_fault st \<and> Active st \<and>
     (let st' = ApplyHeater_with dead_env (ticks dead_env 3)
        (\<lambda>duty. run_interrupted dead_env (map (Pair 5) (pwm_set_accesses duty 250))) (ticks dead_env 7) f1 st
      in th_linkTimeoutLatched st' \<longrightarrow> heater_off (th_hw st'))"
proof -
  let ?st = "undefined\<lparr>th_state := HHeating, th_linkTimeoutLatched := False, th_heaterFrequency := 250\<rparr>"
  have "latch_fault ?st \<and> Active ?st" by (simp add: latch_fault_def Active_def state_order)
  then show ?thesis
    using apply_heater_interrupted [of ?st "\<lambda>duty. map (Pair 5) (pwm_set_accesses duty 250)"
      dead_env 3 7 f1] by (intro exI [of _ ?st]) (simp add: comp_def)
qed

section \<open>Faults\<close>

lemma Control_fault:
  assumes "th_state st = HFault"
  shows "th_state (Control env st) = HFault" and "heater_off (th_hw (Control env st))"
    and "th_error (Control env st) = th_error st"
proof -
  obtain good d gd st1 where s: "control_sample env st = (good, d, gd, st1)" by (metis surj_pair)
  note f = control_sample_frame [OF s]
  have "\<not> Active st1" using assms f(1) by (simp add: Active_def state_order)
  then show "th_state (Control env st) = HFault" "heater_off (th_hw (Control env st))"
    "th_error (Control env st) = th_error st"
    using assms f(1,10) by (simp_all add: Control_def s control_checks_def)
qed

lemma Thermal_Spin_fault:
  "th_state st = HFault \<Longrightarrow> th_state (Thermal_Spin env st) = HFault"
  using Control_fault(1) [of "st\<lparr>th_lastSampleTime := th_millisTicks st\<rparr>"]
  by (simp add: Thermal_Spin_def Let_def)

lemma Tick_fault: "th_state st = HFault \<Longrightarrow> th_state (Tick env st) = HFault"
  by (simp add: Tick_def Let_def Active_def state_order)

lemma not_configured_fault: "th_state st = HFault \<Longrightarrow> th_state (not_configured env e st) = HFault"
  by (simp add: not_configured_def)

lemma RejectModelUpdate_fault:
  "th_state st = HFault \<Longrightarrow> th_state (RejectModelUpdate env st) = HFault"
  by (simp add: RejectModelUpdate_def Let_def)

lemma command_on_fault:
  "th_state st = HFault \<Longrightarrow> command_on env t st = Inl st"
  by (simp add: command_on_def)

lemma command_resetFault_state:
  "th_state st = HFault \<Longrightarrow> th_state (command_resetFault env st) =
     (if LinkAlive st \<and> fst (SampleTemperature env st) then HOff else HFault)"
  by (cases "SampleTemperature env st") (simp add: command_resetFault_def sample_sel(1))

definition is_reset_command :: "Frame \<Rightarrow> bool" where
  "is_reset_command fr \<longleftrightarrow> ftype fr = HeaterCommandMsg \<and> flength fr = 3
     \<and> command_of (payload fr ! 0) = CmdResetFault"

text \<open>
  In the fault state no timer interrupt, no control step and no message that \<open>HandleFrame\<close> receives except a reset-fault command
  leaves it, and that command only when the link is alive and a fresh temperature sample is good.
\<close>

lemma fault_kept:
  assumes "th_state st = HFault"
  shows "th_state (Tick env st) = HFault \<and> th_state (Thermal_Spin env st) = HFault
    \<and> th_state (HandleFrame env fr st) =
        (if is_reset_command fr \<and> LinkAlive st \<and> fst (SampleTemperature env st) then HOff else HFault)"
proof -
  have len: "unat (flength fr) = 3 \<longleftrightarrow> flength fr = 3" by (simp add: word_unat_eq_iff)
  have th: "th_state (ConfigureThermistor env p len st) = HFault" for p len
    using assms by (simp add: ConfigureThermistor_def Let_def not_configured_fault)
  have ma: "th_state (ConfigureModelA env p len st) = HFault" for p len
    using assms by (simp add: ConfigureModelA_def RejectModelUpdate_fault)
  have mb: "th_state (ConfigureModelB env p len st) = HFault" for p len
    using assms by (simp add: ConfigureModelB_def RejectModelUpdate_fault)
  have mc: "th_state (ConfigureModelC env p len st) = HFault" for p len
    using assms by (simp add: ConfigureModelC_def Let_def RejectModelUpdate_fault)
  have ch: "th_state (ConfigureHeater env p len st) = HFault" for p len
    using assms by (simp add: ConfigureHeater_def Let_def not_configured_fault)
  have ff: "th_state (ConfigureFeedForward env p len st) = HFault" for p len
    using assms by (simp add: ConfigureFeedForward_def Let_def)
  have cmd: "th_state (Command env p len st) =
      (if len = 3 \<and> command_of (p ! 0) = CmdResetFault \<and> LinkAlive st
          \<and> fst (SampleTemperature env st) then HOff else HFault)" for p len
    using assms
    by (cases "command_of (p ! 0)")
      (simp_all add: Command_def Let_def command_off_def command_suspend_def command_on_fault
        command_resetFault_state)
  show ?thesis
    using assms Tick_fault Thermal_Spin_fault
    by (cases "ftype fr")
      (simp_all add: HandleFrame_def Let_def is_reset_command_def th ma mb mc ch ff cmd len)
qed

section \<open>The link timeout\<close>

definition elapsed :: "Lpc \<Rightarrow> nat" where
  "elapsed st = unat (th_millisTicks st - th_lastHostHeartbeat st)"

lemma LinkAlive_elapsed: "LinkAlive st \<longleftrightarrow> elapsed st \<le> 2500"
  by (simp add: LinkAlive_def elapsed_def LinkTimeoutMillis_def word_le_nat_alt)

lemma elapsed_step:
  "elapsed st < 4294967295 \<Longrightarrow>
     unat (th_millisTicks st + 1 - th_lastHostHeartbeat st) = Suc (elapsed st)"
proof -
  assume a: "elapsed st < 4294967295"
  have "th_millisTicks st + 1 - th_lastHostHeartbeat st
      = (th_millisTicks st - th_lastHostHeartbeat st) + 1" by simp
  moreover have "unat ((th_millisTicks st - th_lastHostHeartbeat st) + 1)
      = elapsed st + unat (1 :: u32)"
    using a unfolding elapsed_def by (intro unat_add_small) simp
  ultimately show ?thesis by (simp only: unsigned_1 Suc_eq_plus1)
qed

lemma Tick_eval:
  assumes "elapsed st < 4294967295"
  shows "Tick env st = (if Active st \<and> 2500 \<le> elapsed st
    then SetFault env LinkTimeout
      (st\<lparr>th_millisTicks := th_millisTicks st + 1, th_linkTimeoutLatched := True\<rparr>)
    else st\<lparr>th_millisTicks := th_millisTicks st + 1\<rparr>)"
proof -
  have "LinkTimeoutMillis < th_millisTicks st + 1 - th_lastHostHeartbeat st \<longleftrightarrow> 2500 \<le> elapsed st"
    using elapsed_step [OF assms] by (auto simp: word_less_nat_alt LinkTimeoutMillis_def)
  then show ?thesis by (simp add: Tick_def Let_def Active_def)
qed

definition timed_out :: "Lpc \<Rightarrow> bool" where
  "timed_out st \<longleftrightarrow> th_state st = HFault \<and> th_error st = LinkTimeout \<and> th_linkTimeoutLatched st
     \<and> heater_off (th_hw st)"

lemma Tick_timed_out: "timed_out st \<Longrightarrow> timed_out (Tick env st)"
  by (simp add: timed_out_def Tick_def Let_def Active_def state_order)

text \<open>
  C10. The link timeout. While the heater is active and no heartbeat arrives, the timer interrupt
  alone decides: until 2500 milliseconds after the last heartbeat nothing but the clock changes;
  at millisecond 2501 the interrupt latches the timeout, switches the output off and enters the
  fault state with the link timeout error, and there it stays for any number of further ticks.
\<close>

theorem link_timeout_exact:
  assumes "Active st" and "LinkAlive st"
  shows "if elapsed st + n \<le> 2500
    then ticks env n st = st\<lparr>th_millisTicks := th_millisTicks st + word_of_nat n\<rparr>
    else timed_out (ticks env n st)"
proof -
  have e: "elapsed st \<le> 2500" using assms(2) by (simp add: LinkAlive_elapsed)
  have early: "ticks env n st = st\<lparr>th_millisTicks := th_millisTicks st + word_of_nat n\<rparr>
      \<and> elapsed (ticks env n st) = elapsed st + n" if "elapsed st + n \<le> 2500" for n
    using that
  proof (induction n)
    case 0
    then show ?case by (simp add: ticks_def)
  next
    case (Suc n)
    define s where "s = ticks env n st"
    have s: "s = st\<lparr>th_millisTicks := th_millisTicks st + word_of_nat n\<rparr>" "elapsed s = elapsed st + n"
      using Suc unfolding s_def by linarith+
    have "Tick env s = s\<lparr>th_millisTicks := th_millisTicks s + 1\<rparr>"
      using Tick_eval [of s env] Suc.prems s(2) by simp
    moreover have "unat (th_millisTicks s + 1 - th_lastHostHeartbeat s) = Suc (elapsed s)"
      using Suc.prems s(2) by (intro elapsed_step) simp
    ultimately show ?case
      using s by (simp add: ticks_def s_def [unfolded ticks_def, symmetric] elapsed_def ac_simps)
  qed
  show ?thesis
  proof (cases "elapsed st + n \<le> 2500")
    case False
    define k where "k = 2500 - elapsed st"
    define s where "s = ticks env k st"
    have k: "elapsed st + k = 2500" using e by (simp add: k_def)
    have s: "Active s" "elapsed s = 2500"
    proof -
      have "s = st\<lparr>th_millisTicks := th_millisTicks st + word_of_nat k\<rparr>"
        using early [of k] k by (simp add: s_def)
      then show "Active s" using assms(1) by (simp add: Active_def)
      show "elapsed s = 2500" using early [of k] k unfolding s_def by linarith
    qed
    have "timed_out (Tick env s)"
      using s by (simp add: Tick_eval timed_out_def)
    moreover have "timed_out (ticks env j t)" if "timed_out t" for j t
      using that by (induction j) (simp_all add: ticks_def Tick_timed_out)
    ultimately have "timed_out (ticks env (n - Suc k) (Tick env s))" by blast
    moreover have "ticks env (n - Suc k) (Tick env s) = ticks env n st"
    proof -
      have "n = (n - Suc k) + Suc k" using False k by linarith
      then show ?thesis unfolding ticks_def s_def
        by (metis comp_apply funpow.simps(2) funpow_add)
    qed
    ultimately show ?thesis using False by simp
  qed (use early in simp)
qed

theorem link_timeout_exact_witness:
  "timed_out (ticks dead_env 2600 (undefined\<lparr>th_state := HHeating, th_millisTicks := 100,
     th_lastHostHeartbeat := 0\<rparr>))"
  using link_timeout_exact [of "undefined\<lparr>th_state := HHeating, th_millisTicks := 100,
     th_lastHostHeartbeat := 0\<rparr>" 2600 dead_env]
  by (simp add: Active_def state_order LinkAlive_def LinkTimeoutMillis_def elapsed_def)

section \<open>Temperature limits and failing sensors\<close>

lemma Control_returns:
  assumes "control_sample env st = (good, d, gd, st1)" and "control_checks env good st1 = Inl st2"
  shows "Control env st = st2"
  using assms by (simp add: Control_def)

definition over_limits :: "Lpc \<Rightarrow> bool" where
  "over_limits st \<longleftrightarrow> f_gt (th_temperature st) (th_upperLimit st)"

definition under_limits :: "Lpc \<Rightarrow> bool" where
  "under_limits st \<longleftrightarrow> f_gt (th_lowerLimit st) (f_add AbsoluteZero f1)
     \<and> f_lt (th_temperature st) (th_lowerLimit st)"

lemma sample_limits:
  assumes "SampleTemperature env st = (g, st')"
  shows "th_upperLimit st' = th_upperLimit st" "th_lowerLimit st' = th_lowerLimit st"
proof -
  have "unsample st st' = st"
    using SampleTemperature_sampled [of st env] assms by (simp add: sampled_def)
  then have "th_upperLimit (unsample st st') = th_upperLimit st"
    "th_lowerLimit (unsample st st') = th_lowerLimit st" by simp_all
  then show "th_upperLimit st' = th_upperLimit st" "th_lowerLimit st' = th_lowerLimit st"
    by (simp_all add: unsample_def)
qed

lemma control_sample_limits:
  assumes "control_sample env st = (good, d, gd, st1)"
  shows "th_upperLimit st1 = th_upperLimit st" "th_lowerLimit st1 = th_lowerLimit st"
proof -
  obtain g s where e: "SampleTemperature env st = (g, s)" by fastforce
  have "th_upperLimit (snd (snd (snd (control_sample env st)))) = th_upperLimit s
      \<and> th_lowerLimit (snd (snd (snd (control_sample env st)))) = th_lowerLimit s"
    by (simp add: control_sample_def e Let_def)
  then show "th_upperLimit st1 = th_upperLimit st" "th_lowerLimit st1 = th_lowerLimit st"
    using sample_limits [OF e] assms by simp_all
qed

text \<open>
  C38. A temperature outside the configured limits faults at once: in one control step of an
  active heater with a live link and a good reading, a temperature above the upper limit gives the
  over-temperature fault and one below the lower limit the under-temperature fault, output off.
\<close>

theorem temperature_limits_fault:
  assumes "Active st" and "LinkAlive st" and "SampleTemperature env st = (True, smp)"
  shows "(over_limits smp \<longrightarrow> th_state (Control env st) = HFault
        \<and> th_error (Control env st) = OverTemperature \<and> heater_off (th_hw (Control env st)))
    \<and> (\<not> over_limits smp \<and> under_limits smp \<longrightarrow> th_state (Control env st) = HFault
        \<and> th_error (Control env st) = UnderTemperature \<and> heater_off (th_hw (Control env st)))"
proof -
  obtain good d gd st1 where s: "control_sample env st = (good, d, gd, st1)" by (metis surj_pair)
  note f = control_sample_frame [OF s] and lim = control_sample_limits [OF s]
  have st1: "Active st1" "LinkAlive st1" "good" "th_temperature st1 = th_temperature smp"
    "th_upperLimit st1 = th_upperLimit smp" "th_lowerLimit st1 = th_lowerLimit smp"
    using assms f(2,3,7,11) lim sample_limits [OF assms(3)] by simp_all
  have "over_limits smp \<Longrightarrow> Control env st = SetFault env OverTemperature st1"
    using st1 by (intro Control_returns [OF s]) (simp add: control_checks_def over_limits_def)
  moreover have "\<not> over_limits smp \<and> under_limits smp
      \<Longrightarrow> Control env st = SetFault env UnderTemperature st1"
    using st1 by (intro Control_returns [OF s])
      (simp add: control_checks_def over_limits_def under_limits_def)
  ultimately show ?thesis by auto
qed

definition dead_adc :: "Env \<Rightarrow> bool" where
  "dead_adc env \<longleftrightarrow> (\<forall>k. e_adc env k AND push_bit 31 1 = 0)"

lemma adc_wait_dead: "\<forall>k. adc k AND push_bit 31 1 = 0 \<Longrightarrow> fst (adc_wait adc n pos) = None"
proof (induction n arbitrary: pos)
  case (Suc n)
  have "adc pos AND push_bit 31 1 = 0" using Suc.prems by blast
  then show ?case using Suc by (simp only: adc_wait.simps Let_def) simp
qed simp

lemma sample_dead:
  assumes "dead_adc env" and "th_thermistorConfigured st"
  shows "\<exists>st'. SampleTemperature env st = (False, st') \<and> th_error st' = AdcTimeout"
proof -
  have "fst (ReadAdc env st) = None"
    using adc_wait_dead [of "e_adc env"] assms(1)
    by (simp add: ReadAdc_def Let_def dead_adc_def split: prod.splits)
      (metis fst_conv)
  then obtain s where "ReadAdc env st = (None, s)" by (metis prod.collapse)
  then have "sum_readings env 8 0 st = (None, s)" by (simp add: eval_nat_numeral)
  then show ?thesis using assms(2) by (simp add: SampleTemperature_def)
qed

text \<open>One control step of an active heater whose sensor does not answer.\<close>

lemma Control_dead:
  assumes "dead_adc env" "Active st" "LinkAlive st" "th_thermistorConfigured st"
  shows "if th_maxBadReadings st < (if th_badReadings st < 0xFF then th_badReadings st + 1
             else th_badReadings st)
    then th_state (Control env st) = HFault \<and> th_error (Control env st) = AdcTimeout
      \<and> heater_off (th_hw (Control env st))
    else th_state (Control env st) = th_state st \<and> LinkAlive (Control env st)
      \<and> th_thermistorConfigured (Control env st)
      \<and> th_maxBadReadings (Control env st) = th_maxBadReadings st
      \<and> th_badReadings (Control env st) = (if th_badReadings st < 0xFF then th_badReadings st + 1
             else th_badReadings st)
      \<and> heater_view (th_hw (Control env st)) = heater_view (th_hw st)"
proof -
  obtain good d gd st1 where s: "control_sample env st = (good, d, gd, st1)" by (metis surj_pair)
  note f = control_sample_frame [OF s]
  obtain smp where smp: "SampleTemperature env st = (False, smp)" "th_error smp = AdcTimeout"
    using sample_dead [OF assms(1,4)] by blast
  have bad: "\<not> good" using f(7) smp by simp
  have nf: "th_state st \<noteq> HFault" using assms(2) by (auto simp: Active_def state_order)
  have err: "th_error st1 = AdcTimeout" using f(10) smp nf by simp
  have cfg: "th_thermistorConfigured st1"
  proof -
    have "th_thermistorConfigured (snd (snd (snd (control_sample env st)))) = th_thermistorConfigured smp"
      by (simp add: control_sample_def smp Let_def)
    then show ?thesis using s sample_sel(11) [OF smp(1)] assms(4) by simp
  qed
  have live: "Active st1" "LinkAlive st1" using f(2,3) assms by simp_all
  show ?thesis
  proof (cases "th_maxBadReadings st < (if th_badReadings st < 0xFF then th_badReadings st + 1
             else th_badReadings st)")
    case True
    then have "Control env st = SetFault env AdcTimeout st1"
      using live bad f(5,6) err by (intro Control_returns [OF s]) (simp add: control_checks_def)
    then show ?thesis using True by simp
  next
    case False
    then have "Control env st = st1\<lparr>th_statusDirty := True\<rparr>"
      using live bad f(5,6) by (intro Control_returns [OF s]) (simp add: control_checks_def)
    then show ?thesis using False live bad f cfg by simp
  qed
qed

text \<open>What a run of control steps with a dead sensor keeps while no fault is raised.\<close>

definition blind :: "Lpc \<Rightarrow> Lpc \<Rightarrow> bool" where
  "blind st s \<longleftrightarrow> th_state s = th_state st \<and> LinkAlive s \<and> th_thermistorConfigured s
     \<and> th_maxBadReadings s = th_maxBadReadings st \<and> heater_view (th_hw s) = heater_view (th_hw st)"

definition sensor_fault :: "Lpc \<Rightarrow> bool" where
  "sensor_fault s \<longleftrightarrow> th_state s = HFault \<and> th_error s = AdcTimeout \<and> heater_off (th_hw s)"

lemma Control_blind:
  assumes "dead_adc env" "Active st" "LinkAlive st" "th_thermistorConfigured st"
    and "\<not> th_maxBadReadings st < (if th_badReadings st < 0xFF then th_badReadings st + 1
             else th_badReadings st)"
  shows "blind st (Control env st) \<and> th_badReadings (Control env st)
    = (if th_badReadings st < 0xFF then th_badReadings st + 1 else th_badReadings st)"
  using Control_dead [OF assms(1-4)] assms(5) by (simp add: blind_def)

text \<open>
  C37. A sensor that stops answering is detected, when the limit on bad readings is below 255:
  the heater goes on exactly as long as the count of consecutive bad readings is within the limit
  and faults, output off, with the next one.
\<close>

theorem sensor_failure_faults:
  assumes "dead_adc env" "Active st" "LinkAlive st" "th_thermistorConfigured st"
    and "th_badReadings st \<le> th_maxBadReadings st" and "th_maxBadReadings st < 255"
  shows "if unat (th_badReadings st) + n \<le> unat (th_maxBadReadings st)
    then blind st ((Control env ^^ n) st) else sensor_fault ((Control env ^^ n) st)"
proof (induction n)
  case 0
  then show ?case using assms by (simp add: blind_def word_le_nat_alt)
next
  case (Suc n)
  define m where "m = unat (th_maxBadReadings st)"
  have m: "m < 255" using assms(6) by (simp add: m_def word_less_nat_alt)
  have run: "blind st ((Control env ^^ n) st)
      \<and> th_badReadings ((Control env ^^ n) st) = th_badReadings st + word_of_nat n"
    if "unat (th_badReadings st) + n \<le> m" for n
    using that
  proof (induction n)
    case 0
    then show ?case using assms by (simp add: blind_def)
  next
    case (Suc k)
    define s where "s = (Control env ^^ k) st"
    have s: "blind st s" "th_badReadings s = th_badReadings st + word_of_nat k"
      using Suc by (simp_all add: s_def)
    have k: "unat (word_of_nat k :: u8) = k" using Suc.prems m by (intro unat_of_nat_small) simp
    have b: "unat (th_badReadings s) = unat (th_badReadings st) + k"
      unfolding s(2) using Suc.prems m k by (subst unat_add_small) simp_all
    have b1: "unat (th_badReadings s + 1) = unat (th_badReadings s) + 1"
      using b Suc.prems m by (subst unat_add_small) simp_all
    have ok: "\<not> th_maxBadReadings s < (if th_badReadings s < 0xFF then th_badReadings s + 1
             else th_badReadings s)"
      using s(1) b b1 Suc.prems m by (auto simp: word_less_nat_alt m_def blind_def)
    have lt: "th_badReadings s < 0xFF" using b Suc.prems m by (simp add: word_less_nat_alt)
    have "Active s" "LinkAlive s" "th_thermistorConfigured s"
      using s(1) assms(2) by (simp_all add: blind_def Active_def)
    from Control_blind [OF assms(1) this ok] show ?case
      using s lt by (simp add: blind_def s_def [symmetric] ac_simps)
  qed
  show ?case
  proof (cases "unat (th_badReadings st) + Suc n \<le> m")
    case True
    then show ?thesis using run [of "Suc n"] by (simp add: m_def)
  next
    case False
    show ?thesis
    proof (cases "unat (th_badReadings st) + n \<le> m")
      case True
      define s where "s = (Control env ^^ n) st"
      have s: "blind st s" "th_badReadings s = th_badReadings st + word_of_nat n"
        using run [OF True] by (simp_all add: s_def)
      have k: "unat (word_of_nat n :: u8) = n" using True m by (intro unat_of_nat_small) simp
      have b: "unat (th_badReadings s) = m"
        unfolding s(2) using True False m k by (subst unat_add_small) simp_all
      have b1: "unat (th_badReadings s + 1) = m + 1"
        using b m by (subst unat_add_small) simp_all
      have "th_badReadings s < 0xFF" using b m by (simp add: word_less_nat_alt)
      moreover have "th_maxBadReadings s < th_badReadings s + 1"
        using b1 s(1) by (simp add: word_less_nat_alt m_def blind_def)
      moreover have "Active s" "LinkAlive s" "th_thermistorConfigured s"
        using s(1) assms(2) by (simp_all add: blind_def Active_def)
      ultimately have "sensor_fault (Control env s)"
        using Control_dead [OF assms(1), of s] by (simp add: sensor_fault_def)
      then show ?thesis using False by (simp add: s_def m_def)
    next
      case out: False
      then have "sensor_fault ((Control env ^^ n) st)" using Suc by (simp add: m_def)
      then show ?thesis
        using out Control_fault by (simp add: sensor_fault_def m_def)
    qed
  qed
qed

text \<open>
  With the limit on bad readings at 255, the largest value the protocol carries, a dead
  sensor is never detected: the counter saturates at 255 and is compared with \<open>>\<close>, so however many
  control steps run, no fault is raised and the heater output keeps the PWM it had.
\<close>

theorem sensor_failure_undetected:
  assumes "dead_adc env" "Active st" "LinkAlive st" "th_thermistorConfigured st"
    and "th_maxBadReadings st = 255"
  shows "th_state ((Control env ^^ n) st) = th_state st
    \<and> heater_view (th_hw ((Control env ^^ n) st)) = heater_view (th_hw st)"
proof -
  have "blind st ((Control env ^^ n) st)"
  proof (induction n)
    case 0
    then show ?case using assms by (simp add: blind_def)
  next
    case (Suc n)
    define s where "s = (Control env ^^ n) st"
    have s: "blind st s" using Suc by (simp add: s_def)
    have "\<not> th_maxBadReadings s < x" for x
      using s assms(5) u8_bound [of x] by (simp add: blind_def word_less_nat_alt)
    then show ?case
      using Control_blind [OF assms(1), of s] s assms(2)
      by (simp add: blind_def Active_def s_def [symmetric])
  qed
  then show ?thesis by (simp add: blind_def)
qed

definition heating_lpc :: "u8 \<Rightarrow> Lpc" where
  "heating_lpc maxBad = undefined\<lparr>th_state := HHeating, th_millisTicks := 0, th_lastHostHeartbeat := 0,
     th_thermistorConfigured := True, th_badReadings := 0, th_maxBadReadings := maxBad\<rparr>"

lemma heating_lpc_ok:
  "dead_adc dead_env" "Active (heating_lpc k)" "LinkAlive (heating_lpc k)"
  "th_thermistorConfigured (heating_lpc k)" "th_badReadings (heating_lpc k) = 0"
  "th_maxBadReadings (heating_lpc k) = k" "th_state (heating_lpc k) = HHeating"
  by (simp_all add: heating_lpc_def dead_env_def dead_adc_def Active_def LinkAlive_def state_order
      LinkTimeoutMillis_def)

theorem sensor_failure_faults_witness:
  "sensor_fault ((Control dead_env ^^ 4) (heating_lpc 3))"
  using sensor_failure_faults [of dead_env "heating_lpc 3" 4] by (simp add: heating_lpc_ok)

theorem sensor_failure_undetected_witness:
  "th_state ((Control dead_env ^^ 100000) (heating_lpc 255)) = HHeating"
  using sensor_failure_undetected [of dead_env "heating_lpc 255" 100000]
  by (simp add: heating_lpc_ok)

text \<open>A converter that always answers with the same reading.\<close>

lemma sum_readings_const:
  assumes "\<And>k. e_adc env k = v" and "v AND push_bit 31 1 \<noteq> 0"
  shows "\<exists>h pos. sum_readings env n acc st
    = (Some (acc + word_of_nat n * ucast (ucast (drop_bit 6 v AND 0x03FF) :: u16)),
       st\<lparr>th_adcPos := pos, th_hw := h\<rparr>)"
proof (induction n arbitrary: acc st)
  case 0
  have "sum_readings env 0 acc st = (Some acc, st\<lparr>th_adcPos := th_adcPos st, th_hw := th_hw st\<rparr>)" by simp
  then show ?case by (metis add.right_neutral mult_zero_left of_nat_0)
next
  case (Suc n)
  let ?r = "ucast (drop_bit 6 v AND 0x03FF) :: u16"
  have "adc_wait (e_adc env) (Suc m) pos = (Some ?r, Suc pos)" for m pos
    using assms by (simp only: adc_wait.simps Let_def) simp
  then have "adc_wait (e_adc env) 10000 pos = (Some ?r, Suc pos)" for pos
    by (metis numeral_eq_Suc)
  then obtain h pos where "ReadAdc env st = (Some ?r, st\<lparr>th_adcPos := pos, th_hw := h\<rparr>)"
    by (simp add: ReadAdc_def Let_def set_hw_def)
  moreover obtain h' pos' where "sum_readings env n (acc + ucast ?r) (st\<lparr>th_adcPos := pos, th_hw := h\<rparr>)
      = (Some (acc + ucast ?r + word_of_nat n * ucast ?r),
         st\<lparr>th_adcPos := pos, th_hw := h\<rparr>\<lparr>th_adcPos := pos', th_hw := h'\<rparr>)"
    using Suc by blast
  ultimately have "sum_readings env (Suc n) acc st
      = (Some (acc + word_of_nat (Suc n) * ucast ?r), st\<lparr>th_adcPos := pos', th_hw := h'\<rparr>)"
    by (simp add: algebra_simps)
  then show ?case by blast
qed

definition hot_env :: Env where
  "hot_env = dead_env\<lparr>e_logf := (\<lambda>_. 0), e_adc := (\<lambda>_. 0x80008000)\<rparr>"

definition hot_lpc :: Lpc where
  "hot_lpc = (heating_lpc 3)\<lparr>th_pullupR := f1, th_shA := 0x3B000000, th_shB := f1, th_shC := f1,
     th_upperLimit := f_lit 100 1, th_lowerLimit := AbsoluteZero\<rparr>"

text \<open>With \<open>logf\<close> yielding zero and \<open>shA = 1/512\<close> the thermistor reads 512 K, 238.85 degrees.\<close>

lemma hot_sample:
  "\<exists>smp. SampleTemperature hot_env hot_lpc = (True, smp) \<and> over_limits smp"
proof -
  have "e_adc hot_env k = 0x80008000" for k by (simp add: hot_env_def)
  moreover have "(0x80008000 :: u32) AND push_bit 31 1 \<noteq> 0" by simp
  ultimately obtain h pos where sr: "sum_readings hot_env 8 0 hot_lpc
      = (Some (0 + word_of_nat 8 * ucast (ucast (drop_bit 6 (0x80008000 :: u32) AND 0x03FF) :: u16)),
         hot_lpc\<lparr>th_adcPos := pos, th_hw := h\<rparr>)"
    using sum_readings_const [where env = hot_env and v = "0x80008000" and n = 8 and acc = 0 and st = hot_lpc]
    by blast
  have t: "f_add (f_div f1 0x3B000000) AbsoluteZero = 0x436ED99A"
    by (simp add: f1_val AbsoluteZero_val f_add_def f_div_def round_mag_def round_shift_def bitlen.simps
        rne_cases mk_float_def Let_def INF_BITS_def f_isnan_def f_isinf_def f_iszero_def fbits_def
        fsign_def fint_def fmag_def mag_of_def)
  have r: "ntc_recipT (hot_lpc\<lparr>th_adcPos := pos, th_hw := h, th_lastRawAdc := 512\<rparr>) 0 = 0x3B000000"
    by (simp add: ntc_recipT_def hot_lpc_def f1_val f_add_def f_mul_def round_mag_def round_shift_def
        bitlen.simps rne_cases mk_float_def Let_def INF_BITS_def f_isnan_def f_isinf_def f_iszero_def
        fbits_def fsign_def fint_def fmag_def mag_of_def)
  have c: "f_gt 0x3B000000 f0" "f_isfinite 0x436ED99A"
    "\<not> f_lt 0x436ED99A MinimumConnectedTemperature" "f_gt 0x436ED99A (f_lit 100 (Suc 0))"
    by (simp_all add: f_lt_def f_isfinite_def f_isnan_def fkey_def fbits_def fsign_def INF_BITS_def
        MinimumConnectedTemperature_def f_neg_def f_lit_def round_mag_def round_shift_def bitlen.simps
        rne_cases mk_float_def Let_def)
  have cfg: "th_thermistorConfigured hot_lpc" "th_upperLimit hot_lpc = f_lit 100 (Suc 0)"
    "th_shA hot_lpc = 0x3B000000" by (simp_all add: hot_lpc_def heating_lpc_def)
  have lg: "e_logf hot_env x = 0" for x by (simp add: hot_env_def)
  show ?thesis
    using c by (simp add: SampleTemperature_def sr cfg Let_def lg r t over_limits_def)
qed

theorem temperature_limits_fault_witness:
  "th_error (Control hot_env hot_lpc) = OverTemperature \<and> heater_off (th_hw (Control hot_env hot_lpc))"
proof -
  have "Active hot_lpc" "LinkAlive hot_lpc"
    by (simp_all add: hot_lpc_def heating_lpc_def Active_def LinkAlive_def state_order
        LinkTimeoutMillis_def)
  then show ?thesis using hot_sample temperature_limits_fault by blast
qed

end
