(* ===== verification/LpcMain.thy ===== *)
theory LpcMain
  imports LpcThermalProps
begin

text \<open>
  The coprocessor as a whole: \<open>LpcFirmware/src/main.cpp\<close> with the UART of
  \<open>LpcFirmware/src/Uart.cpp\<close>. \<open>Board\<close> is the state of \<open>main\<close> over the static state \<open>Lpc\<close>;
  \<open>bd_out\<close> collects the bytes written to the UART. The endless loop is the step relation
  \<open>board_step\<close>: one received byte through the inner loop body, one pass through the rest of the
  loop, or the timer interrupt, in any order. Pin levels may differ from step to step; within one
  pass of the reporting loop they are constant.
\<close>

record Board =
  bd_lpc :: Lpc
  bd_decoder :: Decoder
  bd_needsConfiguration :: bool
  bd_out :: "u8 list"

definition Uart_Init :: "Hw \<Rightarrow> Hw" where
  "Uart_Init hw =
    (let hw1 = reg_write 0x40048078 1 (reg_write 0x40048074 1 (reg_write 0x40048074 0
                 (reg_write 0x40048070 0 hw)));
         hw2 = reg_write LPC_SYSCON_SYSAHBCLKCTRL
                 (regs hw1 LPC_SYSCON_SYSAHBCLKCTRL OR (push_bit 16 1 OR push_bit 12 1)) hw1;
         hw3 = reg_write 0x40048098 1 hw2;
         hw4 = reg_write 0x400440A4 ((regs hw3 0x400440A4 AND NOT 0x07) OR 0x01) hw3;
         hw5 = reg_write 0x400440A8 ((regs hw4 0x400440A8 AND NOT 0x07) OR 0x01) hw4
     in reg_write 0x40008030 0x80 (reg_write 0x40008008 0x07 (reg_write 0x4000800C 0x03
          (reg_write 0x40008028 0x85 (reg_write 0x40008004 0 (reg_write 0x40008000 4
          (reg_write 0x4000800C 0x83 hw5)))))))"

definition Uart_Write :: "u8 list \<Rightarrow> Board \<Rightarrow> Board" where
  "Uart_Write data b = b\<lparr>bd_out := bd_out b @ data\<rparr>"

definition Send :: "MessageType \<Rightarrow> u8 list \<Rightarrow> Board \<Rightarrow> Board" where
  "Send t p b = Uart_Write (Encode t p (word_of_nat (length p))) b"

definition on_lpc :: "(Lpc \<Rightarrow> Lpc) \<Rightarrow> Board \<Rightarrow> Board" where
  "on_lpc f b = b\<lparr>bd_lpc := f (bd_lpc b)\<rparr>"

text \<open>The part of \<open>main\<close> before the loop.\<close>

definition boot :: "Env \<Rightarrow> (u8 \<Rightarrow> bool) \<Rightarrow> Lpc \<Rightarrow> Board" where
  "boot env lvl st =
    \<lparr>bd_lpc = Thermal_Init env (set_hw (Gpio_Init lvl) (set_hw Uart_Init st)),
     bd_decoder = fresh_decoder, bd_needsConfiguration = True, bd_out = []\<rparr>"

text \<open>The switch over the type of a received frame.\<close>

definition dispatch :: "Env \<Rightarrow> (u8 \<Rightarrow> bool) \<Rightarrow> Frame \<Rightarrow> Board \<Rightarrow> Board" where
  "dispatch env lvl fr b =
    (let p = payload fr; len = flength fr in
     case ftype fr of
       Ping \<Rightarrow>
         if len = 1 \<and> p ! 0 = Version then
           Send Pong [Version, if bd_needsConfiguration b then 1 else 0] (on_lpc HostHeartbeat b)
         else b
     | ConfigurationReset \<Rightarrow>
         if len = 0 then
           on_lpc (ResetConfiguration env)
             (on_lpc (set_hw (Gpio_Init lvl)) (b\<lparr>bd_needsConfiguration := True\<rparr>))
         else b
     | ConfigurationComplete \<Rightarrow>
         if len = 0 then b\<lparr>bd_needsConfiguration := False\<rparr> else b
     | GpioConfig \<Rightarrow>
         if len = 3 \<and> p ! 0 \<noteq> PinHeater then
           on_lpc (set_hw (\<lambda>hw. snd (Configure lvl (p ! 0) (mode_of (p ! 1)) (p ! 2 \<noteq> 0) hw))) b
         else b
     | GpioWrite \<Rightarrow>
         if len = 2 \<and> p ! 0 \<noteq> PinHeater then
           on_lpc (set_hw (\<lambda>hw. snd (Gpio_Write (p ! 0) (p ! 1 \<noteq> 0) hw))) b
         else b
     | PwmWrite \<Rightarrow>
         if len = 5 \<and> p ! 0 \<noteq> PinHeater then
           on_lpc (set_hw (\<lambda>hw. snd (Pwm_Set (p ! 0) (le16 (p ! 1) (p ! 2)) (le16 (p ! 3) (p ! 4)) hw))) b
         else b
     | _ \<Rightarrow> on_lpc (HandleFrame env fr) b)"

text \<open>The body of \<open>while (Uart::Read(byte))\<close>.\<close>

definition rx_byte :: "Env \<Rightarrow> (u8 \<Rightarrow> bool) \<Rightarrow> u8 \<Rightarrow> Board \<Rightarrow> Board" where
  "rx_byte env lvl byte b =
    (let b1 = on_lpc (Thermal_Spin env) b;
         (d, r) = feed (bd_decoder b1) byte;
         b2 = b1\<lparr>bd_decoder := d\<rparr>
     in case r of None \<Rightarrow> b2 | Some fr \<Rightarrow> dispatch env lvl fr b2)"

text \<open>
  The rest of the loop. There are eight pins, so nine polls always end the reporting loop
  (\<open>poll_all_ends\<close>).
\<close>

fun send_events :: "(u8 \<times> bool) list \<Rightarrow> Board \<Rightarrow> Board" where
  "send_events [] b = b"
| "send_events ((pin, v) # es) b =
     send_events es (Send GpioState [pin, if v then 1 else 0] b)"

definition idle_pass :: "Env \<Rightarrow> (u8 \<Rightarrow> bool) \<Rightarrow> Board \<Rightarrow> Board" where
  "idle_pass env lvl b =
    (let b1 = on_lpc (Thermal_Spin env) b in
     if bd_needsConfiguration b1 then b1
     else
       let (es, hw) = poll_all 9 lvl (th_hw (bd_lpc b1));
           b2 = send_events (case es of None \<Rightarrow> [] | Some es' \<Rightarrow> es') (on_lpc (set_hw (\<lambda>_. hw)) b1);
           (r, st) = TakeStatus env (bd_lpc b2);
           b3 = b2\<lparr>bd_lpc := st\<rparr>
       in case r of None \<Rightarrow> b3 | Some p \<Rightarrow> Send ThermalStatusMsg p b3)"

inductive board_step :: "Env \<Rightarrow> Board \<Rightarrow> Board \<Rightarrow> bool" for env where
  board_tick: "board_step env b (on_lpc (Tick env) b)"
| board_rx: "board_step env b (rx_byte env lvl byte b)"
| board_idle: "board_step env b (idle_pass env lvl b)"

text \<open>At reset the static variables are zero, whatever the registers hold.\<close>

definition board_init :: "Env \<Rightarrow> Board \<Rightarrow> bool" where
  "board_init env b \<longleftrightarrow> (\<exists>lvl st. storage_ok st \<and> b = boot env lvl st)"

section \<open>The invariant of the board\<close>

definition board_msg :: "MessageType \<times> u8 list \<Rightarrow> bool" where
  "board_msg m \<longleftrightarrow> msg_sendable m
     \<and> ((fst m = Pong \<and> length (snd m) = 2) \<or> (fst m = GpioState \<and> length (snd m) = 2)
      \<or> (fst m = ThermalStatusMsg \<and> length (snd m) = 8))"

definition board_ok :: "Board \<Rightarrow> bool" where
  "board_ok b \<longleftrightarrow> thermal_ok (bd_lpc b) \<and> dec_live (bd_decoder b)
     \<and> (\<exists>ms. bd_out b = concat (map enc_msg ms) \<and> list_all board_msg ms)"

lemma Send_sel [simp]:
  "bd_lpc (Send t p b) = bd_lpc b" "bd_decoder (Send t p b) = bd_decoder b"
  "bd_needsConfiguration (Send t p b) = bd_needsConfiguration b"
  "bd_out (Send t p b) = bd_out b @ enc_msg (t, p)"
  by (simp_all add: Send_def Uart_Write_def enc_msg_def)

lemma on_lpc_sel [simp]:
  "bd_lpc (on_lpc f b) = f (bd_lpc b)" "bd_decoder (on_lpc f b) = bd_decoder b"
  "bd_needsConfiguration (on_lpc f b) = bd_needsConfiguration b" "bd_out (on_lpc f b) = bd_out b"
  by (simp_all add: on_lpc_def)

lemma board_ok_on_lpc:
  "board_ok b \<Longrightarrow> thermal_ok (f (bd_lpc b)) \<Longrightarrow> board_ok (on_lpc f b)"
  by (simp add: board_ok_def)

lemma board_ok_Send:
  assumes "board_ok b" and "board_msg (t, p)"
  shows "board_ok (Send t p b)"
proof -
  obtain ms where "bd_out b = concat (map enc_msg ms)" "list_all board_msg ms"
    using assms(1) by (auto simp: board_ok_def)
  then have "bd_out (Send t p b) = concat (map enc_msg (ms @ [(t, p)]))"
    "list_all board_msg (ms @ [(t, p)])" using assms(2) by simp_all
  then show ?thesis using assms(1) unfolding board_ok_def by (metis Send_sel(1,2))
qed

lemma board_msg_pong: "board_msg (Pong, [x, y])"
  and board_msg_gpio: "board_msg (GpioState, [x, y])"
  and board_msg_status: "length p = 8 \<Longrightarrow> board_msg (ThermalStatusMsg, p)"
  by (simp_all add: board_msg_def msg_sendable_def msg_ok_def MaxPayload_def)

lemma set_other_hw_ok:
  assumes "thermal_ok st" "heater_view (f (th_hw st)) = heater_view (th_hw st)"
    "length (pstates (f (th_hw st))) = length (pstates (th_hw st))"
  shows "thermal_ok (set_hw f st)"
  unfolding set_hw_def using assms by (rule other_hw_ok)

lemma dispatch_ok:
  assumes "board_ok b"
  shows "board_ok (dispatch env lvl fr b)"
proof -
  have th: "thermal_ok (bd_lpc b)" using assms by (simp add: board_ok_def)
  have "storage_ok (set_hw (Gpio_Init lvl) (bd_lpc b))"
    using thermal_storage [OF th] by (simp add: storage_ok_def set_hw_def)
  then have "board_ok (on_lpc (ResetConfiguration env)
      (on_lpc (set_hw (Gpio_Init lvl)) (b\<lparr>bd_needsConfiguration := True\<rparr>)))"
    using assms by (simp add: board_ok_def ResetConfiguration_ok)
  moreover have "board_ok (Send Pong [Version, x] (on_lpc HostHeartbeat b))" for x
    using assms th by (intro board_ok_Send board_ok_on_lpc HostHeartbeat_ok board_msg_pong)
  moreover have "board_ok (on_lpc (HandleFrame env fr) b)"
    using assms th by (intro board_ok_on_lpc HandleFrame_ok)
  moreover have "board_ok (b\<lparr>bd_needsConfiguration := False\<rparr>)"
    using assms by (simp add: board_ok_def)
  moreover have "pin \<noteq> PinHeater \<Longrightarrow>
      board_ok (on_lpc (set_hw (\<lambda>hw. snd (Configure lvl pin mode v hw))) b)
    \<and> board_ok (on_lpc (set_hw (\<lambda>hw. snd (Gpio_Write pin v hw))) b)
    \<and> board_ok (on_lpc (set_hw (\<lambda>hw. snd (Pwm_Set pin duty f hw))) b)" for pin mode v duty f
    using assms th
    by (auto intro!: board_ok_on_lpc set_other_hw_ok
        simp: Configure_other_view Gpio_Write_other_view Pwm_Set_other_view)
  ultimately show ?thesis
    using assms by (cases "ftype fr") (simp_all add: dispatch_def Let_def)
qed

lemma rx_byte_ok:
  assumes "board_ok b"
  shows "board_ok (rx_byte env lvl byte b)"
proof -
  define b1 where "b1 = on_lpc (Thermal_Spin env) b"
  have ok1: "board_ok b1"
    unfolding b1_def using assms by (intro board_ok_on_lpc Thermal_Spin_ok) (auto simp: board_ok_def)
  obtain d r where f: "feed (bd_decoder b1) byte = (d, r)" by fastforce
  have "dec_live d" using feed_dec_live [of "bd_decoder b1" byte] ok1 f by (simp add: board_ok_def)
  then have "board_ok (b1\<lparr>bd_decoder := d\<rparr>)" using ok1 by (simp add: board_ok_def)
  then show ?thesis
    by (cases r) (simp_all add: rx_byte_def b1_def [symmetric] f Let_def dispatch_ok)
qed

lemma send_events_sel [simp]:
  "bd_lpc (send_events es b) = bd_lpc b"
  by (induction es b rule: send_events.induct) simp_all

lemma send_events_ok: "board_ok b \<Longrightarrow> board_ok (send_events es b)"
  by (induction es b rule: send_events.induct) (simp_all add: board_ok_Send board_msg_gpio)

lemma poll_all_ends:
  assumes "length (pstates hw) = 8"
  shows "\<exists>hw'. poll_all 9 lvl hw = (Some (map (pin_event lvl) (pending lvl hw)), hw')
    \<and> heater_view hw' = heater_view hw \<and> length (pstates hw') = 8"
  using poll_all_pending [OF assms, of lvl 9] length_pending [of lvl hw]
  by (auto simp: heater_view_def)

lemma TakeStatus_length: "TakeStatus env st = (Some p, st') \<Longrightarrow> length p = 8"
  by (auto simp: TakeStatus_def Let_def split: if_splits)

lemma idle_pass_ok:
  assumes "board_ok b"
  shows "board_ok (idle_pass env lvl b)"
proof -
  define b1 where "b1 = on_lpc (Thermal_Spin env) b"
  have ok1: "board_ok b1"
    unfolding b1_def using assms by (intro board_ok_on_lpc Thermal_Spin_ok) (auto simp: board_ok_def)
  then have th: "thermal_ok (bd_lpc b1)" by (simp add: board_ok_def)
  then have len: "length (pstates (th_hw (bd_lpc b1))) = 8" by (simp add: thermal_ok_def data_ok_def)
  obtain hw where p: "poll_all 9 lvl (th_hw (bd_lpc b1))
      = (Some (map (pin_event lvl) (pending lvl (th_hw (bd_lpc b1)))), hw)"
    "heater_view hw = heater_view (th_hw (bd_lpc b1))" "length (pstates hw) = 8"
    using poll_all_ends [OF len] by blast
  define b2 where "b2 = send_events (map (pin_event lvl) (pending lvl (th_hw (bd_lpc b1))))
    (on_lpc (set_hw (\<lambda>_. hw)) b1)"
  have ok2: "board_ok b2"
    unfolding b2_def using ok1 th p len
    by (intro send_events_ok board_ok_on_lpc set_other_hw_ok) simp_all
  obtain r st where t: "TakeStatus env (bd_lpc b2) = (r, st)" by fastforce
  have ok3: "board_ok (b2\<lparr>bd_lpc := st\<rparr>)"
    using ok2 TakeStatus_ok [of "bd_lpc b2" env] t by (simp add: board_ok_def)
  have "idle_pass env lvl b = (if bd_needsConfiguration b1 then b1
    else case r of None \<Rightarrow> b2\<lparr>bd_lpc := st\<rparr> | Some p \<Rightarrow> Send ThermalStatusMsg p (b2\<lparr>bd_lpc := st\<rparr>))"
    unfolding idle_pass_def Let_def b1_def [symmetric] p(1) prod.case option.case
      b2_def [symmetric] t by (rule refl)
  then show ?thesis
    using ok1 ok3 t
    by (cases r) (simp_all add: board_ok_Send board_msg_status TakeStatus_length)
qed

lemma boot_ok: "storage_ok st \<Longrightarrow> board_ok (boot env lvl st)"
proof -
  assume "storage_ok st"
  then have "storage_ok (set_hw (Gpio_Init lvl) (set_hw Uart_Init st))"
    by (simp add: storage_ok_def set_hw_def Uart_Init_def Let_def)
  then have "thermal_ok (Thermal_Init env (set_hw (Gpio_Init lvl) (set_hw Uart_Init st)))"
    by (rule Thermal_Init_ok)
  then show ?thesis
    by (simp add: board_ok_def boot_def) (auto simp: dec_live_def fresh_decoder_def dec_ok_def intro: exI [of _ "[]"])
qed

interpretation board: inv_system "board_init env" "board_step env" board_ok for env
proof unfold_locales
  show "board_ok b" if "board_init env b" for b
    using that boot_ok by (auto simp: board_init_def)
  show "board_ok t" if "board_ok s" "board_step env s t" for s t
    using that(2)
  proof cases
    case board_tick
    have "thermal_ok (Tick env (bd_lpc s))" using that(1) by (simp add: board_ok_def Tick_ok)
    then show ?thesis using board_tick that(1) board_ok_on_lpc by blast
  qed (use that(1) rx_byte_ok idle_pass_ok in simp_all)
qed

section \<open>Properties of the board\<close>

text \<open>
  C1. The heater is safe. From power-up, through any sequence of received bytes, loop passes and
  timer interrupts: in every state the heater output is off, or the controller is in a heating
  state with the link to the host alive, no timeout latched, thermistor, heater and model
  configured, and an accepted thermal model.
\<close>

theorem heater_safe:
  assumes "board_init env b0" and "(board_step env)\<^sup>*\<^sup>* b0 b"
  shows "heater_off (th_hw (bd_lpc b))
    \<or> (Active (bd_lpc b) \<and> LinkAlive (bd_lpc b) \<and> \<not> th_linkTimeoutLatched (bd_lpc b)
       \<and> configured (bd_lpc b) \<and> ModelReady (th_model (bd_lpc b)))"
proof -
  have "board_ok b" using board.reachable_inv [OF assms] .
  then have "guard_ok (bd_lpc b)" "data_ok (bd_lpc b)"
    by (simp_all add: board_ok_def thermal_ok_def)
  then show ?thesis
    by (auto simp: guard_ok_def data_ok_def configured_def Active_def state_order)
qed

lemma board_reach:
  "(board_step env)\<^sup>*\<^sup>* b (on_lpc (Tick env) b)"
  "(board_step env)\<^sup>*\<^sup>* b (rx_byte env lvl byte b)"
  by (rule r_into_rtranclp, rule board_tick) (rule r_into_rtranclp, rule board_rx)

definition zero_lpc :: Lpc where
  "zero_lpc = undefined\<lparr>th_previousTemperatures := [0, 0, 0, 0], th_hw := idle_hw\<rparr>"

lemma zero_lpc_init: "board_init env (boot env (\<lambda>_. False) zero_lpc)"
  unfolding board_init_def by (intro exI conjI, rule_tac [2] refl)
    (simp add: zero_lpc_def storage_ok_def idle_hw_def)

theorem heater_safe_witness:
  "heater_off (th_hw (bd_lpc (on_lpc (Tick dead_env) (boot dead_env (\<lambda>_. False) zero_lpc))))
    \<or> LinkAlive (bd_lpc (on_lpc (Tick dead_env) (boot dead_env (\<lambda>_. False) zero_lpc)))"
  using heater_safe [OF zero_lpc_init board_reach(1)] by blast

definition is_configuration_reset :: "Frame \<Rightarrow> bool" where
  "is_configuration_reset fr \<longleftrightarrow> ftype fr = ConfigurationReset \<and> flength fr = 0"

lemma TakeStatus_state: "TakeStatus env st = (r, st') \<Longrightarrow> th_state st' = th_state st"
  by (auto simp: TakeStatus_def Let_def split: if_splits)

lemma dispatch_fault:
  assumes "th_state (bd_lpc b) = HFault"
  shows "th_state (bd_lpc (dispatch env lvl fr b)) =
    (if is_configuration_reset fr \<or> is_reset_command fr \<and> LinkAlive (bd_lpc b) \<and> fst (SampleTemperature env (bd_lpc b))
     then HOff else HFault)"
  using assms fault_kept [OF assms, of env fr]
  by (cases "ftype fr") (simp_all add: dispatch_def Let_def is_configuration_reset_def is_reset_command_def set_hw_def
      ResetConfiguration_def HostHeartbeat_def)

text \<open>
  C9. A fault stays. In the fault state no timer interrupt and no pass through the loop leaves it, and no received byte does except
  the last one of one of two messages: a configuration reset, which turns everything off, or a reset-fault command, and that only
  when the link is alive and a fresh temperature sample is good.
\<close>

theorem fault_latched:
  assumes "th_state (bd_lpc b) = HFault"
  shows "th_state (bd_lpc (on_lpc (Tick env) b)) = HFault \<and> th_state (bd_lpc (idle_pass env lvl b)) = HFault
    \<and> (let st = Thermal_Spin env (bd_lpc b) in th_state (bd_lpc (rx_byte env lvl byte b)) =
        (case snd (feed (bd_decoder b) byte) of None \<Rightarrow> HFault
         | Some fr \<Rightarrow> if is_configuration_reset fr \<or> is_reset_command fr \<and> LinkAlive st \<and> fst (SampleTemperature env st)
             then HOff else HFault))"
proof (intro conjI)
  have sp: "th_state (Thermal_Spin env (bd_lpc b)) = HFault" using fault_kept [OF assms, of env] by blast
  show "th_state (bd_lpc (on_lpc (Tick env) b)) = HFault" using fault_kept [OF assms, of env] by simp
  show "th_state (bd_lpc (idle_pass env lvl b)) = HFault"
    using sp by (auto simp: idle_pass_def Let_def set_hw_def split: prod.splits option.splits dest: TakeStatus_state)
  show "let st = Thermal_Spin env (bd_lpc b) in th_state (bd_lpc (rx_byte env lvl byte b)) =
      (case snd (feed (bd_decoder b) byte) of None \<Rightarrow> HFault
       | Some fr \<Rightarrow> if is_configuration_reset fr \<or> is_reset_command fr \<and> LinkAlive st \<and> fst (SampleTemperature env st)
           then HOff else HFault)"
    using sp by (auto simp: rx_byte_def Let_def dispatch_fault split: prod.split option.split)
qed

theorem fault_latched_witness:
  "th_state (bd_lpc (rx_byte dead_env (\<lambda>_. False) 0 (boot dead_env (\<lambda>_. False) zero_lpc
     \<lparr>bd_lpc := zero_lpc\<lparr>th_state := HFault\<rparr>, bd_decoder := fresh_decoder\<rparr>))) = HFault"
  using fault_latched [of "boot dead_env (\<lambda>_. False) zero_lpc\<lparr>bd_lpc := zero_lpc\<lparr>th_state := HFault\<rparr>, bd_decoder := fresh_decoder\<rparr>"
      dead_env "\<lambda>_. False" 0]
  by (simp add: feed_def fresh_decoder_def Let_def split: option.splits)

text \<open>
  Whatever the coprocessor receives, everything it has written to the UART since power-up is
  a sequence of well-formed pong, pin-state and status frames, and the host's decoder receives
  exactly these messages in order.
\<close>

theorem board_output_received:
  assumes "board_init env b0" and "(board_step env)\<^sup>*\<^sup>* b0 b"
  shows "\<exists>ms d' fs. list_all board_msg ms \<and> bd_out b = concat (map enc_msg ms)
    \<and> feed_all fresh_decoder (bd_out b) = (d', fs) \<and> dec_idle d' \<and> list_all2 received_as fs ms"
proof -
  have "board_ok b" using board.reachable_inv [OF assms] .
  then obtain ms where ms: "bd_out b = concat (map enc_msg ms)" "list_all board_msg ms"
    by (auto simp: board_ok_def)
  then have "list_all msg_sendable ms" by (auto simp: list_all_iff board_msg_def)
  from lpc_link.stream_received [OF fresh_idle this] ms show ?thesis by auto
qed

theorem board_output_received_witness:
  "\<exists>ms d' fs. list_all board_msg ms
    \<and> bd_out (rx_byte dead_env (\<lambda>_. True) SyncByte (boot dead_env (\<lambda>_. False) zero_lpc)) = concat (map enc_msg ms)
    \<and> feed_all fresh_decoder (bd_out (rx_byte dead_env (\<lambda>_. True) SyncByte (boot dead_env (\<lambda>_. False) zero_lpc)))
        = (d', fs) \<and> dec_idle d' \<and> list_all2 received_as fs ms"
  by (rule board_output_received [OF zero_lpc_init board_reach(2)])

end
