(* ===== verification/HostLpc.thy ===== *)
theory HostLpc
  imports LpcProtocol Float32
begin

text \<open>
  The main board's side of the link: \<open>RepRapFirmware/src/Hardware/SAM4E/LpcInterface.cpp\<close> with the
  LPC pin table of \<open>RepRapFirmware/src/Config/Pins_DaVinciJr.h\<close>. \<open>Host\<close> is the file's static
  state, one field per variable; \<open>hl_millis\<close> is the value \<open>millis()\<close> returns and \<open>hl_out\<close> the bytes
  written to \<open>lpcUart\<close>. \<open>ub\<close> is what an out-of-range \<open>float\<close> conversion (undefined in C++) yields.

  The mutex and the critical sections make each operation below atomic with respect to the others,
  which is how they are modelled.
\<close>

section \<open>Pins\<close>

definition FirstLpcPin :: u8 where "FirstLpcPin = 134"
definition NumLpcPins :: nat where "NumLpcPins = 7"
definition NumNamedPins :: u8 where "NumNamedPins = 141"

definition LpcPinIds :: "u8 list" where
  "LpcPinIds = [PinFilamentRunout, PinRotation, PinHotendFilament, PinStatusLed, PinHotendFan,
     PinReflowFan, PinHotendNtc]"

text \<open>\<open>PinCapability\<close> of the LPC entries of \<open>PinTable\<close>: \<open>read = 1\<close>, \<open>ain = 2\<close>, \<open>write = 4\<close>, \<open>pwm = 8\<close>.\<close>

definition LpcPinCapabilities :: "u8 list" where
  "LpcPinCapabilities = [1, 1, 1, 4, 4 OR 8, 4 OR 8, 1 OR 2]"

definition IsLpcPin :: "u8 \<Rightarrow> bool" where
  "IsLpcPin pin \<longleftrightarrow> FirstLpcPin \<le> pin \<and> pin < NumNamedPins"

definition pin_index :: "u8 \<Rightarrow> nat" where
  "pin_index pin = unat (pin - FirstLpcPin)"

definition GetLpcPinId :: "u8 \<Rightarrow> u8" where
  "GetLpcPinId pin = LpcPinIds ! pin_index pin"

datatype PinModeArg = INPUT | INPUT_PULLUP | INPUT_PULLDOWN | OUTPUT_LOW | OUTPUT_HIGH | AIN
  | OUTPUT_PWM_LOW | OUTPUT_PWM_HIGH | OtherPinMode

section \<open>State\<close>

record HostStatus =
  hs_temperature :: f32
  hs_rawAdc :: u16
  hs_averagePwm :: f32
  hs_state :: HeaterState
  hs_error :: ThermalError

record Host =
  hl_decoder :: Decoder
  hl_pinModes :: "GpioMode list"
  hl_pinValues :: "bool list"
  hl_pinStateReceived :: "bool list"
  hl_pwmValues :: "u16 list"
  hl_pwmFrequencies :: "u16 list"
  hl_online :: bool
  hl_lastPingSent :: u32
  hl_lastPongReceived :: u32
  hl_connectionGeneration :: u32
  hl_firmwareUpdateActive :: bool
  hl_thermistorPayload :: "u8 list"
  hl_modelAPayload :: "u8 list"
  hl_modelBPayload :: "u8 list"
  hl_modelCPayload :: "u8 list"
  hl_heaterPayload :: "u8 list"
  hl_feedForwardPayload :: "u8 list"
  hl_thermistorConfigured :: bool
  hl_thermistorSensorNumber :: int
  hl_modelConfigured :: bool
  hl_heaterConfigured :: bool
  hl_feedForwardConfigured :: bool
  hl_thermalStatusReceived :: bool
  hl_thermalStatus :: HostStatus
  hl_thermalStatusReceivedAt :: u32
  hl_millis :: u32
  hl_out :: "u8 list"

section \<open>Encoding helpers\<close>

definition PutFloat :: "f32 \<Rightarrow> u8 list" where
  "PutFloat v = [ucast v, ucast (drop_bit 8 v), ucast (drop_bit 16 v), ucast (drop_bit 24 v)]"

definition PutU16 :: "u16 \<Rightarrow> u8 list" where
  "PutU16 v = [lo8 v, hi8 v]"

definition Host_ReadU16 :: "u8 list \<Rightarrow> nat \<Rightarrow> u16" where
  "Host_ReadU16 p k = le16 (p ! k) (p ! (k + 1))"

definition ToDeciDegrees :: "(f32 \<Rightarrow> u16) \<Rightarrow> f32 \<Rightarrow> u16" where
  "ToDeciDegrees ub v =
    (let scaled = f_mul v (f_lit 10 1)
     in f_to_i16 ub (if f_lt scaled (f_neg (f_lit 32768 1)) then f_neg (f_lit 32768 1)
                     else if f_gt scaled (f_lit 32767 1) then f_lit 32767 1 else scaled))"

definition ToCentiDegrees :: "(f32 \<Rightarrow> u16) \<Rightarrow> f32 \<Rightarrow> u16" where
  "ToCentiDegrees ub v =
    (let scaled = f_mul v (f_lit 100 1)
     in f_to_i16 ub (if f_lt scaled (f_neg (f_lit 32768 1)) then f_neg (f_lit 32768 1)
                     else if f_gt scaled (f_lit 32767 1) then f_lit 32767 1 else scaled))"

definition ToUnsignedHundredths :: "(f32 \<Rightarrow> u16) \<Rightarrow> f32 \<Rightarrow> u16" where
  "ToUnsignedHundredths ub v =
    (let scaled = f_mul v (f_lit 100 1)
     in f_to_u16 ub (if f_le scaled 0 then 0 else if f_ge scaled (f_lit 65535 1) then f_lit 65535 1
                     else scaled))"

definition ToUnsignedTenths :: "(f32 \<Rightarrow> u16) \<Rightarrow> f32 \<Rightarrow> u16" where
  "ToUnsignedTenths ub v =
    (let scaled = f_mul v (f_lit 10 1)
     in f_to_u16 ub (if f_le scaled 0 then 0 else if f_ge scaled (f_lit 65535 1) then f_lit 65535 1
                     else scaled))"

section \<open>Sending\<close>

definition Host_Send :: "MessageType \<Rightarrow> u8 list \<Rightarrow> Host \<Rightarrow> Host" where
  "Host_Send t p h =
    (if \<not> hl_firmwareUpdateActive h
     then h\<lparr>hl_out := hl_out h @ Encode t p (word_of_nat (length p))\<rparr> else h)"

definition SendPing :: "Host \<Rightarrow> Host" where
  "SendPing h = (Host_Send Ping [Version] h)\<lparr>hl_lastPingSent := hl_millis h\<rparr>"

definition gpio_config_msg :: "Host \<Rightarrow> nat \<Rightarrow> MessageType \<times> u8 list" where
  "gpio_config_msg h i =
     (GpioConfig, [LpcPinIds ! i, mode_byte (hl_pinModes h ! i), if hl_pinValues h ! i then 1 else 0])"

definition pwm_msg :: "Host \<Rightarrow> nat \<Rightarrow> MessageType \<times> u8 list" where
  "pwm_msg h i =
     (PwmWrite, [LpcPinIds ! i, lo8 (hl_pwmValues h ! i), hi8 (hl_pwmValues h ! i),
        lo8 (hl_pwmFrequencies h ! i), hi8 (hl_pwmFrequencies h ! i)])"

definition SendGpioConfig :: "nat \<Rightarrow> Host \<Rightarrow> Host" where
  "SendGpioConfig i h = Host_Send (fst (gpio_config_msg h i)) (snd (gpio_config_msg h i)) h"

definition SendPwm :: "nat \<Rightarrow> Host \<Rightarrow> Host" where
  "SendPwm i h = Host_Send (fst (pwm_msg h i)) (snd (pwm_msg h i)) h"

definition replay_pin :: "nat \<Rightarrow> Host \<Rightarrow> Host" where
  "replay_pin i h =
    (if hl_pinModes h ! i \<noteq> Disabled then
       let h1 = SendGpioConfig i h
       in if hl_pinModes h ! i = PwmMode \<and> hl_pwmFrequencies h ! i \<noteq> 0 then SendPwm i h1 else h1
     else h)"

definition ReplayConfiguration :: "Host \<Rightarrow> Host" where
  "ReplayConfiguration h =
    (let h1 = Host_Send ConfigurationReset [] h;
         h2 = fold replay_pin [0..<NumLpcPins] h1;
         h3 = (if hl_thermistorConfigured h2
               then Host_Send ThermistorConfig (hl_thermistorPayload h2) h2 else h2);
         h4 = (if hl_modelConfigured h3 then
                 Host_Send HeaterModelC (hl_modelCPayload h3)
                 (Host_Send HeaterModelB (hl_modelBPayload h3)
                 (Host_Send HeaterModelA (hl_modelAPayload h3) h3)) else h3);
         h5 = (if hl_heaterConfigured h4
               then Host_Send HeaterConfig (hl_heaterPayload h4) h4 else h4);
         h6 = (if hl_feedForwardConfigured h5
               then Host_Send HeaterFeedForward (hl_feedForwardPayload h5) h5 else h5)
     in Host_Send ConfigurationComplete [] h6)"

section \<open>Receiving\<close>

definition SetOffline :: "Host \<Rightarrow> Host" where
  "SetOffline h = h\<lparr>hl_online := False,
     hl_pinStateReceived := map (\<lambda>_. False) (hl_pinStateReceived h), hl_thermalStatusReceived := False\<rparr>"

definition HandlePong :: "Frame \<Rightarrow> Host \<Rightarrow> Host" where
  "HandlePong fr h =
    (if flength fr \<noteq> 2 \<or> payload fr ! 0 \<noteq> Version then SetOffline h
     else
       let reconnected = (\<not> hl_online h \<or> payload fr ! 1 \<noteq> 0);
           h1 = (if reconnected then SetOffline h else h);
           h2 = h1\<lparr>hl_online := True, hl_lastPongReceived := hl_millis h1\<rparr>;
           h3 = (if reconnected
                 then h2\<lparr>hl_connectionGeneration := hl_connectionGeneration h2 + 1\<rparr> else h2)
       in if reconnected then ReplayConfiguration h3 else h3)"

fun pin_with_id :: "u8 \<Rightarrow> nat \<Rightarrow> u8 list \<Rightarrow> nat option" where
  "pin_with_id x i [] = None"
| "pin_with_id x i (y # ys) = (if y = x then Some i else pin_with_id x (Suc i) ys)"

definition HandleGpioState :: "Frame \<Rightarrow> Host \<Rightarrow> Host" where
  "HandleGpioState fr h =
    (if flength fr \<noteq> 2 then h
     else case pin_with_id (payload fr ! 0) 0 LpcPinIds of
       None \<Rightarrow> h
     | Some i \<Rightarrow> h\<lparr>hl_pinValues := (hl_pinValues h)[i := payload fr ! 1 \<noteq> 0],
                    hl_pinStateReceived := (hl_pinStateReceived h)[i := True]\<rparr>)"

definition HandleThermalStatus :: "Frame \<Rightarrow> Host \<Rightarrow> Host" where
  "HandleThermalStatus fr h =
    (let p = payload fr in
     if flength fr \<noteq> 8 \<or> 1024 \<le> Host_ReadU16 p 2 \<or> state_byte HHeating < p ! 6
        \<or> error_byte TemperatureExcursion < p ! 7 then h
     else h\<lparr>hl_thermalStatus :=
              \<lparr>hs_temperature = f_mul (f_of_int (sint (Host_ReadU16 p 0))) (f_lit 1 100),
               hs_rawAdc = Host_ReadU16 p 2,
               hs_averagePwm = f_mul (f_of_nat (unat (Host_ReadU16 p 4)))
                                 (f_div (f_lit 1 1) (f_lit 65535 1)),
               hs_state = state_of (p ! 6), hs_error = error_of (p ! 7)\<rparr>,
            hl_thermalStatusReceivedAt := hl_millis h, hl_thermalStatusReceived := True\<rparr>)"

definition Host_dispatch :: "Frame \<Rightarrow> Host \<Rightarrow> Host" where
  "Host_dispatch fr h =
    (case ftype fr of
       Pong \<Rightarrow> HandlePong fr h
     | GpioState \<Rightarrow> HandleGpioState fr h
     | ThermalStatusMsg \<Rightarrow> HandleThermalStatus fr h
     | _ \<Rightarrow> h)"

definition Host_byte :: "u8 \<Rightarrow> Host \<Rightarrow> Host" where
  "Host_byte b h =
    (case feed (hl_decoder h) b of
       (d, None) \<Rightarrow> h\<lparr>hl_decoder := d\<rparr>
     | (d, Some fr) \<Rightarrow> Host_dispatch fr (h\<lparr>hl_decoder := d\<rparr>))"

definition Host_Init :: "Host \<Rightarrow> Host" where
  "Host_Init h =
    SendPing (h\<lparr>hl_decoder := Reset (hl_decoder h),
      hl_pinModes := replicate NumLpcPins Disabled, hl_pinValues := replicate NumLpcPins False,
      hl_pinStateReceived := replicate NumLpcPins False, hl_pwmValues := replicate NumLpcPins 0,
      hl_pwmFrequencies := replicate NumLpcPins 0, hl_online := False,
      hl_thermalStatusReceived := False, hl_lastPongReceived := 0\<rparr>)"

definition PrepareForFirmwareUpdate :: "Host \<Rightarrow> Host" where
  "PrepareForFirmwareUpdate h =
    (let h1 = (Host_Send ConfigurationReset [] h)\<lparr>hl_firmwareUpdateActive := True\<rparr>
     in h1\<lparr>hl_decoder := Reset (hl_decoder h1)\<rparr>)"

definition FirmwareUpdateFinished :: "Host \<Rightarrow> Host" where
  "FirmwareUpdateFinished h =
    (let h1 = SetOffline h
     in SendPing (h1\<lparr>hl_decoder := Reset (hl_decoder h1), hl_firmwareUpdateActive := False\<rparr>))"

text \<open>\<open>Spin\<close> with the bytes \<open>rx\<close> waiting in the UART buffer.\<close>

definition Host_Spin :: "u8 list \<Rightarrow> Host \<Rightarrow> Host" where
  "Host_Spin rx h =
    (let h1 = fold Host_byte rx h;
         now = hl_millis h1;
         h2 = (if \<not> hl_firmwareUpdateActive h1 \<and> hl_online h1 \<and> 3000 \<le> now - hl_lastPongReceived h1
               then SetOffline h1 else h1)
     in if \<not> hl_firmwareUpdateActive h2 \<and> 1000 \<le> now - hl_lastPingSent h2 then SendPing h2 else h2)"

section \<open>The interface of the other modules\<close>

definition GetThermalStatus :: "Host \<Rightarrow> HostStatus option" where
  "GetThermalStatus h =
    (if \<not> hl_online h \<or> \<not> hl_thermalStatusReceived h
        \<or> (\<not> hl_firmwareUpdateActive h \<and> 1000 \<le> hl_millis h - hl_thermalStatusReceivedAt h)
     then None else Some (hl_thermalStatus h))"

definition IsPinAvailable :: "u8 \<Rightarrow> Host \<Rightarrow> bool" where
  "IsPinAvailable pin h =
    (if \<not> hl_online h \<or> \<not> IsLpcPin pin then False
     else let i = pin_index pin in
       if hl_pinModes h ! i = Input \<or> hl_pinModes h ! i = InputPullup then hl_pinStateReceived h ! i
       else if hl_pinModes h ! i = Analog then
         (case GetThermalStatus h of None \<Rightarrow> False
          | Some status \<Rightarrow> hs_error status \<noteq> NotConfigured \<and> hs_error status \<noteq> AdcTimeout)
       else True)"

text \<open>The mode, if the pin has the capability it needs, and the initial level it sets.\<close>

definition accept_mode :: "u8 \<Rightarrow> PinModeArg \<Rightarrow> (GpioMode \<times> bool option) option" where
  "accept_mode capabilities mode =
    (case mode of
       INPUT \<Rightarrow> if capabilities AND 1 = 0 then None else Some (Input, None)
     | INPUT_PULLUP \<Rightarrow> if capabilities AND 1 = 0 then None else Some (InputPullup, None)
     | OUTPUT_LOW \<Rightarrow> if capabilities AND 4 = 0 then None else Some (Output, Some False)
     | OUTPUT_HIGH \<Rightarrow> if capabilities AND 4 = 0 then None else Some (Output, Some True)
     | OUTPUT_PWM_LOW \<Rightarrow> if capabilities AND 8 = 0 then None else Some (PwmMode, Some False)
     | OUTPUT_PWM_HIGH \<Rightarrow> if capabilities AND 8 = 0 then None else Some (PwmMode, Some True)
     | AIN \<Rightarrow> if capabilities AND 2 = 0 then None else Some (Analog, None)
     | _ \<Rightarrow> None)"

definition SetPinMode :: "u8 \<Rightarrow> PinModeArg \<Rightarrow> Host \<Rightarrow> bool \<times> Host" where
  "SetPinMode pin mode h =
    (if \<not> IsLpcPin pin then (False, h)
     else let i = pin_index pin in
       case accept_mode (LpcPinCapabilities ! i) mode of
         None \<Rightarrow> (False, h)
       | Some (m, level) \<Rightarrow>
         let h1 = h\<lparr>hl_pinModes := (hl_pinModes h)[i := m]\<rparr>;
             h2 = (if m = Input \<or> m = InputPullup
                   then h1\<lparr>hl_pinStateReceived := (hl_pinStateReceived h1)[i := False]\<rparr> else h1);
             h3 = (case level of None \<Rightarrow> h2
                   | Some v \<Rightarrow> h2\<lparr>hl_pinValues := (hl_pinValues h2)[i := v]\<rparr>)
         in (True, if hl_online h3 then SendGpioConfig i h3 else h3))"

definition ReadPin :: "u8 \<Rightarrow> Host \<Rightarrow> bool" where
  "ReadPin pin h \<longleftrightarrow> IsLpcPin pin \<and> hl_pinValues h ! pin_index pin"

definition ReadAnalog :: "u8 \<Rightarrow> Host \<Rightarrow> u16" where
  "ReadAnalog pin h =
    (if IsLpcPin pin \<and> GetLpcPinId pin = PinHotendNtc \<and> hl_thermalStatusReceived h
     then hs_rawAdc (hl_thermalStatus h) else 0)"

definition WritePin :: "u8 \<Rightarrow> bool \<Rightarrow> Host \<Rightarrow> Host" where
  "WritePin pin high h =
    (if \<not> IsLpcPin pin then h
     else let h1 = h\<lparr>hl_pinValues := (hl_pinValues h)[pin_index pin := high]\<rparr>
       in if hl_online h1 then Host_Send GpioWrite [GetLpcPinId pin, if high then 1 else 0] h1 else h1)"

definition WritePwm :: "(f32 \<Rightarrow> u16) \<Rightarrow> u8 \<Rightarrow> f32 \<Rightarrow> u16 \<Rightarrow> Host \<Rightarrow> Host" where
  "WritePwm ub pin duty frequency h =
    (if \<not> IsLpcPin pin then h
     else let i = pin_index pin;
              constrained = (if f_le duty 0 then 0 else if f_ge duty (f_lit 1 1) then f_lit 1 1 else duty);
              v = f_to_u16 ub (f_add (f_mul constrained (f_lit 65535 1)) (f_lit 1 2));
              h1 = h\<lparr>hl_pwmValues := (hl_pwmValues h)[i := v],
                     hl_pwmFrequencies := (hl_pwmFrequencies h)[i := frequency]\<rparr>
       in if hl_online h1 then SendPwm i h1 else h1)"

definition CommandHeater :: "(f32 \<Rightarrow> u16) \<Rightarrow> HeaterCommand \<Rightarrow> f32 \<Rightarrow> Host \<Rightarrow> Host" where
  "CommandHeater ub command targetTemperature h =
    (let target = ToCentiDegrees ub targetTemperature
     in if command = CmdOff \<or> hl_online h
        then Host_Send HeaterCommandMsg [command_byte command, lo8 target, hi8 target] h else h)"

definition Host_ConfigureThermistor ::
    "u32 \<Rightarrow> f32 \<Rightarrow> f32 \<Rightarrow> f32 \<Rightarrow> f32 \<Rightarrow> Host \<Rightarrow> Host" where
  "Host_ConfigureThermistor sensorNumber r25 beta coefficientC seriesResistance h =
    (let h1 = h\<lparr>hl_thermistorPayload :=
           PutFloat r25 @ PutFloat beta @ PutFloat coefficientC @ PutFloat seriesResistance,
         hl_thermistorSensorNumber := sint sensorNumber, hl_thermistorConfigured := True\<rparr>
     in if hl_online h1 then Host_Send ThermistorConfig (hl_thermistorPayload h1) h1 else h1)"

definition UnregisterThermistor :: "(f32 \<Rightarrow> u16) \<Rightarrow> u32 \<Rightarrow> Host \<Rightarrow> Host" where
  "UnregisterThermistor ub sensorNumber h =
    (if hl_thermistorSensorNumber h = sint sensorNumber
     then (CommandHeater ub CmdOff 0 h)
            \<lparr>hl_thermistorSensorNumber := - 1, hl_thermistorConfigured := False\<rparr>
     else h)"

definition IsThermistorSensor :: "u32 \<Rightarrow> Host \<Rightarrow> bool" where
  "IsThermistorSensor sensorNumber h \<longleftrightarrow>
     hl_thermistorConfigured h \<and> hl_thermistorSensorNumber h = sint sensorNumber"

text \<open>The values \<open>ConfigureHeaterModel\<close> reads from a \<open>FopDt\<close>.\<close>

record HeaterModelArgs =
  ha_heatingRate :: f32
  ha_basicCoolingRate :: f32
  ha_fanCoolingRate :: f32
  ha_coolingRateExponent :: f32
  ha_deadTime :: f32
  ha_maxPwm :: f32
  ha_kP :: f32
  ha_recipTi :: f32
  ha_tD :: f32
  ha_usePid :: bool
  ha_inverted :: bool
  ha_overridden :: bool

definition ConfigureHeaterModel :: "HeaterModelArgs \<Rightarrow> Host \<Rightarrow> Host" where
  "ConfigureHeaterModel m h =
    (let flags = (if ha_usePid m then 1 else 0) OR (if ha_inverted m then 2 else 0)
                   OR (if ha_overridden m then 4 else 0);
         h1 = h\<lparr>hl_modelAPayload := PutFloat (ha_heatingRate m) @ PutFloat (ha_basicCoolingRate m)
                  @ PutFloat (ha_fanCoolingRate m) @ PutFloat (ha_coolingRateExponent m),
                hl_modelBPayload := PutFloat (ha_deadTime m) @ PutFloat (ha_maxPwm m)
                  @ PutFloat (ha_kP m) @ PutFloat (ha_recipTi m),
                hl_modelCPayload := PutFloat (ha_tD m) @ [flags],
                hl_modelConfigured := True\<rparr>
     in if hl_online h1 then
          Host_Send HeaterModelC (hl_modelCPayload h1)
            (Host_Send HeaterModelB (hl_modelBPayload h1)
            (Host_Send HeaterModelA (hl_modelAPayload h1) h1))
        else h1)"

definition Host_ConfigureHeater ::
    "(f32 \<Rightarrow> u16) \<Rightarrow> u16 \<Rightarrow> f32 \<Rightarrow> f32 \<Rightarrow> f32 \<Rightarrow> f32 \<Rightarrow> u8 \<Rightarrow> Host \<Rightarrow> Host" where
  "Host_ConfigureHeater ub frequency upperLimit lowerLimit maxExcursion maxFaultTime maxBadReadings h =
    (let h1 = h\<lparr>hl_heaterPayload := PutU16 frequency @ PutU16 (ToDeciDegrees ub upperLimit)
           @ PutU16 (ToDeciDegrees ub lowerLimit) @ PutU16 (ToUnsignedHundredths ub maxExcursion)
           @ PutU16 (ToUnsignedTenths ub maxFaultTime) @ [maxBadReadings],
         hl_heaterConfigured := True\<rparr>
     in if hl_online h1 then Host_Send HeaterConfig (hl_heaterPayload h1) h1 else h1)"

definition ConfigureHeaterFeedForward :: "f32 \<Rightarrow> f32 \<Rightarrow> f32 \<Rightarrow> Host \<Rightarrow> Host" where
  "ConfigureHeaterFeedForward fanPwm extrusionPwmBoost extrusionTemperatureBoost h =
    (let h1 = h\<lparr>hl_feedForwardPayload :=
           PutFloat fanPwm @ PutFloat extrusionPwmBoost @ PutFloat extrusionTemperatureBoost,
         hl_feedForwardConfigured := True\<rparr>
     in if hl_online h1 then Host_Send HeaterFeedForward (hl_feedForwardPayload h1) h1 else h1)"

end
