(* ===== verification/LpcDrive.thy ===== *)
theory LpcDrive
  imports LpcPwm
begin

text \<open>
  What the coprocessor drives its pins with, read off the registers that \<open>Gpio.cpp\<close> and \<open>Pwm.cpp\<close> write: nothing, a level, or a
  timer with its prescaler, match value and period. Configuring a pin, or setting its PWM, decides this for the pin itself and
  leaves it alone for every other.
\<close>

section \<open>Reading the registers\<close>

datatype PinDrive = Floating | Driven bool | Pulsed u32 u32 u32

text \<open>A pin in analog mode (bit 7 of its IOCON register clear, where there is one) has no digital function.\<close>

definition pin_drive :: "Hw \<Rightarrow> nat \<Rightarrow> PinDrive" where
  "pin_drive hw i =
    (let p = pins ! i; pin = pd_id p; io = regs hw (Iocon i) in
     if pd_analogCapable p \<and> io AND 0x80 = 0 then Floating
     else if io AND 0x07 = ucast (pd_gpioFunction p) then
       (if regs hw (Direction pin) AND pin_mask pin = 0 then Floating
        else Driven (regs hw (MaskedData pin) AND pin_mask pin \<noteq> 0))
     else (case Find pin of None \<Rightarrow> Floating
       | Some ch \<Rightarrow>
           if io AND 0x07 = ucast (ch_pinFunction ch) \<and> regs hw (TimerRegister ch 0x004) = 0x01
           then Pulsed (regs hw (TimerRegister ch 0x00C)) (regs hw (TimerRegister ch (0x018 + 4 * ucast (ch_matchChannel ch))))
             (regs hw (TimerRegister ch 0x024))
           else Floating))"

text \<open>The pins the host may configure: the heater's entry is masked.\<close>

definition pin_drives :: "Hw \<Rightarrow> PinDrive list" where
  "pin_drives hw = map (\<lambda>i. if i = 4 then Floating else pin_drive hw i) [0..<8]"

lemma pin_drives_nth: "i < 8 \<Longrightarrow> pin_drives hw ! i = (if i = 4 then Floating else pin_drive hw i)"
  by (simp add: pin_drives_def)

lemma length_pin_drives [simp]: "length (pin_drives hw) = 8"
  by (simp add: pin_drives_def)

section \<open>Registers that a pin does not share\<close>

definition drive_regs :: "nat \<Rightarrow> u32 set" where
  "drive_regs i = {Iocon i, MaskedData (pd_id (pins ! i))} \<union>
    (case Find (pd_id (pins ! i)) of None \<Rightarrow> {}
     | Some ch \<Rightarrow> {TimerRegister ch 0x004, TimerRegister ch 0x00C,
         TimerRegister ch (0x018 + 4 * ucast (ch_matchChannel ch)), TimerRegister ch 0x024})"

lemma pin_drive_cong:
  assumes "\<And>a. a \<in> drive_regs i \<Longrightarrow> regs hw' a = regs hw a"
    and "regs hw' (Direction (pd_id (pins ! i))) AND pin_mask (pd_id (pins ! i))
       = regs hw (Direction (pd_id (pins ! i))) AND pin_mask (pd_id (pins ! i))"
  shows "pin_drive hw' i = pin_drive hw i"
  using assms by (auto simp: pin_drive_def drive_regs_def Let_def split: option.splits)

lemma pin_id_eval:
  "pd_id (pins ! 0) = PinFilamentRunout" "pd_id (pins ! Suc 0) = PinRotation" "pd_id (pins ! 2) = PinHotendFilament"
  "pd_id (pins ! 3) = PinStatusLed" "pd_id (pins ! 4) = PinHeater" "pd_id (pins ! 5) = PinHotendFan"
  "pd_id (pins ! 6) = PinReflowFan" "pd_id (pins ! 7) = PinHotendNtc"
  by (simp_all add: pins_def)

lemma Find_none:
  "Find PinFilamentRunout = None" "Find PinRotation = None" "Find PinHotendFilament = None" "Find PinStatusLed = None"
  "Find PinHotendNtc = None"
  by (simp_all add: Find_def channels_def pin_ids)

lemma drive_regs_eval:
  "drive_regs 0 = {0x40044020, 0x50020200}" "drive_regs (Suc 0) = {0x40044028, 0x50020008}"
  "drive_regs 2 = {0x4004404C, 0x50000100}" "drive_regs 3 = {0x40044058, 0x50021000}"
  "drive_regs 4 = {0x40044064, 0x50000800, 0x4000C004, 0x4000C00C, 0x4000C01C, 0x4000C024}"
  "drive_regs 5 = {0x40044044, 0x50020080, 0x40014004, 0x4001400C, 0x40014018, 0x40014024}"
  "drive_regs 6 = {0x4004406C, 0x50011000, 0x40010004, 0x4001000C, 0x4001001C, 0x40010024}"
  "drive_regs 7 = {0x40044078, 0x50010004}"
  by (auto simp: drive_regs_def pin_id_eval Iocon_eval addr_eval Find_eval Find_none channels_def TimerRegister_def
      Ct16b0Base_def Ct16b1Base_def Ct32b0Base_def)

lemma directions:
  "Direction (pd_id (pins ! 0)) = 0x50028000" "Direction (pd_id (pins ! Suc 0)) = 0x50028000"
  "Direction (pd_id (pins ! 2)) = 0x50008000" "Direction (pd_id (pins ! 3)) = 0x50028000"
  "Direction (pd_id (pins ! 4)) = 0x50008000" "Direction (pd_id (pins ! 5)) = 0x50028000"
  "Direction (pd_id (pins ! 6)) = 0x50018000" "Direction (pd_id (pins ! 7)) = 0x50018000"
  by (simp_all add: pin_id_eval addr_eval)

lemma drive_regs_disjoint:
  assumes "i < 8" "j < 8" "i \<noteq> j" "a \<in> drive_regs i"
  shows "a \<notin> drive_regs j"
  using assms(2-4)
  by (cases rule: index_cases [OF assms(1)]; cases rule: index_cases [OF assms(2)]; auto simp: drive_regs_eval)

lemma direction_not_drive:
  assumes "i < 8" "j < 8"
  shows "Direction (pd_id (pins ! i)) \<notin> drive_regs j"
  using assms
  by (cases rule: index_cases [OF assms(1)]; cases rule: index_cases [OF assms(2)]; auto simp: drive_regs_eval directions)

lemma masks_disjoint:
  assumes "i < 8" "j < 8" "i \<noteq> j" "Direction (pd_id (pins ! i)) = Direction (pd_id (pins ! j))"
  shows "pin_mask (pd_id (pins ! i)) AND pin_mask (pd_id (pins ! j)) = 0"
  using assms(3,4)
  by (cases rule: index_cases [OF assms(1)]; cases rule: index_cases [OF assms(2)])
    (simp_all add: directions, simp_all add: pin_id_eval pin_mask_eval)

lemma mask_kept:
  assumes "m AND k = (0 :: u32)"
  shows "(x OR m) AND k = x AND k" "(x AND NOT m) AND k = x AND k"
proof -
  have "\<not> (bit m n \<and> bit k n)" for n using arg_cong [OF assms, of "\<lambda>w. bit w n"] by (simp add: bit_simps)
  then show "(x OR m) AND k = x AND k" "(x AND NOT m) AND k = x AND k" by (auto intro!: bit_word_eqI simp: bit_simps)
qed

section \<open>Configuring a pin\<close>

lemma known_index:
  assumes "FindPin pin = Some i"
  shows "i < 8" "pd_id (pins ! i) = pin"
  using FindPin_Some [OF assms] by simp_all

lemma Configure_regs:
  assumes "FindPin pin = Some i" "a \<notin> {Iocon i, MaskedData pin, Direction pin}"
  shows "regs (snd (Configure lvl pin mode v hw)) a = regs hw a"
  using assms by (auto simp: Configure_def Let_def WriteRaw_def)

lemma Configure_direction:
  assumes "FindPin pin = Some i"
  shows "regs (snd (Configure lvl pin mode v hw)) (Direction pin) =
    (if mode = Output \<or> mode = PwmMode then regs hw (Direction pin) OR pin_mask pin else regs hw (Direction pin) AND NOT (pin_mask pin))"
proof -
  note k = known_index [OF assms]
  have "Direction pin \<notin> drive_regs i" using direction_not_drive [OF k(1) k(1)] k(2) by simp
  then have "Direction pin \<noteq> Iocon i" "Direction pin \<noteq> MaskedData pin" using k(2) by (auto simp: drive_regs_def)
  then show ?thesis using assms by (auto simp: Configure_def Let_def WriteRaw_def)
qed

lemma Configure_other_drive:
  assumes "FindPin pin = Some i" "j < 8" "j \<noteq> i"
  shows "pin_drive (snd (Configure lvl pin mode v hw)) j = pin_drive hw j"
proof (rule pin_drive_cong)
  note k = known_index [OF assms(1)]
  show "regs (snd (Configure lvl pin mode v hw)) a = regs hw a" if "a \<in> drive_regs j" for a
  proof (rule Configure_regs [OF assms(1)])
    have "a \<notin> drive_regs i" by (rule drive_regs_disjoint [OF assms(2) k(1) assms(3) that])
    moreover have "a \<noteq> Direction pin" using direction_not_drive [OF k(1) assms(2)] that k(2) by auto
    ultimately show "a \<notin> {Iocon i, MaskedData pin, Direction pin}" using k(2) by (auto simp: drive_regs_def)
  qed
  let ?d = "Direction (pd_id (pins ! j))" and ?m = "pin_mask (pd_id (pins ! j))"
  show "regs (snd (Configure lvl pin mode v hw)) ?d AND ?m = regs hw ?d AND ?m"
  proof (cases "?d = Direction pin")
    case True
    have "pin_mask pin AND ?m = 0" using masks_disjoint [OF k(1) assms(2)] assms(3) True k(2) by auto
    then show ?thesis unfolding True Configure_direction [OF assms(1)] by (simp add: mask_kept)
  next
    case False
    have "?d \<notin> drive_regs i" by (rule direction_not_drive [OF assms(2) k(1)])
    then have "?d \<notin> {Iocon i, MaskedData pin, Direction pin}" using False k(2) by (auto simp: drive_regs_def)
    then show ?thesis using Configure_regs [OF assms(1)] by simp
  qed
qed

definition configured_drive :: "GpioMode \<Rightarrow> bool \<Rightarrow> PinDrive" where
  "configured_drive mode v = (if mode = Output \<or> mode = PwmMode then Driven v else Floating)"

lemma or_masks:
  "(x OR m) AND m = (m :: u32)" "(x AND NOT m) AND m = 0"
  by (auto intro!: bit_word_eqI simp: bit_simps)

lemma Configure_own_drive:
  assumes "FindPin pin = Some i" "i \<noteq> 4"
  shows "pin_drive (snd (Configure lvl pin mode v hw)) i = configured_drive mode v"
proof -
  note d = Configure_direction [OF assms(1), of lvl mode v hw]
  show ?thesis
    using assms unfolding pin_drive_def Let_def known_index(2) [OF assms(1)] d
    by (cases rule: known_pin_cases [OF assms(1)]; cases mode;
        simp add: Configure_def FindPin_eval Let_def WriteRaw_def addr_eval Iocon_eval pins_def configured_drive_def
          mask_simps Find_eval Find_none or_masks channels_def)
qed

lemma Configure_drives:
  assumes "FindPin pin = Some i"
  shows "pin_drives (snd (Configure lvl pin mode v hw)) =
    (if i = 4 then pin_drives hw else (pin_drives hw)[i := configured_drive mode v])"
  using known_index(1) [OF assms] Configure_other_drive [OF assms] Configure_own_drive [OF assms]
  by (intro nth_equalityI) (auto simp: pin_drives_nth nth_list_update)

text \<open>After \<open>Gpio::Init\<close> no pin is driven.\<close>

lemma FindPin_index: "i < 8 \<Longrightarrow> FindPin (pd_id (pins ! i)) = Some i"
  by (erule index_cases) (simp_all add: pins_def FindPin_eval)

lemma pin_drives_pstate [simp]: "pin_drives (set_pstate i s hw) = pin_drives hw"
  by (auto simp: pin_drives_def intro!: pin_drive_cong)

lemma init_pins_drives:
  assumes "ps = drop i pins" "k < 8"
  shows "pin_drives (init_pins lvl i ps hw) ! k = (if i \<le> k then Floating else pin_drives hw ! k)"
  using assms
proof (induction ps arbitrary: i hw)
  case Nil
  then show ?case by simp
next
  case (Cons p ps)
  then have i: "i < 8" by (metis drop_eq_Nil length_pins list.distinct(1) not_less)
  then have p: "p = pins ! i" "ps = drop (Suc i) pins"
    using Cons.prems by (simp_all add: Cons_nth_drop_Suc [symmetric])
  show ?case
    using Cons.IH [OF p(2) Cons.prems(2)] i Cons.prems(2) Configure_drives [OF FindPin_index [OF i]]
    by (auto simp: p(1) nth_list_update configured_drive_def pin_drives_nth)
qed

lemma Gpio_Init_drives: "pin_drives (Gpio_Init lvl hw) = replicate 8 Floating"
  using init_pins_drives [of pins 0 _ lvl] by (intro nth_equalityI) (simp_all add: Gpio_Init_def)

section \<open>Setting the PWM of a pin\<close>

text \<open>What a value in 65535ths at a frequency makes of a pin that was configured for PWM with level \<open>old\<close>.\<close>

definition pwm_drive :: "u8 \<Rightarrow> u16 \<Rightarrow> u16 \<Rightarrow> PinDrive \<Rightarrow> PinDrive" where
  "pwm_drive pin duty frequency old =
    (case Find pin of None \<Rightarrow> old
     | Some ch \<Rightarrow>
         if duty = 0 then Driven False
         else if frequency = 0 then old
         else if duty = 65535 then Driven True
         else Pulsed (pwm_divider ch frequency - 1)
           (pwm_period ch frequency - pwm_highTicks (pwm_period ch frequency) duty) (pwm_period ch frequency))"

lemma other_write_drive:
  assumes "a \<notin> drive_regs j" "a \<noteq> Direction (pd_id (pins ! j))"
  shows "pin_drive (reg_write a x hw) j = pin_drive hw j"
  using assms by (intro pin_drive_cong) auto

lemma start_timer_other_drive:
  assumes "Find pin = Some ch" "FindPin pin = Some i" "j < 8" "j \<noteq> i"
  shows "pin_drive (start_timer ch duty f hw) j = pin_drive hw j"
proof (rule pin_drive_cong)
  have w: "regs (start_timer ch duty f hw) a = regs hw a"
    if "a \<notin> drive_regs i" "a \<notin> {LPC_SYSCON_SYSAHBCLKCTRL, TimerRegister ch 0x074, TimerRegister ch 0x014}" for a
    using that assms(1,2)
    by (cases rule: Find_cases [OF assms(1)])
      (auto simp: start_timer_def Let_def FindPin_eval drive_regs_def pin_id_eval Find_eval channels_def Pwm_Iocon_def Iocon_eval
        LPC_IOCON_BASE_def)
  have n: "a \<notin> {LPC_SYSCON_SYSAHBCLKCTRL, TimerRegister ch 0x074, TimerRegister ch 0x014}"
    if "a \<in> drive_regs j \<or> a = Direction (pd_id (pins ! j))" for a
    using that
    by (cases rule: Find_cases [OF assms(1)]; cases rule: index_cases [OF assms(3)])
      (auto simp: drive_regs_eval directions LPC_SYSCON_SYSAHBCLKCTRL_def TimerRegister_def channels_def Ct16b0Base_def
        Ct16b1Base_def Ct32b0Base_def)
  note k = known_index(1) [OF assms(2)]
  show "regs (start_timer ch duty f hw) a = regs hw a" if "a \<in> drive_regs j" for a
    using w [OF drive_regs_disjoint [OF assms(3) k assms(4) that]] n that by blast
  show "regs (start_timer ch duty f hw) (Direction (pd_id (pins ! j))) AND pin_mask (pd_id (pins ! j))
      = regs hw (Direction (pd_id (pins ! j))) AND pin_mask (pd_id (pins ! j))"
    using w [OF direction_not_drive [OF assms(3) k]] n by simp
qed

lemma start_timer_own_drive:
  assumes "Find pin = Some ch" "FindPin pin = Some i" "i \<noteq> 4"
  shows "pin_drive (start_timer ch duty f hw) i =
    Pulsed (pwm_divider ch f - 1) (pwm_period ch f - pwm_highTicks (pwm_period ch f) duty) (pwm_period ch f)"
proof -
  note r = start_timer_regs [OF assms(1), of duty f hw]
  have k: "pd_id (pins ! i) = pin" by (rule known_index(2) [OF assms(2)])
  have io: "regs (start_timer ch duty f hw) (Iocon i) =
      (let x = (regs hw (Iocon i) AND NOT 0x07) OR ucast (ch_pinFunction ch) in if ch_analogCapable ch then x OR 0x80 else x)"
    using assms
    by (cases rule: Find_cases [OF assms(1)])
      (auto simp: start_timer_def Let_def FindPin_eval channels_def Pwm_Iocon_def Iocon_eval TimerRegister_def
        LPC_IOCON_BASE_def LPC_SYSCON_SYSAHBCLKCTRL_def Ct16b0Base_def Ct16b1Base_def Ct32b0Base_def)
  have c: "ucast (ch_pinFunction ch) AND (7 :: u32) = ucast (ch_pinFunction ch)" "(0x80 :: u32) AND 7 = 0"
      "ucast (ch_pinFunction ch) \<noteq> (ucast (pd_gpioFunction (pins ! i)) :: u32)"
      "pd_analogCapable (pins ! i) = ch_analogCapable ch"
    using assms by (cases rule: Find_cases [OF assms(1)]; simp add: channels_def pins_def FindPin_eval; auto simp: FindPin_eval pins_def)+
  have f: "regs (start_timer ch duty f hw) (Iocon i) AND 7 = ucast (ch_pinFunction ch)"
    unfolding io by (simp add: Let_def mask_simps c)
  have "ch_analogCapable ch \<Longrightarrow> regs (start_timer ch duty f hw) (Iocon i) AND 0x80 \<noteq> 0"
    unfolding io by (simp add: Let_def or_masks)
  with c f r show ?thesis by (simp add: pin_drive_def Let_def k assms(1))
qed

lemma Pwm_Set_drives:
  assumes "FindPin pin = Some i"
  shows "pin_drives (snd (Pwm_Set pin duty f hw)) =
    (if i = 4 then pin_drives hw else (pin_drives hw)[i := pwm_drive pin duty f (pin_drives hw ! i)])"
proof (cases "Find pin")
  case None
  then show ?thesis by (simp add: Pwm_Set_def pwm_drive_def)
next
  case (Some ch)
  note k = known_index(1) [OF assms]
  have ch: "ch_pin ch = pin" "ch \<in> set channels" using Find_FindPin [OF Some] channel_pin_in [OF Some] by simp_all
  have const: "pin_drives (SetConstant ch b hw) = (if i = 4 then pin_drives hw else (pin_drives hw)[i := Driven b])" for b
  proof -
    have "pin_drive (reg_write (TimerRegister ch 4) 0 hw) j = pin_drive hw j" if "j < 8" "j \<noteq> i" for j
    proof (rule other_write_drive)
      have "TimerRegister ch 4 \<in> drive_regs i" using Some known_index(2) [OF assms] by (simp add: drive_regs_def)
      then show "TimerRegister ch 4 \<notin> drive_regs j" "TimerRegister ch 4 \<noteq> Direction (pd_id (pins ! j))"
        using drive_regs_disjoint [OF k that(1)] direction_not_drive [OF that(1) k] that(2) by auto
    qed
    then show ?thesis
      using Configure_other_drive [OF assms] Configure_own_drive [OF assms] k
      by (intro nth_equalityI) (auto simp: SetConstant_def ch(1) configured_drive_def nth_list_update pin_drives_nth)
  qed
  have timer: "pin_drives (start_timer ch duty f hw) = (if i = 4 then pin_drives hw else (pin_drives hw)[i :=
      Pulsed (pwm_divider ch f - 1) (pwm_period ch f - pwm_highTicks (pwm_period ch f) duty) (pwm_period ch f)])"
    using start_timer_other_drive [OF Some assms] start_timer_own_drive [OF Some assms] k
    by (intro nth_equalityI) (auto simp: pin_drives_nth nth_list_update)
  have fits: "\<not> (pwm_period ch f < 2 \<or> ch_maxPeriod ch < pwm_period ch f)" if "f \<noteq> 0"
    using period_bounds(1,2) [OF ch(2) that] by (simp add: word_less_nat_alt)
  show ?thesis
    using const timer fits k by (auto simp: Pwm_Set_def Some pwm_drive_def list_update_id)
qed

end
