(* ===== verification/LpcLink.thy ===== *)
theory LpcLink
  imports LpcMain HostLpc LpcDrive
begin

text \<open>
  The two processors together. Whole messages arriving at the coprocessor (\<open>rx_message\<close>), the
  configuration it holds as an abstract record (\<open>Cfg\<close>, with \<open>board_cfg\<close> as the abstraction
  function) and what each configuration message does to that record (\<open>cfg_step\<close>): the code of
  \<open>main.cpp\<close>, \<open>Gpio.cpp\<close> and \<open>Thermal.cpp\<close> refines \<open>cfg_step\<close>, also with control steps in
  between. From that, the effect of \<open>ReplayConfiguration\<close> of \<open>LpcInterface.cpp\<close> is a computation
  on \<open>Cfg\<close>.
\<close>

section \<open>Whole messages\<close>

definition rx_all :: "Env \<Rightarrow> (u8 \<Rightarrow> bool) \<Rightarrow> u8 list \<Rightarrow> Board \<Rightarrow> Board" where
  "rx_all env lvl bs b = fold (rx_byte env lvl) bs b"

lemma rx_all_simps [simp]:
  "rx_all env lvl [] b = b"
  "rx_all env lvl (x # xs) b = rx_all env lvl xs (rx_byte env lvl x b)"
  "rx_all env lvl (xs @ ys) b = rx_all env lvl ys (rx_all env lvl xs b)"
  by (simp_all add: rx_all_def)

definition spins :: "Env \<Rightarrow> nat \<Rightarrow> Lpc \<Rightarrow> Lpc" where
  "spins env n = Thermal_Spin env ^^ n"

lemma spins_Suc: "spins env (Suc n) st = spins env n (Thermal_Spin env st)"
  by (simp add: spins_def funpow_swap1)

lemma rx_silent:
  assumes "snd (feed_all (bd_decoder b) bs) = []"
  shows "rx_all env lvl bs b = b\<lparr>bd_lpc := spins env (length bs) (bd_lpc b),
    bd_decoder := fst (feed_all (bd_decoder b) bs)\<rparr>"
  using assms
proof (induction bs arbitrary: b)
  case Nil
  then show ?case by (simp add: spins_def)
next
  case (Cons x bs)
  obtain d r where f: "feed (bd_decoder b) x = (d, r)" by fastforce
  obtain d' fs where fs: "feed_all d bs = (d', fs)" by fastforce
  have r: "r = None" "fs = []" using Cons.prems f fs by (auto split: option.splits)
  have one: "rx_byte env lvl x b = b\<lparr>bd_lpc := Thermal_Spin env (bd_lpc b), bd_decoder := d\<rparr>"
    using f r by (simp add: rx_byte_def on_lpc_def Let_def)
  show ?case
    using Cons.IH [of "rx_byte env lvl x b"] f fs r by (simp add: one spins_Suc)
qed

text \<open>A frame appears with the last byte of its encoding, not before.\<close>

lemma enc_msg_split:
  assumes "dec_idle d" and "msg_sendable m"
  shows "\<exists>pre c d1 d2 fr. enc_msg m = pre @ [c] \<and> feed_all d pre = (d1, [])
    \<and> feed d1 c = (d2, Some fr) \<and> dec_idle d2 \<and> received_as fr m"
proof -
  define len :: u8 where "len = word_of_nat (length (snd m))"
  have len: "unat len = length (snd m)" "unat len \<le> MaxPayload"
    using assms(2) by (simp_all add: len_def msg_sendable_def unat_len8)
  define pre where "pre = SyncByte # header_bytes (fst m) len @ snd m"
  define c where "c = frame_crc (fst m) len (snd m)"
  have enc: "enc_msg m = pre @ [c]"
    using len by (simp add: enc_msg_def Encode_alt pre_def c_def len_def [symmetric])
  have idle: "dec_ok d" "dstate d = 0" using assms(1) by (simp_all add: dec_idle_def)
  have "c + 1 \<noteq> c" by simp
  then have "snd (feed_all d (pre @ [c + 1])) = []"
    using feed_frame [OF idle len(2), of "snd m" "fst m" "c + 1"] len(1)
    by (auto simp: pre_def c_def)
  then have silent: "snd (feed_all d pre) = []" by (simp add: feed_all_append)
  define d1 where "d1 = fst (feed_all d pre)"
  obtain d' fr where full: "feed_all d (pre @ [c]) = (d', [fr])" "dec_idle d'" "received_as fr m"
    using lpc_link.step_enc [OF assms] by (auto simp: enc)
  have "feed_all d1 [c] = (d', [fr])"
    using full(1) silent by (auto simp: feed_all_append d1_def)
  then have "feed d1 c = (d', Some fr)" by (auto split: prod.splits option.splits)
  then show ?thesis
    using enc silent full(2,3) unfolding d1_def by (metis prod.collapse)
qed

lemma rx_message:
  assumes "dec_idle (bd_decoder b)" and "msg_sendable m"
  shows "\<exists>n d' fr. dec_idle d' \<and> received_as fr m \<and>
    rx_all env lvl (enc_msg m) b =
      dispatch env lvl fr (b\<lparr>bd_lpc := spins env n (bd_lpc b), bd_decoder := d'\<rparr>)"
proof -
  obtain pre c d1 d2 fr where e: "enc_msg m = pre @ [c]" "feed_all (bd_decoder b) pre = (d1, [])"
    "feed d1 c = (d2, Some fr)" "dec_idle d2" "received_as fr m"
    using enc_msg_split [OF assms] by blast
  have "rx_all env lvl pre b = b\<lparr>bd_lpc := spins env (length pre) (bd_lpc b), bd_decoder := d1\<rparr>"
    using rx_silent [of b pre env lvl] e(2) by simp
  moreover have "Thermal_Spin env (spins env k st) = spins env (Suc k) st" for k st
    by (simp add: spins_def)
  ultimately have "rx_all env lvl (enc_msg m) b = dispatch env lvl fr
      (b\<lparr>bd_lpc := spins env (Suc (length pre)) (bd_lpc b), bd_decoder := d2\<rparr>)"
    using e(1,3) by (simp add: rx_byte_def on_lpc_def Let_def)
  then show ?thesis using e(4,5) by blast
qed

section \<open>The configuration of the coprocessor\<close>

record Cfg =
  c_needs :: bool
  c_state :: HeaterState
  c_modes :: "GpioMode list"
  c_drives :: "PinDrive list"
  c_thermistor :: "f32 \<times> f32 \<times> f32 \<times> f32"
  c_thermistorOk :: bool
  c_model :: Model
  c_pending :: Model
  c_parts :: u8
  c_modelOk :: bool
  c_heater :: "u16 \<times> f32 \<times> f32 \<times> f32 \<times> f32 \<times> u8"
  c_heaterOk :: bool
  c_boost :: f32
  c_pwmFeed :: "f32 \<times> f32"

text \<open>The modes of the pins the host may configure: the heater's entry is masked.\<close>

definition pin_modes :: "Hw \<Rightarrow> GpioMode list" where
  "pin_modes hw = map (\<lambda>i. if i = 4 then Disabled else ps_mode (pstates hw ! i)) [0..<8]"

definition lpc_cfg :: "bool \<Rightarrow> Lpc \<Rightarrow> Cfg" where
  "lpc_cfg needs st =
    \<lparr>c_needs = needs, c_state = th_state st, c_modes = pin_modes (th_hw st), c_drives = pin_drives (th_hw st),
     c_thermistor = (th_r25 st, th_beta st, th_shC st, th_pullupR st),
     c_thermistorOk = th_thermistorConfigured st,
     c_model = th_model st, c_pending = th_pendingModel st, c_parts = th_pendingModelParts st,
     c_modelOk = th_modelConfigured st,
     c_heater = (th_heaterFrequency st, th_upperLimit st, th_lowerLimit st, th_maxTempExcursion st,
       th_maxFaultTime st, th_maxBadReadings st),
     c_heaterOk = th_heaterConfigured st, c_boost = th_extrusionTemperatureBoost st,
     c_pwmFeed = (th_fanPwm st, th_extrusionPwmBoost st)\<rparr>"

definition board_cfg :: "Board \<Rightarrow> Cfg" where
  "board_cfg b = lpc_cfg (bd_needsConfiguration b) (bd_lpc b)"

lemma pin_modes_nth: "i < 8 \<Longrightarrow> pin_modes hw ! i = (if i = 4 then Disabled else ps_mode (pstates hw ! i))"
  by (simp add: pin_modes_def)

lemma length_pin_modes [simp]: "length (pin_modes hw) = 8"
  by (simp add: pin_modes_def)

lemma pin_modes_cong: "pstates a = pstates b \<Longrightarrow> pin_modes a = pin_modes b"
  by (simp add: pin_modes_def)

lemma pin_modes_Configure:
  assumes "FindPin pin = Some i" "length (pstates hw) = 8"
  shows "pin_modes (snd (Configure lvl pin mode v hw)) =
    (if i = 4 then pin_modes hw else (pin_modes hw)[i := mode])"
  using FindPin_Some [OF assms(1)] assms
  by (intro nth_equalityI) (auto simp: pin_modes_nth Configure_pstates nth_list_update)

lemma pin_modes_heater_set: "length (pstates hw) = 8 \<Longrightarrow>
    pin_modes (snd (Pwm_Set PinHeater duty f hw)) = pin_modes hw"
proof -
  assume len: "length (pstates hw) = 8"
  have "ch_pin (channels ! 0) = PinHeater" by (simp add: channels_def)
  then have c: "pin_modes (SetConstant (channels ! 0) v hw) = pin_modes hw" for v
    using pin_modes_Configure [OF FindPin_eval(5)] len
    by (simp add: SetConstant_def) (simp add: pin_modes_def)
  have "pstates (start_timer (channels ! 0) duty f hw) = pstates hw"
    by (simp add: start_timer_def Let_def)
  then have "pin_modes (start_timer (channels ! 0) duty f hw) = pin_modes hw" by (rule pin_modes_cong)
  with c show ?thesis by (simp add: Pwm_Set_def Find_eval)
qed

lemma heater_set_drives: "pin_drives (snd (Pwm_Set PinHeater duty f hw)) = pin_drives hw"
  by (simp add: Pwm_Set_drives [OF FindPin_eval(5)])

text \<open>The analog converter's control register drives no pin.\<close>

lemma adc_write_drives: "pin_drives (reg_write LPC_ADC_CR v hw) = pin_drives hw"
proof -
  have "LPC_ADC_CR \<notin> drive_regs i \<and> LPC_ADC_CR \<noteq> Direction (pd_id (pins ! i))" if "i < 8" for i
    by (rule index_cases [OF that]) (simp_all add: LPC_ADC_CR_def drive_regs_eval directions)
  then show ?thesis by (simp add: pin_drives_def other_write_drive)
qed

lemma ReadAdc_drives: "ReadAdc env st = (r, st') \<Longrightarrow> pin_drives (th_hw st') = pin_drives (th_hw st)"
  by (auto simp: ReadAdc_def set_hw_def Let_def adc_write_drives split: prod.splits)

lemma sum_readings_drives:
  "sum_readings env k acc st = (r, st') \<Longrightarrow> pin_drives (th_hw st') = pin_drives (th_hw st)"
proof (induction k arbitrary: acc st)
  case (Suc k)
  obtain x st1 where x: "ReadAdc env st = (x, st1)" by fastforce
  show ?case
  proof (cases x)
    case None
    then show ?thesis using Suc.prems x ReadAdc_drives [OF x] by simp
  next
    case (Some y)
    then have "sum_readings env k (acc + ucast y) st1 = (r, st')" using Suc.prems x by simp
    from Suc.IH [OF this] show ?thesis using ReadAdc_drives [OF x] by simp
  qed
qed simp

lemma SampleTemperature_drives: "pin_drives (th_hw (snd (SampleTemperature env st))) = pin_drives (th_hw st)"
proof -
  obtain r st1 where s: "sum_readings env 8 0 st = (r, st1)" by fastforce
  then show ?thesis
    using sum_readings_drives [OF s] by (cases r) (simp_all add: SampleTemperature_def Let_def)
qed

lemma sampled_cfg:
  assumes "sampled st st'" "pin_drives (th_hw st') = pin_drives (th_hw st)"
  shows "lpc_cfg n st' = lpc_cfg n st"
proof -
  have pm: "pin_modes (th_hw st) = pin_modes (th_hw st')"
    using assms by (intro pin_modes_cong) (simp add: sampled_def)
  have "lpc_cfg n (unsample st st') = lpc_cfg n st'"
    by (simp add: lpc_cfg_def unsample_def pm assms(2))
  then show ?thesis using assms by (simp add: sampled_def)
qed

lemma control_sample_cfg:
  assumes "control_sample env st = (good, d, gd, st')"
  shows "lpc_cfg n st' = lpc_cfg n st" and "pstates (th_hw st') = pstates (th_hw st)"
proof -
  obtain g s where e: "SampleTemperature env st = (g, s)" by fastforce
  have sm: "sampled st s" using SampleTemperature_sampled [of st env] e by simp
  have "lpc_cfg n (snd (snd (snd (control_sample env st)))) = lpc_cfg n s
      \<and> th_hw (snd (snd (snd (control_sample env st)))) = th_hw s"
    by (simp add: control_sample_def e Let_def lpc_cfg_def)
  then show "lpc_cfg n st' = lpc_cfg n st" "pstates (th_hw st') = pstates (th_hw st)"
    using assms sampled_cfg [OF sm] SampleTemperature_drives [of env st] sm e by (simp_all add: sampled_def)
qed

lemma heater_out_drives: "pin_drives (heater_out env pwm st) = pin_drives (th_hw st)"
  by (simp add: heater_out_def heater_set_drives)

lemma heater_out_modes:
  "length (pstates (th_hw st)) = 8 \<Longrightarrow> pin_modes (heater_out env pwm st) = pin_modes (th_hw st)"
  by (simp add: heater_out_def pin_modes_heater_set)

text \<open>A control step of an inactive heater leaves the configuration alone.\<close>

lemma Thermal_Spin_cfg:
  assumes "\<not> Active st" and "length (pstates (th_hw st)) = 8"
  shows "lpc_cfg n (Thermal_Spin env st) = lpc_cfg n st"
    and "length (pstates (th_hw (Thermal_Spin env st))) = 8"
proof -
  define st0 where "st0 = st\<lparr>th_lastSampleTime := th_millisTicks st\<rparr>"
  obtain good d gd st1 where s: "control_sample env st0 = (good, d, gd, st1)" by (metis surj_pair)
  have a: "\<not> Active st1" using control_sample_frame(2) [OF s] assms(1) by (simp add: st0_def)
  have ps: "pstates (th_hw st1) = pstates (th_hw st)"
    using control_sample_cfg(2) [OF s] by (simp add: st0_def)
  have c: "lpc_cfg n st1 = lpc_cfg n st"
    using control_sample_cfg(1) [OF s, of n] by (simp add: st0_def lpc_cfg_def)
  have e: "Control env st0 = (ApplyHeater env f0 st1)
      \<lparr>th_averagePwm := f_mul (th_averagePwm st1) (f_lit 95 100), th_statusDirty := True\<rparr>"
    using a by (intro Control_returns [OF s]) (simp add: control_checks_def)
  have "lpc_cfg n (Control env st0) = lpc_cfg n st1"
    using heater_out_modes [of st1 env f0] ps assms(2) by (simp add: e lpc_cfg_def heater_out_drives)
  then show "lpc_cfg n (Thermal_Spin env st) = lpc_cfg n st"
    using c by (simp add: Thermal_Spin_def Let_def st0_def [symmetric])
  have "length (pstates (th_hw (Control env st0))) = 8"
    using ps assms(2) by (simp add: e)
  then show "length (pstates (th_hw (Thermal_Spin env st))) = 8"
    using assms(2) by (simp add: Thermal_Spin_def Let_def st0_def [symmetric])
qed

lemma lpc_cfg_state: "lpc_cfg n a = lpc_cfg n b \<Longrightarrow> th_state a = th_state b"
  by (simp add: lpc_cfg_def)

lemma spins_cfg:
  assumes "\<not> Active st" and "length (pstates (th_hw st)) = 8"
  shows "lpc_cfg n (spins env k st) = lpc_cfg n st \<and> \<not> Active (spins env k st)
    \<and> length (pstates (th_hw (spins env k st))) = 8"
  using assms
proof (induction k arbitrary: st)
  case 0
  then show ?case by (simp add: spins_def)
next
  case (Suc k)
  note one = Thermal_Spin_cfg [OF Suc.prems]
  have "\<not> Active (Thermal_Spin env st)"
    using Suc.prems(1) lpc_cfg_state [OF one(1)] by (simp add: Active_def)
  then show ?case using Suc.IH [of "Thermal_Spin env st"] one by (simp add: spins_Suc)
qed

section \<open>What the messages do to the configuration\<close>

definition cfg_reset :: "Cfg \<Rightarrow> Cfg" where
  "cfg_reset c = c\<lparr>c_needs := True, c_state := HOff, c_modes := replicate 8 Disabled, c_drives := replicate 8 Floating,
     c_thermistorOk := False, c_parts := 0, c_modelOk := False,
     c_heater := (250, f_lit 2000 1, AbsoluteZero, f_lit 15 1, f_lit 5 1, 3),
     c_heaterOk := False, c_boost := f0, c_pwmFeed := (f0, f0)\<rparr>"

definition thermistor_of :: "u8 list \<Rightarrow> f32 \<times> f32 \<times> f32 \<times> f32" where
  "thermistor_of p = (ReadFloat p 0, ReadFloat p 4, ReadFloat p 8, ReadFloat p 12)"

definition thermistor_valid :: "f32 \<times> f32 \<times> f32 \<times> f32 \<Rightarrow> bool" where
  "thermistor_valid t = (case t of (r, b, c, pull) \<Rightarrow>
     f_isfinite r \<and> f_isfinite b \<and> f_isfinite c \<and> f_isfinite pull
     \<and> f_gt r f0 \<and> f_gt b f0 \<and> f_gt pull f0)"

definition model_a :: "u8 list \<Rightarrow> Model \<Rightarrow> Model" where
  "model_a p m = m\<lparr>m_heatingRate := ReadFloat p 0, m_basicCoolingRate := ReadFloat p 4,
     m_fanCoolingRate := ReadFloat p 8, m_coolingRateExponent := ReadFloat p 12\<rparr>"

definition model_b :: "u8 list \<Rightarrow> Model \<Rightarrow> Model" where
  "model_b p m = m\<lparr>m_deadTime := ReadFloat p 0, m_maxPwm := ReadFloat p 4,
     m_overrideKp := ReadFloat p 8, m_overrideRecipTi := ReadFloat p 12\<rparr>"

definition model_c :: "u8 list \<Rightarrow> Model \<Rightarrow> Model" where
  "model_c p m = m\<lparr>m_overrideTd := ReadFloat p 0, m_usePid := p ! 4 AND 0x01 \<noteq> 0,
     m_inverted := p ! 4 AND 0x02 \<noteq> 0, m_pidOverridden := p ! 4 AND 0x04 \<noteq> 0\<rparr>"

definition heater_of :: "u8 list \<Rightarrow> u16 \<times> f32 \<times> f32 \<times> f32 \<times> f32 \<times> u8" where
  "heater_of p = (Thermal_ReadU16 p 0,
     f_mul (f_of_int (sint (Thermal_ReadU16 p 2))) (f_lit 1 10),
     f_mul (f_of_int (sint (Thermal_ReadU16 p 4))) (f_lit 1 10),
     f_mul (f_of_nat (unat (Thermal_ReadU16 p 6))) (f_lit 1 100),
     f_mul (f_of_nat (unat (Thermal_ReadU16 p 8))) (f_lit 1 10), p ! 10)"

definition heater_valid :: "u16 \<times> f32 \<times> f32 \<times> f32 \<times> f32 \<times> u8 \<Rightarrow> bool" where
  "heater_valid t = (case t of (f, up, lo, _) \<Rightarrow> f \<noteq> 0 \<and> \<not> f_le up lo)"

text \<open>A message of the configuration class with its payload, and its effect.\<close>

definition cfg_step :: "MessageType \<times> u8 list \<Rightarrow> Cfg \<Rightarrow> Cfg" where
  "cfg_step m c = (let p = snd m in
    case fst m of
      ConfigurationReset \<Rightarrow> cfg_reset c
    | ConfigurationComplete \<Rightarrow> c\<lparr>c_needs := False\<rparr>
    | GpioConfig \<Rightarrow> (case FindPin (p ! 0) of None \<Rightarrow> c
        | Some i \<Rightarrow> if i = 4 then c else c\<lparr>c_modes := (c_modes c)[i := mode_of (p ! 1)],
            c_drives := (c_drives c)[i := configured_drive (mode_of (p ! 1)) (p ! 2 \<noteq> 0)]\<rparr>)
    | PwmWrite \<Rightarrow> (case FindPin (p ! 0) of None \<Rightarrow> c
        | Some i \<Rightarrow> if i = 4 then c else c\<lparr>c_drives := (c_drives c)[i := pwm_drive (p ! 0)
            (le16 (p ! 1) (p ! 2)) (le16 (p ! 3) (p ! 4)) (c_drives c ! i)]\<rparr>)
    | ThermistorConfig \<Rightarrow>
        c\<lparr>c_thermistor := thermistor_of p, c_thermistorOk := thermistor_valid (thermistor_of p)\<rparr>
    | HeaterModelA \<Rightarrow> c\<lparr>c_pending := model_a p (c_model c), c_parts := 1\<rparr>
    | HeaterModelB \<Rightarrow> if c_parts c = 1 then c\<lparr>c_pending := model_b p (c_pending c), c_parts := 3\<rparr>
        else c\<lparr>c_parts := 0\<rparr>
    | HeaterModelC \<Rightarrow>
        if c_parts c \<noteq> 3 then c\<lparr>c_parts := 0\<rparr>
        else if p ! 4 AND NOT 0x07 \<noteq> 0
          then c\<lparr>c_pending := (c_pending c)\<lparr>m_overrideTd := ReadFloat p 0\<rparr>, c_parts := 0\<rparr>
        else let m = model_c p (c_pending c)
          in if ModelReady m then c\<lparr>c_model := m, c_pending := m, c_parts := 0, c_modelOk := True\<rparr>
             else c\<lparr>c_pending := m, c_parts := 0\<rparr>
    | HeaterConfig \<Rightarrow> if heater_valid (heater_of p)
        then c\<lparr>c_heater := heater_of p, c_heaterOk := True\<rparr> else c\<lparr>c_heaterOk := False\<rparr>
    | HeaterFeedForward \<Rightarrow>
        if f_isfinite (ReadFloat p 0) \<and> f_isfinite (ReadFloat p 4) \<and> f_isfinite (ReadFloat p 8)
        then c\<lparr>c_boost := ReadFloat p 8\<rparr> else c\<lparr>c_state := HFault\<rparr>
    | _ \<Rightarrow> c)"

text \<open>
  The messages of the class: their lengths, and for a PWM value the pin is a PWM output already.
\<close>

definition cfg_msg :: "MessageType \<times> u8 list \<Rightarrow> Cfg \<Rightarrow> bool" where
  "cfg_msg m c \<longleftrightarrow> (let p = snd m in
    case fst m of
      ConfigurationReset \<Rightarrow> p = []
    | ConfigurationComplete \<Rightarrow> p = []
    | GpioConfig \<Rightarrow> length p = 3
    | PwmWrite \<Rightarrow> length p = 5 \<and> p ! 0 \<noteq> PinHeater
        \<and> (\<forall>i. FindPin (p ! 0) = Some i \<longrightarrow> c_modes c ! i = PwmMode)
    | ThermistorConfig \<Rightarrow> length p = 16
    | HeaterModelA \<Rightarrow> length p = 16
    | HeaterModelB \<Rightarrow> length p = 16
    | HeaterModelC \<Rightarrow> length p = 5
    | HeaterConfig \<Rightarrow> length p = 11
    | HeaterFeedForward \<Rightarrow> length p = 12
    | _ \<Rightarrow> False)"

lemma cfg_msg_sendable: "cfg_msg m c \<Longrightarrow> msg_sendable m"
  by (cases "fst m") (auto simp: cfg_msg_def msg_sendable_def msg_ok_def MaxPayload_def Let_def)

text \<open>All pins are disabled after \<open>Gpio::Init\<close>.\<close>

lemma init_pins_modes:
  assumes "ps = drop i pins" "length (pstates hw) = 8" "k < 8"
  shows "ps_mode (pstates (init_pins lvl i ps hw) ! k) =
    (if i \<le> k then Disabled else ps_mode (pstates hw ! k))"
  using assms
proof (induction ps arbitrary: i hw)
  case Nil
  then have "8 \<le> i" by simp
  then show ?case using Nil.prems(3) by simp
next
  case (Cons p ps)
  then have i: "i < 8" by (metis drop_eq_Nil length_pins list.distinct(1) not_less)
  then have p: "p = pins ! i" "ps = drop (Suc i) pins"
    using Cons.prems by (simp_all add: Cons_nth_drop_Suc [symmetric])
  define hw1 where "hw1 = snd (Configure lvl (pd_id p) Disabled False
    (set_pstate i \<lparr>ps_mode = Disabled, ps_lastValue = False\<rparr> hw))"
  have len: "length (pstates hw1) = 8" using Cons.prems by (simp add: hw1_def)
  have "ps_mode (pstates hw1 ! k) = (if k = i then Disabled else ps_mode (pstates hw ! k))"
    using i Cons.prems Configure_pstates [OF FindPin_index [OF i]]
    by (simp add: hw1_def p(1) nth_list_update)
  then show ?case
    using Cons.IH [OF p(2) len Cons.prems(3)] by (auto simp: hw1_def [symmetric])
qed

lemma Gpio_Init_modes:
  assumes "length (pstates hw) = 8"
  shows "pin_modes (Gpio_Init lvl hw) = replicate 8 Disabled"
  using init_pins_modes [of pins 0 _ _ lvl] assms
  by (intro nth_equalityI) (simp_all add: pin_modes_nth Gpio_Init_def)

lemma Pwm_Set_modes:
  assumes "pin \<noteq> PinHeater" "length (pstates hw) = 8"
    and "\<forall>i. FindPin pin = Some i \<longrightarrow> pin_modes hw ! i = PwmMode"
  shows "pin_modes (snd (Pwm_Set pin duty f hw)) = pin_modes hw"
proof (cases "Find pin")
  case (Some ch)
  obtain i where i: "ch_pin ch = pin" "FindPin pin = Some i" using Find_FindPin [OF Some] by blast
  have m: "pin_modes hw ! i = PwmMode" using assms(3) i by blast
  have c: "pin_modes (SetConstant ch v hw) = pin_modes hw" for v
  proof -
    have "pin_modes (reg_write (TimerRegister ch 4) 0 hw) = pin_modes hw"
      by (rule pin_modes_cong) simp
    then show ?thesis
      using pin_modes_Configure [OF i(2), of "reg_write (TimerRegister ch 4) 0 hw"] assms(2) m i(1)
        list_update_id [of "pin_modes hw" i] by (simp add: SetConstant_def)
  qed
  have "pstates (start_timer ch duty f hw) = pstates hw"
    by (simp add: start_timer_def Let_def)
  then have "pin_modes (start_timer ch duty f hw) = pin_modes hw" by (rule pin_modes_cong)
  with c Some show ?thesis by (simp add: Pwm_Set_def)
qed (simp add: Pwm_Set_def)

section \<open>The code refines \<open>cfg_step\<close>\<close>

text \<open>The receiver's payload array agrees with the sent payload where the handlers read it.\<close>

lemma received_nth:
  "received_as fr (t, p) \<Longrightarrow> k < length p \<Longrightarrow> payload fr ! k = p ! k"
  unfolding received_as_def by (metis nth_take snd_conv)

lemma received_float:
  assumes "received_as fr (t, p)" "k + 4 \<le> length p"
  shows "ReadFloat (payload fr) k = ReadFloat p k"
  using received_nth [OF assms(1)] assms(2) by (simp add: ReadFloat_def)

lemma received_u16:
  assumes "received_as fr (t, p)" "k + 2 \<le> length p"
  shows "Thermal_ReadU16 (payload fr) k = Thermal_ReadU16 p k"
  using received_nth [OF assms(1)] assms(2) by (simp add: Thermal_ReadU16_def)

lemma received_flength:
  assumes "received_as fr (t, p)" and "n < 256"
  shows "flength fr = word_of_nat n \<longleftrightarrow> length p = n" and "unat (flength fr) = length p"
proof -
  show u: "unat (flength fr) = length p" using assms(1) by (simp add: received_as_def)
  have "unat (word_of_nat n :: u8) = n" using assms(2) by (intro unat_of_nat_small) simp
  then show "flength fr = word_of_nat n \<longleftrightarrow> length p = n"
    using u by (metis word_unat_eq_iff)
qed

lemma lpc_cfg_sel [simp]:
  "c_needs (lpc_cfg n st) = n" "c_state (lpc_cfg n st) = th_state st"
  "c_modes (lpc_cfg n st) = pin_modes (th_hw st)" "c_drives (lpc_cfg n st) = pin_drives (th_hw st)"
  "c_model (lpc_cfg n st) = th_model st" "c_pending (lpc_cfg n st) = th_pendingModel st"
  "c_parts (lpc_cfg n st) = th_pendingModelParts st"
  by (simp_all add: lpc_cfg_def)

lemma thermistor_refines:
  assumes "received_as fr (ThermistorConfig, p)" "length p = 16" "\<not> Active st"
  shows "lpc_cfg n (HandleFrame env fr st) = cfg_step (ThermistorConfig, p) (lpc_cfg n st)"
    and "th_hw (HandleFrame env fr st) = th_hw st"
proof -
  note r = received_float [OF assms(1)] received_flength(2) [OF assms(1), of 0]
  have t: "ftype fr = ThermistorConfig" using assms(1) by (simp add: received_as_def)
  show "lpc_cfg n (HandleFrame env fr st) = cfg_step (ThermistorConfig, p) (lpc_cfg n st)"
    "th_hw (HandleFrame env fr st) = th_hw st"
    using assms(2,3) r
    by (simp_all add: HandleFrame_def t ConfigureThermistor_def Let_def not_configured_def
        cfg_step_def lpc_cfg_def thermistor_of_def thermistor_valid_def Active_def)
qed

lemma heater_refines:
  assumes "received_as fr (HeaterConfig, p)" "length p = 11" "\<not> Active st"
  shows "lpc_cfg n (HandleFrame env fr st) = cfg_step (HeaterConfig, p) (lpc_cfg n st)"
    and "th_hw (HandleFrame env fr st) = th_hw st"
proof -
  note r = received_u16 [OF assms(1)] received_flength(2) [OF assms(1), of 0]
    received_nth [OF assms(1), of 10]
  have t: "ftype fr = HeaterConfig" using assms(1) by (simp add: received_as_def)
  show "lpc_cfg n (HandleFrame env fr st) = cfg_step (HeaterConfig, p) (lpc_cfg n st)"
    "th_hw (HandleFrame env fr st) = th_hw st"
    using assms(2,3) r
    by (simp_all add: HandleFrame_def t ConfigureHeater_def Let_def not_configured_def
        cfg_step_def lpc_cfg_def heater_of_def heater_valid_def Active_def)
qed

lemma model_refines:
  assumes "received_as fr (t, p)" "\<not> Active st"
    and "t = HeaterModelA \<and> length p = 16 \<or> t = HeaterModelB \<and> length p = 16
      \<or> t = HeaterModelC \<and> length p = 5"
  shows "lpc_cfg n (HandleFrame env fr st) = cfg_step (t, p) (lpc_cfg n st)"
    and "th_hw (HandleFrame env fr st) = th_hw st"
proof -
  note r = received_float [OF assms(1)] received_flength(2) [OF assms(1), of 0]
    received_nth [OF assms(1), of 4]
  have ty: "ftype fr = t" using assms(1) by (simp add: received_as_def)
  have a: "\<not> HCooling \<le> th_state st" using assms(2) by (simp add: Active_def)
  consider "t = HeaterModelA" "length p = 16" | "t = HeaterModelB" "length p = 16"
    | "t = HeaterModelC" "length p = 5" using assms(3) by blast
  then have "lpc_cfg n (HandleFrame env fr st) = cfg_step (t, p) (lpc_cfg n st)
      \<and> th_hw (HandleFrame env fr st) = th_hw st"
  proof cases
    case 1
    then show ?thesis
      using r by (simp add: HandleFrame_def ty ConfigureModelA_def cfg_step_def lpc_cfg_def model_a_def)
  next
    case 2
    then show ?thesis
      using r a by (simp add: HandleFrame_def ty ConfigureModelB_def RejectModelUpdate_def Let_def
          Active_def cfg_step_def lpc_cfg_def model_b_def)
  next
    case 3
    then show ?thesis
      using r a by (simp add: HandleFrame_def ty ConfigureModelC_def RejectModelUpdate_def Let_def
          Active_def cfg_step_def lpc_cfg_def model_c_def)
  qed
  then show "lpc_cfg n (HandleFrame env fr st) = cfg_step (t, p) (lpc_cfg n st)"
    "th_hw (HandleFrame env fr st) = th_hw st" by simp_all
qed

lemma feed_forward_refines:
  assumes "received_as fr (HeaterFeedForward, p)" "length p = 12" "\<not> Active st"
    and "length (pstates (th_hw st)) = 8"
  shows "lpc_cfg n (HandleFrame env fr st) = cfg_step (HeaterFeedForward, p) (lpc_cfg n st)"
    and "length (pstates (th_hw (HandleFrame env fr st))) = 8"
proof -
  note r = received_float [OF assms(1)] received_flength(2) [OF assms(1), of 0]
  have t: "ftype fr = HeaterFeedForward" using assms(1) by (simp add: received_as_def)
  have s: "th_state st \<noteq> HStable" using assms(3) by (auto simp: Active_def state_order)
  show "lpc_cfg n (HandleFrame env fr st) = cfg_step (HeaterFeedForward, p) (lpc_cfg n st)"
    "length (pstates (th_hw (HandleFrame env fr st))) = 8"
    using assms(2,4) r s heater_out_modes [OF assms(4), of env f0] heater_out_drives [of env f0]
    by (simp_all add: HandleFrame_def t ConfigureFeedForward_def Let_def SetFault_def
        cfg_step_def lpc_cfg_def)
qed

definition quiet :: "Board \<Rightarrow> bool" where
  "quiet b \<longleftrightarrow> \<not> Active (bd_lpc b) \<and> length (pstates (th_hw (bd_lpc b))) = 8"

lemma reset_refines:
  assumes "length (pstates (th_hw (bd_lpc b))) = 8" "received_as fr (ConfigurationReset, [])"
  shows "board_cfg (dispatch env lvl fr b) = cfg_step (ConfigurationReset, []) (board_cfg b)"
    and "length (pstates (th_hw (bd_lpc (dispatch env lvl fr b)))) = 8"
proof -
  have t: "ftype fr = ConfigurationReset" "flength fr = 0"
    using assms(2) received_flength(1) [OF assms(2), of 0] by (simp_all add: received_as_def)
  have m: "pin_modes (heater_out env f0 st) = replicate 8 Disabled"
    if "th_hw st = Gpio_Init lvl (th_hw (bd_lpc b))" for st
    using heater_out_modes [of st env f0] Gpio_Init_modes [OF assms(1), of lvl] that assms(1) by simp
  have d: "pin_drives (heater_out env f0 st) = replicate 8 Floating"
    if "th_hw st = Gpio_Init lvl (th_hw (bd_lpc b))" for st
    using that by (simp add: heater_out_drives Gpio_Init_drives)
  show "board_cfg (dispatch env lvl fr b) = cfg_step (ConfigurationReset, []) (board_cfg b)"
    "length (pstates (th_hw (bd_lpc (dispatch env lvl fr b)))) = 8"
    using assms(1) m d
    by (simp_all add: dispatch_def t Let_def board_cfg_def lpc_cfg_def ResetConfiguration_def
        set_hw_def cfg_step_def cfg_reset_def)
qed

text \<open>One configuration message, received by a quiet coprocessor, does what \<open>cfg_step\<close> says.\<close>

lemma dispatch_refines:
  assumes q: "quiet b" and r: "received_as fr m" and m: "cfg_msg m (board_cfg b)"
  shows "board_cfg (dispatch env lvl fr b) = cfg_step m (board_cfg b)
    \<and> quiet (dispatch env lvl fr b)"
proof -
  obtain t p where tp: "m = (t, p)" by fastforce
  have ty: "ftype fr = t" using r by (simp add: received_as_def tp)
  note len = received_flength(1) [OF r [unfolded tp]] and nth = received_nth [OF r [unfolded tp]]
  have hw: "length (pstates (th_hw (bd_lpc b))) = 8" and a: "\<not> Active (bd_lpc b)"
    using q by (simp_all add: quiet_def)
  have act: "Active x = (HCooling \<le> c_state (lpc_cfg n x))" for x n by (simp add: Active_def)
  have thermal: "board_cfg (on_lpc f b) = cfg_step m (board_cfg b) \<and> quiet (on_lpc f b)"
    if "lpc_cfg (bd_needsConfiguration b) (f (bd_lpc b)) = cfg_step m (lpc_cfg (bd_needsConfiguration b) (bd_lpc b))"
      "length (pstates (th_hw (f (bd_lpc b)))) = 8"
      "c_state (cfg_step m (lpc_cfg (bd_needsConfiguration b) (bd_lpc b))) \<le> HSuspended" for f
    using that act [of "f (bd_lpc b)" "bd_needsConfiguration b"]
    by (simp add: board_cfg_def quiet_def) (auto simp: state_order)
  have st: "c_state (cfg_step m (lpc_cfg n (bd_lpc b))) \<le> HSuspended" for n
    using a by (cases t) (auto simp: tp cfg_step_def cfg_reset_def Active_def state_order Let_def
        split: option.splits)
  show ?thesis
  proof (cases t)
    case GpioConfig
    have l: "flength fr = 3" "length p = 3" using len [of 3] m by (simp_all add: tp GpioConfig cfg_msg_def)
    have n: "payload fr ! 0 = p ! 0" "payload fr ! 1 = p ! 1" "payload fr ! 2 = p ! 2"
      using nth l by simp_all
    have step: "dispatch env lvl fr b = (if p ! 0 = PinHeater then b
        else on_lpc (set_hw (\<lambda>hw. snd (Configure lvl (p ! 0) (mode_of (p ! 1)) (p ! 2 \<noteq> 0) hw))) b)"
      using n l by (simp add: dispatch_def ty GpioConfig)
    show ?thesis
    proof (cases "FindPin (p ! 0)")
      case None
      then show ?thesis
        using q by (simp add: step tp GpioConfig cfg_step_def Configure_unknown set_hw_def on_lpc_def)
    next
      case (Some i)
      have four: "i = 4 \<longleftrightarrow> p ! 0 = PinHeater"
        by (rule known_pin_cases [OF Some]) (simp_all add: pin_ids)
      show ?thesis
      proof (cases "p ! 0 = PinHeater")
        case True
        then show ?thesis using q four Some by (simp add: step tp GpioConfig cfg_step_def)
      next
        case False
        show ?thesis
          unfolding step if_not_P [OF False]
          by (rule thermal, use False four hw st Some pin_modes_Configure [OF Some hw] Configure_drives [OF Some] in
            \<open>simp_all add: tp GpioConfig cfg_step_def set_hw_def\<close>)
            (simp add: lpc_cfg_def)
      qed
    qed
  next
    case PwmWrite
    have l: "flength fr = 5" "length p = 5" "p ! 0 \<noteq> PinHeater"
      "\<forall>i. FindPin (p ! 0) = Some i \<longrightarrow> pin_modes (th_hw (bd_lpc b)) ! i = PwmMode"
      using len [of 5] m by (simp_all add: tp PwmWrite cfg_msg_def board_cfg_def)
    have n: "payload fr ! k = p ! k" if "k < 5" for k using nth l that by simp
    have step: "dispatch env lvl fr b = on_lpc (set_hw (\<lambda>hw. snd (Pwm_Set (p ! 0)
        (le16 (p ! 1) (p ! 2)) (le16 (p ! 3) (p ! 4)) hw))) b"
      using n l by (simp add: dispatch_def ty PwmWrite Let_def)
    have pins: "pin_drives (snd (Pwm_Set (p ! 0) duty f hw)) = (case FindPin (p ! 0) of None \<Rightarrow> pin_drives hw
        | Some i \<Rightarrow> if i = 4 then pin_drives hw
            else (pin_drives hw)[i := pwm_drive (p ! 0) duty f (pin_drives hw ! i)])" for duty f hw
    proof (cases "FindPin (p ! 0)")
      case None
      then have "Find (p ! 0) = None" using Find_FindPin by (metis not_None_eq option.distinct(1))
      then show ?thesis by (simp add: None Pwm_Set_def)
    qed (simp add: Pwm_Set_drives)
    show ?thesis
      unfolding step
      by (rule thermal, use hw st Pwm_Set_modes [OF l(3) hw l(4)] in
        \<open>simp_all add: tp PwmWrite cfg_step_def set_hw_def lpc_cfg_def pins split: option.splits\<close>)
  next
    case ThermistorConfig
    have "dispatch env lvl fr b = on_lpc (HandleFrame env fr) b"
      by (simp add: dispatch_def ty ThermistorConfig)
    then show ?thesis
      using thermal [OF _ _ st] thermistor_refines [OF r [unfolded tp ThermistorConfig] _ a] m hw
      by (simp add: tp ThermistorConfig cfg_msg_def)
  next
    case HeaterConfig
    have "dispatch env lvl fr b = on_lpc (HandleFrame env fr) b"
      by (simp add: dispatch_def ty HeaterConfig)
    then show ?thesis
      using thermal [OF _ _ st] heater_refines [OF r [unfolded tp HeaterConfig] _ a] m hw
      by (simp add: tp HeaterConfig cfg_msg_def)
  next
    case HeaterModelA
    have "dispatch env lvl fr b = on_lpc (HandleFrame env fr) b"
      by (simp add: dispatch_def ty HeaterModelA)
    then show ?thesis
      using thermal [OF _ _ st] model_refines [OF r [unfolded tp HeaterModelA] a] m hw
      by (simp add: tp HeaterModelA cfg_msg_def)
  next
    case HeaterModelB
    have "dispatch env lvl fr b = on_lpc (HandleFrame env fr) b"
      by (simp add: dispatch_def ty HeaterModelB)
    then show ?thesis
      using thermal [OF _ _ st] model_refines [OF r [unfolded tp HeaterModelB] a] m hw
      by (simp add: tp HeaterModelB cfg_msg_def)
  next
    case HeaterModelC
    have "dispatch env lvl fr b = on_lpc (HandleFrame env fr) b"
      by (simp add: dispatch_def ty HeaterModelC)
    then show ?thesis
      using thermal [OF _ _ st] model_refines [OF r [unfolded tp HeaterModelC] a] m hw
      by (simp add: tp HeaterModelC cfg_msg_def)
  next
    case HeaterFeedForward
    have "dispatch env lvl fr b = on_lpc (HandleFrame env fr) b"
      by (simp add: dispatch_def ty HeaterFeedForward)
    then show ?thesis
      using thermal [OF _ _ st] feed_forward_refines [OF r [unfolded tp HeaterFeedForward] _ a hw] m
      by (simp add: tp HeaterFeedForward cfg_msg_def)
  next
    case ConfigurationComplete
    have "flength fr = 0" using len [of 0] m by (simp add: tp ConfigurationComplete cfg_msg_def)
    then show ?thesis
      using q by (simp add: dispatch_def ty ConfigurationComplete tp cfg_step_def board_cfg_def
          lpc_cfg_def quiet_def)
  next
    case ConfigurationReset
    have "p = []" using m by (simp add: tp ConfigurationReset cfg_msg_def)
    then have r0: "received_as fr (ConfigurationReset, [])" using r tp ConfigurationReset by simp
    note rr = reset_refines [OF hw r0, of env lvl]
    have "c_state (board_cfg (dispatch env lvl fr b)) = HOff"
      unfolding rr(1) by (simp add: cfg_step_def cfg_reset_def)
    then have "\<not> Active (bd_lpc (dispatch env lvl fr b))"
      by (simp add: board_cfg_def Active_def state_order)
    then show ?thesis
      using rr \<open>p = []\<close> by (simp add: tp ConfigurationReset quiet_def)
  qed (use m in \<open>simp_all add: tp cfg_msg_def\<close>)
qed

lemma dispatch_decoder [simp]: "bd_decoder (dispatch env lvl fr b) = bd_decoder b"
  by (cases "ftype fr") (simp_all add: dispatch_def Let_def)

lemma rx_cfg:
  assumes "dec_idle (bd_decoder b)" "quiet b" "cfg_msg m (board_cfg b)"
  shows "board_cfg (rx_all env lvl (enc_msg m) b) = cfg_step m (board_cfg b)
    \<and> quiet (rx_all env lvl (enc_msg m) b) \<and> dec_idle (bd_decoder (rx_all env lvl (enc_msg m) b))"
proof -
  obtain n d' fr where e: "dec_idle d'" "received_as fr m" "rx_all env lvl (enc_msg m) b =
      dispatch env lvl fr (b\<lparr>bd_lpc := spins env n (bd_lpc b), bd_decoder := d'\<rparr>)"
    using rx_message [OF assms(1) cfg_msg_sendable [OF assms(3)]] by blast
  define b1 where "b1 = b\<lparr>bd_lpc := spins env n (bd_lpc b), bd_decoder := d'\<rparr>"
  have "quiet b1" "board_cfg b1 = board_cfg b"
    using assms(2) spins_cfg [of "bd_lpc b" "bd_needsConfiguration b" env n]
    by (simp_all add: b1_def quiet_def board_cfg_def)
  then show ?thesis
    using dispatch_refines [of b1 fr m env lvl] e assms(3) by (simp add: b1_def)
qed

fun cfg_msgs :: "(MessageType \<times> u8 list) list \<Rightarrow> Cfg \<Rightarrow> bool" where
  "cfg_msgs [] c \<longleftrightarrow> True"
| "cfg_msgs (m # ms) c \<longleftrightarrow> cfg_msg m c \<and> cfg_msgs ms (cfg_step m c)"

lemma cfg_msgs_append:
  "cfg_msgs (xs @ ys) c \<longleftrightarrow> cfg_msgs xs c \<and> cfg_msgs ys (fold cfg_step xs c)"
  by (induction xs arbitrary: c) simp_all

lemma rx_cfgs:
  assumes "dec_idle (bd_decoder b)" "quiet b" "cfg_msgs ms (board_cfg b)"
  shows "board_cfg (rx_all env lvl (concat (map enc_msg ms)) b) = fold cfg_step ms (board_cfg b)
    \<and> quiet (rx_all env lvl (concat (map enc_msg ms)) b)
    \<and> dec_idle (bd_decoder (rx_all env lvl (concat (map enc_msg ms)) b))"
  using assms
proof (induction ms arbitrary: b)
  case (Cons m ms)
  define b1 where "b1 = rx_all env lvl (enc_msg m) b"
  have "board_cfg b1 = cfg_step m (board_cfg b)" "quiet b1" "dec_idle (bd_decoder b1)"
    using rx_cfg [of b m env lvl] Cons.prems by (simp_all add: b1_def)
  then show ?case using Cons.IH [of b1] Cons.prems(3) by (simp add: b1_def)
qed simp

text \<open>The first message of a replay, a reset, brings any state of the board to a quiet one.\<close>

lemma spins_thermal_ok: "thermal_ok st \<Longrightarrow> thermal_ok (spins env n st)"
  by (induction n) (simp_all add: spins_def Thermal_Spin_ok)

lemma rx_reset:
  assumes "board_ok b" "dec_idle (bd_decoder b)"
  shows "\<exists>c. board_cfg (rx_all env lvl (enc_msg (ConfigurationReset, [])) b) = cfg_reset c
    \<and> quiet (rx_all env lvl (enc_msg (ConfigurationReset, [])) b)
    \<and> dec_idle (bd_decoder (rx_all env lvl (enc_msg (ConfigurationReset, [])) b))"
proof -
  obtain n d' fr where e: "dec_idle d'" "received_as fr (ConfigurationReset, [])"
      "rx_all env lvl (enc_msg (ConfigurationReset, [])) b =
      dispatch env lvl fr (b\<lparr>bd_lpc := spins env n (bd_lpc b), bd_decoder := d'\<rparr>)"
  proof -
    have "msg_sendable (ConfigurationReset, [])" by (simp add: msg_sendable_def msg_ok_def)
    from rx_message [OF assms(2) this, of env lvl] show ?thesis using that by blast
  qed
  define b1 where "b1 = b\<lparr>bd_lpc := spins env n (bd_lpc b), bd_decoder := d'\<rparr>"
  have len: "length (pstates (th_hw (bd_lpc b1))) = 8"
    using spins_thermal_ok [of "bd_lpc b" env n] assms(1)
    by (simp add: b1_def board_ok_def thermal_ok_def data_ok_def)
  note rr = reset_refines [OF len e(2), of env lvl]
  have c: "board_cfg (dispatch env lvl fr b1) = cfg_reset (board_cfg b1)"
    unfolding rr(1) by (simp add: cfg_step_def)
  then have "c_state (board_cfg (dispatch env lvl fr b1)) = HOff" by (simp add: cfg_reset_def)
  then have "\<not> Active (bd_lpc (dispatch env lvl fr b1))"
    by (simp add: board_cfg_def Active_def state_order)
  then show ?thesis
    using c rr(2) e(1) unfolding e(3) b1_def [symmetric] by (auto simp: quiet_def b1_def)
qed

section \<open>Replaying the configuration\<close>

definition pin_msgs :: "Host \<Rightarrow> nat \<Rightarrow> (MessageType \<times> u8 list) list" where
  "pin_msgs h i =
    (if hl_pinModes h ! i \<noteq> Disabled then
       gpio_config_msg h i #
       (if hl_pinModes h ! i = PwmMode \<and> hl_pwmFrequencies h ! i \<noteq> 0 then [pwm_msg h i] else [])
     else [])"

definition replay_tail :: "Host \<Rightarrow> (MessageType \<times> u8 list) list" where
  "replay_tail h =
    (if hl_thermistorConfigured h then [(ThermistorConfig, hl_thermistorPayload h)] else [])
    @ (if hl_modelConfigured h then [(HeaterModelA, hl_modelAPayload h),
         (HeaterModelB, hl_modelBPayload h), (HeaterModelC, hl_modelCPayload h)] else [])
    @ (if hl_heaterConfigured h then [(HeaterConfig, hl_heaterPayload h)] else [])
    @ (if hl_feedForwardConfigured h then [(HeaterFeedForward, hl_feedForwardPayload h)] else [])
    @ [(ConfigurationComplete, [])]"

definition replay_msgs :: "Host \<Rightarrow> (MessageType \<times> u8 list) list" where
  "replay_msgs h = (ConfigurationReset, []) # concat (map (pin_msgs h) [0..<7]) @ replay_tail h"

lemma Host_Send_out:
  "\<not> hl_firmwareUpdateActive h \<Longrightarrow> Host_Send t p h = h\<lparr>hl_out := hl_out h @ enc_msg (t, p)\<rparr>"
  by (simp add: Host_Send_def enc_msg_def)

lemma pin_messages_out:
  assumes "\<not> hl_firmwareUpdateActive h"
  shows "SendGpioConfig i h = h\<lparr>hl_out := hl_out h @ enc_msg (gpio_config_msg h i)\<rparr>"
    and "SendPwm i (h\<lparr>hl_out := k\<rparr>) = h\<lparr>hl_out := k @ enc_msg (pwm_msg h i)\<rparr>"
    and "pin_msgs (h\<lparr>hl_out := k\<rparr>) = pin_msgs h"
proof -
  have f: "\<not> hl_firmwareUpdateActive (h\<lparr>hl_out := k\<rparr>)" using assms by simp
  have p: "pwm_msg (h\<lparr>hl_out := k\<rparr>) i = pwm_msg h i" for i by (simp add: pwm_msg_def)
  have g: "gpio_config_msg (h\<lparr>hl_out := k\<rparr>) i = gpio_config_msg h i" for i
    by (simp add: gpio_config_msg_def)
  show "SendGpioConfig i h = h\<lparr>hl_out := hl_out h @ enc_msg (gpio_config_msg h i)\<rparr>"
    by (simp only: SendGpioConfig_def Host_Send_out [OF assms] prod.collapse)
  show "SendPwm i (h\<lparr>hl_out := k\<rparr>) = h\<lparr>hl_out := k @ enc_msg (pwm_msg h i)\<rparr>"
    by (simp only: SendPwm_def Host_Send_out [OF f] p prod.collapse) simp
  show "pin_msgs (h\<lparr>hl_out := k\<rparr>) = pin_msgs h"
    by (rule ext) (simp add: pin_msgs_def p g)
qed

lemma replay_pin_out:
  assumes "\<not> hl_firmwareUpdateActive h"
  shows "replay_pin i h = h\<lparr>hl_out := hl_out h @ concat (map enc_msg (pin_msgs h i))\<rparr>"
proof (cases "hl_pinModes h ! i = Disabled")
  case False
  have "replay_pin i h = (let h1 = h\<lparr>hl_out := hl_out h @ enc_msg (gpio_config_msg h i)\<rparr> in
      if hl_pinModes h ! i = PwmMode \<and> hl_pwmFrequencies h ! i \<noteq> 0 then SendPwm i h1 else h1)"
    using False by (simp only: replay_pin_def pin_messages_out(1) [OF assms] if_True not_False_eq_True)
  then show ?thesis
    using False by (simp add: Let_def pin_messages_out(2) [OF assms] pin_msgs_def)
qed (simp add: replay_pin_def pin_msgs_def)

lemma replay_pins_out:
  assumes "\<not> hl_firmwareUpdateActive h"
  shows "fold replay_pin xs h = h\<lparr>hl_out := hl_out h @ concat (map enc_msg (concat (map (pin_msgs h) xs)))\<rparr>"
proof (induction xs rule: rev_induct)
  case (snoc x xs)
  define k where "k = hl_out h @ concat (map enc_msg (concat (map (pin_msgs h) xs)))"
  have f: "\<not> hl_firmwareUpdateActive (h\<lparr>hl_out := k\<rparr>)" using assms by simp
  have "fold replay_pin (xs @ [x]) h = replay_pin x (h\<lparr>hl_out := k\<rparr>)"
    using snoc by (simp add: k_def)
  also have "\<dots> = h\<lparr>hl_out := k @ concat (map enc_msg (pin_msgs h x))\<rparr>"
    by (simp only: replay_pin_out [OF f] pin_messages_out(3) [OF assms]) simp
  finally show ?case by (simp add: k_def)
qed simp

text \<open>What \<open>ReplayConfiguration\<close> writes to the UART.\<close>

lemma Host_Send_out':
  "\<not> hl_firmwareUpdateActive h \<Longrightarrow>
    Host_Send t p (h\<lparr>hl_out := k\<rparr>) = h\<lparr>hl_out := k @ enc_msg (t, p)\<rparr>"
  by (simp add: Host_Send_def enc_msg_def)

lemma ReplayConfiguration_out:
  assumes "\<not> hl_firmwareUpdateActive h"
  shows "ReplayConfiguration h = h\<lparr>hl_out := hl_out h @ concat (map enc_msg (replay_msgs h))\<rparr>"
proof -
  define k where "k = hl_out h @ enc_msg (ConfigurationReset, [])"
  define k2 where "k2 = k @ concat (map enc_msg (concat (map (pin_msgs h) [0..<7])))"
  have f: "\<not> hl_firmwareUpdateActive (h\<lparr>hl_out := k\<rparr>)" using assms by simp
  have pins: "fold replay_pin [0..<NumLpcPins] (h\<lparr>hl_out := k\<rparr>) = h\<lparr>hl_out := k2\<rparr>"
    unfolding replay_pins_out [OF f] NumLpcPins_def pin_messages_out(3) [OF assms] k2_def by simp
  have h1: "Host_Send ConfigurationReset [] h = h\<lparr>hl_out := k\<rparr>"
    by (simp only: Host_Send_out [OF assms] k_def)
  have "ReplayConfiguration h = h\<lparr>hl_out := k2 @ concat (map enc_msg (replay_tail h))\<rparr>"
    unfolding ReplayConfiguration_def Let_def h1 pins
    by (cases "hl_thermistorConfigured h"; cases "hl_modelConfigured h"; cases "hl_heaterConfigured h";
        cases "hl_feedForwardConfigured h"; simp add: Host_Send_out' [OF assms] replay_tail_def)
  then show ?thesis by (simp only: k2_def k_def replay_msgs_def list.simps concat.simps map_append
      concat_append append_assoc)
qed

text \<open>The table index on the coprocessor of the host's pin \<open>i\<close>.\<close>

definition lpc_slot :: "nat \<Rightarrow> nat" where
  "lpc_slot i = (if i < 4 then i else i + 1)"

lemma LpcPinIds_slot: "i < 7 \<Longrightarrow> FindPin (LpcPinIds ! i) = Some (lpc_slot i) \<and> LpcPinIds ! i \<noteq> PinHeater"
proof -
  assume "i < 7"
  then consider "i = 0" | "i = 1" | "i = 2" | "i = 3" | "i = 4" | "i = 5" | "i = 6" by linarith
  then show ?thesis
    by cases (simp_all add: LpcPinIds_def FindPin_eval [unfolded pin_ids] lpc_slot_def pin_ids)
qed

lemma lpc_slot_bounds: "i < 7 \<Longrightarrow> lpc_slot i < 8 \<and> lpc_slot i \<noteq> 4"
  by (auto simp: lpc_slot_def)

lemma lpc_slot_inj: "lpc_slot i = lpc_slot j \<longleftrightarrow> i = j"
  by (auto simp: lpc_slot_def)

definition host_ok :: "Host \<Rightarrow> bool" where
  "host_ok h \<longleftrightarrow> length (hl_pinModes h) = 7 \<and> list_all mode_ok (hl_pinModes h)
     \<and> length (hl_thermistorPayload h) = 16 \<and> length (hl_modelAPayload h) = 16
     \<and> length (hl_modelBPayload h) = 16 \<and> length (hl_modelCPayload h) = 5
     \<and> length (hl_heaterPayload h) = 11 \<and> length (hl_feedForwardPayload h) = 12"

lemma host_mode_ok: "host_ok h \<Longrightarrow> i < 7 \<Longrightarrow> mode_of (mode_byte (hl_pinModes h ! i)) = hl_pinModes h ! i"
  by (auto simp: host_ok_def list_all_length)

text \<open>
  What the host's records say of its pin \<open>i\<close>: the level it starts with, and for a PWM output with a frequency the timer
  setting of its last duty cycle.
\<close>

definition drive_of :: "Host \<Rightarrow> nat \<Rightarrow> PinDrive" where
  "drive_of h i =
    (let start = configured_drive (hl_pinModes h ! i) (hl_pinValues h ! i) in
     if hl_pinModes h ! i = PwmMode \<and> hl_pwmFrequencies h ! i \<noteq> 0
     then pwm_drive (LpcPinIds ! i) (hl_pwmValues h ! i) (hl_pwmFrequencies h ! i) start else start)"

text \<open>The pin messages set each configured pin's mode and output, and nothing else.\<close>

lemma pin_msgs_cfg:
  assumes h: "host_ok h" and i: "i < 7" and len: "length (c_modes c) = 8" "length (c_drives c) = 8"
  shows "cfg_msgs (pin_msgs h i) c
    \<and> fold cfg_step (pin_msgs h i) c =
        (if hl_pinModes h ! i = Disabled then c
         else c\<lparr>c_modes := (c_modes c)[lpc_slot i := hl_pinModes h ! i],
           c_drives := (c_drives c)[lpc_slot i := drive_of h i]\<rparr>)"
proof -
  note slot = LpcPinIds_slot [OF i] lpc_slot_bounds [OF i] and m = host_mode_ok [OF h i]
  let ?d = "configured_drive (hl_pinModes h ! i) (hl_pinValues h ! i)"
  have g: "cfg_msg (gpio_config_msg h i) c" by (simp add: cfg_msg_def gpio_config_msg_def)
  have gs: "cfg_step (gpio_config_msg h i) c = c\<lparr>c_modes := (c_modes c)[lpc_slot i := hl_pinModes h ! i],
      c_drives := (c_drives c)[lpc_slot i := ?d]\<rparr>"
    using slot m by (simp add: cfg_step_def gpio_config_msg_def)
  have p: "cfg_msg (pwm_msg h i) (c\<lparr>c_modes := (c_modes c)[lpc_slot i := PwmMode], c_drives := ds\<rparr>)" for ds
    using slot len by (simp add: cfg_msg_def pwm_msg_def)
  have ps: "cfg_step (pwm_msg h i) x = x\<lparr>c_drives := (c_drives x)[lpc_slot i :=
      pwm_drive (LpcPinIds ! i) (hl_pwmValues h ! i) (hl_pwmFrequencies h ! i) (c_drives x ! lpc_slot i)]\<rparr>" for x
    using slot by (simp add: cfg_step_def pwm_msg_def)
  show ?thesis
    using g gs p ps len slot
    by (cases "hl_pinModes h ! i = PwmMode \<and> hl_pwmFrequencies h ! i \<noteq> 0")
      (auto simp: pin_msgs_def drive_of_def Let_def)
qed

text \<open>A value per pin of the host, at the pin's place in the coprocessor's table, for the first \<open>k\<close> pins.\<close>

definition at_slots :: "(nat \<Rightarrow> 'a) \<Rightarrow> 'a \<Rightarrow> nat \<Rightarrow> 'a list" where
  "at_slots f d k = map (\<lambda>j. if \<exists>i<k. lpc_slot i = j then f (if j < 4 then j else j - 1) else d) [0..<8]"

lemma at_slots_step: "k < 7 \<Longrightarrow> at_slots f d (Suc k) = (at_slots f d k)[lpc_slot k := f k]"
  by (intro nth_equalityI) (auto simp: at_slots_def nth_list_update lpc_slot_def less_Suc_eq)

lemma at_slots_zero: "at_slots f d 0 = replicate 8 d"
  by (rule nth_equalityI) (simp_all add: at_slots_def)

lemma at_slots_free: "k < 7 \<Longrightarrow> (at_slots f d k)[lpc_slot k := d] = at_slots f d k"
  using lpc_slot_bounds [of k]
  by (intro nth_equalityI) (auto simp: at_slots_def nth_list_update lpc_slot_inj)

lemma at_slots_nth: "i < 7 \<Longrightarrow> at_slots f d 7 ! lpc_slot i = f i"
  using lpc_slot_bounds [of i] by (auto simp: at_slots_def lpc_slot_def)

lemma length_at_slots [simp]: "length (at_slots f d k) = 8"
  by (simp add: at_slots_def)

definition replayed_pins :: "Host \<Rightarrow> nat \<Rightarrow> Cfg \<Rightarrow> Cfg" where
  "replayed_pins h k c = c\<lparr>c_modes := at_slots ((!) (hl_pinModes h)) Disabled k,
     c_drives := at_slots (drive_of h) Floating k\<rparr>"

lemma replayed_pins_step:
  assumes h: "host_ok h" and k: "k < 7"
  shows "cfg_msgs (pin_msgs h k) (replayed_pins h k c)
    \<and> fold cfg_step (pin_msgs h k) (replayed_pins h k c) = replayed_pins h (Suc k) c"
proof -
  have len: "length (c_modes (replayed_pins h k c)) = 8" "length (c_drives (replayed_pins h k c)) = 8"
    by (simp_all add: replayed_pins_def)
  have off: "drive_of h k = Floating" if "hl_pinModes h ! k = Disabled"
    using that by (simp add: drive_of_def configured_drive_def)
  show ?thesis
    using pin_msgs_cfg [OF h k len] off by (auto simp: replayed_pins_def at_slots_step [OF k] at_slots_free [OF k])
qed

lemma all_pins_cfg:
  assumes h: "host_ok h" and c: "c_modes c = replicate 8 Disabled" "c_drives c = replicate 8 Floating" and k: "k \<le> 7"
  shows "cfg_msgs (concat (map (pin_msgs h) [0..<k])) c
    \<and> fold cfg_step (concat (map (pin_msgs h) [0..<k])) c = replayed_pins h k c"
  using k
proof (induction k)
  case 0
  show ?case using c by (cases c) (simp add: replayed_pins_def at_slots_zero)
next
  case (Suc k)
  then show ?case using replayed_pins_step [OF h, of k c] by (simp add: cfg_msgs_append)
qed

text \<open>The model the three model payloads describe.\<close>

definition host_model :: "Host \<Rightarrow> Model" where
  "host_model h =
    \<lparr>m_heatingRate = ReadFloat (hl_modelAPayload h) 0, m_basicCoolingRate = ReadFloat (hl_modelAPayload h) 4,
     m_fanCoolingRate = ReadFloat (hl_modelAPayload h) 8,
     m_coolingRateExponent = ReadFloat (hl_modelAPayload h) 12,
     m_deadTime = ReadFloat (hl_modelBPayload h) 0, m_maxPwm = ReadFloat (hl_modelBPayload h) 4,
     m_overrideKp = ReadFloat (hl_modelBPayload h) 8,
     m_overrideRecipTi = ReadFloat (hl_modelBPayload h) 12,
     m_overrideTd = ReadFloat (hl_modelCPayload h) 0,
     m_usePid = hl_modelCPayload h ! 4 AND 0x01 \<noteq> 0,
     m_inverted = hl_modelCPayload h ! 4 AND 0x02 \<noteq> 0,
     m_pidOverridden = hl_modelCPayload h ! 4 AND 0x04 \<noteq> 0\<rparr>"

lemma host_model_parts:
  "model_c (hl_modelCPayload h) (model_b (hl_modelBPayload h) (model_a (hl_modelAPayload h) m))
    = host_model h"
  by (cases m) (simp add: model_a_def model_b_def model_c_def host_model_def)

definition model_valid :: "Host \<Rightarrow> bool" where
  "model_valid h \<longleftrightarrow> hl_modelCPayload h ! 4 AND NOT 0x07 = 0 \<and> ModelReady (host_model h)"

definition feed_forward_valid :: "Host \<Rightarrow> bool" where
  "feed_forward_valid h \<longleftrightarrow> f_isfinite (ReadFloat (hl_feedForwardPayload h) 0)
     \<and> f_isfinite (ReadFloat (hl_feedForwardPayload h) 4)
     \<and> f_isfinite (ReadFloat (hl_feedForwardPayload h) 8)"

text \<open>What a coprocessor configured by the host holds.\<close>

definition configured_as :: "Host \<Rightarrow> Cfg \<Rightarrow> bool" where
  "configured_as h c \<longleftrightarrow> \<not> c_needs c
     \<and> (\<forall>i<7. c_modes c ! lpc_slot i = hl_pinModes h ! i \<and> c_drives c ! lpc_slot i = drive_of h i)
     \<and> (c_thermistorOk c \<longleftrightarrow> hl_thermistorConfigured h \<and> thermistor_valid (thermistor_of (hl_thermistorPayload h)))
     \<and> (c_thermistorOk c \<longrightarrow> c_thermistor c = thermistor_of (hl_thermistorPayload h))
     \<and> (c_modelOk c \<longleftrightarrow> hl_modelConfigured h \<and> model_valid h)
     \<and> (c_modelOk c \<longrightarrow> c_model c = host_model h)
     \<and> (c_heaterOk c \<longleftrightarrow> hl_heaterConfigured h \<and> heater_valid (heater_of (hl_heaterPayload h)))
     \<and> (c_heaterOk c \<longrightarrow> c_heater c = heater_of (hl_heaterPayload h))
     \<and> c_state c = (if hl_feedForwardConfigured h \<and> \<not> feed_forward_valid h then HFault else HOff)
     \<and> c_boost c = (if hl_feedForwardConfigured h \<and> feed_forward_valid h
         then ReadFloat (hl_feedForwardPayload h) 8 else f0)
     \<and> c_pwmFeed c = (f0, f0)"

lemma tail_cfg_msgs: "host_ok h \<Longrightarrow> cfg_msgs (replay_tail h) c"
  by (simp add: replay_tail_def cfg_msgs_append host_ok_def) (simp add: cfg_msg_def)

lemma tail_configures:
  assumes "host_ok h"
  shows "configured_as h (fold cfg_step (replay_tail h)
    (replayed_pins h 7 (cfg_reset c)))"
proof -
  define c0 where "c0 = replayed_pins h 7 (cfg_reset c)"
  have f0: "\<not> c_thermistorOk c0" "\<not> c_modelOk c0" "\<not> c_heaterOk c0" "c_state c0 = HOff"
    and p0: "c_modes c0 = at_slots ((!) (hl_pinModes h)) Disabled 7" "c_drives c0 = at_slots (drive_of h) Floating 7"
    and b0: "c_boost c0 = f0" "c_pwmFeed c0 = (f0, f0)"
    by (simp_all add: c0_def cfg_reset_def replayed_pins_def)
  define c1 where "c1 = fold cfg_step
    (if hl_thermistorConfigured h then [(ThermistorConfig, hl_thermistorPayload h)] else []) c0"
  define c2 where "c2 = fold cfg_step
    (if hl_modelConfigured h then [(HeaterModelA, hl_modelAPayload h),
         (HeaterModelB, hl_modelBPayload h), (HeaterModelC, hl_modelCPayload h)] else []) c1"
  define c3 where "c3 = fold cfg_step
    (if hl_heaterConfigured h then [(HeaterConfig, hl_heaterPayload h)] else []) c2"
  define c4 where "c4 = fold cfg_step
    (if hl_feedForwardConfigured h then [(HeaterFeedForward, hl_feedForwardPayload h)] else []) c3"
  have e: "fold cfg_step (replay_tail h) c0 = c4\<lparr>c_needs := False\<rparr>"
    by (simp add: replay_tail_def c4_def c3_def c2_def c1_def) (simp add: cfg_step_def)
  have 1: "c_thermistorOk c1 = (hl_thermistorConfigured h \<and> thermistor_valid (thermistor_of (hl_thermistorPayload h)))"
    "c_thermistorOk c1 \<longrightarrow> c_thermistor c1 = thermistor_of (hl_thermistorPayload h)"
    "\<not> c_modelOk c1" "\<not> c_heaterOk c1" "c_state c1 = HOff" "c_modes c1 = c_modes c0" "c_drives c1 = c_drives c0" "c_boost c1 = f0" "c_pwmFeed c1 = (f0, f0)"
    using f0 b0 by (auto simp: c1_def cfg_step_def Let_def)
  have 2: "c_modelOk c2 = (hl_modelConfigured h \<and> model_valid h)"
    "c_modelOk c2 \<longrightarrow> c_model c2 = host_model h"
    "c_thermistorOk c2 = c_thermistorOk c1" "c_thermistor c2 = c_thermistor c1" "\<not> c_heaterOk c2"
    "c_state c2 = HOff" "c_modes c2 = c_modes c0" "c_drives c2 = c_drives c0" "c_boost c2 = f0" "c_pwmFeed c2 = (f0, f0)"
    using 1 by (auto simp: c2_def cfg_step_def host_model_parts model_valid_def Let_def)
  have 3: "c_heaterOk c3 = (hl_heaterConfigured h \<and> heater_valid (heater_of (hl_heaterPayload h)))"
    "c_heaterOk c3 \<longrightarrow> c_heater c3 = heater_of (hl_heaterPayload h)"
    "c_modelOk c3 = c_modelOk c2" "c_model c3 = c_model c2" "c_thermistorOk c3 = c_thermistorOk c2"
    "c_thermistor c3 = c_thermistor c2" "c_state c3 = HOff" "c_modes c3 = c_modes c0" "c_drives c3 = c_drives c0" "c_boost c3 = f0" "c_pwmFeed c3 = (f0, f0)"
    using 2 by (auto simp: c3_def cfg_step_def Let_def)
  have 4: "c_state c4 = (if hl_feedForwardConfigured h \<and> \<not> feed_forward_valid h then HFault else HOff)"
    "c_heaterOk c4 = c_heaterOk c3" "c_heater c4 = c_heater c3"
    "c_modelOk c4 = c_modelOk c3" "c_model c4 = c_model c3" "c_thermistorOk c4 = c_thermistorOk c3"
    "c_thermistor c4 = c_thermistor c3" "c_modes c4 = c_modes c0" "c_drives c4 = c_drives c0" "c_pwmFeed c4 = (f0, f0)"
    "c_boost c4 = (if hl_feedForwardConfigured h \<and> feed_forward_valid h
       then ReadFloat (hl_feedForwardPayload h) 8 else f0)"
    using 3 by (auto simp: c4_def cfg_step_def feed_forward_valid_def Let_def)
  show ?thesis
    unfolding c0_def [symmetric] e configured_as_def
    using 1 2 3 4 p0 by (simp add: at_slots_nth)
qed

text \<open>
  C5. Replaying the configuration works end to end, outside a firmware update: from any state the coprocessor can be in, with
  its decoder between frames, the bytes \<open>ReplayConfiguration\<close> writes leave it configured as the host's records say. Every pin
  is in its mode and driven as recorded (\<open>drive_of\<close>: not at all, at the recorded level, or by its timer with the prescaler,
  match value and period of the recorded duty cycle and frequency); thermistor, thermal model and heater limits are accepted
  exactly when configured and valid, with the values in the payloads; the temperature boost is that of a valid feed-forward
  payload, while the fan and PWM boost terms, which the firmware takes over only with a stable heater, are zero; the heater is
  off, or in the fault state if the feed-forward payload is not finite; and no more configuration is needed. Control steps
  running between the bytes make no difference.
\<close>

theorem replay_configures_board:
  assumes "board_ok b" "dec_idle (bd_decoder b)" "host_ok h" "\<not> hl_firmwareUpdateActive h"
  shows "\<exists>bytes. hl_out (ReplayConfiguration h) = hl_out h @ bytes
    \<and> configured_as h (board_cfg (rx_all env lvl bytes b)) \<and> quiet (rx_all env lvl bytes b)"
proof (intro exI conjI)
  let ?bytes = "concat (map enc_msg (replay_msgs h))"
  let ?pins = "concat (map (pin_msgs h) [0..<7])"
  show "hl_out (ReplayConfiguration h) = hl_out h @ ?bytes"
    by (simp add: ReplayConfiguration_out [OF assms(4)])
  define b1 where "b1 = rx_all env lvl (enc_msg (ConfigurationReset, [])) b"
  obtain c where c: "board_cfg b1 = cfg_reset c" "quiet b1" "dec_idle (bd_decoder b1)"
    using rx_reset [OF assms(1,2), of env lvl] by (auto simp: b1_def)
  have pins: "cfg_msgs ?pins (cfg_reset c)"
    "fold cfg_step ?pins (cfg_reset c) = replayed_pins h 7 (cfg_reset c)"
    using all_pins_cfg [OF assms(3), of "cfg_reset c" 7] by (simp_all add: cfg_reset_def)
  have ok: "cfg_msgs (?pins @ replay_tail h) (board_cfg b1)"
    using pins tail_cfg_msgs [OF assms(3)] c(1) by (simp add: cfg_msgs_append)
  have split: "rx_all env lvl ?bytes b = rx_all env lvl (concat (map enc_msg (?pins @ replay_tail h))) b1"
    by (simp only: replay_msgs_def list.simps concat.simps rx_all_simps(3) b1_def)
  note r = rx_cfgs [OF c(3,2) ok, of env lvl]
  show "quiet (rx_all env lvl ?bytes b)" using r by (simp only: split)
  have "board_cfg (rx_all env lvl ?bytes b)
      = fold cfg_step (replay_tail h) (replayed_pins h 7 (cfg_reset c))"
    using r pins(2) by (simp only: split c(1) fold_append o_apply)
  then show "configured_as h (board_cfg (rx_all env lvl ?bytes b))"
    using tail_configures [OF assms(3), of c] by simp
qed

text \<open>A host with a filament sensor, a fan and a thermistor configured.\<close>

definition sample_host :: Host where
  "sample_host = undefined\<lparr>
     hl_pinModes := [Input, Disabled, Disabled, Output, PwmMode, Disabled, Analog],
     hl_pinValues := replicate 7 False, hl_pwmValues := replicate 7 0, hl_pwmFrequencies := replicate 7 250,
     hl_thermistorPayload := replicate 16 0x40, hl_modelAPayload := replicate 16 0,
     hl_modelBPayload := replicate 16 0, hl_modelCPayload := replicate 5 0,
     hl_heaterPayload := replicate 11 0, hl_feedForwardPayload := replicate 12 0,
     hl_thermistorConfigured := True, hl_modelConfigured := False, hl_heaterConfigured := False,
     hl_feedForwardConfigured := False, hl_firmwareUpdateActive := False, hl_out := []\<rparr>"

theorem replay_configures_board_witness:
  "\<exists>bytes. hl_out (ReplayConfiguration sample_host) = [] @ bytes
    \<and> configured_as sample_host (board_cfg (rx_all dead_env (\<lambda>_. False) bytes (boot dead_env (\<lambda>_. False) zero_lpc)))
    \<and> quiet (rx_all dead_env (\<lambda>_. False) bytes (boot dead_env (\<lambda>_. False) zero_lpc))"
proof -
  have "board_ok (boot dead_env (\<lambda>_. False) zero_lpc)"
    by (rule boot_ok) (simp add: zero_lpc_def storage_ok_def idle_hw_def)
  moreover have "dec_idle (bd_decoder (boot dead_env (\<lambda>_. False) zero_lpc))" by (simp add: boot_def)
  moreover have "host_ok sample_host" "\<not> hl_firmwareUpdateActive sample_host" "hl_out sample_host = []"
    by (simp_all add: host_ok_def sample_host_def mode_ok_def)
  ultimately show ?thesis using replay_configures_board [of "boot dead_env (\<lambda>_. False) zero_lpc" sample_host] by metis
qed

section \<open>Values through the payloads\<close>

lemma ReadFloat_PutFloat:
  assumes "length xs = k"
  shows "ReadFloat (xs @ PutFloat v @ ys) k = v"
proof (rule bit_word_eqI)
  fix n assume n: "n < LENGTH(32)"
  then consider "n < 8" | "8 \<le> n" "n < 16" | "16 \<le> n" "n < 24" | "24 \<le> n" "n < 32"
    by (simp add: not_less) linarith
  then show "bit (ReadFloat (xs @ PutFloat v @ ys) k) n = bit v n"
    unfolding ReadFloat_def PutFloat_def
    by cases (use assms in \<open>auto simp: nth_append bit_simps\<close>)
qed

lemma ReadFloat_four:
  "ReadFloat (PutFloat a @ PutFloat b @ PutFloat c @ PutFloat d) 0 = a"
  "ReadFloat (PutFloat a @ PutFloat b @ PutFloat c @ PutFloat d) 4 = b"
  "ReadFloat (PutFloat a @ PutFloat b @ PutFloat c @ PutFloat d) 8 = c"
  "ReadFloat (PutFloat a @ PutFloat b @ PutFloat c @ PutFloat d) 12 = d"
  "ReadFloat (PutFloat a @ zs) 0 = a"
  using ReadFloat_PutFloat [of "[]" 0 a] ReadFloat_PutFloat [of "PutFloat a" 4 b]
    ReadFloat_PutFloat [of "PutFloat a @ PutFloat b" 8 c]
    ReadFloat_PutFloat [of "PutFloat a @ PutFloat b @ PutFloat c" 12 d "[]"]
  by (simp_all add: PutFloat_def)

lemma length_PutFloat [simp]: "length (PutFloat v) = 4"
  by (simp add: PutFloat_def)

text \<open>The model the host was given, as the coprocessor stores it.\<close>

definition model_of_args :: "HeaterModelArgs \<Rightarrow> Model" where
  "model_of_args m =
    \<lparr>m_heatingRate = ha_heatingRate m, m_basicCoolingRate = ha_basicCoolingRate m,
     m_fanCoolingRate = ha_fanCoolingRate m, m_coolingRateExponent = ha_coolingRateExponent m,
     m_deadTime = ha_deadTime m, m_maxPwm = ha_maxPwm m, m_overrideKp = ha_kP m,
     m_overrideRecipTi = ha_recipTi m, m_overrideTd = ha_tD m, m_usePid = ha_usePid m,
     m_inverted = ha_inverted m, m_pidOverridden = ha_overridden m\<rparr>"

definition model_flags :: "HeaterModelArgs \<Rightarrow> u8" where
  "model_flags m = (if ha_usePid m then 1 else 0) OR (if ha_inverted m then 2 else 0)
     OR (if ha_overridden m then 4 else 0)"

lemma model_flags_bits:
  "model_flags m AND NOT 0x07 = 0" "(model_flags m AND 1 \<noteq> 0) = ha_usePid m"
  "(model_flags m AND 2 \<noteq> 0) = ha_inverted m" "(model_flags m AND 4 \<noteq> 0) = ha_overridden m"
  by (simp_all add: model_flags_def)

definition model_messages :: "HeaterModelArgs \<Rightarrow> (MessageType \<times> u8 list) list" where
  "model_messages m =
    [(HeaterModelA, PutFloat (ha_heatingRate m) @ PutFloat (ha_basicCoolingRate m)
        @ PutFloat (ha_fanCoolingRate m) @ PutFloat (ha_coolingRateExponent m)),
     (HeaterModelB, PutFloat (ha_deadTime m) @ PutFloat (ha_maxPwm m) @ PutFloat (ha_kP m)
        @ PutFloat (ha_recipTi m)),
     (HeaterModelC, PutFloat (ha_tD m) @ [model_flags m])]"

lemma ConfigureHeaterModel_out:
  assumes "hl_online h" "\<not> hl_firmwareUpdateActive h"
  shows "hl_out (ConfigureHeaterModel m h) = hl_out h @ concat (map enc_msg (model_messages m))"
  using assms
  by (simp add: ConfigureHeaterModel_def Let_def Host_Send_def enc_msg_def model_messages_def
      model_flags_def)

lemma model_messages_cfg:
  "cfg_msgs (model_messages m) c \<and>
   (ModelReady (model_of_args m) \<longrightarrow>
     c_model (fold cfg_step (model_messages m) c) = model_of_args m
     \<and> c_modelOk (fold cfg_step (model_messages m) c)) \<and>
   (\<not> ModelReady (model_of_args m) \<longrightarrow> c_model (fold cfg_step (model_messages m) c) = c_model c)"
proof -
  have flag: "(PutFloat x @ [y]) ! 4 = y" for x :: f32 and y :: u8
    by (simp add: PutFloat_def)
  have m: "model_c (PutFloat (ha_tD m) @ [model_flags m])
      (model_b (PutFloat (ha_deadTime m) @ PutFloat (ha_maxPwm m) @ PutFloat (ha_kP m) @ PutFloat (ha_recipTi m))
      (model_a (PutFloat (ha_heatingRate m) @ PutFloat (ha_basicCoolingRate m)
        @ PutFloat (ha_fanCoolingRate m) @ PutFloat (ha_coolingRateExponent m)) x)) = model_of_args m" for x
    using model_flags_bits [of m]
    by (cases x) (simp add: model_a_def model_b_def model_c_def model_of_args_def ReadFloat_four flag)
  show ?thesis
    using model_flags_bits(1) [of m]
    by (simp add: model_messages_def cfg_msg_def cfg_step_def Let_def m flag)
qed

text \<open>
  A heater model reaches the coprocessor unchanged: the bytes \<open>ConfigureHeaterModel\<close> writes
  when online, received by a coprocessor that is not heating, make every parameter and flag of the
  model the one given, bit for bit, if the model is acceptable; a model that is not acceptable
  leaves the old one in force.
\<close>

theorem model_transfer:
  assumes "dec_idle (bd_decoder b)" "quiet b" "hl_online h" "\<not> hl_firmwareUpdateActive h"
  shows "\<exists>bytes. hl_out (ConfigureHeaterModel m h) = hl_out h @ bytes
    \<and> th_model (bd_lpc (rx_all env lvl bytes b)) =
        (if ModelReady (model_of_args m) then model_of_args m else th_model (bd_lpc b))"
proof -
  have cm: "c_model (board_cfg x) = th_model (bd_lpc x)" for x by (simp add: board_cfg_def)
  note mm = model_messages_cfg [of m "board_cfg b"]
  have "board_cfg (rx_all env lvl (concat (map enc_msg (model_messages m))) b)
      = fold cfg_step (model_messages m) (board_cfg b)"
    using rx_cfgs [OF assms(1,2), of "model_messages m" env lvl] mm by simp
  then have "th_model (bd_lpc (rx_all env lvl (concat (map enc_msg (model_messages m))) b)) =
        (if ModelReady (model_of_args m) then model_of_args m else th_model (bd_lpc b))"
    using mm by (simp add: cm [symmetric])
  then show ?thesis using ConfigureHeaterModel_out [OF assms(3,4)] by blast
qed

lemma boot_quiet: "quiet (boot env lvl zero_lpc)" "dec_idle (bd_decoder (boot env lvl zero_lpc))"
  "board_ok (boot env lvl zero_lpc)"
proof -
  have st: "storage_ok zero_lpc" by (simp add: zero_lpc_def storage_ok_def idle_hw_def)
  then show ok: "board_ok (boot env lvl zero_lpc)" by (rule boot_ok)
  have "th_state (bd_lpc (boot env lvl zero_lpc)) = HOff"
    by (simp add: boot_def Thermal_Init_def ResetConfiguration_def set_hw_def)
  then show "quiet (boot env lvl zero_lpc)"
    using ok by (simp add: quiet_def Active_def state_order board_ok_def thermal_ok_def data_ok_def)
  show "dec_idle (bd_decoder (boot env lvl zero_lpc))" by (simp add: boot_def)
qed

definition sample_args :: HeaterModelArgs where
  "sample_args = \<lparr>ha_heatingRate = 0x40000000, ha_basicCoolingRate = 0x3F000000, ha_fanCoolingRate = 0,
     ha_coolingRateExponent = 0x3F800000, ha_deadTime = 0x40A00000, ha_maxPwm = 0x3F800000, ha_kP = 0,
     ha_recipTi = 0, ha_tD = 0, ha_usePid = True, ha_inverted = False, ha_overridden = False\<rparr>"

lemma sample_model_ready: "ModelReady (model_of_args sample_args)"
  by (simp add: ModelReady_def model_of_args_def sample_args_def f_isfinite_def f_lt_def f_le_def
      f_isnan_def fkey_def fbits_def fsign_def INF_BITS_def f1_val f_lit_def round_mag_def
      round_shift_def bitlen.simps rne_cases mk_float_def Let_def)

theorem model_transfer_witness:
  "\<exists>bytes. th_model (bd_lpc (rx_all dead_env (\<lambda>_. False) bytes (boot dead_env (\<lambda>_. False) zero_lpc))) = model_of_args sample_args"
proof -
  have "hl_online (sample_host\<lparr>hl_online := True\<rparr>)"
    "\<not> hl_firmwareUpdateActive (sample_host\<lparr>hl_online := True\<rparr>)" by (simp_all add: sample_host_def)
  from model_transfer [OF boot_quiet(2,1) this, where m = sample_args] sample_model_ready
  show ?thesis by (simp only: if_True) blast
qed

section \<open>Status reports\<close>

lemma TakeStatus_payload:
  assumes "TakeStatus env st = (Some p, st')"
  shows "length p = 8" "Host_ReadU16 p 0 = temperature_centi env st" "Host_ReadU16 p 2 = th_lastRawAdc st"
    "Host_ReadU16 p 4 = status_pwm env st" "p ! 6 = state_byte (th_state st)"
    "p ! 7 = error_byte (th_error st)"
  using assms by (auto simp: TakeStatus_def Let_def Host_ReadU16_def split: if_splits)

lemma received_host_u16:
  assumes "received_as fr (t, p)" "k + 2 \<le> length p"
  shows "Host_ReadU16 (payload fr) k = Host_ReadU16 p k"
  using received_nth [OF assms(1)] assms(2) by (simp add: Host_ReadU16_def)

text \<open>
  Status reports are faithful and never rejected: when the coprocessor reports its status and
  the host receives the frame, the host's record holds the coprocessor's heater state, its error
  and its raw converter reading, and an online host hands this record out for the next second.
\<close>

theorem status_transfer:
  assumes "data_ok st" "TakeStatus env st = (Some p, st')" "received_as fr (ThermalStatusMsg, p)"
    and "hl_online h"
  shows "\<exists>status. GetThermalStatus (Host_dispatch fr h) = Some status
    \<and> hs_state status = th_state st \<and> hs_error status = th_error st
    \<and> hs_rawAdc status = th_lastRawAdc st"
proof -
  note p = TakeStatus_payload [OF assms(2)]
  note r = received_nth [OF assms(3)] received_host_u16 [OF assms(3)]
  have t: "ftype fr = ThermalStatusMsg" "flength fr = 8"
    using assms(3) received_flength(1) [OF assms(3), of 8] p(1) by (simp_all add: received_as_def)
  have raw: "\<not> 1024 \<le> Host_ReadU16 (payload fr) 2"
    using r(2) [of 2] p assms(1) by (simp add: data_ok_def not_le)
  have b: "payload fr ! 6 = state_byte (th_state st)" "payload fr ! 7 = error_byte (th_error st)"
    using r(1) p by simp_all
  have le: "\<not> state_byte HHeating < state_byte (th_state st)"
    "\<not> error_byte TemperatureExcursion < error_byte (th_error st)"
    using state_byte_le [of "th_state st"] error_byte_le [of "th_error st"]
    by (simp_all add: state_byte_def error_byte_def not_less)
  show ?thesis
    using assms(4) raw b le t r(2) [of 2] p
    by (simp add: Host_dispatch_def HandleThermalStatus_def Let_def GetThermalStatus_def)
qed

lemma Control_dirty_status:
  "th_statusDirty st \<Longrightarrow> \<exists>p. fst (TakeStatus env st) = Some p"
  by (simp add: TakeStatus_def Let_def)

theorem status_transfer_witness:
  "\<exists>fr status. GetThermalStatus (Host_dispatch fr (sample_host\<lparr>hl_online := True\<rparr>)) = Some status
    \<and> hs_state status = HOff"
proof -
  define st where "st = bd_lpc (boot dead_env (\<lambda>_. False) zero_lpc)"
  have d: "data_ok st" "th_statusDirty st" "th_state st = HOff"
    using boot_quiet(3) [of dead_env "\<lambda>_. False"]
    by (simp_all add: st_def board_ok_def thermal_ok_def boot_def Thermal_Init_def ResetConfiguration_def
        set_hw_def)
  obtain p st' where p: "TakeStatus dead_env st = (Some p, st')"
    using Control_dirty_status [OF d(2), of dead_env] by (metis prod.collapse)
  define fr where "fr = \<lparr>ftype = ThermalStatusMsg, flength = 8, payload = p @ replicate 8 0\<rparr>"
  have "received_as fr (ThermalStatusMsg, p)"
    using TakeStatus_payload(1) [OF p] by (simp add: fr_def received_as_def)
  from status_transfer [OF d(1) p this, of "sample_host\<lparr>hl_online := True\<rparr>"] d(3)
  show ?thesis by auto
qed

section \<open>The host's view of the link\<close>

lemma SetOffline_sel [simp]:
  "\<not> hl_online (SetOffline h)" "hl_millis (SetOffline h) = hl_millis h"
  "hl_firmwareUpdateActive (SetOffline h) = hl_firmwareUpdateActive h"
  "hl_lastPingSent (SetOffline h) = hl_lastPingSent h"
  "hl_decoder (SetOffline h) = hl_decoder h" "hl_out (SetOffline h) = hl_out h"
  by (simp_all add: SetOffline_def)

lemma SendPing_sel [simp]:
  "hl_online (SendPing h) = hl_online h" "hl_millis (SendPing h) = hl_millis h"
  "hl_firmwareUpdateActive (SendPing h) = hl_firmwareUpdateActive h"
  "hl_lastPongReceived (SendPing h) = hl_lastPongReceived h"
  "hl_thermalStatusReceived (SendPing h) = hl_thermalStatusReceived h"
  "hl_lastPingSent (SendPing h) = hl_millis h"
  by (simp_all add: SendPing_def Host_Send_def)

text \<open>What the pongs among the received frames say about the link.\<close>

definition valid_pong :: "Frame \<Rightarrow> bool" where
  "valid_pong fr \<longleftrightarrow> flength fr = 2 \<and> payload fr ! 0 = Version"

definition latest_pong :: "Frame list \<Rightarrow> Frame option" where
  "latest_pong frames = find (\<lambda>fr. ftype fr = Pong) (rev frames)"

definition link_step :: "u32 \<Rightarrow> Frame \<Rightarrow> bool \<times> u32 \<Rightarrow> bool \<times> u32" where
  "link_step now fr l =
    (if ftype fr \<noteq> Pong then l else if valid_pong fr then (True, now) else (False, snd l))"

lemma fold_link_step:
  "case latest_pong frames of None \<Rightarrow> fold (link_step now) frames l = l
   | Some fr \<Rightarrow> fst (fold (link_step now) frames l) = valid_pong fr
       \<and> (valid_pong fr \<longrightarrow> snd (fold (link_step now) frames l) = now)"
proof (induction frames rule: rev_induct)
  case Nil
  then show ?case by (simp add: latest_pong_def)
next
  case (snoc x xs)
  have "latest_pong (xs @ [x]) = (if ftype x = Pong then Some x else latest_pong xs)" by (simp add: latest_pong_def)
  then show ?case using snoc by (simp add: link_step_def [of now x] split: option.splits)
qed

text \<open>What a received frame leaves alone, and what it does to the link's state.\<close>

definition same_timers :: "Host \<Rightarrow> Host \<Rightarrow> bool" where
  "same_timers h h' \<longleftrightarrow> hl_millis h' = hl_millis h \<and> hl_lastPingSent h' = hl_lastPingSent h
     \<and> hl_firmwareUpdateActive h' = hl_firmwareUpdateActive h"

lemma Replay_link:
  assumes "\<not> hl_firmwareUpdateActive h"
  shows "same_timers h (ReplayConfiguration h)" "hl_online (ReplayConfiguration h) = hl_online h"
    "hl_lastPongReceived (ReplayConfiguration h) = hl_lastPongReceived h"
  by (simp_all add: ReplayConfiguration_out [OF assms] same_timers_def)

lemma dispatch_link:
  assumes "\<not> hl_firmwareUpdateActive h"
  shows "same_timers h (Host_dispatch fr h)"
    and "(hl_online (Host_dispatch fr h), hl_lastPongReceived (Host_dispatch fr h))
      = link_step (hl_millis h) fr (hl_online h, hl_lastPongReceived h)"
proof -
  have r: "same_timers h (ReplayConfiguration ((SetOffline h)\<lparr>hl_online := o', hl_lastPongReceived := l, hl_connectionGeneration := g\<rparr>))"
    "hl_online (ReplayConfiguration ((SetOffline h)\<lparr>hl_online := o', hl_lastPongReceived := l, hl_connectionGeneration := g\<rparr>)) = o'"
    "hl_lastPongReceived (ReplayConfiguration ((SetOffline h)\<lparr>hl_online := o', hl_lastPongReceived := l, hl_connectionGeneration := g\<rparr>)) = l"
    for o' l g
    using Replay_link [of "(SetOffline h)\<lparr>hl_online := o', hl_lastPongReceived := l, hl_connectionGeneration := g\<rparr>"] assms
    by (simp_all add: same_timers_def)
  have "same_timers h (Host_dispatch fr h) \<and> (hl_online (Host_dispatch fr h), hl_lastPongReceived (Host_dispatch fr h))
      = link_step (hl_millis h) fr (hl_online h, hl_lastPongReceived h)"
  proof (cases "ftype fr = Pong")
    case True
    then show ?thesis
      using r by (simp add: Host_dispatch_def HandlePong_def link_step_def valid_pong_def Let_def)
        (auto simp: same_timers_def SetOffline_def)
  next
    case False
    then show ?thesis
      by (cases "ftype fr") (auto simp: Host_dispatch_def HandleGpioState_def HandleThermalStatus_def link_step_def
          same_timers_def Let_def split: option.splits)
  qed
  then show "same_timers h (Host_dispatch fr h)"
    "(hl_online (Host_dispatch fr h), hl_lastPongReceived (Host_dispatch fr h))
      = link_step (hl_millis h) fr (hl_online h, hl_lastPongReceived h)" by simp_all
qed

lemma host_bytes_link:
  assumes "\<not> hl_firmwareUpdateActive h"
  shows "same_timers h (fold Host_byte rx h)
    \<and> (hl_online (fold Host_byte rx h), hl_lastPongReceived (fold Host_byte rx h))
      = fold (link_step (hl_millis h)) (snd (feed_all (hl_decoder h) rx)) (hl_online h, hl_lastPongReceived h)"
  using assms
proof (induction rx arbitrary: h)
  case Nil
  then show ?case by (simp add: same_timers_def)
next
  case (Cons x rx)
  obtain d r where f: "feed (hl_decoder h) x = (d, r)" by fastforce
  define h1 where "h1 = Host_byte x h"
  have dec: "hl_decoder (Host_dispatch fr h) = hl_decoder h" if "\<not> hl_firmwareUpdateActive h" for fr and h :: Host
    using that Replay_link
    by (cases "ftype fr") (auto simp: Host_dispatch_def HandleGpioState_def HandleThermalStatus_def HandlePong_def
        SetOffline_def ReplayConfiguration_out Let_def split: option.splits)
  have one: "same_timers h h1" "hl_decoder h1 = d" "(hl_online h1, hl_lastPongReceived h1)
      = (case r of None \<Rightarrow> (hl_online h, hl_lastPongReceived h)
         | Some fr \<Rightarrow> link_step (hl_millis h) fr (hl_online h, hl_lastPongReceived h))"
    using dispatch_link [of "h\<lparr>hl_decoder := d\<rparr>"] dec [of "h\<lparr>hl_decoder := d\<rparr>"] Cons.prems f
    by (auto simp: h1_def Host_byte_def same_timers_def split: option.splits)
  then have "\<not> hl_firmwareUpdateActive h1" using Cons.prems by (simp add: same_timers_def)
  from Cons.IH [OF this] one f show ?case
    by (cases r) (auto simp: h1_def [symmetric] same_timers_def split: prod.splits)
qed

text \<open>
  C40. The host notices a dead link. After \<open>Spin\<close>, outside a firmware update, the host is online exactly if the last pong
  among the bytes it read is a valid one (two bytes, the right protocol version) or, when there was none, it was online and
  the last valid pong came less than 3000 milliseconds ago. \<open>Spin\<close> writes a ping exactly when 1000 milliseconds have passed
  since the last one, and restarts that period. While the host is offline it hands out no thermal status and reports no pin
  as available.
\<close>

theorem host_notices_dead_link:
  assumes "\<not> hl_firmwareUpdateActive h"
  shows "let h' = Host_Spin rx h; now = hl_millis h; due = (1000 \<le> now - hl_lastPingSent h) in
    (hl_online h' \<longleftrightarrow> (case latest_pong (snd (feed_all (hl_decoder h) rx)) of
        Some fr \<Rightarrow> valid_pong fr
      | None \<Rightarrow> hl_online h \<and> now - hl_lastPongReceived h < 3000))
    \<and> hl_out h' = hl_out (fold Host_byte rx h) @ (if due then enc_msg (Ping, [Version]) else [])
    \<and> hl_lastPingSent h' = (if due then now else hl_lastPingSent h)
    \<and> (\<not> hl_online h' \<longrightarrow> GetThermalStatus h' = None \<and> \<not> IsPinAvailable pin h')"
proof -
  define h1 where "h1 = fold Host_byte rx h"
  note l = host_bytes_link [OF assms, of rx, folded h1_def]
  define online where "online \<longleftrightarrow> hl_online h1 \<and> hl_millis h1 - hl_lastPongReceived h1 < 3000"
  have spec: "online \<longleftrightarrow> (case latest_pong (snd (feed_all (hl_decoder h) rx)) of Some fr \<Rightarrow> valid_pong fr
      | None \<Rightarrow> hl_online h \<and> hl_millis h - hl_lastPongReceived h < 3000)"
  proof (cases "latest_pong (snd (feed_all (hl_decoder h) rx))")
    case None
    then show ?thesis
      using l fold_link_step [where frames = "snd (feed_all (hl_decoder h) rx)" and now = "hl_millis h"
        and l = "(hl_online h, hl_lastPongReceived h)"] by (simp add: online_def same_timers_def)
  next
    case (Some fr)
    have "hl_online h1 = valid_pong fr" "valid_pong fr \<Longrightarrow> hl_lastPongReceived h1 = hl_millis h"
      using l fold_link_step [where frames = "snd (feed_all (hl_decoder h) rx)" and now = "hl_millis h"
        and l = "(hl_online h, hl_lastPongReceived h)"] by (simp_all add: Some) (metis fst_conv snd_conv)+
    then show ?thesis using l by (auto simp: Some online_def same_timers_def)
  qed
  have t: "hl_millis h1 = hl_millis h" "hl_lastPingSent h1 = hl_lastPingSent h" "\<not> hl_firmwareUpdateActive h1"
    using l assms by (simp_all add: same_timers_def)
  define h2 where "h2 = (if hl_online h1 \<and> 3000 \<le> hl_millis h1 - hl_lastPongReceived h1 then SetOffline h1 else h1)"
  have h2: "hl_online h2 = online" "hl_out h2 = hl_out h1" "hl_lastPingSent h2 = hl_lastPingSent h"
    "hl_millis h2 = hl_millis h" "\<not> hl_firmwareUpdateActive h2"
    using t by (auto simp: h2_def online_def not_le)
  have spin: "Host_Spin rx h = (if 1000 \<le> hl_millis h - hl_lastPingSent h then SendPing h2 else h2)"
    using t h2 unfolding Host_Spin_def Let_def h1_def [symmetric] by (simp add: h2_def)
  have ping: "hl_out (SendPing h2) = hl_out h1 @ enc_msg (Ping, [Version])"
    using h2 by (simp add: SendPing_def Host_Send_out)
  show ?thesis
    unfolding Let_def spin spec [symmetric] h1_def [symmetric]
    using h2 ping by (auto simp: GetThermalStatus_def IsPinAvailable_def)
qed

theorem host_notices_dead_link_witness:
  "\<not> hl_online (Host_Spin [] (sample_host\<lparr>hl_online := True, hl_millis := 5000, hl_lastPongReceived := 0\<rparr>))"
  using host_notices_dead_link [of "sample_host\<lparr>hl_online := True, hl_millis := 5000,
    hl_lastPongReceived := 0\<rparr>" "[]"]
  by (simp add: sample_host_def Let_def latest_pong_def)

section \<open>Connecting\<close>

lemma rx_all_ok: "board_ok b \<Longrightarrow> board_ok (rx_all env lvl bs b)"
  by (induction bs arbitrary: b) (simp_all add: rx_byte_ok)

lemma host_silent:
  assumes "snd (feed_all (hl_decoder h) bs) = []"
  shows "fold Host_byte bs h = h\<lparr>hl_decoder := fst (feed_all (hl_decoder h) bs)\<rparr>"
  using assms
proof (induction bs arbitrary: h)
  case (Cons x bs)
  obtain d r where f: "feed (hl_decoder h) x = (d, r)" by fastforce
  obtain d' fs where fs: "feed_all d bs = (d', fs)" by fastforce
  have r: "r = None" "fs = []" using Cons.prems f fs by (auto split: option.splits)
  have "Host_byte x h = h\<lparr>hl_decoder := d\<rparr>" using f r by (simp add: Host_byte_def)
  then show ?case using Cons.IH [of "Host_byte x h"] f fs r by simp
qed simp

lemma host_message:
  assumes "dec_idle (hl_decoder h)" "msg_sendable m"
  shows "\<exists>d' fr. dec_idle d' \<and> received_as fr m
    \<and> fold Host_byte (enc_msg m) h = Host_dispatch fr (h\<lparr>hl_decoder := d'\<rparr>)"
proof -
  obtain pre c d1 d2 fr where e: "enc_msg m = pre @ [c]" "feed_all (hl_decoder h) pre = (d1, [])"
    "feed d1 c = (d2, Some fr)" "dec_idle d2" "received_as fr m"
    using enc_msg_split [OF assms] by blast
  have "fold Host_byte (enc_msg m) h = Host_byte c (h\<lparr>hl_decoder := d1\<rparr>)"
    using host_silent [of h pre] e(1,2) by simp
  also have "\<dots> = Host_dispatch fr (h\<lparr>hl_decoder := d2\<rparr>)" using e(3) by (simp add: Host_byte_def)
  finally show ?thesis using e by blast
qed

lemma ping_answered:
  assumes "dec_idle (bd_decoder b)"
  shows "bd_out (rx_all env lvl (enc_msg (Ping, [Version])) b) =
      bd_out b @ enc_msg (Pong, [Version, if bd_needsConfiguration b then 1 else 0])
    \<and> dec_idle (bd_decoder (rx_all env lvl (enc_msg (Ping, [Version])) b))
    \<and> LinkAlive (bd_lpc (rx_all env lvl (enc_msg (Ping, [Version])) b))"
proof -
  have "msg_sendable (Ping, [Version])" by (simp add: msg_sendable_def msg_ok_def MaxPayload_def)
  from rx_message [OF assms this, of env lvl]
  obtain n d' fr where e: "dec_idle d'" "received_as fr (Ping, [Version])"
    "rx_all env lvl (enc_msg (Ping, [Version])) b =
      dispatch env lvl fr (b\<lparr>bd_lpc := spins env n (bd_lpc b), bd_decoder := d'\<rparr>)" by blast
  have "ftype fr = Ping" "flength fr = 1" "payload fr ! 0 = Version"
    using e(2) received_flength(1) [OF e(2), of 1] received_nth [OF e(2), of 0]
    by (simp_all add: received_as_def)
  then show ?thesis
    using e(1) by (simp add: e(3) dispatch_def HostHeartbeat_def LinkAlive_def LinkTimeoutMillis_def)
qed

lemma Pong_reconnects:
  assumes "received_as fr (Pong, [Version, x])" "\<not> hl_online h \<or> x \<noteq> 0"
  shows "Host_dispatch fr h = ReplayConfiguration
    ((SetOffline h)\<lparr>hl_online := True, hl_lastPongReceived := hl_millis h,
       hl_connectionGeneration := hl_connectionGeneration h + 1\<rparr>)"
proof -
  have "ftype fr = Pong" "flength fr = 2" "payload fr ! 0 = Version" "payload fr ! 1 = x"
    using assms(1) received_flength(1) [OF assms(1), of 2] received_nth [OF assms(1), of 0]
      received_nth [OF assms(1), of 1] by (simp_all add: received_as_def)
  then show ?thesis
    using assms(2) by (auto simp: Host_dispatch_def HandlePong_def SetOffline_def Let_def)
qed

text \<open>
  C3. Connecting works, outside a firmware update and with both decoders between frames: when the host is offline, or the
  coprocessor has just started, one ping of the host is answered by one pong, that pong brings the host online with a new
  connection generation, and the bytes the host then sends leave the coprocessor configured as the host's records say, in the
  sense of C5 (pin modes, levels and PWM settings, thermistor, model, limits, feed-forward) - from any state of the
  coprocessor and any records of the host.
\<close>

theorem connect_end_to_end:
  assumes "board_ok b" "dec_idle (bd_decoder b)" "dec_idle (hl_decoder h)" "host_ok h"
    and "\<not> hl_firmwareUpdateActive h" "\<not> hl_online h \<or> bd_needsConfiguration b"
  shows "\<exists>pong replay. bd_out (rx_all env lvl (enc_msg (Ping, [Version])) b) = bd_out b @ pong
    \<and> (let b1 = rx_all env lvl (enc_msg (Ping, [Version])) b; h1 = fold Host_byte pong h in
       hl_online h1 \<and> hl_connectionGeneration h1 = hl_connectionGeneration h + 1
       \<and> hl_out h1 = hl_out h @ replay
       \<and> configured_as h1 (board_cfg (rx_all env lvl replay b1)))"
proof -
  define x :: u8 where "x = (if bd_needsConfiguration b then 1 else 0)"
  define b1 where "b1 = rx_all env lvl (enc_msg (Ping, [Version])) b"
  note ping = ping_answered [OF assms(2), of env lvl]
  have b1: "board_ok b1" "dec_idle (bd_decoder b1)" "bd_out b1 = bd_out b @ enc_msg (Pong, [Version, x])"
    using ping rx_all_ok [OF assms(1)] by (simp_all add: b1_def x_def)
  have "msg_sendable (Pong, [Version, x])" by (simp add: msg_sendable_def msg_ok_def MaxPayload_def)
  from host_message [OF assms(3) this] obtain d' fr where fr: "received_as fr (Pong, [Version, x])"
    "fold Host_byte (enc_msg (Pong, [Version, x])) h = Host_dispatch fr (h\<lparr>hl_decoder := d'\<rparr>)" by blast
  define h3 where "h3 = (SetOffline (h\<lparr>hl_decoder := d'\<rparr>))\<lparr>hl_online := True,
    hl_lastPongReceived := hl_millis h, hl_connectionGeneration := hl_connectionGeneration h + 1\<rparr>"
  have f3: "\<not> hl_firmwareUpdateActive h3" using assms(5) by (simp add: h3_def)
  have ok3: "host_ok h3" using assms(4) by (simp add: h3_def host_ok_def SetOffline_def)
  have h1: "fold Host_byte (enc_msg (Pong, [Version, x])) h = ReplayConfiguration h3"
    using fr(2) Pong_reconnects [OF fr(1), of "h\<lparr>hl_decoder := d'\<rparr>"] assms(6)
    by (auto simp: h3_def x_def)
  obtain bytes where r: "hl_out (ReplayConfiguration h3) = hl_out h3 @ bytes"
    "configured_as h3 (board_cfg (rx_all env lvl bytes b1))"
    using replay_configures_board [OF b1(1,2) ok3 f3] by blast
  have "model_valid (h3\<lparr>hl_out := k\<rparr>) = model_valid h3" "host_model (h3\<lparr>hl_out := k\<rparr>) = host_model h3"
    "feed_forward_valid (h3\<lparr>hl_out := k\<rparr>) = feed_forward_valid h3" for k
    by (simp_all add: model_valid_def host_model_def feed_forward_valid_def)
  moreover have "drive_of (h3\<lparr>hl_out := k\<rparr>) = drive_of h3" for k
    by (rule ext) (auto simp: drive_of_def Let_def)
  ultimately have same: "configured_as (ReplayConfiguration h3) = configured_as h3"
    by (intro ext) (simp add: ReplayConfiguration_out [OF f3] configured_as_def)
  have "hl_online (ReplayConfiguration h3)"
    "hl_connectionGeneration (ReplayConfiguration h3) = hl_connectionGeneration h + 1"
    "hl_out h3 = hl_out h"
    by (simp_all add: ReplayConfiguration_out [OF f3]) (simp_all add: h3_def)
  then show ?thesis
    using b1(3) r same unfolding Let_def b1_def [symmetric]
    by (intro exI [of _ "enc_msg (Pong, [Version, x])"] exI [of _ bytes]) (simp add: h1)
qed

theorem connect_end_to_end_witness:
  "\<exists>pong. bd_out (rx_all dead_env (\<lambda>_. False) (enc_msg (Ping, [Version])) (boot dead_env (\<lambda>_. False) zero_lpc)) = [] @ pong
    \<and> hl_online (fold Host_byte pong (sample_host\<lparr>hl_decoder := fresh_decoder, hl_online := False\<rparr>))"
proof -
  define h where "h = sample_host\<lparr>hl_decoder := fresh_decoder, hl_online := False\<rparr>"
  have f: "dec_idle (hl_decoder h)" "host_ok h" "\<not> hl_firmwareUpdateActive h"
    by (simp_all add: h_def sample_host_def host_ok_def mode_ok_def)
  have o: "bd_out (boot dead_env (\<lambda>_. False) zero_lpc) = []" by (simp add: boot_def)
  have c: "\<not> hl_online h \<or> bd_needsConfiguration (boot dead_env (\<lambda>_. False) zero_lpc)" by (simp add: h_def)
  from connect_end_to_end [OF boot_quiet(3,2) f c, of dead_env "\<lambda>_. False"] show ?thesis
    unfolding Let_def o h_def [symmetric] by blast
qed

end
