(* ===== verification/FopDt.thy ===== *)
theory FopDt
  imports HostLpc
begin

text \<open>
  The first order plus dead time heater model the main board keeps for each heater:
  \<open>RepRapFirmware/src/Heating/FOPDT.cpp\<close> and \<open>FOPDT.h\<close>, with the default values of
  \<open>CANlib/src/RRF3Common.h\<close> and \<open>min\<close>, \<open>max\<close>, \<open>fsquare\<close> of \<open>RRFLibraries/src/General/SimpleMath.h\<close>.
  The firmware is compiled with \<open>-fsingle-precision-constant\<close>, so every literal and every
  operation is single precision. \<open>powf\<close> is the C library's function: its value is not fixed by the
  language, so the operations that need it take it as an argument.

  Texts written to a \<open>StringRef\<close> are kept as the format string with its arguments.
\<close>

section \<open>Shared arithmetic\<close>

definition f_min :: "f32 \<Rightarrow> f32 \<Rightarrow> f32" where
  "f_min a b = (if f_isnan a \<or> f_lt a b then a else b)"

definition f_max :: "f32 \<Rightarrow> f32 \<Rightarrow> f32" where
  "f_max a b = (if f_isnan a \<or> f_gt a b then a else b)"

definition fsquare :: "f32 \<Rightarrow> f32" where
  "fsquare x = f_mul x x"

datatype arg = ArgU nat | ArgI int | ArgF f32 | ArgS string

text \<open>The pieces of text an operation writes to its reply buffer, format and arguments each.\<close>

type_synonym reply = "(string \<times> arg list) list"

section \<open>Data\<close>

record PidParameters =
  pp_kP :: f32
  pp_recipTi :: f32
  pp_tD :: f32

record M301PidParameters =
  m3_kP :: f32
  m3_kI :: f32
  m3_kD :: f32

record FopDt =
  fo_heatingRate :: f32
  fo_basicCoolingRate :: f32
  fo_fanCoolingRate :: f32
  fo_coolingRateExponent :: f32
  fo_deadTime :: f32
  fo_maxPwm :: f32
  fo_standardVoltage :: f32
  fo_enabled :: bool
  fo_usePid :: bool
  fo_inverted :: bool
  fo_pidParametersOverridden :: bool
  fo_setpointChangeParams :: PidParameters
  fo_loadChangeParams :: PidParameters

definition DefaultToolHeaterHeatingRate :: f32 where "DefaultToolHeaterHeatingRate = f_lit 243 100"
definition DefaultToolHeaterBasicCoolingRate :: f32 where "DefaultToolHeaterBasicCoolingRate = f_lit 56 100"
definition DefaultToolHeaterCoolingRateExponent :: f32 where "DefaultToolHeaterCoolingRateExponent = f_lit 135 100"
definition DefaultToolHeaterDeadTime :: f32 where "DefaultToolHeaterDeadTime = f_lit 55 10"
definition DefaultBedHeaterHeatingRate :: f32 where "DefaultBedHeaterHeatingRate = f_lit 13 100"
definition DefaultBedHeaterBasicCoolingRate :: f32 where "DefaultBedHeaterBasicCoolingRate = f_lit 15 100"
definition DefaultBedHeaterCoolingRateExponent :: f32 where "DefaultBedHeaterCoolingRateExponent = f_lit 135 100"
definition DefaultBedHeaterDeadTime :: f32 where "DefaultBedHeaterDeadTime = f_lit 10 1"
definition HostNormalAmbientTemperature :: f32 where "HostNormalAmbientTemperature = f_lit 25 1"

section \<open>Estimates from the model\<close>

definition GetCoolingRate :: "(f32 \<Rightarrow> f32 \<Rightarrow> f32) \<Rightarrow> FopDt \<Rightarrow> f32 \<Rightarrow> f32 \<Rightarrow> f32" where
  "GetCoolingRate powf m temperatureRise0 fanPwm =
    (let temperatureRise = f_mul temperatureRise0 (f_lit 1 100);
         adjusted = (if f_lt temperatureRise 0
                     then f_neg (powf (f_neg temperatureRise) (fo_coolingRateExponent m))
                     else powf temperatureRise (fo_coolingRateExponent m))
     in f_add (f_mul (fo_basicCoolingRate m) adjusted)
              (f_mul (f_mul temperatureRise (fo_fanCoolingRate m)) fanPwm))"

definition GetNetHeatingRate :: "(f32 \<Rightarrow> f32 \<Rightarrow> f32) \<Rightarrow> FopDt \<Rightarrow> f32 \<Rightarrow> f32 \<Rightarrow> f32 \<Rightarrow> f32" where
  "GetNetHeatingRate powf m temperatureRise fanPwm heaterPwm =
    f_sub (f_mul (fo_heatingRate m) heaterPwm) (GetCoolingRate powf m temperatureRise fanPwm)"

definition EstimateRequiredPwm :: "(f32 \<Rightarrow> f32 \<Rightarrow> f32) \<Rightarrow> FopDt \<Rightarrow> f32 \<Rightarrow> f32 \<Rightarrow> f32" where
  "EstimateRequiredPwm powf m temperatureRise fanPwm =
    f_div (GetCoolingRate powf m temperatureRise fanPwm) (fo_heatingRate m)"

definition EstimateMaxTemperatureRise_of :: "(f32 \<Rightarrow> f32 \<Rightarrow> f32) \<Rightarrow> f32 \<Rightarrow> f32 \<Rightarrow> f32 \<Rightarrow> f32" where
  "EstimateMaxTemperatureRise_of powf hr cr cre =
    f_mul (f_lit 100 1) (powf (f_div hr cr) (f_div (f_lit 1 1) cre))"

definition EstimateMaxTemperatureRise :: "(f32 \<Rightarrow> f32 \<Rightarrow> f32) \<Rightarrow> FopDt \<Rightarrow> f32" where
  "EstimateMaxTemperatureRise powf m = EstimateMaxTemperatureRise_of powf
     (fo_heatingRate m) (fo_basicCoolingRate m) (fo_coolingRateExponent m)"

definition CorrectPwmForVoltage :: "FopDt \<Rightarrow> f32 \<Rightarrow> f32 \<Rightarrow> f32" where
  "CorrectPwmForVoltage m requiredPwm actualVoltage =
    (let p = (if f_lt requiredPwm (fo_maxPwm m) \<and> f_ge (fo_standardVoltage m) (f_lit 10 1)
                \<and> f_ge actualVoltage (f_lit 10 1)
              then f_mul requiredPwm (fsquare (f_div (fo_standardVoltage m) actualVoltage))
              else requiredPwm)
     in f_min p (fo_maxPwm m))"

definition GetPwmCorrectionForFan :: "FopDt \<Rightarrow> f32 \<Rightarrow> f32 \<Rightarrow> f32" where
  "GetPwmCorrectionForFan m temperatureRise fanPwmChange =
    f_div (f_mul (f_mul (f_mul temperatureRise (f_lit 1 100)) (fo_fanCoolingRate m)) fanPwmChange)
      (fo_heatingRate m)"

section \<open>PID parameters\<close>

definition CalcPidConstants :: "(f32 \<Rightarrow> f32 \<Rightarrow> f32) \<Rightarrow> f32 \<Rightarrow> FopDt \<Rightarrow> FopDt" where
  "CalcPidConstants powf targetTemperature m =
    (if \<not> fo_pidParametersOverridden m then
       let temperatureRise = f_max (f_sub targetTemperature HostNormalAmbientTemperature) (f_lit 1 1);
           averageCoolingRatePerDegC =
             f_div (GetCoolingRate powf m temperatureRise (f_lit 2 10)) temperatureRise;
           kP = f_div (f_lit 7 10) (f_mul (fo_heatingRate m) (fo_deadTime m));
           tD = f_mul (fo_deadTime m) (f_lit 7 10)
       in m\<lparr>fo_loadChangeParams :=
              \<lparr>pp_kP = kP,
               pp_recipTi = f_div (powf averageCoolingRatePerDegC (f_lit 25 100))
                 (f_mul (f_lit 114 100) (powf (fo_deadTime m) (f_lit 75 100))),
               pp_tD = tD\<rparr>,
            fo_setpointChangeParams :=
              \<lparr>pp_kP = kP,
               pp_recipTi = f_div (powf averageCoolingRatePerDegC (f_lit 5 10))
                 (powf (fo_deadTime m) (f_lit 5 10)),
               pp_tD = tD\<rparr>\<rparr>
     else m)"

definition GetPidParameters :: "FopDt \<Rightarrow> bool \<Rightarrow> PidParameters" where
  "GetPidParameters m forLoadChange =
    (if forLoadChange then fo_loadChangeParams m else fo_setpointChangeParams m)"

definition SetRawPidParameters :: "f32 \<Rightarrow> f32 \<Rightarrow> f32 \<Rightarrow> FopDt \<Rightarrow> FopDt" where
  "SetRawPidParameters kP recipTi tD m =
    m\<lparr>fo_loadChangeParams := \<lparr>pp_kP = kP, pp_recipTi = recipTi, pp_tD = tD\<rparr>,
      fo_setpointChangeParams := \<lparr>pp_kP = kP, pp_recipTi = recipTi, pp_tD = tD\<rparr>,
      fo_pidParametersOverridden := True\<rparr>"

definition GetM301PidParameters :: "FopDt \<Rightarrow> bool \<Rightarrow> M301PidParameters" where
  "GetM301PidParameters m forLoadChange =
    (let pp = GetPidParameters m forLoadChange; reportedKp = f_mul (pp_kP pp) (f_lit 255 1)
     in \<lparr>m3_kP = reportedKp, m3_kI = f_mul (pp_recipTi pp) reportedKp, m3_kD = f_mul (pp_tD pp) reportedKp\<rparr>)"

definition SetM301PidParameters :: "M301PidParameters \<Rightarrow> FopDt \<Rightarrow> FopDt" where
  "SetM301PidParameters pp m =
    SetRawPidParameters (f_mul (m3_kP pp) (f_div (f_lit 1 1) (f_lit 255 1)))
      (f_div (m3_kI pp) (m3_kP pp)) (f_div (m3_kD pp) (m3_kP pp)) m"

section \<open>Setting the model\<close>

definition SetDefaultToolParameters :: "(f32 \<Rightarrow> f32 \<Rightarrow> f32) \<Rightarrow> FopDt \<Rightarrow> FopDt" where
  "SetDefaultToolParameters powf m =
    (CalcPidConstants powf (f_lit 200 1)
      (m\<lparr>fo_heatingRate := DefaultToolHeaterHeatingRate,
         fo_basicCoolingRate := DefaultToolHeaterBasicCoolingRate,
         fo_deadTime := DefaultToolHeaterDeadTime,
         fo_fanCoolingRate := 0,
         fo_coolingRateExponent := DefaultToolHeaterCoolingRateExponent,
         fo_maxPwm := f_lit 1 1,
         fo_standardVoltage := 0,
         fo_usePid := True,
         fo_inverted := False,
         fo_pidParametersOverridden := False\<rparr>))\<lparr>fo_enabled := True\<rparr>"

definition SetDefaultBedOrChamberParameters :: "(f32 \<Rightarrow> f32 \<Rightarrow> f32) \<Rightarrow> FopDt \<Rightarrow> FopDt" where
  "SetDefaultBedOrChamberParameters powf m =
    (CalcPidConstants powf (f_lit 60 1)
      (m\<lparr>fo_heatingRate := DefaultBedHeaterHeatingRate,
         fo_basicCoolingRate := DefaultBedHeaterBasicCoolingRate,
         fo_deadTime := DefaultBedHeaterDeadTime,
         fo_fanCoolingRate := 0,
         fo_coolingRateExponent := DefaultBedHeaterCoolingRateExponent,
         fo_maxPwm := f_lit 1 1,
         fo_standardVoltage := 0,
         fo_usePid := False,
         fo_inverted := False,
         fo_pidParametersOverridden := False\<rparr>))\<lparr>fo_enabled := True\<rparr>"

text \<open>\<open>Reset\<close>, also what the constructor does.\<close>

definition FopDt_Reset :: "(f32 \<Rightarrow> f32 \<Rightarrow> f32) \<Rightarrow> FopDt \<Rightarrow> FopDt" where
  "FopDt_Reset powf m = (SetDefaultToolParameters powf m)\<lparr>fo_enabled := False\<rparr>"

definition model_error :: "f32 \<Rightarrow> f32 \<Rightarrow> f32 \<Rightarrow> f32 \<Rightarrow> f32 \<Rightarrow> f32 \<Rightarrow> string option" where
  "model_error phr pbcr pfcr pcrExponent pdt pMaxPwm =
    (if f_lt (f_div phr pbcr) (f_lit 1 10) then Some ''estimated temperature rise too small''
     else if f_lt pfcr 0 then Some ''fan reduces cooling rate''
     else if f_lt pcrExponent (f_lit 1 1) \<or> f_gt pcrExponent (f_lit 16 10)
       then Some ''cooling rate exponent out of range''
     else if f_le pdt (f_lit 99 10000) then Some ''dead time too small''
     else if f_gt (f_mul pdt pbcr) (f_lit 50 1)
       then Some ''dead time too close to cooling time constant''
     else if f_le pMaxPwm (f_lit 99 10000) \<or> f_gt pMaxPwm (f_lit 1 1) then Some ''PWM out of range''
     else None)"

definition SetParameters :: "(f32 \<Rightarrow> f32 \<Rightarrow> f32) \<Rightarrow> f32 \<Rightarrow> f32 \<Rightarrow> f32 \<Rightarrow> f32 \<Rightarrow> f32 \<Rightarrow> f32 \<Rightarrow> f32
    \<Rightarrow> bool \<Rightarrow> bool \<Rightarrow> FopDt \<Rightarrow> bool \<times> reply \<times> FopDt" where
  "SetParameters powf phr pbcr pfcr pcrExponent pdt pMaxPwm pVoltage pUsePid pInverted m =
    (case model_error phr pbcr pfcr pcrExponent pdt pMaxPwm of
       None \<Rightarrow> (True, [], CalcPidConstants powf (f_lit 100 1)
         (m\<lparr>fo_heatingRate := phr, fo_basicCoolingRate := pbcr, fo_fanCoolingRate := pfcr,
            fo_coolingRateExponent := pcrExponent, fo_deadTime := pdt, fo_maxPwm := pMaxPwm,
            fo_standardVoltage := pVoltage, fo_usePid := pUsePid, fo_inverted := pInverted,
            fo_enabled := True\<rparr>))
     | Some err \<Rightarrow> (False, [(''bad model parameters: %s'', [ArgS err])], m))"

section \<open>Reporting\<close>

definition f_to_i32 :: "(f32 \<Rightarrow> u32) \<Rightarrow> f32 \<Rightarrow> u32" where
  "f_to_i32 ub x = (if f_in_range (- 2147483648) 2147483647 x then word_of_int (f_trunc x) else ub x)"

definition AppendM307Command :: "nat \<Rightarrow> bool \<Rightarrow> FopDt \<Rightarrow> reply" where
  "AppendM307Command heaterNumber includeVoltage m =
    [(''M307 H%u R%.3f K%.3f:%.3f D%.2f E%.2f S%.2f B%d'',
      [ArgU heaterNumber, ArgF (fo_heatingRate m), ArgF (fo_basicCoolingRate m),
       ArgF (fo_fanCoolingRate m), ArgF (fo_deadTime m), ArgF (fo_coolingRateExponent m),
       ArgF (fo_maxPwm m), ArgI (if fo_usePid m then 0 else 1)])]
    @ (if fo_inverted m then [('' I1'', [])] else [])
    @ (if includeVoltage then [('' V%.1f'', [ArgF (fo_standardVoltage m)])] else [])
    @ [([CHR 0x0A], [])]"

definition AppendM301Command :: "nat \<Rightarrow> FopDt \<Rightarrow> reply" where
  "AppendM301Command heaterNumber m =
    (if fo_pidParametersOverridden m then
       let pp = GetM301PidParameters m False
       in [(''M301 H%u P%.1f I%.3f D%.1f'' @ [CHR 0x0A],
            [ArgU heaterNumber, ArgF (m3_kP pp), ArgF (m3_kI pp), ArgF (m3_kD pp)])]
     else [])"

definition DEGREE_SYMBOL :: string where "DEGREE_SYMBOL = [CHR 0xC2, CHR 0xB0]"

definition AppendModelParameters ::
    "(f32 \<Rightarrow> f32 \<Rightarrow> f32) \<Rightarrow> (f32 \<Rightarrow> u32) \<Rightarrow> nat \<Rightarrow> bool \<Rightarrow> FopDt \<Rightarrow> reply" where
  "AppendModelParameters powf ub heaterNumber includeVoltage m =
    (let mode = (if \<not> fo_usePid m then ''bang-bang''
                 else if fo_pidParametersOverridden m then ''custom PID'' else ''PID'')
     in [(''Heater %u: heating rate %.3f, cooling rate %.3f'',
          [ArgU heaterNumber, ArgF (fo_heatingRate m), ArgF (fo_basicCoolingRate m)])]
      @ (if f_gt (fo_fanCoolingRate m) 0 then [(''/%.3f'', [ArgF (fo_fanCoolingRate m)])] else [])
      @ [('', dead time %.2f, max PWM %.2f, mode %s'',
          [ArgF (fo_deadTime m), ArgF (fo_maxPwm m), ArgS mode])]
      @ (if fo_inverted m then [('', reverse control'', [])] else [])
      @ (if includeVoltage then [('', calibrated at %.1fV'', [ArgF (fo_standardVoltage m)])] else [])
      @ [(''Predicted max temperature rise %d'' @ DEGREE_SYMBOL @ ''C'',
          [ArgI (sint (f_to_i32 ub (EstimateMaxTemperatureRise powf m)))])]
      @ (if fo_usePid m then
           let p = GetM301PidParameters m False; q = GetM301PidParameters m True
           in [(''PID parameters: heating P%.1f I%.3f D%.1f'',
                [ArgF (m3_kP p), ArgF (m3_kI p), ArgF (m3_kD p)]),
               ('', steady P%.1f I%.3f D%.1f'', [ArgF (m3_kP q), ArgF (m3_kI q), ArgF (m3_kD q)])]
         else []))"

text \<open>The values \<open>LpcInterface::ConfigureHeaterModel\<close> reads from the model.\<close>

definition model_args :: "FopDt \<Rightarrow> HeaterModelArgs" where
  "model_args m =
    (let pid = GetPidParameters m False in
     \<lparr>ha_heatingRate = fo_heatingRate m, ha_basicCoolingRate = fo_basicCoolingRate m,
      ha_fanCoolingRate = fo_fanCoolingRate m, ha_coolingRateExponent = fo_coolingRateExponent m,
      ha_deadTime = fo_deadTime m, ha_maxPwm = fo_maxPwm m, ha_kP = pp_kP pid,
      ha_recipTi = pp_recipTi pid, ha_tD = pp_tD pid, ha_usePid = fo_usePid m,
      ha_inverted = fo_inverted m, ha_overridden = fo_pidParametersOverridden m\<rparr>)"

section \<open>Lemmas\<close>

text \<open>A model that \<open>SetParameters\<close> would have accepted.\<close>

definition params_ok :: "FopDt \<Rightarrow> bool" where
  "params_ok m \<longleftrightarrow> model_error (fo_heatingRate m) (fo_basicCoolingRate m) (fo_fanCoolingRate m)
     (fo_coolingRateExponent m) (fo_deadTime m) (fo_maxPwm m) = None"

text \<open>Recalculating the PID constants changes the two parameter sets only.\<close>

lemma CalcPid_fields [simp]:
  "fo_heatingRate (CalcPidConstants powf t m) = fo_heatingRate m"
  "fo_basicCoolingRate (CalcPidConstants powf t m) = fo_basicCoolingRate m"
  "fo_fanCoolingRate (CalcPidConstants powf t m) = fo_fanCoolingRate m"
  "fo_coolingRateExponent (CalcPidConstants powf t m) = fo_coolingRateExponent m"
  "fo_deadTime (CalcPidConstants powf t m) = fo_deadTime m"
  "fo_maxPwm (CalcPidConstants powf t m) = fo_maxPwm m"
  "fo_standardVoltage (CalcPidConstants powf t m) = fo_standardVoltage m"
  "fo_enabled (CalcPidConstants powf t m) = fo_enabled m"
  "fo_usePid (CalcPidConstants powf t m) = fo_usePid m"
  "fo_inverted (CalcPidConstants powf t m) = fo_inverted m"
  "fo_pidParametersOverridden (CalcPidConstants powf t m) = fo_pidParametersOverridden m"
  by (simp_all add: CalcPidConstants_def Let_def)

lemma CalcPid_ok [simp]: "params_ok (CalcPidConstants powf t m) = params_ok m"
  by (simp add: params_ok_def)

lemma SetParameters_accepts:
  "SetParameters powf a b c d e f g u i m = (True, r, m') \<Longrightarrow>
   r = [] \<and> params_ok m' \<and> fo_enabled m' \<and> fo_usePid m' = u \<and> fo_inverted m' = i
   \<and> fo_pidParametersOverridden m' = fo_pidParametersOverridden m"
  by (auto simp: SetParameters_def params_ok_def split: option.splits)

lemma SetParameters_rejects:
  "SetParameters powf a b c d e f g u i m = (False, r, m') \<Longrightarrow> m' = m \<and> r \<noteq> []"
  by (auto simp: SetParameters_def split: option.splits)

end
