(* ===== verification/Decimals.thy ===== *)
theory Decimals
  imports Prelude
begin

text \<open>
  Decimal numbers as text: the reference for everything that prints or reads them.
\<close>

text \<open>A number in decimal, the reference for the digits that are printed and read.\<close>

fun dec :: "nat \<Rightarrow> string" where
  "dec n = (if n < 10 then [char_of (48 + n)] else dec (n div 10) @ [char_of (48 + n mod 10)])"

declare dec.simps [simp del]

definition is_digit :: "char \<Rightarrow> bool" where
  "is_digit c \<longleftrightarrow> 48 \<le> (of_char c :: nat) \<and> (of_char c :: nat) \<le> 57"

definition digit_value :: "char \<Rightarrow> nat" where
  "digit_value c = of_char c - 48"

text \<open>The number a digit string denotes, appended to the digits of \<open>n\<close>.\<close>

definition dec_value :: "nat \<Rightarrow> string \<Rightarrow> nat" where
  "dec_value n t = foldl (\<lambda>m c. 10 * m + digit_value c) n t"

lemma dec_value_simps [simp]:
  "dec_value n [] = n" "dec_value n (c # t) = dec_value (10 * n + digit_value c) t"
  "dec_value n (t @ [c]) = 10 * dec_value n t + digit_value c"
  by (simp_all add: dec_value_def)

lemma dec_value_ge: "n \<le> dec_value n t"
proof (induction t arbitrary: n)
  case (Cons c t)
  have "n \<le> 10 * n + digit_value c" by simp
  also have "\<dots> \<le> dec_value n (c # t)" using Cons [of "10 * n + digit_value c"] by simp
  finally show ?case .
qed simp

lemma char_digit: "d < 10 \<Longrightarrow> is_digit (char_of (48 + d))" "d < 10 \<Longrightarrow> digit_value (char_of (48 + d)) = d"
  by (simp_all add: is_digit_def digit_value_def)

lemma dec_digits: "list_all is_digit (dec n) \<and> dec n \<noteq> [] \<and> dec_value 0 (dec n) = n"
proof (induction n rule: dec.induct)
  case (1 n)
  show ?case
  proof (cases "n < 10")
    case True
    then show ?thesis by (subst (1 2 3) dec.simps) (simp add: char_digit)
  next
    case False
    then show ?thesis using 1 by (subst (1 2 3) dec.simps) (simp add: char_digit)
  qed
qed

lemma dec_length: "0 < k \<Longrightarrow> n < 10 ^ k \<Longrightarrow> length (dec n) \<le> k"
proof (induction k arbitrary: n)
  case (Suc k)
  show ?case
  proof (cases "n < 10")
    case True
    then show ?thesis by (simp add: dec.simps)
  next
    case False
    then have "0 < k" using Suc.prems(2) by (cases k) auto
    moreover have "n div 10 < 10 ^ k" using Suc.prems(2) by (simp add: less_mult_imp_div_less)
    ultimately show ?thesis using False Suc.IH [of "n div 10"] by (subst dec.simps) simp
  qed
qed simp

end
