(* ===== verification/CStrings.thy ===== *)
theory CStrings
  imports Decimals "HOL-Library.Monad_Syntax" "HOL-Library.Sublist"
begin

text \<open>
  C strings and the helpers of \<open>RRFLibraries/src/General/StringFunctions.cpp\<close>.

  A \<open>const char *\<close> that an operation only reads is the \<open>string\<close> of the characters before its
  terminator. Storage that is written is a buffer: all its characters, terminator and what lies
  behind it included, with its size as length. Reads and writes of a buffer are checked: they are
  \<open>None\<close> outside it, so that a result \<open>Some b\<close> also says that no access left the storage.
\<close>

section \<open>Characters and storage\<close>

abbreviation NUL :: char where "NUL \<equiv> CHR 0x00"

text \<open>The terminator does not occur inside a string, nor after a successful \<open>takeWhile\<close>.\<close>

definition is_text :: "string \<Rightarrow> bool" where
  "is_text s \<longleftrightarrow> NUL \<notin> set s"

definition tolower :: "char \<Rightarrow> char" where
  "tolower c = (if of_char c \<in> {65..90 :: nat} then char_of (of_char c + 32 :: nat) else c)"

text \<open>The text in a buffer: the characters before the first terminator.\<close>

definition content :: "char list \<Rightarrow> string" where
  "content p = takeWhile (\<lambda>c. c \<noteq> NUL) p"

definition poke :: "char list \<Rightarrow> nat \<Rightarrow> char \<Rightarrow> char list option" where
  "poke p i c = (if i < length p then Some (p[i := c]) else None)"

definition peek :: "char list \<Rightarrow> nat \<Rightarrow> char option" where
  "peek p i = (if i < length p then Some (p ! i) else None)"

definition blit :: "char list \<Rightarrow> nat \<Rightarrow> char list \<Rightarrow> char list option" where
  "blit p d s = (if d + length s \<le> length p then Some (take d p @ s @ drop (d + length s) p) else None)"

text \<open>\<open>memmove\<close> inside one buffer: \<open>n\<close> characters from \<open>s\<close> to \<open>d\<close>.\<close>

definition memmove :: "char list \<Rightarrow> nat \<Rightarrow> nat \<Rightarrow> nat \<Rightarrow> char list option" where
  "memmove p d s n = (if s + n \<le> length p then blit p d (take n (drop s p)) else None)"

definition strlen :: "char list \<Rightarrow> nat option" where
  "strlen p = (if NUL \<in> set p then Some (length (content p)) else None)"

definition Strnlen :: "char list \<Rightarrow> nat \<Rightarrow> nat" where
  "Strnlen p n = length (content (take n p))"

definition strncpy :: "char list \<Rightarrow> string \<Rightarrow> nat \<Rightarrow> char list option" where
  "strncpy dst src n = blit dst 0 (take n (src @ replicate n NUL))"

text \<open>\<open>strncat (dst + off)\<close>: the terminator comes after the at most \<open>n\<close> characters appended.\<close>

definition strncat :: "char list \<Rightarrow> nat \<Rightarrow> string \<Rightarrow> nat \<Rightarrow> char list option" where
  "strncat dst off src n = do {
     k \<leftarrow> strlen (drop off dst);
     blit dst (off + k) (take n src @ [NUL]) }"

definition size_pred :: "nat \<Rightarrow> nat" where
  "size_pred n = (if n = 0 then 4294967295 else n - 1)"

section \<open>Comparing and searching\<close>

fun StringEqualsIgnoreCase :: "string \<Rightarrow> string \<Rightarrow> bool" where
  "StringEqualsIgnoreCase (a # s) (b # t) =
     (if tolower a \<noteq> tolower b then False else StringEqualsIgnoreCase s t)"
| "StringEqualsIgnoreCase s t \<longleftrightarrow> s = [] \<and> t = []"

definition StringEndsWithIgnoreCase :: "string \<Rightarrow> string \<Rightarrow> bool" where
  "StringEndsWithIgnoreCase s ending \<longleftrightarrow>
     length ending \<le> length s \<and> StringEqualsIgnoreCase (drop (length s - length ending) s) ending"

fun ReducedStringEquals :: "string \<Rightarrow> string \<Rightarrow> bool" where
  "ReducedStringEquals (a # s) (b # t) =
     (if a = CHR ''-'' \<or> a = CHR ''_'' then ReducedStringEquals s (b # t)
      else if b = CHR ''-'' \<or> b = CHR ''_'' then ReducedStringEquals (a # s) t
      else if tolower a \<noteq> tolower b then False
      else ReducedStringEquals s t)"
| "ReducedStringEquals s t \<longleftrightarrow> s = [] \<and> t = []"

fun StringStartsWith :: "string \<Rightarrow> string \<Rightarrow> bool" where
  "StringStartsWith s [] = True"
| "StringStartsWith [] (c # t) = False"
| "StringStartsWith (b # s) (c # t) = (if c \<noteq> b then False else StringStartsWith s t)"

fun StringStartsWithIgnoreCase :: "string \<Rightarrow> string \<Rightarrow> bool" where
  "StringStartsWithIgnoreCase s [] = True"
| "StringStartsWithIgnoreCase [] (c # t) = False"
| "StringStartsWithIgnoreCase (b # s) (c # t) =
     (if tolower c \<noteq> tolower b then False else StringStartsWithIgnoreCase s t)"

definition char_at :: "string \<Rightarrow> nat \<Rightarrow> char" where
  "char_at s k = (if k < length s then s ! k else NUL)"

fun contains_loop :: "string \<Rightarrow> string \<Rightarrow> nat \<Rightarrow> nat \<Rightarrow> int" where
  "contains_loop [] m i count = - 1"
| "contains_loop (c # s) m i count =
     (if c = char_at m count then
        if char_at m (count + 1) = NUL then int (i + 1) - int (count + 1)
        else contains_loop s m (i + 1) (count + 1)
      else contains_loop s m (i + 1) 0)"

definition StringContains :: "string \<Rightarrow> string \<Rightarrow> int" where
  "StringContains s m = contains_loop s m 0 0"

section \<open>Bounded copies\<close>

definition SafeStrncpy :: "char list \<Rightarrow> string \<Rightarrow> nat \<Rightarrow> char list option" where
  "SafeStrncpy dst src n = do {
     d \<leftarrow> strncpy dst src n;
     poke d (size_pred n) NUL }"

definition SafeStrncat :: "char list \<Rightarrow> string \<Rightarrow> nat \<Rightarrow> char list option" where
  "SafeStrncat dst src n = do {
     d1 \<leftarrow> poke dst (size_pred n) NUL;
     index \<leftarrow> strlen d1;
     d2 \<leftarrow> strncat d1 index src (n - index);
     poke d2 (size_pred n) NUL }"

section \<open>Lemmas on storage\<close>

lemma length_blit: "blit p d s = Some q \<Longrightarrow> length q = length p"
  by (auto simp: blit_def split: if_splits)

lemma length_poke: "poke p i c = Some q \<Longrightarrow> length q = length p"
  by (auto simp: poke_def split: if_splits)

lemma content_append_NUL [simp]: "is_text s \<Longrightarrow> content (s @ NUL # r) = s"
  unfolding content_def is_text_def by (subst takeWhile_append2) auto

lemma content_is_text [simp]: "is_text (content p)"
  unfolding content_def is_text_def by (auto dest: set_takeWhileD)

lemma is_text_simps [simp]:
  "is_text []" "is_text (c # s) \<longleftrightarrow> c \<noteq> NUL \<and> is_text s"
  "is_text (s @ t) \<longleftrightarrow> is_text s \<and> is_text t"
  by (auto simp: is_text_def)

lemma is_text_take [simp]: "is_text s \<Longrightarrow> is_text (take n s)"
  by (auto simp: is_text_def dest: in_set_takeD)

lemma is_text_drop [simp]: "is_text s \<Longrightarrow> is_text (drop n s)"
  by (auto simp: is_text_def dest: in_set_dropD)

text \<open>A terminated buffer is its text, the terminator and the rest.\<close>

lemma content_split:
  assumes "NUL \<in> set p"
  obtains r where "p = content p @ NUL # r"
proof -
  have "dropWhile (\<lambda>c. c \<noteq> NUL) p \<noteq> []" using assms by (auto simp: dropWhile_eq_Nil_conv)
  then obtain c r where d: "dropWhile (\<lambda>c. c \<noteq> NUL) p = c # r" by (cases "dropWhile (\<lambda>c. c \<noteq> NUL) p") auto
  then have "c = NUL" by (metis (mono_tags, lifting) hd_dropWhile list.distinct(1) list.sel(1))
  then show thesis using that d by (metis content_def takeWhile_dropWhile_id)
qed

lemma content_length_less: "NUL \<in> set p \<Longrightarrow> length (content p) < length p"
proof -
  assume "NUL \<in> set p"
  then obtain r where "p = content p @ NUL # r" by (rule content_split)
  then have "length p = length (content p @ NUL # r)" by (rule arg_cong)
  then show ?thesis by simp
qed

lemma blit_mid: "length a = d \<Longrightarrow> length m = length s \<Longrightarrow> blit (a @ m @ z) d s = Some (a @ s @ z)"
  by (simp add: blit_def)

lemma length_content_le [simp]: "length (content p) \<le> length p"
  by (simp add: content_def length_takeWhile_le)

section \<open>What the helpers compute\<close>

lemma StringStartsWith_prefix: "StringStartsWith s t = prefix t s"
  by (induction s t rule: StringStartsWith.induct) auto

lemma StringEqualsIgnoreCase_iff: "StringEqualsIgnoreCase s t \<longleftrightarrow> map tolower s = map tolower t"
  by (induction s t rule: StringEqualsIgnoreCase.induct) auto

lemma SafeStrncpy_spec:
  assumes "is_text src" and "0 < n" and "n \<le> length dst"
  shows "\<exists>d. SafeStrncpy dst src n = Some d \<and> length d = length dst
    \<and> content d = take (n - 1) src \<and> NUL \<in> set d \<and> drop n d = drop n dst"
proof -
  let ?w = "take n (src @ replicate n NUL)"
  have lw: "length ?w = n" by simp
  let ?d = "?w @ drop n dst"
  let ?e = "?d[n - 1 := NUL]"
  have eq: "SafeStrncpy dst src n = Some ?e"
    using assms lw by (simp add: SafeStrncpy_def strncpy_def blit_def poke_def size_pred_def)
  have e: "?e = take (n - 1) ?w @ [NUL] @ drop n dst"
  proof -
    have "?e = ?w[n - 1 := NUL] @ drop n dst"
      using assms(2) lw by (subst list_update_append) simp
    moreover have "?w[n - 1 := NUL] = take (n - 1) ?w @ NUL # drop (Suc (n - 1)) ?w"
      using assms(2) lw by (intro upd_conv_take_nth_drop) simp
    ultimately show ?thesis using assms(2) by simp
  qed
  have "content (take (n - 1) ?w @ [NUL] @ drop n dst) = take (n - 1) src"
  proof (cases "n - 1 \<le> length src")
    case True
    then have "take (n - 1) ?w = take (n - 1) src" using assms(2) by (auto simp: min_def)
    then show ?thesis using assms(1) by simp
  next
    case False
    then have "take (n - 1) ?w @ [NUL] = src @ NUL # replicate (n - 1 - length src) NUL"
      by (simp add: min_def replicate_append_same[symmetric])
    then have "content ((take (n - 1) ?w @ [NUL]) @ drop n dst) = src"
      using assms(1) by (simp del: take_append)
    then show ?thesis using False by simp
  qed
  then show ?thesis unfolding eq using assms(2,3) lw e by (auto simp: min_def)
qed

text \<open>
  \<open>SafeStrncat\<close>: exact when the texts and a terminator fit; when they do not, \<open>strncat\<close> is given room
  for \<open>n - index\<close> characters and adds its terminator behind them, outside storage of \<open>n\<close> characters.
\<close>

lemma poke_terminator:
  assumes "NUL \<in> set dst" "length (content dst) < n" "n \<le> length dst"
  obtains d1 r where "poke dst (size_pred n) NUL = Some d1" "d1 = content dst @ NUL # r"
    "length d1 = length dst" "strlen d1 = Some (length (content dst))"
proof -
  obtain r0 where r0: "dst = content dst @ NUL # r0" using assms(1) by (rule content_split)
  let ?d = "dst[n - 1 := NUL]"
  have "?d = (content dst @ NUL # r0)[n - 1 := NUL]" using r0 by simp
  also have "\<dots> = content dst @ (NUL # r0)[n - 1 - length (content dst) := NUL]"
    using assms(2) by (subst list_update_append) auto
  also have "\<dots> = content dst @ NUL # (case n - 1 - length (content dst) of 0 \<Rightarrow> r0 | Suc k \<Rightarrow> r0[k := NUL])"
    by (simp split: nat.split)
  finally obtain r where d: "?d = content dst @ NUL # r" by blast
  have 1: "poke dst (size_pred n) NUL = Some ?d" using assms(2,3) by (simp add: poke_def size_pred_def)
  have 2: "strlen ?d = Some (length (content dst))" unfolding d by (simp add: strlen_def)
  show thesis by (rule that [OF 1 d _ 2]) simp
qed

lemma SafeStrncat_fits:
  assumes "NUL \<in> set dst" "is_text src" "length (content dst) + length src < n" "n \<le> length dst"
  shows "\<exists>d. SafeStrncat dst src n = Some d \<and> length d = length dst
    \<and> content d = content dst @ src \<and> NUL \<in> set d"
proof -
  let ?k = "length (content dst)"
  from assms have "?k < n" by simp
  with assms obtain d1 r where p: "poke dst (size_pred n) NUL = Some d1"
    and d1: "d1 = content dst @ NUL # r" and l1: "length d1 = length dst"
    and sl: "strlen d1 = Some ?k" by (metis poke_terminator)
  have cat: "strncat d1 ?k src (n - ?k) = blit d1 ?k (src @ [NUL])"
    using d1 assms(3) by (simp add: strncat_def strlen_def content_def)
  let ?d2 = "content dst @ src @ NUL # drop (?k + length src + 1) d1"
  have b: "blit d1 ?k (src @ [NUL]) = Some ?d2"
    using assms(3,4) l1 d1 by (simp add: blit_def)
  have len2: "length ?d2 = length dst" using assms(3,4) l1 by simp
  have "(content dst @ src @ NUL # drop (?k + length src + 1) d1)[n - 1 := NUL]
      = content dst @ src @ (NUL # drop (?k + length src + 1) d1)[n - 1 - ?k - length src := NUL]"
    using assms(3) by (auto simp: list_update_append)
  moreover have "\<exists>r'. (NUL # drop (?k + length src + 1) d1)[n - 1 - ?k - length src := NUL] = NUL # r'"
    by (cases "n - 1 - ?k - length src") auto
  ultimately obtain r' where r': "?d2[n - 1 := NUL] = (content dst @ src) @ NUL # r'" by auto
  have "SafeStrncat dst src n = Some (?d2[n - 1 := NUL])"
    unfolding SafeStrncat_def using p sl cat b len2 assms(3,4)
    by (simp add: poke_def size_pred_def)
  moreover have "content (?d2[n - 1 := NUL]) = content dst @ src"
    unfolding r' using assms(2) by (intro content_append_NUL) simp
  moreover have "NUL \<in> set (?d2[n - 1 := NUL])" unfolding r' by simp
  ultimately show ?thesis using len2 by (metis length_list_update)
qed

lemma SafeStrncat_overflows:
  assumes "NUL \<in> set dst" "is_text src" "length (content dst) < n" "n = length dst"
    and "n \<le> length (content dst) + length src"
  shows "SafeStrncat dst src n = None"
proof -
  let ?k = "length (content dst)"
  from assms obtain d1 r where p: "poke dst (size_pred n) NUL = Some d1"
    and d1: "d1 = content dst @ NUL # r" and l1: "length d1 = length dst"
    and sl: "strlen d1 = Some ?k" by (metis poke_terminator order_refl)
  have cat: "strncat d1 ?k src (n - ?k) = blit d1 ?k (take (n - ?k) src @ [NUL])"
    using d1 by (simp add: strncat_def strlen_def content_def)
  have "blit d1 ?k (take (n - ?k) src @ [NUL]) = None"
    using assms l1 by (simp add: blit_def min_def)
  then show ?thesis using p sl cat by (simp add: SafeStrncat_def)
qed

text \<open>
  A position \<open>StringContains\<close> returns is an occurrence, but not every occurrence is found: a
  mismatch forgets the characters already matched and does not try again from the second of them.
\<close>

lemma contains_loop_sound:
  assumes "is_text m" and "m \<noteq> []" and "count < length m" and "count \<le> i"
    and "i \<le> length t" and "take count (drop (i - count) t) = take count m" and "s = drop i t"
    and "contains_loop s m i count \<noteq> - 1"
  shows "\<exists>k. contains_loop s m i count = int k \<and> k + length m \<le> length t \<and> take (length m) (drop k t) = m"
  using assms
proof (induction s m i count rule: contains_loop.induct)
  case (1 m i count)
  then show ?case by simp
next
  case (2 c s m i count)
  have cs: "drop i t = c # s" using "2.prems"(7) by simp
  then have i: "i < length t" by (cases "i < length t") auto
  have c: "c = t ! i" and s: "s = drop (i + 1) t"
    using cs Cons_nth_drop_Suc [OF i] by auto
  show ?case
  proof (cases "c = char_at m count")
    case False
    then have step: "contains_loop (c # s) m i count = contains_loop s m (i + 1) 0" by simp
    show ?thesis unfolding step
      by (rule "2.IH"(2) [OF False]) (use "2.prems" step i s in auto)
  next
    case True
    then have c': "c = m ! count" using "2.prems"(3) by (simp add: char_at_def)
    have grow: "take (count + 1) (drop (i - count) t) = take (count + 1) m"
    proof -
      have "take (count + 1) (drop (i - count) t) = take count (drop (i - count) t) @ [t ! i]"
        using i "2.prems"(4) by (simp add: take_Suc_conv_app_nth)
      moreover have "take (count + 1) m = take count m @ [m ! count]"
        using "2.prems"(3) by (simp add: take_Suc_conv_app_nth)
      ultimately show ?thesis using "2.prems"(6) c c' by simp
    qed
    show ?thesis
    proof (cases "char_at m (count + 1) = NUL")
      case True
      then have "length m = count + 1"
        using "2.prems"(1,3) by (cases "count + 1 < length m") (auto simp: char_at_def is_text_def dest: nth_mem)
      moreover have "contains_loop (c # s) m i count = int (i - count)"
        using \<open>c = char_at m count\<close> True "2.prems"(4) by simp
      ultimately show ?thesis using grow i "2.prems"(4)
        by (intro exI [of _ "i - count"]) auto
    next
      case nul: False
      then have "count + 1 < length m" by (auto simp: char_at_def split: if_splits)
      moreover have step: "contains_loop (c # s) m i count = contains_loop s m (i + 1) (count + 1)"
        using True nul by simp
      ultimately show ?thesis unfolding step
        by (intro "2.IH"(1) [OF True nul]) (use "2.prems" grow step i s in auto)
    qed
  qed
qed

lemma StringContains_sound:
  "is_text m \<Longrightarrow> m \<noteq> [] \<Longrightarrow> StringContains s m \<noteq> - 1 \<Longrightarrow>
   \<exists>k. StringContains s m = int k \<and> k + length m \<le> length s \<and> take (length m) (drop k s) = m"
  unfolding StringContains_def by (rule contains_loop_sound [of m 0 0 s s]) auto

text \<open>
  The bounded copies. \<open>SafeStrncpy\<close> never leaves a buffer of the size it is told, terminates the
  text and cuts it at the size; \<open>SafeStrncat\<close> does the same as long as everything fits, but when it has
  to cut, \<open>strncat\<close> writes its terminator one character behind the buffer.
\<close>

theorem safe_copies:
  assumes "NUL \<in> set dst" "is_text src"
  shows "(\<exists>d. SafeStrncpy dst src (length dst) = Some d \<and> length d = length dst \<and> NUL \<in> set d
      \<and> content d = take (length dst - 1) src)
    \<and> (if length (content dst) + length src < length dst
       then \<exists>d. SafeStrncat dst src (length dst) = Some d \<and> length d = length dst \<and> NUL \<in> set d
         \<and> content d = content dst @ src
       else SafeStrncat dst src (length dst) = None)"
proof
  have "0 < length dst" using assms(1) by (cases dst) simp_all
  then show "\<exists>d. SafeStrncpy dst src (length dst) = Some d \<and> length d = length dst \<and> NUL \<in> set d
      \<and> content d = take (length dst - 1) src"
    using SafeStrncpy_spec [OF assms(2) _ order_refl] by fast
  show "if length (content dst) + length src < length dst
       then \<exists>d. SafeStrncat dst src (length dst) = Some d \<and> length d = length dst \<and> NUL \<in> set d
         \<and> content d = content dst @ src
       else SafeStrncat dst src (length dst) = None"
    using SafeStrncat_fits [OF assms _ order_refl]
      SafeStrncat_overflows [OF assms content_length_less [OF assms(1)] refl] by auto
qed

theorem safe_copies_witness:
  "(\<exists>d. SafeStrncpy (''ab'' @ [NUL, NUL]) ''vwxyz'' 4 = Some d \<and> content d = ''vwx'')
   \<and> SafeStrncat (''ab'' @ [NUL, NUL]) ''vwxyz'' 4 = None"
  using safe_copies [of "''ab'' @ [NUL, NUL]" "''vwxyz''"]
  by (auto simp: is_text_def content_def numeral_eq_Suc)

end
