(* ===== verification/LpcHeater.thy ===== *)
theory LpcHeater
  imports FopDt CStrings
begin

text \<open>
  The hot end heater as the main board sees it: \<open>RepRapFirmware/src/Heating/LpcHeater.cpp\<close>, the
  parts of its base class \<open>Heater\<close> (\<open>Heater.cpp\<close>, \<open>Heater.h\<close>) that an \<open>LpcHeater\<close> runs, and
  \<open>HeaterMonitor.h\<close>. \<open>LpcHeater\<close> is the object: the members of \<open>LpcHeater\<close> (\<open>lh_\<close>), the members of
  \<open>Heater\<close> (\<open>he_\<close>), the state of the link it commands (\<open>he_host\<close>, see \<open>HostLpc\<close>) and the calls it
  makes into the tool list, the event queue and the object model, in order (\<open>he_calls\<close>).

  \<open>HeatEnv\<close> holds what the operations ask of the rest of the firmware: \<open>powf\<close>, the value of an
  undefined conversion, and the lookups in the sensor and heater lists of \<open>Heat.cpp\<close>.
  Parameters of a G-code command are absent, present with a value, or malformed, in which case
  reading them throws; a throw is \<open>Inl\<close> with the message, and the state keeps what was done before it.
\<close>

section \<open>Data\<close>

datatype HeaterMode = HmFault | HmOffline | HmOff | HmSuspended | HmCooling | HmStable | HmHeating
  | HmTuning0 | HmTuning1 | HmTuning2 | HmTuning3

fun hmode_num :: "HeaterMode \<Rightarrow> nat" where
  "hmode_num HmFault = 0"
| "hmode_num HmOffline = 1"
| "hmode_num HmOff = 2"
| "hmode_num HmSuspended = 3"
| "hmode_num HmCooling = 4"
| "hmode_num HmStable = 5"
| "hmode_num HmHeating = 6"
| "hmode_num HmTuning0 = 7"
| "hmode_num HmTuning1 = 8"
| "hmode_num HmTuning2 = 9"
| "hmode_num HmTuning3 = 10"

lemma hmode_num_inj: "hmode_num s = hmode_num t \<Longrightarrow> s = t"
  by (cases s; cases t) auto

instantiation HeaterMode :: linorder
begin

definition less_eq_HeaterMode :: "HeaterMode \<Rightarrow> HeaterMode \<Rightarrow> bool" where
  "less_eq_HeaterMode s t \<longleftrightarrow> hmode_num s \<le> hmode_num t"

definition less_HeaterMode :: "HeaterMode \<Rightarrow> HeaterMode \<Rightarrow> bool" where
  "less_HeaterMode s t \<longleftrightarrow> hmode_num s < hmode_num t"

instance
  by standard (auto simp: less_eq_HeaterMode_def less_HeaterMode_def intro: hmode_num_inj)

end

lemmas hmode_order = less_eq_HeaterMode_def less_HeaterMode_def

text \<open>\<open>static_cast<HeaterMode>(status.state)\<close>: the enumerations agree on the states of the link.\<close>

fun hmode_of :: "HeaterState \<Rightarrow> HeaterMode" where
  "hmode_of HFault = HmFault"
| "hmode_of HOffline = HmOffline"
| "hmode_of HOff = HmOff"
| "hmode_of HSuspended = HmSuspended"
| "hmode_of HCooling = HmCooling"
| "hmode_of HStable = HmStable"
| "hmode_of HHeating = HmHeating"

datatype HeaterStatus = StatusOff | StatusStandby | StatusActive | StatusFault | StatusTuning
  | StatusOffline

datatype GCodeResult = NotFinished | ResOk | ResWarning | WarningNotSupported | ResError
  | ErrorNotSupported | NotSupportedInCurrentMode | ResStopped | BadOrMissingParameter
  | RemoteInternalError | M291Cancelled | WaitingForAckSoIgnored | NoCanBuffer | CanResponseTimeout

definition Succeeded :: "GCodeResult \<Rightarrow> bool" where
  "Succeeded r \<longleftrightarrow> r = ResOk \<or> r = ResWarning"

datatype HeaterFaultType = FailedToReadSensor | TemperatureRisingTooSlowly
  | ExceededAllowedExcursion | MonitorTriggered | HeaterFaultTypeLimit

datatype MonitorTrigger = TrigDisabled | TemperatureExceeded | TemperatureTooLow

datatype MonitorAction = GenerateFault | PermanentSwitchOff | TemporarySwitchOff | ShutDown

record HeaterMonitor =
  mo_limit :: f32
  mo_sensorNumber :: "8 word"
  mo_action :: MonitorAction
  mo_trigger :: MonitorTrigger
  mo_badTemperatureCount :: u8

datatype HeaterCall = FlagTemperatureFault nat
  | HeaterFaultEvent HeaterFaultType nat string
  | HeatUpdated

record LpcHeater =
  lh_frequency :: u16
  lh_mode :: HeaterMode
  lh_connectionGeneration :: u32
  he_heaterNumber :: nat
  he_sensorNumber :: int
  he_activeTemperature :: f32
  he_standbyTemperature :: f32
  he_maxTempExcursion :: f32
  he_maxHeatingFaultTime :: f32
  he_maxBadTemperatureCount :: u32
  he_isBedOrChamber :: bool
  he_active :: bool
  he_usingFeedForward :: bool
  he_modelSetByUser :: bool
  he_monitorsSetByUser :: bool
  he_tuned :: bool
  he_lastFanPwm :: f32
  he_extrusionPwmBoost :: f32
  he_extrusionTemperatureBoost :: f32
  he_previousExtrusionPwmBoost :: f32
  he_model :: FopDt
  he_monitors :: "HeaterMonitor list"
  he_host :: Host
  he_calls :: "HeaterCall list"

record HeatEnv =
  ev_powf :: "f32 \<Rightarrow> f32 \<Rightarrow> f32"
  ev_ub :: "f32 \<Rightarrow> u16"
  ev_ub32 :: "f32 \<Rightarrow> u32"
  ev_sensorExists :: "u32 \<Rightarrow> bool"
  ev_sensorTemperature :: "int \<Rightarrow> f32"
  ev_isBedOrChamber :: "nat \<Rightarrow> bool"

datatype 'a gparam = Absent | Malformed | Given 'a

definition BadErrorTemperature :: f32 where "BadErrorTemperature = f_lit 2000 1"
definition BadLowTemperature :: f32 where "BadLowTemperature = f_neg (f_lit 10 1)"
definition ABS_ZERO :: f32 where "ABS_ZERO = f_neg (f_lit 27315 100)"
definition DefaultHotEndTemperatureLimit :: f32 where "DefaultHotEndTemperatureLimit = f_lit 285 1"
definition DefaultBedTemperatureLimit :: f32 where "DefaultBedTemperatureLimit = f_lit 125 1"
definition DefaultMaxTempExcursion :: f32 where "DefaultMaxTempExcursion = f_lit 15 1"
definition DefaultMaxHeatingFaultTime :: f32 where "DefaultMaxHeatingFaultTime = f_lit 5 1"
definition DefaultMaxBadTemperatureCount :: u32 where "DefaultMaxBadTemperatureCount = 3"
definition DefaultHeaterPwmFreq :: u16 where "DefaultHeaterPwmFreq = 250"
definition MaxHeaterPwmFrequency :: u16 where "MaxHeaterPwmFrequency = 1000"
definition MaxMonitorsPerHeater :: nat where "MaxMonitorsPerHeater = 3"
definition MaxSensors :: nat where "MaxSensors = 8"

section \<open>Monitors\<close>

text \<open>\<open>limit\<close> and \<open>action\<close> of a new monitor are not initialised: they are whatever was there.\<close>

definition HeaterMonitor_new :: "f32 \<Rightarrow> MonitorAction \<Rightarrow> HeaterMonitor" where
  "HeaterMonitor_new lim act = \<lparr>mo_limit = lim, mo_sensorNumber = - 1, mo_action = act,
     mo_trigger = TrigDisabled, mo_badTemperatureCount = 0\<rparr>"

definition Monitor_Set :: "int \<Rightarrow> f32 \<Rightarrow> MonitorAction \<Rightarrow> MonitorTrigger \<Rightarrow> HeaterMonitor \<Rightarrow> HeaterMonitor" where
  "Monitor_Set sn lim act trig mo = mo\<lparr>mo_sensorNumber := word_of_int sn, mo_limit := lim,
     mo_action := act, mo_trigger := trig, mo_badTemperatureCount := 0\<rparr>"

definition Monitor_Disable :: "HeaterMonitor \<Rightarrow> HeaterMonitor" where
  "Monitor_Disable mo = mo\<lparr>mo_trigger := TrigDisabled\<rparr>"

definition Monitor_GetSensorNumber :: "HeaterMonitor \<Rightarrow> int" where
  "Monitor_GetSensorNumber mo = sint (mo_sensorNumber mo)"

text \<open>\<open>Check\<close>, with the reading of the supervised sensor: \<open>None\<close> when it is in error.\<close>

definition Monitor_Check :: "u32 \<Rightarrow> (int \<Rightarrow> f32 option) \<Rightarrow> HeaterMonitor \<Rightarrow> bool \<times> HeaterMonitor" where
  "Monitor_Check maxBad reading mo =
    (if 0 \<le> Monitor_GetSensorNumber mo \<and> mo_trigger mo \<noteq> TrigDisabled then
       (case reading (Monitor_GetSensorNumber mo) of
          None \<Rightarrow> let mo1 = mo\<lparr>mo_badTemperatureCount := mo_badTemperatureCount mo + 1\<rparr>
            in (\<not> ucast (mo_badTemperatureCount mo1) > maxBad, mo1)
        | Some temperature \<Rightarrow> let mo1 = mo\<lparr>mo_badTemperatureCount := 0\<rparr>
            in (case mo_trigger mo of
                  TemperatureExceeded \<Rightarrow> f_le temperature (mo_limit mo)
                | TemperatureTooLow \<Rightarrow> f_ge temperature (mo_limit mo)
                | TrigDisabled \<Rightarrow> True, mo1))
     else (True, mo))"

definition Monitor_Report :: "nat \<Rightarrow> nat \<Rightarrow> HeaterMonitor \<Rightarrow> reply" where
  "Monitor_Report heater index mo =
    (''Heater %d monitor %d '', [ArgU heater, ArgU index])
    # (if mo_trigger mo = TrigDisabled then [(''is disabled'', [])]
       else [(''uses sensor %d to %s if the reading %s %.1f'' @ DEGREE_SYMBOL @ ''C'',
         [ArgI (Monitor_GetSensorNumber mo),
          ArgS (case mo_action mo of GenerateFault \<Rightarrow> ''generate a heater fault''
                | PermanentSwitchOff \<Rightarrow> ''permanently switch off''
                | TemporarySwitchOff \<Rightarrow> ''temporarily switch off''
                | ShutDown \<Rightarrow> ''shut down the printer''),
          ArgS (case mo_trigger mo of TemperatureExceeded \<Rightarrow> ''exceeds''
                | TemperatureTooLow \<Rightarrow> ''falls below'' | TrigDisabled \<Rightarrow> ''(undefined)''),
          ArgF (mo_limit mo)])])"

definition GetTriggerName :: "HeaterMonitor \<Rightarrow> string" where
  "GetTriggerName mo = (case mo_trigger mo of TrigDisabled \<Rightarrow> ''disabled''
     | TemperatureExceeded \<Rightarrow> ''tooHigh'' | TemperatureTooLow \<Rightarrow> ''tooLow'')"

section \<open>Fault reporting\<close>

fun GetHeaterFaultType :: "ThermalError \<Rightarrow> HeaterFaultType" where
  "GetHeaterFaultType AdcTimeout = FailedToReadSensor"
| "GetHeaterFaultType ShortCircuit = FailedToReadSensor"
| "GetHeaterFaultType OpenCircuit = FailedToReadSensor"
| "GetHeaterFaultType LinkTimeout = FailedToReadSensor"
| "GetHeaterFaultType HeatingTooSlow = TemperatureRisingTooSlowly"
| "GetHeaterFaultType ThermalError.TemperatureExcursion = ExceededAllowedExcursion"
| "GetHeaterFaultType OverTemperature = MonitorTriggered"
| "GetHeaterFaultType UnderTemperature = MonitorTriggered"
| "GetHeaterFaultType _ = HeaterFaultTypeLimit"

fun GetThermalErrorText :: "ThermalError \<Rightarrow> string" where
  "GetThermalErrorText ErrNone = ''none''"
| "GetThermalErrorText NotConfigured = ''LPC thermal controller not configured''"
| "GetThermalErrorText AdcTimeout = ''LPC thermistor ADC timeout''"
| "GetThermalErrorText ShortCircuit = ''LPC thermistor short circuit''"
| "GetThermalErrorText OpenCircuit = ''LPC thermistor open circuit''"
| "GetThermalErrorText OverTemperature = ''LPC upper temperature limit exceeded''"
| "GetThermalErrorText UnderTemperature = ''LPC lower temperature limit exceeded''"
| "GetThermalErrorText LinkTimeout = ''LPC link timeout''"
| "GetThermalErrorText ControlFault = ''LPC thermal control fault''"
| "GetThermalErrorText HeatingTooSlow = ''LPC temperature rising too slowly''"
| "GetThermalErrorText ThermalError.TemperatureExcursion = ''LPC temperature excursion exceeded''"

section \<open>Members of the base class that no override replaces\<close>

definition host_do :: "(Host \<Rightarrow> Host) \<Rightarrow> LpcHeater \<Rightarrow> LpcHeater" where
  "host_do f h = h\<lparr>he_host := f (he_host h)\<rparr>"

definition note_call :: "HeaterCall \<Rightarrow> LpcHeater \<Rightarrow> LpcHeater" where
  "note_call c h = h\<lparr>he_calls := he_calls h @ [c]\<rparr>"

definition ResetHeater :: "LpcHeater \<Rightarrow> LpcHeater" where
  "ResetHeater h = h\<lparr>he_previousExtrusionPwmBoost := 0, he_extrusionTemperatureBoost := 0,
     he_extrusionPwmBoost := 0, he_lastFanPwm := 0\<rparr>"

definition Heater_SwitchOff :: "LpcHeater \<Rightarrow> LpcHeater" where
  "Heater_SwitchOff h = h\<lparr>he_previousExtrusionPwmBoost := 0, he_extrusionTemperatureBoost := 0,
     he_extrusionPwmBoost := 0\<rparr>"

definition SetSensorNumber :: "int \<Rightarrow> LpcHeater \<Rightarrow> LpcHeater" where
  "SetSensorNumber sn h = (if sn \<noteq> he_sensorNumber h then h\<lparr>he_sensorNumber := sn\<rparr> else h)"

definition GetTargetTemperature :: "LpcHeater \<Rightarrow> f32" where
  "GetTargetTemperature h = (if he_active h then he_activeTemperature h else he_standbyTemperature h)"

definition GetHighestTemperatureLimit :: "LpcHeater \<Rightarrow> f32" where
  "GetHighestTemperatureLimit h = foldl (\<lambda>limit prot.
     if mo_trigger prot = TemperatureExceeded then
       let t = mo_limit prot in
       if f_eq limit BadErrorTemperature \<or> f_gt t limit then t else limit
     else limit) BadErrorTemperature (he_monitors h)"

definition GetLowestTemperatureLimit :: "LpcHeater \<Rightarrow> f32" where
  "GetLowestTemperatureLimit h = foldl (\<lambda>limit prot.
     if mo_trigger prot = TemperatureTooLow then
       let t = mo_limit prot in
       if f_eq limit ABS_ZERO \<or> f_lt t limit then t else limit
     else limit) ABS_ZERO (he_monitors h)"

definition GetStatus :: "LpcHeater \<Rightarrow> HeaterStatus" where
  "GetStatus h =
    (if lh_mode h = HmFault then StatusFault
     else if lh_mode h = HmOffline then StatusOffline
     else if lh_mode h = HmOff then StatusOff
     else if HmTuning0 \<le> lh_mode h then StatusTuning
     else if he_active h then StatusActive else StatusStandby)"

definition ClearModelAndMonitors :: "HeatEnv \<Rightarrow> LpcHeater \<Rightarrow> LpcHeater" where
  "ClearModelAndMonitors env h = h\<lparr>he_model := FopDt_Reset (ev_powf env) (he_model h),
     he_monitors := map Monitor_Disable (he_monitors h),
     he_modelSetByUser := False, he_monitorsSetByUser := False\<rparr>"

section \<open>The heater on the coprocessor\<close>

text \<open>
  The members every new \<open>LpcHeater\<close> sets; the monitors' uninitialised members come from \<open>h\<close>, as does
  the state of the link.
\<close>

definition LpcHeater_new :: "HeatEnv \<Rightarrow> nat \<Rightarrow> LpcHeater \<Rightarrow> LpcHeater" where
  "LpcHeater_new env num h = ResetHeater (h\<lparr>
     he_monitors := map (\<lambda>mo. HeaterMonitor_new (mo_limit mo) (mo_action mo)) (he_monitors h),
     he_model := FopDt_Reset (ev_powf env) (he_model h),
     he_tuned := False, he_heaterNumber := num, he_sensorNumber := - 1,
     he_activeTemperature := 0, he_standbyTemperature := 0,
     he_maxTempExcursion := DefaultMaxTempExcursion,
     he_maxHeatingFaultTime := DefaultMaxHeatingFaultTime,
     he_maxBadTemperatureCount := DefaultMaxBadTemperatureCount,
     he_isBedOrChamber := False, he_active := False, he_usingFeedForward := False,
     he_modelSetByUser := False, he_monitorsSetByUser := False,
     lh_frequency := DefaultHeaterPwmFreq, lh_mode := HmOff,
     lh_connectionGeneration := hl_connectionGeneration (he_host h)\<rparr>)"

definition config_upper :: "HeaterMonitor list \<Rightarrow> f32" where
  "config_upper ms = foldl (\<lambda>u mo. if mo_trigger mo = TemperatureExceeded then f_min u (mo_limit mo)
     else u) BadErrorTemperature ms"

definition config_lower :: "HeaterMonitor list \<Rightarrow> f32" where
  "config_lower ms = foldl (\<lambda>l mo. if mo_trigger mo = TemperatureTooLow then f_max l (mo_limit mo)
     else l) ABS_ZERO ms"

definition SendConfiguration :: "HeatEnv \<Rightarrow> LpcHeater \<Rightarrow> LpcHeater" where
  "SendConfiguration env h = host_do (Host_ConfigureHeater (ev_ub env) (lh_frequency h)
     (config_upper (he_monitors h)) (config_lower (he_monitors h))
     (he_maxTempExcursion h) (he_maxHeatingFaultTime h)
     (ucast (min (he_maxBadTemperatureCount h) 255))) h"

definition SendFeedForward :: "LpcHeater \<Rightarrow> LpcHeater" where
  "SendFeedForward h = host_do (ConfigureHeaterFeedForward (he_lastFanPwm h)
     (he_extrusionPwmBoost h) (he_extrusionTemperatureBoost h)) h"

definition SendModel :: "LpcHeater \<Rightarrow> LpcHeater" where
  "SendModel h = host_do (ConfigureHeaterModel (model_args (he_model h))) h"

definition SendHeaterCommand :: "HeatEnv \<Rightarrow> HeaterCommand \<Rightarrow> f32 \<Rightarrow> LpcHeater \<Rightarrow> LpcHeater" where
  "SendHeaterCommand env c target h = host_do (CommandHeater (ev_ub env) c target) h"

definition RaiseFault :: "HeatEnv \<Rightarrow> ThermalError \<Rightarrow> LpcHeater \<Rightarrow> LpcHeater" where
  "RaiseFault env err h =
    note_call (HeaterFaultEvent (GetHeaterFaultType err) (he_heaterNumber h) (GetThermalErrorText err))
      (note_call (FlagTemperatureFault (he_heaterNumber h))
        (SendHeaterCommand env CmdOff 0 (h\<lparr>lh_mode := HmFault\<rparr>)))"

text \<open>The reply text and the heater after an operation that answers with a \<open>GCodeResult\<close>.\<close>

type_synonym outcome = "GCodeResult \<times> reply \<times> LpcHeater"

definition ConfigurePortAndSensor :: "HeatEnv \<Rightarrow> string \<Rightarrow> u16 \<Rightarrow> u32 \<Rightarrow> LpcHeater \<Rightarrow> outcome" where
  "ConfigurePortAndSensor env portName freq sn h =
    (if \<not> StringEqualsIgnoreCase portName ''lpc.heater''
     then (ResError, [(''Unsupported LPC heater port '' @ [CHR 0x27] @ ''%s'' @ [CHR 0x27], [ArgS portName])], h)
     else
       let h1 = SendConfiguration env (SetSensorNumber (sint sn) (h\<lparr>lh_frequency := freq\<rparr>))
       in if \<not> ev_sensorExists env sn
          then (ResWarning, [(''Sensor number %u has not been defined'', [ArgU (unat sn)])], h1)
          else (ResOk, [], h1))"

definition SetPwmFrequency :: "HeatEnv \<Rightarrow> u16 \<Rightarrow> LpcHeater \<Rightarrow> outcome" where
  "SetPwmFrequency env freq h =
    (ResOk, [], SendConfiguration env (h\<lparr>lh_frequency := min freq MaxHeaterPwmFrequency\<rparr>))"

definition ReportDetails :: "LpcHeater \<Rightarrow> outcome" where
  "ReportDetails h = (ResOk, [(''Heater %u pin lpc.heater frequency %uHz, sensor %d'',
     [ArgU (he_heaterNumber h), ArgU (unat (lh_frequency h)), ArgI (he_sensorNumber h)])], h)"

definition spin_generation :: "HeatEnv \<Rightarrow> LpcHeater \<Rightarrow> LpcHeater" where
  "spin_generation env h =
    (let currentGeneration = hl_connectionGeneration (he_host h) in
     if currentGeneration \<noteq> lh_connectionGeneration h then
       let h1 = h\<lparr>lh_connectionGeneration := currentGeneration\<rparr>
       in if HmSuspended \<le> lh_mode h1 then RaiseFault env LinkTimeout h1 else h1
     else h)"

definition spin_status :: "HeatEnv \<Rightarrow> LpcHeater \<Rightarrow> LpcHeater" where
  "spin_status env h =
    (case GetThermalStatus (he_host h) of
       Some status \<Rightarrow>
         if lh_mode h \<noteq> HmFault then
           let h1 = h\<lparr>lh_mode := hmode_of (hs_state status)\<rparr>
           in if lh_mode h1 = HmFault then RaiseFault env (hs_error status) h1 else h1
         else h
     | None \<Rightarrow>
         if lh_mode h \<noteq> HmFault then
           if HmSuspended \<le> lh_mode h then RaiseFault env LinkTimeout h
           else h\<lparr>lh_mode := HmOffline\<rparr>
         else h)"

definition LpcHeater_Spin :: "HeatEnv \<Rightarrow> LpcHeater \<Rightarrow> LpcHeater" where
  "LpcHeater_Spin env h = spin_status env (spin_generation env h)"

definition LpcHeater_SwitchOff :: "HeatEnv \<Rightarrow> LpcHeater \<Rightarrow> LpcHeater" where
  "LpcHeater_SwitchOff env h =
    (let h1 = SendHeaterCommand env CmdOff 0 h;
         h2 = (if lh_mode h1 \<noteq> HmFault then h1\<lparr>lh_mode := HmOff\<rparr> else h1)
     in Heater_SwitchOff h2)"

definition LpcHeater_ResetFault :: "HeatEnv \<Rightarrow> LpcHeater \<Rightarrow> outcome" where
  "LpcHeater_ResetFault env h =
    (if \<not> hl_online (he_host h) then (ResError, [(''LPC heater is offline'', [])], h)
     else (ResOk, [], (SendHeaterCommand env CmdResetFault 0 h)\<lparr>lh_mode := HmOff\<rparr>))"

definition GetTemperature :: "HeatEnv \<Rightarrow> LpcHeater \<Rightarrow> f32" where
  "GetTemperature env h =
    (case GetThermalStatus (he_host h) of
       Some status \<Rightarrow> hs_temperature status
     | None \<Rightarrow> ev_sensorTemperature env (he_sensorNumber h))"

definition GetAveragePWM :: "LpcHeater \<Rightarrow> f32" where
  "GetAveragePWM h =
    (case GetThermalStatus (he_host h) of Some status \<Rightarrow> hs_averagePwm status | None \<Rightarrow> 0)"

definition ValidateMonitors :: "LpcHeater \<Rightarrow> GCodeResult \<times> reply" where
  "ValidateMonitors h =
    (case filter (\<lambda>mo. mo_trigger mo \<noteq> TrigDisabled
         \<and> (Monitor_GetSensorNumber mo \<noteq> he_sensorNumber h \<or> mo_action mo \<noteq> GenerateFault))
         (he_monitors h) of
       [] \<Rightarrow> (ResOk, [])
     | mo # _ \<Rightarrow> (ResError, [(if Monitor_GetSensorNumber mo \<noteq> he_sensorNumber h
          then ''LPC heater monitors must use the heater'' @ [CHR 0x27] @ ''s lpc.ntc sensor''
          else ''LPC heater monitors only support the generate-fault action'', [])]))"

definition LpcHeater_SwitchOn :: "HeatEnv \<Rightarrow> LpcHeater \<Rightarrow> outcome" where
  "LpcHeater_SwitchOn env h =
    (if \<not> fo_enabled (he_model h)
     then (ResError, [(''Heater %u not switched on due to bad model'', [ArgU (he_heaterNumber h)])], h)
     else if \<not> hl_online (he_host h) then (ResError, [(''LPC heater is offline'', [])], h)
     else if \<not> IsThermistorSensor (word_of_int (he_sensorNumber h)) (he_host h)
     then (ResError, [(''Heater %u must use the NTC configured on lpc.ntc'', [ArgU (he_heaterNumber h)])], h)
     else if \<not> Succeeded (fst (ValidateMonitors h)) then (ResError, snd (ValidateMonitors h), h)
     else case GetThermalStatus (he_host h) of
       None \<Rightarrow> (ResError, [(''LPC thermal status is unavailable'', [])], h)
     | Some status \<Rightarrow>
         if hs_state status = HFault
         then (ResError, [(''LPC heater is in fault state: %s'', [ArgS (GetThermalErrorText (hs_error status))])], h)
         else if f_ge (GetHighestTemperatureLimit h) BadErrorTemperature
         then (ResError, [(''Heater %u has no upper temperature monitor'', [ArgU (he_heaterNumber h)])], h)
         else (ResOk, [], (SendHeaterCommand env CmdOn (GetTargetTemperature h)
                (SendFeedForward (SendConfiguration env (SendModel h))))\<lparr>lh_mode := HmHeating\<rparr>))"

definition LpcHeater_Suspend :: "HeatEnv \<Rightarrow> bool \<Rightarrow> LpcHeater \<Rightarrow> LpcHeater" where
  "LpcHeater_Suspend env sus h =
    (if sus \<and> (lh_mode h = HmStable \<or> lh_mode h = HmHeating \<or> lh_mode h = HmCooling)
     then (SendHeaterCommand env CmdSuspend (GetTargetTemperature h) h)\<lparr>lh_mode := HmSuspended\<rparr>
     else if \<not> sus \<and> lh_mode h = HmSuspended then snd (snd (LpcHeater_SwitchOn env h))
     else h)"

definition SetFanFeedForwardPwm :: "f32 \<Rightarrow> LpcHeater \<Rightarrow> LpcHeater" where
  "SetFanFeedForwardPwm pwm h =
    (if \<not> f_eq pwm (he_lastFanPwm h) then SendFeedForward (h\<lparr>he_lastFanPwm := pwm\<rparr>) else h)"

definition UpdateModel :: "LpcHeater \<Rightarrow> outcome" where
  "UpdateModel h = (ResOk, [], SendModel h)"

definition UpdateFaultDetectionParameters :: "HeatEnv \<Rightarrow> LpcHeater \<Rightarrow> outcome" where
  "UpdateFaultDetectionParameters env h = (ResOk, [], SendConfiguration env h)"

definition UpdateHeaterMonitors :: "HeatEnv \<Rightarrow> LpcHeater \<Rightarrow> outcome" where
  "UpdateHeaterMonitors env h =
    (if \<not> Succeeded (fst (ValidateMonitors h)) then (fst (ValidateMonitors h), snd (ValidateMonitors h), h)
     else (ResOk, [], SendConfiguration env h))"

definition LpcHeater_StartAutoTune :: "LpcHeater \<Rightarrow> outcome" where
  "LpcHeater_StartAutoTune h =
    (ResError, [(''Auto tuning is not supported by the LPC heater yet'', [])], h)"

section \<open>Members of the base class that call the overrides\<close>

text \<open>A command either throws its exception's message or returns a result.\<close>

type_synonym thrown = "(string + GCodeResult) \<times> reply \<times> LpcHeater"

definition returned :: "outcome \<Rightarrow> thrown" where
  "returned r = (Inr (fst r), snd r)"

definition and_then :: "string + 'a \<Rightarrow> ('a \<Rightarrow> string + 'b) \<Rightarrow> string + 'b" where
  "and_then x f = (case x of Inl e \<Rightarrow> Inl e | Inr a \<Rightarrow> f a)"

text \<open>A parameter that may be missing, then checked.\<close>

definition gp_opt :: "'a \<Rightarrow> 'a gparam \<Rightarrow> string + 'a" where
  "gp_opt dflt p = (case p of Absent \<Rightarrow> Inr dflt | Malformed \<Rightarrow> Inl ''malformed'' | Given v \<Rightarrow> Inr v)"

definition gp_checked :: "('a \<Rightarrow> bool) \<Rightarrow> string \<Rightarrow> 'a \<Rightarrow> 'a gparam \<Rightarrow> string + 'a" where
  "gp_checked ok msg dflt p =
    (case p of Given v \<Rightarrow> if ok v then Inr v else Inl msg | _ \<Rightarrow> gp_opt dflt p)"

definition seen :: "'a gparam \<Rightarrow> bool" where
  "seen p \<longleftrightarrow> p \<noteq> Absent"

definition SetExtrusionFeedForward :: "f32 \<Rightarrow> f32 \<Rightarrow> LpcHeater \<Rightarrow> LpcHeater" where
  "SetExtrusionFeedForward pwmBoost tempBoost h = SendFeedForward (h\<lparr>he_usingFeedForward := True,
     he_extrusionPwmBoost := pwmBoost, he_extrusionTemperatureBoost := tempBoost\<rparr>)"

definition Heater_SetM301PidParameters :: "M301PidParameters \<Rightarrow> LpcHeater \<Rightarrow> LpcHeater" where
  "Heater_SetM301PidParameters params h =
    snd (snd (UpdateModel (h\<lparr>he_model := SetM301PidParameters params (he_model h)\<rparr>)))"

definition SetModel :: "HeatEnv \<Rightarrow> f32 \<Rightarrow> f32 \<Rightarrow> f32 \<Rightarrow> f32 \<Rightarrow> f32 \<Rightarrow> f32 \<Rightarrow> f32 \<Rightarrow> bool \<Rightarrow> bool
    \<Rightarrow> LpcHeater \<Rightarrow> outcome" where
  "SetModel env hr bcr fcr coolingRateExponent td maxPwm voltage usePid inverted h =
    (case SetParameters (ev_powf env) hr bcr fcr coolingRateExponent td maxPwm voltage usePid inverted
            (he_model h) of
       (ok, rep, m) \<Rightarrow>
         let h1 = h\<lparr>he_model := m\<rparr>;
             (rslt, rep', h2) =
               (if ok then
                  if fo_enabled m then
                    (case UpdateModel h1 of (r, _, h2) \<Rightarrow>
                       let predictedMaxTemp =
                             f_add (EstimateMaxTemperatureRise (ev_powf env) (he_model h2)) HostNormalAmbientTemperature;
                           noWarnTemp = f_add (f_mul (f_sub (GetHighestTemperatureLimit h2)
                             HostNormalAmbientTemperature) (f_lit 15 10)) (f_lit 50 1)
                       in if r = ResOk \<and> f_gt predictedMaxTemp noWarnTemp
                          then (ResWarning, [(''Heater %u predicted maximum temperature at full power is %d''
                                  @ DEGREE_SYMBOL @ ''C'', [ArgU (he_heaterNumber h2),
                                  ArgI (sint (f_to_i32 (ev_ub32 env) predictedMaxTemp))])], h2)
                          else (r, [], h2))
                  else (ResOk, [], (ResetHeater h1)\<lparr>he_tuned := False\<rparr>)
                else (ResError, rep, h1))
         in (rslt, rep', note_call HeatUpdated h2))"

text \<open>The parameters of M307; \<open>K\<close> and \<open>C\<close> are lists of one or two numbers.\<close>

record M307 =
  g7_K :: "f32 list gparam"
  g7_E :: "f32 gparam"
  g7_C :: "f32 list gparam"
  g7_R :: "f32 gparam"
  g7_A :: "f32 gparam"
  g7_D :: "f32 gparam"
  g7_B :: "u32 gparam"
  g7_S :: "f32 gparam"
  g7_V :: "f32 gparam"
  g7_I :: "u32 gparam"

text \<open>The cooling rates and the exponent.\<close>

definition m307_cooling :: "FopDt \<Rightarrow> M307 \<Rightarrow> string + f32 \<times> f32 \<times> f32" where
  "m307_cooling m g =
    (if seen (g7_K g) then
       and_then (gp_checked (\<lambda>xs. xs \<noteq> [] \<and> length xs \<le> 2) ''array too long'' [] (g7_K g)) (\<lambda>xs.
       and_then (gp_opt (fo_coolingRateExponent m) (g7_E g)) (\<lambda>e.
         Inr (xs ! 0, if length xs = 2 then xs ! 1 else 0, e)))
     else if seen (g7_C g) then
       and_then (gp_checked (\<lambda>xs. xs \<noteq> [] \<and> length xs \<le> 2) ''array too long'' [] (g7_C g)) (\<lambda>xs.
         let t0 = xs ! 0; t1 = (if length xs = 2 then xs ! 1 else xs ! 0);
             basic = f_div (f_lit 100 1) t0
         in Inr (basic, f_sub (f_div (f_lit 100 1) t1) basic, f_lit 1 1))
     else Inr (fo_basicCoolingRate m, fo_fanCoolingRate m, fo_coolingRateExponent m))"

definition m307_heating :: "FopDt \<Rightarrow> f32 \<Rightarrow> M307 \<Rightarrow> string + f32" where
  "m307_heating m basicCoolingRate g =
    (if seen (g7_R g)
     then gp_checked (\<lambda>v. f_gt v 0) ''value must be greater than zero'' 0 (g7_R g)
     else case g7_A g of
       Absent \<Rightarrow> Inr (fo_heatingRate m)
     | _ \<Rightarrow> and_then (gp_opt 0 (g7_A g)) (\<lambda>gain.
         Inr (f_mul (f_mul gain basicCoolingRate) (f_lit 1 100))))"

definition m307_seen :: "M307 \<Rightarrow> bool" where
  "m307_seen g \<longleftrightarrow> seen (g7_K g) \<or> seen (g7_C g) \<or> seen (g7_R g) \<or> seen (g7_A g) \<or> seen (g7_D g)
     \<or> seen (g7_B g) \<or> seen (g7_S g) \<or> seen (g7_V g) \<or> seen (g7_I g)"

definition SetOrReportModel :: "HeatEnv \<Rightarrow> nat \<Rightarrow> M307 \<Rightarrow> LpcHeater \<Rightarrow> thrown" where
  "SetOrReportModel env heater g h =
    (let m = he_model h in
     case and_then (m307_cooling m g) (\<lambda>(bcr, fcr, e).
          and_then (m307_heating m bcr g) (\<lambda>hr.
          and_then (gp_opt (fo_deadTime m) (g7_D g)) (\<lambda>td.
          and_then (gp_opt (if fo_usePid m then 0 else 1) (g7_B g)) (\<lambda>dontUsePid.
          and_then (gp_opt (fo_maxPwm m) (g7_S g)) (\<lambda>maxPwm.
          and_then (gp_opt (fo_standardVoltage m) (g7_V g)) (\<lambda>voltage.
          and_then (gp_opt 0 (g7_I g)) (\<lambda>inversion.
            Inr (hr, bcr, fcr, e, td, maxPwm, voltage, dontUsePid, inversion)))))))) of
       Inl msg \<Rightarrow> (Inl msg, [], h)
     | Inr (hr, bcr, fcr, e, td, maxPwm, voltage, dontUsePid, inversion) \<Rightarrow>
         if m307_seen g then
           (case SetModel env hr bcr fcr e td maxPwm voltage (dontUsePid = 0)
                   (inversion = 1 \<or> inversion = 3) h of
              (rslt, rep, h1) \<Rightarrow>
                (Inr rslt, rep, if Succeeded rslt then h1\<lparr>he_modelSetByUser := True\<rparr> else h1))
         else if \<not> fo_enabled m
         then (Inr ResOk, [(''Heater %u is disabled because its model is undefined'', [ArgU heater])], h)
         else (Inr ResOk, AppendModelParameters (ev_powf env) (ev_ub32 env) heater
                 (\<not> ev_isBedOrChamber env heater) m, h))"

definition gp_nonneg :: "f32 \<Rightarrow> f32 gparam \<Rightarrow> string + f32" where
  "gp_nonneg = gp_checked (\<lambda>v. f_ge v 0) ''value must be not less than zero''"

definition gp_limited :: "nat \<Rightarrow> u32 \<Rightarrow> u32 gparam \<Rightarrow> string + u32" where
  "gp_limited bound = gp_checked (\<lambda>v. unat v < bound) ''parameter too high''"

text \<open>M570 stores each parameter as it is read, before a later one may throw.\<close>

definition ConfigureFaultDetectionParameters ::
    "HeatEnv \<Rightarrow> f32 gparam \<Rightarrow> f32 gparam \<Rightarrow> u32 gparam \<Rightarrow> LpcHeater \<Rightarrow> thrown" where
  "ConfigureFaultDetectionParameters env P T R h =
    (case gp_nonneg (he_maxHeatingFaultTime h) P of
       Inl e \<Rightarrow> (Inl e, [], h)
     | Inr p \<Rightarrow> let h1 = h\<lparr>he_maxHeatingFaultTime := p\<rparr> in
       case gp_nonneg (he_maxTempExcursion h1) T of
         Inl e \<Rightarrow> (Inl e, [], h1)
       | Inr t \<Rightarrow> let h2 = h1\<lparr>he_maxTempExcursion := t\<rparr> in
         case gp_limited 51 (he_maxBadTemperatureCount h2) R of
           Inl e \<Rightarrow> (Inl e, [], h2)
         | Inr r \<Rightarrow> let h3 = h2\<lparr>he_maxBadTemperatureCount := r\<rparr> in
           if seen P \<or> seen T \<or> seen R then
             (case UpdateFaultDetectionParameters env h3 of
                (rslt, rep, h4) \<Rightarrow> (Inr rslt, rep, note_call HeatUpdated h4))
           else (Inr ResOk, [(''Heater %u allowed excursion %.1f'' @ DEGREE_SYMBOL
                  @ ''C, fault trigger time %.1f seconds, max %lu consecutive bad readings'',
                  [ArgU (he_heaterNumber h3), ArgF (he_maxTempExcursion h3),
                   ArgF (he_maxHeatingFaultTime h3), ArgU (unat (he_maxBadTemperatureCount h3))])], h3))"

definition trigger_of :: "int \<Rightarrow> MonitorTrigger" where
  "trigger_of i = (if i = - 1 then TrigDisabled else if i = 0 then TemperatureExceeded else TemperatureTooLow)"

definition action_of :: "u32 \<Rightarrow> MonitorAction" where
  "action_of a = (if a = 0 then GenerateFault else if a = 1 then PermanentSwitchOff
     else if a = 2 then TemporarySwitchOff else ShutDown)"

text \<open>The parameters of M143.\<close>

record M143 =
  g1_P :: "u32 gparam"
  g1_T :: "u32 gparam"
  g1_A :: "u32 gparam"
  g1_C :: "u32 gparam"
  g1_S :: "f32 gparam"

definition ConfigureMonitor :: "HeatEnv \<Rightarrow> M143 \<Rightarrow> LpcHeater \<Rightarrow> thrown" where
  "ConfigureMonitor env g h =
    (case and_then (gp_limited MaxMonitorsPerHeater 0 (g1_P g)) (\<lambda>index.
          and_then (gp_limited MaxSensors (word_of_int (he_sensorNumber h)) (g1_T g)) (\<lambda>sensor.
          and_then (gp_limited 4 0 (g1_A g)) (\<lambda>action.
          and_then (gp_checked (\<lambda>v. - 1 \<le> sint v \<and> sint v \<le> 1) ''parameter out of range'' 0 (g1_C g))
            (\<lambda>trigger.
          and_then (gp_opt (mo_limit (he_monitors h ! unat index)) (g1_S g)) (\<lambda>limit.
            Inr (unat index, sint sensor, action_of action, trigger_of (sint trigger), limit)))))) of
       Inl e \<Rightarrow> (Inl e, [], h)
     | Inr (index, sensor, action, trigger, limit) \<Rightarrow>
         if f_le limit BadLowTemperature \<or> f_ge limit BadErrorTemperature
         then (Inr ResError, [(''Invalid temperature limit'', [])], h)
         else if seen (g1_T g) \<or> seen (g1_S g) \<or> seen (g1_A g) \<or> seen (g1_C g) then
           (let h1 = h\<lparr>he_monitors := (he_monitors h)
                  [index := Monitor_Set sensor limit action trigger (he_monitors h ! index)]\<rparr>
            in case UpdateHeaterMonitors env h1 of
                 (rslt, rep, h2) \<Rightarrow>
                   (Inr rslt, rep, note_call HeatUpdated
                      (if Succeeded rslt then h2\<lparr>he_monitorsSetByUser := True\<rparr> else h2)))
         else if seen (g1_P g)
         then (Inr ResOk, Monitor_Report (he_heaterNumber h) index (he_monitors h ! index), h)
         else (Inr ResOk, concat (map (\<lambda>i. Monitor_Report (he_heaterNumber h) i (he_monitors h ! i))
                 [0..<MaxMonitorsPerHeater]), h))"

definition SetActiveOrStandby :: "HeatEnv \<Rightarrow> bool \<Rightarrow> LpcHeater \<Rightarrow> outcome" where
  "SetActiveOrStandby env setActive h =
    (if lh_mode h \<noteq> HmFault
     then LpcHeater_SwitchOn env (h\<lparr>he_active := setActive,
            he_isBedOrChamber := ev_isBedOrChamber env (he_heaterNumber h)\<rparr>)
     else (ResError, [(''Can'' @ [CHR 0x27] @ ''t turn heater %u on while in fault state'',
             [ArgU (he_heaterNumber h)])], h))"

text \<open>Throws the message of a failed \<open>SwitchOn\<close>, or that the temperature is out of the limits.\<close>

definition SetTemperature :: "HeatEnv \<Rightarrow> f32 \<Rightarrow> bool \<Rightarrow> LpcHeater \<Rightarrow> (reply + unit) \<times> LpcHeater" where
  "SetTemperature env t activeNotStandby h =
    (if f_gt t (GetHighestTemperatureLimit h)
     then (Inl [(''Temperature too high for heater %lu'', [ArgU (he_heaterNumber h)])], h)
     else if f_lt t (GetLowestTemperatureLimit h)
     then (Inl [(''Temperature too low for heater %lu'', [ArgU (he_heaterNumber h)])], h)
     else
       let h1 = (if activeNotStandby then h\<lparr>he_activeTemperature := t\<rparr>
                 else h\<lparr>he_standbyTemperature := t\<rparr>)
       in if HmSuspended < lh_mode h1 \<and> he_active h1 = activeNotStandby then
            (case LpcHeater_SwitchOn env (h1\<lparr>he_isBedOrChamber := ev_isBedOrChamber env (he_heaterNumber h1)\<rparr>) of
               (rslt, rep, h2) \<Rightarrow>
                 if \<not> Succeeded rslt then (Inl rep, h2)
                 else (Inr (), h2\<lparr>he_model := CalcPidConstants (ev_powf env) (he_activeTemperature h2) (he_model h2)\<rparr>))
          else (Inr (), h1))"

definition set_default_monitor :: "f32 \<Rightarrow> LpcHeater \<Rightarrow> LpcHeater" where
  "set_default_monitor lim h =
    (if \<not> he_monitorsSetByUser h \<and> 0 \<le> he_sensorNumber h \<and> he_sensorNumber h < int MaxSensors
     then h\<lparr>he_monitors := (he_monitors h)[0 := Monitor_Set (he_sensorNumber h) lim GenerateFault
            TemperatureExceeded (he_monitors h ! 0)]\<rparr>
     else h)"

definition SetAsToolHeater :: "HeatEnv \<Rightarrow> LpcHeater \<Rightarrow> LpcHeater" where
  "SetAsToolHeater env h = set_default_monitor DefaultHotEndTemperatureLimit
    (if \<not> he_modelSetByUser h
     then snd (snd (UpdateModel (h\<lparr>he_model := SetDefaultToolParameters (ev_powf env) (he_model h)\<rparr>)))
     else h)"

definition SetAsBedOrChamberHeater :: "HeatEnv \<Rightarrow> LpcHeater \<Rightarrow> LpcHeater" where
  "SetAsBedOrChamberHeater env h = set_default_monitor DefaultBedTemperatureLimit
    (if \<not> he_modelSetByUser h
     then snd (snd (UpdateModel (h\<lparr>he_model := SetDefaultBedOrChamberParameters (ev_powf env) (he_model h)\<rparr>)))
     else h)"

end
