(* ===== verification/LpcLimits.thy ===== *)
theory LpcLimits
  imports LpcLink
begin

text \<open>
  How exactly a temperature limit crosses the link: \<open>ToDeciDegrees\<close> of \<open>LpcInterface.cpp\<close> sends it in tenths of a degree,
  truncated toward zero, and \<open>ConfigureHeater\<close> of \<open>Thermal.cpp\<close> multiplies the tenths by \<open>0.1f\<close> again. The lemmas bound the
  difference between the \<open>float\<close> the host holds and the one the coprocessor ends up with, the two roundings included.
  A degree is \<open>2 ^ 149\<close> units of \<open>fint\<close>.
\<close>

section \<open>Rounding\<close>

lemma round_mag_near:
  assumes "n \<le> 2 ^ 276"
  shows "round_mag n 1 < INF_BITS"
    and "16777216 * mag_of (round_mag n 1) \<le> 16777217 * n"
    and "16777216 * n \<le> 16777216 * mag_of (round_mag n 1) + n"
proof -
  show cap: "round_mag n 1 < INF_BITS"
    unfolding binary32_format
    by (rule fmt_round_uncapped [where s = 276]) (use assms mag_of_INF in \<open>simp_all add: binary32_format\<close>)
  have "16777216 * mag_of (round_mag n 1) \<le> 16777217 * n
      \<and> 16777216 * n \<le> 16777216 * mag_of (round_mag n 1) + n"
  proof (cases "8388608 \<le> n")
    case True
    then show ?thesis
      using fmt_round_error [of 23 n 1 INF_BITS] cap by (simp add: binary32_format)
  next
    case False
    then have "mag_of n = n" by (intro mag_of_small) simp
    moreover have "round_mag (1 * mag_of n) 1 = n"
      by (rule round_mag_exact) (use False in \<open>simp_all add: INF_BITS_def\<close>)
    ultimately show ?thesis by simp
  qed
  then show "16777216 * mag_of (round_mag n 1) \<le> 16777217 * n"
    "16777216 * n \<le> 16777216 * mag_of (round_mag n 1) + n" by simp_all
qed

lemma round_mag_scale: "0 < c \<Longrightarrow> round_mag (n * c) c = round_mag n 1"
  using fmt_round_scale [of c 1 23 INF_BITS n] by (simp add: binary32_format)

lemma fint_mk: "b < 2147483648 \<Longrightarrow> fint (mk_float s b) = (if s then - int (mag_of b) else int (mag_of b))"
  by (simp add: fint_def fmag_def)

section \<open>Tenths of a degree\<close>

lemma ten_bits: "f_lit 10 1 = 0x41200000" "fmag 0x41200000 = 10 * 2 ^ 149" "f_isfinite 0x41200000" "\<not> fsign 0x41200000"
  by (simp_all add: f_lit_def round_mag_def round_shift_def bitlen.simps rne_cases mk_float_def Let_def INF_BITS_def
      fmag_def fbits_def mag_of_def f_isfinite_def fsign_def)

lemma tenth_bits: "f_lit 1 10 = 0x3DCCCCCD" "fmag 0x3DCCCCCD = 13421773 * 2 ^ 122" "f_isfinite 0x3DCCCCCD" "\<not> fsign 0x3DCCCCCD"
  by (simp_all add: f_lit_def round_mag_def round_shift_def bitlen.simps rne_cases mk_float_def Let_def INF_BITS_def
      fmag_def fbits_def mag_of_def f_isfinite_def fsign_def)

lemma clamp_bits:
  "f_lit 32767 1 = 0x46FFFE00" "f_neg (f_lit 32768 1) = 0xC7000000"
  by (simp_all add: f_lit_def f_neg_def round_mag_def round_shift_def bitlen.simps rne_cases mk_float_def Let_def INF_BITS_def
      fbits_def fsign_def)

text \<open>What is sent: the tenfold value, rounded once and truncated.\<close>

lemma ToDeciDegrees_value:
  assumes "f_isfinite v" "fmag v \<le> 2000 * 2 ^ 149"
  defines "S \<equiv> mag_of (round_mag (10 * fmag v) 1)"
  shows "sint (ToDeciDegrees ub v) = (if fsign v then - int (S div 2 ^ 149) else int (S div 2 ^ 149))"
    and "S \<le> 20000 * 2 ^ 149"
proof -
  define b where "b = round_mag (10 * fmag v) 1"
  have top: "mag_of 0x469C4000 = 20000 * 2 ^ 149" by (simp add: mag_of_def)
  have b: "b \<le> 0x469C4000"
    unfolding b_def by (rule round_mag_le) (use assms(2) in \<open>simp_all add: top INF_BITS_def\<close>)
  then show S: "S \<le> 20000 * 2 ^ 149" unfolding S_def b_def [symmetric] using mag_of_mono [OF b] top by simp
  have "round_mag (fmag v * (10 * 2 ^ 149)) (2 ^ 149) = b"
    using round_mag_scale [of "2 ^ 149" "10 * fmag v"] by (simp add: b_def mult.commute mult.left_commute)
  then have scaled: "f_mul v (f_lit 10 1) = mk_float (fsign v) b"
    using assms(1) ten_bits unfolding ten_bits(1)
    by (auto simp: f_mul_def f_isfinite_def f_isnan_def f_isinf_def f_iszero_def)
  have lt: "b < 2147483648" using b by simp
  have clamp: "\<not> f_lt (mk_float (fsign v) b) 0xC7000000" "\<not> f_gt (mk_float (fsign v) b) 0x46FFFE00"
    using b lt by (auto simp: f_lt_def fkey_def) (auto simp: fbits_def fsign_def)
  define t where "t = S div 2 ^ 149"
  have t: "t \<le> 20000" using div_le_mono [OF S, of "2 ^ 149"] by (simp add: t_def)
  have tr: "f_trunc (mk_float (fsign v) b) = (if fsign v then - int t else int t)"
    using lt by (simp add: f_trunc_def fmag_def t_def S_def b_def)
  have "f_in_range (-32768) 32767 (mk_float (fsign v) b)"
    using t b lt by (simp add: f_in_range_def tr f_isfinite_def INF_BITS_def)
  then have "ToDeciDegrees ub v = word_of_int (if fsign v then - int t else int t)"
    unfolding ToDeciDegrees_def scaled clamp_bits Let_def using clamp by (simp add: f_to_i16_def tr)
  moreover have "sint (word_of_int (if fsign v then - int t else int t) :: u16) = (if fsign v then - int t else int t)"
    using t by (simp add: signed_of_int signed_take_bit_int_eq_self)
  ultimately show "sint (ToDeciDegrees ub v) = (if fsign v then - int (S div 2 ^ 149) else int (S div 2 ^ 149))"
    by (simp add: t_def)
qed

text \<open>What is received: the tenths times \<open>0.1f\<close>, rounded once.\<close>

lemma tenths_value:
  assumes "t \<le> 20000"
  shows "fint (f_mul (f_of_int (if s then - int t else int t)) (f_lit 1 10)) =
      (if s then - int (mag_of (round_mag (13421773 * (t * 2 ^ 122)) 1)) else int (mag_of (round_mag (13421773 * (t * 2 ^ 122)) 1)))"
    and "f_isfinite (f_mul (f_of_int (if s then - int t else int t)) (f_lit 1 10))"
proof -
  define b where "b = round_mag (t * 2 ^ 149) 1"
  have r: "mag_of b = t * 2 ^ 149" "b < INF_BITS"
    using fmt_round_repr [of "t * 2 ^ 149" t 149 23 INF_BITS 1] assms mag_of_INF
    by (simp_all add: b_def binary32_format)
  then have lt: "b < 2147483648" by (simp add: INF_BITS_def)
  have x: "f_of_int (if s then - int t else int t) = mk_float (s \<and> t \<noteq> 0) b"
    by (cases s) (auto simp: f_of_int_def b_def)
  define c where "c = round_mag (13421773 * (t * 2 ^ 122)) 1"
  have e: "t * 2 ^ 149 * (13421773 * 2 ^ 122) = 13421773 * (t * 2 ^ 122) * (2 :: nat) ^ 149" by simp
  have "round_mag (t * 2 ^ 149 * (13421773 * 2 ^ 122)) (2 ^ 149) = c"
    unfolding e c_def by (rule round_mag_scale) simp
  then have m: "f_mul (mk_float (s \<and> t \<noteq> 0) b) (f_lit 1 10) = mk_float (s \<and> t \<noteq> 0) c"
    using r lt tenth_bits unfolding tenth_bits(1)
    by (auto simp: f_mul_def f_isfinite_def f_isnan_def f_isinf_def f_iszero_def fmag_def [of "mk_float _ _"])
  have small: "13421773 * (t * 2 ^ 122) \<le> (2 :: nat) ^ 276"
  proof -
    have "t * 2 ^ 122 \<le> 20000 * (2 :: nat) ^ 122" using assms by simp
    then have "13421773 * (t * 2 ^ 122) \<le> 13421773 * (20000 * (2 :: nat) ^ 122)" by (rule mult_le_mono2)
    also have "\<dots> \<le> 2 ^ 276" by simp
    finally show ?thesis .
  qed
  note c = round_mag_near(1) [OF small, folded c_def]
  have z: "mag_of c = 0" if "t = 0" using that by (simp add: c_def binary32_format)
  show "f_isfinite (f_mul (f_of_int (if s then - int t else int t)) (f_lit 1 10))"
    unfolding x m using c by (simp add: f_isfinite_def INF_BITS_def)
  show "fint (f_mul (f_of_int (if s then - int t else int t)) (f_lit 1 10)) =
      (if s then - int (mag_of (round_mag (13421773 * (t * 2 ^ 122)) 1)) else int (mag_of (round_mag (13421773 * (t * 2 ^ 122)) 1)))"
    unfolding x m c_def [symmetric] using c z by (auto simp: fint_mk INF_BITS_def)
qed

section \<open>The limit held at the other end\<close>

text \<open>The value the coprocessor computes from what the host sends for \<open>v\<close>.\<close>

definition limit_received :: "(f32 \<Rightarrow> u16) \<Rightarrow> f32 \<Rightarrow> f32" where
  "limit_received ub v = f_mul (f_of_int (sint (ToDeciDegrees ub v))) (f_lit 1 10)"

text \<open>In magnitude never more than a thousandth above, and never more than 0.101 below.\<close>

lemma tenths_error:
  fixes m S X R D E :: nat
  assumes m: "m \<le> 2000 * D" and D: "D = 134217728 * E"
    and S: "16777216 * S \<le> 16777217 * (10 * m)" "16777216 * (10 * m) \<le> 16777216 * S + 10 * m"
    and X: "134217728 * X \<le> S" "S < 134217728 * X + D"
    and R: "16777216 * R \<le> 16777217 * (13421773 * X)" "16777216 * (13421773 * X) \<le> 16777216 * R + 13421773 * X"
  shows "1000 * R \<le> 1000 * m + D" "1000 * m \<le> 1000 * R + 101 * D"
  using assms by linarith+

lemma limit_received_near:
  assumes "f_isfinite v" "fmag v \<le> 2000 * 2 ^ 149"
  obtains R where "fint (limit_received ub v) = (if fsign v then - int R else int R)" "f_isfinite (limit_received ub v)"
    "1000 * R \<le> 1000 * fmag v + 2 ^ 149" "1000 * fmag v \<le> 1000 * R + 101 * 2 ^ 149"
proof -
  define S where "S = mag_of (round_mag (10 * fmag v) 1)"
  define t where "t = S div 2 ^ 149"
  define R where "R = mag_of (round_mag (13421773 * (t * 2 ^ 122)) 1)"
  note s = ToDeciDegrees_value(1) [OF assms, folded S_def, of ub] ToDeciDegrees_value(2) [OF assms, folded S_def]
  have t: "t \<le> 20000" using div_le_mono [OF s(2), of "2 ^ 149"] by (simp add: t_def)
  have small: "10 * fmag v \<le> 2 ^ 276" "13421773 * (t * 2 ^ 122) \<le> (2 :: nat) ^ 276"
  proof -
    have "10 * fmag v \<le> 20000 * 2 ^ 149" using assms(2) by simp
    also have "\<dots> \<le> 2 ^ 276" by simp
    finally show "10 * fmag v \<le> 2 ^ 276" .
    have "t * 2 ^ 122 \<le> 20000 * (2 :: nat) ^ 122" using t by simp
    then have "13421773 * (t * 2 ^ 122) \<le> 13421773 * (20000 * (2 :: nat) ^ 122)" by (rule mult_le_mono2)
    also have "\<dots> \<le> 2 ^ 276" by simp
    finally show "13421773 * (t * 2 ^ 122) \<le> (2 :: nat) ^ 276" .
  qed
  have D: "(2 :: nat) ^ 149 = 134217728 * 2 ^ 122" by simp
  have X: "134217728 * (t * 2 ^ 122) \<le> S" "S < 134217728 * (t * 2 ^ 122) + 2 ^ 149"
  proof -
    have "S div d * d \<le> S \<and> S < S div d * d + d" if "0 < d" for d
      using div_mult_mod_eq [of S d] mod_less_divisor [OF that, of S] by linarith
    from this [of "2 ^ 149"] have "t * 2 ^ 149 \<le> S" "S < t * 2 ^ 149 + 2 ^ 149" by (simp_all add: t_def)
    then show "134217728 * (t * 2 ^ 122) \<le> S" "S < 134217728 * (t * 2 ^ 122) + 2 ^ 149" by simp_all
  qed
  note err = tenths_error [OF assms(2) D round_mag_near(2,3) [OF small(1), folded S_def] X
      round_mag_near(2,3) [OF small(2), folded R_def]]
  have "limit_received ub v = f_mul (f_of_int (if fsign v then - int t else int t)) (f_lit 1 10)"
    using s(1) by (simp add: limit_received_def t_def)
  then show thesis using that [of R] tenths_value [OF t, of "fsign v", folded R_def] err by simp
qed

text \<open>\<open>at_most_above k a b\<close>: \<open>a\<close> is at most \<open>k\<close> thousandths of a degree above \<open>b\<close>.\<close>

definition at_most_above :: "nat \<Rightarrow> f32 \<Rightarrow> f32 \<Rightarrow> bool" where
  "at_most_above k a b \<longleftrightarrow> f_isfinite a \<and> f_isfinite b \<and> 1000 * fint a \<le> 1000 * fint b + int k * 2 ^ 149"

lemma f_le_fint: "f_le x y \<Longrightarrow> f_isfinite x \<Longrightarrow> f_isfinite y \<Longrightarrow> fint x \<le> fint y"
  using fmag_lt_iff [of x y] fmag_lt_iff [of y x]
  by (auto simp: f_le_def fkey_def fint_def split: if_splits) (auto simp: fmag_def mag_of_def)

text \<open>An upper limit grows by a thousandth at most, a negative one by 0.101; for a lower limit it is the other way round.\<close>

lemma limit_received_upper:
  assumes "f_isfinite v" "fmag v \<le> 2000 * 2 ^ 149" "f_le v l" "f_isfinite l"
  shows "at_most_above (if 0 \<le> fint l then 1 else 101) (limit_received ub v) l"
proof -
  obtain R where R: "fint (limit_received ub v) = (if fsign v then - int R else int R)" "f_isfinite (limit_received ub v)"
    "1000 * R \<le> 1000 * fmag v + 2 ^ 149" "1000 * fmag v \<le> 1000 * R + 101 * 2 ^ 149"
    using limit_received_near [OF assms(1,2)] by blast
  note le = f_le_fint [OF assms(3,1,4)]
  have i: "1000 * int R \<le> 1000 * int (fmag v) + 2 ^ 149" "1000 * int (fmag v) \<le> 1000 * int R + 101 * 2 ^ 149"
    using R(3,4) by (simp_all flip: of_nat_le_iff)
  show ?thesis
    using le i R(1) unfolding at_most_above_def fint_def [of v]
    by (cases "fsign v") (auto simp: R(2) assms(4))
qed

lemma limit_received_lower:
  assumes "f_isfinite v" "fmag v \<le> 2000 * 2 ^ 149" "f_le l v" "f_isfinite l"
  shows "at_most_above (if 0 \<le> fint l then 101 else 1) l (limit_received ub v)"
proof -
  obtain R where R: "fint (limit_received ub v) = (if fsign v then - int R else int R)" "f_isfinite (limit_received ub v)"
    "1000 * R \<le> 1000 * fmag v + 2 ^ 149" "1000 * fmag v \<le> 1000 * R + 101 * 2 ^ 149"
    using limit_received_near [OF assms(1,2)] by blast
  note le = f_le_fint [OF assms(3,4,1)]
  have i: "1000 * int R \<le> 1000 * int (fmag v) + 2 ^ 149" "1000 * int (fmag v) \<le> 1000 * int R + 101 * 2 ^ 149"
    using R(3,4) by (simp_all flip: of_nat_le_iff)
  show ?thesis
    using le i R(1) unfolding at_most_above_def fint_def [of v]
    by (cases "fsign v") (auto simp: R(2) assms(4))
qed

end
