(* ===== verification/LpcHeaterProps.thy ===== *)
theory LpcHeaterProps
  imports LpcHeater LpcLimits
begin

text \<open>
  What the host's heater object guarantees. \<open>quiet_write\<close> relates two states of the link when all that
  was written in between is a sequence of frames none of which is the command to switch the heater
  on; \<open>heater_op\<close> are the operations other modules call, with the activity of the link itself as one
  of them.
\<close>

section \<open>Writes that cannot switch the heater on\<close>

definition not_on :: "MessageType \<times> u8 list \<Rightarrow> bool" where
  "not_on m \<longleftrightarrow> \<not> (fst m = HeaterCommandMsg \<and> snd m \<noteq> [] \<and> snd m ! 0 = command_byte CmdOn)"

definition quiet_write :: "Host \<Rightarrow> Host \<Rightarrow> bool" where
  "quiet_write h h' \<longleftrightarrow>
     (\<exists>ms. hl_out h' = hl_out h @ concat (map enc_msg ms) \<and> list_all not_on ms)"

lemma quiet_refl [simp]: "quiet_write h h"
  unfolding quiet_write_def by (rule exI [of _ "[]"]) simp

lemma quiet_trans: "quiet_write a b \<Longrightarrow> quiet_write b c \<Longrightarrow> quiet_write a c"
proof -
  assume "quiet_write a b" "quiet_write b c"
  then obtain ms ns where "hl_out b = hl_out a @ concat (map enc_msg ms)" "list_all not_on ms"
    "hl_out c = hl_out b @ concat (map enc_msg ns)" "list_all not_on ns"
    by (auto simp: quiet_write_def)
  then show ?thesis unfolding quiet_write_def by (intro exI [of _ "ms @ ns"]) simp
qed

text \<open>Only the bytes written count.\<close>

lemma quiet_update [simp]:
  "quiet_write h (x\<lparr>hl_decoder := v0\<rparr>) = quiet_write h x"
  "quiet_write h (x\<lparr>hl_pinModes := v1\<rparr>) = quiet_write h x"
  "quiet_write h (x\<lparr>hl_pinValues := v2\<rparr>) = quiet_write h x"
  "quiet_write h (x\<lparr>hl_pinStateReceived := v3\<rparr>) = quiet_write h x"
  "quiet_write h (x\<lparr>hl_online := v4\<rparr>) = quiet_write h x"
  "quiet_write h (x\<lparr>hl_lastPingSent := v5\<rparr>) = quiet_write h x"
  "quiet_write h (x\<lparr>hl_lastPongReceived := v6\<rparr>) = quiet_write h x"
  "quiet_write h (x\<lparr>hl_connectionGeneration := v7\<rparr>) = quiet_write h x"
  "quiet_write h (x\<lparr>hl_heaterPayload := v8\<rparr>) = quiet_write h x"
  "quiet_write h (x\<lparr>hl_feedForwardPayload := v9\<rparr>) = quiet_write h x"
  "quiet_write h (x\<lparr>hl_modelAPayload := v10\<rparr>) = quiet_write h x"
  "quiet_write h (x\<lparr>hl_modelBPayload := v11\<rparr>) = quiet_write h x"
  "quiet_write h (x\<lparr>hl_modelCPayload := v12\<rparr>) = quiet_write h x"
  "quiet_write h (x\<lparr>hl_modelConfigured := v13\<rparr>) = quiet_write h x"
  "quiet_write h (x\<lparr>hl_heaterConfigured := v14\<rparr>) = quiet_write h x"
  "quiet_write h (x\<lparr>hl_feedForwardConfigured := v15\<rparr>) = quiet_write h x"
  "quiet_write h (x\<lparr>hl_thermalStatusReceived := v16\<rparr>) = quiet_write h x"
  "quiet_write h (x\<lparr>hl_thermalStatus := v17\<rparr>) = quiet_write h x"
  "quiet_write h (x\<lparr>hl_thermalStatusReceivedAt := v18\<rparr>) = quiet_write h x"
  "quiet_write h (x\<lparr>hl_millis := v19\<rparr>) = quiet_write h x"
  "quiet_write (y\<lparr>hl_millis := w\<rparr>) x = quiet_write y x"
  by (simp_all add: quiet_write_def)

lemma not_on_other [simp]: "t \<noteq> HeaterCommandMsg \<Longrightarrow> not_on (t, p)"
  by (simp add: not_on_def)

lemma quiet_send: "not_on (t, p) \<Longrightarrow> quiet_write h x \<Longrightarrow> quiet_write h (Host_Send t p x)"
proof (rule quiet_trans)
  assume n: "not_on (t, p)"
  show "quiet_write x (Host_Send t p x)"
  proof (cases "hl_firmwareUpdateActive x")
    case True
    then show ?thesis by (simp add: Host_Send_def)
  next
    case False
    then have "hl_out (Host_Send t p x) = hl_out x @ concat (map enc_msg [(t, p)])"
      by (simp add: Host_Send_out)
    then show ?thesis unfolding quiet_write_def using n by (intro exI [of _ "[(t, p)]"]) simp
  qed
qed

lemma quiet_other [simp]:
  "t \<noteq> HeaterCommandMsg \<Longrightarrow> quiet_write h x \<Longrightarrow> quiet_write h (Host_Send t p x)"
  by (simp add: quiet_send)

text \<open>The operations of the link.\<close>

lemma quiet_offline [simp]: "quiet_write h x \<Longrightarrow> quiet_write h (SetOffline x)"
  by (simp add: SetOffline_def)

lemma quiet_replay_pin: "quiet_write h x \<Longrightarrow> quiet_write h (replay_pin i x)"
  by (simp add: replay_pin_def SendGpioConfig_def SendPwm_def Let_def gpio_config_msg_def pwm_msg_def)

lemma quiet_replay_pins [simp]: "quiet_write h x \<Longrightarrow> quiet_write h (fold replay_pin is x)"
  by (induction "is" arbitrary: x) (simp_all add: quiet_replay_pin)

lemma quiet_replay [simp]: "quiet_write h x \<Longrightarrow> quiet_write h (ReplayConfiguration x)"
  by (simp add: ReplayConfiguration_def Let_def)

lemma quiet_Pong: "quiet_write h x \<Longrightarrow> quiet_write h (HandlePong fr x)"
  by (simp add: HandlePong_def Let_def)

lemma quiet_dispatch: "quiet_write h x \<Longrightarrow> quiet_write h (Host_dispatch fr x)"
  by (cases "ftype fr") (simp_all add: Host_dispatch_def quiet_Pong HandleGpioState_def
      HandleThermalStatus_def Let_def split: option.splits)

lemma quiet_byte: "quiet_write h x \<Longrightarrow> quiet_write h (Host_byte b x)"
  by (simp add: Host_byte_def quiet_dispatch split: prod.splits option.splits)

lemma quiet_bytes [simp]: "quiet_write h x \<Longrightarrow> quiet_write h (fold Host_byte bs x)"
  by (induction bs arbitrary: x) (simp_all add: quiet_byte)

lemma quiet_ping [simp]: "quiet_write h x \<Longrightarrow> quiet_write h (SendPing x)"
  by (simp add: SendPing_def)

lemma quiet_spin [simp]: "quiet_write h x \<Longrightarrow> quiet_write h (Host_Spin rx x)"
  by (simp add: Host_Spin_def Let_def)

lemma quiet_command [simp]:
  "command_byte c \<noteq> 1 \<Longrightarrow> quiet_write h x \<Longrightarrow> quiet_write h (CommandHeater ub c t x)"
  by (simp add: CommandHeater_def Let_def not_on_def quiet_send)

lemma quiet_config [simp]:
  "quiet_write h x \<Longrightarrow> quiet_write h (Host_ConfigureHeater ub a b c d e f x)"
  "quiet_write h x \<Longrightarrow> quiet_write h (ConfigureHeaterFeedForward p q r x)"
  "quiet_write h x \<Longrightarrow> quiet_write h (ConfigureHeaterModel m x)"
  by (simp_all add: Host_ConfigureHeater_def ConfigureHeaterFeedForward_def ConfigureHeaterModel_def Let_def)

section \<open>Operations\<close>

datatype HeaterOp = HoSpin | HoSwitchOff | HoResetFault | HoSuspend bool | HoFan f32 | HoPwmFrequency u16
  | HoPort string u16 u32 | HoActive bool | HoTemperature f32 bool | HoM307 nat M307
  | HoM570 "f32 gparam" "f32 gparam" "u32 gparam" | HoM143 M143 | HoM301 M301PidParameters
  | HoFeedForward f32 f32 | HoTool | HoBed | HoClear | HoLink "u8 list" u32

text \<open>\<open>HoLink\<close> is the main loop servicing the link with these bytes waiting, at this time.\<close>

fun heater_op :: "HeatEnv \<Rightarrow> HeaterOp \<Rightarrow> LpcHeater \<Rightarrow> LpcHeater" where
  "heater_op env HoSpin h = LpcHeater_Spin env h"
| "heater_op env HoSwitchOff h = LpcHeater_SwitchOff env h"
| "heater_op env HoResetFault h = snd (snd (LpcHeater_ResetFault env h))"
| "heater_op env (HoSuspend s) h = LpcHeater_Suspend env s h"
| "heater_op env (HoFan p) h = SetFanFeedForwardPwm p h"
| "heater_op env (HoPwmFrequency f) h = snd (snd (SetPwmFrequency env f h))"
| "heater_op env (HoPort p f sn) h = snd (snd (ConfigurePortAndSensor env p f sn h))"
| "heater_op env (HoActive a) h = snd (snd (SetActiveOrStandby env a h))"
| "heater_op env (HoTemperature t a) h = snd (SetTemperature env t a h)"
| "heater_op env (HoM307 n g) h = snd (snd (SetOrReportModel env n g h))"
| "heater_op env (HoM570 p t r) h = snd (snd (ConfigureFaultDetectionParameters env p t r h))"
| "heater_op env (HoM143 g) h = snd (snd (ConfigureMonitor env g h))"
| "heater_op env (HoM301 p) h = Heater_SetM301PidParameters p h"
| "heater_op env (HoFeedForward p t) h = SetExtrusionFeedForward p t h"
| "heater_op env HoTool h = SetAsToolHeater env h"
| "heater_op env HoBed h = SetAsBedOrChamberHeater env h"
| "heater_op env HoClear h = ClearModelAndMonitors env h"
| "heater_op env (HoLink rx now) h = h\<lparr>he_host := Host_Spin rx ((he_host h)\<lparr>hl_millis := now\<rparr>)\<rparr>"

text \<open>The mode is kept and nothing written switches the heater on.\<close>

definition held :: "LpcHeater \<Rightarrow> LpcHeater \<Rightarrow> bool" where
  "held h h' \<longleftrightarrow> lh_mode h' = lh_mode h \<and> quiet_write (he_host h) (he_host h')"

lemma held_refl [simp]: "held h h"
  by (simp add: held_def)

lemma held_trans: "held a b \<Longrightarrow> held b c \<Longrightarrow> held a c"
  by (auto simp: held_def intro: quiet_trans)

lemma held_update [simp]:
  "held h (x\<lparr>lh_frequency := v0\<rparr>) = held h x"
  "held h (x\<lparr>lh_connectionGeneration := v1\<rparr>) = held h x"
  "held h (x\<lparr>he_sensorNumber := v2\<rparr>) = held h x"
  "held h (x\<lparr>he_activeTemperature := v3\<rparr>) = held h x"
  "held h (x\<lparr>he_standbyTemperature := v4\<rparr>) = held h x"
  "held h (x\<lparr>he_maxTempExcursion := v5\<rparr>) = held h x"
  "held h (x\<lparr>he_maxHeatingFaultTime := v6\<rparr>) = held h x"
  "held h (x\<lparr>he_maxBadTemperatureCount := v7\<rparr>) = held h x"
  "held h (x\<lparr>he_isBedOrChamber := v8\<rparr>) = held h x"
  "held h (x\<lparr>he_active := v9\<rparr>) = held h x"
  "held h (x\<lparr>he_usingFeedForward := v10\<rparr>) = held h x"
  "held h (x\<lparr>he_modelSetByUser := v11\<rparr>) = held h x"
  "held h (x\<lparr>he_monitorsSetByUser := v12\<rparr>) = held h x"
  "held h (x\<lparr>he_tuned := v13\<rparr>) = held h x"
  "held h (x\<lparr>he_lastFanPwm := v14\<rparr>) = held h x"
  "held h (x\<lparr>he_extrusionPwmBoost := v15\<rparr>) = held h x"
  "held h (x\<lparr>he_extrusionTemperatureBoost := v16\<rparr>) = held h x"
  "held h (x\<lparr>he_previousExtrusionPwmBoost := v17\<rparr>) = held h x"
  "held h (x\<lparr>he_model := v18\<rparr>) = held h x"
  "held h (x\<lparr>he_monitors := v19\<rparr>) = held h x"
  "held h (x\<lparr>he_calls := v20\<rparr>) = held h x"
  by (simp_all add: held_def)

lemmas send_defs = SendConfiguration_def SendFeedForward_def SendModel_def SendHeaterCommand_def host_do_def

lemma held_send [simp]:
  "held h x \<Longrightarrow> held h (SendConfiguration env x)"
  "held h x \<Longrightarrow> held h (SendFeedForward x)"
  "held h x \<Longrightarrow> held h (SendModel x)"
  "command_byte c \<noteq> 1 \<Longrightarrow> held h x \<Longrightarrow> held h (SendHeaterCommand env c t x)"
  by (simp_all add: held_def send_defs)

lemma send_mode [simp]:
  "lh_mode (SendConfiguration env x) = lh_mode x" "lh_mode (SendFeedForward x) = lh_mode x"
  "lh_mode (SendModel x) = lh_mode x" "lh_mode (SendHeaterCommand env c t x) = lh_mode x"
  by (simp_all add: send_defs)

lemma held_parts [simp]:
  "held h x \<Longrightarrow> held h (note_call c x)"
  "held h x \<Longrightarrow> held h (ResetHeater x)"
  "held h x \<Longrightarrow> held h (Heater_SwitchOff x)"
  "held h x \<Longrightarrow> held h (set_default_monitor lim x)"
  "held h x \<Longrightarrow> held h (SetSensorNumber sn x)"
  by (simp_all add: note_call_def ResetHeater_def Heater_SwitchOff_def set_default_monitor_def
      SetSensorNumber_def)

lemma held_link [simp]:
  "held h x \<Longrightarrow> held h (x\<lparr>he_host := Host_Spin rx ((he_host x)\<lparr>hl_millis := now\<rparr>)\<rparr>)"
  by (simp add: held_def)

lemma held_SetModel [simp]: "held h x \<Longrightarrow> held h (snd (snd (SetModel env a b c d e f g u i x)))"
  by (simp add: SetModel_def Let_def UpdateModel_def split: prod.splits)

lemma held_SetModelD: "SetModel env a b c d e f g u i x = (r, rep, y) \<Longrightarrow> held x y"
  using held_SetModel [of x x env a b c d e f g u i] by simp

lemma held_mode: "held h x \<Longrightarrow> lh_mode x = lh_mode h"
  by (simp add: held_def)

text \<open>With the heater in fault, every operation but the reset keeps it there.\<close>

lemma HmFault_least [simp]: "HmFault \<le> m" "HmSuspended \<le> HmFault \<longleftrightarrow> False" "m < HmFault \<longleftrightarrow> False"
  by (simp_all add: hmode_order)

lemma held_spin: "lh_mode h = HmFault \<Longrightarrow> held h (LpcHeater_Spin env h)"
proof -
  assume f: "lh_mode h = HmFault"
  have "held h (spin_generation env h)" by (simp add: spin_generation_def Let_def f)
  moreover have "spin_status env x = x" if "lh_mode x = HmFault" for x
    using that by (simp add: spin_status_def split: option.split)
  ultimately show ?thesis using f by (simp add: LpcHeater_Spin_def held_def)
qed

lemma held_op:
  assumes "lh_mode h = HmFault" "op \<noteq> HoResetFault"
  shows "held h (heater_op env op h)"
proof (cases op)
  case (HoTemperature t a)
  then show ?thesis using assms by (simp add: SetTemperature_def Let_def)
next
  case (HoM307 n g)
  then show ?thesis
    by (auto simp: SetOrReportModel_def Let_def dest: held_SetModelD split: sum.split prod.split)
next
  case (HoM570 p t r)
  then show ?thesis
    by (simp add: ConfigureFaultDetectionParameters_def UpdateFaultDetectionParameters_def Let_def split: sum.split)
next
  case (HoM143 g)
  then show ?thesis
    by (simp add: ConfigureMonitor_def UpdateHeaterMonitors_def Let_def split: sum.split prod.splits)
qed (use assms held_spin in \<open>simp_all add: LpcHeater_SwitchOff_def LpcHeater_Suspend_def
      SetFanFeedForwardPwm_def SetPwmFrequency_def ConfigurePortAndSensor_def SetActiveOrStandby_def
      Heater_SetM301PidParameters_def UpdateModel_def SetExtrusionFeedForward_def SetAsToolHeater_def
      SetAsBedOrChamberHeater_def ClearModelAndMonitors_def Let_def held_mode\<close>)

text \<open>
  C8. Once the host holds the heater in fault, no sequence of operations other than resetting the
  fault, whatever arrives on the link meanwhile, leaves the fault, and nothing that is written to the
  coprocessor in that time is a command to switch the heater on.
\<close>

theorem host_fault_held:
  assumes "lh_mode h = HmFault" and "HoResetFault \<notin> set ops"
  shows "lh_mode (fold (heater_op env) ops h) = HmFault
    \<and> quiet_write (he_host h) (he_host (fold (heater_op env) ops h))"
proof -
  have "held h (fold (heater_op env) ops h)"
    using assms
  proof (induction ops arbitrary: h)
    case (Cons op ops)
    then have "held h (heater_op env op h)" by (intro held_op) auto
    moreover from this Cons have "held (heater_op env op h) (fold (heater_op env) ops (heater_op env op h))"
      by (simp add: held_mode)
    ultimately show ?case by (auto intro: held_trans)
  qed simp
  then show ?thesis using assms(1) by (simp add: held_def)
qed

section \<open>Switching on\<close>

definition can_switch_on :: "LpcHeater \<Rightarrow> bool" where
  "can_switch_on h \<longleftrightarrow> fo_enabled (he_model h) \<and> hl_online (he_host h)
    \<and> IsThermistorSensor (word_of_int (he_sensorNumber h)) (he_host h)
    \<and> (\<forall>mo\<in>set (he_monitors h). mo_trigger mo = TrigDisabled
         \<or> (Monitor_GetSensorNumber mo = he_sensorNumber h \<and> mo_action mo = GenerateFault))
    \<and> (case GetThermalStatus (he_host h) of None \<Rightarrow> False | Some st \<Rightarrow> hs_state st \<noteq> HFault)
    \<and> \<not> f_ge (GetHighestTemperatureLimit h) BadErrorTemperature"

lemma ValidateMonitors_ok:
  "fst (ValidateMonitors h) = (if \<forall>mo\<in>set (he_monitors h). mo_trigger mo = TrigDisabled
      \<or> (Monitor_GetSensorNumber mo = he_sensorNumber h \<and> mo_action mo = GenerateFault)
     then ResOk else ResError)"
  by (auto simp: ValidateMonitors_def filter_empty_conv split: list.split)

lemma ValidateMonitors_text: "fst (ValidateMonitors h) \<noteq> ResOk \<Longrightarrow> snd (ValidateMonitors h) \<noteq> []"
  by (auto simp: ValidateMonitors_def split: list.splits)

definition config_payload :: "HeatEnv \<Rightarrow> LpcHeater \<Rightarrow> u8 list" where
  "config_payload env h = PutU16 (lh_frequency h)
     @ PutU16 (ToDeciDegrees (ev_ub env) (config_upper (he_monitors h)))
     @ PutU16 (ToDeciDegrees (ev_ub env) (config_lower (he_monitors h)))
     @ PutU16 (ToUnsignedHundredths (ev_ub env) (he_maxTempExcursion h))
     @ PutU16 (ToUnsignedTenths (ev_ub env) (he_maxHeatingFaultTime h))
     @ [ucast (min (he_maxBadTemperatureCount h) 255)]"

definition on_messages :: "HeatEnv \<Rightarrow> LpcHeater \<Rightarrow> (MessageType \<times> u8 list) list" where
  "on_messages env h = model_messages (model_args (he_model h))
     @ [(HeaterConfig, config_payload env h),
        (HeaterFeedForward, PutFloat (he_lastFanPwm h) @ PutFloat (he_extrusionPwmBoost h)
          @ PutFloat (he_extrusionTemperatureBoost h))]"

definition on_command :: "HeatEnv \<Rightarrow> LpcHeater \<Rightarrow> MessageType \<times> u8 list" where
  "on_command env h = (let t = ToCentiDegrees (ev_ub env) (GetTargetTemperature h)
     in (HeaterCommandMsg, [1, lo8 t, hi8 t]))"

lemma send_out:
  assumes "hl_online (he_host h)" "\<not> hl_firmwareUpdateActive (he_host h)"
  shows "hl_out (he_host (SendModel h)) = hl_out (he_host h)
      @ concat (map enc_msg (model_messages (model_args (he_model h))))"
    and "hl_out (he_host (SendConfiguration env h)) = hl_out (he_host h) @ enc_msg (HeaterConfig, config_payload env h)"
    and "hl_out (he_host (SendFeedForward h)) = hl_out (he_host h) @ enc_msg (HeaterFeedForward,
      PutFloat (he_lastFanPwm h) @ PutFloat (he_extrusionPwmBoost h) @ PutFloat (he_extrusionTemperatureBoost h))"
    and "hl_out (he_host (SendHeaterCommand env c t h)) = hl_out (he_host h) @ enc_msg (HeaterCommandMsg,
      [command_byte c, lo8 (ToCentiDegrees (ev_ub env) t), hi8 (ToCentiDegrees (ev_ub env) t)])"
  using assms ConfigureHeaterModel_out [OF assms]
  by (simp_all add: send_defs Host_ConfigureHeater_def ConfigureHeaterFeedForward_def CommandHeater_def
      Let_def Host_Send_out config_payload_def)

lemma Host_Send_sel [simp]:
  "hl_online (Host_Send t p x) = hl_online x"
  "hl_firmwareUpdateActive (Host_Send t p x) = hl_firmwareUpdateActive x"
  by (simp_all add: Host_Send_def)

lemma send_keeps [simp]:
  "hl_online (he_host (SendModel x)) = hl_online (he_host x)"
  "hl_online (he_host (SendConfiguration env x)) = hl_online (he_host x)"
  "hl_online (he_host (SendFeedForward x)) = hl_online (he_host x)"
  "hl_firmwareUpdateActive (he_host (SendModel x)) = hl_firmwareUpdateActive (he_host x)"
  "hl_firmwareUpdateActive (he_host (SendConfiguration env x)) = hl_firmwareUpdateActive (he_host x)"
  "hl_firmwareUpdateActive (he_host (SendFeedForward x)) = hl_firmwareUpdateActive (he_host x)"
  "he_model (SendModel x) = he_model x" "lh_frequency (SendModel x) = lh_frequency x"
  "he_monitors (SendModel x) = he_monitors x" "he_maxTempExcursion (SendModel x) = he_maxTempExcursion x"
  "he_maxHeatingFaultTime (SendModel x) = he_maxHeatingFaultTime x"
  "he_maxBadTemperatureCount (SendModel x) = he_maxBadTemperatureCount x"
  "he_lastFanPwm (SendModel x) = he_lastFanPwm x" "he_extrusionPwmBoost (SendModel x) = he_extrusionPwmBoost x"
  "he_extrusionTemperatureBoost (SendModel x) = he_extrusionTemperatureBoost x"
  "he_lastFanPwm (SendConfiguration env x) = he_lastFanPwm x"
  "he_extrusionPwmBoost (SendConfiguration env x) = he_extrusionPwmBoost x"
  "he_extrusionTemperatureBoost (SendConfiguration env x) = he_extrusionTemperatureBoost x"
  by (simp_all add: send_defs ConfigureHeaterModel_def Host_ConfigureHeater_def
      ConfigureHeaterFeedForward_def Let_def)

lemma switch_on_result:
  "can_switch_on h \<Longrightarrow> LpcHeater_SwitchOn env h = (ResOk, [], (SendHeaterCommand env CmdOn (GetTargetTemperature h)
                (SendFeedForward (SendConfiguration env (SendModel h))))\<lparr>lh_mode := HmHeating\<rparr>)"
  using ValidateMonitors_ok [of h]
  by (auto simp: LpcHeater_SwitchOn_def can_switch_on_def Succeeded_def split: option.splits)

lemma switch_on_out:
  assumes "can_switch_on h"
  shows "hl_out (he_host (snd (snd (LpcHeater_SwitchOn env h)))) =
     (if hl_firmwareUpdateActive (he_host h) then hl_out (he_host h)
      else hl_out (he_host h) @ concat (map enc_msg (on_messages env h @ [on_command env h])))"
proof (cases "hl_firmwareUpdateActive (he_host h)")
  case True
  then show ?thesis unfolding switch_on_result [OF assms]
    by (simp add: send_defs ConfigureHeaterModel_def Host_ConfigureHeater_def
        ConfigureHeaterFeedForward_def CommandHeater_def Host_Send_def Let_def)
next
  case False
  then show ?thesis using assms unfolding switch_on_result [OF assms]
    by (simp add: can_switch_on_def send_out on_messages_def on_command_def Let_def config_payload_def)
qed

text \<open>
  C16. \<open>SwitchOn\<close> succeeds exactly when the model is set, the link is up, the sensor is the
  coprocessor's, every monitor can be enforced there, the coprocessor reports no fault and some monitor
  limits the temperature. If it fails, it says why and has changed and sent nothing; if it
  succeeds, the heater is marked as heating and the model, the configuration, the feed-forward and the
  command to switch on have been written, in this order.
\<close>

theorem switch_on_exact:
  "(fst (LpcHeater_SwitchOn env h) = ResOk \<longleftrightarrow> can_switch_on h)
   \<and> (if can_switch_on h
      then fst (snd (LpcHeater_SwitchOn env h)) = []
        \<and> lh_mode (snd (snd (LpcHeater_SwitchOn env h))) = HmHeating
        \<and> hl_out (he_host (snd (snd (LpcHeater_SwitchOn env h)))) =
            (if hl_firmwareUpdateActive (he_host h) then hl_out (he_host h)
             else hl_out (he_host h) @ concat (map enc_msg (on_messages env h @ [on_command env h])))
      else fst (LpcHeater_SwitchOn env h) = ResError \<and> fst (snd (LpcHeater_SwitchOn env h)) \<noteq> []
        \<and> snd (snd (LpcHeater_SwitchOn env h)) = h)"
proof (cases "can_switch_on h")
  case False
  then have "fst (LpcHeater_SwitchOn env h) = ResError \<and> fst (snd (LpcHeater_SwitchOn env h)) \<noteq> []
      \<and> snd (snd (LpcHeater_SwitchOn env h)) = h"
    using ValidateMonitors_ok [of h] ValidateMonitors_text [of h]
    by (auto simp: LpcHeater_SwitchOn_def can_switch_on_def Succeeded_def split: option.splits if_splits)
  then show ?thesis using False by simp
next
  case True
  show ?thesis using True switch_on_out [OF True, of env]
    by (simp add: switch_on_result [OF True])
qed

text \<open>The coprocessor's limits after those messages.\<close>

lemma config_payload_length [simp]: "length (config_payload env h) = 11"
  by (simp add: config_payload_def PutU16_def)

lemma on_messages_cfg:
  "cfg_msgs (on_messages env h) c"
  "c_heater (fold cfg_step (on_messages env h) c) =
     (if heater_valid (heater_of (config_payload env h)) then heater_of (config_payload env h)
      else c_heater (fold cfg_step (model_messages (model_args (he_model h))) c))"
  "c_heaterOk (fold cfg_step (on_messages env h) c) = heater_valid (heater_of (config_payload env h))"
  using model_messages_cfg [of "model_args (he_model h)" c]
  by (simp_all add: on_messages_def cfg_msgs_append cfg_msg_def cfg_step_def Let_def)

text \<open>The limits sent are the tightest of the monitors.\<close>

lemma f_min_le: "\<not> f_isnan a \<Longrightarrow> \<not> f_isnan b \<Longrightarrow> f_le (f_min a b) a \<and> f_le (f_min a b) b \<and> \<not> f_isnan (f_min a b)"
  by (auto simp: f_min_def f_le_refl f_lt_le f_not_lt)

lemma f_max_ge: "\<not> f_isnan a \<Longrightarrow> \<not> f_isnan b \<Longrightarrow> f_ge (f_max a b) a \<and> f_ge (f_max a b) b \<and> \<not> f_isnan (f_max a b)"
  by (auto simp: f_max_def f_le_refl f_lt_le f_not_lt)

lemma f_le_trans: "f_le x y \<Longrightarrow> f_le y z \<Longrightarrow> f_le x z"
  by (auto simp: f_le_def)

lemma upper_fold:
  assumes "\<not> f_isnan u" "\<forall>mo\<in>set ms. \<not> f_isnan (mo_limit mo)"
  shows "let v = foldl (\<lambda>u mo. if mo_trigger mo = TemperatureExceeded then f_min u (mo_limit mo) else u) u ms
    in \<not> f_isnan v \<and> f_le v u
      \<and> (\<forall>mo\<in>set ms. mo_trigger mo = TemperatureExceeded \<longrightarrow> f_le v (mo_limit mo))"
  using assms
proof (induction ms arbitrary: u)
  case (Cons mo ms)
  let ?u = "if mo_trigger mo = TemperatureExceeded then f_min u (mo_limit mo) else u"
  have u: "\<not> f_isnan ?u" "f_le ?u u" "mo_trigger mo = TemperatureExceeded \<longrightarrow> f_le ?u (mo_limit mo)"
    using Cons.prems f_min_le [of u "mo_limit mo"] by (auto simp: f_le_refl)
  show ?case using Cons.IH [of ?u] u Cons.prems(2) by (auto simp: Let_def intro: f_le_trans)
qed (simp add: Let_def f_le_refl)

lemma lower_fold:
  assumes "\<not> f_isnan u" "\<forall>mo\<in>set ms. \<not> f_isnan (mo_limit mo)"
  shows "let v = foldl (\<lambda>l mo. if mo_trigger mo = TemperatureTooLow then f_max l (mo_limit mo) else l) u ms
    in \<not> f_isnan v \<and> f_ge v u
      \<and> (\<forall>mo\<in>set ms. mo_trigger mo = TemperatureTooLow \<longrightarrow> f_ge v (mo_limit mo))"
  using assms
proof (induction ms arbitrary: u)
  case (Cons mo ms)
  let ?u = "if mo_trigger mo = TemperatureTooLow then f_max u (mo_limit mo) else u"
  have u: "\<not> f_isnan ?u" "f_ge ?u u" "mo_trigger mo = TemperatureTooLow \<longrightarrow> f_ge ?u (mo_limit mo)"
    using Cons.prems f_max_ge [of u "mo_limit mo"] by (auto simp: f_le_refl)
  show ?case using Cons.IH [of ?u] u Cons.prems(2) by (auto simp: Let_def intro: f_le_trans)
qed (simp add: Let_def f_le_refl)

lemma limit_not_nan: "\<not> f_isnan BadErrorTemperature" "\<not> f_isnan ABS_ZERO"
  by (simp_all add: BadErrorTemperature_def ABS_ZERO_def f_neg_def f_lit_def f_isnan_def not_less)

lemma config_limits:
  assumes "\<forall>mo\<in>set ms. \<not> f_isnan (mo_limit mo)" "mo \<in> set ms"
  shows "mo_trigger mo = TemperatureExceeded \<Longrightarrow> f_le (config_upper ms) (mo_limit mo)"
    and "mo_trigger mo = TemperatureTooLow \<Longrightarrow> f_ge (config_lower ms) (mo_limit mo)"
  using upper_fold [OF limit_not_nan(1) assms(1)] lower_fold [OF limit_not_nan(2) assms(1)] assms(2)
  by (auto simp: config_upper_def config_lower_def Let_def)

text \<open>A limit that M143 accepts, and a monitor that supervises one if it is enabled.\<close>

definition limit_ok :: "f32 \<Rightarrow> bool" where
  "limit_ok l \<longleftrightarrow> \<not> f_le l BadLowTemperature \<and> \<not> f_ge l BadErrorTemperature"

definition monitor_ok :: "HeaterMonitor \<Rightarrow> bool" where
  "monitor_ok mo \<longleftrightarrow> mo_trigger mo = TrigDisabled \<or> limit_ok (mo_limit mo)"

text \<open>Such limits, and those in force without a monitor, are no more than 2000 degrees from zero.\<close>

definition within_2000 :: "f32 \<Rightarrow> bool" where
  "within_2000 v \<longleftrightarrow> fbits v \<le> 0x44FA0000"

lemma limit_consts:
  "BadErrorTemperature = 0x44FA0000" "BadLowTemperature = 0xC1200000" "within_2000 ABS_ZERO"
  by (simp_all add: within_2000_def BadErrorTemperature_def BadLowTemperature_def ABS_ZERO_def f_lit_def f_neg_def
      round_mag_def round_shift_def bitlen.simps rne_cases mk_float_def Let_def INF_BITS_def fbits_def fsign_def)

lemma limit_within: "limit_ok l \<Longrightarrow> \<not> f_isnan l \<Longrightarrow> within_2000 l"
  unfolding limit_ok_def limit_consts within_2000_def
  by (auto simp: f_le_def f_isnan_def fkey_def INF_BITS_def split: if_splits) (auto simp: fbits_def fsign_def)

lemma within_2000_value: "within_2000 v \<Longrightarrow> f_isfinite v \<and> fmag v \<le> 2000 * 2 ^ 149"
proof -
  assume w: "within_2000 v"
  have "mag_of 0x44FA0000 = 2000 * 2 ^ 149" by (simp add: mag_of_def)
  then show ?thesis using w mag_of_mono [of "fbits v" "0x44FA0000"] by (simp add: within_2000_def f_isfinite_def INF_BITS_def fmag_def)
qed

lemma config_within:
  assumes "\<forall>mo\<in>set ms. \<not> f_isnan (mo_limit mo) \<and> monitor_ok mo"
  shows "within_2000 (config_upper ms)" "within_2000 (config_lower ms)"
proof -
  have w: "within_2000 (mo_limit mo)" if "mo \<in> set ms" "mo_trigger mo \<noteq> TrigDisabled" for mo
    using that assms limit_within by (auto simp: monitor_ok_def)
  have up: "within_2000 u \<Longrightarrow> within_2000 (foldl (\<lambda>u mo. if mo_trigger mo = TemperatureExceeded then f_min u (mo_limit mo) else u) u xs)"
    and lo: "within_2000 u \<Longrightarrow> within_2000 (foldl (\<lambda>l mo. if mo_trigger mo = TemperatureTooLow then f_max l (mo_limit mo) else l) u xs)"
    if "set xs \<subseteq> set ms" for u xs
    using that w by (induction xs arbitrary: u) (auto simp: f_min_def f_max_def)
  have "within_2000 BadErrorTemperature" unfolding limit_consts by (simp add: within_2000_def fbits_def)
  then show "within_2000 (config_upper ms)" "within_2000 (config_lower ms)"
    using up [of ms BadErrorTemperature] lo [of ms ABS_ZERO] limit_consts(3)
    by (simp_all add: config_upper_def config_lower_def)
qed

text \<open>The limits in the received message.\<close>

lemma config_payload_limits:
  "\<exists>rest. heater_of (config_payload env h) = (lh_frequency h, limit_received (ev_ub env) (config_upper (he_monitors h)),
     limit_received (ev_ub env) (config_lower (he_monitors h)), rest)"
  by (simp add: heater_of_def config_payload_def PutU16_def Thermal_ReadU16_def limit_received_def)

text \<open>
  C2. The safety limits of the monitors reach the controller that enforces them: when \<open>SwitchOn\<close> is allowed, the bytes that
  precede its command, received by a coprocessor that is not heating, leave it with exactly the values of the configuration
  message if its limits are acceptable, and with no valid configuration if not. In the first case the limits it then enforces
  are those of every enabled monitor, up to their transmission in tenths of a degree, truncated toward zero: its upper limit is
  at most 0.001 degrees above a monitor's upper limit (0.101 for a limit below zero), and its lower limit at most 0.101 degrees
  below a monitor's lower limit (0.001 for a limit below zero). The limits are taken to be numbers that M143 accepts.
\<close>

theorem monitor_limits_enforced:
  assumes "can_switch_on h" "\<not> hl_firmwareUpdateActive (he_host h)"
    and "dec_idle (bd_decoder b)" "quiet b"
    and "\<forall>mo\<in>set (he_monitors h). \<not> f_isnan (mo_limit mo) \<and> monitor_ok mo"
  shows "\<exists>bytes. hl_out (he_host (snd (snd (LpcHeater_SwitchOn env h)))) =
           hl_out (he_host h) @ bytes @ enc_msg (on_command env h)
      \<and> (let b' = rx_all tenv lvl bytes b; sent = heater_of (config_payload env h) in
           quiet b' \<and> c_heaterOk (board_cfg b') = heater_valid sent
           \<and> (heater_valid sent \<longrightarrow> c_heater (board_cfg b') = sent
             \<and> (\<forall>mo\<in>set (he_monitors h).
                 (mo_trigger mo = TemperatureExceeded \<longrightarrow>
                   at_most_above (if 0 \<le> fint (mo_limit mo) then 1 else 101) (th_upperLimit (bd_lpc b')) (mo_limit mo))
                 \<and> (mo_trigger mo = TemperatureTooLow \<longrightarrow>
                   at_most_above (if 0 \<le> fint (mo_limit mo) then 101 else 1) (mo_limit mo) (th_lowerLimit (bd_lpc b'))))))"
proof -
  let ?ms = "on_messages env h"
  define b' where "b' = rx_all tenv lvl (concat (map enc_msg ?ms)) b"
  define sent where "sent = heater_of (config_payload env h)"
  have out: "hl_out (he_host (snd (snd (LpcHeater_SwitchOn env h)))) =
      hl_out (he_host h) @ concat (map enc_msg ?ms) @ enc_msg (on_command env h)"
    using switch_on_out [of h env] assms(1,2) by simp
  have cfg: "c_heaterOk (board_cfg b') = heater_valid sent" "heater_valid sent \<Longrightarrow> c_heater (board_cfg b') = sent" "quiet b'"
    using rx_cfgs [OF assms(3,4) on_messages_cfg(1), of tenv lvl env h]
      on_messages_cfg(2,3) [of env h "board_cfg b"] by (simp_all add: b'_def sent_def)
  have lim: "(mo_trigger mo = TemperatureExceeded \<longrightarrow>
        at_most_above (if 0 \<le> fint (mo_limit mo) then 1 else 101) (th_upperLimit (bd_lpc b')) (mo_limit mo))
      \<and> (mo_trigger mo = TemperatureTooLow \<longrightarrow>
        at_most_above (if 0 \<le> fint (mo_limit mo) then 101 else 1) (mo_limit mo) (th_lowerLimit (bd_lpc b')))"
    if v: "heater_valid sent" and mo: "mo \<in> set (he_monitors h)" for mo
  proof -
    let ?u = "config_upper (he_monitors h)" and ?l = "config_lower (he_monitors h)"
    have held: "th_upperLimit (bd_lpc b') = limit_received (ev_ub env) ?u" "th_lowerLimit (bd_lpc b') = limit_received (ev_ub env) ?l"
      using cfg(2) [OF v] config_payload_limits [of env h] by (auto simp: sent_def board_cfg_def lpc_cfg_def)
    have nan: "\<forall>mo\<in>set (he_monitors h). \<not> f_isnan (mo_limit mo)" using assms(5) by blast
    note w = config_within [OF assms(5)]
    have fin: "f_isfinite (mo_limit mo)" if "mo_trigger mo \<noteq> TrigDisabled"
      using limit_within [of "mo_limit mo"] within_2000_value that assms(5) mo by (auto simp: monitor_ok_def)
    show ?thesis
      unfolding held
      using limit_received_upper [of ?u "mo_limit mo" "ev_ub env"] limit_received_lower [of ?l "mo_limit mo" "ev_ub env"]
        within_2000_value [OF w(1)] within_2000_value [OF w(2)] config_limits [OF nan mo] fin by auto
  qed
  show ?thesis
    by (rule exI [of _ "concat (map enc_msg ?ms)"])
      (use out cfg lim in \<open>simp add: b'_def [symmetric] sent_def [symmetric] Let_def\<close>)
qed

section \<open>Supervision\<close>

text \<open>The fault \<open>Spin\<close> must raise, if any.\<close>

definition spin_error :: "LpcHeater \<Rightarrow> ThermalError option" where
  "spin_error h =
    (if lh_mode h = HmFault then None
     else if lh_mode h \<ge> HmSuspended \<and> hl_connectionGeneration (he_host h) \<noteq> lh_connectionGeneration h
     then Some LinkTimeout
     else case GetThermalStatus (he_host h) of
       Some st \<Rightarrow> if hs_state st = HFault then Some (hs_error st) else None
     | None \<Rightarrow> if lh_mode h \<ge> HmSuspended then Some LinkTimeout else None)"

lemma RaiseFault_mode [simp]: "RaiseFault env e (h\<lparr>lh_mode := m\<rparr>) = RaiseFault env e h"
  by (simp add: RaiseFault_def)

lemma RaiseFault_sel [simp]: "lh_mode (RaiseFault env e h) = HmFault"
  by (simp add: RaiseFault_def note_call_def)

lemma hmode_of_fault [simp]: "hmode_of s = HmFault \<longleftrightarrow> s = HFault"
  by (cases s) simp_all

lemma spin_status_fault: "lh_mode h = HmFault \<Longrightarrow> spin_status env h = h"
  by (simp add: spin_status_def split: option.split)

text \<open>
  C17. \<open>Spin\<close> raises a fault exactly when it has to: an active or suspended heater whose link was
  re-established or gives no status, or a coprocessor that reports a fault. Raising it switches the
  heater off, flags the tools and queues one event. Otherwise the mode is the one reported, or offline,
  and nothing is sent.
\<close>

theorem spin_exact:
  "LpcHeater_Spin env h =
    (let h1 = h\<lparr>lh_connectionGeneration := hl_connectionGeneration (he_host h)\<rparr> in
     case spin_error h of
       Some e \<Rightarrow> RaiseFault env e h1
     | None \<Rightarrow> if lh_mode h = HmFault then h1
         else h1\<lparr>lh_mode := (case GetThermalStatus (he_host h) of Some st \<Rightarrow> hmode_of (hs_state st)
                | None \<Rightarrow> HmOffline)\<rparr>)"
proof -
  let ?g = "hl_connectionGeneration (he_host h)"
  let ?h1 = "h\<lparr>lh_connectionGeneration := ?g\<rparr>"
  have gen: "spin_generation env h =
      (if ?g \<noteq> lh_connectionGeneration h \<and> HmSuspended \<le> lh_mode h then RaiseFault env LinkTimeout ?h1 else ?h1)"
    by (simp add: spin_generation_def Let_def)
  consider "lh_mode h = HmFault" | "lh_mode h \<noteq> HmFault" "?g \<noteq> lh_connectionGeneration h \<and> HmSuspended \<le> lh_mode h"
    | "lh_mode h \<noteq> HmFault" "\<not> (?g \<noteq> lh_connectionGeneration h \<and> HmSuspended \<le> lh_mode h)" by blast
  then show ?thesis
  proof cases
    case 1
    then have "LpcHeater_Spin env h = ?h1" unfolding LpcHeater_Spin_def gen by (simp add: spin_status_fault)
    then show ?thesis using 1 by (simp add: spin_error_def Let_def)
  next
    case 2
    then have "LpcHeater_Spin env h = RaiseFault env LinkTimeout ?h1"
      unfolding LpcHeater_Spin_def gen by (simp add: spin_status_fault)
    then show ?thesis using 2 by (simp add: spin_error_def Let_def)
  next
    case 3
    have "LpcHeater_Spin env h = spin_status env ?h1"
      unfolding LpcHeater_Spin_def gen if_not_P [OF 3(2)] ..
    also have "\<dots> = (case spin_error h of Some e \<Rightarrow> RaiseFault env e ?h1
       | None \<Rightarrow> ?h1\<lparr>lh_mode := (case GetThermalStatus (he_host h) of Some st \<Rightarrow> hmode_of (hs_state st)
                | None \<Rightarrow> HmOffline)\<rparr>)"
      using 3 by (cases "GetThermalStatus (he_host h)") (auto simp: spin_status_def spin_error_def Let_def)
    finally show ?thesis using 3(1) by (simp add: Let_def)
  qed
qed

section \<open>Gaps\<close>

lemma GetThermalStatus_command [simp]: "GetThermalStatus (CommandHeater ub c t x) = GetThermalStatus x"
  by (auto simp: GetThermalStatus_def CommandHeater_def Host_Send_def Let_def)

text \<open>
  \<open>ResetFault\<close> answers that all is well, but while the last report of the coprocessor still
  shows the fault, the next \<open>Spin\<close> raises that fault again and counts it as a new event.
\<close>

theorem reset_fault_reraised:
  assumes "hl_online (he_host h)" "GetThermalStatus (he_host h) = Some st" "hs_state st = HFault"
  shows "fst (LpcHeater_ResetFault env h) = ResOk
    \<and> lh_mode (snd (snd (LpcHeater_ResetFault env h))) = HmOff
    \<and> (let h' = LpcHeater_Spin env (snd (snd (LpcHeater_ResetFault env h)))
       in lh_mode h' = HmFault \<and> he_calls h' = he_calls h @ [FlagTemperatureFault (he_heaterNumber h),
            HeaterFaultEvent (GetHeaterFaultType (hs_error st)) (he_heaterNumber h)
              (GetThermalErrorText (hs_error st))])"
proof -
  let ?h = "snd (snd (LpcHeater_ResetFault env h))"
  have r: "?h = (SendHeaterCommand env CmdResetFault 0 h)\<lparr>lh_mode := HmOff\<rparr>"
    using assms(1) by (simp add: LpcHeater_ResetFault_def)
  have "spin_error ?h = Some (hs_error st)"
    unfolding r spin_error_def using assms(2,3) by (simp add: send_defs hmode_order)
  moreover have "he_calls ?h = he_calls h" "he_heaterNumber ?h = he_heaterNumber h"
    unfolding r by (simp_all add: send_defs)
  ultimately have "he_calls (LpcHeater_Spin env ?h) = he_calls h @ [FlagTemperatureFault (he_heaterNumber h),
            HeaterFaultEvent (GetHeaterFaultType (hs_error st)) (he_heaterNumber h)
              (GetThermalErrorText (hs_error st))] \<and> lh_mode (LpcHeater_Spin env ?h) = HmFault"
    unfolding spin_exact Let_def by (simp add: RaiseFault_def note_call_def send_defs)
  then show ?thesis using assms(1) by (simp add: LpcHeater_ResetFault_def Let_def)
qed

lemma highest_disabled:
  "\<forall>mo\<in>set (he_monitors h). mo_trigger mo = TrigDisabled \<Longrightarrow>
    GetHighestTemperatureLimit h = BadErrorTemperature \<and> config_upper (he_monitors h) = BadErrorTemperature"
proof -
  have "foldl f a ms = a" if "\<forall>mo\<in>set ms. mo_trigger mo = TrigDisabled"
    "\<And>a mo. mo_trigger mo = TrigDisabled \<Longrightarrow> f a mo = a" for f :: "f32 \<Rightarrow> HeaterMonitor \<Rightarrow> f32" and a ms
    using that by (induction ms arbitrary: a) auto
  moreover assume "\<forall>mo\<in>set (he_monitors h). mo_trigger mo = TrigDisabled"
  ultimately show ?thesis unfolding GetHighestTemperatureLimit_def config_upper_def
    by (simp add: Let_def)
qed

text \<open>
  A heater that is on keeps heating when its only monitor is disabled with M143: the command
  succeeds and sends the coprocessor a configuration without an upper limit, though \<open>SwitchOn\<close> would
  now refuse the same heater.
\<close>

theorem upper_monitor_removable:
  assumes "i < 3" "length (he_monitors h) = 3" "\<forall>j<3. j \<noteq> i \<longrightarrow> mo_trigger (he_monitors h ! j) = TrigDisabled"
    and "\<not> f_le (mo_limit (he_monitors h ! i)) BadLowTemperature"
    and "\<not> f_ge (mo_limit (he_monitors h ! i)) BadErrorTemperature"
    and "hl_online (he_host h)" "\<not> hl_firmwareUpdateActive (he_host h)"
  shows "\<exists>rep h'. ConfigureMonitor env
           \<lparr>g1_P = Given (word_of_nat i), g1_T = Absent, g1_A = Absent, g1_C = Given (- 1), g1_S = Absent\<rparr> h
         = (Inr ResOk, rep, h')
       \<and> lh_mode h' = lh_mode h
       \<and> hl_out (he_host h') = hl_out (he_host h) @ enc_msg (HeaterConfig, config_payload env h')
       \<and> config_upper (he_monitors h') = BadErrorTemperature
       \<and> \<not> can_switch_on h'"
proof -
  let ?mo = "Monitor_Set (sint (word_of_int (he_sensorNumber h) :: u32)) (mo_limit (he_monitors h ! i))
    GenerateFault TrigDisabled (he_monitors h ! i)"
  define h1 where "h1 = h\<lparr>he_monitors := (he_monitors h)[i := ?mo]\<rparr>"
  define h' where "h' = note_call HeatUpdated ((SendConfiguration env h1)\<lparr>he_monitorsSetByUser := True\<rparr>)"
  have i: "unat (word_of_nat i :: u32) = i" using assms(1) by (simp add: unat_of_nat_small)
  have dis: "\<forall>mo\<in>set (he_monitors h1). mo_trigger mo = TrigDisabled"
    using assms(1-3) by (auto simp: h1_def in_set_conv_nth nth_list_update Monitor_Set_def)
  then have v: "fst (ValidateMonitors h1) = ResOk" by (simp add: ValidateMonitors_ok)
  have m: "he_monitors h' = he_monitors h1" by (simp add: h'_def note_call_def send_defs)
  have hi: "GetHighestTemperatureLimit h' = BadErrorTemperature" "config_upper (he_monitors h') = BadErrorTemperature"
    using highest_disabled [of h'] dis m by auto
  have "config_payload env h' = config_payload env h1"
    by (simp add: config_payload_def h'_def note_call_def send_defs)
  then have out: "hl_out (he_host h') = hl_out (he_host h) @ enc_msg (HeaterConfig, config_payload env h')"
    using assms(6,7) send_out(2) [of h1 env] by (simp add: h'_def h1_def note_call_def)
  have "ConfigureMonitor env
      \<lparr>g1_P = Given (word_of_nat i), g1_T = Absent, g1_A = Absent, g1_C = Given (- 1), g1_S = Absent\<rparr> h
      = (Inr ResOk, [], h')"
    using assms(1,4,5) i v
    by (simp add: ConfigureMonitor_def gp_limited_def gp_checked_def gp_opt_def and_then_def seen_def
        MaxMonitorsPerHeater_def action_of_def trigger_of_def UpdateHeaterMonitors_def Succeeded_def
        h'_def h1_def [symmetric] Let_def)
  moreover have "lh_mode h' = lh_mode h" by (simp add: h'_def h1_def note_call_def)
  moreover have "\<not> can_switch_on h'"
    using hi(1) limit_not_nan(1) by (simp add: can_switch_on_def f_le_refl)
  ultimately show ?thesis using hi(2) out by blast
qed

section \<open>The theorems at work\<close>

text \<open>A heater with the default tool model, one monitor at 285 degrees, and a live link.\<close>

definition sample_heat_env :: HeatEnv where
  "sample_heat_env = \<lparr>ev_powf = (\<lambda>x _. x), ev_ub = (\<lambda>_. 0), ev_ub32 = (\<lambda>_. 0),
     ev_sensorExists = (\<lambda>_. True), ev_sensorTemperature = (\<lambda>_. 0), ev_isBedOrChamber = (\<lambda>_. False)\<rparr>"

definition sample_link :: Host where
  "sample_link = sample_host\<lparr>hl_online := True, hl_thermalStatusReceived := True, hl_millis := 10,
     hl_thermalStatusReceivedAt := 5, hl_thermistorSensorNumber := 0,
     hl_thermalStatus := \<lparr>hs_temperature = 0, hs_rawAdc = 0, hs_averagePwm = 0, hs_state = HOff, hs_error = ErrNone\<rparr>\<rparr>"

definition sample_heater :: LpcHeater where
  "sample_heater = undefined\<lparr>lh_frequency := 250, lh_mode := HmOff, he_heaterNumber := 0,
     he_sensorNumber := 0, he_active := True, he_activeTemperature := f_lit 200 1,
     he_model := SetDefaultToolParameters (\<lambda>x _. x) undefined,
     he_monitors := [\<lparr>mo_limit = f_lit 285 1, mo_sensorNumber = 0, mo_action = GenerateFault,
         mo_trigger = TemperatureExceeded, mo_badTemperatureCount = 0\<rparr>,
       HeaterMonitor_new 0 GenerateFault, HeaterMonitor_new 0 GenerateFault],
     he_host := sample_link, he_calls := []\<rparr>"

lemmas float_eval = f_lit_def f_neg_def f_eq_def f_le_def f_lt_def f_isnan_def fkey_def fbits_def
  fsign_def INF_BITS_def round_mag_def round_shift_def bitlen.simps rne_cases mk_float_def Let_def

lemma sample_can_switch_on: "can_switch_on sample_heater"
proof -
  have "\<not> f_ge (GetHighestTemperatureLimit sample_heater) BadErrorTemperature"
    by (simp add: GetHighestTemperatureLimit_def sample_heater_def HeaterMonitor_new_def
        BadErrorTemperature_def float_eval)
  moreover have "fo_enabled (he_model sample_heater)"
    by (simp add: sample_heater_def SetDefaultToolParameters_def)
  moreover have "GetThermalStatus (he_host sample_heater) = Some (hl_thermalStatus sample_link)"
    by (simp add: sample_heater_def sample_link_def sample_host_def GetThermalStatus_def)
  ultimately show ?thesis
    by (simp add: can_switch_on_def)
       (simp add: sample_heater_def sample_link_def sample_host_def IsThermistorSensor_def
        HeaterMonitor_new_def Monitor_GetSensorNumber_def)
qed

theorem host_fault_held_witness:
  "lh_mode (fold (heater_op sample_heat_env) [HoSpin, HoActive True] (sample_heater\<lparr>lh_mode := HmFault\<rparr>)) = HmFault"
  using host_fault_held [of "sample_heater\<lparr>lh_mode := HmFault\<rparr>" "[HoSpin, HoActive True]" sample_heat_env]
  by simp

theorem monitor_limits_enforced_witness:
  "\<exists>bytes. let b' = rx_all dead_env (\<lambda>_. False) bytes (boot dead_env (\<lambda>_. False) zero_lpc) in
     c_heaterOk (board_cfg b') \<and> at_most_above 1 (th_upperLimit (bd_lpc b')) (f_lit 285 1)"
proof -
  define mo where "mo = \<lparr>mo_limit = f_lit 285 1, mo_sensorNumber = 0, mo_action = GenerateFault,
    mo_trigger = TemperatureExceeded, mo_badTemperatureCount = 0\<rparr>"
  have mo: "mo \<in> set (he_monitors sample_heater)" "mo_trigger mo = TemperatureExceeded" "mo_limit mo = f_lit 285 1"
    by (simp_all add: mo_def sample_heater_def)
  have ok: "\<forall>mo\<in>set (he_monitors sample_heater). \<not> f_isnan (mo_limit mo) \<and> monitor_ok mo"
    by (simp add: sample_heater_def HeaterMonitor_new_def monitor_ok_def limit_ok_def BadLowTemperature_def
        BadErrorTemperature_def float_eval)
  have f: "\<not> hl_firmwareUpdateActive (he_host sample_heater)"
    by (simp add: sample_heater_def sample_link_def sample_host_def)
  have pos: "0 \<le> fint (f_lit 285 1)" by (simp add: fint_def float_eval)
  have upper: "config_upper (he_monitors sample_heater) = 0x438E8000" "config_lower (he_monitors sample_heater) = 0xC3889333"
    by (simp_all add: config_upper_def config_lower_def sample_heater_def HeaterMonitor_new_def f_min_def f_max_def
        BadErrorTemperature_def ABS_ZERO_def float_eval)
  have v: "f_isfinite 0x438E8000" "fmag 0x438E8000 = 285 * 2 ^ 149" "\<not> fsign 0x438E8000"
    "f_isfinite 0xC3889333" "fmag 0xC3889333 \<le> 2000 * 2 ^ 149" "fsign 0xC3889333"
    by (simp_all add: f_isfinite_def fmag_def mag_of_def fbits_def fsign_def INF_BITS_def)
  let ?up = "limit_received (ev_ub sample_heat_env) 0x438E8000" and ?lo = "limit_received (ev_ub sample_heat_env) 0xC3889333"
  have freq: "lh_frequency sample_heater \<noteq> 0" by (simp add: sample_heater_def)
  obtain R where R: "fint ?up = int R" "f_isfinite ?up" "1000 * (285 * 2 ^ 149) \<le> 1000 * R + 101 * 2 ^ 149"
    using limit_received_near [where v = "0x438E8000" and ub = "ev_ub sample_heat_env"] v(1-3) by auto
  obtain R' where R': "fint ?lo = - int R'" "f_isfinite ?lo"
    using limit_received_near [where v = "0xC3889333" and ub = "ev_ub sample_heat_env"] v(4-6) by auto
  have "\<not> f_le ?up ?lo" using f_le_fint [of ?up ?lo] R R' by auto
  then have "heater_valid (heater_of (config_payload sample_heat_env sample_heater))"
    using config_payload_limits [of sample_heat_env sample_heater] freq by (auto simp: heater_valid_def upper)
  note valid = this
  obtain bytes where "let b' = rx_all dead_env (\<lambda>_. False) bytes (boot dead_env (\<lambda>_. False) zero_lpc);
      sent = heater_of (config_payload sample_heat_env sample_heater) in
      quiet b' \<and> c_heaterOk (board_cfg b') = heater_valid sent \<and> (heater_valid sent \<longrightarrow> c_heater (board_cfg b') = sent
        \<and> (\<forall>mo\<in>set (he_monitors sample_heater).
           (mo_trigger mo = TemperatureExceeded \<longrightarrow>
             at_most_above (if 0 \<le> fint (mo_limit mo) then 1 else 101) (th_upperLimit (bd_lpc b')) (mo_limit mo))
           \<and> (mo_trigger mo = TemperatureTooLow \<longrightarrow>
             at_most_above (if 0 \<le> fint (mo_limit mo) then 101 else 1) (mo_limit mo) (th_lowerLimit (bd_lpc b')))))"
    using monitor_limits_enforced [OF sample_can_switch_on f boot_quiet(2) [of dead_env "\<lambda>_. False"]
        boot_quiet(1) [of dead_env "\<lambda>_. False"] ok, where env = sample_heat_env and tenv = dead_env
        and lvl = "\<lambda>_. False"] by blast
  then show ?thesis using valid mo pos unfolding Let_def by (intro exI [of _ bytes]) force
qed

theorem reset_fault_reraised_witness:
  "lh_mode (LpcHeater_Spin sample_heat_env (snd (snd (LpcHeater_ResetFault sample_heat_env
     (sample_heater\<lparr>lh_mode := HmFault, he_host := sample_link\<lparr>hl_thermalStatus :=
        (hl_thermalStatus sample_link)\<lparr>hs_state := HFault, hs_error := OverTemperature\<rparr>\<rparr>\<rparr>))))) = HmFault"
  using reset_fault_reraised [of "sample_heater\<lparr>lh_mode := HmFault, he_host := sample_link\<lparr>hl_thermalStatus :=
        (hl_thermalStatus sample_link)\<lparr>hs_state := HFault, hs_error := OverTemperature\<rparr>\<rparr>\<rparr>", where env = sample_heat_env]
  by (simp add: GetThermalStatus_def sample_link_def sample_host_def Let_def)

theorem upper_monitor_removable_witness:
  "\<exists>rep h'. ConfigureMonitor sample_heat_env
      \<lparr>g1_P = Given 0, g1_T = Absent, g1_A = Absent, g1_C = Given (- 1), g1_S = Absent\<rparr>
      (sample_heater\<lparr>lh_mode := HmHeating\<rparr>) = (Inr ResOk, rep, h') \<and> lh_mode h' = HmHeating \<and> \<not> can_switch_on h'"
proof -
  let ?h = "sample_heater\<lparr>lh_mode := HmHeating\<rparr>"
  have 1: "length (he_monitors ?h) = 3" by (simp add: sample_heater_def)
  have 2: "\<forall>j<3. j \<noteq> 0 \<longrightarrow> mo_trigger (he_monitors ?h ! j) = TrigDisabled"
    by (auto simp: sample_heater_def HeaterMonitor_new_def less_Suc_eq numeral_eq_Suc)
  have 3: "\<not> f_le (mo_limit (he_monitors ?h ! 0)) BadLowTemperature"
    "\<not> f_ge (mo_limit (he_monitors ?h ! 0)) BadErrorTemperature"
    by (simp_all add: sample_heater_def BadLowTemperature_def BadErrorTemperature_def float_eval)
  have 4: "hl_online (he_host ?h)" "\<not> hl_firmwareUpdateActive (he_host ?h)"
    by (simp_all add: sample_heater_def sample_link_def sample_host_def)
  show ?thesis using upper_monitor_removable [of 0 ?h sample_heat_env, OF _ 1 2 3 4] by auto
qed

end
