(* ===== verification/LpcHeaterType.thy ===== *)
theory LpcHeaterType
  imports LpcHeaterProps
begin

text \<open>
  What the members of the host's heater object always satisfy, from its construction on, through any
  operations: the well-formedness \<open>heater_wf\<close> that the rest of the firmware relies on without checking it.
\<close>

definition heater_wf :: "LpcHeater \<Rightarrow> bool" where
  "heater_wf h \<longleftrightarrow> length (he_monitors h) = MaxMonitorsPerHeater \<and> list_all monitor_ok (he_monitors h)
     \<and> params_ok (he_model h) \<and> lh_frequency h \<le> MaxHeaterPwmFrequency \<and> he_maxBadTemperatureCount h \<le> 50
     \<and> f_ge (he_maxHeatingFaultTime h) 0 \<and> f_ge (he_maxTempExcursion h) 0"

text \<open>What the caller checks before it configures the port: \<open>Heat::ConfigureHeater\<close> limits the frequency.\<close>

fun op_checked :: "HeaterOp \<Rightarrow> bool" where
  "op_checked (HoPort p f sn) \<longleftrightarrow> f \<le> MaxHeaterPwmFrequency"
| "op_checked _ \<longleftrightarrow> True"

text \<open>Members it does not depend on.\<close>

lemma wf_update [simp]:
  "heater_wf (x\<lparr>lh_mode := v0\<rparr>) = heater_wf x"
  "heater_wf (x\<lparr>lh_connectionGeneration := v1\<rparr>) = heater_wf x"
  "heater_wf (x\<lparr>he_sensorNumber := v2\<rparr>) = heater_wf x"
  "heater_wf (x\<lparr>he_activeTemperature := v3\<rparr>) = heater_wf x"
  "heater_wf (x\<lparr>he_standbyTemperature := v4\<rparr>) = heater_wf x"
  "heater_wf (x\<lparr>he_isBedOrChamber := v8\<rparr>) = heater_wf x"
  "heater_wf (x\<lparr>he_active := v9\<rparr>) = heater_wf x"
  "heater_wf (x\<lparr>he_usingFeedForward := v10\<rparr>) = heater_wf x"
  "heater_wf (x\<lparr>he_modelSetByUser := v11\<rparr>) = heater_wf x"
  "heater_wf (x\<lparr>he_monitorsSetByUser := v12\<rparr>) = heater_wf x"
  "heater_wf (x\<lparr>he_tuned := v13\<rparr>) = heater_wf x"
  "heater_wf (x\<lparr>he_lastFanPwm := v14\<rparr>) = heater_wf x"
  "heater_wf (x\<lparr>he_extrusionPwmBoost := v15\<rparr>) = heater_wf x"
  "heater_wf (x\<lparr>he_extrusionTemperatureBoost := v16\<rparr>) = heater_wf x"
  "heater_wf (x\<lparr>he_previousExtrusionPwmBoost := v17\<rparr>) = heater_wf x"
  "heater_wf (x\<lparr>he_host := v18\<rparr>) = heater_wf x"
  "heater_wf (x\<lparr>he_calls := v20\<rparr>) = heater_wf x"
  by (simp_all add: heater_wf_def)

lemma wf_frequency [simp]: "heater_wf x \<Longrightarrow> f \<le> MaxHeaterPwmFrequency \<Longrightarrow> heater_wf (x\<lparr>lh_frequency := f\<rparr>)"
  by (simp add: heater_wf_def)

lemma wf_model [simp]: "heater_wf x \<Longrightarrow> params_ok m \<Longrightarrow> heater_wf (x\<lparr>he_model := m\<rparr>)"
  by (simp add: heater_wf_def)

lemma wf_model_ok: "heater_wf x \<Longrightarrow> params_ok (he_model x)"
  by (simp add: heater_wf_def)

lemma wf_monitor [simp]:
  "heater_wf x \<Longrightarrow> monitor_ok mo \<Longrightarrow> heater_wf (x\<lparr>he_monitors := (he_monitors x)[i := mo]\<rparr>)"
  by (cases "i < length (he_monitors x)") (auto simp: heater_wf_def list_all_length nth_list_update)

lemma wf_send [simp]:
  "heater_wf (SendConfiguration env x) = heater_wf x" "heater_wf (SendFeedForward x) = heater_wf x"
  "heater_wf (SendModel x) = heater_wf x" "heater_wf (SendHeaterCommand env c t x) = heater_wf x"
  by (simp_all add: send_defs)

lemma wf_parts [simp]:
  "heater_wf (note_call c x) = heater_wf x" "heater_wf (ResetHeater x) = heater_wf x"
  "heater_wf (Heater_SwitchOff x) = heater_wf x" "heater_wf (SetSensorNumber sn x) = heater_wf x"
  "heater_wf (RaiseFault env e x) = heater_wf x"
  by (simp_all add: note_call_def ResetHeater_def Heater_SwitchOff_def SetSensorNumber_def RaiseFault_def)

section \<open>The default models and limits are acceptable\<close>

lemma default_literals:
  "f_lit 243 100 = 0x401B851F" "f_lit 56 100 = 0x3F0F5C29" "f_lit 135 100 = 0x3FACCCCD" "f_lit 55 10 = 0x40B00000"
  "f_lit 13 100 = 0x3E051EB8" "f_lit 15 100 = 0x3E19999A" "f_lit 10 1 = 0x41200000" "f_lit 1 1 = 0x3F800000"
  "f_lit 1 10 = 0x3DCCCCCD" "f_lit 16 10 = 0x3FCCCCCD" "f_lit 99 10000 = 0x3C22339C" "f_lit 50 1 = 0x42480000"
  "f_lit 285 1 = 0x438E8000" "f_lit 125 1 = 0x42FA0000" "f_lit 2000 1 = 0x44FA0000"
  "f_lit 15 1 = 0x41700000" "f_lit 5 1 = 0x40A00000"
  by (simp_all add: float_eval)

lemma default_products:
  "f_div 0x401B851F 0x3F0F5C29 = 0x408ADB6E" "f_div 0x3E051EB8 0x3E19999A = 0x3F5DDDDD"
  "f_mul 0x40B00000 0x3F0F5C29 = 0x40451EB8" "f_mul 0x41200000 0x3E19999A = 0x3FC00000"
  by (simp_all add: f_div_def f_mul_def f_isinf_def f_isfinite_def f_iszero_def fmag_def mag_of_def
      rne_def float_eval)

lemmas float_compare = f_lt_def f_le_def f_isnan_def fkey_def fbits_def fsign_def INF_BITS_def

lemma default_models_ok:
  "model_error DefaultToolHeaterHeatingRate DefaultToolHeaterBasicCoolingRate 0
     DefaultToolHeaterCoolingRateExponent DefaultToolHeaterDeadTime (f_lit 1 1) = None"
  "model_error DefaultBedHeaterHeatingRate DefaultBedHeaterBasicCoolingRate 0
     DefaultBedHeaterCoolingRateExponent DefaultBedHeaterDeadTime (f_lit 1 1) = None"
  unfolding model_error_def DefaultToolHeaterHeatingRate_def DefaultToolHeaterBasicCoolingRate_def
    DefaultToolHeaterCoolingRateExponent_def DefaultToolHeaterDeadTime_def
    DefaultBedHeaterHeatingRate_def DefaultBedHeaterBasicCoolingRate_def
    DefaultBedHeaterCoolingRateExponent_def DefaultBedHeaterDeadTime_def default_literals default_products
  by (simp_all add: float_compare)

lemma SetDefault_ok [simp]:
  "params_ok (SetDefaultToolParameters powf m)" "params_ok (SetDefaultBedOrChamberParameters powf m)"
  "params_ok (FopDt_Reset powf m)"
  using default_models_ok
  by (simp_all add: params_ok_def SetDefaultToolParameters_def SetDefaultBedOrChamberParameters_def FopDt_Reset_def)

lemma SetM301_ok [simp]: "params_ok (SetM301PidParameters p m) = params_ok m"
  by (simp add: SetM301PidParameters_def SetRawPidParameters_def params_ok_def)

lemma SetParameters_ok:
  "SetParameters powf a b c d e f g u i m = (ok, r, m') \<Longrightarrow> params_ok m \<Longrightarrow> params_ok m'"
  by (cases ok) (auto dest: SetParameters_accepts SetParameters_rejects)

lemma default_limits_ok [simp]: "limit_ok DefaultHotEndTemperatureLimit" "limit_ok DefaultBedTemperatureLimit"
  unfolding limit_ok_def DefaultHotEndTemperatureLimit_def DefaultBedTemperatureLimit_def
    BadLowTemperature_def BadErrorTemperature_def default_literals
  by (simp_all add: float_compare f_neg_def mk_float_def)

lemma monitor_ok_set [simp]: "limit_ok l \<Longrightarrow> monitor_ok (Monitor_Set sn l a t mo)"
  by (simp add: monitor_ok_def Monitor_Set_def)

lemma monitor_ok_disabled [simp]: "monitor_ok (Monitor_Disable mo)" "monitor_ok (HeaterMonitor_new l a)"
  by (simp_all add: monitor_ok_def Monitor_Disable_def HeaterMonitor_new_def)

section \<open>Every operation keeps it\<close>

lemma wf_default_monitor [simp]: "heater_wf x \<Longrightarrow> limit_ok l \<Longrightarrow> heater_wf (set_default_monitor l x)"
  by (simp add: set_default_monitor_def)

lemma wf_Spin [simp]: "heater_wf (LpcHeater_Spin env x) = heater_wf x"
  by (simp add: LpcHeater_Spin_def spin_status_def spin_generation_def Let_def split: option.split)

lemma wf_SwitchOn [simp]: "heater_wf (snd (snd (LpcHeater_SwitchOn env x))) = heater_wf x"
  by (simp add: LpcHeater_SwitchOn_def split: option.split)

lemma wf_Suspend [simp]: "heater_wf (LpcHeater_Suspend env s x) = heater_wf x"
  by (simp add: LpcHeater_Suspend_def)

lemma wf_SetTemperature [simp]: "heater_wf x \<Longrightarrow> heater_wf (snd (SetTemperature env t a x))"
proof -
  assume wf: "heater_wf x"
  have "heater_wf y" if "LpcHeater_SwitchOn env z = (r, rep, y)" "heater_wf z" for r rep y z
    using wf_SwitchOn [of env z] that by simp
  then show ?thesis
    using wf by (auto simp: SetTemperature_def Let_def wf_model_ok split: prod.split)
qed

lemma wf_SetModel: "SetModel env a b c d e f g u i x = (r, rep, y) \<Longrightarrow> heater_wf x \<Longrightarrow> heater_wf y"
  by (auto simp: SetModel_def Let_def UpdateModel_def wf_model_ok dest: SetParameters_ok split: prod.splits if_splits)

lemma wf_M307 [simp]: "heater_wf x \<Longrightarrow> heater_wf (snd (snd (SetOrReportModel env n g x)))"
  by (auto simp: SetOrReportModel_def Let_def dest: wf_SetModel split: sum.split prod.split)

lemma gp_nonneg_D: "gp_nonneg d p = Inr v \<Longrightarrow> f_ge d 0 \<Longrightarrow> f_ge v 0"
  by (cases p) (auto simp: gp_nonneg_def gp_checked_def gp_opt_def split: if_splits)

lemma gp_limited_D: "gp_limited 51 d p = Inr v \<Longrightarrow> d \<le> 50 \<Longrightarrow> v \<le> 50"
  by (cases p) (auto simp: gp_limited_def gp_checked_def gp_opt_def word_le_nat_alt split: if_splits)

lemma wf_M570 [simp]: "heater_wf x \<Longrightarrow> heater_wf (snd (snd (ConfigureFaultDetectionParameters env p t r x)))"
  by (auto simp: ConfigureFaultDetectionParameters_def UpdateFaultDetectionParameters_def Let_def heater_wf_def
      send_defs note_call_def dest: gp_nonneg_D gp_limited_D split: sum.split)

lemma wf_M143 [simp]: "heater_wf x \<Longrightarrow> heater_wf (snd (snd (ConfigureMonitor env g x)))"
  by (auto simp: ConfigureMonitor_def UpdateHeaterMonitors_def Let_def limit_ok_def split: sum.split)

lemma wf_op: "heater_wf x \<Longrightarrow> op_checked op \<Longrightarrow> heater_wf (heater_op env op x)"
proof (cases op)
  case HoClear
  assume "heater_wf x"
  then show ?thesis using HoClear
    by (auto simp: ClearModelAndMonitors_def heater_wf_def list_all_iff)
qed (simp_all add: LpcHeater_SwitchOff_def LpcHeater_ResetFault_def
      SetFanFeedForwardPwm_def SetPwmFrequency_def ConfigurePortAndSensor_def SetActiveOrStandby_def
      Heater_SetM301PidParameters_def UpdateModel_def SetExtrusionFeedForward_def SetAsToolHeater_def
      SetAsBedOrChamberHeater_def Let_def wf_model_ok)

lemma default_bounds: "f_ge DefaultMaxHeatingFaultTime 0" "f_ge DefaultMaxTempExcursion 0"
  unfolding DefaultMaxHeatingFaultTime_def DefaultMaxTempExcursion_def default_literals
  by (simp_all add: float_compare)

lemma wf_new: "length (he_monitors h) = MaxMonitorsPerHeater \<Longrightarrow> heater_wf (LpcHeater_new env num h)"
  unfolding LpcHeater_new_def wf_parts using default_bounds
  by (simp add: heater_wf_def list_all_iff DefaultHeaterPwmFreq_def MaxHeaterPwmFrequency_def
      DefaultMaxBadTemperatureCount_def)

text \<open>
  C20. Well-formedness of the heater object: from its construction on, through any operations of the rest of
  the firmware and any activity of the link, it has three monitors, every enabled one supervises an
  acceptable limit, its model is one that \<open>SetParameters\<close> accepts, its
  frequency and fault detection limits are in range, and the count of bad readings put into the
  configuration message is the configured one, never cut.
\<close>

theorem heater_well_formed:
  assumes "length (he_monitors h) = MaxMonitorsPerHeater" "\<forall>op\<in>set ops. op_checked op"
  shows "heater_wf (fold (heater_op env) ops (LpcHeater_new env num h))
    \<and> (let count = he_maxBadTemperatureCount (fold (heater_op env) ops (LpcHeater_new env num h))
       in unat (ucast (min count 255) :: u8) = unat count \<and> unat count < 255)"
proof -
  have "heater_wf (fold (heater_op env) ops x)" if "heater_wf x" for x
    using assms(2) that by (induction ops arbitrary: x) (simp_all add: wf_op)
  then have wf: "heater_wf (fold (heater_op env) ops (LpcHeater_new env num h))" using wf_new assms(1) by blast
  have "unat (ucast (min c 255) :: u8) = unat c \<and> unat c < 255" if "c \<le> 50" for c :: u32
    using that by (simp add: word_le_nat_alt unsigned_ucast_eq unsigned_take_bit_eq take_bit_eq_mod min_def)
  then show ?thesis using wf by (simp add: heater_wf_def Let_def)
qed

theorem heater_well_formed_witness:
  "heater_wf (fold (heater_op sample_heat_env) [HoPort ''lpc.heater'' 250 0, HoTool, HoM570 Absent Absent (Given 50)]
     (LpcHeater_new sample_heat_env 1 sample_heater))"
  using heater_well_formed [of sample_heater "[HoPort ''lpc.heater'' 250 0, HoTool, HoM570 Absent Absent (Given 50)]"
      sample_heat_env 1]
  by (simp add: sample_heater_def MaxMonitorsPerHeater_def MaxHeaterPwmFrequency_def)

end
