(* ===== verification/Refine.thy ===== *)
theory Refine
  imports Main
begin

text \<open>
  Refinement of sequences of operations. An implementation whose operations may fail (\<open>None\<close>: an access
  outside its storage) runs beside a total specification; \<open>rel\<close> relates their states and \<open>ok\<close> are
  the operations the contract admits.
\<close>

fun run_all :: "('op \<Rightarrow> 's \<Rightarrow> 's option) \<Rightarrow> 'op list \<Rightarrow> 's \<Rightarrow> 's option" where
  "run_all f [] s = Some s"
| "run_all f (op # ops) s = (case f op s of None \<Rightarrow> None | Some t \<Rightarrow> run_all f ops t)"

locale refinement =
  fixes impl :: "'op \<Rightarrow> 's \<Rightarrow> 's option"
    and spec :: "'op \<Rightarrow> 'a \<Rightarrow> 'a"
    and rel :: "'s \<Rightarrow> 'a \<Rightarrow> bool"
    and ok :: "'op \<Rightarrow> bool"
  assumes step_refines: "rel s a \<Longrightarrow> ok op \<Longrightarrow> \<exists>t. impl op s = Some t \<and> rel t (spec op a)"
begin

lemma run_refines:
  "rel s a \<Longrightarrow> \<forall>op\<in>set ops. ok op \<Longrightarrow> \<exists>t. run_all impl ops s = Some t \<and> rel t (fold spec ops a)"
proof (induction ops arbitrary: s a)
  case (Cons op ops)
  then obtain t where "impl op s = Some t" "rel t (spec op a)" using step_refines by fastforce
  then show ?case using Cons by auto
qed simp

end

end
