(* ===== verification/StringRefs.thy ===== *)
theory StringRefs
  imports CStrings Refine
begin

text \<open>
  \<open>StringRef\<close> of \<open>RRFLibraries/src/General/StringRef.h\<close> and \<open>StringRef.cpp\<close>: a bounded text buffer. The
  model of a \<open>StringRef\<close> is its storage, a list of exactly \<open>len\<close> characters; \<open>sref\<close> is the class
  invariant its header states. Every operation is a checked computation, so its result is \<open>None\<close>
  when some access leaves the storage. Formatting (\<open>SafeVsnprintf\<close>) delivers its text as an argument
  here; it is the subject of \<open>Printf\<close>.
\<close>

section \<open>The class\<close>

type_synonym StringRef = "char list"

definition sref :: "StringRef \<Rightarrow> bool" where
  "sref p \<longleftrightarrow> 1 \<le> length p \<and> length p \<le> 2147483647 \<and> NUL \<in> set p"

definition Capacity :: "StringRef \<Rightarrow> nat" where
  "Capacity p = length p - 1"

definition sr_strlen :: "StringRef \<Rightarrow> nat" where
  "sr_strlen p = Strnlen p (length p - 1)"

definition IsEmpty :: "StringRef \<Rightarrow> bool" where
  "IsEmpty p \<longleftrightarrow> p ! 0 = NUL"

definition Clear :: "StringRef \<Rightarrow> StringRef option" where
  "Clear p = poke p 0 NUL"

text \<open>Storing a formatted text \<open>t\<close> at \<open>off\<close> in room for \<open>n\<close> characters, the terminator included.\<close>

definition put_formatted :: "StringRef \<Rightarrow> nat \<Rightarrow> nat \<Rightarrow> string \<Rightarrow> StringRef option" where
  "put_formatted p off n t = blit p off (take (n - 1) t @ [NUL])"

definition sr_printf :: "StringRef \<Rightarrow> string \<Rightarrow> StringRef option" where
  "sr_printf p t = put_formatted p 0 (length p) t"

definition sr_catf :: "StringRef \<Rightarrow> string \<Rightarrow> StringRef option" where
  "sr_catf p t =
    (let n = sr_strlen p in
     if n < length p - 1 then put_formatted p n (length p - n) t else Some p)"

definition sr_copy :: "StringRef \<Rightarrow> string \<Rightarrow> (bool \<times> StringRef) option" where
  "sr_copy p src = (let overflow = length p \<le> length src;
       n = (if overflow then length p - 1 else length src)
     in do { p1 \<leftarrow> blit p 0 (take n src); p2 \<leftarrow> poke p1 n NUL; Some (overflow, p2) })"

definition sr_copyn :: "StringRef \<Rightarrow> string \<Rightarrow> nat \<Rightarrow> (bool \<times> StringRef) option" where
  "sr_copyn p src maxlen = (let slen = min (length src) maxlen; overflow = length p \<le> slen;
       n = (if overflow then length p - 1 else slen)
     in do { p1 \<leftarrow> blit p 0 (take n src); p2 \<leftarrow> poke p1 n NUL; Some (overflow, p2) })"

definition sr_cat :: "StringRef \<Rightarrow> string \<Rightarrow> (bool \<times> StringRef) option" where
  "sr_cat p src = (let n = sr_strlen p; overflow = length p \<le> n + length src;
       toCopy = (if overflow then length p - n - 1 else length src)
     in do { p1 \<leftarrow> blit p n (take toCopy src); p2 \<leftarrow> poke p1 (n + toCopy) NUL; Some (overflow, p2) })"

definition sr_catn :: "StringRef \<Rightarrow> string \<Rightarrow> nat \<Rightarrow> (bool \<times> StringRef) option" where
  "sr_catn p src maxlen = (let n = sr_strlen p; slen = min (length src) maxlen;
       overflow = length p \<le> n + slen; toCopy = (if overflow then length p - n - 1 else slen)
     in do { p1 \<leftarrow> blit p n (take toCopy src); p2 \<leftarrow> poke p1 (n + toCopy) NUL; Some (overflow, p2) })"

definition sr_catc :: "StringRef \<Rightarrow> char \<Rightarrow> (bool \<times> StringRef) option" where
  "sr_catc p c = (let n = sr_strlen p in
     if n + 1 < length p then do { p1 \<leftarrow> poke p n c; p2 \<leftarrow> poke p1 (n + 1) NUL; Some (False, p2) }
     else Some (True, p))"

definition newline :: char where "newline = CHR 0x0A"

text \<open>Whether a line break has to be added before more text.\<close>

definition needs_newline :: "StringRef \<Rightarrow> bool" where
  "needs_newline p \<longleftrightarrow> \<not> IsEmpty p \<and> p ! (sr_strlen p - 1) \<noteq> newline"

definition sr_lcatf :: "StringRef \<Rightarrow> string \<Rightarrow> StringRef option" where
  "sr_lcatf p t =
    (let n = sr_strlen p in
     if n \<noteq> 0 \<and> p ! (n - 1) \<noteq> newline then do {
       (full, p1) \<leftarrow> sr_catc p newline;
       if full then Some p1
       else if n + 1 + 1 < length p1 then put_formatted p1 (n + 1) (length p1 - (n + 1)) t else Some p1 }
     else if n + 1 < length p then put_formatted p n (length p - n) t else Some p)"

definition sr_lcat :: "StringRef \<Rightarrow> string \<Rightarrow> (bool \<times> StringRef) option" where
  "sr_lcat p src =
    (if needs_newline p then do {
       (full, p1) \<leftarrow> sr_catc p newline;
       if full then Some (True, p1) else sr_cat p1 src }
     else sr_cat p src)"

definition sr_lcatn :: "StringRef \<Rightarrow> string \<Rightarrow> nat \<Rightarrow> (bool \<times> StringRef) option" where
  "sr_lcatn p src n =
    (if needs_newline p then do {
       (full, p1) \<leftarrow> sr_catc p newline;
       if full then Some (True, p1) else sr_catn p1 src n }
     else sr_catn p src n)"

fun strip_loop :: "nat \<Rightarrow> StringRef \<Rightarrow> (nat \<times> StringRef) option" where
  "strip_loop 0 p = Some (0, p)"
| "strip_loop (Suc k) p = do {
     c \<leftarrow> peek p k;
     if c = CHR '' '' then do { p1 \<leftarrow> poke p k NUL; strip_loop k p1 } else Some (Suc k, p) }"

definition StripTrailingSpaces :: "StringRef \<Rightarrow> (nat \<times> StringRef) option" where
  "StripTrailingSpaces p = strip_loop (sr_strlen p) p"

definition Prepend :: "StringRef \<Rightarrow> string \<Rightarrow> (bool \<times> StringRef) option" where
  "Prepend p src = (let slen = length src; dlen = sr_strlen p in
     if slen + dlen < length p
     then do { p1 \<leftarrow> memmove p slen 0 (dlen + 1); p2 \<leftarrow> blit p1 0 src; Some (False, p2) }
     else Some (True, p))"

definition Truncate :: "StringRef \<Rightarrow> nat \<Rightarrow> StringRef option" where
  "Truncate p pos = (if pos < length p then poke p pos NUL else Some p)"

text \<open>\<open>pos + count\<close> is computed in a 32-bit \<open>size_t\<close>; the fuel bounds the number of iterations.\<close>

fun erase_loop :: "nat \<Rightarrow> nat \<Rightarrow> nat \<Rightarrow> nat \<Rightarrow> StringRef \<Rightarrow> StringRef option" where
  "erase_loop 0 pos count slen p = None"
| "erase_loop (Suc fuel) pos count slen p =
     (let src = (pos + count) mod 4294967296 in
      if src < slen then do { c \<leftarrow> peek p src; p1 \<leftarrow> poke p pos c; erase_loop fuel (pos + 1) count slen p1 }
      else poke p pos NUL)"

definition Erase :: "StringRef \<Rightarrow> nat \<Rightarrow> nat \<Rightarrow> StringRef option" where
  "Erase p pos count = (let slen = sr_strlen p in
     if pos < slen then erase_loop (length p + 1) pos count slen p else Some p)"

definition sr_Insert_char :: "StringRef \<Rightarrow> nat \<Rightarrow> char \<Rightarrow> (bool \<times> StringRef) option" where
  "sr_Insert_char p pos c = (let slen = sr_strlen p in
     if slen < pos then Some (False, p)
     else if slen + 1 < length p then do {
       p1 \<leftarrow> memmove p (pos + 1) pos (slen - pos + 1); p2 \<leftarrow> poke p1 pos c; Some (False, p2) }
     else if pos < slen then do {
       p1 \<leftarrow> memmove p (pos + 1) pos (slen - pos - 1); p2 \<leftarrow> poke p1 pos c; Some (True, p2) }
     else Some (True, p))"

definition sr_Insert :: "StringRef \<Rightarrow> nat \<Rightarrow> string \<Rightarrow> (bool \<times> StringRef) option" where
  "sr_Insert p pos s = (let slen = sr_strlen p; slen2 = length s in
     if slen < pos then Some (False, p)
     else if slen + slen2 < length p then do {
       p1 \<leftarrow> memmove p (pos + slen2) pos (slen - pos + 1); p2 \<leftarrow> blit p1 pos s; Some (False, p2) }
     else if pos < slen then do {
       p1 \<leftarrow> (if pos + slen2 < length p
              then do { q \<leftarrow> memmove p (pos + slen2) pos (length p - pos - slen2); blit q pos s }
              else blit p pos (take (length p - pos - 1) s));
       p2 \<leftarrow> poke p1 (length p - 1) NUL; Some (True, p2) }
     else Some (True, p))"

fun replace_first :: "char \<Rightarrow> char \<Rightarrow> StringRef \<Rightarrow> bool \<times> StringRef" where
  "replace_first old new [] = (False, [])"
| "replace_first old new (c # p) =
     (if c = NUL then (False, c # p)
      else if c = old then (True, new # p)
      else (case replace_first old new p of (r, q) \<Rightarrow> (r, c # q)))"

fun replace_all :: "char \<Rightarrow> char \<Rightarrow> StringRef \<Rightarrow> nat \<times> StringRef" where
  "replace_all old new [] = (0, [])"
| "replace_all old new (c # p) =
     (if c = NUL then (0, c # p)
      else (case replace_all old new p of (n, q) \<Rightarrow> if c = old then (n + 1, new # q) else (n, c # q)))"

fun find_char :: "char \<Rightarrow> nat \<Rightarrow> string \<Rightarrow> int" where
  "find_char c i [] = - 1"
| "find_char c i (x # s) = (if x = c then int i else find_char c (i + 1) s)"

fun find_string :: "string \<Rightarrow> nat \<Rightarrow> string \<Rightarrow> int" where
  "find_string m i [] = (if m = [] then int i else - 1)"
| "find_string m i (x # s) = (if StringStartsWith (x # s) m then int i else find_string m (i + 1) s)"

definition Contains :: "StringRef \<Rightarrow> string \<Rightarrow> int" where
  "Contains p m = find_string m 0 (content p)"

definition Contains_char :: "StringRef \<Rightarrow> char \<Rightarrow> int" where
  "Contains_char p c = (if c = NUL then int (length (content p)) else find_char c 0 (content p))"

section \<open>The invariant\<close>

lemma content_text [simp]: "is_text s \<Longrightarrow> content s = s"
  unfolding content_def is_text_def by (auto simp: takeWhile_eq_all_conv)

lemma sref_split:
  assumes "sref p"
  obtains r where "p = content p @ NUL # r" "length p = length (content p) + 1 + length r"
proof -
  obtain r where r: "p = content p @ NUL # r"
    using assms content_split unfolding sref_def by metis
  then have l: "length p = length (content p @ NUL # r)" by (rule arg_cong)
  show thesis by (rule that [OF r]) (use l in simp)
qed

lemma sref_strlen: "sref p \<Longrightarrow> sr_strlen p = length (content p)"
proof -
  assume "sref p"
  then obtain r where r: "p = content p @ NUL # r" "length p = length (content p) + 1 + length r"
    by (rule sref_split)
  have "take (length p - 1) p = content p @ take (length r) (NUL # r)"
    using r(2) by (subst r(1)) simp
  then have "content (take (length p - 1) p) = content p"
    by (cases r) simp_all
  then show ?thesis by (simp add: sr_strlen_def Strnlen_def)
qed

text \<open>A buffer that holds the text \<open>s\<close> in storage of \<open>n\<close> characters.\<close>

definition holds :: "nat \<Rightarrow> string \<Rightarrow> StringRef \<Rightarrow> bool" where
  "holds n s p \<longleftrightarrow> sref p \<and> length p = n \<and> content p = s"

lemma holdsI: "p = s @ NUL # r \<Longrightarrow> is_text s \<Longrightarrow> length p = n \<Longrightarrow> n \<le> 2147483647 \<Longrightarrow> holds n s p"
  by (simp add: holds_def sref_def)

lemma sref_holds: "sref p \<longleftrightarrow> holds (length p) (content p) p"
  by (simp add: holds_def)

text \<open>Storing a text and its terminator behind the first \<open>k\<close> characters of the text there.\<close>

lemma store_text:
  assumes "sref p" "k \<le> length (content p)" "is_text t" "k + length t < length p"
  shows "\<exists>p1 q. blit p k t = Some p1 \<and> poke p1 (k + length t) NUL = Some q
    \<and> blit p k (t @ [NUL]) = Some q \<and> holds (length p) (take k (content p) @ t) q"
proof -
  obtain r where p: "p = content p @ NUL # r" "length p = length (content p) + 1 + length r"
    using assms(1) by (rule sref_split)
  let ?z = "drop (k + length t) p"
  have tk: "take k p = take k (content p)" using p(1) assms(2) by (metis take_append diff_is_0_eq take_eq_Nil append_Nil2)
  have z: "?z \<noteq> []" using assms(4) by simp
  then obtain a z' where az: "?z = a # z'" by (cases ?z) auto
  have b: "blit p k t = Some (take k p @ t @ a # z')" using assms(4) az by (simp add: blit_def)
  have len: "length (take k p) = k" unfolding tk using assms(2) by simp
  have dz: "drop (Suc (k + length t)) p = z'" using az by (metis drop_Suc list.sel(3) tl_drop)
  have q: "poke (take k p @ t @ a # z') (k + length t) NUL = Some (take k p @ t @ NUL # z')"
    using len by (simp add: poke_def list_update_append)
  have bq: "blit p k (t @ [NUL]) = Some (take k p @ t @ NUL # z')"
    using assms(4) dz by (simp add: blit_def)
  have lz: "length (take k p @ t @ NUL # z') = length p"
    using length_blit [OF bq] .
  have "holds (length p) (take k (content p) @ t) (take k p @ t @ NUL # z')"
    using assms(1,3) lz tk by (intro holdsI [where r = z']) (simp_all add: sref_def)
  then show ?thesis using b q bq by blast
qed

section \<open>Writing text\<close>

text \<open>
  The common contract of the operations that produce text: the result is the intended text \<open>t\<close>, cut to
  the capacity if need be, in the same storage, terminated.
\<close>

definition stores :: "StringRef \<Rightarrow> string \<Rightarrow> StringRef option \<Rightarrow> bool" where
  "stores p t r \<longleftrightarrow> (\<exists>q. r = Some q \<and> holds (length p) (take (length p - 1) t) q)"

text \<open>The same, with a flag that tells whether the text was cut.\<close>

definition stores_flag :: "StringRef \<Rightarrow> string \<Rightarrow> (bool \<times> StringRef) option \<Rightarrow> bool" where
  "stores_flag p t r \<longleftrightarrow> (\<exists>q. r = Some (length p \<le> length t, q) \<and> holds (length p) (take (length p - 1) t) q)"

lemma sref_len: "sref p \<Longrightarrow> length (content p) + 1 \<le> length p"
  by (metis Suc_eq_plus1 Suc_leI content_length_less sref_def)

lemma formatted_stores:
  assumes "sref p" "is_text t"
  shows "stores p (content p @ t) (put_formatted p (length (content p)) (length p - length (content p)) t)"
proof -
  let ?k = "length (content p)" and ?m = "length p - length (content p) - 1"
  have k: "?k + 1 \<le> length p" by (rule sref_len [OF assms(1)])
  then have "?k + length (take ?m t) < length p" by simp
  then obtain q where q: "blit p ?k (take ?m t @ [NUL]) = Some q" "holds (length p) (content p @ take ?m t) q"
    using store_text [OF assms(1) order_refl is_text_take [OF assms(2)], of ?m] by auto
  have "take (length p - 1) (content p @ t) = content p @ take ?m t" using k by simp
  then show ?thesis using q by (simp add: stores_def put_formatted_def)
qed

lemma printf_stores: "sref p \<Longrightarrow> is_text t \<Longrightarrow> stores p t (sr_printf p t)"
proof -
  assume s: "sref p" "is_text t"
  have "length (take (length p - 1) t) < length p" using sref_len [OF s(1)] by auto
  then obtain q where "blit p 0 (take (length p - 1) t @ [NUL]) = Some q"
    "holds (length p) (take (length p - 1) t) q"
    using store_text [OF s(1) _ is_text_take [OF s(2)], of 0 "length p - 1"] by auto
  then show ?thesis by (simp add: stores_def sr_printf_def put_formatted_def)
qed

lemma unchanged_stores: "sref p \<Longrightarrow> length (content p) = length p - 1 \<Longrightarrow> stores p (content p @ t) (Some p)"
  by (simp add: stores_def holds_def)

lemma catf_stores: "sref p \<Longrightarrow> is_text t \<Longrightarrow> stores p (content p @ t) (sr_catf p t)"
  using formatted_stores [of p t] unchanged_stores [of p t] sref_len [of p]
  by (auto simp: sr_catf_def sref_strlen Let_def)

text \<open>Copying at most what fits.\<close>

lemma copy_part:
  assumes "sref p" "k \<le> length (content p)" "is_text t"
    and n: "n = (if length p \<le> k + length t then length p - k - 1 else length t)"
  shows "stores_flag p (take k (content p) @ t) (do { p1 \<leftarrow> blit p k (take n t);
     p2 \<leftarrow> poke p1 (k + n) NUL; Some (length p \<le> k + length t, p2) })"
proof -
  have k: "k + 1 \<le> length p" using sref_len [OF assms(1)] assms(2) by simp
  have ln: "length (take n t) = n" "k + n < length p" using k n by auto
  obtain p1 q where q: "blit p k (take n t) = Some p1" "poke p1 (k + n) NUL = Some q"
    "holds (length p) (take k (content p) @ take n t) q"
    using store_text [OF assms(1,2) is_text_take [OF assms(3)], of n] ln by auto
  have "take (length p - 1) (take k (content p) @ t) = take k (content p) @ take n t"
  proof -
    have "min (length p - 1) k = k" using k by simp
    then show ?thesis using n assms(2) by simp
  qed
  then show ?thesis using q assms(2) by (simp add: stores_flag_def)
qed

lemma copy_stores: "sref p \<Longrightarrow> is_text t \<Longrightarrow> stores_flag p t (sr_copy p t)"
  using copy_part [of p 0 t] by (cases "length p \<le> length t") (simp_all add: sr_copy_def Let_def)

lemma cat_stores: "sref p \<Longrightarrow> is_text t \<Longrightarrow> stores_flag p (content p @ t) (sr_cat p t)"
  using copy_part [of p "length (content p)" t] by (simp add: sr_cat_def Let_def sref_strlen)

lemma copyn_cat: "sr_copyn p t n = sr_copy p (take n t)"
proof (cases "length p \<le> min (length t) n")
  case True
  then have "length p \<le> n" by simp
  then have "min (length p - 1) n = length p - 1" by (intro min_absorb1) simp
  then have tk: "take (length p - 1) (take n t) = take (length p - 1) t" by (simp only: take_take)
  have "length p \<le> length (take n t)" using True by (simp add: min.commute)
  then have "sr_copy p (take n t) = do { p1 \<leftarrow> blit p 0 (take (length p - 1) t);
      p2 \<leftarrow> poke p1 (length p - 1) NUL; Some (True, p2) }"
    unfolding sr_copy_def Let_def by (simp only: if_True tk)
  then show ?thesis using True by (simp add: sr_copyn_def Let_def)
next
  case False
  have l: "length (take n t) = min (length t) n" by simp
  have e: "take (min (length t) n) t = take n t" "take (min (length t) n) (take n t) = take n t"
    by (cases "n \<le> length t"; simp)+
  show ?thesis unfolding sr_copyn_def sr_copy_def Let_def l if_not_P [OF False] e by (rule refl)
qed

lemma catn_cat: "sr_catn p t n = sr_cat p (take n t)"
proof (cases "length p \<le> sr_strlen p + min (length t) n")
  case True
  then have "take (min (length p - sr_strlen p - 1) n) t = take (length p - sr_strlen p - 1) t"
    by (cases "n \<le> length p - sr_strlen p - 1") auto
  then show ?thesis using True
    by (simp add: sr_catn_def sr_cat_def Let_def min.commute)
qed (simp add: sr_catn_def sr_cat_def Let_def min.commute)

lemma catc_stores: "sref p \<Longrightarrow> c \<noteq> NUL \<Longrightarrow> stores_flag p (content p @ [c]) (sr_catc p c)"
proof (cases "length (content p) + 1 < length p")
  case True
  assume s: "sref p" "c \<noteq> NUL"
  obtain p1 q where q: "blit p (length (content p)) [c] = Some p1"
    "poke p1 (length (content p) + 1) NUL = Some q" "holds (length p) (content p @ [c]) q"
    using store_text [OF s(1) order_refl, of "[c]"] s(2) True by auto
  have "poke p (length (content p)) c = blit p (length (content p)) [c]"
    using True by (simp add: poke_def blit_def upd_conv_take_nth_drop)
  then show ?thesis using q True s by (simp add: stores_flag_def sr_catc_def Let_def sref_strlen)
next
  case False
  assume s: "sref p" "c \<noteq> NUL"
  then show ?thesis using False sref_len [of p]
    by (simp add: stores_flag_def sr_catc_def Let_def sref_strlen holds_def)
qed

lemma holds_sref: "holds n s p \<Longrightarrow> sref p" "holds n s p \<Longrightarrow> content p = s" "holds n s p \<Longrightarrow> length p = n"
  by (simp_all add: holds_def)

text \<open>With a line break first, if the text so far needs one.\<close>

definition line_sep :: "string \<Rightarrow> string" where
  "line_sep t = (if t \<noteq> [] \<and> last t \<noteq> newline then [newline] else [])"

lemma sref_nth: "sref p \<Longrightarrow> i < length (content p) \<Longrightarrow> p ! i = content p ! i"
  by (metis nth_append sref_split)

lemma sref_last: "sref p \<Longrightarrow> content p \<noteq> [] \<Longrightarrow> p ! (length (content p) - Suc 0) = last (content p)"
  by (simp add: sref_nth last_conv_nth)

lemma sref_empty: "sref p \<Longrightarrow> IsEmpty p \<longleftrightarrow> content p = []"
proof -
  assume "sref p"
  then obtain r where "p = content p @ NUL # r" by (rule sref_split)
  moreover have "is_text (content p)" by simp
  ultimately show ?thesis unfolding IsEmpty_def is_text_def
    by (metis append_Nil hd_append2 hd_conv_nth list.distinct(1) list.sel(1) list.set_sel(1) append_is_Nil_conv)
qed

lemma needs_newline_iff: "sref p \<Longrightarrow> needs_newline p \<longleftrightarrow> line_sep (content p) \<noteq> []"
  by (cases "content p = []") (auto simp: needs_newline_def line_sep_def sref_empty sref_strlen sref_last)

lemma newline_text [simp]: "newline \<noteq> NUL"
  by (simp add: newline_def)

lemma lcat_stores:
  assumes "sref p" "is_text t"
  shows "stores_flag p (content p @ line_sep (content p) @ t) (sr_lcat p t)"
proof (cases "needs_newline p")
  case False
  then show ?thesis using cat_stores [OF assms] needs_newline_iff [OF assms(1)]
    by (simp add: sr_lcat_def)
next
  case True
  then have l: "line_sep (content p) = [newline]"
    using needs_newline_iff [OF assms(1)] by (auto simp: line_sep_def split: if_splits)
  obtain q where q: "sr_catc p newline = Some (length p \<le> length (content p) + 1, q)"
    "holds (length p) (take (length p - 1) (content p @ [newline])) q"
    using catc_stores [OF assms(1) newline_text] by (auto simp: stores_flag_def)
  have k: "length (content p) + 1 \<le> length p" by (rule sref_len [OF assms(1)])
  show ?thesis
  proof (cases "length p \<le> length (content p) + 1")
    case full: True
    then have "take (length p - 1) (content p @ newline # t) = take (length p - 1) (content p @ [newline])"
      using k by simp
    then show ?thesis using q full True l by (simp add: sr_lcat_def stores_flag_def)
  next
    case False
    then have "holds (length p) (content p @ [newline]) q" using q(2) k by simp
    then show ?thesis using False q(1) True l cat_stores [of q t] assms(2)
      by (simp add: sr_lcat_def stores_flag_def holds_sref)
  qed
qed

lemma lcatn_lcat: "sr_lcatn p t n = sr_lcat p (take n t)"
  by (cases "sr_catc p newline") (auto simp: sr_lcatn_def sr_lcat_def catn_cat)

lemma lcatf_stores:
  assumes "sref p" "is_text t"
  shows "stores p (content p @ line_sep (content p) @ t) (sr_lcatf p t)"
proof -
  let ?n = "length (content p)"
  have k: "?n + 1 \<le> length p" by (rule sref_len [OF assms(1)])
  have cond: "(?n \<noteq> 0 \<and> p ! (?n - 1) \<noteq> newline) = (line_sep (content p) \<noteq> [])"
    using assms(1) by (cases "content p = []") (auto simp: line_sep_def sref_last)
  show ?thesis
  proof (cases "line_sep (content p) = []")
    case True
    then show ?thesis
      using cond formatted_stores [OF assms] unchanged_stores [OF assms(1), of t] k
      by (auto simp: sr_lcatf_def sref_strlen [OF assms(1)] Let_def simp del: One_nat_def)
  next
    case False
    then have l: "line_sep (content p) = [newline]" by (auto simp: line_sep_def split: if_splits)
    obtain q where q: "sr_catc p newline = Some (length p \<le> ?n + 1, q)"
      "holds (length p) (take (length p - 1) (content p @ [newline])) q"
      using catc_stores [OF assms(1) newline_text] by (auto simp: stores_flag_def)
    have eq: "sr_lcatf p t = (if length p \<le> ?n + 1 then Some q
        else if ?n + 1 + 1 < length q then put_formatted q (?n + 1) (length q - (?n + 1)) t else Some q)"
      using cond False q(1) by (simp add: sr_lcatf_def sref_strlen [OF assms(1)] Let_def del: One_nat_def)
    show ?thesis
    proof (cases "length p \<le> ?n + 1")
      case True
      then have "take (length p - 1) (content p @ newline # t) = take (length p - 1) (content p @ [newline])"
        using k by simp
      then show ?thesis using q True l eq by (simp add: stores_def)
    next
      case room: False
      then have h: "holds (length p) (content p @ [newline]) q" using q(2) k by simp
      note hs = holds_sref [OF h]
      have "stores q (content q @ t) (if ?n + 1 + 1 < length q
          then put_formatted q (?n + 1) (length q - (?n + 1)) t else Some q)"
        using formatted_stores [OF hs(1) assms(2)] unchanged_stores [OF hs(1), of t] hs(2,3) k room by auto
      then show ?thesis using eq room l hs(2,3) by (simp add: stores_def)
    qed
  qed
qed

section \<open>Editing text\<close>

text \<open>Moving the text from \<open>pos\<close> on behind a gap and filling the gap.\<close>

lemma length_memmove: "memmove p d k n = Some q \<Longrightarrow> length q = length p"
  by (auto simp: memmove_def dest: length_blit split: if_splits)

lemma insert_at:
  assumes "sref p" "pos \<le> length (content p)" "is_text t" "length (content p) + length t < length p"
  shows "\<exists>q q'. memmove p (pos + length t) pos (length (content p) - pos + 1) = Some q
    \<and> blit q pos t = Some q' \<and> holds (length p) (take pos (content p) @ t @ drop pos (content p)) q'"
proof -
  let ?c = "content p" let ?n = "length (content p)"
  obtain r where p: "p = ?c @ NUL # r" "length p = ?n + 1 + length r" using assms(1) by (rule sref_split)
  have src: "take (?n - pos + 1) (drop pos p) = drop pos ?c @ [NUL]"
    using assms(2) by (subst p(1)) simp
  let ?z = "drop (?n + length t + 1) p"
  have b: "memmove p (pos + length t) pos (?n - pos + 1)
      = Some (take (pos + length t) p @ (drop pos ?c @ [NUL]) @ ?z)"
    using assms(2,4) p(2) by (simp add: memmove_def blit_def src [simplified] ac_simps)
  let ?a = "take pos p" and ?m = "take (length t) (drop pos p)"
  have am: "take (pos + length t) p = ?a @ ?m" by (simp add: take_add)
  have la: "length ?a = pos" "length ?m = length t" using assms(2,4) by auto
  have b': "blit (take (pos + length t) p @ (drop pos ?c @ [NUL]) @ ?z) pos t
      = Some (?a @ t @ (drop pos ?c @ [NUL]) @ ?z)"
    unfolding am using blit_mid [OF la(1,2)] by simp
  have a: "?a = take pos ?c" using assms(2) by (subst p(1)) simp
  have "holds (length p) (take pos ?c @ t @ drop pos ?c) (?a @ t @ (drop pos ?c @ [NUL]) @ ?z)"
  proof (rule holdsI)
    show "?a @ t @ (drop pos ?c @ [NUL]) @ ?z = (take pos ?c @ t @ drop pos ?c) @ NUL # ?z" by (simp add: a)
    show "length (?a @ t @ (drop pos ?c @ [NUL]) @ ?z) = length p"
      using length_blit [OF b'] length_memmove [OF b] by (rule trans)
  qed (use assms(1,3) in \<open>simp_all add: sref_def\<close>)
  then show ?thesis using b b' by blast
qed

lemma Insert_fits:
  assumes "sref p" "pos \<le> length (content p)" "is_text t" "length (content p) + length t < length p"
  shows "stores_flag p (take pos (content p) @ t @ drop pos (content p)) (sr_Insert p pos t)"
  using insert_at [OF assms] assms(2,4)
  by (auto simp: stores_flag_def sr_Insert_def Let_def sref_strlen [OF assms(1)])

lemma Insert_char_fits:
  assumes "sref p" "pos \<le> length (content p)" "c \<noteq> NUL" "length (content p) + 1 < length p"
  shows "stores_flag p (take pos (content p) @ c # drop pos (content p)) (sr_Insert_char p pos c)"
proof -
  obtain q q' where q: "memmove p (pos + 1) pos (length (content p) - pos + 1) = Some q"
    "blit q pos [c] = Some q'" "holds (length p) (take pos (content p) @ [c] @ drop pos (content p)) q'"
    using insert_at [OF assms(1,2), of "[c]"] assms(3,4) by auto
  have "length q = length p" using q(1) by (auto simp: memmove_def dest: length_blit split: if_splits)
  then have "poke q pos c = blit q pos [c]"
    using assms(2,4) by (simp add: poke_def blit_def upd_conv_take_nth_drop)
  then show ?thesis using q assms(2,4)
    by (simp add: stores_flag_def sr_Insert_char_def Let_def sref_strlen [OF assms(1)])
qed

lemma Prepend_spec:
  assumes "sref p" "is_text t"
  shows "if length t + length (content p) < length p
    then stores_flag p (t @ content p) (Prepend p t) else Prepend p t = Some (True, p)"
  using insert_at [OF assms(1) le0 assms(2)]
  by (auto simp: stores_flag_def Prepend_def Let_def sref_strlen [OF assms(1)])

lemma Truncate_spec:
  assumes "sref p" "pos < length p"
  shows "stores p (take pos (content p)) (Truncate p pos)"
proof -
  obtain r where p: "p = content p @ NUL # r" "length p = length (content p) + 1 + length r"
    using assms(1) by (rule sref_split)
  show ?thesis
  proof (cases "pos \<le> length (content p)")
    case True
    then obtain q where "poke p pos NUL = Some q" "holds (length p) (take pos (content p)) q"
      using store_text [OF assms(1) True is_text_simps(1)] assms(2) by (auto simp: blit_def)
    then show ?thesis using assms(2) True p(2) by (simp add: stores_def Truncate_def)
  next
    case False
    then have "p[pos := NUL] = content p @ (NUL # r)[pos - length (content p) := NUL]"
      by (subst p(1)) (simp add: list_update_append)
    moreover have "\<exists>r'. (NUL # r)[pos - length (content p) := NUL] = NUL # r'"
      by (cases "pos - length (content p)") auto
    ultimately obtain r' where "p[pos := NUL] = content p @ NUL # r'" by auto
    then have "holds (length p) (content p) (p[pos := NUL])"
      by (rule holdsI) (use assms(1) in \<open>simp_all only: sref_def length_list_update content_is_text\<close>)
    then show ?thesis using assms(2) False p(2) by (simp add: stores_def Truncate_def poke_def)
  qed
qed

lemma erase_loop_spec:
  assumes "p = a @ m @ b @ NUL # r" "slen = length a + length m + length b" "count = length m"
    and "is_text a" "is_text b" "length p \<le> 2147483647" "length b < fuel" "0 < count"
  shows "\<exists>q. erase_loop fuel (length a) count slen p = Some q \<and> holds (length p) (a @ b) q"
  using assms
proof (induction fuel arbitrary: p a m b)
  case (Suc fuel)
  have small: "(length a + count) mod 4294967296 = length a + count"
    using Suc.prems(1,3,6) by simp
  show ?case
  proof (cases b)
    case Nil
    have "poke p (length a) NUL = Some (a @ NUL # tl (m @ NUL # r))"
      using Suc.prems(1,3,8) Nil by (cases m) (auto simp: poke_def list_update_append)
    moreover have "holds (length p) a (a @ NUL # tl (m @ NUL # r))"
      using Suc.prems Nil by (intro holdsI) (auto simp: sref_def)
    ultimately show ?thesis using Suc.prems Nil small by (simp add: Let_def)
  next
    case (Cons c b')
    obtain x m' where m: "m = x # m'" using Suc.prems(3,8) by (cases m) auto
    let ?p = "(a @ [c]) @ (m' @ [c]) @ b' @ NUL # r"
    have rd: "peek p (length a + count) = Some c"
      using Suc.prems(1,3) Cons by (simp add: peek_def nth_append)
    have wr: "poke p (length a) c = Some ?p"
      using Suc.prems(1) Cons m by (simp add: poke_def list_update_append)
    have len: "length ?p = length p" using Suc.prems(1) Cons m by simp
    have "\<exists>q. erase_loop fuel (length (a @ [c])) count slen ?p = Some q \<and> holds (length ?p) ((a @ [c]) @ b') q"
      by (rule Suc.IH) (use Suc.prems Cons m len in auto)
    then show ?thesis using rd wr small Suc.prems(2,3) Cons len by (auto simp: Let_def)
  qed
qed simp

text \<open>Erasing nothing copies the rest of the text onto itself.\<close>

lemma erase_nothing:
  "length s \<le> 2147483647 \<Longrightarrow> pos \<le> length s \<Longrightarrow> length s - pos < fuel \<Longrightarrow>
   erase_loop fuel pos 0 (length s) (s @ NUL # r) = Some (s @ NUL # r)"
proof (induction fuel arbitrary: pos)
  case (Suc fuel)
  show ?case
  proof (cases "pos < length s")
    case True
    then have "(s @ NUL # r)[pos := s ! pos] = s @ NUL # r" by (simp add: list_update_append)
    then show ?thesis using Suc True by (simp add: Let_def peek_def poke_def nth_append)
  next
    case False
    then show ?thesis using Suc.prems by (simp add: Let_def poke_def)
  qed
qed simp

lemma Erase_none:
  assumes "sref p"
  shows "Erase p pos 0 = Some p"
proof (cases "pos < length (content p)")
  case True
  obtain r where p: "p = content p @ NUL # r" "length p = length (content p) + 1 + length r"
    using assms(1) by (rule sref_split)
  have "erase_loop (length p + 1) pos 0 (length (content p)) (content p @ NUL # r) = Some (content p @ NUL # r)"
    by (rule erase_nothing) (use assms True p(2) in \<open>simp_all add: sref_def\<close>)
  then show ?thesis using True p(1) by (simp add: Erase_def sref_strlen [OF assms(1)])
qed (simp add: Erase_def sref_strlen [OF assms(1)])

lemma Erase_spec:
  assumes "sref p" "pos + count < 4294967296"
  shows "stores p (take pos (content p) @ drop (pos + count) (content p)) (Erase p pos count)"
proof (cases "pos < length (content p) \<and> 0 < count")
  case False
  then have "Erase p pos count = Some p \<and> take pos (content p) @ drop (pos + count) (content p) = content p"
    using Erase_none [OF assms(1)] by (cases "count = 0") (auto simp: Erase_def sref_strlen [OF assms(1)])
  then show ?thesis using sref_len [OF assms(1)] assms(1)
    by (simp add: stores_def holds_def)
next
  case pos: True
  then have inside: "pos < length (content p)" and some: "0 < count" by simp_all
  obtain r where p: "p = content p @ NUL # r" "length p = length (content p) + 1 + length r"
    using assms(1) by (rule sref_split)
  let ?c = "content p" let ?n = "length (content p)"
  have lp: "length p \<le> 2147483647" using assms(1) by (simp add: sref_def)
  show ?thesis
  proof (cases "pos + count \<le> ?n")
    case in_text: True
    have "?c = take pos ?c @ take count (drop pos ?c) @ drop (pos + count) ?c"
      by (metis append_take_drop_id drop_drop add.commute)
    then have "p = take pos ?c @ take count (drop pos ?c) @ drop (pos + count) ?c @ NUL # r"
      by (subst p(1)) simp
    then have "\<exists>q. erase_loop (length p + 1) (length (take pos ?c)) count ?n p = Some q
      \<and> holds (length p) (take pos ?c @ drop (pos + count) ?c) q"
      by (rule erase_loop_spec) (use in_text lp some p(2) in simp_all)
    moreover have "length (take pos ?c) = pos" using inside by simp
    moreover have "take (length p - 1) (take pos ?c @ drop (pos + count) ?c) = take pos ?c @ drop (pos + count) ?c"
      using sref_len [OF assms(1)] in_text by simp
    moreover have "Erase p pos count = erase_loop (length p + 1) pos count ?n p"
      using inside by (simp only: Erase_def sref_strlen [OF assms(1)] Let_def if_True)
    ultimately show ?thesis by (simp only: stores_def)
  next
    case False
    then have "Erase p pos count = poke p pos NUL"
      using inside assms(2) by (simp add: Erase_def sref_strlen [OF assms(1)] Let_def)
    moreover have "stores p (take pos ?c) (poke p pos NUL)"
      using Truncate_spec [OF assms(1), of pos] inside p(2) by (simp add: Truncate_def)
    ultimately show ?thesis using False by simp
  qed
qed

lemma take_last_nth: "0 < k \<Longrightarrow> k \<le> length xs \<Longrightarrow> take k xs = take (k - 1) xs @ [xs ! (k - 1)]"
  by (cases k) (simp_all add: take_Suc_conv_app_nth)

text \<open>When the text does not fit, the buffer ends up full: its last character becomes the terminator.\<close>

lemma terminate_full:
  "is_text x \<Longrightarrow> length x + 1 \<le> 2147483647 \<Longrightarrow>
    poke (x @ [y]) (length x) NUL = Some (x @ [NUL]) \<and> holds (length x + 1) x (x @ [NUL])"
  using holdsI [of "x @ [NUL]" x "[]" "length x + 1"] by (simp add: poke_def list_update_append)

lemma Insert_cut:
  assumes "sref p" "pos < length (content p)" "is_text t" "length p \<le> length (content p) + length t"
  shows "stores_flag p (take pos (content p) @ t @ drop pos (content p)) (sr_Insert p pos t)"
proof -
  let ?c = "content p" let ?n = "length p"
  obtain r where p: "p = ?c @ NUL # r" "?n = length ?c + 1 + length r" using assms(1) by (rule sref_split)
  have n: "?n \<le> 2147483647" using assms(1) by (simp add: sref_def)
  have a: "take pos p = take pos ?c" using assms(2) by (subst p(1)) simp
  define x where "x = take (?n - 1) (take pos ?c @ t @ drop pos ?c)"
  have lx: "length x = ?n - 1" unfolding x_def using assms(2,4) by simp
  have x: "is_text x" unfolding x_def using assms(3) by (intro is_text_take) simp
  define q where "q = (if pos + length t < ?n
      then do { q \<leftarrow> memmove p (pos + length t) pos (?n - pos - length t); blit q pos t }
      else blit p pos (take (?n - pos - 1) t))"
  have "\<exists>y. q = Some (x @ [y])"
  proof (cases "pos + length t < ?n")
    case True
    let ?k = "?n - pos - length t"
    have k: "?k \<le> length (drop pos ?c)" "0 < ?k" using assms(2,4) True by auto
    have src: "take ?k (drop pos p) = take ?k (drop pos ?c)"
      using k(1) assms(2) by (subst p(1)) simp
    have "pos + ?k \<le> ?n" using True by linarith
    then have m: "memmove p (pos + length t) pos ?k = Some (take (pos + length t) p @ take ?k (drop pos ?c) @ [])"
      unfolding memmove_def src using True k(1) p(2) by (simp add: blit_def)
    have am: "take (pos + length t) p = take pos p @ take (length t) (drop pos p)" by (simp add: take_add)
    have "blit (take (pos + length t) p @ take ?k (drop pos ?c) @ []) pos t
        = Some (take pos p @ t @ take ?k (drop pos ?c) @ [])"
      unfolding am append_assoc by (rule blit_mid) (use True assms(2) p(2) in auto)
    then have "q = Some (take pos ?c @ t @ take ?k (drop pos ?c))"
      using True m by (simp add: q_def a)
    moreover have "take ?k (drop pos ?c) = take (?k - 1) (drop pos ?c) @ [drop pos ?c ! (?k - 1)]"
      by (rule take_last_nth [OF k(2,1)])
    moreover have "x = take pos ?c @ t @ take (?k - 1) (drop pos ?c)"
    proof -
      have "min (?n - 1) pos = pos" using True by (intro min_absorb2) simp
      then show ?thesis unfolding x_def using True assms(2) by (simp add: min_absorb1 diff_commute)
    qed
    ultimately show ?thesis by auto
  next
    case False
    have "blit p pos (take (?n - pos - 1) t) = Some (take pos p @ take (?n - pos - 1) t @ drop (?n - 1) p)"
      using False assms(2) p(2) by (simp add: blit_def)
    moreover have "drop (?n - 1) p = [p ! (?n - 1)]"
      using p(2) by (metis Cons_nth_drop_Suc Suc_diff_1 Suc_eq_plus1 add_is_0 diff_less drop_all lessI
          length_greater_0_conv list.size(3) not_gr_zero order_refl zero_less_one zero_neq_one)
    moreover have "x = take pos ?c @ take (?n - pos - 1) t"
      unfolding x_def using False assms(2) p(2) by simp
    ultimately show ?thesis using False a by (auto simp: q_def)
  qed
  then obtain y where y: "q = Some (x @ [y])" by blast
  have fin: "poke (x @ [y]) (?n - 1) NUL = Some (x @ [NUL])" "holds ?n x (x @ [NUL])"
    using terminate_full [OF x, of y] n sref_len [OF assms(1)] lx by (cases ?n, simp, simp)+
  have "sr_Insert p pos t = do { p1 \<leftarrow> q; p2 \<leftarrow> poke p1 (?n - 1) NUL; Some (True, p2) }"
    using assms(2,4) by (simp add: sr_Insert_def Let_def sref_strlen [OF assms(1)] q_def)
  then show ?thesis using y fin assms(2,4) unfolding stores_flag_def x_def [symmetric] by simp
qed

lemma Insert_outside: "sref p \<Longrightarrow> length (content p) < pos \<Longrightarrow> sr_Insert p pos t = Some (False, p)"
  by (simp add: sr_Insert_def Let_def sref_strlen)

lemma Insert_end_full:
  "sref p \<Longrightarrow> length p \<le> length (content p) + length t \<Longrightarrow> sr_Insert p (length (content p)) t = Some (True, p)"
  by (simp add: sr_Insert_def Let_def sref_strlen)

lemma strip_loop_spec:
  assumes "p = s @ replicate j NUL @ NUL # r" "is_text s" "length p \<le> 2147483647"
  shows "\<exists>q. strip_loop (length s) p = Some (length (rev (dropWhile (\<lambda>c. c = CHR '' '') (rev s))), q)
    \<and> holds (length p) (rev (dropWhile (\<lambda>c. c = CHR '' '') (rev s))) q"
  using assms
proof (induction s arbitrary: p j rule: rev_induct)
  case Nil
  then have "p = NUL # tl (replicate j NUL @ NUL # r)" by (cases j) simp_all
  then have "holds (length p) [] p"
    by (intro holdsI [where r = "tl (replicate j NUL @ NUL # r)"]) (use Nil in simp_all)
  then show ?case by simp
next
  case (snoc c s)
  have rd: "peek p (length s) = Some c" using snoc.prems(1) by (simp add: peek_def nth_append)
  show ?case
  proof (cases "c = CHR '' ''")
    case True
    let ?p = "s @ replicate (Suc j) NUL @ NUL # r"
    have wr: "poke p (length s) NUL = Some ?p" using snoc.prems(1) by (simp add: poke_def list_update_append)
    have "\<exists>q. strip_loop (length s) ?p = Some (length (rev (dropWhile (\<lambda>c. c = CHR '' '') (rev s))), q)
      \<and> holds (length ?p) (rev (dropWhile (\<lambda>c. c = CHR '' '') (rev s))) q"
      by (rule snoc.IH [OF refl]) (use snoc.prems in auto)
    then show ?thesis using rd wr True snoc.prems(1) by auto
  next
    case False
    have "holds (length p) (s @ [c]) p"
      using snoc.prems by (intro holdsI [where r = "tl (replicate j NUL @ NUL # r)"]) (cases j; simp)+
    then show ?thesis using rd False by simp
  qed
qed

lemma Strip_spec:
  "sref p \<Longrightarrow> \<exists>q. StripTrailingSpaces p = Some (length (content q), q)
    \<and> holds (length p) (rev (dropWhile (\<lambda>c. c = CHR '' '') (rev (content p)))) q"
proof -
  assume s: "sref p"
  obtain r where p: "p = content p @ NUL # r" using s by (rule sref_split)
  have "p = content p @ replicate 0 NUL @ NUL # r" using p by simp
  from strip_loop_spec [OF this] s show ?thesis
    by (auto simp: StripTrailingSpaces_def sref_strlen sref_def holds_sref)
qed

lemma replace_all_spec:
  assumes "is_text s" "old \<noteq> NUL" "new \<noteq> NUL"
  shows "replace_all old new (s @ NUL # r)
    = (count_list s old, map (\<lambda>c. if c = old then new else c) s @ NUL # r)"
  using assms by (induction s) auto

lemma find_char_spec:
  "find_char c i s = (if c \<in> set s then int (i + length (takeWhile (\<lambda>x. x \<noteq> c) s)) else - 1)"
  by (induction s arbitrary: i) auto

lemma find_string_spec:
  "(find_string m i s = - 1 \<longrightarrow> (\<forall>k\<le>length s. \<not> prefix m (drop k s)))
   \<and> (find_string m i s \<noteq> - 1 \<longrightarrow> (\<exists>k\<le>length s. find_string m i s = int (i + k) \<and> prefix m (drop k s)
        \<and> (\<forall>j<k. \<not> prefix m (drop j s))))"
proof (induction s arbitrary: i)
  case (Cons x s)
  show ?case
  proof (cases "prefix m (x # s)")
    case True
    then show ?thesis by (auto simp: StringStartsWith_prefix intro!: exI [of _ 0])
  next
    case False
    then have f: "find_string m i (x # s) = find_string m (Suc i) s" by (simp add: StringStartsWith_prefix)
    show ?thesis unfolding f
    proof (intro conjI impI)
      assume "find_string m (Suc i) s = - 1"
      then have "\<forall>k\<le>length s. \<not> prefix m (drop k s)" using Cons by blast
      then show "\<forall>k\<le>length (x # s). \<not> prefix m (drop k (x # s))"
        using False by (auto simp: drop_Cons split: nat.split)
    next
      assume "find_string m (Suc i) s \<noteq> - 1"
      then obtain k where k: "k \<le> length s" "find_string m (Suc i) s = int (Suc i + k)" "prefix m (drop k s)"
        "\<forall>j<k. \<not> prefix m (drop j s)" using Cons by blast
      have "\<not> prefix m (drop j (x # s))" if "j < Suc k" for j
        using that k(4) False by (cases j) auto
      then show "\<exists>k\<le>length (x # s). find_string m (Suc i) s = int (i + k) \<and> prefix m (drop k (x # s))
          \<and> (\<forall>j<k. \<not> prefix m (drop j (x # s)))"
        using k(1-3) by (intro exI [of _ "Suc k"]) auto
    qed
  qed
qed auto


lemma shift_in:
  "d \<noteq> [] \<Longrightarrow> \<exists>q. memmove (a @ d @ [NUL]) (length a + 1) (length a) (length d - 1) = Some q
    \<and> poke q (length a) c = Some ((a @ c # butlast d) @ [NUL])"
  by (cases d) (auto simp: memmove_def blit_def poke_def butlast_conv_take list_update_append take_Cons' simp del: butlast.simps)

lemma Insert_char_cut:
  assumes "sref p" "pos < length (content p)" "c \<noteq> NUL" "length p \<le> length (content p) + 1"
  shows "stores_flag p (take pos (content p) @ c # drop pos (content p)) (sr_Insert_char p pos c)"
proof -
  let ?n = "length (content p)"
  define a d where "a = take pos (content p)" and "d = drop pos (content p)"
  have c: "content p = a @ d" by (simp add: a_def d_def)
  have l: "length a = pos" "length d = ?n - pos" "d \<noteq> []" using assms(2) by (simp_all add: a_def d_def)
  obtain r where p: "p = content p @ NUL # r" "length p = ?n + 1 + length r"
    using assms(1) by (rule sref_split)
  have r: "r = []" using p(2) assms(4) by simp
  have e: "p = a @ d @ [NUL]" using p(1) unfolding r c by simp
  have n: "length p = ?n + 1" using p(2) r by simp
  obtain q where q: "memmove p (pos + 1) pos (?n - pos - 1) = Some q"
    "poke q pos c = Some ((a @ c # butlast d) @ [NUL])"
    using shift_in [OF l(3), of a c] unfolding l(1,2) e [symmetric] by blast
  have run: "sr_Insert_char p pos c = Some (True, (a @ c # butlast d) @ [NUL])"
    using assms(2) n q by (simp add: sr_Insert_char_def Let_def sref_strlen [OF assms(1)])
  have x: "take (length p - 1) (a @ c # d) = a @ c # butlast d"
    using l n assms(2) by (simp add: butlast_conv_take take_Cons')
  have t: "is_text (a @ d)" unfolding c [symmetric] by simp
  have "is_text (butlast d)" using t by (simp add: butlast_conv_take)
  then have "holds (length p) (a @ c # butlast d) ((a @ c # butlast d) @ [NUL])"
    using assms(1,2,3) n l t by (intro holdsI [where r = "[]"]) (auto simp: sref_def)
  then show ?thesis using run x n l(1,2) assms(2) by (simp add: stores_flag_def flip: a_def d_def)
qed

text \<open>The first occurrence replaced in a text.\<close>

fun subst_first :: "char \<Rightarrow> char \<Rightarrow> string \<Rightarrow> string" where
  "subst_first old new [] = []"
| "subst_first old new (c # s) = (if c = old then new # s else c # subst_first old new s)"

lemma replace_first_spec:
  assumes "is_text s"
  shows "replace_first old new (s @ NUL # r) = (old \<in> set s, subst_first old new s @ NUL # r)"
  using assms by (induction s) auto

lemma subst_first_text: "is_text s \<Longrightarrow> new \<noteq> NUL \<Longrightarrow> is_text (subst_first old new s)"
  by (induction s) auto

lemma length_subst_first: "length (subst_first old new s) = length s"
  by (induction s) auto

lemma replace_first_holds:
  assumes "sref p" "new \<noteq> NUL"
  shows "fst (replace_first old new p) = (old \<in> set (content p))"
    and "holds (length p) (subst_first old new (content p)) (snd (replace_first old new p))"
proof -
  obtain r where p: "p = content p @ NUL # r" "length p = length (content p) + 1 + length r"
    using assms(1) by (rule sref_split)
  have e: "replace_first old new p = (old \<in> set (content p), subst_first old new (content p) @ NUL # r)"
    by (subst p(1)) (rule replace_first_spec, simp)
  then show "fst (replace_first old new p) = (old \<in> set (content p))" by simp
  show "holds (length p) (subst_first old new (content p)) (snd (replace_first old new p))"
    using e p(2) assms by (auto simp: subst_first_text length_subst_first sref_def intro!: holdsI [where r = r])
qed

lemma replace_all_holds:
  assumes "sref p" "old \<noteq> NUL" "new \<noteq> NUL"
  shows "holds (length p) (map (\<lambda>c. if c = old then new else c) (content p)) (snd (replace_all old new p))"
proof -
  obtain r where p: "p = content p @ NUL # r" "length p = length (content p) + 1 + length r"
    using assms(1) by (rule sref_split)
  have e: "replace_all old new p
      = (count_list (content p) old, map (\<lambda>c. if c = old then new else c) (content p) @ NUL # r)"
    by (subst p(1)) (rule replace_all_spec, use assms in simp_all)
  have "is_text (content p)" by simp
  then have "is_text (map (\<lambda>c. if c = old then new else c) (content p))"
    using assms(3) by (auto simp: is_text_def)
  then show ?thesis
    using e p(2) assms by (auto simp: sref_def intro!: holdsI [where r = r])
qed

lemma Clear_holds: "sref p \<Longrightarrow> \<exists>q. Clear p = Some q \<and> holds (length p) [] q"
  using Truncate_spec [of p 0] by (cases "p = []") (auto simp: Clear_def stores_def Truncate_def sref_def)

section \<open>Any sequence of operations\<close>

text \<open>
  The operations as data, the buffer each leaves, and the reference: the same edits on a plain text
  that may have at most \<open>n - 1\<close> characters.
\<close>

datatype StringRefOp =
    OpPrintf string | OpCatf string | OpLcatf string | OpCopy string | OpCopyn string nat
  | OpCat string | OpLcat string | OpCatn string nat | OpLcatn string nat | OpCatChar char
  | OpStrip | OpPrepend string | OpTruncate nat | OpErase nat nat
  | OpInsertChar nat char | OpInsert nat string | OpReplace char char | OpReplaceAll char char | OpClear

fun run_op :: "StringRefOp \<Rightarrow> StringRef \<Rightarrow> StringRef option" where
  "run_op (OpPrintf t) p = sr_printf p t"
| "run_op (OpCatf t) p = sr_catf p t"
| "run_op (OpLcatf t) p = sr_lcatf p t"
| "run_op (OpCopy t) p = map_option snd (sr_copy p t)"
| "run_op (OpCopyn t k) p = map_option snd (sr_copyn p t k)"
| "run_op (OpCat t) p = map_option snd (sr_cat p t)"
| "run_op (OpLcat t) p = map_option snd (sr_lcat p t)"
| "run_op (OpCatn t k) p = map_option snd (sr_catn p t k)"
| "run_op (OpLcatn t k) p = map_option snd (sr_lcatn p t k)"
| "run_op (OpCatChar c) p = map_option snd (sr_catc p c)"
| "run_op OpStrip p = map_option snd (StripTrailingSpaces p)"
| "run_op (OpPrepend t) p = map_option snd (Prepend p t)"
| "run_op (OpTruncate k) p = Truncate p k"
| "run_op (OpErase k n) p = Erase p k n"
| "run_op (OpInsertChar k c) p = map_option snd (sr_Insert_char p k c)"
| "run_op (OpInsert k t) p = map_option snd (sr_Insert p k t)"
| "run_op (OpReplace a b) p = Some (snd (replace_first a b p))"
| "run_op (OpReplaceAll a b) p = Some (snd (replace_all a b p))"
| "run_op OpClear p = Clear p"

text \<open>Texts have no terminator inside; sums of positions stay within \<open>size_t\<close>.\<close>

fun op_ok :: "StringRefOp \<Rightarrow> bool" where
  "op_ok (OpPrintf t) = is_text t"
| "op_ok (OpCatf t) = is_text t"
| "op_ok (OpLcatf t) = is_text t"
| "op_ok (OpCopy t) = is_text t"
| "op_ok (OpCopyn t k) = is_text t"
| "op_ok (OpCat t) = is_text t"
| "op_ok (OpLcat t) = is_text t"
| "op_ok (OpCatn t k) = is_text t"
| "op_ok (OpLcatn t k) = is_text t"
| "op_ok (OpCatChar c) \<longleftrightarrow> c \<noteq> NUL"
| "op_ok (OpPrepend t) = is_text t"
| "op_ok (OpErase k n) \<longleftrightarrow> k + n < 4294967296"
| "op_ok (OpInsertChar k c) \<longleftrightarrow> c \<noteq> NUL"
| "op_ok (OpInsert k t) = is_text t"
| "op_ok (OpReplace a b) \<longleftrightarrow> b \<noteq> NUL"
| "op_ok (OpReplaceAll a b) \<longleftrightarrow> a \<noteq> NUL \<and> b \<noteq> NUL"
| "op_ok op = True"

fun text_op :: "nat \<Rightarrow> StringRefOp \<Rightarrow> string \<Rightarrow> string" where
  "text_op n (OpPrintf t) s = take (n - 1) t"
| "text_op n (OpCatf t) s = take (n - 1) (s @ t)"
| "text_op n (OpLcatf t) s = take (n - 1) (s @ line_sep s @ t)"
| "text_op n (OpCopy t) s = take (n - 1) t"
| "text_op n (OpCopyn t k) s = take (n - 1) (take k t)"
| "text_op n (OpCat t) s = take (n - 1) (s @ t)"
| "text_op n (OpLcat t) s = take (n - 1) (s @ line_sep s @ t)"
| "text_op n (OpCatn t k) s = take (n - 1) (s @ take k t)"
| "text_op n (OpLcatn t k) s = take (n - 1) (s @ line_sep s @ take k t)"
| "text_op n (OpCatChar c) s = take (n - 1) (s @ [c])"
| "text_op n OpStrip s = rev (dropWhile (\<lambda>c. c = CHR '' '') (rev s))"
| "text_op n (OpPrepend t) s = (if length t + length s < n then t @ s else s)"
| "text_op n (OpTruncate k) s = take k s"
| "text_op n (OpErase k m) s = take k s @ drop (k + m) s"
| "text_op n (OpInsertChar k c) s =
     (if k \<le> length s then take (n - 1) (take k s @ c # drop k s) else s)"
| "text_op n (OpInsert k t) s =
     (if length s < k \<or> (k = length s \<and> n \<le> length s + length t) then s
      else take (n - 1) (take k s @ t @ drop k s))"
| "text_op n (OpReplace a b) s = subst_first a b s"
| "text_op n (OpReplaceAll a b) s = map (\<lambda>c. if c = a then b else c) s"
| "text_op n OpClear s = []"

lemma stores_run: "stores p t r \<Longrightarrow> \<exists>q. r = Some q \<and> holds (length p) (take (length p - 1) t) q"
  by (simp add: stores_def)

lemma stores_flag_run:
  "stores_flag p t r \<Longrightarrow> \<exists>q. map_option snd r = Some q \<and> holds (length p) (take (length p - 1) t) q"
  by (auto simp: stores_flag_def)

lemmas op_runs = stores_run [OF printf_stores] stores_run [OF catf_stores] stores_run [OF lcatf_stores]
  stores_flag_run [OF copy_stores] stores_flag_run [OF cat_stores] stores_flag_run [OF lcat_stores]
  stores_flag_run [OF catc_stores]

lemma fits_take: "sref p \<Longrightarrow> take (length p - Suc 0) (take k (content p)) = take k (content p)"
  using sref_len [of p] by (intro take_all) simp

lemma run_Prepend:
  "sref p \<Longrightarrow> is_text t \<Longrightarrow> \<exists>q. run_op (OpPrepend t) p = Some q
    \<and> holds (length p) (text_op (length p) (OpPrepend t) (content p)) q"
  using Prepend_spec [of p t] stores_flag_run [of p "t @ content p" "Prepend p t"]
  by (auto simp: sref_holds split: if_splits)

lemma run_Truncate:
  "sref p \<Longrightarrow> \<exists>q. run_op (OpTruncate k) p = Some q
    \<and> holds (length p) (text_op (length p) (OpTruncate k) (content p)) q"
proof (cases "k < length p")
  case True
  assume "sref p"
  then show ?thesis using stores_run [OF Truncate_spec [OF _ True]] by (simp add: fits_take del: take_take)
next
  case False
  assume s: "sref p"
  then show ?thesis using False sref_len [OF s] by (simp add: Truncate_def holds_def)
qed

lemma run_Erase:
  "sref p \<Longrightarrow> op_ok (OpErase k m) \<Longrightarrow> \<exists>q. run_op (OpErase k m) p = Some q
    \<and> holds (length p) (text_op (length p) (OpErase k m) (content p)) q"
proof -
  assume s: "sref p" "op_ok (OpErase k m)"
  have "length (take k (content p) @ drop (k + m) (content p)) \<le> length p - 1"
    using sref_len [OF s(1)] by auto
  then have "take (length p - 1) (take k (content p) @ drop (k + m) (content p))
      = take k (content p) @ drop (k + m) (content p)" by (rule take_all)
  then show ?thesis using stores_run [OF Erase_spec [OF s(1), of k m]] s(2) by simp
qed

lemma run_InsertChar:
  "sref p \<Longrightarrow> c \<noteq> NUL \<Longrightarrow> \<exists>q. run_op (OpInsertChar k c) p = Some q
    \<and> holds (length p) (text_op (length p) (OpInsertChar k c) (content p)) q"
proof -
  assume s: "sref p" "c \<noteq> NUL"
  consider "length (content p) < k" | "k \<le> length (content p)" "length (content p) + 1 < length p"
    | "k < length (content p)" "length p \<le> length (content p) + 1"
    | "k = length (content p)" "length p \<le> length (content p) + 1" by linarith
  then show ?thesis
  proof cases
    case 1
    then show ?thesis using s by (simp add: sr_Insert_char_def Let_def sref_strlen holds_def)
  next
    case 2
    then show ?thesis using stores_flag_run [OF Insert_char_fits [OF s(1) 2(1) s(2) 2(2)]] by simp
  next
    case 3
    then show ?thesis using stores_flag_run [OF Insert_char_cut [OF s(1) 3(1) s(2) 3(2)]] by simp
  next
    case 4
    then show ?thesis using s sref_len [OF s(1)]
      by (simp add: sr_Insert_char_def Let_def sref_strlen holds_def)
  qed
qed

lemma run_Insert:
  "sref p \<Longrightarrow> is_text t \<Longrightarrow> \<exists>q. run_op (OpInsert k t) p = Some q
    \<and> holds (length p) (text_op (length p) (OpInsert k t) (content p)) q"
proof -
  assume s: "sref p" "is_text t"
  consider "length (content p) < k" | "k \<le> length (content p)" "length (content p) + length t < length p"
    | "k < length (content p)" "length p \<le> length (content p) + length t"
    | "k = length (content p)" "length p \<le> length (content p) + length t" by linarith
  then show ?thesis
  proof cases
    case 1
    then show ?thesis using s by (simp add: Insert_outside holds_def)
  next
    case 2
    then show ?thesis using stores_flag_run [OF Insert_fits [OF s(1) 2(1) s(2) 2(2)]] by auto
  next
    case 3
    then show ?thesis using stores_flag_run [OF Insert_cut [OF s(1) 3(1) s(2) 3(2)]] by auto
  next
    case 4
    then show ?thesis using s by (simp add: Insert_end_full holds_def)
  qed
qed

lemma run_op_refines:
  assumes "sref p" "op_ok op"
  shows "\<exists>q. run_op op p = Some q \<and> holds (length p) (text_op (length p) op (content p)) q"
proof (cases op)
  case OpStrip
  then show ?thesis using Strip_spec [OF assms(1)] by auto
next
  case OpClear
  then show ?thesis using Clear_holds [OF assms(1)] by auto
next
  case (OpCatChar c)
  then show ?thesis using stores_flag_run [OF catc_stores [OF assms(1)]] assms(2) by simp
next
  case (OpPrepend t)
  then show ?thesis using run_Prepend [OF assms(1)] assms(2) by simp
next
  case (OpInsert k t)
  then show ?thesis using run_Insert [OF assms(1)] assms(2) by simp
next
  case (OpTruncate k)
  then show ?thesis using run_Truncate [OF assms(1)] by simp
next
  case (OpErase k m)
  then show ?thesis using run_Erase assms by blast
next
  case (OpInsertChar k c)
  then show ?thesis using run_InsertChar assms by simp
next
  case (OpReplace a b)
  then show ?thesis using replace_first_holds [OF assms(1)] assms(2) by simp
next
  case (OpReplaceAll a b)
  then show ?thesis using replace_all_holds [OF assms(1)] assms(2) by simp
qed (use assms in \<open>simp_all only: op_ok.simps run_op.simps
  text_op.simps op_runs copyn_cat catn_cat lcatn_lcat is_text_take\<close>)

interpretation sr: refinement run_op "text_op n" "\<lambda>p s. holds n s p" op_ok for n
  by unfold_locales (use run_op_refines in \<open>force simp: holds_def\<close>)

text \<open>
  C21. Every \<open>StringRef\<close> operation refines its counterpart on plain texts of at most \<open>Capacity\<close>
  characters, in any sequence: no operation reads or writes outside the storage, the buffer keeps its
  size and a terminator (the class invariant), and its text is the one the operations describe, cut at
  the capacity. What is stored holds no zero byte, and the position and the count given to \<open>Erase\<close> have a sum that
  fits in 32 bits: \<open>Erase_wraps\<close> shows what happens when it does not.
\<close>

theorem stringref_refines_text:
  assumes "sref p" "\<forall>op\<in>set ops. op_ok op"
  shows "\<exists>q. run_all run_op ops p = Some q \<and> sref q \<and> length q = length p
    \<and> content q = fold (text_op (length p)) ops (content p)"
proof -
  have "holds (length p) (content p) p" using assms(1) by (simp add: holds_def)
  from sr.run_refines [OF this assms(2)] show ?thesis by (auto simp: holds_def)
qed

text \<open>
  A position and a count whose sum wraps make \<open>Erase\<close> copy from before the position, over the terminator and on, and write
  behind the storage.
\<close>

lemma Erase_wraps: "Erase (''abcde'' @ [NUL]) 3 0xFFFFFFFE = None"
proof -
  have n: "sr_strlen (''abcde'' @ [NUL]) = 5" by (simp add: sr_strlen_def Strnlen_def)
  have f: "length (''abcde'' @ [NUL]) + 1 = Suc (Suc (Suc (Suc (Suc (Suc (Suc 0))))))" by simp
  show ?thesis unfolding Erase_def n f by (simp add: Let_def peek_def poke_def)
qed

theorem stringref_refines_text_witness:
  "\<exists>q. run_all run_op [OpPrintf ''Tool'', OpCat '' 1 '', OpStrip, OpInsert 0 ''Set '', OpErase 0 1] (replicate 8 NUL) = Some q
     \<and> sref q \<and> length q = 8 \<and> content q = ''et Too''"
  using stringref_refines_text [of "replicate 8 NUL"
      "[OpPrintf ''Tool'', OpCat '' 1 '', OpStrip, OpInsert 0 ''Set '', OpErase 0 1]"]
  by (simp add: sref_def content_def is_text_def)

text \<open>
  The appending operations report truth: \<open>cat\<close>, \<open>catn\<close>, \<open>lcat\<close>, \<open>lcatn\<close>, \<open>copy\<close> and \<open>cat(char)\<close>
  answer true exactly when the whole text did not fit, and the buffer then holds as much as fits.
\<close>

theorem stringref_overflow_flag:
  assumes "sref p" "is_text t" "c \<noteq> NUL"
  shows "stores_flag p t (sr_copy p t) \<and> stores_flag p (take k t) (sr_copyn p t k)
    \<and> stores_flag p (content p @ t) (sr_cat p t) \<and> stores_flag p (content p @ take k t) (sr_catn p t k)
    \<and> stores_flag p (content p @ line_sep (content p) @ t) (sr_lcat p t)
    \<and> stores_flag p (content p @ line_sep (content p) @ take k t) (sr_lcatn p t k)
    \<and> stores_flag p (content p @ [c]) (sr_catc p c)"
  unfolding copyn_cat catn_cat lcatn_lcat
  by (intro conjI copy_stores cat_stores lcat_stores catc_stores is_text_take assms)

theorem stringref_overflow_flag_witness:
  "stores_flag (''ab'' @ [NUL, NUL]) (''ab'' @ [newline] @ ''cd'') (sr_lcat (''ab'' @ [NUL, NUL]) ''cd'')
   \<and> sr_lcat (''ab'' @ [NUL, NUL]) ''cd'' = Some (True, ''ab'' @ [newline, NUL])"
  using stringref_overflow_flag [of "''ab'' @ [NUL, NUL]" "''cd''" "CHR ''x''" 0]
  by (simp add: sref_def content_def is_text_def line_sep_def newline_def sr_lcat_def needs_newline_def
      IsEmpty_def sr_strlen_def Strnlen_def sr_catc_def poke_def sr_cat_def blit_def)

text \<open>
  \<open>Contains\<close> finds the first occurrence of a text, and answers -1 exactly when there is none.
\<close>

theorem stringref_contains:
  "case Contains p m of i \<Rightarrow>
     if i = - 1 then \<forall>k\<le>length (content p). \<not> prefix m (drop k (content p))
     else 0 \<le> i \<and> nat i \<le> length (content p) \<and> prefix m (drop (nat i) (content p))
       \<and> (\<forall>j<nat i. \<not> prefix m (drop j (content p)))"
  using find_string_spec [of m 0 "content p"] by (auto simp: Contains_def)

theorem stringref_contains_witness: "Contains ''aab-aabc'' ''aabc'' = 4"
  using stringref_contains [of "''aab-aabc''" "''aabc''"]
  by (simp add: Contains_def content_def)

text \<open>
  The free function \<open>StringContains\<close> is not equivalent to it: what it returns is an occurrence, but it
  misses occurrences that start inside a failed attempt, although its contract promises to find any.
\<close>

theorem string_contains_incomplete:
  "(is_text m \<longrightarrow> m \<noteq> [] \<longrightarrow> StringContains s m \<noteq> - 1 \<longrightarrow>
      (\<exists>k. StringContains s m = int k \<and> prefix m (drop k s)))
   \<and> StringContains ''##0'' ''#0'' = - 1 \<and> Contains (''##0'' @ [NUL]) ''#0'' = 1"
proof (intro conjI impI)
  assume a: "is_text m" "m \<noteq> []" "StringContains s m \<noteq> - 1"
  obtain k where k: "StringContains s m = int k" "take (length m) (drop k s) = m"
    using StringContains_sound [OF a] by blast
  then have "prefix m (drop k s)" by (metis take_is_prefix)
  then show "\<exists>k. StringContains s m = int k \<and> prefix m (drop k s)" using k(1) by blast
qed (simp_all add: StringContains_def char_at_def Contains_def content_def)

theorem string_contains_incomplete_witness:
  "StringContains ''ab#0'' ''#0'' = 2 \<and> prefix ''#0'' (drop 2 ''ab#0'')"
  using string_contains_incomplete [of "''#0''" "''ab#0''"]
  by (simp add: StringContains_def char_at_def is_text_def)

end
