(* ===== verification/IspUpdater.thy ===== *)
theory IspUpdater
  imports CStrings LpcHeater
begin

text \<open>
  The in-system programmer of the coprocessor, \<open>LpcIspUpdater\<close> of \<open>Hardware/SAM4E/LpcIspUpdater.cpp\<close>:
  it resets the LPC1115 into its boot ROM and writes a firmware image over the UART.

  The state is the millisecond clock, the bytes waiting in the UART's receive buffer, the host interface
  (\<open>LpcInterface\<close>) and the log of what the updater did to the outside: the texts it wrote, the pins it
  drove, the messages it gave. The surroundings are an environment: how long the \<open>k\<close>-th wait takes and
  which bytes arrive meanwhile, how far apart the two clock readings of a turn of \<open>WaitForLine\<close> are, and
  which file accesses fail. The environment is arbitrary, so a theorem
  for all environments is one for every behaviour of the boot ROM. Loops that wait are partial functions:
  \<open>None\<close> means that they never return.
\<close>

section \<open>Constants\<close>

definition DefaultFirmwareFile :: string where "DefaultFirmwareFile = ''Lpc1115Firmware.bin''"
definition FIRMWARE_DIRECTORY :: string where "FIRMWARE_DIRECTORY = ''0:/firmware/''"
definition FlashSize :: u32 where "FlashSize = 64 * 1024"
definition RamTop :: u32 where "RamTop = 0x10002000"
definition RamBuffer :: u32 where "RamBuffer = 0x10000300"
definition PartId :: u32 where "PartId = 0x00050080"
definition SectorSize :: u32 where "SectorSize = 4096"
definition NumSectors :: u32 where "NumSectors = FlashSize div SectorSize"
definition TransferSize :: u32 where "TransferSize = 512"
definition UuencodeLineBytes :: nat where "UuencodeLineBytes = 45"
definition CommandTimeout :: u32 where "CommandTimeout = 5000"
definition SyncTimeout :: u32 where "SyncTimeout = 1000"
definition MaxUuencodeAttempts :: nat where "MaxUuencodeAttempts = 3"
definition CrpNone :: u32 where "CrpNone = 0xFFFFFFFF"
definition Crp1 :: u32 where "Crp1 = 0x12345678"
definition Crp2 :: u32 where "Crp2 = 0x87654321"
definition Crp3 :: u32 where "Crp3 = 0x43218765"
definition CrpNoIsp :: u32 where "CrpNoIsp = 0x4E697370"
definition CrpOffset :: u32 where "CrpOffset = 0x2FC"

definition IsCrpProtected :: "u32 \<Rightarrow> bool" where
  "IsCrpProtected v \<longleftrightarrow> v = Crp1 \<or> v = Crp2 \<or> v = Crp3 \<or> v = CrpNoIsp"

definition FirmwareFilename :: "string \<Rightarrow> string" where
  "FirmwareFilename name = (if name = [] then DefaultFirmwareFile else name)"

section \<open>State and environment\<close>

datatype IspEvent =
    Tx string              \<comment> \<open>a text written to the UART\<close>
  | IspPin bool            \<comment> \<open>\<open>LpcIspPin\<close> driven\<close>
  | ResetPin bool          \<comment> \<open>\<open>LpcResetPin\<close> driven\<close>
  | Message string

record Isp =
  i_clock :: u32
  i_inbox :: string
  i_waits :: nat
  i_turns :: nat
  i_accesses :: nat
  i_log :: "IspEvent list"
  i_host :: Host

record IspEnv =
  env_delay :: "nat \<Rightarrow> u32 \<times> string"   \<comment> \<open>time that passes in a delay of one tick or more, bytes that arrive\<close>
  env_write :: "nat \<Rightarrow> u32 \<times> string"   \<comment> \<open>the same for writing and flushing the UART\<close>
  env_gap :: "nat \<Rightarrow> u32"              \<comment> \<open>the time between the two clock readings of a turn of \<open>WaitForLine\<close>\<close>
  env_fails :: "nat \<Rightarrow> bool"           \<comment> \<open>whether the \<open>k\<close>-th file access fails\<close>

definition pass :: "u32 \<times> string \<Rightarrow> Isp \<Rightarrow> Isp" where
  "pass w s = s\<lparr>i_clock := i_clock s + fst w, i_inbox := i_inbox s @ snd w, i_waits := i_waits s + 1\<rparr>"

definition isp_delay :: "IspEnv \<Rightarrow> Isp \<Rightarrow> Isp" where
  "isp_delay env s = pass (env_delay env (i_waits s)) s"

definition event :: "IspEvent \<Rightarrow> Isp \<Rightarrow> Isp" where
  "event e s = s\<lparr>i_log := i_log s @ [e]\<rparr>"

definition uart_write :: "IspEnv \<Rightarrow> string \<Rightarrow> Isp \<Rightarrow> Isp" where
  "uart_write env t s = pass (env_write env (i_waits s)) (event (Tx t) s)"

section \<open>Reading lines\<close>

datatype drained = Line string string | Overlong string | Pending string

text \<open>
  Taking bytes from the receive buffer: up to a line break after at least one character, to a line that
  would not fit in a buffer of \<open>cap\<close> characters, or to the end of what has arrived.
\<close>

fun drain :: "nat \<Rightarrow> string \<Rightarrow> string \<Rightarrow> drained" where
  "drain cap [] line = Pending line"
| "drain cap (c # rx) line =
     (if c = CHR 0x0D then drain cap rx line
      else if c = CHR 0x0A then (if line = [] then drain cap rx line else Line line rx)
      else if cap \<le> length line + 1 then Overlong rx
      else drain cap rx (line @ [c]))"

text \<open>The line is the C string in the buffer: a zero byte in it ends it.\<close>

partial_function (option) read_loop ::
  "IspEnv \<Rightarrow> nat \<Rightarrow> u32 \<Rightarrow> u32 \<Rightarrow> string \<Rightarrow> Isp \<Rightarrow> (string option \<times> Isp) option" where
  "read_loop env cap timeout started line s =
    (if i_clock s - started < timeout then
       (case drain cap (i_inbox s) line of
          Line l rx \<Rightarrow> Some (Some (content l), s\<lparr>i_inbox := rx\<rparr>)
        | Overlong rx \<Rightarrow> Some (None, s\<lparr>i_inbox := rx\<rparr>)
        | Pending l \<Rightarrow> read_loop env cap timeout started l (isp_delay env (s\<lparr>i_inbox := []\<rparr>)))
     else Some (None, s))"

definition isp_ReadLine :: "IspEnv \<Rightarrow> nat \<Rightarrow> u32 \<Rightarrow> Isp \<Rightarrow> (string option \<times> Isp) option" where
  "isp_ReadLine env cap timeout s = read_loop env cap timeout (i_clock s) [] s"

text \<open>
  A turn of \<open>WaitForLine\<close> reads the clock twice, for the test of the loop and for the time that remains. If
  \<open>env_gap\<close> carries the second reading past the limit, the subtraction wraps round.
\<close>

definition second_reading :: "IspEnv \<Rightarrow> Isp \<Rightarrow> Isp" where
  "second_reading env s = s\<lparr>i_clock := i_clock s + env_gap env (i_turns s), i_turns := i_turns s + 1\<rparr>"

partial_function (option) wait_loop ::
  "IspEnv \<Rightarrow> string \<Rightarrow> u32 \<Rightarrow> u32 \<Rightarrow> Isp \<Rightarrow> (bool \<times> Isp) option" where
  "wait_loop env expected timeout started s =
    (if i_clock s - started < timeout then
       (let s0 = second_reading env s; remaining = timeout - (i_clock s0 - started) in
        Option.bind (isp_ReadLine env 96 remaining s0) (\<lambda>(r, s1).
         case r of
           None \<Rightarrow> Some (False, s1)
         | Some line \<Rightarrow>
             if dropWhile (\<lambda>c. c = CHR ''?'') line = expected then Some (True, s1)
             else wait_loop env expected timeout started s1))
     else Some (False, s))"

definition WaitForLine :: "IspEnv \<Rightarrow> string \<Rightarrow> u32 \<Rightarrow> Isp \<Rightarrow> (bool \<times> Isp) option" where
  "WaitForLine env expected timeout s = wait_loop env expected timeout (i_clock s) s"

section \<open>Commands\<close>

definition WriteText :: "IspEnv \<Rightarrow> string \<Rightarrow> Isp \<Rightarrow> Isp" where
  "WriteText env t s = uart_write env t s"

definition SendCommand :: "IspEnv \<Rightarrow> string \<Rightarrow> Isp \<Rightarrow> (bool \<times> Isp) option" where
  "SendCommand env t s = WaitForLine env ''0'' CommandTimeout (WriteText env t s)"

definition crlf :: string where "crlf = [CHR 0x0D, CHR 0x0A]"

text \<open>The command letter and its numbers, in a buffer of 64 characters.\<close>

definition formatted :: "char \<Rightarrow> u32 list \<Rightarrow> string" where
  "formatted c args = take 63 (c # concat (map (\<lambda>a. CHR '' '' # dec (unat a)) args) @ crlf)"

definition SendFormattedCommand :: "IspEnv \<Rightarrow> char \<Rightarrow> u32 list \<Rightarrow> Isp \<Rightarrow> (bool \<times> Isp) option" where
  "SendFormattedCommand env c args s = SendCommand env (formatted c args) s"

definition SetBootPins :: "IspEnv \<Rightarrow> bool \<Rightarrow> Isp \<Rightarrow> Isp" where
  "SetBootPins env ispLow s =
    (let s1 = event (ResetPin False) (event (IspPin (\<not> ispLow)) s);
         s2 = event (ResetPin True) (isp_delay env s1);
         s3 = isp_delay env s2
     in if ispLow then event (IspPin True) s3 else s3)"

text \<open>Two steps, the second only when the first succeeds.\<close>

definition and_then :: "(bool \<times> Isp) option \<Rightarrow> (Isp \<Rightarrow> (bool \<times> Isp) option) \<Rightarrow> (bool \<times> Isp) option" where
  "and_then m f = Option.bind m (\<lambda>(ok, s). if ok then f s else Some (False, s))"

definition Synchronize :: "IspEnv \<Rightarrow> Isp \<Rightarrow> (bool \<times> Isp) option" where
  "Synchronize env s =
    and_then (and_then (and_then
      (WaitForLine env ''Synchronized'' SyncTimeout (WriteText env ''?'' (s\<lparr>i_inbox := []\<rparr>)))
      (\<lambda>s. WaitForLine env ''OK'' SyncTimeout (WriteText env (''Synchronized'' @ crlf) s)))
      (\<lambda>s. WaitForLine env ''OK'' SyncTimeout (WriteText env (''12000'' @ crlf) s)))
      (\<lambda>s. WaitForLine env ''0'' SyncTimeout (WriteText env (''A 0'' @ crlf) s))"

fun parse_loop :: "string \<Rightarrow> u32 \<Rightarrow> u32 option" where
  "parse_loop [] parsed = Some parsed"
| "parse_loop (c # t) parsed =
     (if of_char c < (48 :: nat) \<or> of_char c > (57 :: nat) then None
      else let digit = (of_nat (of_char c - 48) :: u32) in
        if parsed > (0xFFFFFFFF - digit) div 10 then None
        else parse_loop t (parsed * 10 + digit))"

definition ParseU32 :: "string \<Rightarrow> u32 option" where
  "ParseU32 t = (if t = [] then None else parse_loop t 0)"

definition CheckPartId :: "IspEnv \<Rightarrow> Isp \<Rightarrow> (bool \<times> Isp) option" where
  "CheckPartId env s =
    and_then (WaitForLine env ''0'' CommandTimeout (WriteText env (''J'' @ crlf) s)) (\<lambda>s.
      Option.bind (isp_ReadLine env 32 CommandTimeout s) (\<lambda>(r, s1).
        Some (case r of None \<Rightarrow> False | Some line \<Rightarrow> ParseU32 line = Some PartId, s1)))"

section \<open>Sending data\<close>

definition UuencodeChar :: "u8 \<Rightarrow> char" where
  "UuencodeChar v = (let w = v AND 0x3F in if w = 0 then CHR 0x60 else char_of (unat (w + 0x20)))"

text \<open>Three bytes as four characters; bytes past the end of the line count as zero.\<close>

definition uu_group :: "u8 \<Rightarrow> u8 \<Rightarrow> u8 \<Rightarrow> string" where
  "uu_group a b c = [UuencodeChar (drop_bit 2 a), UuencodeChar (push_bit 4 a OR drop_bit 4 b),
     UuencodeChar (push_bit 2 b OR drop_bit 6 c), UuencodeChar c]"

fun uu_groups :: "u8 list \<Rightarrow> string" where
  "uu_groups [] = []"
| "uu_groups [a] = uu_group a 0 0"
| "uu_groups [a, b] = uu_group a b 0"
| "uu_groups (a # b # c # r) = uu_group a b c @ uu_groups r"

definition uu_line :: "u8 list \<Rightarrow> string" where
  "uu_line xs = UuencodeChar (of_nat (length xs)) # uu_groups xs @ crlf"

function uu_lines :: "u8 list \<Rightarrow> string list" where
  "uu_lines xs = (if xs = [] then [] else uu_line (take UuencodeLineBytes xs) # uu_lines (drop UuencodeLineBytes xs))"
  by pat_completeness auto
termination by (relation "measure length") (auto simp: UuencodeLineBytes_def)

declare uu_lines.simps [simp del]

definition uu_checksum :: "u8 list \<Rightarrow> u32" where
  "uu_checksum xs = fold (\<lambda>b n. n + ucast b) xs 0"

definition checksum_line :: "u8 list \<Rightarrow> string" where
  "checksum_line xs = take 23 (dec (unat (uu_checksum xs)) @ crlf)"

fun uu_attempts :: "nat \<Rightarrow> IspEnv \<Rightarrow> u8 list \<Rightarrow> Isp \<Rightarrow> (bool \<times> Isp) option" where
  "uu_attempts 0 env xs s = Some (False, s)"
| "uu_attempts (Suc n) env xs s =
    Option.bind (isp_ReadLine env 16 CommandTimeout
        (WriteText env (checksum_line xs) (fold (uart_write env) (uu_lines xs) s))) (\<lambda>(r, s1).
      case r of
        None \<Rightarrow> Some (False, s1)
      | Some response \<Rightarrow>
          if response = ''OK'' then Some (True, s1)
          else if response \<noteq> ''RESEND'' then Some (False, s1)
          else uu_attempts n env xs s1)"

definition SendUuencodedBlock :: "IspEnv \<Rightarrow> u8 list \<Rightarrow> Isp \<Rightarrow> (bool \<times> Isp) option" where
  "SendUuencodedBlock env xs s = uu_attempts MaxUuencodeAttempts env xs s"

section \<open>The image\<close>

text \<open>A seek and a read of \<open>n\<close> bytes; a read that delivers fewer counts as failed, as every caller treats it.\<close>

definition file_read :: "IspEnv \<Rightarrow> u8 list \<Rightarrow> nat \<Rightarrow> nat \<Rightarrow> Isp \<Rightarrow> u8 list option \<times> Isp" where
  "file_read env img off n s =
    (if env_fails env (i_accesses s) \<or> length img < off + n then None else Some (take n (drop off img)),
     s\<lparr>i_accesses := i_accesses s + 1\<rparr>)"

definition ProgramBlock :: "IspEnv \<Rightarrow> u8 list \<Rightarrow> u32 \<Rightarrow> u32 \<Rightarrow> Isp \<Rightarrow> (bool \<times> Isp) option" where
  "ProgramBlock env img imageLength flashOffset s =
    (let bytesToRead = (if imageLength - flashOffset < TransferSize then imageLength - flashOffset else TransferSize);
         sector = flashOffset div SectorSize
     in case file_read env img (unat flashOffset) (unat bytesToRead) s of
          (None, s1) \<Rightarrow> Some (False, s1)
        | (Some bytes, s1) \<Rightarrow>
            let data = bytes @ replicate (unat TransferSize - length bytes) 0xFF in
            and_then (and_then (and_then (and_then
              (SendFormattedCommand env CHR ''W'' [RamBuffer, TransferSize] s1)
              (SendUuencodedBlock env data))
              (SendFormattedCommand env CHR ''P'' [sector, sector]))
              (SendFormattedCommand env CHR ''C'' [flashOffset, RamBuffer, TransferSize]))
              (\<lambda>s. if flashOffset = 0 then Some (True, s)
                   else SendFormattedCommand env CHR ''M'' [flashOffset, RamBuffer, TransferSize] s))"

partial_function (option) ProgramRange ::
  "IspEnv \<Rightarrow> u8 list \<Rightarrow> u32 \<Rightarrow> u32 \<Rightarrow> u32 \<Rightarrow> Isp \<Rightarrow> (bool \<times> Isp) option" where
  "ProgramRange env img imageLength offset end s =
    (if offset < end then
       Option.bind (ProgramBlock env img imageLength offset s) (\<lambda>(ok, s1).
         if ok then ProgramRange env img imageLength (offset + TransferSize) end s1 else Some (False, s1))
     else Some (True, s))"

definition le32 :: "u8 list \<Rightarrow> u32" where
  "le32 b = ucast (b ! 0) + 256 * ucast (b ! 1) + 65536 * ucast (b ! 2) + 16777216 * ucast (b ! 3)"

text \<open>A firmware image is accepted (\<open>None\<close>) or rejected with a reply.\<close>

definition vectors_invalid :: "u32 \<Rightarrow> u8 list \<Rightarrow> bool" where
  "vectors_invalid imgLength bytes =
    (let vectors = map (\<lambda>i. le32 (drop (4 * i) bytes)) [0..<8]; resetVector = vectors ! 1 in
     vectors ! 0 \<noteq> RamTop \<or> resetVector AND 1 = 0 \<or> resetVector AND NOT 1 \<ge> imgLength \<or> sum_list vectors \<noteq> 0)"

definition ValidateFirmware :: "IspEnv \<Rightarrow> u8 list \<Rightarrow> string \<Rightarrow> Isp \<Rightarrow> string option \<times> Isp" where
  "ValidateFirmware env img filename s =
    (let imgLength = (of_nat (length img) :: u32) in
     if imgLength < 32 \<or> imgLength > FlashSize
     then (Some (''LPC firmware \"'' @ filename @ ''\" has invalid size''), s)
     else case file_read env img 0 32 s of
       (None, s1) \<Rightarrow> (Some (''Unable to read LPC firmware \"'' @ filename @ ''\"''), s1)
     | (Some bytes, s1) \<Rightarrow>
         if vectors_invalid imgLength bytes
         then (Some (''LPC firmware \"'' @ filename @ ''\" has an invalid vector table''), s1)
         else
           (case (if imgLength > CrpOffset then file_read env img (unat CrpOffset) 4 s1
                  else (Some (replicate 4 0xFF), s1)) of
              (None, s2) \<Rightarrow> (Some (''Unable to read LPC firmware CRP word from \"'' @ filename @ ''\"''), s2)
            | (Some crp, s2) \<Rightarrow>
                (if IsCrpProtected (le32 crp)
                 then Some (''LPC firmware \"'' @ filename @ ''\" enables Code Read Protection and cannot be installed'')
                 else None, s2)))"

text \<open>\<open>file\<close> is what opening the firmware file delivers: the image, or nothing.\<close>

definition CheckFirmwareFile :: "IspEnv \<Rightarrow> u8 list option \<Rightarrow> string \<Rightarrow> Isp \<Rightarrow> (GCodeResult \<times> string) \<times> Isp" where
  "CheckFirmwareFile env file name s =
    (let filename = FirmwareFilename name in
     case file of
       None \<Rightarrow> ((ResError, ''LPC firmware \"'' @ FIRMWARE_DIRECTORY @ filename @ ''\" not found''), s)
     | Some img \<Rightarrow>
         (case ValidateFirmware env img filename s of
            (None, s1) \<Rightarrow> ((ResOk, ''''), s1)
          | (Some reply, s1) \<Rightarrow> ((ResError, reply), s1)))"

section \<open>The update\<close>

definition lf :: string where "lf = [CHR 0x0A]"

definition UpdateComplete :: IspEvent where
  "UpdateComplete = Message (''LPC1115 firmware update complete'' @ lf)"

definition UpdateFailed :: IspEvent where
  "UpdateFailed = Message (''LPC1115 firmware update failed; retry M997 S3 to re-enter ROM ISP'' @ lf)"

definition program_all :: "IspEnv \<Rightarrow> u8 list \<Rightarrow> u32 \<Rightarrow> u32 \<Rightarrow> Isp \<Rightarrow> (bool \<times> Isp) option" where
  "program_all env img imageLength programLength s =
    and_then (and_then (and_then (and_then (and_then (and_then (and_then
      (Synchronize env s)
      (SendCommand env (''U 23130'' @ crlf)))
      (CheckPartId env))
      (SendFormattedCommand env CHR ''P'' [0, NumSectors - 1]))
      (SendFormattedCommand env CHR ''E'' [0, NumSectors - 1]))
      (\<lambda>s. if programLength > SectorSize
           then ProgramRange env img imageLength SectorSize programLength s else Some (True, s)))
      (\<lambda>s. if programLength > TransferSize
           then ProgramRange env img imageLength TransferSize
                  (if programLength < SectorSize then programLength else SectorSize) s
           else Some (True, s)))
      (ProgramBlock env img imageLength 0)"

definition Update :: "IspEnv \<Rightarrow> u8 list option \<Rightarrow> string \<Rightarrow> Isp \<Rightarrow> Isp option" where
  "Update env file name s =
    (let filename = FirmwareFilename name in
     case file of
       None \<Rightarrow> Some (event (Message (''LPC update: can'' @ CHR 0x27 # ''t open '' @ filename @ lf)) s)
     | Some img \<Rightarrow>
         (case ValidateFirmware env img filename s of
            (Some reply, s1) \<Rightarrow> Some (event (Message (''LPC update: '' @ take 100 reply @ lf)) s1)
          | (None, s1) \<Rightarrow>
              let imageLength = of_nat (length img);
                  programLength = (imageLength + TransferSize - 1) AND NOT (TransferSize - 1);
                  s2 = event (Message (''Updating LPC1115 from '' @ filename @ lf)) s1;
                  s3 = s2\<lparr>i_host := PrepareForFirmwareUpdate (i_host s2), i_inbox := []\<rparr>
              in Option.bind (program_all env img imageLength programLength (SetBootPins env True s3)) (\<lambda>(ok, s4).
                   let s5 = SetBootPins env False s4;
                       s6 = s5\<lparr>i_host := FirmwareUpdateFinished (i_host s5), i_inbox := []\<rparr>
                   in Some (event (if ok then UpdateComplete else UpdateFailed) s6))))"

end
