(* ===== verification/IspCodec.thy ===== *)
theory IspCodec
  imports IspUpdater
begin

text \<open>
  The formats the programmer speaks: decimal numbers, uuencoded data and its checksum, each with the
  reference it is measured against.
\<close>

section \<open>Decimal numbers\<close>

lemma parse_step:
  assumes "is_digit c"
  shows "((p :: u32) > (0xFFFFFFFF - of_nat (of_char c - 48)) div 10) \<longleftrightarrow> 4294967296 \<le> 10 * unat p + digit_value c"
    and "10 * unat p + digit_value c < 4294967296 \<Longrightarrow>
      unat (p * 10 + of_nat (of_char c - 48)) = 10 * unat p + digit_value c"
proof -
  let ?d = "of_nat (of_char c - 48) :: u32"
  have dv: "digit_value c \<le> 9" using assms unfolding is_digit_def digit_value_def by linarith
  have d: "unat ?d = digit_value c"
    using dv by (simp add: digit_value_def unat_of_nat_small)
  have "?d \<le> 0xFFFFFFFF" using d dv by (simp add: word_le_nat_alt)
  then have "unat ((0xFFFFFFFF - ?d) div 10) = (4294967295 - digit_value c) div 10"
    using d by (simp add: unat_div unat_sub)
  then show "(p > (0xFFFFFFFF - ?d) div 10) \<longleftrightarrow> 4294967296 \<le> 10 * unat p + digit_value c"
    using dv by (simp add: word_less_nat_alt) arith
  show "unat (p * 10 + ?d) = 10 * unat p + digit_value c" if "10 * unat p + digit_value c < 4294967296"
  proof -
    have "unat (p * 10) = unat p * 10" using that by (subst unat_mult_small) auto
    then show ?thesis using that d by (subst unat_add_small) auto
  qed
qed

lemma parse_loop_spec:
  "parse_loop t p = (if list_all is_digit t \<and> dec_value (unat p) t < 4294967296
     then Some (of_nat (dec_value (unat p) t)) else None)"
proof (induction t arbitrary: p)
  case Nil
  show ?case using u32_bound [of p] by simp
next
  case (Cons c t)
  show ?case
  proof (cases "is_digit c")
    case False
    then show ?thesis by (auto simp: is_digit_def)
  next
    case True
    then have nb: "\<not> (of_char c < (48 :: nat) \<or> of_char c > (57 :: nat))" by (auto simp: is_digit_def)
    show ?thesis
    proof (cases "4294967296 \<le> 10 * unat p + digit_value c")
      case big: True
      then have "parse_loop (c # t) p = None"
        using nb parse_step(1) [OF True, of p] by (simp add: Let_def)
      moreover have "4294967296 \<le> dec_value (unat p) (c # t)"
        using big dec_value_ge [of "10 * unat p + digit_value c" t] by simp
      ultimately show ?thesis by simp
    next
      case small: False
      then have "parse_loop (c # t) p = parse_loop t (p * 10 + of_nat (of_char c - 48))"
        using nb parse_step(1) [OF True, of p] by (simp add: Let_def)
      then show ?thesis using True small parse_step(2) [OF True, of p]
        by (simp add: Cons [of "p * 10 + of_nat (of_char c - 48)"])
    qed
  qed
qed

text \<open>
  \<open>ParseU32\<close> accepts exactly the non-empty digit strings whose value fits in 32 bits, and delivers
  that value: the test it makes before each multiplication neither lets an overflow through nor rejects a
  number that would fit.
\<close>

theorem ParseU32_exact:
  "ParseU32 t = (if t \<noteq> [] \<and> list_all is_digit t \<and> dec_value 0 t < 2 ^ 32
     then Some (of_nat (dec_value 0 t)) else None)"
  by (simp add: ParseU32_def parse_loop_spec)

text \<open>
  The numbers of the commands read back: \<open>ParseU32\<close> inverts the decimal format, and every command
  with up to three numbers fits its buffer uncut.
\<close>

theorem command_numbers:
  "ParseU32 (dec (unat a)) = Some a
   \<and> formatted c [a, b, d] = c # '' '' @ dec (unat a) @ '' '' @ dec (unat b) @ '' '' @ dec (unat d) @ crlf
   \<and> formatted c [a, b] = c # '' '' @ dec (unat a) @ '' '' @ dec (unat b) @ crlf"
proof -
  have l: "length (dec (unat x)) \<le> 10" for x :: u32
    by (rule dec_length) (use u32_bound [of x] in auto)
  have "ParseU32 (dec (unat a)) = Some a"
    using dec_digits [of "unat a"] u32_bound [of a] by (simp add: ParseU32_def parse_loop_spec)
  moreover have "take 63 xs = xs" if "length xs \<le> 63" for xs :: string using that by simp
  ultimately show ?thesis unfolding formatted_def
    using l [of a] l [of b] l [of d] by (simp add: crlf_def)
qed

section \<open>Uuencoding\<close>

text \<open>What a receiver does: six bits per character, the first one of a line the number of bytes.\<close>

definition uu_value :: "char \<Rightarrow> u8" where
  "uu_value c = (of_nat (of_char c) - 32) AND 0x3F"

definition uu_bytes :: "u8 \<Rightarrow> u8 \<Rightarrow> u8 \<Rightarrow> u8 \<Rightarrow> u8 list" where
  "uu_bytes w x y z = [push_bit 2 w OR drop_bit 4 x, push_bit 4 x OR drop_bit 2 y, push_bit 6 y OR z]"

fun uu_decode_groups :: "string \<Rightarrow> u8 list" where
  "uu_decode_groups (w # x # y # z # t) =
     uu_bytes (uu_value w) (uu_value x) (uu_value y) (uu_value z) @ uu_decode_groups t"
| "uu_decode_groups t = []"

definition uu_decode_line :: "string \<Rightarrow> u8 list" where
  "uu_decode_line l = (case l of [] \<Rightarrow> [] | n # t \<Rightarrow> take (unat (uu_value n)) (uu_decode_groups t))"

lemma uu_value_char: "uu_value (UuencodeChar v) = v AND 0x3F"
proof -
  let ?w = "v AND 0x3F"
  have "?w AND 0x3F = ?w" by (rule bit_word_eqI) (auto simp: bit_simps)
  have "unat ?w \<le> 63" using word_and_le1 [of v "0x3F"] by (simp add: word_le_nat_alt)
  then have s: "unat (?w + 0x20) = unat ?w + 32" by (subst unat_add_small) auto
  show ?thesis
  proof (cases "?w = 0")
    case True
    then show ?thesis by (simp add: UuencodeChar_def uu_value_def Let_def)
  next
    case False
    have "of_char (char_of (unat (?w + 0x20)) :: char) = unat (?w + 0x20)"
      using s \<open>unat ?w \<le> 63\<close> by (simp add: take_bit_nat_eq_self)
    then have "uu_value (UuencodeChar v) = (of_nat (unat (?w + 0x20)) - 32) AND 0x3F"
      using False by (simp add: UuencodeChar_def uu_value_def Let_def)
    also have "\<dots> = ?w AND 0x3F" by (simp only: of_nat_unat ucast_id add_diff_cancel_right')
    also have "\<dots> = ?w" by fact
    finally show ?thesis .
  qed
qed

lemma uu_char_range: "33 \<le> (of_char (UuencodeChar v) :: nat) \<and> (of_char (UuencodeChar v) :: nat) \<le> 96"
proof -
  let ?w = "v AND 0x3F"
  have "unat ?w \<le> 63" using word_and_le1 [of v "0x3F"] by (simp add: word_le_nat_alt)
  moreover from this have "unat (?w + 0x20) = unat ?w + 32" by (subst unat_add_small) auto
  moreover have "?w \<noteq> 0 \<Longrightarrow> 0 < unat ?w" by (rule word_neq_0_unat)
  ultimately show ?thesis by (auto simp: UuencodeChar_def Let_def take_bit_nat_eq_self)
qed

lemma byte_eqI:
  "bit a 0 = bit b 0 \<Longrightarrow> bit a 1 = bit b 1 \<Longrightarrow> bit a 2 = bit b 2 \<Longrightarrow> bit a 3 = bit b 3 \<Longrightarrow>
   bit a 4 = bit b 4 \<Longrightarrow> bit a 5 = bit b 5 \<Longrightarrow> bit a 6 = bit b 6 \<Longrightarrow> bit a 7 = bit b 7 \<Longrightarrow> a = b" for a b :: u8
proof (rule bit_word_eqI)
  fix n
  assume h: "bit a 0 = bit b 0" "bit a 1 = bit b 1" "bit a 2 = bit b 2" "bit a 3 = bit b 3"
    "bit a 4 = bit b 4" "bit a 5 = bit b 5" "bit a 6 = bit b 6" "bit a 7 = bit b 7"
  assume "n < LENGTH(8)"
  then consider "n = 0" | "n = 1" | "n = 2" | "n = 3" | "n = 4" | "n = 5" | "n = 6" | "n = 7"
    by fastforce
  then show "bit a n = bit b n" by cases (simp_all only: h)
qed

lemma uu_group_bytes:
  "uu_decode_groups (uu_group a b c @ t) = [a, b, c] @ uu_decode_groups t"
proof -
  have "push_bit 2 (drop_bit 2 a AND 0x3F) OR drop_bit 4 ((push_bit 4 a OR drop_bit 4 b) AND 0x3F) = a"
    by (rule byte_eqI) (simp_all add: bit_simps)
  moreover have "push_bit 4 ((push_bit 4 a OR drop_bit 4 b) AND 0x3F)
      OR drop_bit 2 ((push_bit 2 b OR drop_bit 6 c) AND 0x3F) = b"
    by (rule byte_eqI) (simp_all add: bit_simps)
  moreover have "push_bit 6 ((push_bit 2 b OR drop_bit 6 c) AND 0x3F) OR (c AND 0x3F) = c"
    by (rule byte_eqI) (simp_all add: bit_simps)
  ultimately show ?thesis by (simp add: uu_group_def uu_value_char uu_bytes_def)
qed

lemma short_decode: "length t < 4 \<Longrightarrow> uu_decode_groups t = []"
  by (cases t rule: uu_decode_groups.cases) auto

lemma uu_groups_decode: "length t < 4 \<Longrightarrow> take (length xs) (uu_decode_groups (uu_groups xs @ t)) = xs"
proof (induction xs rule: uu_groups.induct)
  case (4 a b c r)
  then show ?case by (simp add: uu_group_bytes)
qed (simp_all add: short_decode uu_group_bytes)

lemma uu_line_decode: "length xs \<le> UuencodeLineBytes \<Longrightarrow> uu_decode_line (uu_line xs) = xs"
proof -
  assume "length xs \<le> UuencodeLineBytes"
  then have l: "length xs \<le> 45" by (simp add: UuencodeLineBytes_def)
  let ?n = "of_nat (length xs) :: u8"
  have "unat ?n = length xs" using l by (simp add: unat_of_nat_small)
  moreover have "?n AND 0x3F = ?n"
  proof -
    have "?n AND mask 6 = take_bit 6 ?n" by (simp add: take_bit_eq_mask)
    also have "\<dots> = ?n"
      using l \<open>unat ?n = length xs\<close> by (simp add: word_unat_eq_iff unsigned_take_bit_eq take_bit_nat_eq_self)
    finally show ?thesis by (simp add: mask_eq_exp_minus_1)
  qed
  ultimately show ?thesis
    using uu_groups_decode [of crlf xs] by (simp add: uu_decode_line_def uu_line_def uu_value_char crlf_def)
qed

lemma uu_lines_decode: "concat (map uu_decode_line (uu_lines xs)) = xs"
proof (induction xs rule: uu_lines.induct)
  case (1 xs)
  show ?case
  proof (cases "xs = []")
    case False
    have "uu_decode_line (uu_line (take UuencodeLineBytes xs)) = take UuencodeLineBytes xs"
      by (rule uu_line_decode) simp
    then show ?thesis using 1 False by (subst uu_lines.simps) simp
  qed (simp add: uu_lines.simps)
qed

lemma length_uu_groups: "length (uu_groups xs) = 4 * ((length xs + 2) div 3)"
proof (induction xs rule: uu_groups.induct)
  case (4 a b c r)
  have "(5 + length r) div 3 = Suc ((2 + length r) div 3)"
    using div_add_self1 [of 3 "2 + length r"] by simp
  then show ?case using 4 by (simp add: uu_group_def)
qed (simp_all add: uu_group_def)

lemma uu_lines_length: "l \<in> set (uu_lines xs) \<Longrightarrow> length l \<le> 63"
proof (induction xs rule: uu_lines.induct)
  case (1 xs)
  have "length (uu_line (take UuencodeLineBytes xs)) \<le> 63"
    by (auto simp: uu_line_def length_uu_groups crlf_def UuencodeLineBytes_def min_def)
  moreover have "xs \<noteq> []" using 1(2) by (auto simp: uu_lines.simps [of "[]"])
  ultimately show ?case using 1 by (auto simp: uu_lines.simps [of xs])
qed

lemma uu_groups_printable: "c \<in> set (uu_groups xs) \<Longrightarrow> 33 \<le> (of_char c :: nat) \<and> (of_char c :: nat) \<le> 96"
  by (induction xs rule: uu_groups.induct) (use uu_char_range in \<open>auto simp: uu_group_def\<close>)

lemma uu_line_head: "length xs \<le> 45 \<Longrightarrow> hd (uu_line xs) = UuencodeChar (of_nat (length xs))"
  by (simp add: uu_line_def)

lemma uu_checksum_sum: "unat (uu_checksum xs) = (\<Sum>b\<leftarrow>xs. unat b) mod 2 ^ 32"
proof -
  have "unat (fold (\<lambda>b n. n + ucast b) xs (n :: u32)) = (unat n + (\<Sum>b\<leftarrow>xs. unat b)) mod 2 ^ 32" for n
  proof (induction xs arbitrary: n)
    case (Cons b xs)
    have "unat (n + ucast b) = (unat n + unat b) mod 2 ^ 32"
      by (simp add: unat_word_ariths unat_ucast_up)
    then show ?case by (simp add: Cons mod_simps ac_simps)
  qed (use u32_bound in simp)
  then show ?thesis by (simp add: uu_checksum_def)
qed

text \<open>
  A block survives the transfer: decoding the lines sent for any data gives the data back, whatever
  its length; every line fits the line buffer; and the checksum sent after them is the sum of the bytes.
\<close>

theorem uuencode_roundtrip:
  "concat (map uu_decode_line (uu_lines xs)) = xs \<and> (\<forall>l\<in>set (uu_lines xs). length l < 64)
   \<and> unat (uu_checksum xs) = (\<Sum>b\<leftarrow>xs. unat b) mod 2 ^ 32"
  using uu_lines_decode uu_lines_length [of _ xs] uu_checksum_sum by fastforce

theorem uuencode_roundtrip_witness:
  "uu_lines [1, 2, 3, 4] = [''$`0(#!```'' @ crlf] \<and> concat (map uu_decode_line (uu_lines [1, 2, 3, 4])) = [1, 2, 3, 4]"
  using uuencode_roundtrip [of "[1, 2, 3, 4]"]
  by (simp add: uu_lines.simps UuencodeLineBytes_def uu_line_def uu_group_def UuencodeChar_def char_of_def bit_Suc_0_iff)

end
