(* ===== verification/IspProps.thy ===== *)
theory IspProps
  imports IspCodec
begin

text \<open>
  What an update does to the coprocessor. The texts a run may write are described by sets of logs, put
  together like the code: a step that succeeds writes a log of its set, one that fails writes the beginning
  of one. From this follow the order in which flash is written and its contents. The last section shows
  that every wait ends.
\<close>

section \<open>Logs of steps\<close>

definition conc :: "'a list set \<Rightarrow> 'a list set \<Rightarrow> 'a list set" where
  "conc L M = {u @ v | u v. u \<in> L \<and> v \<in> M}"

lemma concI: "u \<in> L \<Longrightarrow> v \<in> M \<Longrightarrow> u @ v \<in> conc L M"
  by (auto simp: conc_def)

lemma concE: "w \<in> conc L M \<Longrightarrow> (\<And>u v. w = u @ v \<Longrightarrow> u \<in> L \<Longrightarrow> v \<in> M \<Longrightarrow> P) \<Longrightarrow> P"
  by (auto simp: conc_def)

lemma conc_nonempty [simp]: "conc L M = {} \<longleftrightarrow> L = {} \<or> M = {}"
  by (auto simp: conc_def)

lemma conc_assoc: "conc (conc L M) N = conc L (conc M N)"
  by (auto simp: conc_def) (metis append_assoc)+

lemma conc_Nil [simp]: "conc {[]} L = L" "conc L {[]} = L"
  by (auto simp: conc_def)

definition performs :: "IspEvent list set \<Rightarrow> Isp \<Rightarrow> (bool \<times> Isp) option \<Rightarrow> bool" where
  "performs L s r \<longleftrightarrow> (\<forall>ok s'. r = Some (ok, s') \<longrightarrow> (\<exists>new. i_log s' = i_log s @ new \<and> i_host s' = i_host s
     \<and> (if ok then new \<in> L else \<exists>w\<in>L. prefix new w)))"

lemma performsD:
  "performs L s (Some (ok, s')) \<Longrightarrow> \<exists>new. i_log s' = i_log s @ new \<and> i_host s' = i_host s
     \<and> (if ok then new \<in> L else \<exists>w\<in>L. prefix new w)"
  by (simp add: performs_def)

lemma performs_and_then:
  assumes "performs L s m" "\<And>s'. performs M s' (f s')" "M \<noteq> {}"
  shows "performs (conc L M) s (and_then m f)"
  unfolding performs_def
proof (intro allI impI)
  fix ok s' assume r: "and_then m f = Some (ok, s')"
  then obtain ok1 s1 where m: "m = Some (ok1, s1)" by (cases m) (auto simp: and_then_def)
  obtain u where u: "i_log s1 = i_log s @ u" "i_host s1 = i_host s"
    "if ok1 then u \<in> L else \<exists>w\<in>L. prefix u w" using assms(1) performsD unfolding m by blast
  show "\<exists>new. i_log s' = i_log s @ new \<and> i_host s' = i_host s
      \<and> (if ok then new \<in> conc L M else \<exists>w\<in>conc L M. prefix new w)"
  proof (cases ok1)
    case True
    then have "f s1 = Some (ok, s')" using r m by (simp add: and_then_def)
    then obtain v where v: "i_log s' = i_log s1 @ v" "i_host s' = i_host s1"
      "if ok then v \<in> M else \<exists>w\<in>M. prefix v w" using assms(2) [of s1] performsD by metis
    have "if ok then u @ v \<in> conc L M else \<exists>w\<in>conc L M. prefix (u @ v) w"
    proof (cases ok)
      case True
      then show ?thesis using u(3) v(3) \<open>ok1\<close> by (simp add: concI)
    next
      case False
      then obtain w where "w \<in> M" "prefix v w" using v(3) by auto
      then have "\<exists>w\<in>conc L M. prefix (u @ v) w"
        using u(3) \<open>ok1\<close> by (intro bexI [of _ "u @ w"]) (simp_all add: concI)
      then show ?thesis using False by simp
    qed
    then show ?thesis using u(1,2) v(1,2) by (intro exI [of _ "u @ v"]) simp
  next
    case False
    then have ok: "\<not> ok" "s' = s1" using r m by (auto simp: and_then_def)
    obtain w where "w \<in> L" "prefix u w" using u(3) False by auto
    moreover obtain v where "v \<in> M" using assms(3) by blast
    ultimately have "\<exists>w\<in>conc L M. prefix u w"
      by (intro bexI [of _ "w @ v"]) (auto intro: concI prefix_prefix)
    then show ?thesis using u(1,2) ok by auto
  qed
qed

lemma performs_true: "performs {[]} s (Some (True, s))"
  by (simp add: performs_def)

text \<open>What is done to the state before a step comes first in its log.\<close>

lemma performs_after:
  assumes "performs L t r" "i_log t = i_log s @ pre" "i_host t = i_host s"
  shows "performs (conc {pre} L) s r"
  unfolding performs_def
proof (intro allI impI)
  fix ok s' assume "r = Some (ok, s')"
  then obtain new where "i_log s' = i_log t @ new" "i_host s' = i_host t"
    "if ok then new \<in> L else \<exists>w\<in>L. prefix new w" using assms(1) performsD by blast
  then show "\<exists>new. i_log s' = i_log s @ new \<and> i_host s' = i_host s
      \<and> (if ok then new \<in> conc {pre} L else \<exists>w\<in>conc {pre} L. prefix new w)"
    using assms(2,3) by (intro exI [of _ "pre @ new"]) (auto simp: conc_def split: if_splits)
qed

lemma pass_simps [simp]:
  "i_log (pass w s) = i_log s" "i_host (pass w s) = i_host s" "i_accesses (pass w s) = i_accesses s"
  by (simp_all add: pass_def)

lemma isp_delay_simps [simp]:
  "i_log (isp_delay env s) = i_log s" "i_host (isp_delay env s) = i_host s"
  by (simp_all add: isp_delay_def)

lemma event_simps [simp]: "i_log (event e s) = i_log s @ [e]" "i_host (event e s) = i_host s"
  by (simp_all add: event_def)

lemma uart_write_simps [simp]:
  "i_log (uart_write env t s) = i_log s @ [Tx t]" "i_host (uart_write env t s) = i_host s"
  by (simp_all add: uart_write_def)

lemma WriteText_simps [simp]:
  "i_log (WriteText env t s) = i_log s @ [Tx t]" "i_host (WriteText env t s) = i_host s"
  by (simp_all add: WriteText_def)

lemma fold_uart_simps [simp]:
  "i_log (fold (uart_write env) ts s) = i_log s @ map Tx ts" "i_host (fold (uart_write env) ts s) = i_host s"
  by (induction ts arbitrary: s) simp_all

text \<open>Reading writes nothing.\<close>

lemma read_loop_quiet:
  "read_loop env cap timeout started line s = Some y \<Longrightarrow> i_log (snd y) = i_log s \<and> i_host (snd y) = i_host s"
proof (induction rule: read_loop.raw_induct [rotated, consumes 1])
  case (1 f env cap timeout started line s y)
  show ?case
  proof (cases "i_clock s - started < timeout")
    case True
    show ?thesis
    proof (cases "drain cap (i_inbox s) line")
      case (Pending l)
      then show ?thesis using 1(1) [of env cap timeout started l _ y] 1(2) True by fastforce
    qed (use 1(2) True in auto)
  qed (use 1(2) in auto)
qed

lemma ReadLine_quiet:
  "isp_ReadLine env cap timeout s = Some (r, s') \<Longrightarrow> i_log s' = i_log s \<and> i_host s' = i_host s"
  unfolding isp_ReadLine_def by (drule read_loop_quiet) simp

lemma wait_loop_quiet:
  "wait_loop env expected timeout started s = Some y \<Longrightarrow> i_log (snd y) = i_log s \<and> i_host (snd y) = i_host s"
proof (induction rule: wait_loop.raw_induct [rotated, consumes 1])
  case (1 f env expected timeout started s y)
  show ?case
  proof (cases "i_clock s - started < timeout")
    case True
    define s0 where "s0 = second_reading env s"
    obtain r s1 where r: "isp_ReadLine env 96 (timeout - (i_clock s0 - started)) s0 = Some (r, s1)"
      using 1(2) True by (cases "isp_ReadLine env 96 (timeout - (i_clock s0 - started)) s0") (auto simp: s0_def Let_def)
    have q: "i_log s1 = i_log s" "i_host s1 = i_host s"
      using ReadLine_quiet [OF r] by (simp_all add: s0_def second_reading_def)
    show ?thesis
    proof (cases r)
      case None
      then show ?thesis using 1(2) True r q by (auto simp: s0_def Let_def)
    next
      case (Some line)
      then show ?thesis using 1(1) [of env expected timeout started s1 y] 1(2) True r q unfolding s0_def Let_def
        by (cases "dropWhile (\<lambda>c. c = CHR ''?'') line = expected") auto
    qed
  qed (use 1(2) in auto)
qed

lemma performs_wait: "performs {[]} s (WaitForLine env expected timeout s)"
  unfolding performs_def WaitForLine_def
  by (auto dest!: wait_loop_quiet)

lemma performs_written:
  "performs {[Tx t]} s (WaitForLine env expected timeout (WriteText env t s))"
  using performs_after [OF performs_wait, of "WriteText env t s" s "[Tx t]"] by simp

lemma performs_command: "performs {[Tx t]} s (SendCommand env t s)"
  unfolding SendCommand_def by (rule performs_written)

lemma performs_formatted: "performs {[Tx (formatted c args)]} s (SendFormattedCommand env c args s)"
  unfolding SendFormattedCommand_def by (rule performs_command)

section \<open>The log of a block\<close>

text \<open>One transfer of a block, and the contents a block of flash is to have.\<close>

definition uu_log :: "u8 list \<Rightarrow> IspEvent list" where
  "uu_log data = map Tx (uu_lines data) @ [Tx (checksum_line data)]"

definition flash_block :: "u8 list \<Rightarrow> nat \<Rightarrow> u8 list" where
  "flash_block img off = take 512 (drop off img @ replicate 512 0xFF)"

definition copy_command :: "nat \<Rightarrow> IspEvent" where
  "copy_command off = Tx (formatted CHR ''C'' [of_nat off, RamBuffer, TransferSize])"

definition uu_logs :: "u8 list \<Rightarrow> IspEvent list set" where
  "uu_logs data = {concat (replicate k (uu_log data)) | k. 1 \<le> k \<and> k \<le> 3}"

definition block_logs :: "u8 list \<Rightarrow> nat \<Rightarrow> IspEvent list set" where
  "block_logs img off =
    conc {[Tx (formatted CHR ''W'' [RamBuffer, TransferSize])]} (conc (uu_logs (flash_block img off))
      {[Tx (formatted CHR ''P'' [of_nat (off div 4096), of_nat (off div 4096)]), copy_command off]
       @ (if off = 0 then [] else [Tx (formatted CHR ''M'' [of_nat off, RamBuffer, TransferSize])])})"

lemma uu_logs_nonempty [simp]: "uu_logs xs \<noteq> {}"
  by (auto simp: uu_logs_def intro: exI [of _ 1])

lemma block_logs_nonempty [simp]: "block_logs img off \<noteq> {}"
  by (simp add: block_logs_def)

lemma uu_attempts_log:
  "uu_attempts n env xs s = Some (ok, s') \<Longrightarrow> \<exists>k\<le>n. i_log s' = i_log s @ concat (replicate k (uu_log xs))
     \<and> i_host s' = i_host s \<and> (ok \<longrightarrow> 1 \<le> k)"
proof (induction n arbitrary: s)
  case (Suc n)
  let ?t = "WriteText env (checksum_line xs) (fold (uart_write env) (uu_lines xs) s)"
  from Suc.prems obtain r s1 where r: "isp_ReadLine env 16 CommandTimeout ?t = Some (r, s1)"
    by (cases "isp_ReadLine env 16 CommandTimeout ?t") auto
  have l: "i_log s1 = i_log s @ uu_log xs" "i_host s1 = i_host s"
    using ReadLine_quiet [OF r] by (simp_all add: uu_log_def)
  show ?case
  proof (cases "r = Some ''RESEND''")
    case True
    then have "uu_attempts n env xs s1 = Some (ok, s')" using Suc.prems r by simp
    from Suc.IH [OF this] obtain k where "k \<le> n"
      "i_log s' = i_log s1 @ concat (replicate k (uu_log xs))" "i_host s' = i_host s1" by blast
    then show ?thesis using l by (intro exI [of _ "Suc k"]) simp
  next
    case False
    then have "s' = s1" using Suc.prems r by (auto split: option.splits if_splits)
    then show ?thesis using l by (intro exI [of _ 1]) simp
  qed
qed simp

lemma performs_uu: "performs (uu_logs xs) s (SendUuencodedBlock env xs s)"
  unfolding performs_def
proof (intro allI impI)
  fix ok s' assume "SendUuencodedBlock env xs s = Some (ok, s')"
  then obtain k where k: "k \<le> 3" "i_log s' = i_log s @ concat (replicate k (uu_log xs))"
    "i_host s' = i_host s" "ok \<longrightarrow> 1 \<le> k"
    using uu_attempts_log [of 3 env xs s ok s'] by (auto simp: SendUuencodedBlock_def MaxUuencodeAttempts_def)
  have "replicate 3 (uu_log xs) = replicate k (uu_log xs) @ replicate (3 - k) (uu_log xs)"
    using k(1) by (simp flip: replicate_add)
  then have "prefix (concat (replicate k (uu_log xs))) (concat (replicate 3 (uu_log xs)))"
    by (metis concat_append prefixI)
  moreover have "concat (replicate 3 (uu_log xs)) \<in> uu_logs xs"
    unfolding uu_logs_def by (intro CollectI exI [of _ 3]) simp
  ultimately show "\<exists>new. i_log s' = i_log s @ new \<and> i_host s' = i_host s
      \<and> (if ok then new \<in> uu_logs xs else \<exists>w\<in>uu_logs xs. prefix new w)"
    using k by (intro exI [of _ "concat (replicate k (uu_log xs))"]) (auto simp: uu_logs_def)
qed

text \<open>Images that pass the size check.\<close>

lemma block_bytes:
  assumes "length img \<le> 65536" "off < length img"
  defines "n \<equiv> (if of_nat (length img) - of_nat off < TransferSize then of_nat (length img) - of_nat off else TransferSize) :: u32"
  shows "unat (of_nat off :: u32) = off" "off + unat n \<le> length img"
    "take (unat n) (drop off img) @ replicate (unat TransferSize - length (take (unat n) (drop off img))) 0xFF
       = flash_block img off"
proof -
  show o: "unat (of_nat off :: u32) = off" using assms(1,2) by (simp add: unat_of_nat_small)
  have l: "unat (of_nat (length img) :: u32) = length img" using assms(1) by (simp add: unat_of_nat_small)
  have d: "unat (of_nat (length img) - of_nat off :: u32) = length img - off"
    using o l assms(2) by (simp add: unat_sub word_le_nat_alt)
  have t: "unat TransferSize = 512" by (simp add: TransferSize_def)
  have n: "unat n = min (length img - off) 512"
    unfolding n_def using d t by (auto simp: word_less_nat_alt)
  show "off + unat n \<le> length img" using n assms(2) by simp
  show "take (unat n) (drop off img) @ replicate (unat TransferSize - length (take (unat n) (drop off img))) 0xFF
       = flash_block img off"
    unfolding n t flash_block_def by (simp add: min_def)
qed

lemma sector_of: "off \<le> 65536 \<Longrightarrow> (of_nat off :: u32) div SectorSize = of_nat (off div 4096)"
proof -
  assume a: "off \<le> 65536"
  have "unat ((of_nat off :: u32) div SectorSize) = off div 4096"
    using a by (simp add: unat_div SectorSize_def unat_of_nat_small)
  moreover have "off div 4096 < 2 ^ 32" using a by (auto intro: le_less_trans [OF div_le_dividend])
  ultimately show ?thesis by (simp add: word_unat_eq_iff unat_of_nat_small)
qed

lemma performs_block:
  assumes "length img \<le> 65536" "off < length img"
  shows "performs (block_logs img off) s (ProgramBlock env img (of_nat (length img)) (of_nat off) s)"
proof -
  let ?n = "(if of_nat (length img) - of_nat off < TransferSize then of_nat (length img) - of_nat off else TransferSize) :: u32"
  note b = block_bytes [OF assms]
  define s1 where "s1 = s\<lparr>i_accesses := i_accesses s + 1\<rparr>"
  have s1: "i_log s1 = i_log s @ []" "i_host s1 = i_host s" by (simp_all add: s1_def)
  show ?thesis
  proof (cases "env_fails env (i_accesses s)")
    case True
    then have r: "ProgramBlock env img (of_nat (length img)) (of_nat off) s = Some (False, s1)"
      by (simp add: ProgramBlock_def file_read_def s1_def Let_def)
    obtain w where "w \<in> block_logs img off" using block_logs_nonempty by blast
    then show ?thesis unfolding r performs_def using s1 by auto
  next
    case False
    have read: "file_read env img (unat (of_nat off :: u32)) (unat ?n) s = (Some (take (unat ?n) (drop off img)), s1)"
      using False b(1,2) by (simp add: file_read_def s1_def)
    have z: "(of_nat off :: u32) = 0 \<longleftrightarrow> off = 0"
    proof
      assume "(of_nat off :: u32) = 0"
      then have "unat (of_nat off :: u32) = 0" by (simp only: unat_0)
      then show "off = 0" by (simp only: b(1))
    qed simp
    have sec: "(of_nat off :: u32) div SectorSize = of_nat (off div 4096)" by (rule sector_of) (use assms in simp)
    have "performs (conc (conc (conc (conc {[Tx (formatted CHR ''W'' [RamBuffer, TransferSize])]}
        (uu_logs (flash_block img off)))
        {[Tx (formatted CHR ''P'' [of_nat (off div 4096), of_nat (off div 4096)])]})
        {[copy_command off]})
        {if off = 0 then [] else [Tx (formatted CHR ''M'' [of_nat off, RamBuffer, TransferSize])]})
      s1 (ProgramBlock env img (of_nat (length img)) (of_nat off) s)"
      unfolding ProgramBlock_def Let_def read prod.case option.case b(3) sec
    proof (intro performs_and_then)
      fix t
      show "performs {if off = 0 then [] else [Tx (formatted CHR ''M'' [of_nat off, RamBuffer, TransferSize])]} t
          (if (of_nat off :: u32) = 0 then Some (True, t)
           else SendFormattedCommand env CHR ''M'' [of_nat off, RamBuffer, TransferSize] t)"
        unfolding z by (cases "off = 0") (simp_all add: performs_true performs_formatted)
    qed (simp_all add: performs_formatted performs_uu copy_command_def)
    moreover have "conc {[a]} (conc {[b]} {c}) = {[a, b] @ c}" for a b :: IspEvent and c
      by (auto simp: conc_def)
    ultimately have "performs (block_logs img off) s1 (ProgramBlock env img (of_nat (length img)) (of_nat off) s)"
      unfolding block_logs_def by (simp only: conc_assoc)
    then show ?thesis using s1 by (simp add: performs_def)
  qed
qed

section \<open>The log of an update\<close>

function offsets :: "nat \<Rightarrow> nat \<Rightarrow> nat list" where
  "offsets b e = (if b < e then b # offsets (b + 512) e else [])"
  by pat_completeness auto
termination by (relation "measure (\<lambda>(b, e). e - b)") auto

declare offsets.simps [simp del]

text \<open>The image length rounded up to whole blocks, and the order in which the blocks are written.\<close>

definition rounded :: "nat \<Rightarrow> nat" where
  "rounded n = (n + 511) div 512 * 512"

definition block_order :: "nat \<Rightarrow> nat list" where
  "block_order n = offsets 4096 (rounded n) @ offsets 512 (min (rounded n) 4096) @ [0]"

fun range_logs :: "u8 list \<Rightarrow> nat list \<Rightarrow> IspEvent list set" where
  "range_logs img [] = {[]}"
| "range_logs img (off # offs) = conc (block_logs img off) (range_logs img offs)"

definition preamble :: "string list" where
  "preamble = [''?'', ''Synchronized'' @ crlf, ''12000'' @ crlf, ''A 0'' @ crlf, ''U 23130'' @ crlf, ''J'' @ crlf,
     formatted CHR ''P'' [0, 15], formatted CHR ''E'' [0, 15]]"

definition update_logs :: "u8 list \<Rightarrow> IspEvent list set" where
  "update_logs img = conc {map Tx preamble} (range_logs img (block_order (length img)))"

lemma range_logs_nonempty [simp]: "range_logs img offs \<noteq> {}"
  by (induction offs) simp_all

lemma range_logs_append: "range_logs img (xs @ ys) = conc (range_logs img xs) (range_logs img ys)"
  by (induction xs) (simp_all add: conc_assoc)

lemma offsets_less: "b < e \<Longrightarrow> offsets b e = b # offsets (b + 512) e"
  by (subst offsets.simps) simp

lemma offsets_ge: "e \<le> b \<Longrightarrow> offsets b e = []"
  by (subst offsets.simps) simp

lemma offsets_mod: "off \<in> set (offsets b e) \<Longrightarrow> b \<le> off \<and> off < e \<and> off mod 512 = b mod 512"
proof (induction b e rule: offsets.induct)
  case (1 b e)
  show ?case
  proof (cases "b < e")
    case True
    then have "off = b \<or> off \<in> set (offsets (b + 512) e)" using 1(2) by (simp add: offsets_less)
    then show ?thesis using 1(1) [OF True] True by auto
  next
    case False
    then show ?thesis using 1(2) by (simp add: offsets_ge)
  qed
qed

lemma offsets_set: "b mod 512 = off mod 512 \<Longrightarrow> b \<le> off \<Longrightarrow> off < e \<Longrightarrow> off \<in> set (offsets b e)"
proof (induction b e rule: offsets.induct)
  case (1 b e)
  then have be: "b < e" by simp
  show ?case
  proof (cases "b = off")
    case True
    then show ?thesis unfolding offsets_less [OF be] by simp
  next
    case False
    have "b + 512 \<le> off"
    proof (rule ccontr)
      assume "\<not> b + 512 \<le> off"
      then have "off - b < 512" "0 < off - b" using 1(3) False by auto
      moreover have "(off - b) mod 512 = 0" using 1(2,3) by (metis mod_eq_dvd_iff_nat dvd_imp_mod_0)
      ultimately show False by simp
    qed
    then have "off \<in> set (offsets (b + 512) e)" by (intro 1(1) [OF be]) (use 1(2,4) in simp_all)
    then show ?thesis unfolding offsets_less [OF be] by simp
  qed
qed

lemma offsets_distinct: "distinct (offsets b e)"
proof (induction b e rule: offsets.induct)
  case (1 b e)
  show ?case
  proof (cases "b < e")
    case True
    then show ?thesis using 1 offsets_mod [of b "b + 512" e] by (auto simp: offsets_less)
  next
    case False
    then show ?thesis by (simp add: offsets_ge)
  qed
qed

lemma rounded_bounds: "n \<le> rounded n" "rounded n mod 512 = 0" "n \<le> 65536 \<Longrightarrow> rounded n \<le> 65536"
proof -
  have "(n + 511) mod 512 < 512" by simp
  then show "n \<le> rounded n" unfolding rounded_def using div_mult_mod_eq [of "n + 511" 512] by linarith
  show "rounded n mod 512 = 0" unfolding rounded_def by simp
  assume "n \<le> 65536"
  then have "(n + 511) div 512 \<le> (65536 + 511) div 512" by (intro div_le_mono) simp
  then show "rounded n \<le> 65536" unfolding rounded_def by simp
qed

lemma multiple_below:
  assumes "off mod 512 = 0" "off < rounded n" shows "off < n"
proof -
  let ?q = "off div 512"
  have q: "off = ?q * 512" using assms(1) by (simp add: mod_0_imp_dvd)
  have "?q * 512 < (n + 511) div 512 * 512" using assms(2) q by (simp add: rounded_def)
  then have "Suc ?q \<le> (n + 511) div 512" by simp
  then have "Suc ?q * 512 \<le> (n + 511) div 512 * 512" by (rule mult_le_mono1)
  also have "\<dots> \<le> n + 511" by simp
  finally show ?thesis using q by simp
qed

lemma block_order_set:
  assumes "0 < n" shows "set (block_order n) = {off. off mod 512 = 0 \<and> off < n}"
proof (intro equalityI subsetI)
  fix off assume "off \<in> set (block_order n)"
  then consider "off = 0" | "off \<in> set (offsets 4096 (rounded n))" | "off \<in> set (offsets 512 (min (rounded n) 4096))"
    by (auto simp: block_order_def)
  then show "off \<in> {off. off mod 512 = 0 \<and> off < n}"
    using assms by cases (auto dest!: offsets_mod intro: multiple_below)
next
  fix off assume "off \<in> {off. off mod 512 = 0 \<and> off < n}"
  then have off: "off mod 512 = 0" "off < n" by auto
  then have r: "off < rounded n" using rounded_bounds(1) [of n] by simp
  consider "off = 0" | "512 \<le> off" "off < 4096" | "4096 \<le> off" using off(1) by fastforce
  then show "off \<in> set (block_order n)"
    using off(1) r by cases (auto simp: block_order_def intro: offsets_set)
qed

lemma block_order_distinct: "distinct (block_order n)"
proof -
  let ?hi = "offsets 4096 (rounded n)" and ?lo = "offsets 512 (min (rounded n) 4096)"
  have "set ?hi \<inter> set (?lo @ [0]) = {}"
  proof (rule equals0I)
    fix off assume "off \<in> set ?hi \<inter> set (?lo @ [0])"
    then have "4096 \<le> off" "off = 0 \<or> off < min (rounded n) 4096"
      using offsets_mod [of off 4096 "rounded n"] offsets_mod [of off 512 "min (rounded n) 4096"] by auto
    then show False by linarith
  qed
  moreover have "0 \<notin> set ?lo" using offsets_mod [of 0 512 "min (rounded n) 4096"] by auto
  ultimately show ?thesis using offsets_distinct by (simp add: block_order_def)
qed

lemma rounded_word:
  assumes "n \<le> 65536"
  shows "((of_nat n + TransferSize - 1) AND NOT (TransferSize - 1)) = (of_nat (rounded n) :: u32)"
proof -
  let ?x = "of_nat n + TransferSize - 1 :: u32"
  have e: "?x = of_nat (n + 511)" by (simp add: TransferSize_def)
  have x: "unat ?x = n + 511" unfolding e by (rule unat_of_nat_small) (use assms in simp)
  have "TransferSize - 1 = mask 9" by (simp add: TransferSize_def mask_eq_exp_minus_1)
  then have "?x AND NOT (TransferSize - 1) = push_bit 9 (drop_bit 9 ?x)"
    by (simp only:) (rule bit_word_eqI, auto simp: bit_simps)
  moreover have "unat (push_bit 9 (drop_bit 9 ?x)) = rounded n"
  proof -
    have d: "unat (drop_bit 9 ?x) = (n + 511) div 512" using x by (simp add: drop_bit_eq_div unat_div)
    have "(n + 511) div 512 * 512 \<le> n + 511" by simp
    then have "(n + 511) div 512 * 512 < 2 ^ 32" using assms by simp
    then show ?thesis
      by (simp add: push_bit_eq_mult unat_word_ariths d rounded_def)
  qed
  ultimately have "unat (?x AND NOT (TransferSize - 1)) = rounded n" by simp
  then show ?thesis using rounded_bounds(3) [OF assms] by (simp add: word_unat_eq_iff unat_of_nat_small)
qed

lemma of_nat_less_u32: "a \<le> 66048 \<Longrightarrow> b \<le> 66048 \<Longrightarrow> ((of_nat a :: u32) < of_nat b) = (a < b)"
  by (simp add: word_less_nat_alt unat_of_nat_small)

lemma performs_range:
  assumes "ProgramRange env img imageLength offset end s = Some y"
  shows "length img \<le> 65536 \<longrightarrow> imageLength = of_nat (length img) \<longrightarrow> offset = of_nat b \<longrightarrow> end = of_nat e \<longrightarrow>
    b \<le> 66048 \<longrightarrow> e \<le> 65536 \<longrightarrow> (\<forall>off\<in>set (offsets b e). off < length img) \<longrightarrow>
    performs (range_logs img (offsets b e)) s (Some y)"
  using assms
proof (induction arbitrary: b rule: ProgramRange.raw_induct [rotated, consumes 1])
  case (1 f env img imageLength offset "end" s y b)
  show ?case
  proof (intro impI)
    assume h: "length img \<le> 65536" "imageLength = of_nat (length img)" "offset = of_nat b" "end = of_nat e"
      "b \<le> 66048" "e \<le> 65536" "\<forall>off\<in>set (offsets b e). off < length img"
    show "performs (range_logs img (offsets b e)) s (Some y)"
    proof (cases "b < e")
      case False
      then have "y = (True, s)" using 1(2) h of_nat_less_u32 [of b e] by auto
      then show ?thesis using False by (simp add: offsets_ge performs_true)
    next
      case True
      then have c: "offset < end" using h of_nat_less_u32 [of b e] by simp
      have b: "b < length img" using h(7) unfolding offsets_less [OF True] by simp
      obtain ok s1 where m: "ProgramBlock env img imageLength offset s = Some (ok, s1)"
        using 1(2) c by (cases "ProgramBlock env img imageLength offset s") auto
      have blk: "performs (block_logs img b) s (Some (ok, s1))"
        using performs_block [OF h(1) b, of s env] m h(2,3) by simp
      show ?thesis
      proof (cases ok)
        case False
        then have "Some y = and_then (Some (ok, s1)) (\<lambda>s. None)"
          using 1(2) c m by (auto simp: and_then_def)
        moreover have "performs (conc (block_logs img b) (range_logs img (offsets (b + 512) e))) s
            (and_then (Some (ok, s1)) (\<lambda>s. None))"
          by (rule performs_and_then [OF blk]) (simp_all add: performs_def)
        ultimately show ?thesis by (simp add: offsets_less [OF True])
      next
        case okay: True
        then have rest: "f env img imageLength (offset + TransferSize) end s1 = Some y" using 1(2) c m by simp
        have n: "offset + TransferSize = of_nat (b + 512)" using h(3) by (simp add: TransferSize_def)
        have "performs (range_logs img (offsets (b + 512) e)) s1 (Some y)"
          using 1(1) [OF rest, of "b + 512"] h n True by (simp add: offsets_less [OF True])
        then have p: "performs (range_logs img (offsets (b + 512) e)) t (if t = s1 then Some y else None)" for t
          by (simp add: performs_def)
        have "performs (conc (block_logs img b) (range_logs img (offsets (b + 512) e))) s
            (and_then (Some (ok, s1)) (\<lambda>t. if t = s1 then Some y else None))"
          by (rule performs_and_then [OF blk p]) simp
        then show ?thesis using okay by (simp add: offsets_less [OF True] and_then_def)
      qed
    qed
  qed
qed

lemma performs_ProgramRange:
  assumes "length img \<le> 65536" "b \<le> 66048" "e \<le> 65536" "\<forall>off\<in>set (offsets b e). off < length img"
  shows "performs (range_logs img (offsets b e)) s
    (ProgramRange env img (of_nat (length img)) (of_nat b) (of_nat e) s)"
  using performs_range [of env img "of_nat (length img)" "of_nat b" "of_nat e" s _ b e] assms
  by (cases "ProgramRange env img (of_nat (length img)) (of_nat b) (of_nat e) s") (simp_all add: performs_def)

section \<open>The whole update\<close>

lemma performs_ReadLine:
  "performs {[]} s (Option.bind (isp_ReadLine env cap timeout s) (\<lambda>(r, s1). Some (P r, s1)))"
  unfolding performs_def
  by (auto simp: bind_eq_Some_conv dest!: ReadLine_quiet)

lemma performs_CheckPartId: "performs {[Tx (''J'' @ crlf)]} s (CheckPartId env s)"
proof -
  have "performs (conc {[Tx (''J'' @ crlf)]} {[]}) s (CheckPartId env s)"
    unfolding CheckPartId_def by (rule performs_and_then) (simp_all add: performs_written performs_ReadLine)
  then show ?thesis by simp
qed

lemma performs_Synchronize:
  "performs {map Tx [''?'', ''Synchronized'' @ crlf, ''12000'' @ crlf, ''A 0'' @ crlf]} s (Synchronize env s)"
proof -
  have "performs {[Tx ''?'']} (s\<lparr>i_inbox := []\<rparr>) r = performs {[Tx ''?'']} s r" for r
    by (simp add: performs_def)
  then have "performs (conc (conc (conc {[Tx ''?'']} {[Tx (''Synchronized'' @ crlf)]}) {[Tx (''12000'' @ crlf)]})
      {[Tx (''A 0'' @ crlf)]}) s (Synchronize env s)"
    unfolding Synchronize_def
    by (intro performs_and_then performs_written) (use performs_written [of "''?''" "s\<lparr>i_inbox := []\<rparr>"] in simp_all)
  then show ?thesis by (simp add: conc_def)
qed

lemma performs_program_all:
  assumes "length img \<le> 65536" "0 < length img"
  shows "performs (update_logs img) s (program_all env img (of_nat (length img)) (of_nat (rounded (length img))) s)"
proof -
  let ?r = "rounded (length img)"
  let ?hi = "offsets 4096 ?r" and ?lo = "offsets 512 (min ?r 4096)"
  note r = rounded_bounds(3) [OF assms(1)]
  have lt: "(of_nat ?r > (4096 :: u32)) = (?r > 4096)" "(of_nat ?r > (512 :: u32)) = (?r > 512)"
    using of_nat_less_u32 [of 4096 ?r] of_nat_less_u32 [of 512 ?r] r by simp_all
  have in_img: "\<forall>off\<in>set ?hi. off < length img" "\<forall>off\<in>set ?lo. off < length img"
    using block_order_set [OF assms(2)] by (auto simp: block_order_def)
  have hi: "performs (range_logs img ?hi) s (if of_nat ?r > SectorSize
      then ProgramRange env img (of_nat (length img)) SectorSize (of_nat ?r) s else Some (True, s))" for s
    using performs_ProgramRange [OF assms(1) _ r in_img(1), of s env]
    by (cases "?r > 4096") (simp_all add: SectorSize_def lt offsets_ge performs_true)
  have m: "(if of_nat ?r < SectorSize then of_nat ?r else SectorSize) = (of_nat (min ?r 4096) :: u32)"
    using of_nat_less_u32 [of ?r 4096] r by (simp add: SectorSize_def min_def)
  have lo: "performs (range_logs img ?lo) s (if of_nat ?r > TransferSize
      then ProgramRange env img (of_nat (length img)) TransferSize
        (if of_nat ?r < SectorSize then of_nat ?r else SectorSize) s else Some (True, s))" for s
    using performs_ProgramRange [OF assms(1) _ _ in_img(2), of s env] unfolding m
    by (cases "?r > 512") (simp_all add: TransferSize_def lt offsets_ge performs_true)
  have zero: "performs (block_logs img 0) s (ProgramBlock env img (of_nat (length img)) 0 s)" for s
    using performs_block [OF assms, of s env] by simp
  have sectors: "NumSectors - 1 = 15" by (simp add: NumSectors_def FlashSize_def SectorSize_def)
  have "performs (conc (conc (conc (conc (conc (conc (conc
      {map Tx [''?'', ''Synchronized'' @ crlf, ''12000'' @ crlf, ''A 0'' @ crlf]}
      {[Tx (''U 23130'' @ crlf)]}) {[Tx (''J'' @ crlf)]}) {[Tx (formatted CHR ''P'' [0, 15])]})
      {[Tx (formatted CHR ''E'' [0, 15])]}) (range_logs img ?hi)) (range_logs img ?lo)) (block_logs img 0))
      s (program_all env img (of_nat (length img)) (of_nat ?r) s)"
    unfolding program_all_def sectors
    by (intro performs_and_then performs_Synchronize performs_command performs_CheckPartId performs_formatted
        hi lo zero) simp_all
  moreover have "conc {map Tx [''?'', ''Synchronized'' @ crlf, ''12000'' @ crlf, ''A 0'' @ crlf]}
      (conc {[Tx (''U 23130'' @ crlf)]} (conc {[Tx (''J'' @ crlf)]} (conc {[Tx (formatted CHR ''P'' [0, 15])]}
      (conc {[Tx (formatted CHR ''E'' [0, 15])]} L)))) = conc {map Tx preamble} L" for L
    unfolding conc_assoc [symmetric] preamble_def by (simp add: conc_def [of "{_}" "{_}"])
  ultimately show ?thesis
    by (simp add: update_logs_def block_order_def range_logs_append conc_assoc)
qed

text \<open>The pins around the programming: reset with the ISP pin low, and with it high.\<close>

definition boot_rom :: "IspEvent list" where
  "boot_rom = [IspPin False, ResetPin False, ResetPin True, IspPin True]"

definition boot_normal :: "IspEvent list" where
  "boot_normal = [IspPin True, ResetPin False, ResetPin True]"

lemma SetBootPins_simps [simp]:
  "i_log (SetBootPins env b s) = i_log s @ (if b then boot_rom else boot_normal)"
  "i_host (SetBootPins env b s) = i_host s"
  by (simp_all add: SetBootPins_def boot_rom_def boot_normal_def Let_def)

lemma file_read_simps [simp]:
  "i_log (snd (file_read env img off n s)) = i_log s" "i_host (snd (file_read env img off n s)) = i_host s"
  by (simp_all add: file_read_def)

lemma Validate_quiet:
  "ValidateFirmware env img f s = (r, s1) \<Longrightarrow> i_log s1 = i_log s \<and> i_host s1 = i_host s"
  by (auto simp: ValidateFirmware_def file_read_def Let_def split: if_splits option.splits prod.splits)

lemma Validate_size:
  assumes "ValidateFirmware env img f s = (None, s1)" "length img < 2 ^ 32"
  shows "32 \<le> length img \<and> length img \<le> 65536"
proof -
  have "unat (of_nat (length img) :: u32) = length img" using assms(2) by (simp add: unat_of_nat_small)
  moreover have "\<not> ((of_nat (length img) :: u32) < 32 \<or> (of_nat (length img) :: u32) > FlashSize)"
    using assms(1) by (auto simp: ValidateFirmware_def Let_def split: if_splits)
  ultimately show ?thesis by (simp add: word_less_nat_alt FlashSize_def)
qed

text \<open>The messages of an update and everything it does between them, when the image is accepted.\<close>

lemma Update_accepted:
  assumes "ValidateFirmware env img (FirmwareFilename name) s = (None, s1)" "length img < 2 ^ 32"
    and "Update env (Some img) name s = Some s'"
  shows "\<exists>new ok. i_log s' = i_log s @ Message (''Updating LPC1115 from '' @ FirmwareFilename name @ lf) #
      boot_rom @ new @ boot_normal @ [if ok then UpdateComplete else UpdateFailed]
    \<and> (if ok then new \<in> update_logs img else \<exists>w\<in>update_logs img. prefix new w)
    \<and> i_host s' = FirmwareUpdateFinished (PrepareForFirmwareUpdate (i_host s))"
proof -
  note q = Validate_quiet [OF assms(1)]
  note size = Validate_size [OF assms(1,2)]
  let ?n = "of_nat (length img) :: u32"
  have p: "(?n + TransferSize - 1) AND NOT (TransferSize - 1) = of_nat (rounded (length img))"
    by (rule rounded_word) (use size in simp)
  define s2 where "s2 = event (Message (''Updating LPC1115 from '' @ FirmwareFilename name @ lf)) s1"
  define s3 where "s3 = SetBootPins env True (s2\<lparr>i_host := PrepareForFirmwareUpdate (i_host s2), i_inbox := []\<rparr>)"
  have s3: "i_log s3 = i_log s @ Message (''Updating LPC1115 from '' @ FirmwareFilename name @ lf) # boot_rom"
    "i_host s3 = PrepareForFirmwareUpdate (i_host s)"
    using q by (simp_all add: s3_def s2_def)
  have u: "Option.bind (program_all env img ?n (of_nat (rounded (length img))) s3) (\<lambda>(ok, s4).
       let s5 = SetBootPins env False s4; s6 = s5\<lparr>i_host := FirmwareUpdateFinished (i_host s5), i_inbox := []\<rparr>
       in Some (event (if ok then UpdateComplete else UpdateFailed) s6)) = Some s'"
    using assms(3) unfolding Update_def assms(1) Let_def option.case prod.case p s2_def [symmetric] s3_def [symmetric]
    by (simp add: s3_def [symmetric])
  then obtain ok s4 where pr: "program_all env img ?n (of_nat (rounded (length img))) s3 = Some (ok, s4)"
    by (auto simp: bind_eq_Some_conv)
  have fin: "i_log s' = i_log s4 @ boot_normal @ [if ok then UpdateComplete else UpdateFailed]"
    "i_host s' = FirmwareUpdateFinished (i_host s4)"
    using u pr by (auto simp: Let_def)
  obtain new where new: "i_log s4 = i_log s3 @ new" "i_host s4 = i_host s3"
    "if ok then new \<in> update_logs img else \<exists>w\<in>update_logs img. prefix new w"
    using performs_program_all [of img s3 env] size pr performsD by fastforce
  show ?thesis
    using fin new s3 by (intro exI [of _ new] exI [of _ ok]) simp
qed

section \<open>The order in which flash is written\<close>

fun is_copy :: "IspEvent \<Rightarrow> bool" where
  "is_copy (Tx t) \<longleftrightarrow> t \<noteq> [] \<and> hd t = CHR ''C''"
| "is_copy e = False"

lemma formatted_Cons: "\<exists>t. formatted c args = c # t"
  by (simp add: formatted_def take_Cons')

lemma formatted_hd [simp]: "hd (formatted c args) = c" "formatted c args \<noteq> []"
  using formatted_Cons [of c args] by auto

lemma uu_lines_shape:
  "l \<in> set (uu_lines xs) \<Longrightarrow> \<exists>ys. l = uu_line ys \<and> (length ys = 45 \<or> length ys = length xs mod 45)"
proof (induction xs rule: uu_lines.induct)
  case (1 xs)
  have ne: "xs \<noteq> []" using 1(2) by (auto simp: uu_lines.simps [of "[]"])
  then have "l = uu_line (take 45 xs) \<or> l \<in> set (uu_lines (drop 45 xs))"
    using 1(2) by (subst (asm) uu_lines.simps) (auto simp: UuencodeLineBytes_def)
  then show ?case
  proof
    assume "l = uu_line (take 45 xs)"
    then show ?thesis by (intro exI [of _ "take 45 xs"]) (cases "length xs < 45"; simp)
  next
    assume r: "l \<in> set (uu_lines (drop 45 xs))"
    then have "drop 45 xs \<noteq> []" by (auto simp: uu_lines.simps [of "[]"])
    then have "(length xs - 45) mod 45 = length xs mod 45" by (simp add: le_mod_geq)
    then show ?thesis using 1(1) [OF ne] r by (simp add: UuencodeLineBytes_def)
  qed
qed

lemma length_flash_block: "length (flash_block img off) = 512"
  by (simp add: flash_block_def)

lemma no_copy_uu: "length xs = 512 \<Longrightarrow> filter is_copy (uu_log xs) = []"
proof -
  assume len: "length xs = 512"
  have "\<not> is_copy (Tx l)" if l: "l \<in> set (uu_lines xs)" for l
  proof -
    obtain ys where "l = uu_line ys" "length ys = 45 \<or> length ys = 17"
      using uu_lines_shape [OF l] len by auto
    then show ?thesis by (auto simp: uu_line_def UuencodeChar_def char_of_def bit_Suc_0_iff)
  qed
  moreover have "\<not> is_copy (Tx (checksum_line xs))"
  proof -
    obtain c t where d: "dec (unat (uu_checksum xs)) = c # t" "is_digit c"
      using dec_digits [of "unat (uu_checksum xs)"] by (cases "dec (unat (uu_checksum xs))") auto
    then have "c \<noteq> CHR ''C''" by (auto simp: is_digit_def)
    then show ?thesis using d(1) by (simp add: checksum_line_def)
  qed
  ultimately show ?thesis by (auto simp: uu_log_def filter_empty_conv)
qed

lemma copies_block: "w \<in> block_logs img off \<Longrightarrow> filter is_copy w = [copy_command off]"
proof -
  assume "w \<in> block_logs img off"
  then obtain k where w: "w = [Tx (formatted CHR ''W'' [RamBuffer, TransferSize])]
      @ concat (replicate k (uu_log (flash_block img off)))
      @ [Tx (formatted CHR ''P'' [of_nat (off div 4096), of_nat (off div 4096)]), copy_command off]
      @ (if off = 0 then [] else [Tx (formatted CHR ''M'' [of_nat off, RamBuffer, TransferSize])])"
    by (auto simp: block_logs_def uu_logs_def conc_def)
  have "filter is_copy (concat (replicate k (uu_log (flash_block img off)))) = []"
    using no_copy_uu [OF length_flash_block] by (induction k) simp_all
  then show ?thesis unfolding w by (simp add: copy_command_def)
qed

lemma copies_range: "w \<in> range_logs img offs \<Longrightarrow> filter is_copy w = map copy_command offs"
  by (induction offs arbitrary: w) (auto simp: copies_block elim!: concE)

lemma copies_update: "w \<in> update_logs img \<Longrightarrow> filter is_copy w = map copy_command (block_order (length img))"
  by (auto simp: update_logs_def preamble_def copies_range elim!: concE)

lemma prefix_filter: "prefix u w \<Longrightarrow> prefix (filter P u) (filter P w)"
  by (auto simp: prefix_def)

lemma prefix_map_take: "prefix u (map f xs) \<Longrightarrow> u = map f (take (length u) xs)"
  by (metis append_eq_conv_conj prefix_def take_map)

text \<open>
  C6. An update does exactly this: reset the coprocessor into its boot ROM, synchronise, unlock, check the
  part, erase, then for every block send its \<open>W\<close> command, the uuencoded contents of the image (padded with
  0xFF) at most three times, and prepare, copy and (block 0 excepted) compare it. It reports completion only
  when all of that was done; whatever fails, what it wrote up to there is the beginning of such a session,
  the coprocessor is reset into its firmware and the link is taken up again.
\<close>

theorem update_session:
  assumes "ValidateFirmware env img (FirmwareFilename name) s = (None, s1)" "length img < 2 ^ 32"
    and "Update env (Some img) name s = Some s'"
  shows "\<exists>new ok. i_log s' = i_log s @ Message (''Updating LPC1115 from '' @ FirmwareFilename name @ lf) #
      boot_rom @ new @ boot_normal @ [if ok then UpdateComplete else UpdateFailed]
    \<and> (if ok then new \<in> update_logs img else \<exists>w\<in>update_logs img. prefix new w)
    \<and> \<not> hl_firmwareUpdateActive (i_host s')"
proof -
  have "\<not> hl_firmwareUpdateActive (FirmwareUpdateFinished h)" for h
    by (simp add: FirmwareUpdateFinished_def SendPing_def Host_Send_def Let_def)
  then show ?thesis using Update_accepted [OF assms] by metis
qed

text \<open>Copies of different blocks are different commands.\<close>

lemma copy_command_inj:
  assumes "copy_command a = copy_command b" "a < 65536" "b < 65536"
  shows "a = b"
proof -
  define T where "T = '' '' @ dec (unat RamBuffer) @ '' '' @ dec (unat TransferSize) @ crlf"
  have f: "formatted CHR ''C'' [x, RamBuffer, TransferSize] = CHR ''C'' # '' '' @ dec (unat x) @ T" for x
    using command_numbers [of x "CHR ''C''" RamBuffer TransferSize] unfolding T_def by blast
  have "CHR ''C'' # '' '' @ dec (unat (of_nat a :: u32)) @ T = CHR ''C'' # '' '' @ dec (unat (of_nat b :: u32)) @ T"
    using assms(1) unfolding copy_command_def f by (rule IspEvent.inject(1) [THEN iffD1])
  then have "dec (unat (of_nat a :: u32)) = dec (unat (of_nat b :: u32))"
    by (simp only: list.inject append_same_eq append_Cons append_Nil simp_thms)
  then have "unat (of_nat a :: u32) = unat (of_nat b :: u32)" by (metis dec_digits)
  then show ?thesis using assms(2,3) by (simp add: unat_of_nat_small)
qed

lemma block_order_split: "0 < n \<Longrightarrow> \<exists>bs. block_order n = bs @ [0] \<and> set bs = {off. off mod 512 = 0 \<and> off < n \<and> off \<noteq> 0}"
proof -
  assume "0 < n"
  define bs where "bs = offsets 4096 (rounded n) @ offsets 512 (min (rounded n) 4096)"
  have e: "block_order n = bs @ [0]" by (simp add: block_order_def bs_def)
  have "distinct (bs @ [0])" using block_order_distinct [of n] unfolding e .
  then have z: "set bs = (set bs \<union> {0}) - {0}" by auto
  have "set (bs @ [0]) = {off. off mod 512 = 0 \<and> off < n}" using block_order_set [OF \<open>0 < n\<close>] unfolding e .
  then have "set bs \<union> {0} = {off. off mod 512 = 0 \<and> off < n}" unfolding set_append list.set .
  with z have "set bs = {off. off mod 512 = 0 \<and> off < n} - {0}" by (rule back_subst [of "\<lambda>A. set bs = A - {0}"])
  also have "\<dots> = {off. off mod 512 = 0 \<and> off < n \<and> off \<noteq> 0}" by blast
  finally have "set bs = {off. off mod 512 = 0 \<and> off < n \<and> off \<noteq> 0}" .
  with e show ?thesis by blast
qed

text \<open>A copy of block 0 among the first blocks of the order comes after all the others.\<close>

lemma zero_after_others:
  assumes "map copy_command (take k (block_order n)) = us @ copy_command 0 # vs" "0 < n" "n \<le> 65536"
    and "off mod 512 = 0" "off < n" "off \<noteq> 0"
  shows "copy_command off \<in> set us"
proof -
  obtain bs where bs: "block_order n = bs @ [0]" "set bs = {off. off mod 512 = 0 \<and> off < n \<and> off \<noteq> 0}"
    using block_order_split [OF assms(2)] by blast
  have d: "distinct (bs @ [0])" using block_order_distinct [of n] by (simp add: bs(1))
  obtain ys z zs where t: "take k (bs @ [0]) = ys @ z # zs" "us = map copy_command ys" "copy_command z = copy_command 0"
  proof -
    obtain ys ts where y: "take k (bs @ [0]) = ys @ ts" "us = map copy_command ys" "copy_command 0 # vs = map copy_command ts"
      using map_eq_append_conv [THEN iffD1, OF assms(1) [unfolded bs(1)]] by (elim exE conjE)
    from y(3) obtain z zs where "ts = z # zs" "copy_command 0 = copy_command z" unfolding Cons_eq_map_conv by blast
    then show thesis using that [of ys z zs] y(1,2) by metis
  qed
  have "z \<in> set (take k (bs @ [0]))" unfolding t(1) by simp
  then have "z \<in> set (bs @ [0])" by (rule in_set_takeD)
  then have "z \<in> set bs \<or> z = 0" unfolding set_append list.set by blast
  then have "z < n" unfolding bs(2) mem_Collect_eq using assms(2) by blast
  then have "z < 65536" using assms(3) by linarith
  then have z: "z = 0" using copy_command_inj [OF t(3)] by linarith
  have "bs @ [0] = ys @ 0 # zs @ drop k (bs @ [0])"
    using append_take_drop_id [of k "bs @ [0]"] unfolding t(1) z append_assoc append_Cons by (rule sym)
  moreover have "0 \<notin> set bs" using d by simp
  ultimately have "ys = bs" by (metis append_Cons append_Nil append_Cons_eq_iff in_set_conv_decomp d distinct_append disjoint_iff list.set_intros(1))
  moreover have "off \<in> set bs" unfolding bs(2) mem_Collect_eq using assms(4-6) by blast
  ultimately show ?thesis unfolding t(2) set_map by blast
qed

lemma copy_after:
  assumes "A @ rest = pre @ c # post" "is_copy c" "filter is_copy A = []"
  shows "set A \<subseteq> set pre"
proof -
  have "c \<notin> set A" using assms(2,3) by (auto simp: filter_empty_conv)
  from assms(1) obtain us where "A @ us = pre \<or> A = pre @ us \<and> us @ rest = c # post"
    by (auto simp: append_eq_append_conv2)
  then show ?thesis using \<open>c \<notin> set A\<close> by (cases us) auto
qed

lemma erase_in_preamble: "Tx (formatted CHR ''E'' [0, 15]) \<in> set (map Tx preamble)"
  by (simp add: preamble_def)

lemma preamble_no_copy: "filter is_copy (map Tx preamble) = []"
  by (simp add: preamble_def)

text \<open>Nothing is copied before the erase command.\<close>

lemma erased_first:
  assumes "prefix new w" "w \<in> update_logs img" "filter is_copy hs = []" "filter is_copy ts = []"
    and "hs @ new @ ts = pre @ c # post" "is_copy c"
  shows "Tx (formatted CHR ''E'' [0, 15]) \<in> set pre"
proof -
  obtain r where "w = map Tx preamble @ r" using assms(2) by (auto simp: update_logs_def elim!: concE)
  then consider new2 where "new = map Tx preamble @ new2" | "prefix new (map Tx preamble)"
    using assms(1) by (auto simp: prefix_append)
  then show ?thesis
  proof cases
    case 1
    then have "(hs @ map Tx preamble) @ (new2 @ ts) = pre @ c # post" using assms(5) by simp
    from copy_after [OF this assms(6)] show ?thesis
      using assms(3) preamble_no_copy erase_in_preamble by auto
  next
    case 2
    then obtain rest where "map Tx preamble = new @ rest" by (auto elim: prefixE)
    then have "filter is_copy new = []" using preamble_no_copy by simp
    then have "filter is_copy (pre @ c # post) = []" using assms(3,4) by (simp flip: assms(5))
    then show ?thesis using assms(6) by simp
  qed
qed

text \<open>
  C7. The vector block is written last, and only into erased flash. The blocks copied to flash are, in order,
  the first ones of a list that holds every block of the image once and block 0, the vector table, at its end;
  a completed update has gone through the whole list. No block is copied before the command that erases the
  whole flash, and block 0 is not copied before every other block of the image has been. So an update that is
  cut short anywhere between the erase command and the copy of block 0 has put no vector table into the erased
  flash.
\<close>

theorem vector_block_last:
  assumes "ValidateFirmware env img (FirmwareFilename name) s = (None, s1)" "length img < 2 ^ 32"
    and "Update env (Some img) name s = Some s'"
  defines "L \<equiv> drop (length (i_log s)) (i_log s')"
  shows "\<exists>k. filter is_copy L = map copy_command (take k (block_order (length img)))
    \<and> (last (i_log s') = UpdateComplete \<longrightarrow> length (block_order (length img)) \<le> k)
    \<and> distinct (block_order (length img)) \<and> last (block_order (length img)) = 0
    \<and> set (block_order (length img)) = {off. off mod 512 = 0 \<and> off < length img}
    \<and> (\<forall>pre off post. L = pre @ copy_command off # post \<longrightarrow> Tx (formatted CHR ''E'' [0, 15]) \<in> set pre)
    \<and> (\<forall>pre post. L = pre @ copy_command 0 # post \<longrightarrow>
        (\<forall>off. off mod 512 = 0 \<longrightarrow> off < length img \<longrightarrow> off \<noteq> 0 \<longrightarrow> copy_command off \<in> set pre))"
proof -
  obtain new ok where l: "i_log s' = i_log s @ Message (''Updating LPC1115 from '' @ FirmwareFilename name @ lf) #
      boot_rom @ new @ boot_normal @ [if ok then UpdateComplete else UpdateFailed]"
    and n: "if ok then new \<in> update_logs img else \<exists>w\<in>update_logs img. prefix new w"
    using Update_accepted [OF assms(1-3)] by blast
  let ?o = "block_order (length img)"
  define hs where "hs = Message (''Updating LPC1115 from '' @ FirmwareFilename name @ lf) # boot_rom"
  define ts where "ts = boot_normal @ [if ok then UpdateComplete else UpdateFailed]"
  have L: "L = hs @ new @ ts" by (simp add: L_def l hs_def ts_def)
  have e: "filter is_copy hs = []" "filter is_copy ts = []"
    by (simp_all add: hs_def ts_def boot_rom_def boot_normal_def UpdateComplete_def UpdateFailed_def)
  have f: "filter is_copy L = filter is_copy new" by (simp add: L e)
  have ok: "last (i_log s') = UpdateComplete \<longleftrightarrow> ok"
    unfolding l by (simp add: UpdateComplete_def UpdateFailed_def)
  obtain w where w: "w \<in> update_logs img" "prefix new w" using n by (cases ok) auto
  have "\<exists>k. filter is_copy new = map copy_command (take k ?o) \<and> (ok \<longrightarrow> length ?o \<le> k)"
  proof (cases ok)
    case True
    then show ?thesis using n copies_update by (intro exI [of _ "length ?o"]) simp
  next
    case False
    have "prefix (filter is_copy new) (map copy_command ?o)" using w by (metis copies_update prefix_filter)
    then show ?thesis using False prefix_map_take by blast
  qed
  then obtain k where k: "filter is_copy L = map copy_command (take k ?o)" "ok \<longrightarrow> length ?o \<le> k" unfolding f by blast
  note size = Validate_size [OF assms(1,2)]
  have copy: "is_copy (copy_command off)" for off by (simp add: copy_command_def)
  have erased: "Tx (formatted CHR ''E'' [0, 15]) \<in> set pre" if "L = pre @ copy_command off # post" for pre off post
    using erased_first [OF w(2,1) e _ copy] that unfolding L by blast
  have others: "copy_command off \<in> set pre"
    if "L = pre @ copy_command 0 # post" "off mod 512 = 0" "off < length img" "off \<noteq> 0" for pre post off
  proof -
    have "map copy_command (take k ?o) = filter is_copy pre @ copy_command 0 # filter is_copy post"
      unfolding k(1) [symmetric] that(1) using copy by simp
    from zero_after_others [OF this _ _ that(2-4)] size have "copy_command off \<in> set (filter is_copy pre)" by linarith
    then show ?thesis by simp
  qed
  have "0 < length img" using size by linarith
  then show ?thesis
    using k ok erased others block_order_distinct block_order_set
    by (intro exI [of _ k]) (auto simp: block_order_def)
qed

section \<open>Which images are accepted\<close>

text \<open>The 32-bit word of the image at \<open>off\<close>.\<close>

definition word_at :: "u8 list \<Rightarrow> nat \<Rightarrow> u32" where
  "word_at img off = le32 (take 4 (drop off img))"

definition vectors_ok :: "u8 list \<Rightarrow> bool" where
  "vectors_ok img \<longleftrightarrow> word_at img 0 = RamTop
     \<and> odd (unat (word_at img 4)) \<and> unat (word_at img 4) - 1 < length img
     \<and> (\<Sum>i<8. unat (word_at img (4 * i))) mod 2 ^ 32 = 0"

definition acceptable :: "u8 list \<Rightarrow> bool" where
  "acceptable img \<longleftrightarrow> 32 \<le> length img \<and> length img \<le> 65536 \<and> vectors_ok img
     \<and> (length img \<le> 764 \<or> 768 \<le> length img \<and> \<not> IsCrpProtected (word_at img 764))"

lemma le32_take: "4 \<le> length xs \<Longrightarrow> le32 (take 4 xs) = le32 xs"
  by (simp add: le32_def)

lemma sum_words: "unat (sum_list (ws :: u32 list)) = (\<Sum>w\<leftarrow>ws. unat w) mod 2 ^ 32"
proof (induction ws)
  case (Cons w ws)
  have "unat (w + sum_list ws) = (unat w + unat (sum_list ws)) mod 2 ^ 32"
    by (simp add: unat_word_ariths)
  also have "\<dots> = (unat w + (\<Sum>w\<leftarrow>ws. unat w)) mod 2 ^ 32" unfolding Cons by (simp add: mod_simps)
  finally show ?case by simp
qed simp

lemma unat_and_1: "unat ((w :: u32) AND 1) = unat w mod 2"
  by (simp add: and_one_eq unat_mod)

lemma odd_word: "((w :: u32) AND 1 = 0) = even (unat w)"
proof -
  have "(w AND 1 = 0) = (unat (w AND 1) = 0)" by (simp only: unat_eq_zero)
  then show ?thesis unfolding unat_and_1 by (simp only: even_iff_mod_2_eq_zero)
qed

lemma clear_bit_0: "odd (unat (r :: u32)) \<Longrightarrow> unat (r AND NOT 1) = unat r - 1"
proof -
  assume o: "odd (unat r)"
  then have "unat (r AND 1) = 1" unfolding unat_and_1 by presburger
  then have "r AND 1 = 1" by (metis unat_1 word_unat_eq_iff)
  moreover have "(r AND 1) + (r AND NOT 1) = (r AND 1) OR (r AND NOT 1)"
    by (rule disjunctive_add_eq_or) (rule bit_word_eqI, auto simp: bit_simps)
  moreover have "(r AND 1) OR (r AND NOT 1) = r" by (rule bit_word_eqI) (auto simp: bit_simps)
  ultimately have "1 + (r AND NOT 1) = r" by simp
  then have "r AND NOT 1 = r - 1" by (metis add_diff_cancel_left')
  moreover have "1 \<le> r" using o by (cases "r = 0") (simp_all add: word_le_nat_alt Suc_le_eq unat_gt_0)
  ultimately show ?thesis by (simp add: unat_sub)
qed

lemma vectors_invalid_iff:
  assumes "32 \<le> length img" "length img \<le> 65536"
  shows "vectors_invalid (of_nat (length img)) (take 32 img) \<longleftrightarrow> \<not> vectors_ok img"
proof -
  have w: "le32 (drop (4 * i) (take 32 img)) = word_at img (4 * i)" if "i < 8" for i
    using that assms(1) by (simp add: word_at_def le32_def)
  have ws: "map (\<lambda>i. le32 (drop (4 * i) (take 32 img))) [0..<8] = map (\<lambda>i. word_at img (4 * i)) [0..<8]"
    using w by simp
  have n: "unat (of_nat (length img) :: u32) = length img" using assms(2) by (simp add: unat_of_nat_small)
  have s: "sum_list (map (\<lambda>i. word_at img (4 * i)) [0..<8]) = 0
      \<longleftrightarrow> (\<Sum>i<8. unat (word_at img (4 * i))) mod 2 ^ 32 = 0"
    using sum_words [of "map (\<lambda>i. word_at img (4 * i)) [0..<8]"]
    by (simp add: unat_eq_zero [symmetric] interv_sum_list_conv_sum_set_nat comp_def lessThan_atLeast0 del: unat_eq_zero)
  show ?thesis
    unfolding vectors_invalid_def vectors_ok_def Let_def ws s
    using n clear_bit_0 [of "word_at img 4"]
    by (cases "odd (unat (word_at img 4))") (auto simp: odd_word word_le_nat_alt upt_rec simp del: not_one_eq)
qed

text \<open>
  C39. The images that are accepted, when the file can be read: between 32 bytes and 64K, the initial stack
  pointer at the top of the RAM, an odd reset vector inside the image, eight vectors that sum to zero, and a
  code-protection word that protects nothing. An image that ends inside that word (765 to 767 bytes) is
  refused as unreadable. With any other image an update only reports the reason: it writes nothing, drives no
  pin and leaves the link to the coprocessor alone.
\<close>

theorem firmware_acceptance:
  assumes "\<forall>k. \<not> env_fails env k" "length img < 2 ^ 32"
  shows "(fst (ValidateFirmware env img f s) = None \<longleftrightarrow> acceptable img)
    \<and> (\<not> acceptable img \<longrightarrow> (\<exists>reply. \<forall>name. FirmwareFilename name = f \<longrightarrow>
        (\<exists>s'. Update env (Some img) name s = Some s' \<and> i_log s' = i_log s @ [Message reply] \<and> i_host s' = i_host s)))"
proof -
  let ?n = "of_nat (length img) :: u32"
  have n: "unat ?n = length img" using assms(2) by (simp add: unat_of_nat_small)
  have size: "(?n < 32 \<or> ?n > FlashSize) \<longleftrightarrow> \<not> (32 \<le> length img \<and> length img \<le> 65536)"
    using n by (auto simp: word_less_nat_alt FlashSize_def)
  have off: "(?n > CrpOffset) = (764 < length img)" "unat CrpOffset = 764"
    using n by (simp_all add: word_less_nat_alt CrpOffset_def)
  have iff: "fst (ValidateFirmware env img f s) = None \<longleftrightarrow> acceptable img"
  proof (cases "32 \<le> length img \<and> length img \<le> 65536")
    case False
    then have "ValidateFirmware env img f s = (Some (''LPC firmware \"'' @ f @ ''\" has invalid size''), s)"
      using size by (auto simp: ValidateFirmware_def Let_def)
    then show ?thesis using False by (auto simp: acceptable_def)
  next
    case True
    then have ok: "\<not> (?n < 32 \<or> ?n > FlashSize)" using size by simp
    have v: "vectors_invalid ?n (take 32 img) \<longleftrightarrow> \<not> vectors_ok img"
      using vectors_invalid_iff True by blast
    have ff: "IsCrpProtected (le32 (replicate 4 0xFF)) = False"
      by (simp add: le32_def IsCrpProtected_def Crp1_def Crp2_def Crp3_def CrpNoIsp_def)
    show ?thesis
      using True assms(1) v ff unfolding ValidateFirmware_def Let_def if_not_P [OF ok] off
      by (auto simp: file_read_def acceptable_def word_at_def)
  qed
  have "\<exists>reply. \<forall>name. FirmwareFilename name = f \<longrightarrow>
      (\<exists>s'. Update env (Some img) name s = Some s' \<and> i_log s' = i_log s @ [Message reply] \<and> i_host s' = i_host s)"
    if bad: "\<not> acceptable img"
  proof -
    obtain reply s1 where r: "ValidateFirmware env img f s = (Some reply, s1)"
      using bad iff by (cases "ValidateFirmware env img f s") auto
    note q = Validate_quiet [OF r]
    have "\<exists>s'. Update env (Some img) name s = Some s'
        \<and> i_log s' = i_log s @ [Message (''LPC update: '' @ take 100 reply @ lf)] \<and> i_host s' = i_host s"
      if nm: "FirmwareFilename name = f" for name
      unfolding Update_def Let_def nm r option.case prod.case using q by simp
    then show ?thesis by blast
  qed
  then show ?thesis using iff by blast
qed

section \<open>Every wait ends\<close>

text \<open>
  Delays take at least one tick, and the clock does not jump over a whole time limit; the two readings of a
  turn of \<open>WaitForLine\<close> are at most one tick apart.
\<close>

definition ticks :: "IspEnv \<Rightarrow> bool" where
  "ticks env \<longleftrightarrow> (\<forall>k. 1 \<le> unat (fst (env_delay env k)) \<and> unat (fst (env_delay env k)) \<le> 2 ^ 32 - 5000
     \<and> env_gap env k \<le> 1)"

lemma drain_Line: "drain cap rx line = Line l rest \<Longrightarrow> length rest < length rx"
  by (induction cap rx line rule: drain.induct) (auto split: if_splits)

definition returns :: "'a option \<Rightarrow> bool" where
  "returns m \<longleftrightarrow> m \<noteq> None"

lemma returns_simps [simp]: "returns (Some x)" "\<not> returns None"
  by (simp_all add: returns_def)

lemma returns_bind: "returns m \<Longrightarrow> (\<And>x. m = Some x \<Longrightarrow> returns (f x)) \<Longrightarrow> returns (Option.bind m f)"
  by (cases m) simp_all

lemma returnsE: "returns m \<Longrightarrow> (\<And>x s. m = Some (x, s) \<Longrightarrow> P) \<Longrightarrow> P"
  by (cases m) auto

text \<open>The time since \<open>started\<close>, and how it grows over a delay.\<close>

definition since :: "u32 \<Rightarrow> Isp \<Rightarrow> nat" where
  "since started s = unat (i_clock s - started)"

lemma since_delay:
  assumes "ticks env" "since started s < unat timeout" "timeout \<le> (5000 :: u32)"
  shows "since started s < since started (isp_delay env (s\<lparr>i_inbox := x\<rparr>))"
proof -
  let ?w = "env_delay env (i_waits s)"
  have w: "1 \<le> unat (fst ?w)" "unat (fst ?w) \<le> 2 ^ 32 - 5000" using assms(1) by (simp_all add: ticks_def)
  have t: "unat timeout \<le> 5000" using assms(3) by (simp add: word_le_nat_alt)
  have "i_clock (isp_delay env (s\<lparr>i_inbox := x\<rparr>)) - started = (i_clock s - started) + fst ?w"
    by (simp add: isp_delay_def pass_def)
  moreover have "unat ((i_clock s - started) + fst ?w) = since started s + unat (fst ?w)"
    unfolding since_def by (rule unat_add_small) (use w t assms(2) in \<open>simp add: since_def\<close>)
  ultimately have "since started (isp_delay env (s\<lparr>i_inbox := x\<rparr>)) = since started s + unat (fst ?w)"
    by (simp only: since_def)
  then show ?thesis using w by simp
qed

lemma read_loop_returns:
  assumes "ticks env" "timeout \<le> 5000"
  shows "\<exists>r s1. read_loop env cap timeout started line s = Some (r, s1)
    \<and> (r \<noteq> None \<longrightarrow> since started s1 < unat timeout
        \<and> (since started s < since started s1 \<or> i_clock s1 = i_clock s \<and> length (i_inbox s1) < length (i_inbox s)))"
proof (induction "unat timeout - since started s" arbitrary: line s rule: less_induct)
  case less
  show ?case
  proof (cases "i_clock s - started < timeout")
    case False
    then show ?thesis by (subst read_loop.simps) simp
  next
    case True
    then have lt: "since started s < unat timeout" by (simp add: since_def word_less_nat_alt)
    show ?thesis
    proof (cases "drain cap (i_inbox s) line")
      case (Line l rx)
      have "read_loop env cap timeout started line s = Some (Some (content l), s\<lparr>i_inbox := rx\<rparr>)"
        using True Line by (subst read_loop.simps) simp
      then show ?thesis using lt drain_Line [OF Line] by (simp add: since_def)
    next
      case (Overlong rx)
      then show ?thesis using True by (subst read_loop.simps) simp
    next
      case (Pending l)
      let ?s = "isp_delay env (s\<lparr>i_inbox := []\<rparr>)"
      have later: "since started s < since started ?s" by (rule since_delay [OF assms(1) lt assms(2)])
      have "unat timeout - since started ?s < unat timeout - since started s" using later lt by simp
      from less(1) [OF this, of l] obtain r s1 where r: "read_loop env cap timeout started l ?s = Some (r, s1)"
        "r \<noteq> None \<longrightarrow> since started s1 < unat timeout \<and> (since started ?s < since started s1
          \<or> i_clock s1 = i_clock ?s \<and> length (i_inbox s1) < length (i_inbox ?s))" by blast
      have "read_loop env cap timeout started line s = Some (r, s1)"
        using True Pending r(1) by (subst read_loop.simps) simp
      moreover have "since started s < since started s1" if "r \<noteq> None"
      proof -
        have "since started ?s \<le> since started s1" using r(2) that by (auto simp: since_def)
        then show ?thesis using later by simp
      qed
      ultimately show ?thesis using r(2) by blast
    qed
  qed
qed

lemma ReadLine_returns:
  "ticks env \<Longrightarrow> timeout \<le> 5000 \<Longrightarrow> returns (isp_ReadLine env cap timeout s)"
  unfolding isp_ReadLine_def using read_loop_returns [of env timeout cap "i_clock s" "[]" s] by auto

lemma since_shift:
  assumes "unat (c2 - c1) < unat (t - (c1 - st))" "c1 - st < (t :: u32)"
  shows "unat (c2 - st) = unat (c1 - st) + unat (c2 - c1)" "unat (c2 - st) < unat t"
proof -
  have d: "unat (t - (c1 - st)) = unat t - unat (c1 - st)" using assms(2) by (simp add: unat_sub)
  have "c2 - st = (c1 - st) + (c2 - c1)" by simp
  moreover have "unat ((c1 - st) + (c2 - c1)) = unat (c1 - st) + unat (c2 - c1)"
    by (rule unat_add_small) (use assms d u32_bound [of t] in \<open>simp add: word_less_nat_alt\<close>)
  ultimately show "unat (c2 - st) = unat (c1 - st) + unat (c2 - c1)" by simp
  then show "unat (c2 - st) < unat t" using assms d by (simp add: word_less_nat_alt)
qed

lemma wait_loop_returns:
  assumes "ticks env" "timeout \<le> 5000"
  shows "returns (wait_loop env expected timeout started s)"
proof (induction "(unat timeout - since started s, length (i_inbox s))" arbitrary: s
    rule: wf_induct_rule [OF wf_lex_prod [OF wf_less_than wf_less_than]])
  case (1 s)
  show ?case
  proof (cases "i_clock s - started < timeout")
    case False
    then show ?thesis by (subst wait_loop.simps) simp
  next
    case True
    define s0 where "s0 = second_reading env s"
    let ?rem = "timeout - (i_clock s0 - started)"
    define g where "g = env_gap env (i_turns s)"
    have g: "unat g \<le> 1" using assms(1) by (simp add: ticks_def g_def word_le_nat_alt)
    have s0: "i_clock s0 - started = (i_clock s - started) + g" "i_inbox s0 = i_inbox s"
      by (simp_all add: s0_def second_reading_def g_def)
    have lt0: "since started s < unat timeout" using True by (simp add: since_def word_less_nat_alt)
    have el: "since started s0 = since started s + unat g"
      unfolding since_def s0(1) by (rule unat_add_small) (use g lt0 assms(2) in \<open>simp add: since_def word_le_nat_alt\<close>)
    have le0: "i_clock s0 - started \<le> timeout" using el lt0 g by (simp add: since_def word_le_nat_alt)
    have rem: "?rem \<le> 5000" using le0 assms(2) by (meson order_trans word_sub_le)
    have step: "wait_loop env expected timeout started s =
        Option.bind (read_loop env 96 ?rem (i_clock s0) [] s0) (\<lambda>(r, s1). case r of None \<Rightarrow> Some (False, s1)
          | Some line \<Rightarrow> if dropWhile (\<lambda>c. c = CHR ''?'') line = expected then Some (True, s1)
              else wait_loop env expected timeout started s1)"
      using True by (subst wait_loop.simps) (simp add: s0_def isp_ReadLine_def Let_def)
    obtain r s1 where r: "read_loop env 96 ?rem (i_clock s0) [] s0 = Some (r, s1)"
      "r \<noteq> None \<longrightarrow> since (i_clock s0) s1 < unat ?rem \<and> (since (i_clock s0) s0 < since (i_clock s0) s1
         \<or> i_clock s1 = i_clock s0 \<and> length (i_inbox s1) < length (i_inbox s0))"
      using read_loop_returns [OF assms(1) rem, of 96 "i_clock s0" "[]" s0] by blast
    show ?thesis
    proof (cases r)
      case None
      then show ?thesis by (simp add: step r(1))
    next
      case (Some line)
      then have lt: "unat (i_clock s1 - i_clock s0) < unat ?rem" using r(2) by (simp add: since_def)
      have "i_clock s0 - started < timeout" using lt le0 by (cases "i_clock s0 - started = timeout") auto
      note sh = since_shift [OF lt this]
      have z: "since (i_clock s0) s0 = 0" by (simp add: since_def)
      have "((unat timeout - since started s1, length (i_inbox s1)),
          (unat timeout - since started s, length (i_inbox s))) \<in> less_than <*lex*> less_than"
      proof (cases "since (i_clock s0) s1 = 0 \<and> g = 0")
        case True
        then have "i_clock s1 = i_clock s" "length (i_inbox s1) < length (i_inbox s)"
          using r(2) Some z s0 by (auto simp: since_def)
        then show ?thesis by (simp add: since_def)
      next
        case False
        then have "0 < since (i_clock s0) s1 \<or> 0 < unat g" by (metis gr0I unat_eq_zero)
        then have "since started s < since started s1" using sh(1) el by (auto simp: since_def)
        then show ?thesis using sh(2) by (simp add: since_def diff_less_mono2)
      qed
      from 1 [OF this] have "returns (wait_loop env expected timeout started s1)" .
      then show ?thesis using r(1) Some by (simp add: step)
    qed
  qed
qed

text \<open>
  The bound on the gap is sharp. With two ticks between the readings, the second may be past the limit: then
  the time that remains wraps round, and \<open>ReadLine\<close> is to wait for up to \<open>2 ^ 32 - 1\<close> milliseconds.
\<close>

lemma remaining_wraps:
  assumes "i_clock s - started = 4999" "env_gap env (i_turns s) = 2"
  shows "wait_loop env expected CommandTimeout started s =
      Option.bind (isp_ReadLine env 96 0xFFFFFFFF (second_reading env s)) (\<lambda>(r, s1). case r of
        None \<Rightarrow> Some (False, s1)
      | Some line \<Rightarrow> if dropWhile (\<lambda>c. c = CHR ''?'') line = expected then Some (True, s1)
          else wait_loop env expected CommandTimeout started s1)"
proof -
  have "i_clock (second_reading env s) - started = (i_clock s - started) + 2"
    using assms(2) by (simp add: second_reading_def)
  then have "CommandTimeout - (i_clock (second_reading env s) - started) = 0xFFFFFFFF"
    using assms(1) by (simp add: CommandTimeout_def)
  moreover have "i_clock s - started < CommandTimeout" using assms(1) by (simp add: CommandTimeout_def)
  ultimately show ?thesis by (subst wait_loop.simps) (simp add: Let_def)
qed

lemma WaitForLine_returns: "ticks env \<Longrightarrow> timeout \<le> 5000 \<Longrightarrow> returns (WaitForLine env expected timeout s)"
  unfolding WaitForLine_def by (rule wait_loop_returns)

lemma and_then_returns: "returns m \<Longrightarrow> (\<And>s. returns (f s)) \<Longrightarrow> returns (and_then m f)"
  by (cases m) (auto simp: and_then_def)

lemma timeouts: "CommandTimeout \<le> 5000" "SyncTimeout \<le> 5000"
  by (simp_all add: CommandTimeout_def SyncTimeout_def)

lemma SendCommand_returns: "ticks env \<Longrightarrow> returns (SendCommand env t s)"
  unfolding SendCommand_def by (intro WaitForLine_returns timeouts)

lemma SendFormatted_returns: "ticks env \<Longrightarrow> returns (SendFormattedCommand env c args s)"
  unfolding SendFormattedCommand_def by (rule SendCommand_returns)

lemma uu_attempts_returns: "ticks env \<Longrightarrow> returns (uu_attempts n env xs s)"
proof (induction n arbitrary: s)
  case (Suc n)
  let ?t = "WriteText env (checksum_line xs) (fold (uart_write env) (uu_lines xs) s)"
  obtain r s1 where "isp_ReadLine env 16 CommandTimeout ?t = Some (r, s1)"
    using ReadLine_returns [OF Suc.prems timeouts(1)] by (rule returnsE)
  then show ?case using Suc by (auto split: option.split)
qed simp

lemma ProgramBlock_returns: "ticks env \<Longrightarrow> returns (ProgramBlock env img n off s)"
proof -
  assume t: "ticks env"
  have "returns (and_then (and_then (and_then (and_then (SendFormattedCommand env CHR ''W'' a s1)
      (SendUuencodedBlock env data)) (SendFormattedCommand env CHR ''P'' b)) (SendFormattedCommand env CHR ''C'' c))
      (\<lambda>s. if off = 0 then Some (True, s) else SendFormattedCommand env CHR ''M'' d s))" for a b c d data s1
    by (intro and_then_returns) (simp_all add: SendFormatted_returns [OF t] SendUuencodedBlock_def uu_attempts_returns [OF t])
  then show ?thesis by (auto simp: ProgramBlock_def Let_def split: option.split prod.split)
qed

lemma ProgramRange_returns:
  assumes "ticks env" "unat end \<le> 65536"
  shows "returns (ProgramRange env img n offset end s)"
proof (induction "65536 + 512 - unat offset" arbitrary: offset s rule: less_induct)
  case less
  show ?case
  proof (cases "offset < end")
    case False
    then show ?thesis by (subst ProgramRange.simps) simp
  next
    case True
    obtain ok s1 where b: "ProgramBlock env img n offset s = Some (ok, s1)"
      using ProgramBlock_returns [OF assms(1)] by (rule returnsE)
    have "unat offset < 65536" using True assms(2) by (simp add: word_less_nat_alt)
    then have "unat (offset + TransferSize) = unat offset + 512"
      by (subst unat_add_small) (simp_all add: TransferSize_def)
    then have "returns (ProgramRange env img n (offset + TransferSize) end s1)"
      using \<open>unat offset < 65536\<close> by (intro less) simp
    then show ?thesis using True b by (subst ProgramRange.simps) simp
  qed
qed

text \<open>
  C13. An update ends on a regular clock. Whatever the boot ROM answers or fails to answer, however its
  answers are cut up in time, the update runs to its last message, provided that (\<open>ticks\<close>) every delay lets at
  least one tick pass, the clock never jumps over a whole time limit, and the two clock readings of a turn of
  \<open>WaitForLine\<close> are at most one tick apart. Without the last condition \<open>remaining_wraps\<close> applies.
\<close>

theorem update_terminates:
  assumes "ticks env" "\<forall>img. opened = Some img \<longrightarrow> length img < 2 ^ 32"
  shows "\<exists>s'. Update env opened name s = Some s'"
proof (cases opened)
  case None
  then show ?thesis by (simp add: Update_def Let_def)
next
  case (Some img)
  obtain r s1 where v: "ValidateFirmware env img (FirmwareFilename name) s = (r, s1)" by fastforce
  show ?thesis
  proof (cases r)
    case (Some reply)
    then show ?thesis using v \<open>opened = Some img\<close> by (simp add: Update_def Let_def)
  next
    case None
    let ?n = "of_nat (length img) :: u32"
    have size: "length img \<le> 65536" using Validate_size [of env img _ s s1] v None Some assms(2) by simp
    let ?p = "of_nat (rounded (length img)) :: u32"
    have p: "(?n + TransferSize - 1) AND NOT (TransferSize - 1) = ?p" by (rule rounded_word [OF size])
    have up: "unat ?p \<le> 65536" using rounded_bounds(3) [OF size] by (simp add: unat_of_nat_small)
    have mn: "unat (if ?p < SectorSize then ?p else SectorSize) \<le> 65536"
      using up by (simp add: SectorSize_def)
    have "returns (Synchronize env t)" for t
      unfolding Synchronize_def by (intro and_then_returns WaitForLine_returns assms timeouts)
    moreover have "returns (CheckPartId env t)" for t
      unfolding CheckPartId_def
      by (intro and_then_returns WaitForLine_returns returns_bind ReadLine_returns assms timeouts) (auto split: prod.split)
    ultimately have pr: "returns (program_all env img ?n ?p t)" for t
      unfolding program_all_def
      by (intro and_then_returns)
        (simp_all add: SendCommand_returns [OF assms(1)] SendFormatted_returns [OF assms(1)]
          ProgramRange_returns [OF assms(1)] up mn ProgramBlock_returns [OF assms(1)] del: word_less_nat_alt)
    obtain t where t: "Update env opened name s = Option.bind (program_all env img ?n ?p t) (\<lambda>(ok, s4).
         let s5 = SetBootPins env False s4; s6 = s5\<lparr>i_host := FirmwareUpdateFinished (i_host s5), i_inbox := []\<rparr>
         in Some (event (if ok then UpdateComplete else UpdateFailed) s6))"
      unfolding Update_def Let_def Some option.case v None prod.case p by blast
    from pr [of t] obtain ok s4 where "program_all env img ?n ?p t = Some (ok, s4)" by (rule returnsE)
    then show ?thesis unfolding t by (simp add: Let_def)
  qed
qed

section \<open>A run on concrete input\<close>

text \<open>An image of eight vectors, and a boot ROM that answers every command; \<open>k\<close> counts the waits.\<close>

definition sample_image :: "u8 list" where
  "sample_image = [0, 0x20, 0, 0x10, 0x1D, 0, 0, 0, 0, 0, 0, 0, 0, 0, 0, 0, 0, 0, 0, 0, 0, 0, 0, 0, 0, 0, 0, 0,
     0xE3, 0xDF, 0xFF, 0xEF]"

definition sample_replies :: "nat \<Rightarrow> string" where
  "sample_replies k =
    (if k < 2 then [] else if k = 3 then ''Synchronized'' @ lf else if k = 5 \<or> k = 7 then ''?OK'' @ crlf
     else if k = 13 then ''0'' @ crlf @ ''327808'' @ lf
     else if k = 33 then ''OK'' @ lf else ''0'' @ lf)"

definition sample_env :: IspEnv where
  "sample_env = \<lparr>env_delay = \<lambda>k. (1, sample_replies k), env_write = \<lambda>k. (0, []), env_gap = \<lambda>k. 0, env_fails = \<lambda>k. False\<rparr>"

definition sample_isp :: Isp where
  "sample_isp = \<lparr>i_clock = 0xFFFFFFF0, i_inbox = [], i_waits = 0, i_turns = 0, i_accesses = 0, i_log = [], i_host = undefined\<rparr>"

text \<open>A step that succeeds between two counts of waits, leaving \<open>rx\<close> unread.\<close>

definition at :: "nat \<Rightarrow> string \<Rightarrow> Isp \<Rightarrow> bool" where
  "at k rx s \<longleftrightarrow> i_waits s = k \<and> i_inbox s = rx"

definition succeeds :: "nat \<Rightarrow> nat \<Rightarrow> (Isp \<Rightarrow> (bool \<times> Isp) option) \<Rightarrow> bool" where
  "succeeds j k f \<longleftrightarrow> (\<forall>s. at j [] s \<longrightarrow> (\<exists>s'. f s = Some (True, s') \<and> at k [] s'))"

lemma succeeds_and_then:
  "succeeds j k f \<Longrightarrow> succeeds k l g \<Longrightarrow> succeeds j l (\<lambda>s. and_then (f s) g)"
  unfolding succeeds_def and_then_def by fastforce

lemma read_answer:
  assumes "at k [] s" "drain cap (sample_replies k) [] = Line l rx" "1 < timeout"
  shows "\<exists>s'. isp_ReadLine sample_env cap timeout s = Some (Some (content l), s') \<and> at (Suc k) rx s'"
proof -
  have w: "isp_delay sample_env (s\<lparr>i_inbox := []\<rparr>) = s\<lparr>i_clock := i_clock s + 1, i_inbox := sample_replies k, i_waits := Suc k\<rparr>"
    using assms(1) by (simp add: isp_delay_def sample_env_def pass_def at_def)
  have "0 < timeout" using assms(3) by (metis word_gt_0 not_less_iff_gr_or_eq word_not_simps(1))
  then show ?thesis
    using assms w unfolding isp_ReadLine_def
    by (subst read_loop.simps, subst read_loop.simps) (simp add: at_def)
qed

lemma wait_answer:
  assumes "at k [] s" "drain 96 (sample_replies k) [] = Line l rx" "1 < timeout"
    and "dropWhile (\<lambda>c. c = CHR ''?'') (content l) = expected"
  shows "\<exists>s'. WaitForLine sample_env expected timeout s = Some (True, s') \<and> at (Suc k) rx s'"
proof -
  have "0 < timeout" using assms(3) by (metis word_gt_0 not_less_iff_gr_or_eq word_not_simps(1))
  moreover have "at k [] (second_reading sample_env s)" "i_clock (second_reading sample_env s) = i_clock s"
    using assms(1) by (simp_all add: at_def second_reading_def sample_env_def)
  moreover from this(1) obtain s' where "at (Suc k) rx s'"
    "isp_ReadLine sample_env 96 timeout (second_reading sample_env s) = Some (Some (content l), s')"
    using read_answer [OF _ assms(2,3)] by blast
  ultimately show ?thesis
    using assms(4) unfolding WaitForLine_def by (subst wait_loop.simps) (simp add: Let_def)
qed

lemma write_at: "at k rx s \<Longrightarrow> at (Suc k) rx (WriteText sample_env t s)"
  by (simp add: at_def WriteText_def uart_write_def pass_def event_def sample_env_def)

lemma writes_at: "at k rx s \<Longrightarrow> at (k + length ts) rx (fold (uart_write sample_env) ts s)"
proof (induction ts arbitrary: k s)
  case (Cons t ts)
  have "at (Suc k) rx (uart_write sample_env t s)" using write_at [OF Cons.prems] by (simp add: WriteText_def)
  from Cons.IH [OF this] show ?case by simp
qed simp

lemma written_succeeds:
  assumes "drain 96 (sample_replies (j + 1)) [] = Line l []" "1 < timeout"
    and "dropWhile (\<lambda>c. c = CHR ''?'') (content l) = expected"
  shows "succeeds j (j + 2) (\<lambda>s. WaitForLine sample_env expected timeout (WriteText sample_env t s))"
  using wait_answer [OF write_at _ assms(2,3)] assms(1) by (auto simp: succeeds_def)

lemma sample_zero: "k \<notin> {0, 1, 3, 5, 7, 13, 33} \<Longrightarrow> drain 96 (sample_replies k) [] = Line ''0'' []"
  by (simp add: sample_replies_def lf_def)

lemma command_succeeds:
  "j + 1 \<notin> {0, 1, 3, 5, 7, 13, 33} \<Longrightarrow> succeeds j (j + 2) (SendCommand sample_env t)"
  unfolding SendCommand_def using written_succeeds [OF sample_zero, of j CommandTimeout "''0''" t]
  by (simp add: CommandTimeout_def content_def)

lemma formatted_succeeds:
  "j + 1 \<notin> {0, 1, 3, 5, 7, 13, 33} \<Longrightarrow> succeeds j (j + 2) (SendFormattedCommand sample_env c args)"
  unfolding SendFormattedCommand_def by (rule command_succeeds)

lemma Synchronize_succeeds: "succeeds 2 10 (Synchronize sample_env)"
proof -
  have a: "drain 96 (sample_replies 3) [] = Line ''Synchronized'' []"
    "drain 96 (sample_replies 5) [] = Line ''?OK'' []" "drain 96 (sample_replies 7) [] = Line ''?OK'' []"
    by (simp_all add: sample_replies_def lf_def crlf_def)
  have t: "1 < SyncTimeout" by (simp add: SyncTimeout_def)
  have "succeeds 2 10 (\<lambda>s. and_then (and_then (and_then
      (WaitForLine sample_env ''Synchronized'' SyncTimeout (WriteText sample_env ''?'' s))
      (\<lambda>s. WaitForLine sample_env ''OK'' SyncTimeout (WriteText sample_env (''Synchronized'' @ crlf) s)))
      (\<lambda>s. WaitForLine sample_env ''OK'' SyncTimeout (WriteText sample_env (''12000'' @ crlf) s)))
      (\<lambda>s. WaitForLine sample_env ''0'' SyncTimeout (WriteText sample_env (''A 0'' @ crlf) s)))"
    using succeeds_and_then [OF succeeds_and_then [OF succeeds_and_then
      [OF written_succeeds [of 2, simplified, OF a(1) t] written_succeeds [of 4, simplified, OF a(2) t]]
      written_succeeds [of 6, simplified, OF a(3) t]] written_succeeds [of 8, simplified, OF sample_zero t]]
    by (simp add: content_def)
  then show ?thesis
    by (simp add: succeeds_def Synchronize_def at_def)
qed

lemma CheckPartId_succeeds: "succeeds 12 14 (CheckPartId sample_env)"
  unfolding succeeds_def
proof (intro allI impI)
  fix s assume "at 12 [] s"
  then have w: "at 13 [] (WriteText sample_env (''J'' @ crlf) s)" using write_at by fastforce
  have d: "drain 96 (sample_replies 13) [] = Line ''0'' (''327808'' @ lf)"
    by (simp add: sample_replies_def lf_def crlf_def)
  obtain s1 where s1: "WaitForLine sample_env ''0'' CommandTimeout (WriteText sample_env (''J'' @ crlf) s) = Some (True, s1)"
    "at 14 (''327808'' @ lf) s1"
    using wait_answer [OF w d, of CommandTimeout "''0''"] by (auto simp: content_def CommandTimeout_def)
  have "isp_ReadLine sample_env 32 CommandTimeout s1 = Some (Some ''327808'', s1\<lparr>i_inbox := []\<rparr>)"
    unfolding isp_ReadLine_def using s1(2)
    by (subst read_loop.simps) (simp add: at_def lf_def content_def CommandTimeout_def)
  moreover have "ParseU32 ''327808'' = Some PartId"
    by (simp add: ParseU32_def PartId_def Let_def)
  ultimately show "\<exists>s'. CheckPartId sample_env s = Some (True, s') \<and> at 14 [] s'"
    using s1 by (simp add: CheckPartId_def and_then_def at_def)
qed

lemma length_uu_lines: "length (uu_lines xs) = (length xs + 44) div 45"
proof (induction xs rule: uu_lines.induct)
  case (1 xs)
  show ?case
  proof (cases "xs = []")
    case False
    have "(length xs - 45 + 44) div 45 + 1 = (length xs + 44) div 45"
    proof (cases "length xs < 45")
      case True
      then show ?thesis using False by (cases "length xs") simp_all
    next
      case False
      then have "length xs + 44 = (length xs - 45 + 44) + 45" by simp
      then show ?thesis by (metis add.commute div_add_self2 plus_1_eq_Suc zero_neq_numeral add_Suc_right Suc_eq_plus1)
    qed
    then show ?thesis using 1 False by (subst uu_lines.simps) (simp add: UuencodeLineBytes_def)
  qed (simp add: uu_lines.simps)
qed

lemma uu_succeeds: "length xs = 512 \<Longrightarrow> succeeds 20 34 (SendUuencodedBlock sample_env xs)"
  unfolding succeeds_def
proof (intro allI impI)
  fix s assume len: "length xs = 512" and "at 20 [] s"
  then have "at 32 [] (fold (uart_write sample_env) (uu_lines xs) s)"
    using writes_at [of 20 "[]" s "uu_lines xs"] by (simp add: length_uu_lines)
  from write_at [OF this] have w: "at 33 [] (WriteText sample_env (checksum_line xs) (fold (uart_write sample_env) (uu_lines xs) s))"
    by simp
  have d: "drain 16 (sample_replies 33) [] = Line ''OK'' []" by (simp add: sample_replies_def lf_def)
  obtain s1 where "isp_ReadLine sample_env 16 CommandTimeout
      (WriteText sample_env (checksum_line xs) (fold (uart_write sample_env) (uu_lines xs) s)) = Some (Some ''OK'', s1)"
    "at 34 [] s1"
    using read_answer [OF w d, of CommandTimeout] by (auto simp: content_def CommandTimeout_def)
  then show "\<exists>s'. SendUuencodedBlock sample_env xs s = Some (True, s') \<and> at 34 [] s'"
    by (simp add: SendUuencodedBlock_def MaxUuencodeAttempts_def numeral_eq_Suc)
qed

lemma block_succeeds: "succeeds 18 38 (ProgramBlock sample_env sample_image 32 0)"
proof -
  let ?data = "sample_image @ replicate (unat TransferSize - length sample_image) 0xFF"
  have len: "length ?data = 512" by (simp add: sample_image_def TransferSize_def)
  have f: "file_read sample_env sample_image 0 32 s = (Some sample_image, s\<lparr>i_accesses := i_accesses s + 1\<rparr>)" for s
    by (simp add: file_read_def sample_env_def sample_image_def)
  have "succeeds 18 38 (\<lambda>s. and_then (and_then (and_then (and_then
      (SendFormattedCommand sample_env CHR ''W'' [RamBuffer, TransferSize] s)
      (SendUuencodedBlock sample_env ?data))
      (SendFormattedCommand sample_env CHR ''P'' [0, 0]))
      (SendFormattedCommand sample_env CHR ''C'' [0, RamBuffer, TransferSize])) (\<lambda>s. Some (True, s)))"
    using succeeds_and_then [OF succeeds_and_then [OF succeeds_and_then [OF succeeds_and_then
      [OF formatted_succeeds [of 18, simplified] uu_succeeds [OF len]]
      formatted_succeeds [of 34, simplified]] formatted_succeeds [of 36, simplified]], of 38 "\<lambda>s. Some (True, s)"]
    by (simp add: succeeds_def)
  then show ?thesis
    by (simp add: succeeds_def ProgramBlock_def Let_def f TransferSize_def [symmetric] at_def)
      (simp add: TransferSize_def SectorSize_def)
qed

lemma program_succeeds: "succeeds 2 38 (program_all sample_env sample_image 32 512)"
proof -
  have "succeeds 18 18 (\<lambda>s. if (512 :: u32) > SectorSize then ProgramRange sample_env sample_image 32 SectorSize 512 s
      else Some (True, s))"
    "succeeds 18 18 (\<lambda>s. if (512 :: u32) > TransferSize then ProgramRange sample_env sample_image 32 TransferSize
      (if 512 < SectorSize then 512 else SectorSize) s else Some (True, s))"
    by (simp_all add: succeeds_def SectorSize_def TransferSize_def)
  then show ?thesis
    unfolding program_all_def
    using succeeds_and_then [OF succeeds_and_then [OF succeeds_and_then [OF succeeds_and_then [OF succeeds_and_then
      [OF succeeds_and_then [OF succeeds_and_then [OF Synchronize_succeeds command_succeeds [of 10, simplified]]
      CheckPartId_succeeds] formatted_succeeds [of 14, simplified]] formatted_succeeds [of 16, simplified]]]]
      block_succeeds]
    by blast
qed

lemma sample_length: "length sample_image = 32"
  by (simp add: sample_image_def)

lemma sample_vectors: "vectors_invalid 32 sample_image = False"
proof -
  have "[0..<8] = [0, 1, 2, 3, 4, 5, 6, 7 :: nat]" by (simp add: upt_rec)
  then show ?thesis by (simp add: vectors_invalid_def Let_def sample_image_def le32_def RamTop_def)
qed

lemma sample_valid:
  "\<exists>s1. ValidateFirmware sample_env sample_image f sample_isp = (None, s1) \<and> i_waits s1 = 0 \<and> i_log s1 = []"
proof -
  have r: "file_read sample_env sample_image 0 32 sample_isp = (Some sample_image, sample_isp\<lparr>i_accesses := 1\<rparr>)"
    by (simp add: file_read_def sample_env_def sample_length sample_isp_def)
  have "\<not> IsCrpProtected (le32 (replicate 4 0xFF))"
    by (simp add: le32_def IsCrpProtected_def Crp1_def Crp2_def Crp3_def CrpNoIsp_def)
  then have "ValidateFirmware sample_env sample_image f sample_isp = (None, sample_isp\<lparr>i_accesses := 1\<rparr>)"
    by (simp add: ValidateFirmware_def Let_def sample_length FlashSize_def r sample_vectors CrpOffset_def)
  then show ?thesis by (simp add: sample_isp_def)
qed

lemma sample_completes:
  "\<exists>s'. Update sample_env (Some sample_image) [] sample_isp = Some s' \<and> last (i_log s') = UpdateComplete"
proof -
  obtain s1 where v: "ValidateFirmware sample_env sample_image (FirmwareFilename []) sample_isp = (None, s1)" "i_waits s1 = 0"
    using sample_valid by blast
  define s2 where "s2 = event (Message (''Updating LPC1115 from '' @ FirmwareFilename [] @ lf)) s1"
  define s3 where "s3 = SetBootPins sample_env True (s2\<lparr>i_host := PrepareForFirmwareUpdate (i_host s2), i_inbox := []\<rparr>)"
  have "at 2 [] s3"
    using v(2) by (simp add: s3_def s2_def SetBootPins_def Let_def event_def isp_delay_def pass_def at_def
        sample_env_def sample_replies_def)
  then obtain s4 where s4: "program_all sample_env sample_image 32 512 s3 = Some (True, s4)"
    using program_succeeds unfolding succeeds_def by blast
  have n: "(of_nat (length sample_image) + TransferSize - 1) AND NOT (TransferSize - 1) = (512 :: u32)"
    using rounded_word [of "length sample_image"] by (simp add: sample_length rounded_def)
  show ?thesis
    using s4 unfolding Update_def v(1) Let_def option.case prod.case n s2_def [symmetric] s3_def [symmetric]
    by (simp add: sample_length s3_def [symmetric])
qed

lemma sample_ticks: "ticks sample_env"
  by (simp add: ticks_def sample_env_def)

theorem update_session_witness:
  "\<exists>s' new. Update sample_env (Some sample_image) [] sample_isp = Some s' \<and> new \<in> update_logs sample_image
     \<and> i_log s' = Message (''Updating LPC1115 from Lpc1115Firmware.bin'' @ lf) # boot_rom @ new @ boot_normal @ [UpdateComplete]
     \<and> \<not> hl_firmwareUpdateActive (i_host s')"
proof -
  obtain s1 where v: "ValidateFirmware sample_env sample_image (FirmwareFilename []) sample_isp = (None, s1)"
    using sample_valid by blast
  obtain s' where s': "Update sample_env (Some sample_image) [] sample_isp = Some s'" "last (i_log s') = UpdateComplete"
    using sample_completes by blast
  have "length sample_image < 2 ^ 32" by (simp add: sample_length)
  from update_session [OF v this s'(1)] show ?thesis
    using s' by (auto simp: UpdateComplete_def UpdateFailed_def FirmwareFilename_def DefaultFirmwareFile_def sample_isp_def
        split: if_splits)
qed

theorem vector_block_last_witness:
  "\<exists>s'. Update sample_env (Some sample_image) [] sample_isp = Some s'
     \<and> filter is_copy (i_log s') = [copy_command 0]"
proof -
  obtain s1 where v: "ValidateFirmware sample_env sample_image (FirmwareFilename []) sample_isp = (None, s1)"
    using sample_valid by blast
  obtain s' where s': "Update sample_env (Some sample_image) [] sample_isp = Some s'" "last (i_log s') = UpdateComplete"
    using sample_completes by blast
  have l: "length sample_image < 2 ^ 32" by (simp add: sample_length)
  have o: "block_order (length sample_image) = [0]"
    by (simp add: block_order_def sample_length rounded_def offsets_ge)
  obtain k where "filter is_copy (i_log s') = map copy_command (take k [0])" "1 \<le> k"
    using vector_block_last [OF v l s'(1)] s'(2) unfolding o by (auto simp: sample_isp_def)
  then have "filter is_copy (i_log s') = [copy_command 0]" by (simp add: take_Cons')
  then show ?thesis using s'(1) by blast
qed

theorem update_terminates_witness:
  "\<exists>s'. Update sample_env (Some sample_image) ''other.bin'' (sample_isp\<lparr>i_inbox := ''0 0 0''\<rparr>) = Some s'"
  by (rule update_terminates) (simp_all add: sample_ticks sample_length)

theorem firmware_acceptance_witness:
  "acceptable sample_image \<and> \<not> acceptable (take 31 sample_image)
   \<and> (\<exists>s'. Update sample_env (Some (take 31 sample_image)) ''x.bin'' sample_isp = Some s' \<and> i_host s' = i_host sample_isp)"
proof -
  have e: "\<forall>k. \<not> env_fails sample_env k" by (simp add: sample_env_def)
  have "acceptable sample_image"
    using firmware_acceptance [OF e, of sample_image "''x.bin''" sample_isp] sample_valid [of "''x.bin''"]
    by (auto simp: sample_length)
  moreover have b: "\<not> acceptable (take 31 sample_image)" by (simp add: acceptable_def sample_length)
  moreover have "FirmwareFilename ''x.bin'' = ''x.bin''" by (simp add: FirmwareFilename_def)
  ultimately show ?thesis
    using firmware_acceptance [OF e, of "take 31 sample_image" "''x.bin''" sample_isp] by (auto simp: sample_length)
qed

end
