(* ===== verification/CrcProps.thy ===== *)
theory CrcProps
  imports Crc
begin

text \<open>
  The checksums against their definition: a shift register that takes one bit at a time. What follows from
  a register being linear and injective (its tables, that different registers stay different) is proved once in
  the locale \<open>crc_register\<close>; \<open>crc_right\<close> and \<open>crc_left\<close> add the direction in which it shifts, with the
  whole-byte updates and the burst errors that are detected. The three checksums are instances.
\<close>

section \<open>Exclusive or\<close>

lemma xor_cancel: "x XOR b = y XOR b \<Longrightarrow> x = (y :: 'a::len word)"
proof -
  have "(z XOR b) XOR b = z" for z :: "'a word" by (rule bit_word_eqI) (auto simp: bit_simps)
  then show "x XOR b = y XOR b \<Longrightarrow> x = y" by metis
qed

text \<open>All exclusive ors of some of the words \<open>bs\<close>, the first of them counting as the lowest binary digit.\<close>

definition xor_span :: "'a::len word list \<Rightarrow> 'a word list" where
  "xor_span bs = foldl (\<lambda>t b. t @ map (\<lambda>x. x XOR b) t) [0] bs"

lemma upt_twice: "[0..<2 * n] = [0..<n] @ map ((+) n) [0..<n]"
proof -
  have "[n..<n + n] = map ((+) n) [0..<n]" by (rule nth_equalityI) simp_all
  then show ?thesis using upt_add_eq_append [of 0 n n] by (simp add: mult_2)
qed

section \<open>Registers\<close>

locale crc_register =
  fixes step :: "'a::len word \<Rightarrow> 'a word"
  assumes linear: "step (x XOR y) = step x XOR step y"
    and inj: "step x = step y \<Longrightarrow> x = y"
begin

lemma step_0 [simp]: "step 0 = 0"
  using linear [of 0 0] by simp

lemma steps_linear: "(step ^^ n) (x XOR y) = (step ^^ n) x XOR (step ^^ n) y"
  by (induction n) (simp_all add: linear)

lemma steps_0 [simp]: "(step ^^ n) 0 = 0"
  by (induction n) simp_all

lemma steps_inj: "(step ^^ n) x = (step ^^ n) y \<Longrightarrow> x = y"
  by (induction n) (auto dest: inj)

text \<open>A table of a linear function is spanned by its values at the powers of two.\<close>

lemma table:
  assumes "n \<le> LENGTH('a)" "d + n \<le> LENGTH('a)"
  shows "map (\<lambda>i. (step ^^ m) (push_bit d (of_nat i))) [0..<2 ^ n]
    = xor_span (map (\<lambda>k. (step ^^ m) (2 ^ (d + k))) [0..<n])"
  using assms
proof (induction n)
  case 0
  show ?case by (simp add: xor_span_def)
next
  case (Suc n)
  let ?F = "\<lambda>i. (step ^^ m) (push_bit d (of_nat i))"
  have F: "?F (2 ^ n + i) = ?F i XOR (step ^^ m) (2 ^ (d + n))" if i: "i < 2 ^ n" for i
  proof -
    have nb: "\<not> bit i n" using i by (simp add: bit_iff_odd)
    have "(of_nat i :: 'a word) AND 2 ^ n = 0"
    proof (rule bit_word_eqI)
      fix k assume "k < LENGTH('a)"
      show "bit ((of_nat i :: 'a word) AND 2 ^ n) k = bit (0 :: 'a word) k"
        using nb by (auto simp: bit_simps)
    qed
    then have "(of_nat i + 2 ^ n :: 'a word) = of_nat i XOR 2 ^ n" by (rule disjunctive_add_eq_xor)
    then have "push_bit d (of_nat (2 ^ n + i) :: 'a word) = push_bit d (of_nat i) XOR push_bit d (2 ^ n)"
      by (simp add: push_bit_xor add.commute)
    also have "push_bit d (2 ^ n) = (2 ^ (d + n) :: 'a word)" by (simp add: push_bit_eq_mult power_add)
    finally show ?thesis by (simp add: steps_linear)
  qed
  have "[0..<2 ^ Suc n] = [0..<2 ^ n] @ map ((+) (2 ^ n)) [0..<2 ^ n]"
    using upt_twice [of "2 ^ n"] by simp
  then have "map ?F [0..<2 ^ Suc n] = map ?F [0..<2 ^ n] @ map (\<lambda>i. ?F (2 ^ n + i)) [0..<2 ^ n]"
    by simp
  also have "map (\<lambda>i. ?F (2 ^ n + i)) [0..<2 ^ n] = map (\<lambda>i. ?F i XOR (step ^^ m) (2 ^ (d + n))) [0..<2 ^ n]"
    by (rule map_cong [OF refl], rule F) simp
  also have "map (\<lambda>i. ?F i XOR (step ^^ m) (2 ^ (d + n))) [0..<2 ^ n]
      = map (\<lambda>x. x XOR (step ^^ m) (2 ^ (d + n))) (map ?F [0..<2 ^ n])"
    by simp
  also have "map ?F [0..<2 ^ n] = xor_span (map (\<lambda>k. (step ^^ m) (2 ^ (d + k))) [0..<n])"
    using Suc by simp
  finally show ?case by (simp add: xor_span_def)
qed

end

section \<open>Shifting right: lowest bit first\<close>

locale crc_right = crc_register step for step :: "'a::len word \<Rightarrow> 'a word" +
  assumes shifts: "\<not> bit x 0 \<Longrightarrow> step x = drop_bit 1 x"
    and wide: "8 \<le> LENGTH('a)"
begin

lemma steps_shift: "(\<And>i. i < n \<Longrightarrow> \<not> bit x i) \<Longrightarrow> (step ^^ n) x = drop_bit n x"
proof (induction n)
  case (Suc n)
  then have "(step ^^ n) x = drop_bit n x" by simp
  moreover have "step (drop_bit n x) = drop_bit 1 (drop_bit n x)"
    by (rule shifts) (simp add: bit_drop_bit_eq Suc.prems)
  ultimately show ?case by (simp add: drop_bit_drop_bit)
qed simp

lemma steps_push: "(\<And>i. LENGTH('a) - n \<le> i \<Longrightarrow> \<not> bit x i) \<Longrightarrow> (step ^^ n) (push_bit n x) = x"
proof -
  assume b: "\<And>i. LENGTH('a) - n \<le> i \<Longrightarrow> \<not> bit x i"
  have "(step ^^ n) (push_bit n x) = drop_bit n (push_bit n x)"
    by (rule steps_shift) (simp add: bit_push_bit_iff)
  also have "\<dots> = x"
  proof (rule bit_word_eqI)
    fix i assume "i < LENGTH('a)"
    then show "bit (drop_bit n (push_bit n x)) i = bit x i"
      using b [of i] by (cases "n + i < LENGTH('a)") (auto simp: bit_simps)
  qed
  finally show ?thesis .
qed

text \<open>A byte goes through the register lowest bit first.\<close>

definition byte_step :: "'a word \<Rightarrow> u8 \<Rightarrow> 'a word" where
  "byte_step crc c = (step ^^ 8) (crc XOR ucast c)"

lemma low_byte: "x AND 0xFF = (ucast (ucast x :: u8) :: 'a word)"
proof -
  have m: "(0xFF :: 'a word) = mask 8" by (simp add: mask_eq_exp_minus_1)
  show ?thesis unfolding m by (rule bit_word_eqI) (auto simp: bit_simps dest: bit_imp_le_length)
qed

lemma steps_split: "(step ^^ 8) x = (step ^^ 8) (x AND 0xFF) XOR drop_bit 8 x"
proof -
  let ?hi = "push_bit 8 (drop_bit 8 x)"
  have m: "(0xFF :: 'a word) = mask 8" by (simp add: mask_eq_exp_minus_1)
  have "x = (x AND 0xFF) XOR ?hi"
    unfolding m by (rule bit_word_eqI) (auto simp: bit_simps)
  then have "(step ^^ 8) x = (step ^^ 8) ((x AND 0xFF) XOR ?hi)" by (rule arg_cong)
  also have "\<dots> = (step ^^ 8) (x AND 0xFF) XOR (step ^^ 8) ?hi" by (rule steps_linear)
  also have "(step ^^ 8) ?hi = drop_bit 8 ?hi" by (rule steps_shift) (simp add: bit_push_bit_iff)
  also have "drop_bit 8 ?hi = drop_bit 8 x"
    by (rule bit_word_eqI) (auto simp: bit_simps dest: bit_imp_le_length)
  finally show ?thesis .
qed

lemma byte_step_split:
  "byte_step crc c = (step ^^ 8) ((crc XOR ucast c) AND 0xFF) XOR drop_bit 8 crc"
proof -
  have "drop_bit 8 (crc XOR ucast c) = drop_bit 8 crc"
    by (rule bit_word_eqI) (auto simp: bit_simps dest: bit_imp_le_length)
  then show ?thesis unfolding byte_step_def by (subst steps_split) simp
qed

text \<open>Several bytes as one word, the first of them lowest.\<close>

fun le_word :: "u8 list \<Rightarrow> 'a word" where
  "le_word [] = 0"
| "le_word (b # bs) = ucast b XOR push_bit 8 (le_word bs)"

lemma le_word_high: "8 * length bs \<le> i \<Longrightarrow> \<not> bit (le_word bs) i"
  by (induction bs arbitrary: i) (auto simp: bit_simps dest: bit_imp_le_length)

lemma fold_word:
  "8 * length bs \<le> LENGTH('a) \<Longrightarrow> foldl byte_step crc bs = (step ^^ (8 * length bs)) (crc XOR le_word bs)"
proof (induction bs arbitrary: crc)
  case (Cons b bs)
  have "foldl byte_step crc (b # bs) = (step ^^ (8 * length bs)) ((step ^^ 8) (crc XOR ucast b) XOR le_word bs)"
    using Cons.IH [of "(step ^^ 8) (crc XOR ucast b)"] Cons.prems by (simp add: byte_step_def [of crc b])
  also have "le_word bs = (step ^^ 8) (push_bit 8 (le_word bs))"
    by (rule steps_push [symmetric]) (use Cons.prems le_word_high in auto)
  also have "(step ^^ 8) (crc XOR ucast b) XOR (step ^^ 8) (push_bit 8 (le_word bs))
      = (step ^^ 8) (crc XOR le_word (b # bs))"
    by (simp add: steps_linear xor.assoc)
  finally show ?case using funpow_add [of "8 * length bs" 8 step] by (simp add: add.commute)
qed simp

lemma le_word_inj:
  "8 * length bs \<le> LENGTH('a) \<Longrightarrow> length bs = length cs \<Longrightarrow> le_word bs = le_word cs \<Longrightarrow> bs = cs"
proof (induction bs arbitrary: cs)
  case (Cons b bs)
  then obtain c cs' where cs: "cs = c # cs'" by (cases cs) auto
  have e: "bit (ucast b XOR push_bit 8 (le_word bs)) i = bit (ucast c XOR push_bit 8 (le_word cs')) i" for i
    using Cons.prems(3) cs by simp
  have "b = c"
  proof (rule bit_word_eqI)
    fix i assume "i < LENGTH(8)"
    then show "bit b i = bit c i" using e [of i] wide by (auto simp: bit_simps)
  qed
  moreover have "le_word bs = le_word cs'"
  proof (rule bit_word_eqI)
    fix i assume "i < LENGTH('a)"
    show "bit (le_word bs) i = bit (le_word cs') i"
    proof (cases "i + 8 < LENGTH('a)")
      case True
      then show ?thesis using e [of "i + 8"] by (auto simp: bit_simps dest: bit_imp_le_length)
    next
      case False
      then show ?thesis using le_word_high Cons.prems cs by auto
    qed
  qed
  then have "bs = cs'" using Cons cs by simp
  ultimately show ?case using cs by simp
qed simp

lemma fold_inj: "foldl byte_step c s = foldl byte_step d s \<Longrightarrow> c = d"
proof (induction s arbitrary: c d)
  case (Cons b s)
  then have "byte_step c b = byte_step d b" by simp
  then have "c XOR ucast b = d XOR ucast b" unfolding byte_step_def by (rule steps_inj)
  then show ?case by (rule xor_cancel)
qed simp

text \<open>An error in no more neighbouring bytes than the register has is always detected.\<close>

lemma burst_detected:
  assumes "8 * length x \<le> LENGTH('a)" "length y = length x" "x \<noteq> y"
  shows "foldl byte_step c (a @ x @ b) \<noteq> foldl byte_step c (a @ y @ b)"
proof
  let ?c = "foldl byte_step c a"
  assume "foldl byte_step c (a @ x @ b) = foldl byte_step c (a @ y @ b)"
  then have "foldl byte_step ?c x = foldl byte_step ?c y" by (auto dest: fold_inj)
  then have "(step ^^ (8 * length x)) (le_word x XOR ?c) = (step ^^ (8 * length x)) (le_word y XOR ?c)"
    using assms(1,2) by (simp add: fold_word xor.commute)
  then have "le_word x = le_word y" by (auto dest: steps_inj xor_cancel)
  then show False using le_word_inj assms by metis
qed

end

section \<open>Shifting left: highest bit first\<close>

locale crc_left = crc_register step for step :: "'a::len word \<Rightarrow> 'a word" +
  assumes shifts: "\<not> bit x (LENGTH('a) - 1) \<Longrightarrow> step x = push_bit 1 x"
    and wide: "8 \<le> LENGTH('a)"
begin

lemma steps_shift:
  "(\<And>i. LENGTH('a) - n \<le> i \<Longrightarrow> \<not> bit x i) \<Longrightarrow> n \<le> LENGTH('a) \<Longrightarrow> (step ^^ n) x = push_bit n x"
proof (induction n)
  case (Suc n)
  then have "(step ^^ n) x = push_bit n x" by simp
  moreover have "step (push_bit n x) = push_bit 1 (push_bit n x)"
    by (rule shifts) (use Suc.prems in \<open>auto simp: bit_push_bit_iff\<close>)
  ultimately show ?case by simp
qed simp

text \<open>A byte enters the register at its high end.\<close>

definition byte_step :: "'a word \<Rightarrow> u8 \<Rightarrow> 'a word" where
  "byte_step crc c = (step ^^ 8) (crc XOR push_bit (LENGTH('a) - 8) (ucast c))"

lemma byte_step_split:
  "byte_step crc c = push_bit 8 crc
     XOR (step ^^ 8) (push_bit (LENGTH('a) - 8) (drop_bit (LENGTH('a) - 8) crc XOR ucast c))"
proof -
  let ?k = "LENGTH('a) - 8"
  let ?lo = "take_bit ?k crc" and ?hi = "push_bit ?k (drop_bit ?k crc XOR ucast c)"
  have "crc XOR push_bit ?k (ucast c) = ?lo XOR ?hi"
    by (rule bit_word_eqI) (auto simp: bit_simps)
  then have "byte_step crc c = (step ^^ 8) ?lo XOR (step ^^ 8) ?hi"
    by (simp add: byte_step_def steps_linear)
  moreover have "(step ^^ 8) ?lo = push_bit 8 ?lo"
    by (rule steps_shift) (use wide in \<open>auto simp: bit_simps\<close>)
  moreover have "push_bit 8 ?lo = push_bit 8 crc"
    by (rule bit_word_eqI) (use wide in \<open>auto simp: bit_simps\<close>)
  ultimately show ?thesis by simp
qed

lemma fold_inj: "foldl byte_step c s = foldl byte_step d s \<Longrightarrow> c = d"
proof (induction s arbitrary: c d)
  case (Cons b s)
  then have "byte_step c b = byte_step d b" by simp
  then show ?case unfolding byte_step_def by (auto dest: steps_inj xor_cancel)
qed simp

lemma byte_detected:
  assumes "x \<noteq> y" shows "foldl byte_step c (a @ x # b) \<noteq> foldl byte_step c (a @ y # b)"
proof
  let ?c = "foldl byte_step c a" and ?k = "LENGTH('a) - 8"
  assume "foldl byte_step c (a @ x # b) = foldl byte_step c (a @ y # b)"
  then have "byte_step ?c x = byte_step ?c y" by (auto dest: fold_inj)
  then have "push_bit ?k (ucast x) XOR ?c = push_bit ?k (ucast y :: 'a word) XOR ?c"
    unfolding byte_step_def by (auto dest!: steps_inj simp: xor.commute)
  then have e: "push_bit ?k (ucast x) = (push_bit ?k (ucast y) :: 'a word)" by (rule xor_cancel)
  have "x = y"
  proof (rule bit_word_eqI)
    fix i assume i: "i < LENGTH(8)"
    have "bit (push_bit ?k (ucast x) :: 'a word) (i + ?k) = bit (push_bit ?k (ucast y) :: 'a word) (i + ?k)"
      by (simp only: e)
    then show "bit x i = bit y i" using i wide by (auto simp: bit_simps)
  qed
  then show False using assms by simp
qed

end

section \<open>The three polynomials\<close>

definition reflected_step :: "'a::len word \<Rightarrow> 'a word \<Rightarrow> 'a word" where
  "reflected_step poly x = (if bit x 0 then drop_bit 1 x XOR poly else drop_bit 1 x)"

definition normal_step :: "'a::len word \<Rightarrow> 'a word \<Rightarrow> 'a word" where
  "normal_step poly x = (if bit x (LENGTH('a) - 1) then push_bit 1 x XOR poly else push_bit 1 x)"

lemma reflected_linear: "reflected_step p (x XOR y) = reflected_step p x XOR reflected_step p y"
  by (rule bit_word_eqI) (auto simp: reflected_step_def bit_simps)

lemma normal_linear: "normal_step p (x XOR y) = normal_step p x XOR normal_step p y"
  by (rule bit_word_eqI) (auto simp: normal_step_def bit_simps)

lemma reflected_inj:
  fixes p :: "'a::len word"
  assumes "bit p (LENGTH('a) - 1)" "reflected_step p x = reflected_step p y" shows "x = y"
proof -
  have top: "bit (reflected_step p z) (LENGTH('a) - 1) = bit z 0" for z
    using assms(1) by (auto simp: reflected_step_def bit_simps dest: bit_imp_le_length)
  have b0: "bit x 0 = bit y 0" using top [of x] top [of y] assms(2) by simp
  then have d: "drop_bit 1 x = drop_bit 1 y"
    using assms(2) by (auto simp: reflected_step_def dest: xor_cancel split: if_splits)
  show ?thesis
  proof (rule bit_word_eqI)
    fix i assume "i < LENGTH('a)"
    show "bit x i = bit y i"
    proof (cases i)
      case (Suc j)
      have "bit (drop_bit 1 x) j = bit (drop_bit 1 y) j" by (simp only: d)
      then show ?thesis using Suc by (simp add: bit_drop_bit_eq)
    qed (simp add: b0)
  qed
qed

lemma normal_inj:
  fixes p :: "'a::len word"
  assumes "bit p 0" "normal_step p x = normal_step p y" shows "x = y"
proof -
  have low: "bit (normal_step p z) 0 = bit z (LENGTH('a) - 1)" for z
  proof -
    have "\<not> bit (push_bit 1 z) 0" by (subst bit_push_bit_iff) simp
    then show ?thesis using assms(1) by (simp add: normal_step_def bit_xor_iff del: push_bit_numeral)
  qed
  have b: "bit x (LENGTH('a) - 1) = bit y (LENGTH('a) - 1)" using low [of x] low [of y] assms(2) by simp
  then have d: "push_bit 1 x = push_bit 1 y"
    using assms(2) by (auto simp: normal_step_def dest: xor_cancel split: if_splits)
  show ?thesis
  proof (rule bit_word_eqI)
    fix i assume i: "i < LENGTH('a)"
    show "bit x i = bit y i"
    proof (cases "Suc i < LENGTH('a)")
      case True
      have "bit (push_bit 1 z) (Suc i) = bit z i" for z :: "'a word"
        using True by (subst bit_push_bit_iff) simp
      then show ?thesis using d by metis
    next
      case False
      then have "i = LENGTH('a) - 1" using i by simp
      then show ?thesis using b by simp
    qed
  qed
qed

lemma reflected_shifts: "\<not> bit x 0 \<Longrightarrow> reflected_step p x = drop_bit 1 x"
  unfolding reflected_step_def by (simp only: if_False)

lemma normal_shifts: "\<not> bit x (LENGTH('a) - 1) \<Longrightarrow> normal_step p (x :: 'a::len word) = push_bit 1 x"
  unfolding normal_step_def by (simp only: if_False)

definition crc32_step :: "u32 \<Rightarrow> u32" where
  "crc32_step = reflected_step 0xEDB88320"

definition modbus_step :: "u16 \<Rightarrow> u16" where
  "modbus_step = reflected_step 0xA001"

definition xmodem_step :: "u16 \<Rightarrow> u16" where
  "xmodem_step = normal_step 0x1021"

interpretation crc32: crc_right crc32_step
  unfolding crc32_step_def
  by unfold_locales (rule reflected_linear, erule reflected_inj [rotated], simp, erule reflected_shifts, simp)

interpretation modbus: crc_right modbus_step
  unfolding modbus_step_def
  by unfold_locales (rule reflected_linear, erule reflected_inj [rotated], simp, erule reflected_shifts, simp)

interpretation xmodem: crc_left xmodem_step
  unfolding xmodem_step_def
  by unfold_locales (rule normal_linear, erule normal_inj [rotated], simp, erule normal_shifts, simp)

section \<open>The tables\<close>

lemma upt_8: "[0..<8] = [0, 1, 2, 3, 4, 5, 6, 7 :: nat]"
  by (simp add: upt_rec)

lemma steps_8: "(f ^^ 8) x = f (f (f (f (f (f (f (f x)))))))"
  by (simp add: eval_nat_numeral)

lemma steps_add: "(f ^^ (m + n)) = (f ^^ m) \<circ> (f ^^ n)"
  by (simp add: funpow_add)

lemma powers_8: "map (\<lambda>k. f (2 ^ k)) [0..<8] = map f [1, 2, 4, 8, 16, 32, 64, 128 :: 'a::len word]"
  by (simp add: upt_8)

lemma powers_16: "map (\<lambda>k. f (2 ^ (8 + k))) [0..<8] = map f [256, 512, 1024, 2048, 4096, 8192, 16384, 32768 :: 'a::len word]"
  by (simp add: upt_8)

lemma crc32_basis:
  "map (crc32_step ^^ 8) [1, 2, 4, 8, 16, 32, 64, 128] =
    [0x77073096, 0xEE0E612C, 0x076DC419, 0x0EDB8832, 0x1DB71064, 0x3B6E20C8, 0x76DC4190, 0xEDB88320]"
  by (simp add: steps_8 crc32_step_def reflected_step_def)

lemma crc32_basis1:
  "map (crc32_step ^^ 16) [1, 2, 4, 8, 16, 32, 64, 128] =
    [0x191B3141, 0x32366282, 0x646CC504, 0xC8D98A08, 0x4AC21251, 0x958424A2, 0xF0794F05, 0x3B83984B]"
proof -
  have "crc32_step ^^ 16 = (crc32_step ^^ 8) \<circ> (crc32_step ^^ 8)" by (simp flip: steps_add)
  then have m: "map (crc32_step ^^ 16) L = map (crc32_step ^^ 8) (map (crc32_step ^^ 8) L)" for L by simp
  show ?thesis unfolding m crc32_basis by (simp add: steps_8 crc32_step_def reflected_step_def)
qed

lemma crc32_basis2:
  "map (crc32_step ^^ 24) [1, 2, 4, 8, 16, 32, 64, 128] =
    [0x01C26A37, 0x0384D46E, 0x0709A8DC, 0x0E1351B8, 0x1C26A370, 0x384D46E0, 0x709A8DC0, 0xE1351B80]"
proof -
  have "crc32_step ^^ 24 = (crc32_step ^^ 8) \<circ> (crc32_step ^^ 16)" by (simp flip: steps_add)
  then have m: "map (crc32_step ^^ 24) L = map (crc32_step ^^ 8) (map (crc32_step ^^ 16) L)" for L by simp
  show ?thesis unfolding m crc32_basis1 by (simp add: steps_8 crc32_step_def reflected_step_def)
qed

lemma crc32_basis3:
  "map (crc32_step ^^ 32) [1, 2, 4, 8, 16, 32, 64, 128] =
    [0xB8BC6765, 0xAA09C88B, 0x8F629757, 0xC5B428EF, 0x5019579F, 0xA032AF3E, 0x9B14583D, 0xED59B63B]"
proof -
  have "crc32_step ^^ 32 = (crc32_step ^^ 8) \<circ> (crc32_step ^^ 24)" by (simp flip: steps_add)
  then have m: "map (crc32_step ^^ 32) L = map (crc32_step ^^ 8) (map (crc32_step ^^ 24) L)" for L by simp
  show ?thesis unfolding m crc32_basis2 by (simp add: steps_8 crc32_step_def reflected_step_def)
qed

lemma modbus_basis:
  "map (modbus_step ^^ 8) [1, 2, 4, 8, 16, 32, 64, 128] =
    [0xC0C1, 0xC181, 0xC301, 0xC601, 0xCC01, 0xD801, 0xF001, 0xA001]"
  by (simp add: steps_8 modbus_step_def reflected_step_def)

lemma xmodem_basis:
  "map (xmodem_step ^^ 8) [256, 512, 1024, 2048, 4096, 8192, 16384, 32768] =
    [0x1021, 0x2042, 0x4084, 0x8108, 0x1231, 0x2462, 0x48C4, 0x9188]"
  by (simp add: steps_8 xmodem_step_def normal_step_def)

lemma CRC_32_TAB_steps: "CRC_32_TAB = map (\<lambda>i. (crc32_step ^^ 8) (of_nat i)) [0..<256]"
  using crc32.table [of 8 0 8] unfolding add_0 powers_8 crc32_basis by (simp add: CRC_32_TAB_def xor_span_def)

lemma CRC_32_TAB1_steps: "CRC_32_TAB1 = map (\<lambda>i. (crc32_step ^^ 16) (of_nat i)) [0..<256]"
  using crc32.table [of 8 0 16] unfolding add_0 powers_8 crc32_basis1 by (simp add: CRC_32_TAB1_def xor_span_def)

lemma CRC_32_TAB2_steps: "CRC_32_TAB2 = map (\<lambda>i. (crc32_step ^^ 24) (of_nat i)) [0..<256]"
  using crc32.table [of 8 0 24] unfolding add_0 powers_8 crc32_basis2 by (simp add: CRC_32_TAB2_def xor_span_def)

lemma CRC_32_TAB3_steps: "CRC_32_TAB3 = map (\<lambda>i. (crc32_step ^^ 32) (of_nat i)) [0..<256]"
  using crc32.table [of 8 0 32] unfolding add_0 powers_8 crc32_basis3 by (simp add: CRC_32_TAB3_def xor_span_def)

lemma modbus_table_steps: "crc16_modbus_table = map (\<lambda>i. (modbus_step ^^ 8) (of_nat i)) [0..<256]"
  using modbus.table [of 8 0 8] unfolding add_0 powers_8 modbus_basis by (simp add: crc16_modbus_table_def xor_span_def)

lemma xmodem_table_steps: "crc16_xmodem_table = map (\<lambda>i. (xmodem_step ^^ 8) (push_bit 8 (of_nat i))) [0..<256]"
  using xmodem.table [of 8 8 8] unfolding powers_16 xmodem_basis by (simp add: crc16_xmodem_table_def xor_span_def)

section \<open>Updates\<close>

lemma low32: "unat (w AND 0xFF :: u32) < 256"
proof -
  have "w AND 0xFF \<le> 0xFF" by (rule word_and_le1)
  then show ?thesis by (simp add: word_le_nat_alt)
qed

lemma low16: "unat (w AND 0xFF :: u16) < 256"
proof -
  have "w AND 0xFF \<le> 0xFF" by (rule word_and_le1)
  then show ?thesis by (simp add: word_le_nat_alt)
qed

lemma nth_table: "i < 256 \<Longrightarrow> map f [0..<256] ! i = f i"
  by simp

lemma of_nat_unat_id: "of_nat (unat (w :: 'a::len word)) = w"
  by simp

lemmas crc32_table_at =
  CRC_32_TAB_steps CRC_32_TAB1_steps CRC_32_TAB2_steps CRC_32_TAB3_steps nth_table [OF low32] of_nat_unat_id

lemma crc32_char_step: "crc32_char = crc32.byte_step"
  unfolding crc32_char_def crc32.byte_step_split crc32_table_at
  by (intro ext) (simp only: crc32_char_def crc32.byte_step_split crc32_table_at)

lemma and_byte: "(x AND 0xFF = y AND 0xFF) = (\<forall>i<8. bit x i = bit (y :: u32) i)"
proof
  have m: "(0xFF :: u32) = mask 8" by (simp add: mask_eq_exp_minus_1)
  show "\<forall>i<8. bit x i = bit y i \<Longrightarrow> x AND 0xFF = y AND 0xFF"
    unfolding m by (rule bit_word_eqI) (auto simp: bit_simps)
  assume e: "x AND 0xFF = y AND 0xFF"
  show "\<forall>i<8. bit x i = bit y i"
  proof (intro allI impI)
    fix i :: nat assume "i < 8"
    moreover have "bit (x AND mask 8) i = bit (y AND mask 8) i" using e unfolding m by simp
    ultimately show "bit x i = bit y i" by (auto simp: bit_simps)
  qed
qed

lemma dword_bytes:
  "(x XOR dword a b c d) AND 0xFF = (x XOR ucast a) AND 0xFF"
  "(x XOR drop_bit 8 (dword a b c d)) AND 0xFF = (x XOR ucast b) AND 0xFF"
  "(x XOR drop_bit 16 (dword a b c d)) AND 0xFF = (x XOR ucast c) AND 0xFF"
  "(x XOR drop_bit 24 (dword a b c d)) AND 0xFF = (x XOR ucast d) AND 0xFF"
  unfolding and_byte dword_def by (auto simp: bit_simps dest: bit_imp_le_length)

lemma crc32_dword_bytes: "crc32_dword crc (dword a b c d) = foldl crc32_char crc [a, b, c, d]"
  by (simp add: crc32_dword_def Let_def dword_bytes crc32_char_def)

lemma dword_le: "dword a b c d = crc32.le_word [a, b, c, d]"
  by (rule bit_word_eqI) (auto simp: dword_def bit_simps dest: bit_imp_le_length)

lemma crc32_slice_steps: "crc32_slice x = (crc32_step ^^ 32) x"
proof -
  let ?b = "\<lambda>k. drop_bit k x AND 0xFF"
  have m: "(0xFF :: u32) = mask 8" by (simp add: mask_eq_exp_minus_1)
  have push: "(crc32_step ^^ 32) (push_bit k (?b k)) = (crc32_step ^^ (32 - k)) (?b k)" if "k \<le> 24" for k
  proof -
    have "(crc32_step ^^ k) (push_bit k (?b k)) = ?b k"
      by (rule crc32.steps_push) (use that in \<open>auto simp: m bit_simps\<close>)
    moreover have "crc32_step ^^ 32 = (crc32_step ^^ (32 - k)) \<circ> (crc32_step ^^ k)"
      using that by (simp flip: steps_add)
    ultimately show ?thesis by simp
  qed
  have "x = push_bit 24 (?b 24) XOR push_bit 16 (?b 16) XOR push_bit 8 (?b 8) XOR (x AND 0xFF)"
  proof (rule bit_word_eqI)
    fix n assume "n < LENGTH(32)"
    then consider "n < 8" | "8 \<le> n" "n < 16" | "16 \<le> n" "n < 24" | "24 \<le> n" "n < 32" by fastforce
    then show "bit x n = bit (push_bit 24 (?b 24) XOR push_bit 16 (?b 16) XOR push_bit 8 (?b 8) XOR (x AND 0xFF)) n"
      unfolding m by cases (auto simp: bit_simps)
  qed
  then have "(crc32_step ^^ 32) x = (crc32_step ^^ 32) (push_bit 24 (?b 24) XOR push_bit 16 (?b 16)
      XOR push_bit 8 (?b 8) XOR (x AND 0xFF))" by (rule arg_cong)
  also have "\<dots> = (crc32_step ^^ 8) (?b 24) XOR (crc32_step ^^ 16) (?b 16) XOR (crc32_step ^^ 24) (?b 8)
      XOR (crc32_step ^^ 32) (x AND 0xFF)"
    using push [of 24] push [of 16] push [of 8] by (simp only: crc32.steps_linear) simp
  finally show ?thesis unfolding crc32_slice_def crc32_table_at by (rule sym)
qed

lemma crc32_slice_bytes: "crc32_slice (dword a b c d XOR crc) = foldl crc32_char crc [a, b, c, d]"
  unfolding crc32_slice_steps dword_le crc32_char_step
  by (subst crc32.fold_word) (simp_all add: xor.commute del: crc32.le_word.simps)

lemma crc32_words_bytes: "crc32_words s crc = foldl crc32_char crc s"
  by (induction s crc rule: crc32_words.induct) (simp_all add: crc32_dword_bytes)

lemma crc32_quads_bytes: "crc32_quads s crc = foldl crc32_char crc s"
  by (induction s crc rule: crc32_quads.induct) (simp_all add: crc32_slice_bytes)

lemma crc32_align_bytes: "crc32_align addr s crc = (t, c) \<Longrightarrow> foldl crc32_char c t = foldl crc32_char crc s"
  by (induction addr s crc rule: crc32_align.induct) (auto split: if_splits)

lemma CRC32_Update_bytes:
  "CRC32_Update addr s crc = foldl crc32_char crc s" "CRC32_Update_same70 addr s crc = foldl crc32_char crc s"
  by (auto simp: CRC32_Update_def CRC32_Update_same70_def crc32_words_bytes crc32_quads_bytes crc32_align_bytes
      split: prod.split)

text \<open>
  C26. Both software variants of \<open>CRC32::Update\<close>, with their tables, word loops and alignment, compute
  the checksum bit by bit: each byte goes, lowest bit first, through a shift register with the polynomial
  0xEDB88320. So the result does not depend on where the buffer lies in memory or how a file is cut into
  buffers.
\<close>

theorem crc32_exact:
  "CRC32_Update addr s crc = foldl (\<lambda>r b. (crc32_step ^^ 8) (r XOR ucast b)) crc s
   \<and> CRC32_Update_same70 addr s crc = CRC32_Update addr s crc
   \<and> CRC32_Update addr' t (CRC32_Update addr s crc) = CRC32_Update addr'' (s @ t) crc"
  by (simp add: CRC32_Update_bytes crc32_char_step crc32.byte_step_def [abs_def])

text \<open>
  An error burst of up to four bytes anywhere in a file is always detected: two files of equal length
  that differ only there have different CRC-32 values, wherever they lie in memory.
\<close>

lemma crc32_detects_bursts:
  assumes "length x \<le> 4" "length y = length x" "x \<noteq> y"
  shows "CRC32_Get (CRC32_Update addr (a @ x @ b) CRC32_initial) \<noteq> CRC32_Get (CRC32_Update addr' (a @ y @ b) CRC32_initial)"
  using crc32.burst_detected [of x y CRC32_initial a b] assms
  by (simp add: CRC32_Get_def CRC32_Update_bytes crc32_char_step bit.compl_eq_compl_iff)

section \<open>CRC-16\<close>

lemma UpdateNormal_step: "UpdateNormal crc16_xmodem_table crc c = xmodem.byte_step crc c"
proof -
  have "(drop_bit 8 crc XOR ucast c) AND 0x00FF = drop_bit 8 crc XOR ucast c"
  proof -
    have m: "(0x00FF :: u16) = mask 8" by (simp add: mask_eq_exp_minus_1)
    show ?thesis unfolding m by (rule bit_word_eqI) (auto simp: bit_simps dest: bit_imp_le_length)
  qed
  then show ?thesis
    using low16 [of "drop_bit 8 crc XOR ucast c"]
    by (simp add: UpdateNormal_def xmodem.byte_step_split xmodem_table_steps)
qed

lemma UpdateReflected_step: "UpdateReflected crc16_modbus_table crc c = modbus.byte_step crc c"
  unfolding UpdateReflected_def modbus.byte_step_split modbus_table_steps nth_table [OF low16] of_nat_unat_id
  by (rule xor.commute)

lemma UpdateNormal_bytes: "UpdateNormal_buffer table crc s = foldl (UpdateNormal table) crc s"
  by (induction s arbitrary: crc) (simp_all add: UpdateNormal_def)

lemma UpdateReflected_bytes: "UpdateReflected_buffer table crc s = foldl (UpdateReflected table) crc s"
  by (induction s arbitrary: crc) (simp_all add: UpdateReflected_def)

lemma CRC16_Update_steps: "CRC16_Update crc s = foldl xmodem.byte_step crc s"
  by (simp add: CRC16_Update_def UpdateNormal_bytes UpdateNormal_step [abs_def])

lemma CRC16_UpdateModbus_steps: "CRC16_UpdateModbus crc s = foldl modbus.byte_step crc s"
  by (simp add: CRC16_UpdateModbus_def UpdateReflected_bytes UpdateReflected_step [abs_def])

text \<open>
  The table-driven CRC-16 updates compute their polynomials bit by bit, 0x1021 highest bit first and
  0xA001 lowest bit first, a buffer at once as well as byte by byte; and a file in which one byte is
  corrupted (for Modbus, up to two neighbouring ones) always has another checksum.
\<close>

theorem crc16_exact:
  "CRC16_Update crc s = foldl (\<lambda>r b. (xmodem_step ^^ 8) (r XOR push_bit 8 (ucast b))) crc s
   \<and> CRC16_Update crc s = foldl (UpdateNormal crc16_xmodem_table) crc s
   \<and> CRC16_UpdateModbus crc s = foldl (\<lambda>r b. (modbus_step ^^ 8) (r XOR ucast b)) crc s
   \<and> CRC16_UpdateModbus crc s = foldl (UpdateReflected crc16_modbus_table) crc s
   \<and> (CRC16_Update crc (a @ x # b) = CRC16_Update crc (a @ y # b) \<longleftrightarrow> x = y)
   \<and> (CRC16_UpdateModbus crc (a @ [x, u] @ b) = CRC16_UpdateModbus crc (a @ [y, v] @ b) \<longleftrightarrow> x = y \<and> u = v)"
proof (intro conjI)
  show "CRC16_Update crc s = foldl (\<lambda>r b. (xmodem_step ^^ 8) (r XOR push_bit 8 (ucast b))) crc s"
    by (simp add: CRC16_Update_steps xmodem.byte_step_def [abs_def])
  show "CRC16_UpdateModbus crc s = foldl (\<lambda>r b. (modbus_step ^^ 8) (r XOR ucast b)) crc s"
    by (simp add: CRC16_UpdateModbus_steps modbus.byte_step_def [abs_def])
  show "CRC16_Update crc (a @ x # b) = CRC16_Update crc (a @ y # b) \<longleftrightarrow> x = y"
    using xmodem.byte_detected unfolding CRC16_Update_steps by blast
  show "CRC16_UpdateModbus crc (a @ [x, u] @ b) = CRC16_UpdateModbus crc (a @ [y, v] @ b) \<longleftrightarrow> x = y \<and> u = v"
    using modbus.burst_detected [of "[x, u]" "[y, v]" crc a b] unfolding CRC16_UpdateModbus_steps by auto
qed (simp_all add: CRC16_Update_def CRC16_UpdateModbus_def UpdateNormal_bytes UpdateReflected_bytes)

end
