(* ===== verification/Float64.thy ===== *)
theory Float64
  imports Float32
begin

text \<open>
  The \<open>double\<close> type of the sources: IEEE-754 binary64, as the 64-bit pattern that holds it. Finite
  magnitudes are natural numbers in units of \<open>2 ^ -1074\<close>; an operation computes its exact result as a fraction of
  natural numbers and rounds it once, to nearest with ties to even. Only what the formatting and
  number parsing code uses is here.
\<close>

type_synonym f64 = "64 word"

section \<open>Representation\<close>

definition D_INF :: nat where "D_INF = 9218868437227405312"

definition dsign :: "f64 \<Rightarrow> bool" where
  "dsign x \<longleftrightarrow> 9223372036854775808 \<le> unat x"

definition dbits :: "f64 \<Rightarrow> nat" where
  "dbits x = unat x mod 9223372036854775808"

definition mk_double :: "bool \<Rightarrow> nat \<Rightarrow> f64" where
  "mk_double s b = word_of_nat (if s then b + 9223372036854775808 else b)"

definition d_isnan :: "f64 \<Rightarrow> bool" where
  "d_isnan x \<longleftrightarrow> D_INF < dbits x"

definition d_isinf :: "f64 \<Rightarrow> bool" where
  "d_isinf x \<longleftrightarrow> dbits x = D_INF"

definition d_isfinite :: "f64 \<Rightarrow> bool" where
  "d_isfinite x \<longleftrightarrow> dbits x < D_INF"

definition d_iszero :: "f64 \<Rightarrow> bool" where
  "d_iszero x \<longleftrightarrow> dbits x = 0"

definition d_qnan :: f64 where "d_qnan = 0x7FF8000000000000"

text \<open>The instance of \<open>FloatFormat\<close> with 52 fraction bits.\<close>

definition dmag :: "f64 \<Rightarrow> nat" where
  "dmag x = fmt_mag 52 (dbits x)"

definition round64 :: "nat \<Rightarrow> nat \<Rightarrow> nat" where
  "round64 = fmt_round 52 D_INF"

lemma dbits_lt: "dbits x < 9223372036854775808"
  by (simp add: dbits_def)

lemma dbits_mk [simp]: "b < 9223372036854775808 \<Longrightarrow> dbits (mk_double s b) = b"
  by (simp add: dbits_def mk_double_def unat_of_nat_small)

lemma dsign_mk [simp]: "b < 9223372036854775808 \<Longrightarrow> dsign (mk_double s b) = s"
  by (simp add: dsign_def mk_double_def unat_of_nat_small)

lemma round64_le: "round64 n d \<le> D_INF"
  by (simp add: round64_def)

lemma round64_lt [simp]: "round64 n d < 9223372036854775808"
  using round64_le [of n d] by (simp add: D_INF_def)

section \<open>Operations\<close>

definition d_lit :: "nat \<Rightarrow> nat \<Rightarrow> f64" where
  "d_lit n d = mk_double False (round64 (n * 2 ^ 1074) d)"

definition d_of_nat :: "nat \<Rightarrow> f64" where
  "d_of_nat n = d_lit n 1"

definition d_abs :: "f64 \<Rightarrow> f64" where
  "d_abs x = mk_double False (dbits x)"

definition dkey :: "f64 \<Rightarrow> int" where
  "dkey x = (if dsign x then - int (dbits x) else int (dbits x))"

definition d_lt :: "f64 \<Rightarrow> f64 \<Rightarrow> bool" where
  "d_lt x y \<longleftrightarrow> \<not> d_isnan x \<and> \<not> d_isnan y \<and> dkey x < dkey y"

definition d_le :: "f64 \<Rightarrow> f64 \<Rightarrow> bool" where
  "d_le x y \<longleftrightarrow> \<not> d_isnan x \<and> \<not> d_isnan y \<and> dkey x \<le> dkey y"

definition d_mul :: "f64 \<Rightarrow> f64 \<Rightarrow> f64" where
  "d_mul x y = (if d_isnan x \<or> d_isnan y \<or> (d_isinf x \<and> d_iszero y) \<or> (d_iszero x \<and> d_isinf y)
      then d_qnan
    else if d_isinf x \<or> d_isinf y then mk_double (dsign x \<noteq> dsign y) D_INF
    else mk_double (dsign x \<noteq> dsign y) (round64 (dmag x * dmag y) (2 ^ 1074)))"

definition d_div :: "f64 \<Rightarrow> f64 \<Rightarrow> f64" where
  "d_div x y = (if d_isnan x \<or> d_isnan y \<or> (d_isinf x \<and> d_isinf y) \<or> (d_iszero x \<and> d_iszero y)
      then d_qnan
    else if d_isinf x \<or> d_iszero y then mk_double (dsign x \<noteq> dsign y) D_INF
    else if d_isinf y then mk_double (dsign x \<noteq> dsign y) 0
    else mk_double (dsign x \<noteq> dsign y) (round64 (dmag x * 2 ^ 1074) (dmag y)))"

text \<open>Conversions. A \<open>float\<close> is a \<open>double\<close> exactly; the other way rounds.\<close>

definition d_of_f32 :: "f32 \<Rightarrow> f64" where
  "d_of_f32 x = (if f_isnan x then d_qnan else if f_isinf x then mk_double (fsign x) D_INF
    else mk_double (fsign x) (round64 (fmag x * 2 ^ 925) 1))"

definition d_to_f32 :: "f64 \<Rightarrow> f32" where
  "d_to_f32 x = (if d_isnan x then f_qnan else if d_isinf x then f_inf (dsign x)
    else mk_float (dsign x) (round_mag (dmag x) (2 ^ 925)))"

text \<open>\<open>llrint\<close>: the nearest integer, ties to even; its value is unspecified outside \<open>long long\<close> (\<open>None\<close>).\<close>

definition d_llrint :: "f64 \<Rightarrow> int option" where
  "d_llrint x = (let n = int (rne (dmag x) (2 ^ 1074)); i = (if dsign x then - n else n) in
     if d_isfinite x \<and> - (2 ^ 63) \<le> i \<and> i < 2 ^ 63 then Some i else None)"


section \<open>Exact results\<close>

lemma dmag_INF: "fmt_mag 52 D_INF = 2 ^ 2098"
  by (simp add: fmt_mag_def D_INF_def)

lemma round64_repr:
  assumes "q = m * 2 ^ s" "m < 2 ^ 53" "q < 2 ^ 2098" "0 < d"
  shows "dmag (mk_double b (round64 (d * q) d)) = q" "d_isfinite (mk_double b (round64 (d * q) d))"
proof -
  have "fmt_mag 52 (round64 (d * q) d) = q \<and> round64 (d * q) d < D_INF"
    unfolding round64_def using assms by (intro fmt_round_repr [OF assms(1)]) (simp_all add: dmag_INF)
  then show "dmag (mk_double b (round64 (d * q) d)) = q" "d_isfinite (mk_double b (round64 (d * q) d))"
    by (simp_all add: dmag_def d_isfinite_def)
qed

text \<open>A \<open>float\<close> has 24 significant bits.\<close>

lemma fmag_odd_part: "\<exists>m s. fmag x = m * 2 ^ s \<and> m < 2 ^ 24"
  using fmt_mag_odd_part [of 23 "fbits x"] by (simp add: fmag_def binary32_format)

lemma fmag_finite: "f_isfinite x \<Longrightarrow> fmag x < 2 ^ 277"
proof -
  assume "f_isfinite x"
  then have b: "fbits x < INF_BITS" by (simp add: f_isfinite_def)
  have "\<not> mag_of INF_BITS \<le> mag_of (fbits x)"
  proof
    assume "mag_of INF_BITS \<le> mag_of (fbits x)"
    then have "round_mag (mag_of INF_BITS) 1 \<le> round_mag (mag_of (fbits x)) 1" by (intro round_mag_mono) auto
    then show False using b round_mag_exact [of 1 INF_BITS] round_mag_exact [of 1 "fbits x"] by simp
  qed
  then show ?thesis by (simp add: mag_of_INF fmag_def)
qed

lemma d_of_f32_exact:
  assumes "f_isfinite x"
  shows "dmag (d_of_f32 x) = fmag x * 2 ^ 925" "d_isfinite (d_of_f32 x)" "dsign (d_of_f32 x) = fsign x"
proof -
  obtain m s where m: "fmag x = m * 2 ^ s" "m < 2 ^ 24" using fmag_odd_part by blast
  have n: "\<not> f_isnan x" "\<not> f_isinf x" using assms by (auto simp: f_isfinite_def f_isnan_def f_isinf_def)
  have "fmag x * 2 ^ 925 < 2 ^ 277 * 2 ^ 925" using fmag_finite [OF assms] by simp
  also have "\<dots> = (2 :: nat) ^ 1202" by (simp flip: power_add)
  also have "\<dots> < 2 ^ 2098" by (rule power_strict_increasing) simp_all
  finally have "fmag x * 2 ^ 925 < 2 ^ 2098" .
  moreover have "fmag x * 2 ^ 925 = m * 2 ^ (s + 925)" by (simp add: m power_add)
  ultimately show "dmag (d_of_f32 x) = fmag x * 2 ^ 925" "d_isfinite (d_of_f32 x)" "dsign (d_of_f32 x) = fsign x"
    using round64_repr [of "fmag x * 2 ^ 925" m "s + 925" 1 "fsign x"] n m(2)
    by (simp_all add: d_of_f32_def)
qed

lemma d_mul_exact:
  assumes "d_isfinite x" "d_isfinite y" "dmag x * dmag y = 2 ^ 1074 * q" "q = m * 2 ^ s" "m < 2 ^ 53" "q < 2 ^ 2098"
  shows "dmag (d_mul x y) = q" "d_isfinite (d_mul x y)" "dsign (d_mul x y) = (dsign x \<noteq> dsign y)"
proof -
  have e: "d_mul x y = mk_double (dsign x \<noteq> dsign y) (round64 (2 ^ 1074 * q) (2 ^ 1074))"
    using assms(1-3) by (simp add: d_mul_def d_isfinite_def d_isnan_def d_isinf_def)
  show "dmag (d_mul x y) = q" "d_isfinite (d_mul x y)" "dsign (d_mul x y) = (dsign x \<noteq> dsign y)"
    unfolding e using round64_repr [OF assms(4-6), of "2 ^ 1074" "dsign x \<noteq> dsign y"] by simp_all
qed

text \<open>Comparisons of what is not negative.\<close>

lemma d_lt_pos:
  assumes "\<not> dsign x" "\<not> dsign y" "d_isfinite x" "d_isfinite y"
  shows "d_lt x y \<longleftrightarrow> dbits x < dbits y"
  using assms by (simp add: d_lt_def dkey_def d_isfinite_def d_isnan_def)

lemma dbits_less: "dmag x < dmag y \<Longrightarrow> dbits x < dbits y"
  using fmt_mag_mono [of "dbits y" "dbits x" 52] by (simp add: dmag_def not_le [symmetric]) (meson not_le)

lemma d_of_nat_exact:
  assumes "n = m * 2 ^ s" "m < 2 ^ 53" "n < 2 ^ 1024"
  shows "dmag (d_of_nat n) = n * 2 ^ 1074" "d_isfinite (d_of_nat n)" "\<not> dsign (d_of_nat n)"
proof -
  have "n * 2 ^ 1074 = m * 2 ^ (s + 1074)" by (simp add: assms(1) power_add)
  moreover have "n * 2 ^ 1074 < 2 ^ 2098" using assms(3) by simp
  ultimately show "dmag (d_of_nat n) = n * 2 ^ 1074" "d_isfinite (d_of_nat n)" "\<not> dsign (d_of_nat n)"
    using round64_repr [of "n * 2 ^ 1074" m "s + 1074" 1 False] assms(2)
    by (simp_all add: d_of_nat_def d_lit_def)
qed

lemma d_iszero_dmag: "d_iszero x \<longleftrightarrow> dmag x = 0"
  by (simp add: d_iszero_def dmag_def)

lemma d_lit_0: "0 < k \<Longrightarrow> d_lit 0 k = mk_double False 0"
  by (simp add: d_lit_def round64_def)

end
