(* ===== verification/Printf.thy ===== *)
theory Printf
  imports CStrings Float64
begin

text \<open>
  The formatted output of \<open>RRFLibraries/src/General/SafeVsnprintf.cpp\<close>.

  A printer hands one character at a time to its \<open>putc\<close> function, which may refuse it; the sink behind it is
  the state \<open>'s\<close>, and \<open>None\<close> stands for undefined behaviour: an access outside storage, signed overflow, an
  argument of another type than the conversion wants. Every printing operation takes the sink and
  \<open>curLen\<close> and returns whether to go on. The format and strings are read from storage, a list that must
  hold the terminator. \<open>long\<close> has 32 bits, \<open>char\<close> is unsigned, and literals are single precision, as the
  firmware is compiled.
\<close>

section \<open>Output\<close>

type_synonym 's sink = "'s \<times> int"
type_synonym 's putc = "char \<Rightarrow> 's \<Rightarrow> (bool \<times> 's) option"
type_synonym 's printed = "(bool \<times> 's sink) option"

record PrintFlags =
  pf_base :: nat
  pf_width :: int
  pf_printLimit :: int
  pf_letBase :: nat
  pf_padZero :: bool
  pf_padRight :: bool
  pf_signOrSpace :: bool
  pf_forceSign :: bool
  pf_isSigned :: bool
  pf_isNumber :: bool
  pf_isString :: bool
  pf_long64 :: bool
  pf_hash :: bool

definition NeedPrefix :: "PrintFlags \<Rightarrow> bool" where
  "NeedPrefix fl \<longleftrightarrow> pf_hash fl \<and> (pf_base fl = 16 \<or> pf_base fl = 8)"

definition Printf_Init :: PrintFlags where
  "Printf_Init = \<lparr>pf_base = 0, pf_width = 0, pf_printLimit = - 1, pf_letBase = 0, pf_padZero = False,
     pf_padRight = False, pf_signOrSpace = False, pf_forceSign = False, pf_isSigned = False,
     pf_isNumber = False, pf_isString = False, pf_long64 = False, pf_hash = False\<rparr>"

definition PutChar :: "'s putc \<Rightarrow> char \<Rightarrow> 's sink \<Rightarrow> 's printed" where
  "PutChar put c st = do {
     (r, s) \<leftarrow> put c (fst st);
     let ret = r \<and> c \<noteq> NUL;
     Some (ret, (s, if ret then snd st + 1 else snd st)) }"

text \<open>Going on after a step that was not refused.\<close>

definition ok_then :: "'s printed \<Rightarrow> ('s sink \<Rightarrow> 's printed) \<Rightarrow> 's printed" where
  "ok_then m f = Option.bind m (\<lambda>(ok, st). if ok then f st else Some (False, st))"

fun put_times :: "'s putc \<Rightarrow> char \<Rightarrow> nat \<Rightarrow> 's sink \<Rightarrow> 's printed" where
  "put_times put c 0 st = Some (True, st)"
| "put_times put c (Suc n) st = ok_then (PutChar put c st) (put_times put c n)"

fun put_chars :: "'s putc \<Rightarrow> string \<Rightarrow> 's sink \<Rightarrow> 's printed" where
  "put_chars put [] st = Some (True, st)"
| "put_chars put (c # cs) st = ok_then (PutChar put c st) (put_chars put cs)"

section \<open>Strings\<close>

text \<open>How many characters of \<open>mem\<close> to print: reading stops at the limit, or at the terminator.\<close>

definition string_count :: "PrintFlags \<Rightarrow> char list \<Rightarrow> nat option" where
  "string_count fl mem =
    (if pf_printLimit fl > 0 \<and> pf_isString fl
     then if NUL \<in> set mem \<or> nat (pf_printLimit fl) \<le> length mem
       then Some (Strnlen mem (nat (pf_printLimit fl))) else None
     else strlen mem)"

text \<open>Spaces and zeros to the left, spaces to the right.\<close>

definition padding :: "PrintFlags \<Rightarrow> nat \<Rightarrow> nat \<times> nat \<times> nat" where
  "padding fl count0 =
    (let count = int count0; hasMinimumDigits = (pf_isNumber fl \<and> pf_printLimit fl > 0) in
     if hasMinimumDigits \<or> pf_width fl > 0 then
       let leftZerosNeeded = (if hasMinimumDigits \<and> count < pf_printLimit fl then pf_printLimit fl - count else 0)
       in if count + leftZerosNeeded < pf_width fl then
            let remainingPaddingNeeded = pf_width fl - (count + leftZerosNeeded)
            in if pf_padRight fl then (0, nat leftZerosNeeded, nat remainingPaddingNeeded)
               else if pf_padZero fl then (0, nat (leftZerosNeeded + remainingPaddingNeeded), 0)
               else (nat remainingPaddingNeeded, nat leftZerosNeeded, 0)
          else (0, nat leftZerosNeeded, 0)
     else (0, 0, 0))"

definition PutString :: "'s putc \<Rightarrow> PrintFlags \<Rightarrow> char list \<Rightarrow> 's sink \<Rightarrow> 's printed" where
  "PutString put fl mem st = Option.bind (string_count fl mem) (\<lambda>count.
    (case padding fl count of (leftSpaces, leftZeros, rightSpaces) \<Rightarrow>
      ok_then (put_times put CHR '' '' leftSpaces st) (\<lambda>st.
      ok_then (put_times put CHR ''0'' leftZeros st) (\<lambda>st.
      ok_then (put_chars put (take count mem) st)
        (put_times put CHR '' '' rightSpaces)))))"

definition json_escape :: "char \<Rightarrow> char option" where
  "json_escape c = (if c = CHR 0x0D then Some CHR ''r'' else if c = CHR 0x0A then Some CHR ''n''
     else if c = CHR 0x09 then Some CHR ''t''
     else if c = CHR 0x22 \<or> c = CHR 0x5C then Some c else None)"

fun PutJson :: "'s putc \<Rightarrow> char list \<Rightarrow> 's sink \<Rightarrow> 's printed" where
  "PutJson put [] st = None"
| "PutJson put (c # mem) st =
     (if c = NUL then Some (True, st)
      else ok_then
        (case json_escape c of
           Some esc \<Rightarrow> ok_then (PutChar put CHR 0x5C st) (PutChar put esc)
         | None \<Rightarrow> if of_char c < (32 :: nat) then PutChar put CHR ''?'' st else PutChar put c st)
        (PutJson put mem))"

section \<open>Integers\<close>

text \<open>A text that grows to the left in a buffer with \<open>room\<close> characters left before it.\<close>

type_synonym leftward = "nat \<times> string"

definition push :: "char \<Rightarrow> leftward \<Rightarrow> leftward option" where
  "push c b = (if fst b = 0 then None else Some (fst b - 1, c # snd b))"

definition PutStringWithSign :: "'s putc \<Rightarrow> PrintFlags \<Rightarrow> leftward \<Rightarrow> bool \<Rightarrow> 's sink \<Rightarrow> 's printed" where
  "PutStringWithSign put fl s isNegative st =
    (let sign = (if isNegative then CHR ''-'' else if pf_forceSign fl then CHR ''+''
                 else if pf_signOrSpace fl then CHR '' '' else NUL) in
     if sign \<noteq> NUL then
       if pf_width fl \<noteq> 0 \<and> pf_padZero fl then
         ok_then (PutChar put sign st) (PutString put (fl\<lparr>pf_width := pf_width fl - 1\<rparr>) (snd s @ [NUL]))
       else Option.bind (push sign s) (\<lambda>s1. PutString put fl (snd s1 @ [NUL]) st)
     else PutString put fl (snd s @ [NUL]) st)"

definition DoPrefix :: "'s putc \<Rightarrow> PrintFlags \<Rightarrow> 's sink \<Rightarrow> 's printed" where
  "DoPrefix put fl st =
    (if NeedPrefix fl then
       ok_then (PutChar put CHR ''0'' st) (\<lambda>st.
         if pf_base fl = 16 then PutChar put (char_of (pf_letBase fl + 23)) st else Some (True, st))
     else Some (True, st))"

text \<open>The digit loops. They are used with the bases 8, 10 and 16 only.\<close>

definition digit_char :: "nat \<Rightarrow> nat \<Rightarrow> char" where
  "digit_char letBase t = char_of (if t \<ge> 10 then t + (letBase - 58) + 48 else t + 48)"

function digit_loop :: "nat \<Rightarrow> nat \<Rightarrow> nat \<Rightarrow> leftward \<Rightarrow> leftward option" where
  "digit_loop letBase base u s =
    (if u = 0 \<or> base < 2 then Some s
     else Option.bind (push (digit_char letBase (u mod base)) s) (digit_loop letBase base (u div base)))"
  by pat_completeness auto
termination by (relation "measure (\<lambda>(_, _, u, _). u)") auto

declare digit_loop.simps [simp del]

definition MaxLongDigits :: nat where "MaxLongDigits = 10"
definition MaxUllDigits :: nat where "MaxUllDigits = 20"

text \<open>The magnitude of a signed number: negating the least one overflows.\<close>

definition magnitude :: "PrintFlags \<Rightarrow> ('a :: len) word \<Rightarrow> (bool \<times> nat) option" where
  "magnitude fl i =
    (if pf_isSigned fl \<and> pf_base fl = 10 \<and> sint i < 0
     then if sint i = - (2 ^ (LENGTH('a) - 1)) then None else Some (True, nat (- sint i))
     else Some (False, unat i))"

definition PrintLL :: "'s putc \<Rightarrow> PrintFlags \<Rightarrow> u64 \<Rightarrow> 's sink \<Rightarrow> 's printed" where
  "PrintLL put fl0 i st =
    (let fl = fl0\<lparr>pf_isNumber := True\<rparr> in
     if i = 0 then PutString put fl (''0'' @ [NUL]) st
     else ok_then (DoPrefix put fl st) (\<lambda>st. do {
       (neg, u) \<leftarrow> magnitude fl i;
       s \<leftarrow> digit_loop (pf_letBase fl) (pf_base fl) u (MaxUllDigits + 1, []);
       PutStringWithSign put fl s neg st }))"

definition PrintI :: "'s putc \<Rightarrow> PrintFlags \<Rightarrow> u32 \<Rightarrow> 's sink \<Rightarrow> 's printed" where
  "PrintI put fl0 i st =
    (let fl = fl0\<lparr>pf_isNumber := True\<rparr> in
     if i = 0 then PutString put fl (''0'' @ [NUL]) st
     else ok_then (DoPrefix put fl st) (\<lambda>st. do {
       (neg, u) \<leftarrow> magnitude fl i;
       s \<leftarrow> digit_loop (pf_letBase fl) (pf_base fl) u (MaxLongDigits + 1, []);
       PutStringWithSign put fl s neg st }))"

section \<open>Floating point\<close>

definition LLONG_MAX :: nat where "LLONG_MAX = 9223372036854775807"

text \<open>\<open>(double)0.00001\<close>: the literal is a \<open>float\<close> first.\<close>

definition d_const :: "nat \<Rightarrow> nat \<Rightarrow> f64" where
  "d_const n d = d_of_f32 (f_lit n d)"

text \<open>One of the loops that bring the number between 1 and 10.\<close>

partial_function (option) scale_loop ::
  "(f64 \<Rightarrow> bool) \<Rightarrow> (f64 \<Rightarrow> f64) \<Rightarrow> int \<Rightarrow> f64 \<times> int \<Rightarrow> (f64 \<times> int) option" where
  "scale_loop goes next step x =
    (if goes (fst x) then scale_loop goes next step (next (fst x), snd x + step) else Some x)"

definition normalise :: "f64 \<Rightarrow> (f64 \<times> int) option" where
  "normalise ud =
    (if d_iszero ud then Some (ud, 0) else do {
       a \<leftarrow> scale_loop (\<lambda>u. d_le (d_const 100000 1) u) (\<lambda>u. d_div u (d_const 100000 1)) 5 (ud, 0);
       b \<leftarrow> scale_loop (\<lambda>u. d_le (d_const 10 1) u) (\<lambda>u. d_div u (d_const 10 1)) 1 a;
       c \<leftarrow> scale_loop (\<lambda>u. d_lt u (d_const 1 100000)) (\<lambda>u. d_mul u (d_const 100000 1)) (- 5) b;
       scale_loop (\<lambda>u. d_lt u (d_const 1 1)) (\<lambda>u. d_mul u (d_const 10 1)) (- 1) c })"

text \<open>Multiplying by ten for each decimal digit wanted; \<open>limit\<close> is a \<open>long\<close> and must not overflow.\<close>

function decimals_loop :: "int \<Rightarrow> int \<Rightarrow> f64 \<Rightarrow> int \<Rightarrow> (int \<times> f64 \<times> int) option" where
  "decimals_loop printLimit digits ud limit =
    (if digits < printLimit \<and> d_lt ud (d_of_nat (LLONG_MAX div 10)) \<and> limit \<le> int (LLONG_MAX div 10)
     then if limit * 10 < 2 ^ 31 then decimals_loop printLimit (digits + 1) (d_mul ud (d_const 10 1)) (limit * 10)
          else None
     else Some (digits, ud, limit))"
  by pat_completeness auto
termination by (relation "measure (\<lambda>(p, d, _, _). nat (p - d))") auto

declare decimals_loop.simps [simp del]

fun exponent_digits :: "nat \<Rightarrow> leftward \<Rightarrow> leftward option" where
  "exponent_digits iexp s = do {
     s1 \<leftarrow> push (char_of (iexp mod 10 + 48)) s;
     if iexp div 10 \<noteq> 0 then exponent_digits (iexp div 10) s1 else Some s1 }"

declare exponent_digits.simps [simp del]

function mantissa_loop :: "nat \<Rightarrow> int \<Rightarrow> leftward \<Rightarrow> leftward option" where
  "mantissa_loop u digitsAfterPoint s = do {
     s1 \<leftarrow> (if digitsAfterPoint = 0 then push CHR ''.'' s else Some s);
     s2 \<leftarrow> push (char_of (u mod 10 + 48)) s1;
     if u div 10 \<noteq> 0 \<or> digitsAfterPoint - 1 \<ge> 0 then mantissa_loop (u div 10) (digitsAfterPoint - 1) s2
     else Some s2 }"
  by pat_completeness auto
termination by (relation "measure (\<lambda>(u, d, _). u + nat (d + 1))") (auto split: if_splits)

declare mantissa_loop.simps [simp del]

text \<open>
  The digits of a finite number: the precision in the end, and the text with the letter and sign of the
  exponent.
\<close>

definition float_digits :: "PrintFlags \<Rightarrow> f64 \<Rightarrow> char \<Rightarrow> (int \<times> leftward) option" where
  "float_digits fl d formatLetter = do {
     let ud0 = d_abs d;
     let letter1 = (if d_lt (d_of_nat LLONG_MAX) ud0 \<and> formatLetter = CHR ''f'' then CHR ''e''
                    else if d_lt (d_of_nat LLONG_MAX) ud0 \<and> formatLetter = CHR ''F'' then CHR ''E''
                    else formatLetter);
     (ud1, exponent) \<leftarrow> (if letter1 \<in> set ''eEgG'' then normalise ud0 else Some (ud0, 0));
     let limit0 = (if pf_printLimit fl < 0 then 6 else pf_printLimit fl);
     let general = (letter1 = CHR ''g'' \<or> letter1 = CHR ''G'');
     let fixed = (general \<and> - 3 \<le> exponent \<and> exponent \<le> limit0 + 3);
     let letter2 = (if \<not> general then letter1
                    else if fixed then (if letter1 = CHR ''g'' then CHR ''f'' else CHR ''F'')
                    else (if letter1 = CHR ''g'' then CHR ''e'' else CHR ''E''));
     let ud2 = (if fixed then d_abs d else ud1);
     let printLimit = (if fixed then max (limit0 - exponent - 1) 0 else limit0);
     (digits, ud, limit) \<leftarrow> decimals_loop printLimit 0 ud2 10;
     u0 \<leftarrow> d_llrint ud;
     (u, s) \<leftarrow>
       (if letter2 = CHR ''e'' \<or> letter2 = CHR ''E'' then do {
          let (u, ex) = (if u0 \<ge> limit then (u0 div 10, exponent + 1) else (u0, exponent));
          s1 \<leftarrow> exponent_digits (nat \<bar>ex\<bar>) (MaxUllDigits + MaxLongDigits + 4, []);
          s2 \<leftarrow> push (if ex < 0 then CHR ''-'' else CHR ''+'') s1;
          s3 \<leftarrow> push letter2 s2;
          Some (u, s3) }
        else Some (u0, (MaxUllDigits + MaxLongDigits + 4, [])));
     s4 \<leftarrow> mantissa_loop (nat u) (if digits = 0 \<and> \<not> pf_hash fl then - 1 else digits) s;
     Some (printLimit, s4) }"

definition PrintFloat :: "'s putc \<Rightarrow> PrintFlags \<Rightarrow> f64 \<Rightarrow> char \<Rightarrow> 's sink \<Rightarrow> 's printed" where
  "PrintFloat put fl d formatLetter st =
    (if d_isnan d then PutString put fl (''nan'' @ [NUL]) st
     else if d_isinf d then PutString put fl ((if dsign d then ''-inf'' else ''+inf'') @ [NUL]) st
     else Option.bind (float_digits fl d formatLetter) (\<lambda>(printLimit, s).
       PutStringWithSign put (fl\<lparr>pf_printLimit := printLimit\<rparr>) s (dsign d) st))"

section \<open>The format\<close>

datatype va_arg = VaInt u32 | VaLongLong u64 | VaDouble f64 | VaStr "char list option"

text \<open>The format with the position in it: the characters read so far, the last one first, and the rest.\<close>

type_synonym fmt_pos = "char list \<times> char list"

fun fetch :: "fmt_pos \<Rightarrow> (char \<times> fmt_pos) option" where
  "fetch (bk, []) = None"
| "fetch (bk, c # rest) = Some (c, (c # bk, rest))"

fun flag_char :: "char \<Rightarrow> PrintFlags \<Rightarrow> PrintFlags option" where
  "flag_char c fl = (if c = CHR ''#'' then Some (fl\<lparr>pf_hash := True\<rparr>)
     else if c = CHR ''-'' then Some (fl\<lparr>pf_padRight := True\<rparr>)
     else if c = CHR ''0'' then Some (fl\<lparr>pf_padZero := True\<rparr>)
     else if c = CHR ''+'' then Some (fl\<lparr>pf_forceSign := True\<rparr>)
     else if c = CHR '' '' then Some (fl\<lparr>pf_signOrSpace := True\<rparr>) else None)"

text \<open>Each of these loops goes on as long as it reads a character it wants, so the rest of the format bounds it.\<close>

fun flags_loop :: "char \<Rightarrow> char list \<Rightarrow> char list \<Rightarrow> PrintFlags \<Rightarrow> (PrintFlags \<times> char \<times> fmt_pos) option" where
  "flags_loop ch bk [] fl = (case flag_char ch fl of None \<Rightarrow> Some (fl, ch, (bk, [])) | Some _ \<Rightarrow> None)"
| "flags_loop ch bk (c # rest) fl =
     (case flag_char ch fl of None \<Rightarrow> Some (fl, ch, (bk, c # rest))
      | Some fl1 \<Rightarrow> flags_loop c (c # bk) rest fl1)"

fun number_loop :: "char \<Rightarrow> char list \<Rightarrow> char list \<Rightarrow> int \<Rightarrow> (int \<times> char \<times> fmt_pos) option" where
  "number_loop ch bk [] v = (if is_digit ch then None else Some (v, ch, (bk, [])))"
| "number_loop ch bk (c # rest) v =
     (if is_digit ch then
        let v1 = v * 10 + (of_char ch - 48) in
        if v1 < 2 ^ 31 then number_loop c (c # bk) rest v1 else None
      else Some (v, ch, (bk, c # rest)))"

text \<open>A width or precision: from the arguments, or from digits.\<close>

definition read_number :: "char \<Rightarrow> fmt_pos \<Rightarrow> va_arg list \<Rightarrow> (int \<times> char \<times> fmt_pos \<times> va_arg list) option" where
  "read_number ch p args =
    (if ch = CHR ''*'' then
       (case args of
          VaInt w # args1 \<Rightarrow> (case fetch p of Some (c, p1) \<Rightarrow> Some (sint w, c, p1, args1) | None \<Rightarrow> None)
        | _ \<Rightarrow> None)
     else (case number_loop ch (fst p) (snd p) 0 of
             Some (v, c, p1) \<Rightarrow> Some (v, c, p1, args) | None \<Rightarrow> None))"

text \<open>
  What follows a percent sign up to the conversion letter: flags, width, precision. A precision
  read from digits starts at 0, one read from an argument is the argument.
\<close>

definition read_spec :: "char \<Rightarrow> fmt_pos \<Rightarrow> va_arg list \<Rightarrow> (PrintFlags \<times> char \<times> fmt_pos \<times> va_arg list) option" where
  "read_spec ch p args = do {
     (fl, c1, p1) \<leftarrow> flags_loop ch (fst p) (snd p) Printf_Init;
     (w, c2, p2, args2) \<leftarrow> read_number c1 p1 args;
     let fl2 = fl\<lparr>pf_width := w\<rparr>;
     if c2 = CHR ''.'' then do {
       (c3, p3) \<leftarrow> fetch p2;
       (l, c4, p4, args4) \<leftarrow> read_number c3 p3 args2;
       Some (fl2\<lparr>pf_printLimit := l\<rparr>, c4, p4, args4) }
     else Some (fl2, c2, p2, args2) }"

text \<open>The conversions. The length prefixes have been read before the number conversions.\<close>

type_synonym 's converted = "((bool \<times> 's sink) \<times> fmt_pos \<times> va_arg list) option"

fun print_number :: "'s putc \<Rightarrow> PrintFlags \<Rightarrow> va_arg list \<Rightarrow> 's sink \<Rightarrow> ((bool \<times> 's sink) \<times> va_arg list) option" where
  "print_number put fl (VaLongLong i # args) st =
     (if pf_long64 fl then Option.bind (PrintLL put fl i st) (\<lambda>r. Some (r, args)) else None)"
| "print_number put fl (VaInt i # args) st =
     (if pf_long64 fl then None else Option.bind (PrintI put fl i st) (\<lambda>r. Some (r, args)))"
| "print_number put fl _ st = None"

definition convert_number :: "'s putc \<Rightarrow> PrintFlags \<Rightarrow> char \<Rightarrow> fmt_pos \<Rightarrow> va_arg list \<Rightarrow> 's sink \<Rightarrow> 's converted" where
  "convert_number put fl0 ch p args st =
    (let fl = fl0\<lparr>pf_base := 10, pf_letBase := 97\<rparr>; fl16 = fl\<lparr>pf_base := 16\<rparr> in
     if ch \<in> set ''dui'' then
       Option.bind (print_number put (fl\<lparr>pf_isSigned := ch \<noteq> CHR ''u''\<rparr>) args st) (\<lambda>(r, args1). Some (r, p, args1))
     else if ch \<in> set ''xXpo'' then
       Option.bind (print_number put (if ch = CHR ''X'' then fl16\<lparr>pf_letBase := 65\<rparr>
           else if ch = CHR ''o'' then fl16\<lparr>pf_base := 8\<rparr> else fl16) args st) (\<lambda>(r, args1). Some (r, p, args1))
     else Some ((True, st), p, args))"

definition read_length :: "PrintFlags \<Rightarrow> char \<Rightarrow> fmt_pos \<Rightarrow> (PrintFlags \<times> char \<times> fmt_pos) option" where
  "read_length fl ch p =
    (if ch = CHR ''h'' then Option.bind (fetch p) (\<lambda>(c, p1). Some (fl, c, p1))
     else if ch = CHR ''l'' then Option.bind (fetch p) (\<lambda>(c, p1).
       if c = CHR ''l'' then Option.bind (fetch p1) (\<lambda>(c2, p2). Some (fl\<lparr>pf_long64 := True\<rparr>, c2, p2))
       else Some (fl, c, p1))
     else Some (fl, ch, p))"

fun is_json_spec :: "char list \<Rightarrow> bool" where
  "is_json_spec (_ # c # d # _) \<longleftrightarrow> c = CHR ''.'' \<and> d = CHR ''%''"
| "is_json_spec _ \<longleftrightarrow> False"

fun print_string :: "'s putc \<Rightarrow> PrintFlags \<Rightarrow> bool \<Rightarrow> va_arg list \<Rightarrow> 's sink \<Rightarrow> ((bool \<times> 's sink) \<times> va_arg list) option" where
  "print_string put fl json (VaStr s # args) st =
     Option.bind
       (if json then (case s of None \<Rightarrow> Some (True, st) | Some mem \<Rightarrow> PutJson put mem st)
        else PutString put (fl\<lparr>pf_isString := True\<rparr>)
          (case s of None \<Rightarrow> ''<null>'' @ [NUL] | Some mem \<Rightarrow> mem) st)
       (\<lambda>r. Some (r, args))"
| "print_string put fl json _ st = None"

fun print_double :: "'s putc \<Rightarrow> PrintFlags \<Rightarrow> char \<Rightarrow> va_arg list \<Rightarrow> 's sink \<Rightarrow> ((bool \<times> 's sink) \<times> va_arg list) option" where
  "print_double put fl ch (VaDouble d # args) st = Option.bind (PrintFloat put fl d ch st) (\<lambda>r. Some (r, args))"
| "print_double put fl ch _ st = None"

fun print_char :: "'s putc \<Rightarrow> va_arg list \<Rightarrow> 's sink \<Rightarrow> ((bool \<times> 's sink) \<times> va_arg list) option" where
  "print_char put (VaInt i # args) st =
     Option.bind (if char_of (unat i) = NUL then Some (True, st) else PutChar put (char_of (unat i)) st)
       (\<lambda>r. Some (r, args))"
| "print_char put _ st = None"

definition convert :: "'s putc \<Rightarrow> PrintFlags \<Rightarrow> char \<Rightarrow> fmt_pos \<Rightarrow> va_arg list \<Rightarrow> 's sink \<Rightarrow> 's converted" where
  "convert put fl ch p args st =
    (if ch \<in> set ''fegFEG'' then Option.bind (print_double put fl ch args st) (\<lambda>(r, args1). Some (r, p, args1))
     else
       let fl1 = (if pf_printLimit fl = 0 then fl\<lparr>pf_printLimit := - 1\<rparr> else fl) in
       if ch = CHR ''s''
       then Option.bind (print_string put fl1 (is_json_spec (fst p)) args st) (\<lambda>(r, args1). Some (r, p, args1))
       else if ch = CHR ''c''
       then Option.bind (print_char put args st) (\<lambda>(r, args1). Some (r, p, args1))
       else Option.bind (read_length fl1 ch p) (\<lambda>(fl2, ch2, p2). convert_number put fl2 ch2 p2 args st))"

text \<open>No step goes back in the format, so \<open>Print\<close> reaches its end.\<close>

lemma fetch_shorter: "fetch p = Some (c, p1) \<Longrightarrow> length (snd p1) < length (snd p)"
  by (cases p rule: fetch.cases) auto

lemma flags_loop_length: "flags_loop c bk rest fl = Some (fl1, c1, p1) \<Longrightarrow> length (snd p1) \<le> length rest"
  by (induction c bk rest fl rule: flags_loop.induct) (fastforce split: option.splits)+

lemma number_loop_length: "number_loop c bk rest v = Some (v1, c1, p1) \<Longrightarrow> length (snd p1) \<le> length rest"
  by (induction c bk rest v rule: number_loop.induct) (fastforce simp: Let_def split: if_splits)+

lemma read_number_length: "read_number c p args = Some (v, c1, p1, args1) \<Longrightarrow> length (snd p1) \<le> length (snd p)"
  by (auto simp: read_number_def split: if_splits list.splits va_arg.splits option.splits
      dest!: fetch_shorter number_loop_length)

lemma read_spec_length:
  assumes "read_spec c p args = Some (fl, c1, p1, args1)"
  shows "length (snd p1) \<le> length (snd p)"
proof -
  obtain fl0 ca pa w cb pb argsb where 1: "flags_loop c (fst p) (snd p) Printf_Init = Some (fl0, ca, pa)"
    and 2: "read_number ca pa args = Some (w, cb, pb, argsb)"
    using assms by (auto simp: read_spec_def bind_eq_Some_conv Let_def)
  have "length (snd p1) \<le> length (snd pb)"
    using assms 1 2 by (auto simp: read_spec_def bind_eq_Some_conv Let_def split: if_splits
        dest!: fetch_shorter read_number_length)
  then show ?thesis using flags_loop_length [OF 1] read_number_length [OF 2] by simp
qed

lemma read_length_length: "read_length fl c p = Some (fl1, c1, p1) \<Longrightarrow> length (snd p1) \<le> length (snd p)"
  by (auto simp: read_length_def bind_eq_Some_conv split: if_splits dest!: fetch_shorter)

lemma convert_length: "convert put fl c p args st = Some (r, p1, args1) \<Longrightarrow> length (snd p1) \<le> length (snd p)"
  by (auto simp: convert_def convert_number_def Let_def bind_eq_Some_conv split: if_splits
      dest!: read_length_length)

definition finish :: "'s putc \<Rightarrow> 's sink \<Rightarrow> (int \<times> 's) option" where
  "finish put st = Option.bind (PutChar put NUL st) (\<lambda>(_, st1). Some (snd st1, fst st1))"

function Print :: "'s putc \<Rightarrow> fmt_pos \<Rightarrow> va_arg list \<Rightarrow> 's sink \<Rightarrow> (int \<times> 's) option" where
  "Print put p args st =
     Option.bind (fetch p) (\<lambda>(ch, p1).
       if ch = NUL then finish put st
       else if ch \<noteq> CHR ''%'' then
         Option.bind (PutChar put ch st) (\<lambda>(ok, st1). if ok then Print put p1 args st1 else finish put st1)
       else Option.bind (fetch p1) (\<lambda>(ch2, p2).
         if ch2 = NUL then finish put st
         else if ch2 = CHR ''%'' then
           Option.bind (PutChar put ch2 st) (\<lambda>(ok, st1). if ok then Print put p2 args st1 else finish put st1)
         else Option.bind (read_spec ch2 p2 args) (\<lambda>(fl, ch3, p3, args3).
           Option.bind (convert put fl ch3 p3 args3 st) (\<lambda>(r, p4, args4).
             if fst r then Print put p4 args4 (snd r) else finish put (snd r)))))"
  by pat_completeness auto
termination
  by (relation "measure (\<lambda>(_, p, _, _). length (snd p))")
     (clarsimp; (drule fetch_shorter)+; ((drule read_spec_length convert_length)+)?; simp)+

declare Print.simps [simp del]

section \<open>Printing into a buffer\<close>

text \<open>The buffer, the position of the next character and \<open>maxLen\<close>.\<close>

fun buffer_put :: "(char list \<times> nat \<times> nat) putc" where
  "buffer_put c (buf, pos, maxLen) =
    (if c \<noteq> NUL \<and> maxLen > 1
     then Option.bind (poke buf pos c) (\<lambda>buf1. Some (True, (buf1, pos + 1, maxLen - 1)))
     else Some (False, (buf, pos, maxLen)))"

definition SafeVsnprintf :: "char list \<Rightarrow> nat \<Rightarrow> char list \<Rightarrow> va_arg list \<Rightarrow> (int \<times> char list) option" where
  "SafeVsnprintf buffer maxLen fmt args = do {
     (ret, (buf, pos, _)) \<leftarrow> Print buffer_put ([], fmt) args ((buffer, 0, maxLen), 0);
     buf1 \<leftarrow> poke buf pos NUL;
     Some (ret, buf1) }"

end
