(* ===== verification/PrintfProps.thy ===== *)
theory PrintfProps
  imports Printf
begin

text \<open>
  What the printer prints. For every conversion there is the text it stands for, a function of the
  flags and the argument alone; \<open>format_text\<close> puts them together. The printer sends exactly that text to its
  sink, as far as the sink takes it, whatever the sink is.
\<close>

section \<open>Sending a text\<close>

lemma ok_then_simps [simp]:
  "ok_then (Some (True, st)) f = f st" "ok_then (Some (False, st)) f = Some (False, st)" "ok_then None f = None"
  by (simp_all add: ok_then_def)

lemma ok_then_assoc: "ok_then (ok_then m f) g = ok_then m (\<lambda>st. ok_then (f st) g)"
  by (cases m) (auto simp: ok_then_def)

lemma ok_then_return [simp]: "ok_then m (\<lambda>st. Some (True, st)) = m"
  by (cases m) (auto simp: ok_then_def)

text \<open>As functions of the sink, so that they rewrite partial applications too.\<close>

lemma put_chars_fun [simp]:
  "put_chars put [] = (\<lambda>st. Some (True, st))"
  "put_chars put (c # cs) = (\<lambda>st. ok_then (PutChar put c st) (put_chars put cs))"
  by (simp_all add: fun_eq_iff)

declare put_chars.simps [simp del]

lemma put_chars_append [simp]: "put_chars put (a @ b) = (\<lambda>st. ok_then (put_chars put a st) (put_chars put b))"
  by (induction a) (simp_all add: ok_then_assoc)

lemma put_times_chars: "put_times put c n = put_chars put (replicate n c)"
proof (induction n)
  case (Suc n)
  show ?case by (rule ext) (simp add: Suc)
qed (rule ext, simp)

lemma PutChar_chars: "PutChar put c = put_chars put [c]"
  by simp

section \<open>The texts\<close>

definition padded :: "PrintFlags \<Rightarrow> string \<Rightarrow> string" where
  "padded fl t = (case padding fl (length t) of (l, z, r) \<Rightarrow>
     replicate l CHR '' '' @ replicate z CHR ''0'' @ t @ replicate r CHR '' '')"

definition string_text :: "PrintFlags \<Rightarrow> char list \<Rightarrow> string option" where
  "string_text fl mem = map_option (\<lambda>n. padded fl (take n mem)) (string_count fl mem)"

lemma string_count_length: "string_count fl mem = Some n \<Longrightarrow> n \<le> length mem"
proof -
  assume a: "string_count fl mem = Some n"
  have "length (content xs) \<le> length xs" for xs :: "char list"
    unfolding content_def by (rule length_takeWhile_le)
  from this [of mem] this [of "take k mem" for k] show ?thesis
    using a by (auto simp: string_count_def strlen_def Strnlen_def split: if_splits intro: order_trans)
qed

lemma PutString_text: "PutString put fl mem = (\<lambda>st. Option.bind (string_text fl mem) (\<lambda>t. put_chars put t st))"
proof (cases "string_count fl mem")
  case None
  then show ?thesis by (simp add: PutString_def [abs_def] string_text_def)
next
  case (Some n)
  then have "length (take n mem) = n" using string_count_length by fastforce
  then show ?thesis using Some
    by (cases "padding fl n") (simp add: PutString_def [abs_def] string_text_def padded_def put_times_chars ok_then_assoc)
qed

fun json_text :: "char list \<Rightarrow> string option" where
  "json_text [] = None"
| "json_text (c # mem) =
     (if c = NUL then Some []
      else map_option ((@) (case json_escape c of Some esc \<Rightarrow> [CHR 0x5C, esc]
          | None \<Rightarrow> if of_char c < (32 :: nat) then ''?'' else [c])) (json_text mem))"

lemma PutJson_text: "json_text mem = Some t \<Longrightarrow> PutJson put mem st = put_chars put t st"
proof (induction mem arbitrary: st t)
  case (Cons c mem)
  show ?case
  proof (cases "c = NUL")
    case False
    from False obtain u where u: "json_text mem = Some u" using Cons.prems by auto
    have "PutJson put mem = put_chars put u" using Cons.IH [OF u] by blast
    then show ?thesis using False Cons.prems u by (auto simp: ok_then_assoc [abs_def] split: option.splits)
  qed (use Cons.prems in simp)
qed simp

definition sign_text :: "PrintFlags \<Rightarrow> leftward \<Rightarrow> bool \<Rightarrow> string option" where
  "sign_text fl s neg =
    (let sign = (if neg then CHR ''-'' else if pf_forceSign fl then CHR ''+''
                 else if pf_signOrSpace fl then CHR '' '' else NUL) in
     if sign \<noteq> NUL then
       if pf_width fl \<noteq> 0 \<and> pf_padZero fl
       then map_option ((#) sign) (string_text (fl\<lparr>pf_width := pf_width fl - 1\<rparr>) (snd s @ [NUL]))
       else Option.bind (push sign s) (\<lambda>s1. string_text fl (snd s1 @ [NUL]))
     else string_text fl (snd s @ [NUL]))"

lemma PutStringWithSign_text: "sign_text fl s neg = Some t \<Longrightarrow> PutStringWithSign put fl s neg st = put_chars put t st"
  by (auto simp: sign_text_def PutStringWithSign_def PutString_text Let_def bind_eq_Some_conv split: if_splits)

definition prefix_text :: "PrintFlags \<Rightarrow> string" where
  "prefix_text fl = (if NeedPrefix fl then CHR ''0'' # (if pf_base fl = 16 then [char_of (pf_letBase fl + 23)] else [])
     else [])"

lemma DoPrefix_text: "DoPrefix put fl st = put_chars put (prefix_text fl) st"
  by (simp add: DoPrefix_def prefix_text_def)

definition number_text :: "nat \<Rightarrow> PrintFlags \<Rightarrow> ('a :: len) word \<Rightarrow> string option" where
  "number_text room fl0 i =
    (let fl = fl0\<lparr>pf_isNumber := True\<rparr> in
     if i = 0 then string_text fl (''0'' @ [NUL])
     else do {
       (neg, u) \<leftarrow> magnitude fl i;
       s \<leftarrow> digit_loop (pf_letBase fl) (pf_base fl) u (room, []);
       map_option ((@) (prefix_text fl)) (sign_text fl s neg) })"

lemma PrintI_text: "number_text (MaxLongDigits + 1) fl i = Some t \<Longrightarrow> PrintI put fl i st = put_chars put t st"
  by (auto simp: number_text_def PrintI_def PutString_text DoPrefix_text Let_def bind_eq_Some_conv
      PutStringWithSign_text split: if_splits)

lemma PrintLL_text: "number_text (MaxUllDigits + 1) fl i = Some t \<Longrightarrow> PrintLL put fl i st = put_chars put t st"
  by (auto simp: number_text_def PrintLL_def PutString_text DoPrefix_text Let_def bind_eq_Some_conv
      PutStringWithSign_text split: if_splits)

definition float_text :: "PrintFlags \<Rightarrow> f64 \<Rightarrow> char \<Rightarrow> string option" where
  "float_text fl d ch =
    (if d_isnan d then string_text fl (''nan'' @ [NUL])
     else if d_isinf d then string_text fl ((if dsign d then ''-inf'' else ''+inf'') @ [NUL])
     else Option.bind (float_digits fl d ch) (\<lambda>(l, s). sign_text (fl\<lparr>pf_printLimit := l\<rparr>) s (dsign d)))"

lemma PrintFloat_text: "float_text fl d ch = Some t \<Longrightarrow> PrintFloat put fl d ch st = put_chars put t st"
  by (auto simp: float_text_def PrintFloat_def PutString_text bind_eq_Some_conv PutStringWithSign_text
      split: if_splits)

section \<open>The text of a format\<close>

text \<open>One conversion: the argument it takes and the text it gives.\<close>

fun argument_text :: "PrintFlags \<Rightarrow> char \<Rightarrow> bool \<Rightarrow> va_arg \<Rightarrow> string option" where
  "argument_text fl ch json (VaDouble d) = (if ch \<in> set ''fegFEG'' then float_text fl d ch else None)"
| "argument_text fl ch json (VaStr s) =
     (if ch = CHR ''s'' then
        if json then (case s of None \<Rightarrow> Some [] | Some mem \<Rightarrow> json_text mem)
        else string_text (fl\<lparr>pf_isString := True\<rparr>) (case s of None \<Rightarrow> ''<null>'' @ [NUL] | Some mem \<Rightarrow> mem)
      else None)"
| "argument_text fl ch json (VaInt i) =
     (if ch = CHR ''c'' then Some (if char_of (unat i) = NUL then [] else [char_of (unat i)])
      else if ch \<in> set ''duixXpo'' \<and> \<not> pf_long64 fl then number_text (MaxLongDigits + 1) fl i
      else None)"
| "argument_text fl ch json (VaLongLong i) =
     (if ch \<in> set ''duixXpo'' \<and> pf_long64 fl then number_text (MaxUllDigits + 1) fl i else None)"

definition number_flags :: "PrintFlags \<Rightarrow> char \<Rightarrow> PrintFlags" where
  "number_flags fl0 ch =
     (let fl = fl0\<lparr>pf_base := 10, pf_letBase := 97\<rparr>; fl16 = fl\<lparr>pf_base := 16\<rparr> in
      if ch \<in> set ''dui'' then fl\<lparr>pf_isSigned := ch \<noteq> CHR ''u''\<rparr>
      else if ch = CHR ''X'' then fl16\<lparr>pf_letBase := 65\<rparr>
      else if ch = CHR ''o'' then fl16\<lparr>pf_base := 8\<rparr> else fl16)"

definition take_arg :: "(va_arg \<Rightarrow> string option) \<Rightarrow> va_arg list \<Rightarrow> (string \<times> va_arg list) option" where
  "take_arg f args = (case args of [] \<Rightarrow> None | a # rest \<Rightarrow> map_option (\<lambda>t. (t, rest)) (f a))"

definition conversion_text :: "PrintFlags \<Rightarrow> char \<Rightarrow> fmt_pos \<Rightarrow> va_arg list \<Rightarrow> (string \<times> fmt_pos \<times> va_arg list) option" where
  "conversion_text fl ch p args =
    (if ch \<in> set ''fegFEG'' then map_option (\<lambda>(t, a). (t, p, a)) (take_arg (argument_text fl ch False) args)
     else
       let fl1 = (if pf_printLimit fl = 0 then fl\<lparr>pf_printLimit := - 1\<rparr> else fl) in
       if ch \<in> set ''sc''
       then map_option (\<lambda>(t, a). (t, p, a)) (take_arg (argument_text fl1 ch (is_json_spec (fst p))) args)
       else Option.bind (read_length fl1 ch p) (\<lambda>(fl2, ch2, p2).
         if ch2 \<in> set ''duixXpo''
         then map_option (\<lambda>(t, a). (t, p2, a)) (take_arg (argument_text (number_flags fl2 ch2) ch2 False) args)
         else Some ([], p2, args)))"

lemma conversion_text_length: "conversion_text fl ch p args = Some (t, p1, args1) \<Longrightarrow> length (snd p1) \<le> length (snd p)"
  by (auto simp: conversion_text_def Let_def bind_eq_Some_conv split: if_splits dest!: read_length_length)

function format_text :: "fmt_pos \<Rightarrow> va_arg list \<Rightarrow> string option" where
  "format_text p args =
     Option.bind (fetch p) (\<lambda>(ch, p1).
       if ch = NUL then Some []
       else if ch \<noteq> CHR ''%'' then map_option ((#) ch) (format_text p1 args)
       else Option.bind (fetch p1) (\<lambda>(ch2, p2).
         if ch2 = NUL then Some []
         else if ch2 = CHR ''%'' then map_option ((#) ch2) (format_text p2 args)
         else Option.bind (read_spec ch2 p2 args) (\<lambda>(fl, ch3, p3, args3).
           Option.bind (conversion_text fl ch3 p3 args3) (\<lambda>(t, p4, args4).
             map_option ((@) t) (format_text p4 args4)))))"
  by pat_completeness auto
termination
  by (relation "measure (\<lambda>(p, _). length (snd p))")
     (clarsimp; (drule fetch_shorter)+; ((drule read_spec_length conversion_text_length)+)?; simp)+

declare format_text.simps [simp del]

text \<open>Induction over the pieces of a format that has a text.\<close>

lemma format_text_induct [consumes 1, case_names at_end at_percent_end char percent conversion]:
  assumes "format_text p args = Some t"
    and at_end: "\<And>p args p1. fetch p = Some (NUL, p1) \<Longrightarrow> P p args []"
    and at_percent_end: "\<And>p args p1 p2. fetch p = Some (CHR ''%'', p1) \<Longrightarrow> fetch p1 = Some (NUL, p2) \<Longrightarrow> P p args []"
    and char: "\<And>p args ch p1 u. fetch p = Some (ch, p1) \<Longrightarrow> ch \<noteq> NUL \<Longrightarrow> ch \<noteq> CHR ''%'' \<Longrightarrow>
      P p1 args u \<Longrightarrow> P p args (ch # u)"
    and percent: "\<And>p args p1 p2 u. fetch p = Some (CHR ''%'', p1) \<Longrightarrow> fetch p1 = Some (CHR ''%'', p2) \<Longrightarrow>
      P p2 args u \<Longrightarrow> P p args (CHR ''%'' # u)"
    and conversion: "\<And>p args p1 ch2 p2 fl ch3 p3 args3 v p4 args4 u.
      fetch p = Some (CHR ''%'', p1) \<Longrightarrow> fetch p1 = Some (ch2, p2) \<Longrightarrow> ch2 \<noteq> NUL \<Longrightarrow> ch2 \<noteq> CHR ''%'' \<Longrightarrow>
      read_spec ch2 p2 args = Some (fl, ch3, p3, args3) \<Longrightarrow>
      conversion_text fl ch3 p3 args3 = Some (v, p4, args4) \<Longrightarrow> P p4 args4 u \<Longrightarrow> P p args (v @ u)"
  shows "P p args t"
  using assms(1)
proof (induction p args arbitrary: t rule: format_text.induct)
  case (1 p args)
  obtain ch p1 where f: "fetch p = Some (ch, p1)"
    using "1.prems" by (subst (asm) format_text.simps) (auto simp: bind_eq_Some_conv)
  consider "ch = NUL" | "ch \<noteq> NUL" "ch \<noteq> CHR ''%''" | "ch = CHR ''%''" by blast
  then show ?case
  proof cases
    case 1
    then show ?thesis using "1.prems" f at_end by (subst (asm) format_text.simps) simp
  next
    case 2
    then obtain u where u: "format_text p1 args = Some u" "t = ch # u"
      using "1.prems" f by (subst (asm) format_text.simps) auto
    show ?thesis unfolding u(2) by (rule char [OF f 2 "1.IH" (1) [OF f refl 2 u(1)]])
  next
    case 3
    obtain ch2 p2 where f2: "fetch p1 = Some (ch2, p2)"
      using "1.prems" f 3 by (subst (asm) format_text.simps) (auto simp: bind_eq_Some_conv)
    consider "ch2 = NUL" | "ch2 = CHR ''%''" | "ch2 \<noteq> NUL" "ch2 \<noteq> CHR ''%''" by blast
    then show ?thesis
    proof cases
      case 1
      then show ?thesis using "1.prems" f 3 f2 at_percent_end by (subst (asm) format_text.simps) simp
    next
      case pc: 2
      then obtain u where u: "format_text p2 args = Some u" "t = ch2 # u"
        using "1.prems" f 3 f2 by (subst (asm) format_text.simps) auto
      then show ?thesis using pc 3 f f2 "1.IH" (2) [OF f refl _ _ f2 refl _ pc u(1)] percent by simp
    next
      case conv: 3
      obtain fl ch3 p3 args3 v p4 args4 u where
        r: "read_spec ch2 p2 args = Some (fl, ch3, p3, args3)"
        and c: "conversion_text fl ch3 p3 args3 = Some (v, p4, args4)"
        and u: "format_text p4 args4 = Some u" and t: "t = v @ u"
        using "1.prems" f 3 f2 conv by (subst (asm) format_text.simps) (auto simp: bind_eq_Some_conv)
      have "P p4 args4 u" using "1.IH" (3) [OF f refl _ _ f2 refl conv r refl refl refl c refl refl u] 3 by simp
      then show ?thesis unfolding t using f 3 f2 conv r c conversion by blast
    qed
  qed
qed

section \<open>The printer prints the text of its format\<close>

lemma take_arg_Some: "take_arg f args = Some (t, rest) \<longleftrightarrow> (\<exists>a. args = a # rest \<and> f a = Some t)"
  by (cases args) (auto simp: take_arg_def)

lemma print_number_text:
  assumes "ch \<in> set ''duixXpo''" "argument_text (number_flags fl ch) ch json a = Some t"
  shows "print_number put (number_flags fl ch) (a # rest) st = Option.bind (put_chars put t st) (\<lambda>r. Some (r, rest))"
  using assms by (cases a) (auto simp: PrintI_text PrintLL_text split: if_splits)

lemma convert_number_flags:
  "ch \<in> set ''duixXpo'' \<Longrightarrow> convert_number put fl ch p args st =
     Option.bind (print_number put (number_flags fl ch) args st) (\<lambda>(r, args1). Some (r, p, args1))"
  by (auto simp: convert_number_def number_flags_def Let_def)

lemma convert_number_other:
  "ch \<notin> set ''duixXpo'' \<Longrightarrow> convert_number put fl ch p args st = Some ((True, st), p, args)"
  by (auto simp: convert_number_def Let_def)

lemma print_double_text:
  "argument_text fl ch json a = Some t \<Longrightarrow> ch \<in> set ''fegFEG'' \<Longrightarrow>
   print_double put fl ch (a # rest) st = Option.bind (put_chars put t st) (\<lambda>r. Some (r, rest))"
  by (cases a) (auto simp: PrintFloat_text split: if_splits)

lemma print_string_text:
  "argument_text fl CHR ''s'' json a = Some t \<Longrightarrow>
   print_string put fl json (a # rest) st = Option.bind (put_chars put t st) (\<lambda>r. Some (r, rest))"
  by (cases a) (auto simp: PutString_text PutJson_text split: if_splits option.splits)

lemma print_char_text:
  "argument_text fl CHR ''c'' json a = Some t \<Longrightarrow>
   print_char put (a # rest) st = Option.bind (put_chars put t st) (\<lambda>r. Some (r, rest))"
  by (cases a) (auto split: if_splits)

lemma convert_text:
  assumes "conversion_text fl ch p args = Some (t, p1, args1)"
  shows "convert put fl ch p args st = Option.bind (put_chars put t st) (\<lambda>r. Some (r, p1, args1))"
proof (cases "ch \<in> set ''fegFEG''")
  case True
  then show ?thesis using assms
    by (auto simp: conversion_text_def convert_def take_arg_Some print_double_text)
next
  case False
  define fl1 where "fl1 = (if pf_printLimit fl = 0 then fl\<lparr>pf_printLimit := - 1\<rparr> else fl)"
  note unfolded = conversion_text_def convert_def fl1_def [symmetric]
  consider "ch = CHR ''s''" | "ch = CHR ''c''" | "ch \<notin> set ''sc''" by auto
  then show ?thesis
  proof cases
    case 3
    then have sc: "ch \<noteq> CHR ''s''" "ch \<noteq> CHR ''c''" by auto
    obtain fl2 ch2 p2 where r: "read_length fl1 ch p = Some (fl2, ch2, p2)"
      using assms False 3 by (auto simp: unfolded bind_eq_Some_conv simp del: list.set(2))
    have c: "convert put fl ch p args st = convert_number put fl2 ch2 p2 args st"
      using False sc r by (simp add: unfolded del: list.set(2))
    have t: "(if ch2 \<in> set ''duixXpo''
        then map_option (\<lambda>(t, a). (t, p2, a)) (take_arg (argument_text (number_flags fl2 ch2) ch2 False) args)
        else Some ([], p2, args)) = Some (t, p1, args1)"
      using assms False 3 r by (simp add: unfolded del: list.set(2))
    show ?thesis
    proof (cases "ch2 \<in> set ''duixXpo''")
      case True
      obtain a where a: "args = a # args1" "p1 = p2"
        and "argument_text (number_flags fl2 ch2) ch2 False a = Some t"
        using t True by (auto simp: take_arg_Some simp del: list.set(2))
      from print_number_text [OF True this(3), of put] show ?thesis
        using c unfolding convert_number_flags [OF True] a by simp
    next
      case False
      then have "t = []" "p1 = p2" "args1 = args" using t by simp_all
      with False show ?thesis by (simp add: c convert_number_other del: list.set(2))
    qed
  qed (use assms in \<open>auto simp: unfolded take_arg_Some print_string_text print_char_text\<close>)
qed

lemma ok_then_finish:
  "Option.bind (ok_then m f) (\<lambda>r. finish put (snd r)) =
   Option.bind m (\<lambda>r. if fst r then Option.bind (f (snd r)) (\<lambda>r. finish put (snd r)) else finish put (snd r))"
  by (cases m) (auto simp: ok_then_def)

lemma Print_text:
  "format_text p args = Some t \<Longrightarrow> Print put p args st = Option.bind (put_chars put t st) (\<lambda>r. finish put (snd r))"
proof (induction arbitrary: st rule: format_text_induct)
  case (conversion p args p1 ch2 p2 fl ch3 p3 args3 v p4 args4 u)
  have "Print put p args st = Option.bind (put_chars put v st)
      (\<lambda>r. if fst r then Print put p4 args4 (snd r) else finish put (snd r))"
    using conversion.hyps by (subst Print.simps) (simp add: convert_text [OF conversion.hyps(6)])
  then show ?case by (simp add: conversion.IH ok_then_finish split_beta cong: if_cong)
qed (subst Print.simps; simp add: ok_then_finish split_beta' cong: if_cong)+

text \<open>No terminator is ever printed.\<close>

lemma string_text_is_text: "string_text fl mem = Some t \<Longrightarrow> is_text t"
proof -
  have c: "take (length (content xs)) xs = content xs" for xs :: "char list"
    unfolding content_def by (simp add: takeWhile_eq_take [symmetric])
  have "is_text (take (length (content (take k mem))) mem)" for k
  proof -
    have "length (content (take k mem)) \<le> k"
      unfolding content_def by (rule order_trans [OF length_takeWhile_le]) simp
    then have "take (length (content (take k mem))) mem = content (take k mem)"
      using c [of "take k mem"] by (simp add: min_def split: if_splits)
    then show ?thesis by simp
  qed
  moreover have "is_text (take (length (content mem)) mem)" by (simp add: c)
  moreover have "is_text (padded fl u)" if "is_text u" for u
    using that by (cases "padding fl (length u)") (simp add: padded_def is_text_def)
  moreover assume "string_text fl mem = Some t"
  ultimately show ?thesis
    by (auto simp: string_text_def string_count_def Strnlen_def strlen_def split: if_splits)
qed

lemma json_text_is_text: "json_text mem = Some t \<Longrightarrow> is_text t"
  by (induction mem arbitrary: t) (auto simp: json_escape_def is_text_def split: if_splits)

lemma sign_text_is_text: "sign_text fl s neg = Some t \<Longrightarrow> is_text t"
  by (auto simp: sign_text_def Let_def bind_eq_Some_conv split: if_splits dest: string_text_is_text)

lemma number_text_is_text:
  assumes "number_text room (number_flags fl ch) i = Some t"
  shows "is_text t"
proof -
  have "is_text (prefix_text (number_flags fl ch \<lparr>pf_isNumber := True\<rparr>))"
    by (simp add: prefix_text_def number_flags_def Let_def char_of_def is_text_def bit_Suc_0_iff)
  then show ?thesis using assms
    by (auto simp: number_text_def Let_def bind_eq_Some_conv split: if_splits
        dest: string_text_is_text sign_text_is_text)
qed

lemma argument_text_is_text:
  "argument_text fl ch json a = Some t \<Longrightarrow> ch \<in> set ''duixXpo'' \<Longrightarrow> fl = number_flags fl0 ch \<Longrightarrow> is_text t"
  "argument_text fl ch json a = Some t \<Longrightarrow> ch \<in> set ''fegFEGsc'' \<Longrightarrow> is_text t"
  by (cases a; auto simp: float_text_def bind_eq_Some_conv split: if_splits option.splits
      dest: number_text_is_text string_text_is_text json_text_is_text sign_text_is_text)+

lemma conversion_text_is_text:
  assumes "conversion_text fl ch p args = Some (t, p1, args1)"
  shows "is_text t"
proof (cases "ch \<in> set ''fegFEG'' \<or> ch \<in> set ''sc''")
  case True
  then have "ch \<in> set ''fegFEGsc''" by auto
  moreover have "\<exists>fl1 json a. argument_text fl1 ch json a = Some t"
    using assms True by (auto simp: conversion_text_def Let_def take_arg_Some simp del: list.set(2) split: if_splits)
  ultimately show ?thesis using argument_text_is_text(2) by blast
next
  case False
  then obtain fl2 ch2 p2 where r: "(if ch2 \<in> set ''duixXpo''
      then map_option (\<lambda>(t, a). (t, p2, a)) (take_arg (argument_text (number_flags fl2 ch2) ch2 False) args)
      else Some ([], p2, args)) = Some (t, p1, args1)"
    using assms by (auto simp: conversion_text_def Let_def bind_eq_Some_conv simp del: list.set(2))
  show ?thesis
  proof (cases "ch2 \<in> set ''duixXpo''")
    case True
    then obtain a where "argument_text (number_flags fl2 ch2) ch2 False a = Some t"
      using r by (auto simp: take_arg_Some simp del: list.set(2))
    then show ?thesis using argument_text_is_text(1) [OF _ True] by blast
  next
    case False
    then show ?thesis using r by simp
  qed
qed

lemma format_text_is_text: "format_text p args = Some t \<Longrightarrow> is_text t"
  by (induction rule: format_text_induct) (auto dest: conversion_text_is_text)

section \<open>The buffer\<close>

lemma put_chars_buffer:
  "is_text t \<Longrightarrow> 0 < n \<Longrightarrow> pos + n \<le> length buf \<Longrightarrow>
   put_chars buffer_put t ((buf, pos, n), k) =
     (let m = min (length t) (n - 1) in
      Some (length t < n, ((take pos buf @ take m t @ drop (pos + m) buf, pos + m, n - m), k + int m)))"
proof (induction t arbitrary: buf pos n k)
  case (Cons c t)
  show ?case
  proof (cases "n = 1")
    case True
    then show ?thesis by (simp add: PutChar_def ok_then_def)
  next
    case False
    then have n: "1 < n" using Cons.prems by simp
    have p: "poke buf pos c = Some (buf[pos := c])" using Cons.prems by (simp add: poke_def)
    have "put_chars buffer_put (c # t) ((buf, pos, n), k) =
        put_chars buffer_put t ((buf[pos := c], pos + 1, n - 1), k + 1)"
      using Cons.prems n p by (simp add: PutChar_def ok_then_def)
    moreover have "take (pos + 1) (buf[pos := c]) = take pos buf @ [c]"
      using Cons.prems by (simp add: take_Suc_conv_app_nth)
    moreover have "drop (pos + 1 + m) (buf[pos := c]) = drop (pos + 1 + m) buf" for m by simp
    moreover have "min (Suc (length t)) (n - 1) = Suc (min (length t) (n - 1 - 1))" using n by simp
    ultimately show ?thesis using Cons.prems n
      by (simp add: Cons.IH Let_def) auto
  qed
qed simp

text \<open>Reading a format, one piece at a time.\<close>

lemma format_text_simps [simp]:
  "format_text (bk, CHR 0x00 # r) args = Some []"
  "c \<noteq> NUL \<Longrightarrow> c \<noteq> CHR ''%'' \<Longrightarrow> format_text (bk, c # r) args = map_option ((#) c) (format_text (c # bk, r) args)"
  "c \<noteq> NUL \<Longrightarrow> c \<noteq> CHR ''%'' \<Longrightarrow> format_text (bk, CHR ''%'' # c # r) args =
     Option.bind (read_spec c (c # CHR ''%'' # bk, r) args) (\<lambda>(fl, ch, p1, args1).
       Option.bind (conversion_text fl ch p1 args1) (\<lambda>(t, p2, args2).
         map_option ((@) t) (format_text p2 args2)))"
  "format_text (bk, CHR ''%'' # CHR ''%'' # r) args =
     map_option ((#) CHR ''%'') (format_text (CHR ''%'' # CHR ''%'' # bk, r) args)"
  by (subst format_text.simps; simp add: split_beta' cong: if_cong)+

text \<open>
  C25. \<open>SafeVsnprintf\<close> stores the text of the format, cut to the room there is, with a terminator after it, leaves
  the rest of the buffer as it was and returns the number of characters stored; so it never writes outside
  the room it was given.
\<close>

lemma SafeVsnprintf_text:
  assumes "format_text ([], fmt) args = Some t" "0 < n" "n \<le> length buf"
  shows "SafeVsnprintf buf n fmt args =
    Some (int (min (length t) (n - 1)),
      take (n - 1) t @ NUL # drop (min (length t) (n - 1) + 1) buf)"
proof -
  let ?m = "min (length t) (n - 1)"
  have t: "is_text t" using assms(1) by (rule format_text_is_text)
  have "Print buffer_put ([], fmt) args ((buf, 0, n), 0) =
      Some (int ?m, (take ?m t @ drop ?m buf, ?m, n - ?m))"
    using assms(2,3) put_chars_buffer [OF t, of n 0 buf 0]
    by (simp add: Print_text [OF assms(1)] finish_def PutChar_def Let_def)
  moreover have "take ?m t = take (n - 1) t" by (simp add: min_def)
  moreover have "?m < length buf" using assms(2,3) by auto
  moreover have "(drop m buf)[0 := NUL] = NUL # drop (m + 1) buf" if "m < length buf" for m
    using that by (simp add: Cons_nth_drop_Suc [symmetric])
  ultimately show ?thesis
    by (simp add: SafeVsnprintf_def poke_def list_update_append)
qed

lemma SafeVsnprintf_text_witness:
  "SafeVsnprintf ''xxxxxx'' 4 (''%c00%%'' @ [NUL]) [VaInt 49] = Some (3, ''100'' @ [NUL] @ ''xx'')"
proof -
  have "format_text ([], ''%c00%%'' @ [NUL]) [VaInt 49] = Some ''100%''"
    by (simp add: read_spec_def read_number_def is_digit_def conversion_text_def take_arg_def Let_def char_of_def bit_Suc_0_iff)
  from SafeVsnprintf_text [OF this, of 4 "''xxxxxx''"] show ?thesis by simp
qed

end
