(* ===== verification/PrintfNumbers.thy ===== *)
theory PrintfNumbers
  imports PrintfProps
begin

text \<open>
  What the conversions print: integers in decimal and hexadecimal, when their digits fit the local buffer, JSON
  strings, and the fixed-point digits of floating point numbers.
\<close>

section \<open>Digits\<close>

fun hex :: "nat \<Rightarrow> string" where
  "hex n = (if n < 16 then [digit_char 97 n] else hex (n div 16) @ [digit_char 97 (n mod 16)])"

declare hex.simps [simp del]

definition int_dec :: "int \<Rightarrow> string" where
  "int_dec i = (if i < 0 then CHR ''-'' # dec (nat (- i)) else dec (nat i))"

lemma digit_char_dec: "t < 10 \<Longrightarrow> digit_char b t = char_of (48 + t)"
  by (simp add: digit_char_def add.commute)

lemma push_simps [simp]: "push c (0, s) = None" "push c (Suc n, s) = Some (n, c # s)"
  by (simp_all add: push_def)

text \<open>The loop against any text built digit by digit.\<close>

lemma digit_loop_builds:
  assumes base: "2 \<le> base"
    and T: "\<And>n. T n = (if n < base then [digit_char lb n] else T (n div base) @ [digit_char lb (n mod base)])"
  shows "0 < u \<Longrightarrow> length (T u) \<le> room \<Longrightarrow>
    digit_loop lb base u (room, s) = Some (room - length (T u), T u @ s)"
proof (induction u arbitrary: room s rule: less_induct)
  case (less u)
  obtain r where r: "room = Suc r" using less.prems(2) T [of u] by (cases room) (auto split: if_splits)
  show ?case
  proof (cases "u < base")
    case True
    then show ?thesis using base less.prems r T [of u]
      by (subst digit_loop.simps) (simp add: digit_loop.simps)
  next
    case False
    then have d: "u div base < u" "0 < u div base" using base by (auto simp: div_greater_zero_iff)
    have t: "T u = T (u div base) @ [digit_char lb (u mod base)]" using False T [of u] by simp
    then have l: "length (T (u div base)) \<le> r" using less.prems(2) r by simp
    have "digit_loop lb base u (room, s) = digit_loop lb base (u div base) (r, digit_char lb (u mod base) # s)"
      using base less.prems r by (subst digit_loop.simps) simp
    also have "\<dots> = Some (r - length (T (u div base)), T (u div base) @ digit_char lb (u mod base) # s)"
      by (rule less.IH [OF d l])
    finally show ?thesis by (simp add: t r)
  qed
qed

lemma digit_loop_dec:
  "0 < u \<Longrightarrow> length (dec u) \<le> room \<Longrightarrow> digit_loop lb 10 u (room, s) = Some (room - length (dec u), dec u @ s)"
  by (rule digit_loop_builds) (simp, subst dec.simps, simp_all add: digit_char_dec)

lemma digit_loop_hex:
  "0 < u \<Longrightarrow> length (hex u) \<le> room \<Longrightarrow> digit_loop 97 16 u (room, s) = Some (room - length (hex u), hex u @ s)"
  by (rule digit_loop_builds) (simp, subst hex.simps, simp_all)

text \<open>How much room the digits take.\<close>

lemma digit_loop_room:
  assumes base: "2 \<le> base"
  shows "case digit_loop lb base u (room, s) of None \<Rightarrow> base ^ room \<le> u
    | Some (r, t) \<Rightarrow> u < base ^ room \<and> r \<le> room \<and> (\<forall>k\<le>room. k \<le> r \<longleftrightarrow> u < base ^ (room - k))"
proof (induction room arbitrary: u s)
  case 0
  show ?case using base by (cases "u = 0") (simp_all add: digit_loop.simps)
next
  case (Suc r)
  show ?case
  proof (cases "u = 0")
    case True
    then show ?thesis using base by (simp add: digit_loop.simps)
  next
    case False
    let ?rest = "digit_loop lb base (u div base) (r, digit_char lb (u mod base) # s)"
    have step: "digit_loop lb base u (Suc r, s) = ?rest"
      using False base by (subst digit_loop.simps) simp
    have div: "u div base < base ^ k \<longleftrightarrow> u < base ^ Suc k" for k
      using base by (simp add: div_less_iff_less_mult mult.commute)
    have IH: "case ?rest of None \<Rightarrow> base ^ r \<le> u div base
      | Some (q, t) \<Rightarrow> u div base < base ^ r \<and> q \<le> r \<and> (\<forall>k\<le>r. k \<le> q \<longleftrightarrow> u div base < base ^ (r - k))"
      by (rule Suc.IH)
    show ?thesis
    proof (cases ?rest)
      case None
      then show ?thesis using IH step div [of r] by (simp add: not_less [symmetric])
    next
      case (Some x)
      obtain q t where x: "x = (q, t)" by fastforce
      have a: "u < base ^ Suc r" "q \<le> r" and k: "\<And>k. k \<le> r \<Longrightarrow> k \<le> q \<longleftrightarrow> u < base ^ (Suc r - k)"
        using IH Some x div by (auto simp: Suc_diff_le)
      have "k \<le> q \<longleftrightarrow> u < base ^ (Suc r - k)" if "k \<le> Suc r" for k
      proof (cases "k \<le> r")
        case False
        then have "k = Suc r" using that by simp
        then show ?thesis using a(2) \<open>u \<noteq> 0\<close> by simp
      qed (rule k)
      then show ?thesis using Some x step a by simp
    qed
  qed
qed

section \<open>When the digits fit\<close>

text \<open>A sign that is put into the buffer in front of the digits.\<close>

definition buffered_sign :: "PrintFlags \<Rightarrow> bool \<Rightarrow> bool" where
  "buffered_sign fl neg \<longleftrightarrow> (neg \<or> pf_forceSign fl \<or> pf_signOrSpace fl) \<and> \<not> (pf_width fl \<noteq> 0 \<and> pf_padZero fl)"

lemma string_text_total [simp]:
  assumes "\<not> pf_isString fl" "NUL \<in> set mem"
  shows "string_text fl mem = Some (padded fl (content mem))"
proof -
  have "take (length (content mem)) mem = content mem"
    unfolding content_def by (simp add: takeWhile_eq_take [symmetric])
  then show ?thesis using assms by (simp add: string_text_def string_count_def strlen_def)
qed

lemma sign_text_None:
  "\<not> pf_isString fl \<Longrightarrow> sign_text fl s neg = None \<longleftrightarrow> buffered_sign fl neg \<and> fst s = 0"
  by (auto simp: sign_text_def buffered_sign_def push_def Let_def)

text \<open>An integer conversion without digits to print is undefined, and nothing else is.\<close>

lemma magnitude_None:
  "magnitude fl (i :: ('a :: len) word) = None \<longleftrightarrow>
     pf_isSigned fl \<and> pf_base fl = 10 \<and> sint i = - (2 ^ (LENGTH('a) - 1))"
proof -
  have "- (2 ^ (LENGTH('a) - 1)) < (0 :: int)" by simp
  then show ?thesis by (auto simp: magnitude_def simp del: neg_less_0_iff_less)
qed

lemma number_text_None:
  assumes "2 \<le> pf_base fl" "\<not> pf_isString fl" "i \<noteq> 0"
  shows "number_text room fl i = None \<longleftrightarrow>
    (case magnitude fl i of None \<Rightarrow> True
     | Some (neg, u) \<Rightarrow> pf_base fl ^ room \<le> u
         \<or> buffered_sign fl neg \<and> 0 < room \<and> pf_base fl ^ (room - 1) \<le> u)"
proof -
  have m: "magnitude (fl\<lparr>pf_isNumber := True\<rparr>) i = magnitude fl i" by (simp add: magnitude_def)
  have b: "buffered_sign (fl\<lparr>pf_isNumber := True\<rparr>) = buffered_sign fl" by (simp add: buffered_sign_def fun_eq_iff)
  show ?thesis
  proof (cases "magnitude fl i")
    case None
    then show ?thesis using assms m by (simp add: number_text_def Let_def)
  next
    case (Some x)
    then obtain neg u where x: "magnitude fl i = Some (neg, u)" by (cases x) auto
    let ?d = "digit_loop (pf_letBase fl) (pf_base fl) u (room, [])"
    have r: "case ?d of None \<Rightarrow> pf_base fl ^ room \<le> u
      | Some (r, t) \<Rightarrow> u < pf_base fl ^ room \<and> r \<le> room \<and> (\<forall>k\<le>room. k \<le> r \<longleftrightarrow> u < pf_base fl ^ (room - k))"
      by (rule digit_loop_room [OF assms(1)])
    show ?thesis
    proof (cases ?d)
      case None
      then show ?thesis using assms m x r by (simp add: number_text_def Let_def)
    next
      case (Some y)
      then obtain q t where y: "?d = Some (q, t)" by (cases y) auto
      have q: "q = 0 \<longleftrightarrow> room = 0 \<or> pf_base fl ^ (room - 1) \<le> u"
      proof (cases room)
        case (Suc n)
        then show ?thesis using r y by (auto simp: not_less dest: spec [of _ "Suc 0"])
      qed (use r y in simp)
      have u: "u < pf_base fl ^ room" using r y by simp
      have "0 < u" using x assms(3) by (auto simp: magnitude_def unat_gt_0 split: if_splits)
      then have "room \<noteq> 0" using u by (cases room) auto
      then show ?thesis using assms(2,3) m x y q u b
        by (simp add: number_text_def Let_def sign_text_None not_le)
    qed
  qed
qed

lemma magnitude_bound: "magnitude fl (i :: ('a :: len) word) = Some (neg, u) \<Longrightarrow> u < 2 ^ LENGTH('a)"
proof -
  have "nat (- sint i) \<le> 2 ^ (LENGTH('a) - 1)" using sint_ge [of i] by simp
  also have "\<dots> < (2 :: nat) ^ LENGTH('a)" by simp
  finally show "magnitude fl i = Some (neg, u) \<Longrightarrow> u < 2 ^ LENGTH('a)"
    by (auto simp: magnitude_def split: if_splits)
qed

lemma sint_word: "sint i = k \<Longrightarrow> i = word_of_int k"
  by (drule sym) simp

lemma least_words:
  "(word_of_int (- (2 ^ (LENGTH(32) - 1))) :: u32) = 0x80000000"
  "(word_of_int (- (2 ^ (LENGTH(64) - 1))) :: u64) = 0x8000000000000000"
  by simp_all

lemma sint_least: "sint (i :: ('a :: len) word) = - (2 ^ (LENGTH('a) - 1)) \<longleftrightarrow> i = word_of_int (- (2 ^ (LENGTH('a) - 1)))"
proof -
  have "sint (word_of_int (- (2 ^ (LENGTH('a) - 1))) :: 'a word) = - (2 ^ (LENGTH('a) - 1))"
    unfolding int_word_sint by simp
  then show ?thesis using sint_word by blast
qed

text \<open>The digits of a base, against the two powers that matter.\<close>

lemma number_fits_None:
  assumes "pf_base fl = b" "2 \<le> b" "\<not> pf_isString fl" "2 ^ LENGTH('a) \<le> b ^ (room - 1)"
  shows "number_text room fl (i :: ('a :: len) word) = None \<longleftrightarrow>
    pf_isSigned fl \<and> b = 10 \<and> i = word_of_int (- (2 ^ (LENGTH('a) - 1)))"
proof (cases "i = 0")
  case True
  have "(0 :: int) \<noteq> - (2 ^ (LENGTH('a) - 1))" by simp
  then have "i \<noteq> word_of_int (- (2 ^ (LENGTH('a) - 1)))" using True sint_least [of i] by simp
  then show ?thesis using True assms(3) by (simp add: number_text_def)
next
  case False
  have "b ^ (room - 1) \<le> b ^ room" using assms(2) by (intro power_increasing) auto
  then have "\<not> b ^ room \<le> u \<and> \<not> b ^ (room - 1) \<le> u" if "magnitude fl i = Some (neg, u)" for neg u
    using magnitude_bound [OF that] assms(4) by linarith
  then show ?thesis using False assms(1-3) magnitude_None [of fl i] sint_least [of i]
    by (auto simp: number_text_None split: option.splits)
qed

lemma number_octal_None:
  assumes "pf_base fl = 8" "\<not> pf_isString fl" "0 < room"
  shows "number_text room fl i = None \<longleftrightarrow>
    8 ^ room \<le> unat i \<or> buffered_sign fl False \<and> 8 ^ (room - 1) \<le> unat i"
proof (cases "i = 0")
  case False
  have "magnitude fl i = Some (False, unat i)" using assms(1) by (simp add: magnitude_def)
  then show ?thesis using False assms by (simp add: number_text_None)
qed (use assms in \<open>simp add: number_text_def\<close>)

lemma number_text_undefined:
  assumes "pf_base fl \<in> {8, 10, 16}" "\<not> pf_isString fl"
  shows "(number_text (MaxLongDigits + 1) fl (i :: u32) = None \<longleftrightarrow>
      pf_isSigned fl \<and> pf_base fl = 10 \<and> i = 0x80000000
      \<or> pf_base fl = 8 \<and> buffered_sign fl False \<and> 2 ^ 30 \<le> unat i)
    \<and> (number_text (MaxUllDigits + 1) fl (j :: u64) = None \<longleftrightarrow>
      pf_isSigned fl \<and> pf_base fl = 10 \<and> j = 0x8000000000000000
      \<or> pf_base fl = 8 \<and> (2 ^ 63 \<le> unat j \<or> buffered_sign fl False \<and> 2 ^ 60 \<le> unat j))"
proof -
  have 32: "\<not> 8589934592 \<le> unat (i :: u32)" using unsigned_less [of i, where 'a = nat] by simp
  show ?thesis
  proof (cases "pf_base fl = 8")
    case True
    then show ?thesis using assms(2) 32 by (simp add: number_octal_None MaxLongDigits_def MaxUllDigits_def)
  next
    case False
    then have "number_text (MaxLongDigits + 1) fl i = None \<longleftrightarrow>
        pf_isSigned fl \<and> pf_base fl = 10 \<and> i = word_of_int (- (2 ^ (LENGTH(32) - 1)))"
      "number_text (MaxUllDigits + 1) fl j = None \<longleftrightarrow>
        pf_isSigned fl \<and> pf_base fl = 10 \<and> j = word_of_int (- (2 ^ (LENGTH(64) - 1)))"
      using number_fits_None [of fl "pf_base fl" "MaxLongDigits + 1" i]
        number_fits_None [of fl "pf_base fl" "MaxUllDigits + 1" j] assms
      by (auto simp: MaxLongDigits_def MaxUllDigits_def)
    then show ?thesis using False unfolding least_words by simp
  qed
qed

text \<open>A sink that takes everything: printing to it fails only by an access outside the digit buffer.\<close>

definition takes_all :: "'s putc \<Rightarrow> bool" where
  "takes_all put \<longleftrightarrow> (\<forall>c s. c \<noteq> NUL \<longrightarrow> (\<exists>s1. put c s = Some (True, s1)))"

lemma takes_all_PutChar:
  assumes "takes_all put" "c \<noteq> NUL"
  shows "\<exists>st1. PutChar put c st = Some (True, st1)"
proof -
  from assms obtain s1 where "put c (fst st) = Some (True, s1)" unfolding takes_all_def by blast
  with assms(2) show ?thesis by (simp add: PutChar_def)
qed

lemma takes_all_put_chars: "takes_all put \<Longrightarrow> is_text t \<Longrightarrow> \<exists>st1. put_chars put t st = Some (True, st1)"
proof (induction t arbitrary: st)
  case (Cons c t)
  then obtain st1 where "PutChar put c st = Some (True, st1)"
    using takes_all_PutChar [of put c st] by (auto simp: is_text_def)
  with Cons show ?case by (simp add: is_text_def)
qed simp

lemma prefix_is_text: "is_text (prefix_text (number_flags fl ch\<lparr>pf_isNumber := True\<rparr>))"
  by (simp add: prefix_text_def number_flags_def Let_def char_of_def is_text_def bit_Suc_0_iff)

lemma PutStringWithSign_None:
  assumes "sign_text fl s neg = None" "takes_all put"
  shows "PutStringWithSign put fl s neg st = None"
proof -
  obtain a b c where "PutChar put CHR ''-'' st = Some (True, a)" "PutChar put CHR ''+'' st = Some (True, b)"
    "PutChar put CHR '' '' st = Some (True, c)"
    using takes_all_PutChar [OF assms(2), of "CHR ''-''" st] takes_all_PutChar [OF assms(2), of "CHR ''+''" st]
      takes_all_PutChar [OF assms(2), of "CHR '' ''" st] by auto
  then show ?thesis using assms(1)
    by (auto simp: sign_text_def PutStringWithSign_def PutString_text Let_def bind_eq_None_conv split: if_splits)
qed

lemma PrintI_None:
  assumes "takes_all put"
  shows "PrintI put (number_flags fl ch) i st = None \<longleftrightarrow> number_text (MaxLongDigits + 1) (number_flags fl ch) i = None"
proof (cases "number_text (MaxLongDigits + 1) (number_flags fl ch) i")
  case (Some t)
  then obtain st1 where "put_chars put t st = Some (True, st1)"
    using takes_all_put_chars [OF assms number_text_is_text [OF Some]] by blast
  with Some show ?thesis by (simp add: PrintI_text)
next
  case None
  obtain st1 where "put_chars put (prefix_text (number_flags fl ch\<lparr>pf_isNumber := True\<rparr>)) st = Some (True, st1)"
    using takes_all_put_chars [OF assms prefix_is_text] by blast
  with None show ?thesis
    by (auto simp: number_text_def PrintI_def PutString_text DoPrefix_text Let_def
        PutStringWithSign_None [OF _ assms] split: if_splits bind_splits)
qed

lemma PrintLL_None:
  assumes "takes_all put"
  shows "PrintLL put (number_flags fl ch) i st = None \<longleftrightarrow> number_text (MaxUllDigits + 1) (number_flags fl ch) i = None"
proof (cases "number_text (MaxUllDigits + 1) (number_flags fl ch) i")
  case (Some t)
  then obtain st1 where "put_chars put t st = Some (True, st1)"
    using takes_all_put_chars [OF assms number_text_is_text [OF Some]] by blast
  with Some show ?thesis by (simp add: PrintLL_text)
next
  case None
  obtain st1 where "put_chars put (prefix_text (number_flags fl ch\<lparr>pf_isNumber := True\<rparr>)) st = Some (True, st1)"
    using takes_all_put_chars [OF assms prefix_is_text] by blast
  with None show ?thesis
    by (auto simp: number_text_def PrintLL_def PutString_text DoPrefix_text Let_def
        PutStringWithSign_None [OF _ assms] split: if_splits bind_splits)
qed

definition sign_in_buffer :: "PrintFlags \<Rightarrow> bool" where
  "sign_in_buffer fl \<longleftrightarrow> (pf_forceSign fl \<or> pf_signOrSpace fl) \<and> (pf_width fl = 0 \<or> \<not> pf_padZero fl)"

text \<open>
  C33. Printing an integer is undefined in exactly these cases: the least signed number in decimal, whose
  negation overflows; and octal, when the buffer is one digit short. For 32 bits that takes an eleven
  digit number with a sign or space before it; for 64 bits a number of 22 digits, or one of 21 digits with a sign or
  space. All other integers fit, in every base and with all flags.
\<close>

lemma integer_conversion_undefined:
  assumes "takes_all put" "\<not> pf_isString fl"
  shows "(PrintI put (number_flags fl ch) i st = None \<longleftrightarrow>
      ch \<in> {CHR ''d'', CHR ''i''} \<and> i = 0x80000000 \<or> ch = CHR ''o'' \<and> sign_in_buffer fl \<and> 2 ^ 30 \<le> unat i)
    \<and> (PrintLL put (number_flags fl ch) j st = None \<longleftrightarrow>
      ch \<in> {CHR ''d'', CHR ''i''} \<and> j = 0x8000000000000000
      \<or> ch = CHR ''o'' \<and> (2 ^ 63 \<le> unat j \<or> sign_in_buffer fl \<and> 2 ^ 60 \<le> unat j))"
proof -
  let ?fl = "number_flags fl ch"
  have "pf_base ?fl \<in> {8, 10, 16}" "\<not> pf_isString ?fl"
    using assms(2) by (auto simp: number_flags_def Let_def)
  from number_text_undefined [OF this, of i j] show ?thesis
    unfolding PrintI_None [OF assms(1)] PrintLL_None [OF assms(1)] sign_in_buffer_def
    by (auto simp: number_flags_def Let_def buffered_sign_def)
qed

lemma integer_conversion_undefined_witness:
  "PrintI (\<lambda>c s. Some (True, s @ [c])) (number_flags (Printf_Init\<lparr>pf_forceSign := True\<rparr>) CHR ''o'') 0x40000000 ([], 0) = None
   \<and> PrintI (\<lambda>c s. Some (True, s @ [c])) (number_flags Printf_Init CHR ''o'') 0x40000000 ([], 0) \<noteq> None"
proof -
  have "takes_all (\<lambda>c s. Some (True, s @ [c]))" by (simp add: takes_all_def)
  from integer_conversion_undefined [OF this] show ?thesis by (simp add: Printf_Init_def sign_in_buffer_def)
qed

section \<open>Integers as printed\<close>

lemma flag_char_None:
  "c \<notin> set ''#-0+ '' \<Longrightarrow> flag_char c fl = None"
  by simp

lemma read_spec_plain:
  assumes "c \<notin> set ''#-0+ '' " "\<not> is_digit c" "c \<noteq> CHR ''*''" "c \<noteq> CHR ''.''"
  shows "read_spec c (bk, r) args = Some (Printf_Init, c, (bk, r), args)"
proof -
  have "flags_loop c bk r Printf_Init = Some (Printf_Init, c, (bk, r))"
    using flag_char_None [OF assms(1)] by (cases r) simp_all
  moreover have "number_loop c bk r 0 = Some (0, c, (bk, r))" using assms(2) by (cases r) simp_all
  ultimately show ?thesis using assms(3,4)
    by (simp add: read_spec_def read_number_def Printf_Init_def)
qed

lemma padded_none [simp]: "pf_width fl \<le> 0 \<Longrightarrow> pf_printLimit fl \<le> 0 \<Longrightarrow> padded fl t = t"
  by (simp add: padded_def padding_def Let_def)

lemma digit_text: "char_of (48 + m mod 10) \<noteq> NUL" for m :: nat
proof -
  have "of_char (char_of (48 + m mod 10)) = (48 + m mod 10 :: nat)" by (simp add: of_char_of)
  moreover have "of_char NUL = (0 :: nat)" by simp
  ultimately show ?thesis by (metis add_is_0 zero_neq_numeral)
qed

lemma is_text_dec [simp]: "is_text (dec n)"
proof (induction n rule: dec.induct)
  case (1 n)
  show ?case using 1 digit_text [of n] by (subst dec.simps) (auto simp: is_text_def)
qed

lemma digit_char_text: "lb = 97 \<or> lb = 65 \<Longrightarrow> t < 16 \<Longrightarrow> digit_char lb t \<noteq> NUL"
proof -
  assume a: "lb = 97 \<or> lb = 65" "t < 16"
  then have "of_char (digit_char lb t) = (if t \<ge> 10 then t + (lb - 58) + 48 else t + 48 :: nat)"
    by (auto simp: digit_char_def of_char_of)
  moreover have "of_char NUL = (0 :: nat)" by simp
  ultimately show ?thesis by (metis add_is_0 zero_neq_numeral)
qed

lemma is_text_hex [simp]: "is_text (hex n)"
proof (induction n rule: hex.induct)
  case (1 n)
  have "n mod 16 < 16" by simp
  then show ?case using 1 digit_char_text [of 97 n] digit_char_text [of 97 "n mod 16"]
    by (subst hex.simps) (auto simp: is_text_def)
qed

text \<open>Conversions without flags, width or precision.\<close>

definition plain_number :: "PrintFlags \<Rightarrow> bool" where
  "plain_number fl \<longleftrightarrow> pf_width fl = 0 \<and> pf_printLimit fl \<le> 0 \<and> \<not> pf_forceSign fl \<and> \<not> pf_signOrSpace fl
     \<and> \<not> pf_hash fl \<and> \<not> pf_isString fl"

lemma content_of_text: "is_text t \<Longrightarrow> content (t @ [NUL]) = t"
  using content_append_NUL [of t "[]"] by simp

lemma sign_text_plain:
  assumes "plain_number fl" "is_text t"
  shows "sign_text fl (Suc r, t) neg = Some ((if neg then CHR ''-'' # t else t))"
  using assms by (simp add: sign_text_def plain_number_def Let_def content_of_text content_of_text [of "CHR ''-'' # t", simplified])

lemma number_text_plain:
  assumes fl: "plain_number fl" and m: "magnitude fl i = Some (neg, u)"
    and d: "digit_loop (pf_letBase fl) (pf_base fl) u (room, []) = Some (Suc r, t)" "is_text t" and i: "i \<noteq> 0"
  shows "number_text room fl i = Some (if neg then CHR ''-'' # t else t)"
proof -
  have "magnitude (fl\<lparr>pf_isNumber := True\<rparr>) i = Some (neg, u)" using m by (simp add: magnitude_def)
  moreover have "plain_number (fl\<lparr>pf_isNumber := True\<rparr>)" using fl by (simp add: plain_number_def)
  moreover have "\<not> NeedPrefix (fl\<lparr>pf_isNumber := True\<rparr>)" using fl by (simp add: plain_number_def NeedPrefix_def)
  ultimately show ?thesis using d i
    by (simp add: number_text_def Let_def sign_text_plain prefix_text_def)
qed

lemma magnitude_simps:
  "\<not> pf_isSigned fl \<or> pf_base fl \<noteq> 10 \<Longrightarrow> magnitude fl i = Some (False, unat i)"
  "pf_isSigned fl \<Longrightarrow> pf_base fl = 10 \<Longrightarrow> sint (i :: ('a :: len) word) \<noteq> - (2 ^ (LENGTH('a) - 1)) \<Longrightarrow>
     magnitude fl i = Some (sint i < 0, nat \<bar>sint i\<bar>)"
proof -
  assume "pf_isSigned fl" "pf_base fl = 10" "sint i \<noteq> - (2 ^ (LENGTH('a) - 1))"
  moreover have "unat i = nat \<bar>sint i\<bar>" if "\<not> sint i < 0"
  proof -
    have "sint i < 2 ^ (LENGTH('a) - 1)" by (rule sint_lt)
    also have "\<dots> < (2 :: int) ^ LENGTH('a)" by simp
    finally have "uint i = sint i" using that by (simp add: uint_sint take_bit_int_eq_self)
    then show ?thesis using that by (simp add: unat_eq_nat_uint)
  qed
  ultimately show "magnitude fl i = Some (sint i < 0, nat \<bar>sint i\<bar>)" by (simp add: magnitude_def)
qed (auto simp: magnitude_def)

lemma dec_zero [simp]: "dec 0 = ''0''" and hex_zero [simp]: "hex 0 = ''0''"
  by (simp_all add: dec.simps hex.simps digit_char_def char_of_def bit_Suc_0_iff)

lemma number_text_zero: "plain_number fl \<Longrightarrow> number_text room fl 0 = Some ''0''"
  by (simp add: number_text_def plain_number_def content_def)

lemma hex_length: "0 < k \<Longrightarrow> n < 16 ^ k \<Longrightarrow> length (hex n) \<le> k"
proof (induction k arbitrary: n)
  case (Suc k)
  show ?case
  proof (cases "n < 16")
    case False
    then have "0 < k" using Suc.prems(2) by (cases k) auto
    moreover have "n div 16 < 16 ^ k" using Suc.prems(2) by (simp add: less_mult_imp_div_less)
    ultimately show ?thesis using False Suc.IH [of "n div 16"] by (subst hex.simps) simp
  qed (simp add: hex.simps)
qed simp

lemma number_text_dec:
  assumes "plain_number fl" "pf_base fl = 10" "(2 :: nat) ^ LENGTH('a) \<le> 10 ^ r"
  shows "number_text (Suc r) fl (i :: ('a :: len) word) =
    (if pf_isSigned fl then if sint i = - (2 ^ (LENGTH('a) - 1)) then None else Some (int_dec (sint i))
     else Some (dec (unat i)))"
proof -
  have r: "0 < r" using assms(3) one_less_power [of "2 :: nat" "LENGTH('a)"] by (cases r) auto
  have l: "\<exists>q. digit_loop lb 10 u (Suc r, []) = Some (Suc q, dec u)" if "0 < u" "u < 2 ^ LENGTH('a)" for lb u
  proof -
    have "length (dec u) \<le> r" using that(2) assms(3) by (intro dec_length r) linarith
    then show ?thesis using that(1) digit_loop_dec [of u "Suc r" lb "[]"] by (auto simp: Suc_diff_le)
  qed
  show ?thesis
  proof (cases "i = 0")
    case False
    show ?thesis
    proof (cases "pf_isSigned fl \<and> sint i = - (2 ^ (LENGTH('a) - 1))")
      case True
      then have "magnitude (fl\<lparr>pf_isNumber := True\<rparr>) i = None" using assms(2) by (simp add: magnitude_None)
      then show ?thesis using True False by (simp add: number_text_def Let_def)
    next
      case nt: False
      define neg where "neg = (pf_isSigned fl \<and> sint i < 0)"
      define u where "u = (if pf_isSigned fl then nat \<bar>sint i\<bar> else unat i)"
      have m: "magnitude fl i = Some (neg, u)"
        using nt assms(2) by (auto simp: magnitude_simps neg_def u_def)
      moreover have "sint i \<noteq> 0" using False sint_word [of i 0] by auto
      then have "0 < u" using False by (simp add: u_def unat_gt_0)
      ultimately obtain q where "digit_loop (pf_letBase fl) 10 u (Suc r, []) = Some (Suc q, dec u)"
        using l [of u] magnitude_bound by blast
      from number_text_plain [OF assms(1) m _ _ False, of "Suc r" q "dec u"] this
      have "number_text (Suc r) fl i = Some (if neg then CHR ''-'' # dec u else dec u)"
        using assms(2) by simp
      then show ?thesis using nt by (auto simp: neg_def u_def int_dec_def)
    qed
  qed (use number_text_zero [OF assms(1)] in \<open>simp add: int_dec_def\<close>)
qed

lemma number_text_hex:
  assumes "plain_number fl" "pf_base fl = 16" "pf_letBase fl = 97" "(2 :: nat) ^ LENGTH('a) \<le> 16 ^ r"
  shows "number_text (Suc r) fl (i :: ('a :: len) word) = Some (hex (unat i))"
proof (cases "i = 0")
  case False
  have r: "0 < r" using assms(4) one_less_power [of "2 :: nat" "LENGTH('a)"] by (cases r) auto
  have u: "0 < unat i" "unat i < 2 ^ LENGTH('a)" using False by (simp_all add: unat_gt_0)
  then have "length (hex (unat i)) \<le> r" using assms(4) by (intro hex_length r) linarith
  then obtain q where "digit_loop 97 16 (unat i) (Suc r, []) = Some (Suc q, hex (unat i))"
    using u(1) digit_loop_hex [of "unat i" "Suc r" "[]"] by (auto simp: Suc_diff_le)
  with number_text_plain [OF assms(1) magnitude_simps(1) _ _ False, of "Suc r" q "hex (unat i)"] assms
  show ?thesis by simp
qed (use number_text_zero [OF assms(1)] in simp)


lemma number_text_rooms:
  assumes "plain_number fl"
  shows "pf_base fl = 10 \<Longrightarrow> number_text (MaxLongDigits + 1) fl (i :: u32) =
      (if pf_isSigned fl then if i = 0x80000000 then None else Some (int_dec (sint i)) else Some (dec (unat i)))"
    and "pf_base fl = 16 \<Longrightarrow> pf_letBase fl = 97 \<Longrightarrow> number_text (MaxLongDigits + 1) fl i = Some (hex (unat i))"
    and "pf_base fl = 10 \<Longrightarrow> number_text (MaxUllDigits + 1) fl (j :: u64) =
      (if pf_isSigned fl then if j = 0x8000000000000000 then None else Some (int_dec (sint j))
       else Some (dec (unat j)))"
    and "pf_base fl = 16 \<Longrightarrow> pf_letBase fl = 97 \<Longrightarrow> number_text (MaxUllDigits + 1) fl j = Some (hex (unat j))"
proof -
  have i: "sint i = - (2 ^ (LENGTH(32) - 1)) \<longleftrightarrow> i = 0x80000000"
    and j: "sint j = - (2 ^ (LENGTH(64) - 1)) \<longleftrightarrow> j = 0x8000000000000000"
    unfolding sint_least least_words by (rule refl)+
  show "pf_base fl = 10 \<Longrightarrow> number_text (MaxLongDigits + 1) fl i =
      (if pf_isSigned fl then if i = 0x80000000 then None else Some (int_dec (sint i)) else Some (dec (unat i)))"
    using number_text_dec [OF assms, of MaxLongDigits i] unfolding i by (simp add: MaxLongDigits_def)
  show "pf_base fl = 10 \<Longrightarrow> number_text (MaxUllDigits + 1) fl j =
      (if pf_isSigned fl then if j = 0x8000000000000000 then None else Some (int_dec (sint j))
       else Some (dec (unat j)))"
    using number_text_dec [OF assms, of MaxUllDigits j] unfolding j by (simp add: MaxUllDigits_def)
  show "pf_base fl = 16 \<Longrightarrow> pf_letBase fl = 97 \<Longrightarrow> number_text (MaxLongDigits + 1) fl i = Some (hex (unat i))"
    "pf_base fl = 16 \<Longrightarrow> pf_letBase fl = 97 \<Longrightarrow> number_text (MaxUllDigits + 1) fl j = Some (hex (unat j))"
    using number_text_hex [OF assms, of MaxLongDigits i] number_text_hex [OF assms, of MaxUllDigits j]
    by (simp_all add: MaxLongDigits_def MaxUllDigits_def)
qed

text \<open>The flags a conversion letter sets, when nothing else does.\<close>

lemmas plain_conversion = read_spec_plain is_digit_def conversion_text_def read_length_def take_arg_def
  number_flags_def Let_def Printf_Init_def plain_number_def

lemma print_int:
  "format_text ([], ''%d'' @ [NUL]) [VaInt i] = (if i = 0x80000000 then None else Some (int_dec (sint i)))"
  by (simp add: plain_conversion number_text_rooms del: One_nat_def add_Suc_right)

text \<open>
  The integer conversions print what they should: \<open>%d\<close> the signed value in decimal, for every value but the
  least, \<open>%u\<close> and \<open>%lu\<close> the unsigned one, \<open>%x\<close> the number in hexadecimal, and the \<open>ll\<close> forms the same for
  64 bits.
\<close>

lemma integer_conversions:
  "format_text ([], ''%d'' @ [NUL]) [VaInt i] = (if i = 0x80000000 then None else Some (int_dec (sint i)))
   \<and> format_text ([], ''%u'' @ [NUL]) [VaInt i] = Some (dec (unat i))
   \<and> format_text ([], ''%lu'' @ [NUL]) [VaInt i] = Some (dec (unat i))
   \<and> format_text ([], ''%x'' @ [NUL]) [VaInt i] = Some (hex (unat i))
   \<and> format_text ([], ''%lld'' @ [NUL]) [VaLongLong j]
     = (if j = 0x8000000000000000 then None else Some (int_dec (sint j)))
   \<and> format_text ([], ''%llu'' @ [NUL]) [VaLongLong j] = Some (dec (unat j))
   \<and> format_text ([], ''%llx'' @ [NUL]) [VaLongLong j] = Some (hex (unat j))"
  by (intro conjI) (simp_all add: plain_conversion number_text_rooms del: One_nat_def add_Suc_right)

section \<open>JSON strings\<close>

text \<open>What a reader of JSON makes of the characters between two quotes.\<close>

definition json_unescape :: "char \<Rightarrow> char" where
  "json_unescape e = (if e = CHR ''r'' then CHR 0x0D else if e = CHR ''n'' then CHR 0x0A
     else if e = CHR ''t'' then CHR 0x09 else e)"

fun json_decode :: "string \<Rightarrow> string option" where
  "json_decode [] = Some []"
| "json_decode (c # t) =
     (if c = CHR 0x22 \<or> of_char c < (32 :: nat) then None
      else if c = CHR 0x5C then (case t of [] \<Rightarrow> None | e # u \<Rightarrow> map_option ((#) (json_unescape e)) (json_decode u))
      else map_option ((#) c) (json_decode t))"

definition json_clean :: "char \<Rightarrow> char" where
  "json_clean c = (if of_char c < (32 :: nat) \<and> c \<notin> {CHR 0x0D, CHR 0x0A, CHR 0x09} then CHR ''?'' else c)"

lemma json_text_decodes:
  "NUL \<in> set mem \<Longrightarrow> Option.bind (json_text mem) json_decode = Some (map json_clean (content mem))"
proof (induction mem)
  case (Cons c mem)
  show ?case
  proof (cases "c = NUL")
    case False
    then obtain t where t: "json_text mem = Some t" "json_decode t = Some (map json_clean (content mem))"
      using Cons by (auto simp: bind_eq_Some_conv)
    have c: "content (c # mem) = c # content mem" using False by (simp add: content_def)
    have d: "of_char CHR ''?'' = (63 :: nat)" by simp
    consider "c = CHR 0x0D" | "c = CHR 0x0A" | "c = CHR 0x09" | "c = CHR 0x22" | "c = CHR 0x5C"
      | "c \<notin> {CHR 0x0D, CHR 0x0A, CHR 0x09, CHR 0x22, CHR 0x5C}" by blast
    then show ?thesis
      by cases (use False t c d in \<open>auto simp: json_escape_def json_unescape_def json_clean_def\<close>)
  qed (simp add: content_def)
qed simp

lemma json_format: "format_text ([], ''%.s'' @ [NUL]) [VaStr (Some mem)] = json_text mem"
proof -
  have "read_spec CHR ''.'' (''.%'', ''s'' @ [NUL]) args
      = Some (Printf_Init\<lparr>pf_printLimit := 0\<rparr>, CHR ''s'', (''s.%'', [NUL]), args)" for args
    by (simp add: read_spec_def read_number_def is_digit_def Printf_Init_def)
  then show ?thesis
    by (cases "json_text mem") (simp_all add: conversion_text_def take_arg_def)
qed

text \<open>
  A string printed with \<open>%.s\<close> reads back: what is printed has no quote, backslash or control character that
  would end or spoil the JSON string, and decoding it gives the original string with each control character
  other than tab, newline and return replaced by a question mark.
\<close>

lemma json_string_roundtrip:
  "NUL \<in> set mem \<Longrightarrow> Option.bind (format_text ([], ''%.s'' @ [NUL]) [VaStr (Some mem)]) json_decode
     = Some (map json_clean (content mem))"
  unfolding json_format by (rule json_text_decodes)

lemma json_string_roundtrip_witness:
  "Option.bind (format_text ([], ''%.s'' @ [NUL]) [VaStr (Some (''a'' @ [CHR 0x22, CHR 0x0A, CHR 0x01, NUL]))])
     json_decode
   = Some (''a'' @ [CHR 0x22, CHR 0x0A, CHR ''?''])"
  using json_string_roundtrip [of "''a'' @ [CHR 0x22, CHR 0x0A, CHR 0x01, NUL]"]
  by (simp add: json_clean_def content_def del: format_text_simps)

end
