(* ===== verification/PrintfFloats.thy ===== *)
theory PrintfFloats
  imports PrintfNumbers
begin

text \<open>
  Floating point numbers printed with a fixed number of decimals. What the firmware prints is of type
  \<open>float\<close>, passed as \<open>double\<close>; then the multiplications by ten are exact, and the digits printed are
  those of the exact value, rounded once.
\<close>

section \<open>The digits\<close>

fun low_digits :: "nat \<Rightarrow> nat \<Rightarrow> string" where
  "low_digits 0 u = []"
| "low_digits (Suc n) u = low_digits n (u div 10) @ [char_of (48 + u mod 10)]"

text \<open>\<open>u\<close> units of \<open>10 ^ -n\<close>, with all the decimals.\<close>

definition fixed_text :: "nat \<Rightarrow> nat \<Rightarrow> string" where
  "fixed_text n u = (if n = 0 then dec u else dec (u div 10 ^ n) @ ''.'' @ low_digits n u)"

lemma length_low_digits [simp]: "length (low_digits n u) = n"
  by (induction n arbitrary: u) simp_all

lemma low_digits_value: "dec_value v (low_digits n u) = v * 10 ^ n + u mod 10 ^ n"
proof (induction n arbitrary: u)
  case (Suc n)
  have "u mod (10 * 10 ^ n) = 10 * (u div 10 mod 10 ^ n) + u mod 10" by (rule mod_mult2_eq)
  then show ?case by (simp add: Suc char_digit)
qed simp

lemma low_digits_digits: "list_all is_digit (low_digits n u)"
  by (induction n arbitrary: u) (simp_all add: char_digit)

lemma is_text_low_digits [simp]: "is_text (low_digits n u)"
  using digit_text [THEN not_sym] by (induction n arbitrary: u) (simp_all add: is_text_def)

lemma is_text_fixed [simp]: "is_text (fixed_text n u)"
  by (simp add: fixed_text_def)

lemma mantissa_step:
  "mantissa_loop u k (Suc (Suc r), s) = (let s2 = (if k = 0 then (r, char_of (48 + u mod 10) # CHR ''.'' # s)
       else (Suc r, char_of (48 + u mod 10) # s)) in
     if u div 10 \<noteq> 0 \<or> 1 \<le> k then mantissa_loop (u div 10) (k - 1) s2 else Some s2)"
  by (subst mantissa_loop.simps) (simp add: Let_def add.commute)

text \<open>After the point, or without one, the digits of the integer part.\<close>

lemma mantissa_integer:
  "k < 0 \<Longrightarrow> length (dec u) \<le> r \<Longrightarrow> mantissa_loop u k (Suc r, s) = Some (Suc r - length (dec u), dec u @ s)"
proof (induction u arbitrary: k r s rule: dec.induct)
  case (1 u)
  show ?case
  proof (cases "u < 10")
    case True
    then show ?thesis using 1(2,3) by (cases r) (simp_all add: mantissa_step dec.simps Let_def)
  next
    case False
    then have d: "dec u = dec (u div 10) @ [char_of (48 + u mod 10)]" by (subst dec.simps) simp
    then obtain q where r: "r = Suc q" "length (dec (u div 10)) \<le> q" using 1(3) by (cases r) auto
    show ?thesis using False 1(1) [OF False, of "k - 1" q] 1(2) r
      by (simp add: mantissa_step d Let_def div_greater_zero_iff)
  qed
qed

lemma mantissa_point:
  "length (dec u) \<le> r \<Longrightarrow> mantissa_loop u 0 (Suc (Suc r), s) = Some (Suc r - length (dec u), dec u @ CHR ''.'' # s)"
proof -
  assume l: "length (dec u) \<le> r"
  show ?thesis
  proof (cases "u < 10")
    case True
    then show ?thesis using l by (simp add: mantissa_step dec.simps Let_def)
  next
    case False
    then have d: "dec u = dec (u div 10) @ [char_of (48 + u mod 10)]" by (subst dec.simps) simp
    then obtain q where r: "r = Suc q" "length (dec (u div 10)) \<le> q" using l by (cases r) auto
    then show ?thesis using False mantissa_integer [of "- 1" "u div 10" q] by (simp add: mantissa_step d Let_def div_greater_zero_iff)
  qed
qed

lemma mantissa_fixed:
  "length (dec (u div 10 ^ n)) + n \<le> r \<Longrightarrow>
   mantissa_loop u (int n) (Suc (Suc r), s)
     = Some (Suc r - (length (dec (u div 10 ^ n)) + n), dec (u div 10 ^ n) @ CHR ''.'' # low_digits n u @ s)"
proof (induction n arbitrary: u r s)
  case 0
  then show ?case by (simp add: mantissa_point)
next
  case (Suc n)
  have e: "u div (10 * 10 ^ n) = u div 10 div 10 ^ n" by (rule div_mult2_eq)
  obtain q where r: "r = Suc q" "length (dec (u div 10 div 10 ^ n)) + n \<le> q"
    using Suc.prems e by (cases r) auto
  then show ?case using Suc.IH [OF r(2)] by (simp add: mantissa_step e Let_def)
qed

section \<open>Scaling\<close>

lemma f_lit_exact:
  assumes "n < 2 ^ 24"
  shows "fmag (f_lit n 1) = n * 2 ^ 149" "f_isfinite (f_lit n 1)" "\<not> fsign (f_lit n 1)"
proof -
  have "n * 2 ^ 149 < 2 ^ 24 * 2 ^ 149" using assms by simp
  also have "\<dots> < fmt_mag 23 INF_BITS" using mag_of_INF by (simp add: binary32_format)
  finally have "fmt_mag 23 (fmt_round 23 INF_BITS (1 * (n * 2 ^ 149)) 1) = n * 2 ^ 149
      \<and> fmt_round 23 INF_BITS (1 * (n * 2 ^ 149)) 1 < INF_BITS"
    using assms by (intro fmt_round_repr [OF refl]) simp_all
  then show "fmag (f_lit n 1) = n * 2 ^ 149" "f_isfinite (f_lit n 1)" "\<not> fsign (f_lit n 1)"
    by (simp_all add: f_lit_def fmag_def f_isfinite_def binary32_format INF_BITS_def)
qed

lemma d_const_exact:
  assumes "n < 2 ^ 24"
  shows "dmag (d_const n 1) = n * 2 ^ 1074" "d_isfinite (d_const n 1)" "\<not> dsign (d_const n 1)"
  using d_of_f32_exact [OF f_lit_exact(2) [OF assms]] f_lit_exact [OF assms]
  by (simp_all add: d_const_def mult.assoc flip: power_add)

lemma d_of_nat_large:
  assumes "2 ^ k \<le> n" "k < 1024" "\<not> dsign x" "d_isfinite x" "dmag x < 2 ^ k * 2 ^ 1074"
  shows "d_lt x (d_of_nat n)" "\<not> d_lt (d_of_nat n) x"
proof -
  have p: "2 ^ k = 1 * (2 :: nat) ^ k" "(1 :: nat) < 2 ^ 53" "(2 :: nat) ^ k < 2 ^ 1024"
    using assms(2) by (simp, simp, intro power_strict_increasing) simp_all
  have "dbits (d_of_nat (2 ^ k)) \<le> dbits (d_of_nat n)"
    using assms(1) fmt_round_mono [of "2 ^ k * 2 ^ 1074" 1 "n * 2 ^ 1074" 1 52 D_INF]
    by (simp add: d_of_nat_def d_lit_def flip: round64_def)
  moreover have "dbits x < dbits (d_of_nat (2 ^ k))"
    using assms(5) d_of_nat_exact(1) [OF p] by (intro dbits_less) simp
  ultimately have l: "dbits x < dbits (d_of_nat n)" by simp
  have s: "\<not> dsign (d_of_nat n)" "\<not> d_isnan (d_of_nat n)"
    using round64_le by (simp_all add: d_of_nat_def d_lit_def d_isnan_def not_less)
  show "d_lt x (d_of_nat n)" "\<not> d_lt (d_of_nat n) x"
    using l s assms(3,4) by (auto simp: d_lt_def dkey_def d_isfinite_def d_isnan_def)
qed

text \<open>
  The loop, for a magnitude of 24 significant bits below \<open>10 ^ 9\<close> and at most eight decimals: every product
  has at most 53 significant bits.
\<close>

lemma decimals_loop_exact:
  assumes m: "q = m * 2 ^ s" "m < 2 ^ 24" "q < 10 ^ 9 * 2 ^ 1074" and n: "n \<le> 8"
  shows "i \<le> n \<Longrightarrow> dmag ud = q * 10 ^ i \<Longrightarrow> d_isfinite ud \<Longrightarrow> \<not> dsign ud \<Longrightarrow>
    \<exists>ud'. decimals_loop (int n) (int i) ud (10 ^ Suc i) = Some (int n, ud', 10 ^ Suc n)
      \<and> dmag ud' = q * 10 ^ n \<and> d_isfinite ud' \<and> \<not> dsign ud'"
proof (induction "n - i" arbitrary: i ud)
  case 0
  then have "i = n" by simp
  then show ?case using 0 by (simp add: decimals_loop.simps)
next
  case (Suc k)
  then have i: "i < n" by simp
  have i7: "i \<le> 7" using i n by simp
  have p: "(10 :: nat) ^ i \<le> 10 ^ 7" using i7 by (intro power_increasing) simp_all
  have "q * 10 ^ i < 10 ^ 9 * 2 ^ 1074 * 10 ^ 7"
    using m(3) p by (meson le_less_trans mult_le_mono2 mult_less_mono1 zero_less_numeral zero_less_power)
  also have "\<dots> < 2 ^ 59 * 2 ^ 1074" by simp
  finally have small: "q * 10 ^ i < 2 ^ 59 * 2 ^ 1074" .
  have lt: "d_lt ud (d_of_nat (LLONG_MAX div 10))"
    using Suc.prems(2-4) small by (intro d_of_nat_large [of 59]) (simp_all add: LLONG_MAX_def)
  have "(10 :: int) ^ Suc i \<le> 10 ^ 8" using i7 by (intro power_increasing) simp_all
  then have lim: "(10 :: int) ^ Suc i \<le> int (LLONG_MAX div 10)" "(10 :: int) ^ Suc i * 10 < 2 ^ 31"
    by (simp_all add: LLONG_MAX_def)
  let ?next = "d_mul ud (d_const 10 1)"
  have f5: "m * 5 ^ Suc i < 2 ^ 53"
  proof -
    have "(5 :: nat) ^ Suc i \<le> 5 ^ 8" using i7 by (intro power_increasing) simp_all
    then have "m * 5 ^ Suc i \<le> 2 ^ 24 * 5 ^ 8" using m(2) by (intro mult_le_mono) simp_all
    also have "\<dots> < 2 ^ 53" by simp
    finally show ?thesis .
  qed
  have e: "q * 10 ^ Suc i = (m * 5 ^ Suc i) * 2 ^ (s + Suc i)"
  proof -
    have "(10 :: nat) ^ Suc i = 5 ^ Suc i * 2 ^ Suc i" by (simp flip: power_mult_distrib)
    then show ?thesis by (simp only: m(1) power_add mult.assoc mult.left_commute)
  qed
  have prod: "dmag ud * dmag (d_const 10 1) = 2 ^ 1074 * (q * 10 ^ Suc i)"
    using d_const_exact(1) [of 10] Suc.prems(2) by (simp add: mult_ac)
  have big: "q * 10 ^ Suc i < 2 ^ 2098"
  proof -
    have "q * 10 ^ Suc i < 2 ^ 59 * 2 ^ 1074 * 10" using small by simp
    also have "\<dots> < 2 ^ 2098" by simp
    finally show ?thesis .
  qed
  note exact = d_mul_exact [OF Suc.prems(3) _ prod e f5 big, OF d_const_exact(2)]
  have next1: "dmag ?next = q * 10 ^ Suc i" "d_isfinite ?next" "\<not> dsign ?next"
    using exact Suc.prems(4) d_const_exact(3) [of 10] by simp_all
  have "k = n - Suc i" "Suc i \<le> n" using Suc.hyps(2) i by simp_all
  from Suc.hyps(1) [OF this next1] obtain ud' where ud':
    "decimals_loop (int n) (int (Suc i)) ?next (10 ^ Suc (Suc i)) = Some (int n, ud', 10 ^ Suc n)"
    "dmag ud' = q * 10 ^ n" "d_isfinite ud'" "\<not> dsign ud'" by blast
  have "decimals_loop (int n) (int i) ud (10 ^ Suc i)
      = decimals_loop (int n) (int (Suc i)) ?next (10 ^ Suc (Suc i))"
    using i lt lim by (subst decimals_loop.simps) (simp add: mult.commute add.commute)
  with ud' show ?case by auto
qed

section \<open>The text\<close>

lemma read_spec_precision:
  assumes "n < 10" and c: "c \<in> set ''fFeEgG''"
  shows "read_spec CHR ''.'' (bk, char_of (48 + n) # c # r) args
    = Some (Printf_Init\<lparr>pf_printLimit := int n\<rparr>, c, (c # char_of (48 + n) # bk, r), args)"
proof -
  have "int (of_char (char_of (48 + n))) = 48 + int n" using assms(1) by (simp only: of_char_of) simp
  then have d: "is_digit (char_of (48 + n))" "of_char (char_of (48 + n)) = 48 + int n"
    using char_digit(1) [OF assms(1)] unfolding of_nat_of_char by simp_all
  have "\<not> is_digit CHR ''*''" by (simp add: is_digit_def)
  then have star: "char_of (48 + n) \<noteq> CHR ''*''" using d(1) by metis
  have cd: "\<not> is_digit c" using c by (auto simp: is_digit_def)
  have "number_loop (char_of (48 + n)) bk (c # r) 0 = Some (int n, c, (c # bk, r))" for bk
    using d cd assms(1) by (cases r) simp_all
  moreover have "number_loop CHR ''.'' bk (char_of (48 + n) # c # r) 0 = Some (0, CHR ''.'', (bk, char_of (48 + n) # c # r))" for bk
    by (simp add: is_digit_def)
  ultimately show ?thesis using star
    by (simp add: read_spec_def read_number_def Printf_Init_def)
qed

lemma d_abs_facts [simp]:
  "dmag (d_abs x) = dmag x" "d_isfinite (d_abs x) = d_isfinite x" "\<not> dsign (d_abs x)"
  using dbits_lt [of x] by (simp_all add: d_abs_def dmag_def d_isfinite_def)

lemma dec_length_19: "u < 10 ^ 19 \<Longrightarrow> length (dec u) \<le> 19"
  by (rule dec_length) simp_all

lemma float_digits_fixed:
  assumes x: "f_isfinite x" "fmag x < 10 ^ 9 * 2 ^ 149" and n: "n \<le> 8"
  shows "\<exists>r. float_digits (Printf_Init\<lparr>pf_printLimit := int n\<rparr>) (d_of_f32 x) CHR ''f''
    = Some (int n, (Suc r, fixed_text n (rne (fmag x * 10 ^ n) (2 ^ 149))))"
proof -
  define ud0 where "ud0 = d_abs (d_of_f32 x)"
  define u where "u = rne (fmag x * 10 ^ n) (2 ^ 149)"
  define q where "q = fmag x * 2 ^ 925"
  have ud0: "dmag ud0 = q * 10 ^ 0" "d_isfinite ud0" "\<not> dsign ud0"
    using d_of_f32_exact [OF x(1)] by (simp_all add: ud0_def q_def)
  have q: "q < 10 ^ 9 * 2 ^ 1074"
    using x(2) by (simp add: q_def mult.assoc)
  obtain m s where ms: "fmag x = m * 2 ^ s" "m < 2 ^ 24" using fmag_odd_part by blast
  have qm: "q = m * 2 ^ (s + 925)" by (simp add: q_def ms(1) power_add)
  have "dmag ud0 < 2 ^ 62 * 2 ^ 1074" using q ud0(1) by simp
  then have big: "\<not> d_lt (d_of_nat LLONG_MAX) ud0"
    using ud0(2,3) by (intro d_of_nat_large(2) [of 62]) (simp_all add: LLONG_MAX_def)
  obtain ud where ud: "decimals_loop (int n) 0 ud0 10 = Some (int n, ud, 10 ^ Suc n)"
    "dmag ud = q * 10 ^ n" "d_isfinite ud" "\<not> dsign ud"
    using decimals_loop_exact [OF qm ms(2) q n, of 0 ud0] ud0 by auto
  have "dmag ud = (fmag x * 10 ^ n) * 2 ^ 925" "(2 :: nat) ^ 1074 = 2 ^ 149 * 2 ^ 925"
    using ud(2) by (simp_all add: q_def mult_ac flip: power_add)
  then have r: "rne (dmag ud) (2 ^ 1074) = u"
    unfolding u_def by (metis rne_scale zero_less_numeral zero_less_power)
  have ub: "u < 10 ^ 18"
  proof -
    have "(10 :: nat) ^ n \<le> 10 ^ 8" using n by (intro power_increasing) simp_all
    then have "fmag x * 10 ^ n \<le> (10 ^ 9 * 2 ^ 149) * 10 ^ 8" using x(2) by (intro mult_le_mono) simp_all
    then have "fmag x * 10 ^ n div 2 ^ 149 \<le> (10 ^ 9 * 2 ^ 149) * 10 ^ 8 div 2 ^ 149" by (rule div_le_mono)
    then show ?thesis using rne_bounds(2) [of "fmag x * 10 ^ n" "2 ^ 149"] by (simp add: u_def)
  qed
  then have rint: "d_llrint ud = Some (int u)" using r ud(3,4) by (simp add: d_llrint_def Let_def)
  have digits: "\<exists>r. mantissa_loop u (if n = 0 then - 1 else int n) (34, []) = Some (Suc r, fixed_text n u)"
  proof (cases "n = 0")
    case True
    have "length (dec u) \<le> 19" using ub by (intro dec_length_19) simp
    moreover from this have "34 - length (dec u) = Suc (33 - length (dec u))" by simp
    ultimately show ?thesis using True mantissa_integer [of "- 1" u 33 "[]"] by (simp add: fixed_text_def)
  next
    case False
    have "u div 10 ^ n < 10 ^ 19" using ub div_le_dividend [of u "10 ^ n"] by (simp del: div_le_dividend)
    then have "length (dec (u div 10 ^ n)) \<le> 19" by (rule dec_length_19)
    then have l: "length (dec (u div 10 ^ n)) + n \<le> 32" using n by linarith
    then have "33 - (length (dec (u div 10 ^ n)) + n) = Suc (32 - (length (dec (u div 10 ^ n)) + n))" by simp
    then show ?thesis using False mantissa_fixed [OF l, of "[]"] by (simp add: fixed_text_def)
  qed
  have "float_digits (Printf_Init\<lparr>pf_printLimit := int n\<rparr>) (d_of_f32 x) CHR ''f''
      = Option.bind (mantissa_loop u (if n = 0 then - 1 else int n) (34, [])) (\<lambda>s. Some (int n, s))"
    using big ud(1) rint
    by (simp add: float_digits_def Printf_Init_def MaxUllDigits_def MaxLongDigits_def Let_def flip: ud0_def)
  then show ?thesis using digits unfolding u_def by auto
qed

lemma fixed_point_text:
  assumes "f_isfinite x" "fmag x < 10 ^ 9 * 2 ^ 149" "n \<le> 8"
  shows "format_text ([], ''%.'' @ char_of (48 + n) # ''f'' @ [NUL]) [VaDouble (d_of_f32 x)]
    = Some ((if fsign x then ''-'' else []) @ fixed_text n (rne (fmag x * 10 ^ n) (2 ^ 149)))"
proof -
  let ?fl = "Printf_Init\<lparr>pf_printLimit := int n\<rparr>"
  let ?t = "fixed_text n (rne (fmag x * 10 ^ n) (2 ^ 149))"
  obtain r where r: "float_digits ?fl (d_of_f32 x) CHR ''f'' = Some (int n, (Suc r, ?t))"
    using float_digits_fixed [OF assms] by blast
  have p: "padded ?fl t = t" for t by (simp add: padded_def padding_def Printf_Init_def Let_def)
  have "\<not> d_isnan (d_of_f32 x)" "\<not> d_isinf (d_of_f32 x)"
    using d_of_f32_exact(2) [OF assms(1)] by (auto simp: d_isfinite_def d_isnan_def d_isinf_def)
  then have "float_text ?fl (d_of_f32 x) CHR ''f'' = sign_text ?fl (Suc r, ?t) (fsign x)"
    using d_of_f32_exact(3) [OF assms(1)] r by (simp add: float_text_def)
  also have "\<dots> = Some ((if fsign x then ''-'' else []) @ ?t)"
    using p content_of_text [of ?t] content_of_text [of "CHR ''-'' # ?t"]
    by (simp add: sign_text_def Let_def Printf_Init_def)
  finally have f: "float_text ?fl (d_of_f32 x) CHR ''f'' = Some ((if fsign x then ''-'' else []) @ ?t)" .
  have n: "n < 10" using assms(3) by simp
  show ?thesis
    using f by (simp add: read_spec_precision [OF n] conversion_text_def take_arg_def)
qed

text \<open>
  C24. A \<open>float\<close> below \<open>10 ^ 9\<close> in magnitude printed with at most eight decimals is printed exactly rounded: the
  digits are those of the nearest multiple of \<open>10 ^ -n\<close> to its exact value, ties to even, and all the decimals
  asked for are there.
\<close>

lemma fixed_point_exactly_rounded:
  assumes "f_isfinite x" "fmag x < 10 ^ 9 * 2 ^ 149" "n \<le> 8"
    "t = (if fsign x then ''-'' else []) @ fixed_text n (rne (fmag x * 10 ^ n) (2 ^ 149))"
    "length t < m" "m \<le> length buf"
  shows "SafeVsnprintf buf m (''%.'' @ char_of (48 + n) # ''f'' @ [NUL]) [VaDouble (d_of_f32 x)]
    = Some (int (length t), t @ NUL # drop (length t + 1) buf)"
proof -
  have "format_text ([], ''%.'' @ char_of (48 + n) # ''f'' @ [NUL]) [VaDouble (d_of_f32 x)] = Some t"
    unfolding assms(4) by (rule fixed_point_text [OF assms(1-3)])
  from SafeVsnprintf_text [OF this _ assms(6)] show ?thesis using assms(5) by (simp add: min_def)
qed

lemma fixed_point_exactly_rounded_witness:
  "SafeVsnprintf ''xxxxxxxx'' 8 (''%.'' @ char_of (48 + 2 :: nat) # ''f'' @ [NUL]) [VaDouble (d_of_f32 0x40490FDB)]
   = Some (4, ''3.14'' @ [NUL] @ ''xxx'')"
proof -
  have "fsign 0x40490FDB = False" "f_isfinite 0x40490FDB"
    "fmag 0x40490FDB = 13176795 * 2 ^ 127"
    by (simp_all add: fsign_def f_isfinite_def fmag_def fbits_def mag_of_def INF_BITS_def)
  moreover have "rne (13176795 * 2 ^ 127 * 10 ^ 2) (2 ^ 149) = (314 :: nat)" by (simp add: rne_def)
  moreover have "fixed_text 2 314 = ''3.14''"
    by (simp add: fixed_text_def dec.simps numeral_2_eq_2 char_of_def bit_Suc_0_iff)
  ultimately show ?thesis using fixed_point_exactly_rounded [of "0x40490FDB" 2 "''3.14''" 8 "''xxxxxxxx''"] by simp
qed

end
