(* ===== verification/PrintfUses.thy ===== *)
theory PrintfUses
  imports PrintfFloats StringRefs IspCodec
begin

text \<open>
  Who prints: the formatting members of \<open>StringRef\<close>, which until here took their text as an argument, and the
  commands of the coprocessor updater, which its model has as texts.
\<close>

section \<open>StringRef\<close>

text \<open>\<open>SafeVsnprintf\<close> at a position in the storage.\<close>

definition print_at :: "StringRef \<Rightarrow> nat \<Rightarrow> nat \<Rightarrow> char list \<Rightarrow> va_arg list \<Rightarrow> (int \<times> StringRef) option" where
  "print_at p off n fmt args = do {
     (ret, q) \<leftarrow> SafeVsnprintf (drop off p) n fmt args;
     Some (ret, take off p @ q) }"

definition StringRef_printf :: "StringRef \<Rightarrow> char list \<Rightarrow> va_arg list \<Rightarrow> (int \<times> StringRef) option" where
  "StringRef_printf p fmt args = print_at p 0 (length p) fmt args"

text \<open>The result counts from the start of the buffer, unless printing failed.\<close>

definition StringRef_catf :: "StringRef \<Rightarrow> char list \<Rightarrow> va_arg list \<Rightarrow> (int \<times> StringRef) option" where
  "StringRef_catf p fmt args =
    (let n = sr_strlen p in
     if n < length p - 1 then do {
       (ret, q) \<leftarrow> print_at p n (length p - n) fmt args;
       Some (if ret < 0 then ret else ret + int n, q) }
     else Some (0, p))"

text \<open>The other two have the same text after the newline that \<open>lcatf\<close> may add.\<close>

definition print_append :: "char list \<Rightarrow> va_arg list \<Rightarrow> nat \<Rightarrow> StringRef \<Rightarrow> (int \<times> StringRef) option" where
  "print_append fmt args n p =
    (if n + 1 < length p then do {
       (ret, q) \<leftarrow> print_at p n (length p - n) fmt args;
       Some (if ret < 0 then ret else ret + int n, q) }
     else Some (0, p))"

definition StringRef_vcatf :: "StringRef \<Rightarrow> char list \<Rightarrow> va_arg list \<Rightarrow> (int \<times> StringRef) option" where
  "StringRef_vcatf p fmt args = print_append fmt args (sr_strlen p) p"

definition StringRef_lcatf :: "StringRef \<Rightarrow> char list \<Rightarrow> va_arg list \<Rightarrow> (int \<times> StringRef) option" where
  "StringRef_lcatf p fmt args =
    (let n = sr_strlen p in
     if n \<noteq> 0 \<and> p ! (n - 1) \<noteq> newline then do {
       (full, p1) \<leftarrow> sr_catc p newline;
       if full then Some (0, p1) else print_append fmt args (n + 1) p1 }
     else print_append fmt args n p)"

lemma print_at_text:
  assumes "format_text ([], fmt) args = Some t" "off < length p"
  shows "print_at p off (length p - off) fmt args =
    map_option (Pair (int (min (length t) (length p - off - 1)))) (put_formatted p off (length p - off) t)"
proof -
  let ?n = "length p - off"
  have e: "SafeVsnprintf (drop off p) ?n fmt args =
      Some (int (min (length t) (?n - 1)),
        take (?n - 1) t @ NUL # drop (min (length t) (?n - 1) + 1) (drop off p))"
    using assms by (intro SafeVsnprintf_text) auto
  have l: "length (take (?n - 1) t @ [NUL]) = min (length t) (?n - 1) + 1" by simp
  have "off + length (take (?n - 1) t @ [NUL]) \<le> length p" using assms(2) by simp
  then have "put_formatted p off ?n t = Some (take off p @ (take (?n - 1) t @ [NUL])
      @ drop (off + (min (length t) (?n - 1) + 1)) p)"
    unfolding put_formatted_def blit_def l by simp
  then show ?thesis unfolding print_at_def e by (simp add: add.commute add.left_commute)
qed

lemma print_append_text:
  assumes "format_text ([], fmt) args = Some t"
  shows "map_option snd (print_append fmt args n p) =
    (if n + 1 < length p then put_formatted p n (length p - n) t else Some p)"
  using print_at_text [OF assms, of n p]
  by (cases "put_formatted p n (length p - n) t") (simp_all add: print_append_def)

lemma sr_catc_length: "sr_catc p c = Some (full, q) \<Longrightarrow> length q = length p"
  by (auto simp: sr_catc_def Let_def bind_eq_Some_conv dest!: length_poke split: if_splits)

text \<open>
  The members of \<open>StringRef\<close> that format do to the buffer what the model of the class says with the text of
  the format: with the formatter itself in place of the text they were given, \<open>printf\<close>, \<open>catf\<close>, \<open>vcatf\<close> and
  \<open>lcatf\<close> store and append it, cut at the capacity.
\<close>

lemma formatting_refines_text:
  assumes "format_text ([], fmt) args = Some t" "sref p"
  shows "map_option snd (StringRef_printf p fmt args) = sr_printf p t
    \<and> map_option snd (StringRef_catf p fmt args) = sr_catf p t
    \<and> map_option snd (StringRef_vcatf p fmt args) = sr_catf p t
    \<and> map_option snd (StringRef_lcatf p fmt args) = sr_lcatf p t"
proof -
  have p: "0 < length p" using assms(2) by (auto simp: sref_def)
  have "StringRef_catf p fmt args = print_append fmt args (sr_strlen p) p"
    by (simp add: StringRef_catf_def print_append_def Let_def less_diff_conv)
  moreover have "map_option snd (StringRef_lcatf p fmt args) = sr_lcatf p t"
    using sr_catc_length [of p newline]
    by (cases "sr_catc p newline") (auto simp: StringRef_lcatf_def sr_lcatf_def Let_def print_append_text [OF assms(1)])
  ultimately show ?thesis using p
    by (simp add: StringRef_printf_def sr_printf_def print_at_text [OF assms(1), of 0, simplified]
        StringRef_vcatf_def sr_catf_def Let_def print_append_text [OF assms(1)] less_diff_conv
        option.map_comp comp_def option.map_ident)
qed

lemma formatting_refines_text_witness:
  "map_option snd (StringRef_catf (''Heat'' @ [NUL, NUL, NUL, NUL]) (''er %d'' @ [NUL]) [VaInt 1])
   = Some (''Heater '' @ [NUL])"
proof -
  have "dec 1 = ''1''" by (simp add: dec.simps char_of_def bit_Suc_0_iff)
  then have "int_dec 1 = ''1''" by (simp add: int_dec_def)
  then have "format_text ([], ''er %d'' @ [NUL]) [VaInt 1] = Some ''er 1''"
    by (simp add: plain_conversion number_text_rooms del: One_nat_def add_Suc_right)
  moreover have "sref (''Heat'' @ [NUL, NUL, NUL, NUL])" by (simp add: sref_def)
  moreover have "sr_catf (''Heat'' @ [NUL, NUL, NUL, NUL]) ''er 1'' = Some (''Heater '' @ [NUL])"
    by (simp add: sr_catf_def sr_strlen_def Strnlen_def content_def put_formatted_def blit_def)
  ultimately show ?thesis using formatting_refines_text by simp
qed

section \<open>The commands of the updater\<close>

text \<open>The format strings of the commands: the letter, and two or three unsigned numbers.\<close>

definition command_format :: "char \<Rightarrow> nat \<Rightarrow> char list" where
  "command_format c n = c # concat (replicate n '' %lu'') @ crlf @ [NUL]"

lemma print_unsigned:
  "format_text (bk, CHR '' '' # CHR ''%'' # CHR ''l'' # CHR ''u'' # r) (VaInt a # args)
   = map_option ((@) (CHR '' '' # dec (unat a))) (format_text (''ul% '' @ bk, r) args)"
  by (cases "format_text (''ul% '' @ bk, r) args")
    (simp_all add: plain_conversion number_text_rooms del: One_nat_def add_Suc_right)

lemma command_text:
  "c \<noteq> NUL \<Longrightarrow> c \<noteq> CHR ''%'' \<Longrightarrow> format_text ([], command_format c (length as)) (map VaInt as @ rest)
   = Some (c # concat (map (\<lambda>a. CHR '' '' # dec (unat a)) as) @ crlf)"
proof -
  have "format_text (bk, concat (replicate (length as) '' %lu'') @ crlf @ [NUL]) (map VaInt as @ rest)
      = Some (concat (map (\<lambda>a. CHR '' '' # dec (unat a)) as) @ crlf)" for bk
  proof (induction as arbitrary: bk)
    case (Cons a as)
    then show ?case by (simp add: print_unsigned del: format_text_simps)
  qed (simp add: crlf_def)
  then show "c \<noteq> NUL \<Longrightarrow> c \<noteq> CHR ''%'' \<Longrightarrow> ?thesis" by (simp add: command_format_def)
qed

text \<open>
  What the updater sends is what it formats: the buffer of \<open>SendFormattedCommand\<close>, filled by the
  formatter from the command's format and its three arguments, of which the format may use fewer, holds the
  text that the model of the updater sends.
\<close>

lemma command_is_formatted:
  assumes "length buf = 64" "c \<noteq> NUL" "c \<noteq> CHR ''%''"
  shows "map_option (content \<circ> snd) (SafeVsnprintf buf 64 (command_format c (length as)) (map VaInt as @ rest))
    = Some (formatted c as)"
proof -
  let ?t = "c # concat (map (\<lambda>a. CHR '' '' # dec (unat a)) as) @ crlf"
  have t: "format_text ([], command_format c (length as)) (map VaInt as @ rest) = Some ?t"
    by (rule command_text [OF assms(2,3)])
  have "is_text (take 63 ?t)" by (rule is_text_take [OF format_text_is_text [OF t]])
  then have "content (take 63 ?t @ NUL # r) = formatted c as" for r
    unfolding formatted_def by (rule content_append_NUL)
  then show ?thesis
    using SafeVsnprintf_text [OF t, of 64 buf] assms(1) by simp
qed

lemma command_is_formatted_witness:
  "map_option (content \<circ> snd) (SafeVsnprintf (replicate 64 NUL) 64 (''P %lu %lu'' @ crlf @ [NUL])
     [VaInt 0, VaInt 15, VaInt 0]) = Some (''P 0 15'' @ crlf)"
proof -
  have d: "dec 0 = ''0''" "dec 15 = ''15''" by (simp_all add: dec.simps char_of_def bit_Suc_0_iff)
  then have "formatted CHR ''P'' [0, 15] = ''P 0 15'' @ crlf" by (simp add: formatted_def crlf_def)
  moreover have "command_format CHR ''P'' (length [0, 15 :: u32]) = ''P %lu %lu'' @ crlf @ [NUL]"
    by (simp add: command_format_def numeral_2_eq_2)
  moreover have "map VaInt [0, 15] @ [VaInt 0] = [VaInt 0, VaInt 15, VaInt 0]" by simp
  ultimately show ?thesis
    using command_is_formatted [of "replicate 64 NUL" "CHR ''P''" "[0, 15]" "[VaInt 0]"]
    by (simp only: length_replicate simp_thms) simp
qed

end
