(* ===== verification/NumericConverter.thy ===== *)
theory NumericConverter
  imports CStrings Float64
begin

text \<open>
  Reading numbers: \<open>RRFLibraries/src/General/NumericConverter.cpp\<close>, which all the parsers of the firmware use, and the
  functions of \<open>SafeStrtod.cpp\<close> on top of it.

  The characters are read from storage: the list starts with the current character \<open>c\<close>, its tail is what
  \<open>NextChar\<close> delivers, and \<open>None\<close> is reading past the end of it. \<open>lvalue\<close> keeps its 32 bits. The exponents
  \<open>fives\<close> and \<open>twos\<close> change by at most four per character and by less than 1600 in the end, so they are integers.
\<close>

section \<open>The converter\<close>

record NumConv =
  nc_lvalue :: u32
  nc_fives :: int
  nc_twos :: int
  nc_hadDecimalPoint :: bool
  nc_hadExponent :: bool
  nc_isNegative :: bool

text \<open>The options that can be or'ed together.\<close>

record NumOptions =
  AcceptNegative :: bool
  AcceptFloat :: bool
  AcceptHex :: bool
  DefaultHex :: bool

definition AcceptOnlyUnsignedDecimal :: NumOptions where
  "AcceptOnlyUnsignedDecimal = \<lparr>AcceptNegative = False, AcceptFloat = False, AcceptHex = False, DefaultHex = False\<rparr>"

definition AcceptSignedFloat :: NumOptions where
  "AcceptSignedFloat = \<lparr>AcceptNegative = True, AcceptFloat = True, AcceptHex = False, DefaultHex = False\<rparr>"

definition nc_init :: NumConv where
  "nc_init = \<lparr>nc_lvalue = 0, nc_fives = 0, nc_twos = 0, nc_hadDecimalPoint = False, nc_hadExponent = False,
     nc_isNegative = False\<rparr>"

section \<open>Characters\<close>

definition toupper :: "char \<Rightarrow> char" where
  "toupper c = (if 97 \<le> (of_char c :: nat) \<and> (of_char c :: nat) \<le> 122 then char_of (of_char c - 32 :: nat) else c)"

definition is_xdigit :: "char \<Rightarrow> bool" where
  "is_xdigit c \<longleftrightarrow> is_digit c \<or> (65 \<le> (of_char (toupper c) :: nat) \<and> (of_char (toupper c) :: nat) \<le> 70)"

definition xdigit_value :: "char \<Rightarrow> nat" where
  "xdigit_value c = (if (of_char c :: nat) \<le> 57 then of_char c - 48 else of_char (toupper c) - 65 + 10)"

section \<open>Accumulating digits\<close>

definition Uint32Max :: u32 where "Uint32Max = 0xFFFFFFFF"
definition Int32Max :: u32 where "Int32Max = 0x7FFFFFFF"
definition Int32Min :: u32 where "Int32Min = 0x80000000"

definition shift_exponents :: "int \<Rightarrow> int \<Rightarrow> NumConv \<Rightarrow> NumConv" where
  "shift_exponents f t nc = nc\<lparr>nc_fives := nc_fives nc + f, nc_twos := nc_twos nc + t\<rparr>"

definition digit2 :: "u32 \<Rightarrow> NumConv \<times> bool \<Rightarrow> NumConv \<times> bool" where
  "digit2 digit st = (case st of (nc, overflowed) \<Rightarrow>
     if overflowed then (shift_exponents 0 1 nc, True)
     else if nc_lvalue nc \<le> Uint32Max div 2 then (nc\<lparr>nc_lvalue := push_bit 1 (nc_lvalue nc) + digit\<rparr>, False)
     else (shift_exponents 0 1 nc, True))"

definition digit10 :: "u32 \<Rightarrow> NumConv \<times> bool \<Rightarrow> NumConv \<times> bool" where
  "digit10 digit st = (case st of (nc, overflowed) \<Rightarrow>
     let l = nc_lvalue nc; point = nc_hadDecimalPoint nc in
     if overflowed then (if point then nc else shift_exponents 1 1 nc, True)
     else if l \<le> (Uint32Max - 9) div 10 \<or> l \<le> (Uint32Max - digit) div 10
     then (let nc1 = nc\<lparr>nc_lvalue := l * 10 + digit\<rparr> in if point then shift_exponents (- 1) (- 1) nc1 else nc1, False)
     else
       let fivesDigit = (digit + 1) div 2 in
       (if l \<le> (Uint32Max - fivesDigit) div 5
        then let nc1 = nc\<lparr>nc_lvalue := l * 5 + fivesDigit\<rparr> in
             if point then shift_exponents (- 1) 0 nc1 else shift_exponents 0 1 nc1
        else let twosDigit = (digit + 4) div 5 in
             if l \<le> (Uint32Max - twosDigit) div 2
             then let nc1 = nc\<lparr>nc_lvalue := l * 2 + twosDigit\<rparr> in
                  if point then shift_exponents 0 (- 1) nc1 else shift_exponents 1 0 nc1
             else if \<not> point then shift_exponents 1 1 nc else nc,
        True))"

definition digit16 :: "u32 \<Rightarrow> NumConv \<times> bool \<Rightarrow> NumConv \<times> bool" where
  "digit16 digit st = (case st of (nc, overflowed) \<Rightarrow>
     let l = nc_lvalue nc in
     if overflowed then (shift_exponents 0 4 nc, True)
     else if l \<le> Uint32Max div 16 then (nc\<lparr>nc_lvalue := push_bit 4 l + digit\<rparr>, False)
     else
       (if l \<le> Uint32Max div 8
        then shift_exponents 0 1 (nc\<lparr>nc_lvalue := push_bit 3 l OR drop_bit 1 (digit + 1)\<rparr>)
        else if l \<le> Uint32Max div 4
        then shift_exponents 0 2 (nc\<lparr>nc_lvalue := push_bit 2 l OR drop_bit 2 (digit + 2)\<rparr>)
        else if l \<le> Uint32Max div 2
        then shift_exponents 0 3 (nc\<lparr>nc_lvalue := push_bit 1 l OR drop_bit 3 (digit + 4)\<rparr>)
        else shift_exponents 0 4 nc,
        True))"

definition add_digit :: "nat \<Rightarrow> u32 \<Rightarrow> NumConv \<times> bool \<Rightarrow> NumConv \<times> bool" where
  "add_digit base digit st = (if base = 2 then digit2 digit st else if base = 10 then digit10 digit st
     else if base = 16 then digit16 digit st else st)"

section \<open>Reading\<close>

fun skip_white :: "char list \<Rightarrow> char list option" where
  "skip_white [] = None"
| "skip_white (c # cs) = (if c = CHR '' '' \<or> c = CHR 0x09 then skip_white cs else Some (c # cs))"

text \<open>Leading zeros; the digit flag comes second.\<close>

fun zeros_loop :: "NumOptions \<Rightarrow> NumConv \<times> bool \<Rightarrow> char list \<Rightarrow> ((NumConv \<times> bool) \<times> char list) option" where
  "zeros_loop opts st [] = None"
| "zeros_loop opts (nc, hadDigit) (c # cs) =
     (if c = CHR ''0''
      then zeros_loop opts (if nc_hadDecimalPoint nc then shift_exponents (- 1) (- 1) nc else nc, True) cs
      else if c = CHR ''.'' \<and> \<not> nc_hadDecimalPoint nc \<and> AcceptFloat opts
      then zeros_loop opts (nc\<lparr>nc_hadDecimalPoint := True\<rparr>, hadDigit) cs
      else Some ((nc, hadDigit), c # cs))"

text \<open>The digits: the state has the converter, whether it overflowed, and whether there was a digit.\<close>

fun digits_loop :: "NumOptions \<Rightarrow> nat \<Rightarrow> (NumConv \<times> bool) \<times> bool \<Rightarrow> char list \<Rightarrow>
    (((NumConv \<times> bool) \<times> bool) \<times> char list) option" where
  "digits_loop opts base st [] = None"
| "digits_loop opts base (acc, hadDigit) (c # cs) =
     (if is_xdigit c then
        if base \<le> xdigit_value c then Some ((acc, hadDigit), c # cs)
        else digits_loop opts base (add_digit base (of_nat (xdigit_value c)) acc, True) cs
      else if c = CHR ''.'' \<and> \<not> nc_hadDecimalPoint (fst acc) \<and> AcceptFloat opts
      then digits_loop opts base (((fst acc)\<lparr>nc_hadDecimalPoint := True\<rparr>, snd acc), hadDigit) cs
      else Some ((acc, hadDigit), c # cs))"

fun exponent_loop :: "nat \<Rightarrow> char list \<Rightarrow> (nat \<times> char list) option" where
  "exponent_loop e [] = None"
| "exponent_loop e (c # cs) =
     (if is_digit c then exponent_loop (if e < 160 then 10 * e + (of_char c - 48) else e) cs else Some (e, c # cs))"

text \<open>The exponent, after \<open>E\<close> has been seen.\<close>

definition read_exponent :: "NumConv \<Rightarrow> char list \<Rightarrow> (bool \<times> NumConv \<times> char list) option" where
  "read_exponent nc cs0 = (case cs0 of [] \<Rightarrow> None | c0 # cs1 \<Rightarrow>
     let cs = (if c0 = CHR ''-'' \<or> c0 = CHR ''+'' then cs1 else cs0) in
     case cs of [] \<Rightarrow> None | c # _ \<Rightarrow>
       if \<not> is_digit c then Some (False, nc, cs)
       else Option.bind (exponent_loop 0 cs) (\<lambda>(e, cs2).
         let d = (if c0 = CHR ''-'' then - int e else int e) in
         Some (True, shift_exponents d d (nc\<lparr>nc_hadExponent := True\<rparr>), cs2)))"

text \<open>A prefix \<open>0x\<close> or \<open>0b\<close>: the base, the options and whether there was a digit after it.\<close>

definition read_prefix :: "NumOptions \<Rightarrow> nat \<Rightarrow> char list \<Rightarrow> ((nat \<times> NumOptions \<times> bool) \<times> char list) option" where
  "read_prefix opts base cs = (case cs of [] \<Rightarrow> None | c # cs1 \<Rightarrow>
     if c = CHR ''0'' \<and> AcceptHex opts then
       (case cs1 of [] \<Rightarrow> None | x # cs2 \<Rightarrow>
          if toupper x = CHR ''X'' then Some ((16, opts\<lparr>AcceptFloat := False\<rparr>, True), cs2)
          else if toupper x = CHR ''B'' then Some ((2, opts\<lparr>AcceptFloat := False\<rparr>, True), cs2)
          else Some ((base, opts, True), cs1))
     else Some ((base, opts, False), cs))"

text \<open>What follows the sign.\<close>

definition read_magnitude :: "NumOptions \<Rightarrow> NumConv \<Rightarrow> char list \<Rightarrow> (bool \<times> NumConv \<times> char list) option" where
  "read_magnitude opts0 nc0 cs0 =
     Option.bind (read_prefix opts0 (if DefaultHex opts0 then 16 else 10) cs0) (\<lambda>((base, opts, hadDigit0), cs1).
     Option.bind (zeros_loop opts (nc0, hadDigit0) cs1) (\<lambda>((nc1, hadDigit1), cs2).
     Option.bind (digits_loop opts base ((nc1, False), hadDigit1) cs2) (\<lambda>(((nc2, _), hadDigit), cs3).
       if \<not> hadDigit then Some (False, nc2, cs3)
       else case cs3 of [] \<Rightarrow> None | c # cs4 \<Rightarrow>
         if AcceptFloat opts \<and> toupper c = CHR ''E'' then read_exponent nc2 cs4 else Some (True, nc2, cs3))))"

definition Accumulate :: "NumOptions \<Rightarrow> char list \<Rightarrow> (bool \<times> NumConv \<times> char list) option" where
  "Accumulate opts cs = Option.bind (skip_white cs) (\<lambda>cs1. case cs1 of [] \<Rightarrow> None | c # cs2 \<Rightarrow>
     if c = CHR ''+'' then read_magnitude opts nc_init cs2
     else if c = CHR ''-'' then
       if \<not> AcceptNegative opts then Some (False, nc_init, cs1)
       else read_magnitude opts (nc_init\<lparr>nc_isNegative := True\<rparr>) cs2
     else read_magnitude opts nc_init cs1)"

section \<open>The value\<close>

definition FitsInInt32 :: "NumConv \<Rightarrow> bool" where
  "FitsInInt32 nc \<longleftrightarrow> \<not> nc_hadDecimalPoint nc \<and> \<not> nc_hadExponent nc \<and> nc_twos nc = 0 \<and> nc_fives nc = 0
     \<and> nc_lvalue nc \<le> Int32Max"

definition FitsInUint32 :: "NumConv \<Rightarrow> bool" where
  "FitsInUint32 nc \<longleftrightarrow> \<not> nc_hadDecimalPoint nc \<and> \<not> nc_hadExponent nc
     \<and> (\<not> nc_isNegative nc \<or> nc_lvalue nc = 0) \<and> nc_twos nc = 0 \<and> nc_fives nc = 0"

definition GetInt32 :: "NumConv \<Rightarrow> u32" where
  "GetInt32 nc = (if nc_isNegative nc then - nc_lvalue nc else nc_lvalue nc)"

definition GetUint32 :: "NumConv \<Rightarrow> u32" where
  "GetUint32 nc = nc_lvalue nc"

text \<open>The table goes up to \<open>10 ^ 10\<close>; larger powers take several turns.\<close>

definition power_of_ten :: "nat \<Rightarrow> f64" where
  "power_of_ten k = d_of_nat (10 ^ k)"

function divide_tens :: "nat \<Rightarrow> f64 \<Rightarrow> f64" where
  "divide_tens tens d = (if tens = 0 \<or> d_iszero d then d
     else divide_tens (tens - min tens 10) (d_div d (power_of_ten (min tens 10))))"
  by pat_completeness auto
termination by (relation "measure fst") auto

function multiply_tens :: "nat \<Rightarrow> f64 \<Rightarrow> f64" where
  "multiply_tens tens d = (if tens = 0 \<or> d_isinf d then d
     else multiply_tens (tens - min tens 10) (d_mul d (power_of_ten (min tens 10))))"
  by pat_completeness auto
termination by (relation "measure fst") auto

fun double_times :: "nat \<Rightarrow> f64 \<Rightarrow> f64" where
  "double_times 0 d = d"
| "double_times (Suc n) d = (if d_isinf d then d else double_times n (d_mul d (d_of_nat 2)))"

declare divide_tens.simps [simp del] multiply_tens.simps [simp del]

definition GetFloat :: "NumConv \<Rightarrow> f32" where
  "GetFloat nc =
    (let tens = min (nc_twos nc) (nc_fives nc);
         d0 = d_of_nat (unat (nc_lvalue nc));
         d1 = divide_tens (nat (- tens)) d0;
         d2 = multiply_tens (nat tens) d1;
         d3 = (if nc_fives nc > nc_twos nc then d_mul d2 (d_of_nat 5)
               else double_times (nat (nc_twos nc - nc_fives nc)) d2);
         f = d_to_f32 d3
     in if nc_isNegative nc then f_neg f else f)"

definition GetDigitsAfterPoint :: "NumConv \<Rightarrow> nat" where
  "GetDigitsAfterPoint nc = nat (- min (nc_fives nc) (nc_twos nc))"

section \<open>The functions of SafeStrtod\<close>

text \<open>The number read and where it ended; without one, zero and the start of the text.\<close>

definition SafeStrtof :: "char list \<Rightarrow> (f32 \<times> char list) option" where
  "SafeStrtof s = Option.bind (Accumulate AcceptSignedFloat s) (\<lambda>(ok, nc, e).
     Some (if ok then (GetFloat nc, e) else (f_lit 0 1, s)))"

definition StrToU32Opt :: "NumOptions \<Rightarrow> char list \<Rightarrow> (u32 \<times> char list) option" where
  "StrToU32Opt opts s = Option.bind (Accumulate opts s) (\<lambda>(ok, nc, e).
     Some (if ok then (if FitsInUint32 nc then GetUint32 nc else Uint32Max, e) else (0, s)))"

definition StrToU32 :: "char list \<Rightarrow> (u32 \<times> char list) option" where
  "StrToU32 = StrToU32Opt AcceptOnlyUnsignedDecimal"

definition StrOptHexToU32 :: "char list \<Rightarrow> (u32 \<times> char list) option" where
  "StrOptHexToU32 = StrToU32Opt (AcceptOnlyUnsignedDecimal\<lparr>AcceptHex := True\<rparr>)"

definition StrHexToU32 :: "char list \<Rightarrow> (u32 \<times> char list) option" where
  "StrHexToU32 = StrToU32Opt (AcceptOnlyUnsignedDecimal\<lparr>DefaultHex := True\<rparr>)"

definition StrToI32 :: "char list \<Rightarrow> (u32 \<times> char list) option" where
  "StrToI32 s = Option.bind (Accumulate (AcceptOnlyUnsignedDecimal\<lparr>AcceptNegative := True\<rparr>) s) (\<lambda>(ok, nc, e).
     Some (if ok then (if FitsInInt32 nc then GetInt32 nc else if nc_isNegative nc then Int32Min else Int32Max, e)
       else (0, s)))"

end
