(* ===== verification/NumericFloats.thy ===== *)
theory NumericFloats
  imports NumericProps PrintfFloats
begin

text \<open>
  Reading decimal fractions, and reading back what was printed.
\<close>

section \<open>Exact digits\<close>

text \<open>As long as the digits make a number of 32 bits, nothing is lost.\<close>

lemma digits10_exact:
  assumes "list_all is_digit t" "dec_value (unat (nc_lvalue nc)) t < 2 ^ 32"
  defines "e \<equiv> (if nc_hadDecimalPoint nc then - int (length t) else 0)"
  shows "digits10 t (nc, False)
    = (shift_exponents e e (nc\<lparr>nc_lvalue := of_nat (dec_value (unat (nc_lvalue nc)) t)\<rparr>), False)"
  using assms(1,2) unfolding e_def
proof (induction t arbitrary: nc)
  case Nil
  then show ?case by (cases nc) (simp add: shift_exponents_def)
next
  case (Cons c t)
  let ?d = "of_nat (digit_value c) :: u32"
  have c: "digit_value c \<le> 9" using Cons.prems(1) digit_facts(3) [of c] by simp
  then have d: "unat ?d = digit_value c" by (simp add: unat_of_nat_small)
  have fits: "10 * unat (nc_lvalue nc) + unat ?d < 2 ^ 32"
    using Cons.prems(2) dec_value_ge [of "10 * unat (nc_lvalue nc) + digit_value c" t] d by simp
  let ?l = "nc_lvalue nc * 10 + ?d"
  have l: "unat ?l = 10 * unat (nc_lvalue nc) + digit_value c" using decimal_step [OF fits] d by simp
  define nc1 where "nc1 = (let nc1 = nc\<lparr>nc_lvalue := ?l\<rparr> in
    if nc_hadDecimalPoint nc then shift_exponents (- 1) (- 1) nc1 else nc1)"
  have step: "digit10 ?d (nc, False) = (nc1, False)"
    using decimal_fits [of ?d "nc_lvalue nc"] fits c d by (simp add: digit10_def Let_def nc1_def)
  have nc1: "unat (nc_lvalue nc1) = 10 * unat (nc_lvalue nc) + digit_value c"
    "nc_hadDecimalPoint nc1 = nc_hadDecimalPoint nc" using l by (simp_all add: nc1_def Let_def)
  show ?case using Cons.IH [of nc1] Cons.prems step nc1
    by (cases nc) (simp add: nc1_def Let_def shift_exponents_def)
qed

lemma dec_value_append: "dec_value v (a @ b) = dec_value (dec_value v a) b"
  by (simp add: dec_value_def)

lemma read_magnitude_point:
  assumes digits: "list_all is_digit a" "list_all is_digit b" "a @ b \<noteq> []" "dec_value 0 (a @ b) < 2 ^ 32"
    and c: "\<not> is_digit c" "toupper c \<noteq> CHR ''E''"
  shows "\<exists>nc. read_magnitude AcceptSignedFloat (nc_init\<lparr>nc_isNegative := neg\<rparr>) (a @ CHR ''.'' # b @ c # cs) = Some (True, nc, c # cs)
    \<and> nc_isNegative nc = neg \<and> nc_lvalue nc = of_nat (dec_value 0 (a @ b))
    \<and> nc_fives nc = - int (length b) \<and> nc_twos nc = - int (length b)"
proof -
  let ?opts = AcceptSignedFloat
  let ?nc0 = "nc_init\<lparr>nc_isNegative := neg\<rparr>"
  have o: "AcceptFloat ?opts" "\<not> AcceptHex ?opts" "\<not> DefaultHex ?opts" by (simp_all add: AcceptSignedFloat_def)
  have nc0: "nc_lvalue ?nc0 = 0" "\<not> nc_hadDecimalPoint ?nc0" by (simp_all add: nc_init_def)
  have va: "dec_value 0 a < 2 ^ 32"
    using digits(4) dec_value_ge [of "dec_value 0 a" b] by (simp add: dec_value_append)
  define nc1 where "nc1 = ?nc0\<lparr>nc_lvalue := of_nat (dec_value 0 a), nc_hadDecimalPoint := True\<rparr>"
  have a: "digits10 a (?nc0, False) = (?nc0\<lparr>nc_lvalue := of_nat (dec_value 0 a)\<rparr>, False)"
    using digits10_exact [OF digits(1), of ?nc0] va nc0 by (simp add: shift_exponents_def nc_init_def)
  define nc2 where "nc2 = shift_exponents (- int (length b)) (- int (length b))
    (nc1\<lparr>nc_lvalue := of_nat (dec_value 0 (a @ b))\<rparr>)"
  have u: "unat (of_nat (dec_value 0 a) :: u32) = dec_value 0 a" using va by (simp add: unat_of_nat_small)
  then have b: "digits10 b (nc1, False) = (nc2, False)"
    using digits10_exact [OF digits(2), of nc1] digits(4) by (simp add: nc1_def nc2_def dec_value_append)
  have d: "digits_loop ?opts 10 ((?nc0, False), False) (a @ CHR ''.'' # b @ c # cs) = Some (((nc2, False), True), c # cs)"
  proof -
    have "digits_loop ?opts 10 ((?nc0, False), False) (a @ CHR ''.'' # b @ c # cs)
        = digits_loop ?opts 10 ((?nc0\<lparr>nc_lvalue := of_nat (dec_value 0 a)\<rparr>, False), a \<noteq> []) (CHR ''.'' # b @ c # cs)"
      by (simp only: digits_loop_digits [OF digits(1)] a) simp
    also have "\<dots> = digits_loop ?opts 10 ((nc1, False), a \<noteq> []) (b @ c # cs)"
      using o(1) nc0(2) by (subst digits_loop_point) (simp_all add: nc1_def)
    also have "\<dots> = digits_loop ?opts 10 ((nc2, False), True) (c # cs)"
      using digits(3) by (simp only: digits_loop_digits [OF digits(2)] b) auto
    also have "\<dots> = Some (((nc2, False), True), c # cs)"
      using c(1) by (intro digits_loop_stops) (simp add: stops_def nc2_def nc1_def)
    finally show ?thesis .
  qed
  have "Option.bind (zeros_loop ?opts (?nc0, False) (a @ CHR ''.'' # b @ c # cs))
      (\<lambda>((nc1, h1), cs2). digits_loop ?opts 10 ((nc1, False), h1) cs2) = Some (((nc2, False), True), c # cs)"
    using zeros_then_digits [of ?nc0 10 ?opts False "a @ CHR ''.'' # b @ c # cs"] nc0(1) d by simp
  then obtain z cs2 where z: "zeros_loop ?opts (?nc0, False) (a @ CHR ''.'' # b @ c # cs) = Some (z, cs2)"
    "digits_loop ?opts 10 ((fst z, False), snd z) cs2 = Some (((nc2, False), True), c # cs)"
    by (auto simp: bind_eq_Some_conv)
  have "read_prefix ?opts 10 (a @ CHR ''.'' # b @ c # cs) = Some ((10, ?opts, False), a @ CHR ''.'' # b @ c # cs)"
    using o by (auto simp: read_prefix_def split: list.splits)
  then have "read_magnitude ?opts ?nc0 (a @ CHR ''.'' # b @ c # cs) = Some (True, nc2, c # cs)"
    using z o c(2) by (cases z) (simp add: read_magnitude_def)
  then show ?thesis by (simp add: nc2_def nc1_def nc_init_def)
qed

section \<open>The value\<close>

lemma d_const_div:
  assumes "v < 2 ^ 32" "k \<le> 10" "0 < v"
  shows "d_div (d_of_nat v) (power_of_ten k) = d_lit v (10 ^ k)"
proof -
  have v: "dmag (d_of_nat v) = v * 2 ^ 1074" "d_isfinite (d_of_nat v)" "\<not> dsign (d_of_nat v)"
    using d_of_nat_exact [of v v 0] assms(1) by simp_all
  have "(5 :: nat) ^ k \<le> 5 ^ 10" using assms(2) by (intro power_increasing) simp_all
  then have "(5 :: nat) ^ k < 2 ^ 53" by simp
  moreover have p: "(10 :: nat) ^ k = 5 ^ k * 2 ^ k" by (simp flip: power_mult_distrib)
  moreover have "(10 :: nat) ^ k < 2 ^ 1024"
  proof -
    have "(10 :: nat) ^ k \<le> 10 ^ 10" using assms(2) by (intro power_increasing) simp_all
    also have "\<dots> < 2 ^ 1024" by simp
    finally show ?thesis .
  qed
  ultimately have t: "dmag (power_of_ten k) = 10 ^ k * 2 ^ 1074" "d_isfinite (power_of_ten k)" "\<not> dsign (power_of_ten k)"
    using d_of_nat_exact [OF p] by (simp_all add: power_of_ten_def)
  have "d_div (d_of_nat v) (power_of_ten k)
      = mk_double False (round64 ((v * 2 ^ 1074) * 2 ^ 1074) (10 ^ k * 2 ^ 1074))"
  proof -
    have "\<not> d_iszero (power_of_ten k)" using t(1) by (simp add: d_iszero_dmag)
    then show ?thesis using v t by (simp add: d_div_def d_isfinite_def d_isnan_def d_isinf_def)
  qed
  also have "\<dots> = d_lit v (10 ^ k)"
    unfolding d_lit_def round64_def by (subst fmt_round_scale) simp_all
  finally show ?thesis .
qed

lemma GetFloat_decimal:
  assumes "nc_lvalue nc = of_nat v" "v < 2 ^ 32" "k \<le> 10" "nc_fives nc = - int k" "nc_twos nc = - int k"
  shows "GetFloat nc = (let f = d_to_f32 (d_lit v (10 ^ k)) in if nc_isNegative nc then f_neg f else f)"
proof -
  have u: "unat (nc_lvalue nc) = v" using assms(1,2) by (simp add: unat_of_nat_small)
  have zero: "d_iszero (d_of_nat v) \<longleftrightarrow> v = 0"
  proof -
    have "dmag (d_of_nat v) = v * 2 ^ 1074" using d_of_nat_exact [of v v 0] assms(2) by simp
    then show ?thesis by (simp add: d_iszero_dmag)
  qed
  have "divide_tens k (d_of_nat v) = d_lit v (10 ^ k)"
  proof (cases "k = 0 \<or> v = 0")
    case True
    then show ?thesis using zero
      by (auto simp: divide_tens.simps d_of_nat_def d_lit_0)
  next
    case False
    then show ?thesis using zero assms d_const_div [OF assms(2,3)] by (simp add: divide_tens.simps min_def)
  qed
  then show ?thesis using u assms(4,5) by (simp add: GetFloat_def multiply_tens.simps Let_def)
qed

text \<open>
  A decimal number with a point is read as the \<open>float\<close> next to the \<open>double\<close> next to its value, with the
  sign it has, if its digits make a number of 32 bits and at most ten of them follow the point; leading zeros do not matter.
\<close>

lemma SafeStrtof_decimal:
  assumes "list_all is_digit a" "list_all is_digit b" "a @ b \<noteq> []" "dec_value 0 (a @ b) < 2 ^ 32"
    and "length b \<le> 10" "\<not> is_digit c" "toupper c \<noteq> CHR ''E''" "sign \<in> {[], ''-''}"
  shows "SafeStrtof (sign @ a @ ''.'' @ b @ c # cs) =
    (let f = d_to_f32 (d_lit (dec_value 0 (a @ b)) (10 ^ length b)) in
     Some (if sign = [] then f else f_neg f, c # cs))"
proof -
  obtain nc where nc: "read_magnitude AcceptSignedFloat (nc_init\<lparr>nc_isNegative := sign \<noteq> []\<rparr>) (a @ CHR ''.'' # b @ c # cs) = Some (True, nc, c # cs)"
    "nc_isNegative nc = (sign \<noteq> [])" "nc_lvalue nc = of_nat (dec_value 0 (a @ b))"
    "nc_fives nc = - int (length b)" "nc_twos nc = - int (length b)"
    using read_magnitude_point [OF assms(1-4,6,7)] by blast
  have plain: "Accumulate AcceptSignedFloat (a @ CHR ''.'' # b @ c # cs) = read_magnitude AcceptSignedFloat nc_init (a @ CHR ''.'' # b @ c # cs)"
  proof (cases a)
    case Nil
    then show ?thesis by (simp add: Accumulate_def)
  next
    case (Cons x y)
    then show ?thesis using Accumulate_plain [of a] assms(1) by simp
  qed
  have n: "nc_init\<lparr>nc_isNegative := False\<rparr> = nc_init" by (simp add: nc_init_def)
  have "AcceptNegative AcceptSignedFloat" by (simp add: AcceptSignedFloat_def)
  then have "Accumulate AcceptSignedFloat (sign @ a @ ''.'' @ b @ c # cs) = Some (True, nc, c # cs)"
    using assms(8) nc(1) plain n by (auto simp: Accumulate_minus)
  then show ?thesis
    using GetFloat_decimal [OF nc(3) assms(4,5) nc(4,5)] nc(2) by (simp add: SafeStrtof_def Let_def)
qed

lemma SafeStrtof_decimal_witness:
  "SafeStrtof (''-'' @ ''0'' @ ''.'' @ ''5'' @ NUL # []) = Some (0xBF000000, [NUL])"
proof -
  have v: "dec_value 0 (''0'' @ ''5'') = 5" by (simp add: digit_value_def)
  have "round64 (5 * 2 ^ 1074) 10 = 1022 * 2 ^ 52"
    using fmt_round_exact [of 10 "1022 * 2 ^ 52" D_INF 52] by (simp add: round64_def D_INF_def fmt_mag_def)
  then have l: "d_lit 5 (10 ^ 1) = mk_double False (1022 * 2 ^ 52)" by (simp add: d_lit_def)
  have "dmag (mk_double False (1022 * 2 ^ 52)) = 2 ^ 1073" "d_isfinite (mk_double False (1022 * 2 ^ 52))"
    by (simp_all add: dmag_def d_isfinite_def fmt_mag_def D_INF_def)
  moreover have "round_mag (2 ^ 1073) (2 ^ 925) = 126 * 2 ^ 23"
    using fmt_round_exact [of "2 ^ 925" "126 * 2 ^ 23" INF_BITS 23]
    by (simp add: binary32_format INF_BITS_def fmt_mag_def)
  ultimately have "d_to_f32 (mk_double False (1022 * 2 ^ 52)) = mk_float False (126 * 2 ^ 23)"
    by (simp add: d_to_f32_def d_isfinite_def d_isnan_def d_isinf_def)
  then have f: "f_neg (d_to_f32 (d_lit 5 (10 ^ 1))) = 0xBF000000" unfolding l by (simp add: f_neg_def mk_float_def fbits_def fsign_def)
  show ?thesis
    using SafeStrtof_decimal [of "''0''" "''5''" NUL "''-''" "[]"] v f
    by (simp add: is_digit_def toupper_def Let_def del: dec_value_simps)
qed

section \<open>Printing what was read\<close>

text \<open>
  The \<open>float\<close> read from \<open>v / 10 ^ n\<close> is close enough to it that rounding to \<open>n\<close> decimals gives \<open>v\<close> again:
  the two roundings lose at most \<open>2 ^ -53\<close> and \<open>2 ^ -24\<close> of it, and \<open>v\<close> is below four million.
\<close>

lemma ratio_bounds:
  fixes a b c v :: nat
  assumes "2 ^ 53 * b \<le> (2 ^ 53 + 1) * c" "2 ^ 53 * c \<le> 2 ^ 53 * b + c"
    and "2 ^ 24 * a \<le> (2 ^ 24 + 1) * b" "2 ^ 24 * b \<le> 2 ^ 24 * a + b"
    and "c = v * t" "v < 4000000" "0 < t"
  shows "2 * a < (2 * v + 1) * t" "2 * v * t < 2 * a + t"
proof -
  have c: "c < 4000000 * t" using assms(5-7) by simp
  have b: "b \<le> 2 * c" using assms(1) by simp
  have up: "2 ^ 54 * a \<le> 2 ^ 54 * b + 2 ^ 30 * b" using assms(3) by simp
  have "2 ^ 54 * b \<le> 2 ^ 54 * c + 2 * c" using assms(1) by simp
  then have "2 ^ 54 * a \<le> 2 ^ 54 * c + 2 * c + 2 ^ 31 * c" using up b by simp
  then have "2 ^ 54 * (2 * a) < 2 ^ 54 * (2 * c + t)" using c by simp
  then show "2 * a < (2 * v + 1) * t" using assms(5) by (simp add: algebra_simps)
  have "2 ^ 53 * c \<le> 2 ^ 53 * a + 2 ^ 29 * b + c" using assms(2,4) by simp
  then have "2 ^ 53 * (2 * c) < 2 ^ 53 * (2 * a + t)" using b c by simp
  then show "2 * v * t < 2 * a + t" using assms(5) by (simp add: algebra_simps)
qed

lemma d_lit_decimal:
  assumes "0 < v" "v < 4000000" "n \<le> 8"
  defines "b \<equiv> dmag (d_lit v (10 ^ n)) * 10 ^ n" and "c \<equiv> v * 2 ^ 1074"
  shows "2 ^ 53 * b \<le> (2 ^ 53 + 1) * c" "2 ^ 53 * c \<le> 2 ^ 53 * b + c"
    and "d_isfinite (d_lit v (10 ^ n))" "\<not> dsign (d_lit v (10 ^ n))"
proof -
  have p: "(10 :: nat) ^ n \<le> 10 ^ 8" using assms(3) by (intro power_increasing) simp_all
  have "2 ^ 52 * (10 :: nat) ^ n \<le> 2 ^ 52 * 10 ^ 8" using p by simp
  also have "\<dots> \<le> 2 ^ 1074" by simp
  also have "\<dots> \<le> c" using assms(1) by (simp add: c_def)
  finally have big: "2 ^ 52 \<le> c div 10 ^ n" by (simp add: less_eq_div_iff_mult_less_eq)
  have "c \<le> 10 ^ n * 2 ^ 1096"
  proof -
    have "c \<le> 2 ^ 22 * 2 ^ 1074" using assms(2) by (simp add: c_def)
    also have "\<dots> = 1 * 2 ^ 1096" by (simp flip: power_add)
    also have "\<dots> \<le> 10 ^ n * 2 ^ 1096" by (intro mult_right_mono) simp_all
    finally show ?thesis .
  qed
  moreover have "(2 :: nat) ^ 1096 < fmt_mag 52 D_INF" unfolding dmag_INF by (intro power_strict_increasing) simp_all
  ultimately have cap: "fmt_round 52 D_INF c (10 ^ n) < D_INF" by (rule fmt_round_uncapped [OF _ zero_less_power [OF zero_less_numeral]])
  have l: "d_lit v (10 ^ n) = mk_double False (round64 c (10 ^ n))" by (simp add: d_lit_def c_def)
  have b: "b = fmt_mag 52 (fmt_round 52 D_INF c (10 ^ n)) * 10 ^ n"
    unfolding b_def l by (simp add: dmag_def round64_def [symmetric]) 
  show "2 ^ 53 * b \<le> (2 ^ 53 + 1) * c" "2 ^ 53 * c \<le> 2 ^ 53 * b + c"
    using fmt_round_error [OF big _ cap] unfolding b by simp_all
  show "d_isfinite (d_lit v (10 ^ n))" "\<not> dsign (d_lit v (10 ^ n))"
    using cap unfolding l by (simp_all add: d_isfinite_def round64_def [symmetric])
qed

lemma d_to_f32_error:
  assumes "d_isfinite d" "\<not> dsign d" "2 ^ 23 * 2 ^ 925 \<le> dmag d" "dmag d \<le> 2 ^ 23 * 2 ^ 1074"
  defines "x \<equiv> d_to_f32 d"
  shows "2 ^ 24 * (fmag x * 2 ^ 925) \<le> (2 ^ 24 + 1) * dmag d" "2 ^ 24 * dmag d \<le> 2 ^ 24 * (fmag x * 2 ^ 925) + dmag d"
    and "f_isfinite x" "\<not> fsign x"
proof -
  have x: "x = mk_float False (fmt_round 23 INF_BITS (dmag d) (2 ^ 925))"
    using assms(1,2) by (simp add: x_def d_to_f32_def d_isfinite_def d_isnan_def d_isinf_def binary32_format)
  have big: "2 ^ 23 \<le> dmag d div 2 ^ 925" using assms(3) by (simp add: less_eq_div_iff_mult_less_eq)
  have "dmag d \<le> 2 ^ 925 * 2 ^ 172" using assms(4) by (simp flip: power_add)
  moreover have "2 ^ 172 < fmt_mag 23 INF_BITS" using mag_of_INF by (simp add: binary32_format)
  ultimately have cap: "fmt_round 23 INF_BITS (dmag d) (2 ^ 925) < INF_BITS" by (rule fmt_round_uncapped [OF _ zero_less_power [OF zero_less_numeral]])
  then have lt: "fmt_round 23 INF_BITS (dmag d) (2 ^ 925) < 2147483648" by (simp add: INF_BITS_def)
  then have m: "fmag x = fmt_mag 23 (fmt_round 23 INF_BITS (dmag d) (2 ^ 925))"
    by (simp add: x fmag_def binary32_format)
  show "2 ^ 24 * (fmag x * 2 ^ 925) \<le> (2 ^ 24 + 1) * dmag d" "2 ^ 24 * dmag d \<le> 2 ^ 24 * (fmag x * 2 ^ 925) + dmag d"
    using fmt_round_error [OF big _ cap] unfolding m by simp_all
  show "f_isfinite x" "\<not> fsign x" using cap lt by (simp_all add: x f_isfinite_def)
qed

text \<open>So it is printed as \<open>v\<close>.\<close>

lemma read_then_rounded:
  assumes "v < 4000000" "n \<le> 8"
  defines "x \<equiv> d_to_f32 (d_lit v (10 ^ n))"
  shows "rne (fmag x * 10 ^ n) (2 ^ 149) = v" "f_isfinite x" "\<not> fsign x" "fmag x < 10 ^ 9 * 2 ^ 149"
proof -
  have "rne (fmag x * 10 ^ n) (2 ^ 149) = v \<and> f_isfinite x \<and> \<not> fsign x \<and> fmag x < 10 ^ 9 * 2 ^ 149"
  proof (cases "v = 0")
    case True
    then have "d_lit v (10 ^ n) = mk_double False 0" by (simp add: d_lit_0)
    moreover have "dmag (mk_double False 0) = 0" by (simp add: dmag_def)
    ultimately have "x = mk_float False 0"
      by (simp add: x_def d_to_f32_def d_isnan_def d_isinf_def D_INF_def binary32_format)
    then show ?thesis using True
      by (simp add: fmag_def f_isfinite_def INF_BITS_def rne_def)
  next
    case False
    then have v: "0 < v" by simp
    define d where "d = d_lit v (10 ^ n)"
    define b where "b = dmag d * 10 ^ n"
    define c where "c = v * 2 ^ 1074"
    have b: "2 ^ 53 * b \<le> (2 ^ 53 + 1) * c" "2 ^ 53 * c \<le> 2 ^ 53 * b + c" and d: "d_isfinite d" "\<not> dsign d"
      using d_lit_decimal [OF v assms(1,2)] by (simp_all add: b_def c_def d_def)
    have p: "(10 :: nat) ^ n \<le> 10 ^ 8" "0 < (10 :: nat) ^ n"
      using power_increasing [of n 8 "10 :: nat"] assms(2) by simp_all
    have lo: "2 ^ 23 * 2 ^ 925 \<le> dmag d"
    proof -
      have "2 ^ 1074 \<le> c" using v by (simp add: c_def)
      then have "2 ^ 1073 \<le> b" using b(2) by simp
      also have "\<dots> \<le> dmag d * 10 ^ 8" using p(1) by (simp add: b_def)
      finally show ?thesis by simp
    qed
    have hi: "dmag d \<le> 2 ^ 23 * 2 ^ 1074"
    proof -
      have "dmag d \<le> b" using p(2) by (simp add: b_def)
      also have "\<dots> \<le> 2 * c" using b(1) by simp
      also have "\<dots> \<le> 2 ^ 23 * 2 ^ 1074" using assms(1) by (simp add: c_def)
      finally show ?thesis .
    qed
    define a where "a = fmag x * 2 ^ 925 * 10 ^ n"
    note e = d_to_f32_error [OF d lo hi, folded x_def [folded d_def]]
    have a: "2 ^ 24 * a \<le> (2 ^ 24 + 1) * b" "2 ^ 24 * b \<le> 2 ^ 24 * a + b"
    proof -
      have "2 ^ 24 * (fmag x * 2 ^ 925) * 10 ^ n \<le> (2 ^ 24 + 1) * dmag d * 10 ^ n" using e(1) by (rule mult_le_mono1)
      then show "2 ^ 24 * a \<le> (2 ^ 24 + 1) * b" unfolding a_def b_def by (simp only: mult.assoc)
      have "2 ^ 24 * dmag d * 10 ^ n \<le> (2 ^ 24 * (fmag x * 2 ^ 925) + dmag d) * 10 ^ n" using e(2) by (rule mult_le_mono1)
      then show "2 ^ 24 * b \<le> 2 ^ 24 * a + b" unfolding a_def b_def by (simp only: mult.assoc add_mult_distrib)
    qed
    have "rne a (2 ^ 1074) = v"
      using ratio_bounds [OF b a c_def assms(1)] by (intro rne_eqI) simp_all
    moreover have "a = (fmag x * 10 ^ n) * 2 ^ 925" "(2 :: nat) ^ 1074 = 2 ^ 149 * 2 ^ 925"
      by (simp_all add: a_def mult_ac flip: power_add)
    ultimately have "rne (fmag x * 10 ^ n) (2 ^ 149) = v" by (metis rne_scale zero_less_numeral zero_less_power)
    moreover have "fmag x < 10 ^ 9 * 2 ^ 149"
    proof -
      have "fmag x * 2 ^ 925 \<le> 2 * dmag d" using e(1) by simp
      also have "\<dots> \<le> 2 ^ 24 * 2 ^ 1074" using hi by simp
      also have "\<dots> < (10 ^ 9 * 2 ^ 149) * 2 ^ 925" by simp
      finally show ?thesis by simp
    qed
    ultimately show ?thesis using e(3,4) by simp
  qed
  then show "rne (fmag x * 10 ^ n) (2 ^ 149) = v" "f_isfinite x" "\<not> fsign x" "fmag x < 10 ^ 9 * 2 ^ 149" by auto
qed

lemma f_neg_facts: "fmag (f_neg x) = fmag x" "f_isfinite (f_neg x) = f_isfinite x" "fsign (f_neg x) = (\<not> fsign x)"
  using fbits_lt [of x] by (simp_all add: f_neg_def fmag_def f_isfinite_def)

lemma decimal_text_roundtrip:
  assumes "v < 4000000" "1 \<le> n" "n \<le> 8" "sign \<in> {[], ''-''}"
  shows "\<exists>x. SafeStrtof (sign @ fixed_text n v @ [NUL]) = Some (x, [NUL])
    \<and> format_text ([], ''%.'' @ char_of (48 + n) # ''f'' @ [NUL]) [VaDouble (d_of_f32 x)] = Some (sign @ fixed_text n v)"
proof -
  let ?a = "dec (v div 10 ^ n)" and ?b = "low_digits n v"
  define x where "x = d_to_f32 (d_lit v (10 ^ n))"
  have digits: "list_all is_digit ?a" "list_all is_digit ?b" "?a @ ?b \<noteq> []"
    using dec_digits [of "v div 10 ^ n"] low_digits_digits by auto
  have v: "dec_value 0 (?a @ ?b) = v"
    using dec_digits [of "v div 10 ^ n"] div_mult_mod_eq [of v "10 ^ n"] by (simp only: dec_value_append low_digits_value)
  have t: "fixed_text n v = ?a @ ''.'' @ ?b" using assms(2) by (simp add: fixed_text_def)
  have r: "SafeStrtof (sign @ fixed_text n v @ [NUL]) = Some (if sign = [] then x else f_neg x, [NUL])"
    using SafeStrtof_decimal [of ?a ?b NUL sign "[]"] digits v assms(1,3,4)
    by (simp add: t x_def toupper_def Let_def)
  note facts = read_then_rounded [OF assms(1,3), folded x_def]
  have "format_text ([], ''%.'' @ char_of (48 + n) # ''f'' @ [NUL]) [VaDouble (d_of_f32 (if sign = [] then x else f_neg x))]
      = Some (sign @ fixed_text n v)"
    using fixed_point_text [of x n] fixed_point_text [of "f_neg x" n] facts assms(3,4)
    by (auto simp: f_neg_facts)
  with r show ?thesis by blast
qed

text \<open>
  C23. A decimal number of up to six digits, wherever the point is among them, survives being read as a \<open>float\<close> and
  printed again with as many decimals: the text printed is the text read.
\<close>

lemma decimal_roundtrip:
  assumes "v < 4000000" "1 \<le> n" "n \<le> 8" "sign \<in> {[], ''-''}" "t = sign @ fixed_text n v"
    "length t < m" "m \<le> length buf"
  shows "\<exists>x. SafeStrtof (t @ [NUL]) = Some (x, [NUL])
    \<and> SafeVsnprintf buf m (''%.'' @ char_of (48 + n) # ''f'' @ [NUL]) [VaDouble (d_of_f32 x)]
      = Some (int (length t), t @ NUL # drop (length t + 1) buf)"
proof -
  obtain x where "SafeStrtof (t @ [NUL]) = Some (x, [NUL])"
    and x: "format_text ([], ''%.'' @ char_of (48 + n) # ''f'' @ [NUL]) [VaDouble (d_of_f32 x)] = Some t"
    using decimal_text_roundtrip [OF assms(1-4)] unfolding assms(5) by auto
  with SafeVsnprintf_text [OF x _ assms(7)] assms(6) show ?thesis by (simp add: min_def)
qed

lemma decimal_roundtrip_witness:
  "\<exists>x. SafeStrtof (''-21.05'' @ [NUL]) = Some (x, [NUL])
    \<and> SafeVsnprintf ''xxxxxxxx'' 8 (''%.'' @ char_of (48 + 2 :: nat) # ''f'' @ [NUL]) [VaDouble (d_of_f32 x)]
      = Some (6, ''-21.05'' @ [NUL] @ ''x'')"
proof -
  have "fixed_text 2 2105 = ''21.05''"
    by (simp add: fixed_text_def dec.simps numeral_2_eq_2 char_of_def bit_Suc_0_iff)
  then show ?thesis using decimal_roundtrip [of 2105 2 "''-''" "''-21.05''" 8 "''xxxxxxxx''"] by simp
qed

text \<open>
  An integer printed with \<open>%d\<close> reads back with \<open>StrToI32\<close>, for every integer that can be printed.
\<close>

lemma integer_roundtrip:
  assumes "format_text ([], ''%d'' @ [NUL]) [VaInt i] = Some t"
  shows "StrToI32 (t @ [NUL]) = Some (i, [NUL])"
proof -
  have t: "t = int_dec (sint i)" using assms unfolding print_int by (simp split: if_splits)
  let ?n = "nat \<bar>sint i\<bar>" and ?sign = "if sint i < 0 then ''-'' else []"
  have d: "dec ?n \<noteq> []" "list_all is_digit (dec ?n)" "dec_value 0 (dec ?n) = ?n" using dec_digits [of ?n] by auto
  have "int_dec (sint i) = ?sign @ dec ?n" by (simp add: int_dec_def)
  moreover have "- (2 ^ 31) \<le> sint i" "sint i < 2 ^ 31" using sint_ge [of i] sint_lt [of i] by simp_all
  ultimately show ?thesis
    using StrToI32_clamps [OF d(1,2), of NUL ?sign "[]"] d(3) t by (auto simp: min_def max_def split: if_splits)
qed

lemma integer_roundtrip_witness: "StrToI32 (int_dec (sint (0xFFFFFFFB :: u32)) @ [NUL]) = Some (0xFFFFFFFB, [NUL])"
  by (rule integer_roundtrip) (simp add: print_int del: append_Cons append_Nil)

end
