(* ===== verification/GCodeLine.thy ===== *)
theory GCodeLine
  imports CStrings Crc
begin

text \<open>
  How lines of G-code are put together: \<open>StringParser::Put\<close>, \<open>LineFinished\<close> and \<open>Init\<close> of
  \<open>GCodes/GCodeBuffer/StringParser.cpp\<close>, with the checksums that hosts put on numbered lines.

  The state is the part of \<open>StringParser\<close> and \<open>GCodeBuffer\<close> that these functions use, at the widths of the class. What
  they ask of their surroundings is in \<open>LineEnv\<close>: whether the input is a file, whether the machine is a CNC
  one (which has comments in parentheses), and whether the command is nested in a macro. \<open>None\<close> is a write
  outside the buffer.
\<close>

section \<open>State\<close>

datatype GCodeBufferState = parseNotStarted | parsingLineNumber | parsingWhitespace | parsingComment | parsingGCode
  | parsingBracketedComment | parsingQuotedString | parsingChecksum | discarding | ready | executing

definition MaxGCodeLength :: nat where "MaxGCodeLength = 256"

record StringParser =
  sp_buffer :: "char list"
  sp_bufferState :: GCodeBufferState
  sp_gcodeLineEnd :: nat
  sp_commandStart :: nat
  sp_commandLength :: nat
  sp_readPointer :: int
  sp_braceCount :: nat
  sp_hadLineNumber :: bool
  sp_hadChecksum :: bool
  sp_overflowed :: bool
  sp_seenExpression :: bool
  sp_computedChecksum :: u8
  sp_crc16 :: u16
  sp_receivedLineNumber :: u32
  sp_declaredChecksum :: u32
  sp_checksumCharsReceived :: u8
  sp_commandIndent :: u8
  sp_seenLeadingSpace :: bool
  sp_seenLeadingTab :: bool
  sp_seenMetaCommand :: bool
  sp_checksumRequired :: bool
  sp_crcRequired :: bool
  sp_lineNumber :: u32

record LineEnv =
  le_isDoingFile :: bool
  le_cnc :: bool
  le_nested :: bool

definition char_byte :: "char \<Rightarrow> u8" where
  "char_byte c = of_nat (of_char c)"

section \<open>Operations\<close>

definition sp_Init :: "'a StringParser_scheme \<Rightarrow> 'a StringParser_scheme" where
  "sp_Init s = s\<lparr>sp_gcodeLineEnd := 0, sp_commandStart := 0, sp_commandLength := 0, sp_readPointer := - 1,
     sp_hadLineNumber := False, sp_hadChecksum := False, sp_overflowed := False, sp_seenExpression := False,
     sp_computedChecksum := 0, sp_bufferState := parseNotStarted, sp_commandIndent := 0,
     sp_seenLeadingSpace := sp_seenMetaCommand s \<and> sp_seenLeadingSpace s,
     sp_seenLeadingTab := sp_seenMetaCommand s \<and> sp_seenLeadingTab s\<rparr>"

definition DiscardPartialLine :: "'a StringParser_scheme \<Rightarrow> 'a StringParser_scheme" where
  "DiscardPartialLine s =
    (if sp_bufferState s \<noteq> parseNotStarted \<and> sp_bufferState s \<noteq> ready then sp_Init s else s)"

definition AddToChecksum :: "char \<Rightarrow> 'a StringParser_scheme \<Rightarrow> 'a StringParser_scheme" where
  "AddToChecksum c s =
    (if sp_hadLineNumber s
     then s\<lparr>sp_computedChecksum := sp_computedChecksum s XOR char_byte c,
            sp_crc16 := UpdateNormal crc16_xmodem_table (sp_crc16 s) (char_byte c)\<rparr>
     else s)"

definition StoreAndAddToChecksum :: "char \<Rightarrow> 'a StringParser_scheme \<Rightarrow> 'a StringParser_scheme option" where
  "StoreAndAddToChecksum c s0 =
    (let s = AddToChecksum c s0 in
     if sp_gcodeLineEnd s + 1 < MaxGCodeLength then
       Option.bind (poke (sp_buffer s) (sp_gcodeLineEnd s) c) (\<lambda>b.
         Some (s\<lparr>sp_buffer := b, sp_gcodeLineEnd := sp_gcodeLineEnd s + 1\<rparr>))
     else if sp_bufferState s \<noteq> parsingComment then Some (s\<lparr>sp_overflowed := True\<rparr>)
     else Some s)"

text \<open>The cases of the state machine. The first result asks for the character to be looked at again.\<close>

definition put_start :: "char \<Rightarrow> 'a StringParser_scheme \<Rightarrow> bool \<times> 'a StringParser_scheme" where
  "put_start c s0 =
    (let s = s0\<lparr>sp_braceCount := 0\<rparr> in
     if c = CHR ''N'' \<or> c = CHR ''n'' then
       (False, (AddToChecksum c (s\<lparr>sp_hadLineNumber := True, sp_crc16 := 0\<rparr>))
         \<lparr>sp_bufferState := parsingLineNumber, sp_receivedLineNumber := 0\<rparr>)
     else if c = CHR '' '' then
       (False, (AddToChecksum c s)\<lparr>sp_commandIndent := sp_commandIndent s + 1, sp_seenLeadingSpace := True\<rparr>)
     else if c = CHR 0x09 then
       (False, (AddToChecksum c s)\<lparr>sp_commandIndent := (sp_commandIndent s + 4) AND NOT 3, sp_seenLeadingTab := True\<rparr>)
     else (True, s\<lparr>sp_bufferState := parsingGCode, sp_commandStart := 0\<rparr>))"

definition put_line_number :: "char \<Rightarrow> 'a StringParser_scheme \<Rightarrow> bool \<times> 'a StringParser_scheme" where
  "put_line_number c s =
    (if is_digit c
     then (False, (AddToChecksum c s)\<lparr>sp_receivedLineNumber := 10 * sp_receivedLineNumber s + of_nat (digit_value c)\<rparr>)
     else (True, s\<lparr>sp_bufferState := parsingWhitespace\<rparr>))"

definition put_whitespace :: "char \<Rightarrow> 'a StringParser_scheme \<Rightarrow> bool \<times> 'a StringParser_scheme" where
  "put_whitespace c s =
    (if c = CHR '' '' \<or> c = CHR 0x09 then (False, AddToChecksum c s)
     else (True, s\<lparr>sp_bufferState := parsingGCode, sp_commandStart := 0\<rparr>))"

definition put_gcode :: "bool \<Rightarrow> char \<Rightarrow> 'a StringParser_scheme \<Rightarrow> 'a StringParser_scheme option" where
  "put_gcode cnc c s =
    (if c = CHR ''*'' then
       if sp_hadLineNumber s \<and> sp_braceCount s = 0
       then Some (s\<lparr>sp_declaredChecksum := 0, sp_checksumCharsReceived := 0, sp_hadChecksum := True,
                    sp_bufferState := parsingChecksum\<rparr>)
       else StoreAndAddToChecksum c s
     else if c = CHR '';'' then
       if sp_commandIndent s = 0 \<and> sp_gcodeLineEnd s = 0
       then map_option (\<lambda>s. s\<lparr>sp_bufferState := parsingComment\<rparr>) (StoreAndAddToChecksum c s)
       else Some (s\<lparr>sp_bufferState := discarding\<rparr>)
     else if c = CHR ''('' then
       if sp_braceCount s = 0 \<and> cnc
       then Some ((AddToChecksum c s)\<lparr>sp_bufferState := parsingBracketedComment\<rparr>)
       else StoreAndAddToChecksum c s
     else if c = CHR 0x22 then
       map_option (\<lambda>s. s\<lparr>sp_bufferState := parsingQuotedString\<rparr>) (StoreAndAddToChecksum c s)
     else if c = CHR ''{'' then
       StoreAndAddToChecksum c (s\<lparr>sp_braceCount := sp_braceCount s + 1, sp_seenExpression := True\<rparr>)
     else if c = CHR ''}'' then
       StoreAndAddToChecksum c (if sp_braceCount s \<noteq> 0 then s\<lparr>sp_braceCount := sp_braceCount s - 1\<rparr> else s)
     else StoreAndAddToChecksum c s)"

definition put_bracketed :: "char \<Rightarrow> 'a StringParser_scheme \<Rightarrow> 'a StringParser_scheme" where
  "put_bracketed c s0 = (let s = AddToChecksum c s0 in if c = CHR '')'' then s\<lparr>sp_bufferState := parsingGCode\<rparr> else s)"

definition put_quoted :: "char \<Rightarrow> 'a StringParser_scheme \<Rightarrow> 'a StringParser_scheme option" where
  "put_quoted c s0 = map_option (\<lambda>s. if c = CHR 0x22 then s\<lparr>sp_bufferState := parsingGCode\<rparr> else s)
     (StoreAndAddToChecksum c s0)"

definition put_checksum :: "char \<Rightarrow> 'a StringParser_scheme \<Rightarrow> bool \<times> 'a StringParser_scheme" where
  "put_checksum c s =
    (if is_digit c
     then (False, s\<lparr>sp_declaredChecksum := 10 * sp_declaredChecksum s + of_nat (digit_value c),
                    sp_checksumCharsReceived := sp_checksumCharsReceived s + 1\<rparr>)
     else (True, s\<lparr>sp_bufferState := discarding\<rparr>))"

definition put_step :: "bool \<Rightarrow> char \<Rightarrow> 'a StringParser_scheme \<Rightarrow> (bool \<times> 'a StringParser_scheme) option" where
  "put_step cnc c s =
    (case sp_bufferState s of
       parseNotStarted \<Rightarrow> Some (put_start c s)
     | parsingLineNumber \<Rightarrow> Some (put_line_number c s)
     | parsingWhitespace \<Rightarrow> Some (put_whitespace c s)
     | parsingGCode \<Rightarrow> map_option (Pair False) (put_gcode cnc c s)
     | parsingComment \<Rightarrow> map_option (Pair False) (StoreAndAddToChecksum c s)
     | parsingBracketedComment \<Rightarrow> Some (False, put_bracketed c s)
     | parsingQuotedString \<Rightarrow> map_option (Pair False) (put_quoted c s)
     | parsingChecksum \<Rightarrow> Some (put_checksum c s)
     | _ \<Rightarrow> Some (False, s))"

text \<open>Looking again happens at most twice: the state moves on towards \<open>parsingGCode\<close> or \<open>discarding\<close>.\<close>

definition put_rank :: "GCodeBufferState \<Rightarrow> nat" where
  "put_rank b = (case b of parsingLineNumber \<Rightarrow> 2 | parseNotStarted \<Rightarrow> 1 | parsingWhitespace \<Rightarrow> 1 | parsingChecksum \<Rightarrow> 1 | _ \<Rightarrow> 0)"

lemma put_again:
  assumes "put_step cnc c s = Some (True, t)"
  shows "put_rank (sp_bufferState t) < put_rank (sp_bufferState s)"
  using assms
  by (auto simp: put_step_def put_start_def put_line_number_def put_whitespace_def put_checksum_def put_rank_def Let_def
      split: GCodeBufferState.splits if_splits)

function put_loop :: "bool \<Rightarrow> char \<Rightarrow> 'a StringParser_scheme \<Rightarrow> 'a StringParser_scheme option" where
  "put_loop cnc c s = (case put_step cnc c s of None \<Rightarrow> None
     | Some (again, t) \<Rightarrow> if again then put_loop cnc c t else Some t)"
  by pat_completeness auto
termination
  by (relation "measure (\<lambda>(_, _, s). put_rank (sp_bufferState s))") (auto dest: put_again)

declare put_loop.simps [simp del]

text \<open>What makes the checksum of a finished line bad, or missing.\<close>

definition bad_checksum :: "'a StringParser_scheme \<Rightarrow> bool" where
  "bad_checksum s \<longleftrightarrow> sp_hadChecksum s \<and>
    (if sp_checksumCharsReceived s \<in> {1, 2, 3}
     then sp_crcRequired s \<or> ucast (sp_computedChecksum s) \<noteq> sp_declaredChecksum s
     else if sp_checksumCharsReceived s = 5 then ucast (sp_crc16 s) \<noteq> sp_declaredChecksum s
     else True)"

definition missing_checksum :: "LineEnv \<Rightarrow> 'a StringParser_scheme \<Rightarrow> bool" where
  "missing_checksum env s \<longleftrightarrow> \<not> sp_hadChecksum s \<and> (sp_checksumRequired s \<or> sp_crcRequired s) \<and> \<not> le_nested env"

definition LineFinished :: "LineEnv \<Rightarrow> 'a StringParser_scheme \<Rightarrow> (bool \<times> 'a StringParser_scheme) option" where
  "LineFinished env s0 =
    (let s = s0\<lparr>sp_lineNumber := if sp_hadLineNumber s0 then sp_receivedLineNumber s0 else sp_lineNumber s0 + 1\<rparr> in
     if sp_gcodeLineEnd s = 0 then Some (False, sp_Init s)
     else Option.bind (poke (sp_buffer s) (sp_gcodeLineEnd s) NUL) (\<lambda>b.
       let s1 = s\<lparr>sp_buffer := b\<rparr> in
       if sp_bufferState s1 \<noteq> parsingComment \<and> (bad_checksum s1 \<or> missing_checksum env s1)
       then Some (False, sp_Init s1)
       else Some (True, s1\<lparr>sp_commandStart := 0\<rparr>)))"

text \<open>One character received; the result says whether a command is ready.\<close>

definition Put :: "LineEnv \<Rightarrow> char \<Rightarrow> 'a StringParser_scheme \<Rightarrow> (bool \<times> 'a StringParser_scheme) option" where
  "Put env c s0 =
    (let s = (if c \<noteq> NUL then s0\<lparr>sp_commandLength := sp_commandLength s0 + 1\<rparr> else s0) in
     if c = CHR 0x0D \<and> le_isDoingFile env then Some (False, s)
     else if c = NUL \<or> c = CHR 0x0A \<or> c = CHR 0x0D then LineFinished env s
     else
       let s1 = (if c = CHR 0x7F \<and> sp_bufferState s \<noteq> discarding
                 then s\<lparr>sp_gcodeLineEnd := 0, sp_bufferState := discarding\<rparr> else s) in
       map_option (Pair False) (put_loop (le_cnc env) c s1))"

text \<open>Several characters, up to the first that completes a command, with what is left of the input.\<close>

fun Put_all :: "LineEnv \<Rightarrow> char list \<Rightarrow> 'a StringParser_scheme \<Rightarrow> (bool \<times> char list \<times> 'a StringParser_scheme) option" where
  "Put_all env [] s = Some (False, [], s)"
| "Put_all env (c # cs) s = Option.bind (Put env c s) (\<lambda>(done, t).
     if done then Some (True, cs, t) else Put_all env cs t)"

end
