(* ===== verification/GCodeCommand.thy ===== *)
theory GCodeCommand
  imports GCodeLine NumericConverter StringRefs
begin

text \<open>
  From lines to commands and their parameters: \<open>DecodeCommand\<close>, \<open>FindParameters\<close>, \<open>SetFinished\<close>, \<open>Seen\<close> and the
  readers of \<open>GCodes/GCodeBuffer/StringParser.cpp\<close>.

  The buffer is read from a position on, as a list of the characters from there to its end; \<open>None\<close> is a
  read behind the buffer, and a command number that overflows an \<open>int\<close>. Exceptions are \<open>Inl\<close> their
  message. Expressions in braces are evaluated by a parameter, which is given the text from the brace on
  and says how many characters it has used.
\<close>

section \<open>State\<close>

record CommandParser = StringParser +
  cp_commandLetter :: char
  cp_hasCommandNumber :: bool
  cp_commandNumber :: int
  cp_commandFraction :: int
  cp_parameterStart :: nat
  cp_commandEnd :: nat
  cp_parametersPresent :: u32
  cp_characterSeen :: char
  cp_g53Active :: bool
  cp_explicitLineNumber :: "u32 option"

text \<open>
  What decoding asks of its surroundings: the letters of the axes, whether commands may be
  repeated in the way of Fanuc controllers, and whether the input is at the top level of its stack.
\<close>

record CommandEnv =
  ce_axisLetters :: string
  ce_fanuc :: bool
  ce_topLevel :: bool

definition is_alpha :: "char \<Rightarrow> bool" where
  "is_alpha c \<longleftrightarrow> (of_char (toupper c) :: nat) \<in> {65..90}"

definition white :: "char \<Rightarrow> bool" where
  "white c \<longleftrightarrow> c = CHR '' '' \<or> c = CHR 0x09"

section \<open>Finding the parameters\<close>

definition HighestAxisLetter :: char where "HighestAxisLetter = CHR ''f''"

text \<open>An \<open>E\<close> after a digit is an exponent. The character before is \<open>None\<close> at the first parameter.\<close>

definition starts_parameter :: "char option \<Rightarrow> char \<Rightarrow> bool" where
  "starts_parameter prev c2 \<longleftrightarrow> c2 \<noteq> CHR ''E'' \<or> (case prev of None \<Rightarrow> True | Some p \<Rightarrow> \<not> is_digit p)"

definition lower_parameter :: "char option \<Rightarrow> char \<Rightarrow> u32 \<Rightarrow> u32" where
  "lower_parameter prev c2 bits =
    (if (65 :: nat) \<le> of_char c2 \<and> (of_char c2 :: nat) \<le> of_char (toupper HighestAxisLetter) \<and> starts_parameter prev c2
     then bits OR push_bit (of_char c2 - 39) 1 else bits)"

definition upper_parameter :: "char option \<Rightarrow> char \<Rightarrow> u32 \<Rightarrow> u32" where
  "upper_parameter prev c2 bits =
    (if (65 :: nat) \<le> of_char c2 \<and> (of_char c2 :: nat) \<le> 90 \<and> starts_parameter prev c2
     then bits OR push_bit (of_char c2 - 65) 1 else bits)"

text \<open>
  The loop over the characters: whether it is inside quotes, whether the last character was an
  apostrophe, and how many braces are open. The result counts the characters up to the next command.
\<close>

fun find_loop :: "char option \<Rightarrow> bool \<Rightarrow> bool \<Rightarrow> nat \<Rightarrow> u32 \<Rightarrow> char list \<Rightarrow> nat \<times> u32" where
  "find_loop prev inQuotes escaped braces bits [] = (0, bits)"
| "find_loop prev inQuotes escaped braces bits (c # cs) =
    (let next = (\<lambda>q e n b. apfst Suc (find_loop (Some c) q e n b cs)) in
     if c = CHR 0x27 then next inQuotes (\<not> inQuotes) braces bits
     else if c = CHR 0x22 then next (\<not> inQuotes) False braces bits
     else if inQuotes then next inQuotes False braces bits
     else if c = CHR ''{'' then next inQuotes False (braces + 1) bits
     else if braces \<noteq> 0 then next inQuotes False (if c = CHR ''}'' then braces - 1 else braces) bits
     else
       let c2 = toupper c in
       if escaped then next inQuotes False braces (lower_parameter prev c2 bits)
       else if c2 = CHR ''G'' \<or> c2 = CHR ''M'' then (0, bits)
       else next inQuotes False braces (upper_parameter prev c2 bits))"

text \<open>The parameters of the current command, as far as the line goes.\<close>

definition rest_of_line :: "'a CommandParser_scheme \<Rightarrow> char list" where
  "rest_of_line s = drop (cp_parameterStart s) (take (sp_gcodeLineEnd s) (sp_buffer s))"

definition FindParameters :: "'a CommandParser_scheme \<Rightarrow> 'a CommandParser_scheme" where
  "FindParameters s =
    (case find_loop None False False 0 0 (rest_of_line s) of
       (n, bits) \<Rightarrow> s\<lparr>cp_commandEnd := cp_parameterStart s + n, cp_parametersPresent := bits\<rparr>)"

section \<open>Decoding a command\<close>

fun command_digits :: "int \<Rightarrow> char list \<Rightarrow> (int \<times> char list) option" where
  "command_digits n [] = None"
| "command_digits n (c # cs) =
    (if is_digit c then
       let n1 = 10 * n + int (digit_value c) in if n1 < 2 ^ 31 then command_digits n1 cs else None
     else Some (n, c # cs))"

text \<open>The fractional digit after a number, if there is one.\<close>

definition command_fraction :: "int \<Rightarrow> char list \<Rightarrow> ((bool \<times> int \<times> int) \<times> char list) option" where
  "command_fraction number cs = (case cs of [] \<Rightarrow> None | p # cs1 \<Rightarrow>
     if p = CHR ''.'' then
       (case cs1 of [] \<Rightarrow> None | d # cs2 \<Rightarrow>
          if is_digit d then Some ((True, number, int (digit_value d)), cs2) else Some ((True, number, - 1), cs1))
     else Some ((True, number, - 1), cs))"

text \<open>The number and its fractional digit, and what comes after them.\<close>

definition read_command_number :: "char list \<Rightarrow> ((bool \<times> int \<times> int) \<times> char list) option" where
  "read_command_number cs0 = (case cs0 of [] \<Rightarrow> None | c0 # cs1 \<Rightarrow>
     let negative = (c0 = CHR ''-''); cs = (if negative then cs1 else cs0) in
     case cs of [] \<Rightarrow> None | c # _ \<Rightarrow>
       if is_digit c then
         Option.bind (command_digits 0 cs) (\<lambda>(n, cs2). command_fraction (if negative then - n else n) cs2)
       else Some ((False, - 1, - 1), cs))"

definition skip_blanks :: "'a CommandParser_scheme \<Rightarrow> 'a CommandParser_scheme" where
  "skip_blanks s = s\<lparr>cp_parameterStart := cp_parameterStart s + length (takeWhile white (rest_of_line s))\<rparr>"

text \<open>A command with one of the letters \<open>G\<close>, \<open>M\<close>, \<open>T\<close>.\<close>

definition decode_letter :: "char \<Rightarrow> 'a CommandParser_scheme \<Rightarrow> 'a CommandParser_scheme option" where
  "decode_letter cl s0 =
    (let start = sp_commandStart s0; s = s0\<lparr>cp_commandLetter := cl\<rparr> in
     case drop (start + 1) (sp_buffer s) of [] \<Rightarrow> None | c1 # cs \<Rightarrow>
       map_option (\<lambda>t. FindParameters (skip_blanks t))
         (if cl = CHR ''T'' \<and> c1 = CHR ''{''
          then Some (s\<lparr>cp_hasCommandNumber := False, cp_commandNumber := - 1, cp_commandFraction := - 1,
                       cp_parameterStart := start\<rparr>)
          else map_option (\<lambda>((has, n, f), rest).
                 s\<lparr>cp_hasCommandNumber := has, cp_commandNumber := n, cp_commandFraction := f,
                   cp_parameterStart := length (sp_buffer s) - length rest\<rparr>) (read_command_number (c1 # cs))))"

text \<open>
  Whether the last command is repeated with new coordinates. The character after the letter is
  read only when everything else says so.
\<close>

definition repeats_command :: "CommandEnv \<Rightarrow> char \<Rightarrow> 'a CommandParser_scheme \<Rightarrow> bool option" where
  "repeats_command env cl s =
    (if cp_hasCommandNumber s \<and> cp_commandLetter s = CHR ''G'' \<and> cp_commandNumber s \<le> 3
        \<and> (cl = NUL \<or> cl \<in> set (ce_axisLetters env)) \<and> ce_fanuc env
     then map_option (\<lambda>next. \<not> is_alpha next) (peek (sp_buffer s) (sp_commandStart s + 1))
     else Some False)"

definition decode_other :: "CommandEnv \<Rightarrow> char \<Rightarrow> 'a CommandParser_scheme \<Rightarrow> 'a CommandParser_scheme option" where
  "decode_other env cl s0 =
    (let s = s0\<lparr>cp_commandFraction := - 1\<rparr> in
     if cl = CHR '';'' then
       Some (s\<lparr>sp_overflowed := False, cp_commandLetter := CHR ''Q'', cp_commandNumber := 0, cp_hasCommandNumber := True,
               cp_parameterStart := 1, cp_commandEnd := sp_gcodeLineEnd s\<rparr>)
     else map_option (\<lambda>again.
       if again then FindParameters (s\<lparr>cp_parameterStart := sp_commandStart s\<rparr>)
       else s\<lparr>cp_commandLetter := cl, cp_hasCommandNumber := False, cp_commandNumber := - 1,
              cp_parameterStart := sp_commandStart s, cp_commandEnd := sp_gcodeLineEnd s\<rparr>)
       (repeats_command env cl s))"

definition DecodeCommand :: "CommandEnv \<Rightarrow> 'a CommandParser_scheme \<Rightarrow> 'a CommandParser_scheme option" where
  "DecodeCommand env s0 = do {
     c0 \<leftarrow> peek (sp_buffer s0) (sp_commandStart s0);
     (s1, cl) \<leftarrow> (if c0 = CHR 0x27
        then let s = s0\<lparr>sp_commandStart := sp_commandStart s0 + 1\<rparr> in
          map_option (\<lambda>c1. (s, tolower c1)) (peek (sp_buffer s) (sp_commandStart s))
        else Some (s0, toupper c0));
     s2 \<leftarrow> (if cl \<in> {CHR ''G'', CHR ''M'', CHR ''T''} then decode_letter cl s1 else decode_other env cl s1);
     Some (s2\<lparr>cp_explicitLineNumber :=
         if ce_topLevel env then if sp_hadLineNumber s2 then Some (sp_receivedLineNumber s2) else None
         else cp_explicitLineNumber s2,
       sp_bufferState := ready\<rparr>) }"

text \<open>Going on to the next command of the line, if there is one.\<close>

definition SetFinished :: "CommandEnv \<Rightarrow> 'a CommandParser_scheme \<Rightarrow> 'a CommandParser_scheme option" where
  "SetFinished env s =
    (if cp_commandEnd s < sp_gcodeLineEnd s then DecodeCommand env (s\<lparr>sp_commandStart := cp_commandEnd s\<rparr>)
     else Some (sp_Init (s\<lparr>cp_g53Active := False\<rparr>)))"

definition PutAndDecode :: "LineEnv \<Rightarrow> CommandEnv \<Rightarrow> char list \<Rightarrow> 'a CommandParser_scheme \<Rightarrow> 'a CommandParser_scheme option" where
  "PutAndDecode lenv env str s0 = Option.bind (Put_all lenv str (sp_Init s0)) (\<lambda>(done, _, s).
     if done then DecodeCommand env s
     else Option.bind (Put lenv CHR 0x0A s) (\<lambda>(_, t). DecodeCommand env t))"

section \<open>Looking for a parameter\<close>

text \<open>The bit of a letter; other characters give a number outside the bitmap.\<close>

definition parameter_bit :: "char \<Rightarrow> nat" where
  "parameter_bit c = (if 97 \<le> (of_char c :: nat) then of_char c - 71 else if 65 \<le> (of_char c :: nat) then of_char c - 65 else 32)"

fun seen_loop :: "char \<Rightarrow> bool \<Rightarrow> char option \<Rightarrow> bool \<Rightarrow> bool \<Rightarrow> nat \<Rightarrow> char list \<Rightarrow> nat option" where
  "seen_loop c lower prev inQuotes escaped brackets [] = None"
| "seen_loop c lower prev inQuotes escaped brackets (b # bs) =
    (let next = (\<lambda>q e n. map_option Suc (seen_loop c lower (Some b) q e n bs)) in
     if b = CHR 0x22 then next (\<not> inQuotes) escaped brackets
     else if inQuotes then next inQuotes escaped brackets
     else if b = CHR 0x27 \<and> \<not> escaped then next inQuotes True brackets
     else if brackets = 0 \<and> toupper b = c \<and> escaped = lower \<and> starts_parameter prev c then Some 1
     else if b = CHR ''{'' then next inQuotes False (brackets + 1)
     else next inQuotes False (if b = CHR ''}'' \<and> brackets \<noteq> 0 then brackets - 1 else brackets))"

text \<open>The text of the current command after its number.\<close>

definition parameters :: "'a CommandParser_scheme \<Rightarrow> char list" where
  "parameters s = drop (cp_parameterStart s) (take (cp_commandEnd s) (sp_buffer s))"

definition Seen :: "char \<Rightarrow> 'a CommandParser_scheme \<Rightarrow> bool \<times> 'a CommandParser_scheme" where
  "Seen c s =
    (if 32 \<le> parameter_bit c \<or> \<not> bit (cp_parametersPresent s) (parameter_bit c) then (False, s)
     else case seen_loop (toupper c) (97 \<le> (of_char c :: nat)) None False False 0 (parameters s) of
       Some n \<Rightarrow> (True, s\<lparr>sp_readPointer := int (cp_parameterStart s + n), cp_characterSeen := toupper c\<rparr>)
     | None \<Rightarrow> (False, s\<lparr>sp_readPointer := - 1\<rparr>))"

section \<open>Reading numbers\<close>

text \<open>A result or the message of an exception, with the parser after it.\<close>

type_synonym ('v, 's) reading = "((string + 'v) \<times> 's) option"

text \<open>An expression in braces: its value and the number of characters it takes.\<close>

type_synonym 'v expression = "char list \<Rightarrow> string + ('v \<times> nat)"

abbreviation at_pointer :: "'a CommandParser_scheme \<Rightarrow> char list" where
  "at_pointer s \<equiv> drop (nat (sp_readPointer s)) (sp_buffer s)"

text \<open>The part of a format for the letter of the parameter.\<close>

definition quoted_letter :: string where
  "quoted_letter = CHR 0x27 # ''%c'' @ [CHR 0x27]"

text \<open>Nothing read is an error; otherwise the pointer moves behind the number.\<close>

definition CheckNumberFound :: "'v \<Rightarrow> char list \<Rightarrow> 'a CommandParser_scheme \<Rightarrow> ('v, 'a CommandParser_scheme) reading" where
  "CheckNumberFound v rest s =
    (if length rest = length (at_pointer s) then Some (Inl (''expected number after '' @ quoted_letter), s)
     else Some (Inr v, s\<lparr>sp_readPointer := int (length (sp_buffer s) - length rest)\<rparr>))"

definition read_value :: "'v expression \<Rightarrow> (char list \<Rightarrow> ('v \<times> char list) option) \<Rightarrow> 'a CommandParser_scheme \<Rightarrow>
    ('v, 'a CommandParser_scheme) reading" where
  "read_value expr number s = Option.bind (peek (sp_buffer s) (nat (sp_readPointer s))) (\<lambda>c.
     if c = CHR ''{'' then
       (case expr (at_pointer s) of
          Inl e \<Rightarrow> Some (Inl e, s)
        | Inr (v, n) \<Rightarrow> Some (Inr v, s\<lparr>sp_readPointer := sp_readPointer s + int n\<rparr>))
     else Option.bind (number (at_pointer s)) (\<lambda>(v, rest). CheckNumberFound v rest s))"

definition ReadFloatValue :: "f32 expression \<Rightarrow> 'a CommandParser_scheme \<Rightarrow> (f32, 'a CommandParser_scheme) reading" where
  "ReadFloatValue expr = read_value expr SafeStrtof"

definition ReadUIValue :: "u32 expression \<Rightarrow> 'a CommandParser_scheme \<Rightarrow> (u32, 'a CommandParser_scheme) reading" where
  "ReadUIValue expr = read_value expr StrToU32"

definition ReadIValue :: "u32 expression \<Rightarrow> 'a CommandParser_scheme \<Rightarrow> (u32, 'a CommandParser_scheme) reading" where
  "ReadIValue expr = read_value expr StrToI32"

text \<open>Reading needs a parameter found before, and forgets it when it succeeds.\<close>

definition get_value :: "('a CommandParser_scheme \<Rightarrow> ('v, 'a CommandParser_scheme) reading) \<Rightarrow>
    'a CommandParser_scheme \<Rightarrow> ('v, 'a CommandParser_scheme) reading" where
  "get_value rd s =
    (if sp_readPointer s \<le> 0 then Some (Inl ''internal error'', s)
     else Option.bind (rd s) (\<lambda>(r, t). case r of
       Inl e \<Rightarrow> Some (Inl e, t) | Inr v \<Rightarrow> Some (Inr v, t\<lparr>sp_readPointer := - 1\<rparr>)))"

definition GetFValue :: "f32 expression \<Rightarrow> 'a CommandParser_scheme \<Rightarrow> (f32, 'a CommandParser_scheme) reading" where
  "GetFValue expr = get_value (ReadFloatValue expr)"

definition GetIValue :: "u32 expression \<Rightarrow> 'a CommandParser_scheme \<Rightarrow> (u32, 'a CommandParser_scheme) reading" where
  "GetIValue expr = get_value (ReadIValue expr)"

definition GetUIValue :: "u32 expression \<Rightarrow> 'a CommandParser_scheme \<Rightarrow> (u32, 'a CommandParser_scheme) reading" where
  "GetUIValue expr = get_value (ReadUIValue expr)"

text \<open>Lists with colons. There is room for \<open>room\<close> more elements.\<close>

fun read_array :: "('a CommandParser_scheme \<Rightarrow> ('v, 'a CommandParser_scheme) reading) \<Rightarrow> nat \<Rightarrow>
    'a CommandParser_scheme \<Rightarrow> ('v list, 'a CommandParser_scheme) reading" where
  "read_array rd 0 s = Some (Inl (''array too long for parameter '' @ quoted_letter), s)"
| "read_array rd (Suc room) s = Option.bind (rd s) (\<lambda>(r, t). case r of
     Inl e \<Rightarrow> Some (Inl e, t)
   | Inr v \<Rightarrow> Option.bind (peek (sp_buffer t) (nat (sp_readPointer t))) (\<lambda>c.
       if c \<noteq> CHR '':'' then Some (Inr [v], t)
       else map_option (apfst (map_sum id ((#) v)))
         (read_array rd room (t\<lparr>sp_readPointer := sp_readPointer t + 1\<rparr>))))"

definition get_array :: "'v list expression \<Rightarrow> ('a CommandParser_scheme \<Rightarrow> ('v, 'a CommandParser_scheme) reading) \<Rightarrow> nat \<Rightarrow>
    'a CommandParser_scheme \<Rightarrow> ('v list, 'a CommandParser_scheme) reading" where
  "get_array expr rd room = get_value (\<lambda>s.
     Option.bind (peek (sp_buffer s) (nat (sp_readPointer s))) (\<lambda>c.
       if c = CHR ''{'' then
         (case expr (at_pointer s) of
            Inl e \<Rightarrow> Some (Inl e, s)
          | Inr (v, n) \<Rightarrow> Some (Inr v, s\<lparr>sp_readPointer := sp_readPointer s + int n\<rparr>))
       else read_array rd room s))"

definition GetFloatArray :: "f32 list expression \<Rightarrow> f32 expression \<Rightarrow> nat \<Rightarrow> 'a CommandParser_scheme \<Rightarrow>
    (f32 list, 'a CommandParser_scheme) reading" where
  "GetFloatArray exprs expr = get_array exprs (ReadFloatValue expr)"

definition GetIntArray :: "u32 list expression \<Rightarrow> u32 expression \<Rightarrow> nat \<Rightarrow> 'a CommandParser_scheme \<Rightarrow>
    (u32 list, 'a CommandParser_scheme) reading" where
  "GetIntArray exprs expr = get_array exprs (ReadIValue expr)"

definition GetUnsignedArray :: "u32 list expression \<Rightarrow> u32 expression \<Rightarrow> nat \<Rightarrow> 'a CommandParser_scheme \<Rightarrow>
    (u32 list, 'a CommandParser_scheme) reading" where
  "GetUnsignedArray exprs expr = get_array exprs (ReadUIValue expr)"

section \<open>Reading strings\<close>

text \<open>
  The next character of a quoted string, given the one just read: \<open>Some None\<close> at its end. Quotes and
  apostrophes are doubled, and an apostrophe makes a letter lower case.
\<close>

definition quoted_char :: "char \<Rightarrow> char list \<Rightarrow> (char \<times> char list) option option" where
  "quoted_char c cs =
    (if c = CHR 0x22 then
       (case cs of [] \<Rightarrow> None | d # ds \<Rightarrow> if d \<noteq> c then Some None else Some (Some (c, ds)))
     else if c = CHR 0x27 then
       (case cs of [] \<Rightarrow> None | d # ds \<Rightarrow>
          if is_alpha d then Some (Some (tolower d, ds))
          else if d = c then Some (Some (c, ds)) else Some (Some (c, cs)))
     else Some (Some (c, cs)))"

lemma quoted_char_shorter: "quoted_char c cs = Some (Some (d, rest)) \<Longrightarrow> length rest \<le> length cs"
  by (auto simp: quoted_char_def split: if_splits list.splits)

function quoted_loop :: "char list \<Rightarrow> StringRef \<Rightarrow> ((string + unit) \<times> char list \<times> StringRef) option" where
  "quoted_loop [] str = None"
| "quoted_loop (c # cs) str =
    (if of_char c < (32 :: nat) then Some (Inl ''control character in string'', cs, str)
     else case quoted_char c cs of
       None \<Rightarrow> None
     | Some None \<Rightarrow> Some (Inr (), cs, str)
     | Some (Some (d, rest)) \<Rightarrow> Option.bind (sr_catc str d) (\<lambda>(full, str1).
         if full then Some (Inl ''string too long'', rest, str1) else quoted_loop rest str1))"
  by pat_completeness auto
termination by (relation "measure (\<lambda>(cs, _). length cs)") (auto dest: quoted_char_shorter)

text \<open>The parser and the string that is filled.\<close>

type_synonym 's string_reading = "((string + unit) \<times> 's \<times> StringRef) option"

text \<open>An expression that is appended to a string.\<close>

type_synonym string_expression = "char list \<Rightarrow> StringRef \<Rightarrow> string + (nat \<times> StringRef)"

definition InternalGetQuotedString :: "'a CommandParser_scheme \<Rightarrow> StringRef \<Rightarrow> 'a CommandParser_scheme string_reading" where
  "InternalGetQuotedString s str0 = Option.bind (Clear str0) (\<lambda>str.
     Option.bind (quoted_loop (tl (at_pointer s)) str) (\<lambda>(r, rest, str1).
       Some (r, s\<lparr>sp_readPointer := int (length (sp_buffer s) - length rest)\<rparr>, str1)))"

definition append_expression :: "string_expression \<Rightarrow> 'a CommandParser_scheme \<Rightarrow> StringRef \<Rightarrow>
    'a CommandParser_scheme string_reading" where
  "append_expression expr s str = Some (case expr (at_pointer s) str of
     Inl e \<Rightarrow> (Inl e, s, str)
   | Inr (n, str1) \<Rightarrow> (Inr (), s\<lparr>sp_readPointer := sp_readPointer s + int n\<rparr>, str1))"

definition check_empty :: "bool \<Rightarrow> 'a CommandParser_scheme string_reading \<Rightarrow> 'a CommandParser_scheme string_reading" where
  "check_empty allowEmpty m = Option.bind m (\<lambda>(r, s, str). Some
     (if r = Inr () \<and> \<not> allowEmpty \<and> content str = [] then Inl ''expected a non-empty string'' else r, s, str))"

definition GetQuotedString :: "string_expression \<Rightarrow> bool \<Rightarrow> 'a CommandParser_scheme \<Rightarrow> StringRef \<Rightarrow>
    'a CommandParser_scheme string_reading" where
  "GetQuotedString expr allowEmpty s str0 =
    (if sp_readPointer s \<le> 0 then Some (Inl ''internal error'', s, str0)
     else Option.bind (Clear str0) (\<lambda>str. Option.bind (peek (sp_buffer s) (nat (sp_readPointer s))) (\<lambda>c.
       check_empty allowEmpty
        (if c = CHR 0x22 then InternalGetQuotedString s str
         else if c = CHR ''{'' then append_expression expr s str
         else Some (Inl ''expected a string expression'', s, str)))))"

text \<open>The rest of the line, where overflow goes unnoticed.\<close>

fun unquoted_loop :: "char list \<Rightarrow> StringRef \<Rightarrow> (char list \<times> StringRef) option" where
  "unquoted_loop [] str = None"
| "unquoted_loop (c # cs) str =
    (if of_char c < (32 :: nat) then Some (cs, str)
     else Option.bind (sr_catc str c) (\<lambda>(_, str1). unquoted_loop cs str1))"

definition InternalGetPossiblyQuotedString :: "string_expression \<Rightarrow> 'a CommandParser_scheme \<Rightarrow> StringRef \<Rightarrow>
    'a CommandParser_scheme string_reading" where
  "InternalGetPossiblyQuotedString expr s str0 = Option.bind (Clear str0) (\<lambda>str.
     Option.bind (peek (sp_buffer s) (nat (sp_readPointer s))) (\<lambda>c.
       if c = CHR 0x22 then InternalGetQuotedString s str
       else if c = CHR ''{'' then append_expression expr s str
       else Option.bind (unquoted_loop (at_pointer s) str) (\<lambda>(rest, str1).
         Option.bind (StripTrailingSpaces str1) (\<lambda>(_, str2).
           Some (Inr (), s\<lparr>cp_commandEnd := sp_gcodeLineEnd s,
             sp_readPointer := int (length (sp_buffer s) - length rest)\<rparr>, str2)))))"

definition GetPossiblyQuotedString :: "string_expression \<Rightarrow> bool \<Rightarrow> 'a CommandParser_scheme \<Rightarrow> StringRef \<Rightarrow>
    'a CommandParser_scheme string_reading" where
  "GetPossiblyQuotedString expr allowEmpty s str =
    (if sp_readPointer s \<le> 0 then Some (Inl ''internal error'', s, str)
     else check_empty allowEmpty (InternalGetPossiblyQuotedString expr s str))"

definition GetUnprecedentedString :: "string_expression \<Rightarrow> bool \<Rightarrow> 'a CommandParser_scheme \<Rightarrow> StringRef \<Rightarrow>
    'a CommandParser_scheme string_reading" where
  "GetUnprecedentedString expr allowEmpty s str = check_empty allowEmpty
     (InternalGetPossiblyQuotedString expr (s\<lparr>sp_readPointer := int (cp_parameterStart s)\<rparr>) str)"

end
