(* ===== verification/GCodeBlocks.thy ===== *)
theory GCodeBlocks
  imports GCodeCommand
begin

text \<open>
  Blocks of conditional G-code: the meta commands \<open>if\<close>, \<open>elif\<close>, \<open>else\<close>, \<open>while\<close>, \<open>break\<close> and \<open>continue\<close> of
  \<open>GCodes/GCodeBuffer/StringParser.cpp\<close>, the stack of blocks of \<open>GCodes/GCodeMachineState.cpp\<close>, and the loop that
  reads a file line by line, \<open>DoFilePrint\<close> of \<open>GCodes/GCodes.cpp\<close>.

  What the evaluation of expressions, the other meta commands and the execution of ordinary commands do is
  a parameter: a change of a world of any type. \<open>None\<close> is a loop that does not end, or a write
  outside the buffer.
\<close>

section \<open>State\<close>

datatype BlockType = plainBlock | ifTrue | ifFalseNoneTrue | ifFalseHadTrue | loopBlock

record BlockState =
  bs_type :: BlockType
  bs_fpos :: nat
  bs_lineNumber :: u32
  bs_iterations :: u32
  bs_indent :: u16

text \<open>
  The parser with the part of its machine state that concerns blocks: the current block, the ones around it
  (innermost first), the position in the file of the next character, and whether the file is still being read.
\<close>

record 'w BlockParser = CommandParser +
  bp_block :: BlockState
  bp_outer :: "BlockState list"
  bp_indentToSkipTo :: u16
  bp_warned :: bool
  bp_position :: nat
  bp_fileOpen :: bool
  bp_world :: 'w

text \<open>
  The parameters. A condition is given the text after the command word and the number of iterations of the innermost
  loop; the other meta commands are given their word, the text after it, that number, and the
  depth of blocks, which they record with a new variable; leaving a block ends the scope of its variables.
\<close>

record 'w MetaEnv =
  me_condition :: "string \<Rightarrow> int \<Rightarrow> 'w \<Rightarrow> (string + bool) \<times> 'w"
  me_other :: "string \<Rightarrow> string \<Rightarrow> int \<Rightarrow> nat \<Rightarrow> 'w \<Rightarrow> (string + unit) \<times> 'w"
  me_abort :: "string \<Rightarrow> 'w \<Rightarrow> 'w"
  me_endScope :: "nat \<Rightarrow> 'w \<Rightarrow> 'w"
  me_warning :: "u32 \<Rightarrow> 'w \<Rightarrow> 'w"
  me_act :: "CommandParser \<Rightarrow> 'w \<Rightarrow> 'w"

definition NoIndentSkip :: u16 where "NoIndentSkip = 0xFFFF"

section \<open>The stack of blocks\<close>

definition SetLoopBlock :: "nat \<Rightarrow> u32 \<Rightarrow> BlockState \<Rightarrow> BlockState" where
  "SetLoopBlock filePos lineNum b = b\<lparr>bs_type := loopBlock, bs_fpos := filePos, bs_lineNumber := lineNum, bs_iterations := 0\<rparr>"

text \<open>\<open>SetPlainBlock\<close>, \<open>SetIfTrueBlock\<close>, \<open>SetIfFalseNoneTrueBlock\<close> and \<open>SetIfFalseHadTrueBlock\<close>.\<close>

definition SetBlock :: "BlockType \<Rightarrow> BlockState \<Rightarrow> BlockState" where
  "SetBlock t b = b\<lparr>bs_type := t, bs_iterations := 0\<rparr>"

abbreviation set_block :: "BlockType \<Rightarrow> ('w, 'a) BlockParser_scheme \<Rightarrow> ('w, 'a) BlockParser_scheme" where
  "set_block t s \<equiv> s\<lparr>bp_block := SetBlock t (bp_block s)\<rparr>"

definition GetIterations :: "('w, 'a) BlockParser_scheme \<Rightarrow> int" where
  "GetIterations s = (case find (\<lambda>b. bs_type b = loopBlock) (bp_block s # bp_outer s) of
     Some b \<Rightarrow> sint (bs_iterations b) | None \<Rightarrow> - 1)"

text \<open>The position, line number and iterations of a new block are not set; they are read only after \<open>SetLoopBlock\<close>.\<close>

definition CreateBlock :: "u16 \<Rightarrow> ('w, 'a) BlockParser_scheme \<Rightarrow> ('w, 'a) BlockParser_scheme" where
  "CreateBlock indentLevel s = s\<lparr>bp_outer := bp_block s # bp_outer s,
     bp_block := \<lparr>bs_type = plainBlock, bs_fpos = 0, bs_lineNumber = 0, bs_iterations = 0, bs_indent = indentLevel\<rparr>\<rparr>"

definition EndBlock :: "'w MetaEnv \<Rightarrow> ('w, 'a) BlockParser_scheme \<Rightarrow> ('w, 'a) BlockParser_scheme" where
  "EndBlock env s = (case bp_outer s of [] \<Rightarrow> s
     | b # bs \<Rightarrow> s\<lparr>bp_block := b, bp_outer := bs, bp_world := me_endScope env (length bs) (bp_world s)\<rparr>)"

abbreviation GetBlockIndent :: "('w, 'a) BlockParser_scheme \<Rightarrow> nat" where
  "GetBlockIndent s \<equiv> unat (bs_indent (bp_block s))"

abbreviation indent_of :: "('w, 'a) BlockParser_scheme \<Rightarrow> nat" where
  "indent_of s \<equiv> unat (sp_commandIndent s)"

section \<open>Positions in the file\<close>

definition GetFilePosition :: "('w, 'a) BlockParser_scheme \<Rightarrow> nat" where
  "GetFilePosition s = bp_position s - sp_commandLength s + sp_commandStart s"

definition RestartFrom :: "nat \<Rightarrow> ('w, 'a) BlockParser_scheme \<Rightarrow> ('w, 'a) BlockParser_scheme" where
  "RestartFrom pos s = sp_Init (s\<lparr>bp_position := pos\<rparr>)"

text \<open>Back to the line that started the loop of the current block.\<close>

definition restart_loop :: "('w, 'a) BlockParser_scheme \<Rightarrow> ('w, 'a) BlockParser_scheme" where
  "restart_loop s = RestartFrom (bs_fpos (bp_block s)) (s\<lparr>sp_lineNumber := bs_lineNumber (bp_block s)\<rparr>)"

section \<open>Before the command of a line\<close>

text \<open>
  Ending the blocks that are indented deeper than the line. The result says whether this came to a loop, which is then
  started again. The outermost block is not indented, or this would not end.
\<close>

function leave_blocks :: "'w MetaEnv \<Rightarrow> ('w, 'a) BlockParser_scheme \<Rightarrow> (bool \<times> ('w, 'a) BlockParser_scheme) option" where
  "leave_blocks env s =
    (if \<not> indent_of s < GetBlockIndent s then Some (False, s)
     else if bp_outer s = [] then None
     else let t = EndBlock env s in
       if bs_type (bp_block t) = loopBlock then Some (True, sp_Init (restart_loop t)) else leave_blocks env t)"
  by pat_completeness auto
termination
  by (relation "measure (\<lambda>(_, s). length (bp_outer s))") (auto simp: EndBlock_def split: list.splits)

declare leave_blocks.simps [simp del]

definition CheckForMixedSpacesAndTabs :: "'w MetaEnv \<Rightarrow> ('w, 'a) BlockParser_scheme \<Rightarrow> ('w, 'a) BlockParser_scheme" where
  "CheckForMixedSpacesAndTabs env s =
    (if sp_seenMetaCommand s \<and> \<not> bp_warned s \<and> sp_seenLeadingSpace s \<and> sp_seenLeadingTab s
     then s\<lparr>bp_world := me_warning env (sp_lineNumber s) (bp_world s), bp_warned := True\<rparr> else s)"

text \<open>
  Whether the line is skipped, the type of a block whose skipping has just ended, and the state.
\<close>

definition skip_block :: "('w, 'a) BlockParser_scheme \<Rightarrow> bool \<times> BlockType \<times> ('w, 'a) BlockParser_scheme" where
  "skip_block s =
    (let k = bp_indentToSkipTo s in
     if k = NoIndentSkip then (False, plainBlock, s)
     else if unat k < indent_of s then (True, plainBlock, sp_Init s)
     else if unat k = indent_of s
     then (False, bs_type (bp_block s), (set_block plainBlock s)\<lparr>bp_indentToSkipTo := NoIndentSkip\<rparr>)
     else (False, plainBlock, s\<lparr>bp_indentToSkipTo := NoIndentSkip\<rparr>))"

text \<open>A line that is not skipped leaves the deeper blocks, or opens a new one.\<close>

definition settle :: "'w MetaEnv \<Rightarrow> BlockType \<Rightarrow> ('w, 'a) BlockParser_scheme \<Rightarrow> (bool \<times> BlockType \<times> ('w, 'a) BlockParser_scheme) option" where
  "settle env skipped s = Option.bind (leave_blocks env s) (\<lambda>(again, t).
     if again then Some (True, skipped, t)
     else if GetBlockIndent t < indent_of t then Some (False, skipped, CreateBlock (ucast (sp_commandIndent t)) t)
     else Some (False, skipped, t))"

definition enter_line :: "'w MetaEnv \<Rightarrow> ('w, 'a) BlockParser_scheme \<Rightarrow> (bool \<times> BlockType \<times> ('w, 'a) BlockParser_scheme) option" where
  "enter_line env s0 =
    (let s1 = (if sp_commandIndent s0 = 0 then s0\<lparr>sp_seenLeadingSpace := False, sp_seenLeadingTab := False\<rparr>
               else CheckForMixedSpacesAndTabs env s0) in
     case skip_block s1 of (skipping, skipped, s2) \<Rightarrow> if skipping then Some (True, skipped, s2) else settle env skipped s2)"

section \<open>Meta commands\<close>

text \<open>What a meta command throws, or nothing, and the state after it.\<close>

type_synonym ('w, 'a) meta_result = "((string + unit) \<times> ('w, 'a) BlockParser_scheme) option"

abbreviation apostrophe :: string where "apostrophe \<equiv> [CHR 0x27]"

text \<open>The text of the line from a position on.\<close>

definition text_from :: "nat \<Rightarrow> ('w, 'a) BlockParser_scheme \<Rightarrow> string" where
  "text_from i s = content (drop i (sp_buffer s))"

text \<open>The condition after \<open>if\<close>, \<open>elif\<close> or \<open>while\<close>; it may be an error.\<close>

definition EvaluateCondition :: "'w MetaEnv \<Rightarrow> ('w, 'a) BlockParser_scheme \<Rightarrow> (string + bool) \<times> ('w, 'a) BlockParser_scheme" where
  "EvaluateCondition env s =
    (case me_condition env (text_from (nat (sp_readPointer s)) s) (GetIterations s) (bp_world s) of
       (r, w) \<Rightarrow> (r, s\<lparr>bp_world := w\<rparr>))"

definition branch_on :: "'w MetaEnv \<Rightarrow> (bool \<Rightarrow> ('w, 'a) BlockParser_scheme \<Rightarrow> ('w, 'a) BlockParser_scheme) \<Rightarrow>
    ('w, 'a) BlockParser_scheme \<Rightarrow> ('w, 'a) meta_result" where
  "branch_on env f s = Some (case EvaluateCondition env s of
     (Inl e, t) \<Rightarrow> (Inl e, t) | (Inr b, t) \<Rightarrow> (Inr (), f b t))"

definition skip_this_block :: "('w, 'a) BlockParser_scheme \<Rightarrow> ('w, 'a) BlockParser_scheme" where
  "skip_this_block s = s\<lparr>bp_indentToSkipTo := bs_indent (bp_block s)\<rparr>"

definition ProcessIfCommand :: "'w MetaEnv \<Rightarrow> ('w, 'a) BlockParser_scheme \<Rightarrow> ('w, 'a) meta_result" where
  "ProcessIfCommand env = branch_on env (\<lambda>b s.
     if b then set_block ifTrue s else skip_this_block (set_block ifFalseNoneTrue s))"

definition ProcessElseCommand :: "BlockType \<Rightarrow> ('w, 'a) BlockParser_scheme \<Rightarrow> ('w, 'a) meta_result" where
  "ProcessElseCommand skippedBlockType s = Some
    (if dropWhile white (text_from (nat (sp_readPointer s)) s) \<noteq> []
     then (Inl (''unexpected characters after '' @ apostrophe @ ''else'' @ apostrophe), s)
     else if skippedBlockType = ifFalseNoneTrue then (Inr (), set_block plainBlock s)
     else if skippedBlockType = ifFalseHadTrue \<or> bs_type (bp_block s) = ifTrue
     then (Inr (), set_block plainBlock (skip_this_block s))
     else (Inl (apostrophe @ ''else'' @ apostrophe @ '' did not follow '' @ apostrophe @ ''if'' @ apostrophe), s))"

definition ProcessElifCommand :: "'w MetaEnv \<Rightarrow> BlockType \<Rightarrow> ('w, 'a) BlockParser_scheme \<Rightarrow> ('w, 'a) meta_result" where
  "ProcessElifCommand env skippedBlockType s =
    (if skippedBlockType = ifFalseNoneTrue
     then branch_on env (\<lambda>b s. if b then set_block ifTrue s else set_block ifFalseNoneTrue (skip_this_block s)) s
     else if skippedBlockType = ifFalseHadTrue \<or> bs_type (bp_block s) = ifTrue
     then Some (Inr (), set_block ifFalseHadTrue (skip_this_block s))
     else Some (Inl (apostrophe @ ''elif'' @ apostrophe @ '' did not follow '' @ apostrophe @ ''if''), s))"

definition ProcessWhileCommand :: "'w MetaEnv \<Rightarrow> ('w, 'a) BlockParser_scheme \<Rightarrow> ('w, 'a) meta_result" where
  "ProcessWhileCommand env s = branch_on env (\<lambda>b s. if b then s else skip_this_block (set_block plainBlock s))
    (if bs_type (bp_block s) = loopBlock
     then s\<lparr>bp_block := (bp_block s)\<lparr>bs_iterations := bs_iterations (bp_block s) + 1\<rparr>\<rparr>
     else s\<lparr>bp_block := SetLoopBlock (GetFilePosition s) (sp_lineNumber s - 1) (bp_block s)\<rparr>)"

text \<open>Ending blocks up to the innermost loop.\<close>

function leave_to_loop :: "'w MetaEnv \<Rightarrow> string \<Rightarrow> ('w, 'a) BlockParser_scheme \<Rightarrow> ('w, 'a) meta_result" where
  "leave_to_loop env word s =
    (if GetBlockIndent s = 0 then Some (Inl (apostrophe @ word @ apostrophe @ '' was not inside a loop''), s)
     else if bp_outer s = [] then None
     else let t = EndBlock env s in
       if bs_type (bp_block t) \<noteq> loopBlock then leave_to_loop env word t else Some (Inr (), t))"
  by pat_completeness auto
termination
  by (relation "measure (\<lambda>(_, _, s). length (bp_outer s))") (auto simp: EndBlock_def split: list.splits)

declare leave_to_loop.simps [simp del]

definition ProcessBreakCommand :: "'w MetaEnv \<Rightarrow> ('w, 'a) BlockParser_scheme \<Rightarrow> ('w, 'a) meta_result" where
  "ProcessBreakCommand env s = map_option (\<lambda>(r, t). case r of
       Inl e \<Rightarrow> (Inl e, t) | Inr u \<Rightarrow> (Inr u, skip_this_block (set_block plainBlock t)))
     (leave_to_loop env ''break'' s)"

definition ProcessContinueCommand :: "'w MetaEnv \<Rightarrow> ('w, 'a) BlockParser_scheme \<Rightarrow> ('w, 'a) meta_result" where
  "ProcessContinueCommand env s = map_option (\<lambda>(r, t). case r of
       Inl e \<Rightarrow> (Inl e, t) | Inr u \<Rightarrow> (Inr u, restart_loop t))
     (leave_to_loop env ''continue'' s)"

text \<open>\<open>var\<close>, \<open>global\<close>, \<open>set\<close> and \<open>echo\<close>.\<close>

definition other_command :: "'w MetaEnv \<Rightarrow> string \<Rightarrow> ('w, 'a) BlockParser_scheme \<Rightarrow> ('w, 'a) meta_result" where
  "other_command env word s = Some
    (case me_other env word (text_from (nat (sp_readPointer s)) s) (GetIterations s) (length (bp_outer s)) (bp_world s) of
       (r, w) \<Rightarrow> (r, s\<lparr>bp_world := w\<rparr>))"

text \<open>\<open>abort\<close> gives up the file.\<close>

definition ProcessAbortCommand :: "'w MetaEnv \<Rightarrow> ('w, 'a) BlockParser_scheme \<Rightarrow> ('w, 'a) meta_result" where
  "ProcessAbortCommand env s = Some (Inr (), s\<lparr>bp_fileOpen := False,
     bp_world := me_abort env (text_from (nat (sp_readPointer s)) s) (bp_world s)\<rparr>)"

text \<open>The word at the start of the line: at least two and less than nine small letters, with an end that may follow a word.\<close>

definition is_lower :: "char \<Rightarrow> bool" where
  "is_lower c \<longleftrightarrow> 97 \<le> (of_char c :: nat) \<and> (of_char c :: nat) \<le> 122"

definition command_word :: "char list \<Rightarrow> string option" where
  "command_word buf =
    (let word = takeWhile is_lower (take 9 buf); i = length word in
     if 2 \<le> i \<and> i < 9 \<and> buf ! i \<in> {NUL, CHR '' '', CHR 0x09, CHR ''{'', CHR 0x22, CHR ''(''} then Some word else None)"

definition process_word :: "bool \<Rightarrow> 'w MetaEnv \<Rightarrow> BlockType \<Rightarrow> string \<Rightarrow> ('w, 'a) BlockParser_scheme \<Rightarrow>
    ('w, 'a) meta_result option" where
  "process_word doingFile env skipped word s =
    (if doingFile \<and> word = ''if'' then Some (ProcessIfCommand env s)
     else if word = ''var'' \<or> word = ''set'' \<or> word = ''echo'' then Some (other_command env word s)
     else if word = ''skip'' then Some (Some (Inr (), s))
     else if doingFile \<and> word = ''else'' then Some (ProcessElseCommand skipped s)
     else if doingFile \<and> word = ''elif'' then Some (ProcessElifCommand env skipped s)
     else if doingFile \<and> word = ''while'' then Some (ProcessWhileCommand env s)
     else if doingFile \<and> word = ''break'' then Some (ProcessBreakCommand env s)
     else if doingFile \<and> word = ''abort'' then Some (ProcessAbortCommand env s)
     else if word = ''global'' then Some (other_command env word s)
     else if doingFile \<and> word = ''continue'' then Some (ProcessContinueCommand env s)
     else None)"

text \<open>Whether there was a meta command, or what it threw.\<close>

definition ProcessConditionalGCode :: "'w MetaEnv \<Rightarrow> BlockType \<Rightarrow> bool \<Rightarrow> ('w, 'a) BlockParser_scheme \<Rightarrow>
    ((string + bool) \<times> ('w, 'a) BlockParser_scheme) option" where
  "ProcessConditionalGCode env skipped doingFile s =
    (let none = Some (Inr False, s\<lparr>sp_readPointer := - 1\<rparr>) in
     case command_word (sp_buffer s) of None \<Rightarrow> none
     | Some word \<Rightarrow>
         (case process_word doingFile env skipped word (s\<lparr>sp_readPointer := int (length word)\<rparr>) of None \<Rightarrow> none
          | Some m \<Rightarrow> map_option (apfst (map_sum id (\<lambda>_. True))) m))"

definition CheckMetaCommand :: "LineEnv \<Rightarrow> 'w MetaEnv \<Rightarrow> ('w, 'a) BlockParser_scheme \<Rightarrow>
    ((string + bool) \<times> ('w, 'a) BlockParser_scheme) option" where
  "CheckMetaCommand lenv env s0 =
    (if sp_buffer s0 ! 0 = CHR '';'' then Some (Inr False, s0)
     else if sp_overflowed s0 then Some (Inl ''GCode command too long'', s0)
     else Option.bind (if le_isDoingFile lenv then enter_line env s0 else Some (False, plainBlock, s0)) (\<lambda>(done, skipped, s).
       if done then Some (Inr True, s)
       else Option.bind (ProcessConditionalGCode env skipped (le_isDoingFile lenv) (s\<lparr>cp_commandLetter := CHR ''E''\<rparr>)) (\<lambda>(r, t).
         Some (case r of
           Inl e \<Rightarrow> (Inl e, t)
         | Inr True \<Rightarrow>
             (let u = t\<lparr>sp_seenMetaCommand := True, cp_commandEnd := sp_gcodeLineEnd t\<rparr> in
              (Inr True, sp_Init (if le_isDoingFile lenv then CheckForMixedSpacesAndTabs env u else u)))
         | Inr False \<Rightarrow> (Inr False, t\<lparr>cp_commandLetter := cp_commandLetter s\<rparr>)))))"

section \<open>Files\<close>

definition StartNewFile :: "('w, 'a) BlockParser_scheme \<Rightarrow> ('w, 'a) BlockParser_scheme" where
  "StartNewFile s = s\<lparr>sp_seenLeadingSpace := False, sp_seenLeadingTab := False, sp_seenMetaCommand := False, bp_warned := False\<rparr>"

definition ResetIndentationAfterPop :: "('w, 'a) BlockParser_scheme \<Rightarrow> ('w, 'a) BlockParser_scheme" where
  "ResetIndentationAfterPop s =
    (if bp_indentToSkipTo s \<noteq> NoIndentSkip
     then s\<lparr>bp_indentToSkipTo := if GetBlockIndent s > 0 then bs_indent (bp_block s) else NoIndentSkip\<rparr> else s)"

text \<open>A whole command and its terminator, whatever they complete.\<close>

fun feed_string :: "LineEnv \<Rightarrow> char list \<Rightarrow> 'a StringParser_scheme \<Rightarrow> 'a StringParser_scheme option" where
  "feed_string env [] s = Some s"
| "feed_string env (c # cs) s = Option.bind (Put env c s) (\<lambda>(_, t). feed_string env cs t)"

definition PutCommand :: "LineEnv \<Rightarrow> string \<Rightarrow> 'a StringParser_scheme \<Rightarrow> 'a StringParser_scheme option" where
  "PutCommand env str s = feed_string env (str @ [NUL]) s"

text \<open>At the end of a file that is not being copied to another.\<close>

definition FileEnded :: "LineEnv \<Rightarrow> ('w, 'a) BlockParser_scheme \<Rightarrow> (bool \<times> ('w, 'a) BlockParser_scheme) option" where
  "FileEnded lenv s =
    (if sp_gcodeLineEnd s \<noteq> 0 then map_option (\<lambda>(_, t). (True, t)) (Put lenv CHR 0x0A s)
     else if GetIterations s \<ge> 0 then map_option (Pair True) (PutCommand lenv ''skip'' (sp_Init s))
     else Some (False, s))"

text \<open>The commands of an ordinary line, executed one after another.\<close>

fun run_commands :: "CommandEnv \<Rightarrow> 'w MetaEnv \<Rightarrow> nat \<Rightarrow> ('w, 'a) BlockParser_scheme \<Rightarrow> ('w, 'a) BlockParser_scheme option" where
  "run_commands cenv env 0 s = None"
| "run_commands cenv env (Suc fuel) s =
    (if sp_bufferState s \<noteq> ready then Some s
     else Option.bind (SetFinished cenv (s\<lparr>bp_world := me_act env (CommandParser.truncate s) (bp_world s)\<rparr>))
       (run_commands cenv env fuel))"

datatype FileOutcome = Running | Finished | Failed string

text \<open>A complete line: a meta command, or else decoded and executed. There are at most as many commands as characters.\<close>

definition do_line :: "LineEnv \<Rightarrow> CommandEnv \<Rightarrow> 'w MetaEnv \<Rightarrow> ('w, 'a) BlockParser_scheme \<Rightarrow>
    (FileOutcome \<times> ('w, 'a) BlockParser_scheme) option" where
  "do_line lenv cenv env s = Option.bind (CheckMetaCommand lenv env s) (\<lambda>(r, t). case r of
       Inl e \<Rightarrow> Some (Failed e, sp_Init t)
     | Inr True \<Rightarrow> Some (if bp_fileOpen t then Running else Finished, t)
     | Inr False \<Rightarrow> map_option (Pair Running) (Option.bind (DecodeCommand cenv t) (run_commands cenv env (sp_gcodeLineEnd t + 1))))"

text \<open>One turn of \<open>DoFilePrint\<close>: the next line of the file, or its end.\<close>

definition file_step :: "LineEnv \<Rightarrow> CommandEnv \<Rightarrow> 'w MetaEnv \<Rightarrow> string \<Rightarrow> ('w, 'a) BlockParser_scheme \<Rightarrow>
    (FileOutcome \<times> ('w, 'a) BlockParser_scheme) option" where
  "file_step lenv cenv env file s = Option.bind (Put_all lenv (drop (bp_position s) file) s) (\<lambda>(done, rest, t0).
     let t = t0\<lparr>bp_position := length file - length rest\<rparr> in
     if done then do_line lenv cenv env t
     else Option.bind (FileEnded lenv t) (\<lambda>(waiting, u).
       if waiting then do_line lenv cenv env u else Some (Finished, u)))"

fun file_run :: "LineEnv \<Rightarrow> CommandEnv \<Rightarrow> 'w MetaEnv \<Rightarrow> string \<Rightarrow> nat \<Rightarrow> ('w, 'a) BlockParser_scheme \<Rightarrow>
    (FileOutcome \<times> ('w, 'a) BlockParser_scheme) option" where
  "file_run lenv cenv env file 0 s = Some (Running, s)"
| "file_run lenv cenv env file (Suc n) s = Option.bind (file_step lenv cenv env file s) (\<lambda>(outcome, t).
     if outcome = Running then file_run lenv cenv env file n t else Some (outcome, t))"

end
