(* ===== verification/GCodeLineProps.thy ===== *)
theory GCodeLineProps
  imports GCodeLine CrcProps
begin

text \<open>
  Lines of G-code as they are received. No input writes outside the buffer, a numbered line is delivered exactly when
  its checksum is right, a line that was hit by noise is dropped, and the line after it is received as if
  nothing had happened.
\<close>

section \<open>The buffer\<close>

definition line_wf :: "'a StringParser_scheme \<Rightarrow> bool" where
  "line_wf s \<longleftrightarrow> length (sp_buffer s) = MaxGCodeLength \<and> sp_gcodeLineEnd s < MaxGCodeLength"

lemma AddToChecksum_frame [simp]:
  "sp_buffer (AddToChecksum c s) = sp_buffer s" "sp_gcodeLineEnd (AddToChecksum c s) = sp_gcodeLineEnd s"
  "sp_bufferState (AddToChecksum c s) = sp_bufferState s" "sp_braceCount (AddToChecksum c s) = sp_braceCount s"
  "sp_commandIndent (AddToChecksum c s) = sp_commandIndent s" "sp_hadLineNumber (AddToChecksum c s) = sp_hadLineNumber s"
  "sp_receivedLineNumber (AddToChecksum c s) = sp_receivedLineNumber s" "sp_hadChecksum (AddToChecksum c s) = sp_hadChecksum s"
  "sp_overflowed (AddToChecksum c s) = sp_overflowed s" "sp_crcRequired (AddToChecksum c s) = sp_crcRequired s"
  by (simp_all add: AddToChecksum_def)

lemma line_wf_AddToChecksum [simp]: "line_wf (AddToChecksum c s) = line_wf s"
  by (simp add: line_wf_def)

text \<open>A result that is there and has a property.\<close>

definition yields :: "('b \<Rightarrow> bool) \<Rightarrow> 'b option \<Rightarrow> bool" where
  "yields P m = (case m of None \<Rightarrow> False | Some x \<Rightarrow> P x)"

lemma yields_simps [simp]:
  "yields P None = False" "yields P (Some x) = P x"
  "yields P (map_option f m) = yields (\<lambda>x. P (f x)) m"
  "yields P (Option.bind m g) = yields (\<lambda>x. yields P (g x)) m"
  by (cases m; simp add: yields_def)+

lemma yields_mono: "yields P m \<Longrightarrow> (\<And>x. P x \<Longrightarrow> Q x) \<Longrightarrow> yields Q m"
  by (cases m) simp_all

lemma yieldsE: "yields P m \<Longrightarrow> (\<And>x. m = Some x \<Longrightarrow> P x \<Longrightarrow> thesis) \<Longrightarrow> thesis"
  by (cases m) simp_all

lemma line_wf_updates [simp]:
  "line_wf (s\<lparr>sp_bufferState := b\<rparr>) = line_wf s" "line_wf (s\<lparr>sp_braceCount := n\<rparr>) = line_wf s"
  "line_wf (s\<lparr>sp_commandLength := n\<rparr>) = line_wf s" "line_wf (s\<lparr>sp_lineNumber := l\<rparr>) = line_wf s"
  "line_wf (s\<lparr>sp_commandStart := n\<rparr>) = line_wf s" "line_wf (s\<lparr>sp_seenExpression := x\<rparr>) = line_wf s"
  "line_wf (s\<lparr>sp_hadLineNumber := x\<rparr>) = line_wf s" "line_wf (s\<lparr>sp_crc16 := k\<rparr>) = line_wf s"
  "line_wf (s\<lparr>sp_receivedLineNumber := l\<rparr>) = line_wf s" "line_wf (s\<lparr>sp_commandIndent := i\<rparr>) = line_wf s"
  "line_wf (s\<lparr>sp_seenLeadingSpace := x\<rparr>) = line_wf s" "line_wf (s\<lparr>sp_seenLeadingTab := x\<rparr>) = line_wf s"
  "line_wf (s\<lparr>sp_declaredChecksum := l\<rparr>) = line_wf s" "line_wf (s\<lparr>sp_hadChecksum := x\<rparr>) = line_wf s"
  "line_wf (s\<lparr>sp_checksumCharsReceived := i\<rparr>) = line_wf s" "line_wf (s\<lparr>sp_overflowed := x\<rparr>) = line_wf s"
  by (simp_all add: line_wf_def)

lemma Store_total [simp]: "line_wf s \<Longrightarrow> yields line_wf (StoreAndAddToChecksum c s)"
  by (auto simp: StoreAndAddToChecksum_def Let_def poke_def line_wf_def)

lemma put_step_total: "line_wf s \<Longrightarrow> yields (\<lambda>r. line_wf (snd r)) (put_step cnc c s)"
  by (cases "sp_bufferState s")
    (auto simp: put_step_def put_start_def put_line_number_def put_whitespace_def put_gcode_def put_bracketed_def
      put_quoted_def put_checksum_def Let_def intro: yields_mono [OF Store_total])

lemma put_loop_total [simp]: "line_wf s \<Longrightarrow> yields line_wf (put_loop cnc c s)"
proof (induction cnc c s rule: put_loop.induct)
  case (1 cnc c s)
  obtain a t where t: "put_step cnc c s = Some (a, t)" "line_wf t"
    using put_step_total [OF "1.prems", of cnc c] by (auto elim: yieldsE)
  then show ?case using "1.IH" [OF t(1) refl] by (subst put_loop.simps) (cases a; simp)
qed

lemma line_wf_Init [simp]: "line_wf s \<Longrightarrow> line_wf (sp_Init s)"
  by (simp add: line_wf_def sp_Init_def)

lemma LineFinished_total [simp]: "line_wf s \<Longrightarrow> yields (\<lambda>r. line_wf (snd r)) (LineFinished env s)"
  by (simp add: LineFinished_def Let_def poke_def) (simp add: line_wf_def sp_Init_def)

lemma Put_total: "line_wf s \<Longrightarrow> yields (\<lambda>r. line_wf (snd r)) (Put env c s)"
proof -
  assume wf: "line_wf s"
  have "line_wf (t\<lparr>sp_gcodeLineEnd := 0, sp_bufferState := discarding\<rparr>)" if "line_wf t" for t :: "'a StringParser_scheme"
    using that by (simp add: line_wf_def)
  then show ?thesis using wf by (simp add: Put_def Let_def)
qed

lemma Put_all_total_raw: "line_wf s \<Longrightarrow> yields (\<lambda>(_, _, t). line_wf t) (Put_all env cs s)"
proof (induction cs arbitrary: s)
  case (Cons c cs)
  obtain d t where t: "Put env c s = Some (d, t)" "line_wf t"
    using Put_total [OF Cons.prems, of env c] by (auto elim: yieldsE)
  then show ?case using Cons.IH [OF t(2)] by (cases d) simp_all
qed simp

text \<open>A line that is delivered is not empty and has its terminator.\<close>

definition terminated :: "'a StringParser_scheme \<Rightarrow> bool" where
  "terminated s \<longleftrightarrow> 0 < sp_gcodeLineEnd s \<and> sp_buffer s ! sp_gcodeLineEnd s = NUL \<and> sp_commandStart s = 0"

lemma Put_delivers: "line_wf s \<Longrightarrow> yields (\<lambda>(ok, t). ok \<longrightarrow> terminated t) (Put env c s)"
proof -
  assume wf: "line_wf s"
  have finished: "terminated t" if "LineFinished env u = Some (True, t)" "line_wf u" for t u :: "'a StringParser_scheme"
    using that by (auto simp: LineFinished_def Let_def poke_def line_wf_def terminated_def split: if_splits)
  obtain d t where t: "Put env c s = Some (d, t)" using Put_total [OF wf, of env c] by (auto elim!: yieldsE)
  moreover have "terminated t" if "d"
  proof (rule finished)
    let ?u = "if c \<noteq> NUL then s\<lparr>sp_commandLength := sp_commandLength s + 1\<rparr> else s"
    show "LineFinished env ?u = Some (True, t)" using t that by (auto simp: Put_def Let_def split: if_splits)
    show "line_wf ?u" using wf by simp
  qed
  ultimately show ?thesis by simp
qed

text \<open>
  C34. Whatever is received, the line parser keeps inside its buffer, however long the line is; and a line that it delivers is not
  empty, begins at the start of the buffer and has its terminator inside it.
\<close>

lemma Put_all_total:
  "line_wf s \<Longrightarrow> yields (\<lambda>(ok, _, t). line_wf t \<and> (ok \<longrightarrow> terminated t)) (Put_all env cs s)"
proof (induction cs arbitrary: s)
  case (Cons c cs)
  obtain d t where t: "Put env c s = Some (d, t)" "line_wf t" "d \<longrightarrow> terminated t"
    using Put_total [OF Cons.prems, of env c] Put_delivers [OF Cons.prems, of env c] by (auto elim!: yieldsE)
  then show ?case using Cons.IH [OF t(2)] by (cases d) simp_all
qed simp

section \<open>Numbered lines\<close>

definition xor_sum :: "string \<Rightarrow> u8" where
  "xor_sum t = foldl (XOR) 0 (map char_byte t)"

definition crc_sum :: "string \<Rightarrow> u16" where
  "crc_sum t = CRC16_Update 0 (map char_byte t)"

lemma sum_simps [simp]:
  "xor_sum [] = 0" "xor_sum (t @ [c]) = xor_sum t XOR char_byte c"
  "crc_sum [] = 0" "crc_sum (t @ [c]) = UpdateNormal crc16_xmodem_table (crc_sum t) (char_byte c)"
  by (simp_all add: xor_sum_def crc_sum_def CRC16_Update_def UpdateNormal_bytes)

text \<open>Ready for a new line.\<close>

definition fresh :: "'a StringParser_scheme \<Rightarrow> bool" where
  "fresh s \<longleftrightarrow> line_wf s \<and> sp_bufferState s = parseNotStarted \<and> sp_gcodeLineEnd s = 0 \<and> \<not> sp_hadLineNumber s
     \<and> \<not> sp_hadChecksum s \<and> \<not> sp_overflowed s \<and> sp_computedChecksum s = 0 \<and> sp_commandIndent s = 0"

lemma fresh_Init: "line_wf s \<Longrightarrow> fresh (sp_Init s)"
  by (simp add: fresh_def line_wf_def sp_Init_def)

text \<open>In the middle of a numbered line: what has been received of it, and what of that is in the buffer.\<close>

definition numbered :: "GCodeBufferState \<Rightarrow> string \<Rightarrow> string \<Rightarrow> u32 \<Rightarrow> bool \<Rightarrow> 'a StringParser_scheme \<Rightarrow> bool" where
  "numbered st line body n crc s \<longleftrightarrow> line_wf s \<and> sp_bufferState s = st \<and> sp_hadLineNumber s \<and> \<not> sp_hadChecksum s
     \<and> \<not> sp_overflowed s \<and> sp_braceCount s = 0 \<and> sp_receivedLineNumber s = n \<and> sp_crcRequired s = crc
     \<and> sp_computedChecksum s = xor_sum line \<and> sp_crc16 s = crc_sum line
     \<and> sp_gcodeLineEnd s = length body \<and> take (length body) (sp_buffer s) = body"

definition blank :: "char \<Rightarrow> bool" where
  "blank c \<longleftrightarrow> c = CHR '' '' \<or> c = CHR 0x09"

text \<open>Characters that mean nothing to the line parser.\<close>

definition plain :: "char \<Rightarrow> bool" where
  "plain c \<longleftrightarrow> c \<notin> {NUL, CHR 0x0A, CHR 0x0D, CHR 0x7F, CHR 0x22} \<and> c \<notin> set ''*;({}''"

lemma Put_ordinary:
  assumes "c \<notin> {NUL, CHR 0x0A, CHR 0x0D, CHR 0x7F}"
  shows "Put env c s = map_option (Pair False) (put_loop (le_cnc env) c (s\<lparr>sp_commandLength := sp_commandLength s + 1\<rparr>))"
  using assms by (simp add: Put_def Let_def)

lemma digit_ordinary: "is_digit c \<Longrightarrow> c \<notin> {NUL, CHR 0x0A, CHR 0x0D, CHR 0x7F}" "is_digit c \<Longrightarrow> \<not> blank c"
  by (auto simp: is_digit_def blank_def)

lemma plain_ordinary: "plain c \<Longrightarrow> c \<notin> {NUL, CHR 0x0A, CHR 0x0D, CHR 0x7F}" "blank c \<Longrightarrow> plain c"
  by (auto simp: plain_def blank_def)

lemma Put_N:
  assumes "fresh s" "c = CHR ''N'' \<or> c = CHR ''n''"
  shows "yields (\<lambda>(d, t). \<not> d \<and> numbered parsingLineNumber [c] [] 0 (sp_crcRequired s) t) (Put env c s)"
proof -
  have "c \<notin> {NUL, CHR 0x0A, CHR 0x0D, CHR 0x7F}" using assms(2) by auto
  moreover have "xor_sum [c] = char_byte c" "crc_sum [c] = UpdateNormal crc16_xmodem_table 0 (char_byte c)"
    using sum_simps(2,4) [of "[]" c] by simp_all
  ultimately show ?thesis using assms
    by (auto simp: Put_ordinary put_loop.simps put_step_def put_start_def Let_def fresh_def numbered_def
        line_wf_def AddToChecksum_def)
qed

lemma Put_number_digit:
  assumes "numbered parsingLineNumber line [] n r s" "is_digit c"
  shows "yields (\<lambda>(d, t). \<not> d \<and> numbered parsingLineNumber (line @ [c]) [] (10 * n + of_nat (digit_value c)) r t) (Put env c s)"
  using assms digit_ordinary(1) [OF assms(2)]
  by (auto simp: Put_ordinary put_loop.simps put_step_def put_line_number_def numbered_def line_wf_def AddToChecksum_def)

lemma Put_blank:
  assumes "numbered st line [] n r s" "st = parsingLineNumber \<or> st = parsingWhitespace" "blank c"
  shows "yields (\<lambda>(d, t). \<not> d \<and> numbered parsingWhitespace (line @ [c]) [] n r t) (Put env c s)"
proof -
  have c: "\<not> is_digit c" using digit_ordinary(2) assms(3) by blast
  have o: "c \<notin> {NUL, CHR 0x0A, CHR 0x0D, CHR 0x7F}" using plain_ordinary assms(3) by blast
  have ws: "yields (\<lambda>t. numbered parsingWhitespace (line @ [c]) [] n r t) (put_loop cnc c t)"
    if "numbered parsingWhitespace line [] n r t" for cnc and t :: "'a StringParser_scheme"
    using that assms(3)
    by (subst put_loop.simps) (auto simp: put_step_def put_whitespace_def numbered_def line_wf_def AddToChecksum_def blank_def)
  let ?s = "s\<lparr>sp_commandLength := sp_commandLength s + 1\<rparr>"
  have "yields (\<lambda>t. numbered parsingWhitespace (line @ [c]) [] n r t) (put_loop cnc c ?s)" for cnc
  proof (cases "st = parsingWhitespace")
    case True
    then show ?thesis using assms(1) by (intro ws) (simp add: numbered_def)
  next
    case False
    then have "put_loop cnc c ?s = put_loop cnc c (?s\<lparr>sp_bufferState := parsingWhitespace\<rparr>)"
      using assms(1,2) c by (subst put_loop.simps) (simp add: put_step_def put_line_number_def numbered_def)
    then show ?thesis using assms(1) ws [of "?s\<lparr>sp_bufferState := parsingWhitespace\<rparr>"] by (simp add: numbered_def)
  qed
  then show ?thesis using o by (simp add: Put_ordinary)
qed

lemma plain_step:
  assumes "numbered parsingGCode line body n r s" "plain c" "length body < MaxGCodeLength - 1"
  shows "yields (\<lambda>t. numbered parsingGCode (line @ [c]) (body @ [c]) n r t) (put_loop cnc c s)"
proof -
  have "put_gcode cnc c s = StoreAndAddToChecksum c s"
    using assms(2) by (simp add: put_gcode_def plain_def)
  moreover have "take (Suc (length body)) ((sp_buffer s)[length body := c]) = body @ [c]"
    using assms(1,3) by (simp add: take_Suc_conv_app_nth numbered_def line_wf_def)
  ultimately show ?thesis using assms(1,3)
    by (subst put_loop.simps)
      (auto simp: put_step_def StoreAndAddToChecksum_def Let_def poke_def numbered_def line_wf_def AddToChecksum_def)
qed

lemma Put_plain:
  assumes "numbered parsingGCode line body n r s" "plain c" "length body < MaxGCodeLength - 1"
  shows "yields (\<lambda>(d, t). \<not> d \<and> numbered parsingGCode (line @ [c]) (body @ [c]) n r t) (Put env c s)"
proof -
  have "numbered parsingGCode line body n r (s\<lparr>sp_commandLength := sp_commandLength s + 1\<rparr>)"
    using assms(1) by (simp add: numbered_def)
  from plain_step [OF this assms(2,3)] show ?thesis using plain_ordinary(1) [OF assms(2)] by (simp add: Put_ordinary)
qed

text \<open>The first character of the command.\<close>

lemma Put_first:
  assumes "numbered st line [] n r s" "plain c" "\<not> blank c"
    and "st = parsingWhitespace \<or> st = parsingLineNumber \<and> \<not> is_digit c"
  shows "yields (\<lambda>(d, t). \<not> d \<and> numbered parsingGCode (line @ [c]) [c] n r t) (Put env c s)"
proof -
  let ?s = "s\<lparr>sp_commandLength := sp_commandLength s + 1\<rparr>"
  let ?w = "?s\<lparr>sp_bufferState := parsingWhitespace\<rparr>"
  let ?g = "?s\<lparr>sp_bufferState := parsingGCode, sp_commandStart := 0\<rparr>"
  have w: "put_loop cnc c ?w = put_loop cnc c ?g" for cnc
    using assms(3) by (subst put_loop.simps) (simp add: put_step_def put_whitespace_def blank_def)
  have "put_loop cnc c ?s = put_loop cnc c ?w" for cnc
  proof (cases "st = parsingWhitespace")
    case True
    then have "?s = ?w" using assms(1) by (simp add: numbered_def)
    then show ?thesis by simp
  next
    case False
    then show ?thesis using assms(1,4)
      by (subst put_loop.simps) (simp add: put_step_def put_line_number_def numbered_def)
  qed
  moreover have "numbered parsingGCode line [] n r ?g" using assms(1) by (simp add: numbered_def)
  from plain_step [OF this assms(2)] have "yields (\<lambda>t. numbered parsingGCode (line @ [c]) [c] n r t) (put_loop cnc c ?g)" for cnc
    by (simp add: MaxGCodeLength_def)
  ultimately show ?thesis using w plain_ordinary(1) [OF assms(2)] by (simp add: Put_ordinary)
qed

text \<open>Several characters, none of which completes the line.\<close>

lemma Put_all_append:
  "Put_all env (a @ b) s = Option.bind (Put_all env a s) (\<lambda>(d, r, t). if d then Some (True, r @ b, t) else Put_all env b t)"
  by (induction a arbitrary: s) (auto simp: split_beta' intro!: bind_option_cong split: Option.bind_splits)

definition feeds :: "LineEnv \<Rightarrow> char list \<Rightarrow> 'a StringParser_scheme \<Rightarrow> ('a StringParser_scheme \<Rightarrow> bool) \<Rightarrow> bool" where
  "feeds env cs s P \<longleftrightarrow> yields (\<lambda>(d, _, t). \<not> d \<and> P t) (Put_all env cs s)"

lemma feeds_Nil [simp]: "feeds env [] s P = P s"
  by (simp add: feeds_def)

lemma feeds_Cons: "yields (\<lambda>(d, t). \<not> d \<and> feeds env cs t P) (Put env c s) \<Longrightarrow> feeds env (c # cs) s P"
  by (cases "Put env c s") (auto simp: feeds_def)

lemma feeds_step: "yields (\<lambda>(d, t). \<not> d \<and> Q t) (Put env c s) \<Longrightarrow> (\<And>t. Q t \<Longrightarrow> feeds env cs t P) \<Longrightarrow> feeds env (c # cs) s P"
  by (cases "Put env c s") (auto simp: feeds_def)

lemma feeds_append: "feeds env a s Q \<Longrightarrow> (\<And>t. Q t \<Longrightarrow> feeds env b t P) \<Longrightarrow> feeds env (a @ b) s P"
  by (cases "Put_all env a s") (auto simp: feeds_def Put_all_append)

lemma feed_digits:
  "numbered parsingLineNumber line [] n r s \<Longrightarrow> list_all is_digit t \<Longrightarrow>
   feeds env t s (numbered parsingLineNumber (line @ t) [] (foldl (\<lambda>m c. 10 * m + of_nat (digit_value c)) n t) r)"
proof (induction t arbitrary: line n s)
  case (Cons c t)
  have c: "is_digit c" "list_all is_digit t" using Cons.prems(2) by simp_all
  show ?case
    using Cons.IH [OF _ c(2), of "line @ [c]"]
    by (intro feeds_step [OF Put_number_digit [OF Cons.prems(1) c(1)]]) simp
qed simp

lemma of_nat_dec_value: "foldl (\<lambda>m c. 10 * m + of_nat (digit_value c)) (of_nat n) t = of_nat (dec_value n t)"
proof (induction t arbitrary: n)
  case (Cons c t)
  from Cons.IH [of "10 * n + digit_value c"] show ?case by simp
qed simp

lemma feed_blanks:
  "numbered st line [] n r s \<Longrightarrow> st = parsingLineNumber \<or> st = parsingWhitespace \<Longrightarrow> list_all blank ws \<Longrightarrow>
   feeds env ws s (numbered (if ws = [] then st else parsingWhitespace) (line @ ws) [] n r)"
proof (induction ws arbitrary: line st s)
  case (Cons c ws)
  have c: "blank c" "list_all blank ws" using Cons.prems(3) by simp_all
  have "feeds env ws t (numbered (if c # ws = [] then st else parsingWhitespace) (line @ c # ws) [] n r)"
    if "numbered parsingWhitespace (line @ [c]) [] n r t" for t :: "'a StringParser_scheme"
    using Cons.IH [OF that _ c(2)] by simp
  then show ?case by (rule feeds_step [OF Put_blank [OF Cons.prems(1,2) c(1)]])
qed simp

lemma feed_plain:
  "numbered parsingGCode line body n r s \<Longrightarrow> list_all plain t \<Longrightarrow> length body + length t < MaxGCodeLength \<Longrightarrow>
   feeds env t s (numbered parsingGCode (line @ t) (body @ t) n r)"
proof (induction t arbitrary: line body s)
  case (Cons c t)
  have c: "plain c" "list_all plain t" "length body < MaxGCodeLength - 1" using Cons.prems(2,3) by simp_all
  have "feeds env t u (numbered parsingGCode (line @ c # t) (body @ c # t) n r)"
    if "numbered parsingGCode (line @ [c]) (body @ [c]) n r u" for u :: "'a StringParser_scheme"
    using Cons.IH [OF that c(2)] Cons.prems(3) by simp
  then show ?case by (rule feeds_step [OF Put_plain [OF Cons.prems(1) c(1,3)]])
qed simp

text \<open>A numbered line: the letter, the number, blanks, and a command of plain characters.\<close>

definition numbered_line :: "string \<Rightarrow> string \<Rightarrow> string \<Rightarrow> string \<Rightarrow> bool" where
  "numbered_line line t ws body \<longleftrightarrow> (\<exists>l. (l = CHR ''N'' \<or> l = CHR ''n'') \<and> line = l # t @ ws @ body)
     \<and> list_all is_digit t \<and> list_all blank ws \<and> list_all plain body \<and> body \<noteq> [] \<and> \<not> blank (hd body)
     \<and> (ws = [] \<longrightarrow> \<not> is_digit (hd body)) \<and> length body < MaxGCodeLength"

lemma feed_line:
  assumes "fresh s" "numbered_line line t ws body"
  shows "feeds env line s (numbered parsingGCode line body (of_nat (dec_value 0 t)) (sp_crcRequired s))"
proof -
  let ?r = "sp_crcRequired s" and ?n = "of_nat (dec_value 0 t) :: u32"
  obtain l where l: "l = CHR ''N'' \<or> l = CHR ''n''" "line = l # t @ ws @ body"
    and t: "list_all is_digit t" and ws: "list_all blank ws" and body: "list_all plain body" "body \<noteq> []" "\<not> blank (hd body)"
    "ws = [] \<longrightarrow> \<not> is_digit (hd body)" "length body < MaxGCodeLength"
    using assms(2) unfolding numbered_line_def by blast
  obtain c u where c: "body = c # u" using body(2) by (cases body) auto
  have n: "foldl (\<lambda>m c. 10 * m + of_nat (digit_value c)) 0 t = ?n" using of_nat_dec_value [of 0 t] by simp
  have 3: "feeds env body a (numbered parsingGCode line body ?n ?r)"
    if "numbered (if ws = [] then parsingLineNumber else parsingWhitespace) ([l] @ t @ ws) [] ?n ?r a" for a :: "'a StringParser_scheme"
  proof -
    let ?st = "if ws = [] then parsingLineNumber else parsingWhitespace"
    have rest: "feeds env u b (numbered parsingGCode line body ?n ?r)"
      if "numbered parsingGCode (([l] @ t @ ws) @ [c]) [c] ?n ?r b" for b :: "'a StringParser_scheme"
      using feed_plain [OF that, of u env] body(1,5) c l(2) by simp
    have "plain c" "\<not> blank c" using body(1,3) c by simp_all
    moreover have "(if ws = [] then parsingLineNumber else parsingWhitespace) = parsingWhitespace
        \<or> (if ws = [] then parsingLineNumber else parsingWhitespace) = parsingLineNumber \<and> \<not> is_digit c"
      using body(4) c by simp
    ultimately show ?thesis using feeds_step [OF Put_first [OF that] rest] c by simp
  qed
  have 2: "feeds env (ws @ body) a (numbered parsingGCode line body ?n ?r)"
    if "numbered parsingLineNumber ([l] @ t) [] ?n ?r a" for a :: "'a StringParser_scheme"
    by (rule feeds_append [OF feed_blanks [OF that _ ws]]) (use 3 in simp_all)
  have 1: "feeds env (t @ ws @ body) a (numbered parsingGCode line body ?n ?r)"
    if "numbered parsingLineNumber [l] [] 0 ?r a" for a :: "'a StringParser_scheme"
    by (rule feeds_append [OF feed_digits [OF that t]]) (use 2 n in simp)
  show ?thesis unfolding l(2)
    by (rule feeds_step [OF Put_N [OF assms(1) l(1)]]) (use 1 l(2) in simp)
qed

section \<open>Checksums\<close>

text \<open>In the checksum of a numbered line.\<close>

definition in_checksum :: "string \<Rightarrow> string \<Rightarrow> u32 \<Rightarrow> bool \<Rightarrow> u32 \<Rightarrow> u8 \<Rightarrow> 'a StringParser_scheme \<Rightarrow> bool" where
  "in_checksum line body n crc v k s \<longleftrightarrow> line_wf s \<and> sp_bufferState s = parsingChecksum \<and> sp_hadLineNumber s \<and> sp_hadChecksum s
     \<and> \<not> sp_overflowed s \<and> sp_receivedLineNumber s = n \<and> sp_crcRequired s = crc
     \<and> sp_computedChecksum s = xor_sum line \<and> sp_crc16 s = crc_sum line
     \<and> sp_gcodeLineEnd s = length body \<and> take (length body) (sp_buffer s) = body
     \<and> sp_declaredChecksum s = v \<and> sp_checksumCharsReceived s = k"

lemma Put_star:
  assumes "numbered parsingGCode line body n r s"
  shows "yields (\<lambda>(d, t). \<not> d \<and> in_checksum line body n r 0 0 t) (Put env CHR ''*'' s)"
  using assms
  by (auto simp: Put_def Let_def put_loop.simps put_step_def put_gcode_def numbered_def in_checksum_def line_wf_def)

lemma Put_checksum_digit:
  assumes "in_checksum line body n r v k s" "is_digit c"
  shows "yields (\<lambda>(d, t). \<not> d \<and> in_checksum line body n r (10 * v + of_nat (digit_value c)) (k + 1) t) (Put env c s)"
  using assms digit_ordinary(1) [OF assms(2)]
  by (auto simp: Put_ordinary put_loop.simps put_step_def put_checksum_def in_checksum_def line_wf_def)

lemma feed_checksum:
  "in_checksum line body n r v k s \<Longrightarrow> list_all is_digit d \<Longrightarrow>
   feeds env d s (in_checksum line body n r (foldl (\<lambda>m c. 10 * m + of_nat (digit_value c)) v d) (k + of_nat (length d)))"
proof (induction d arbitrary: v k s)
  case (Cons c d)
  have c: "is_digit c" "list_all is_digit d" using Cons.prems(2) by simp_all
  have rest: "feeds env d t (in_checksum line body n r (foldl (\<lambda>m c. 10 * m + of_nat (digit_value c)) v (c # d)) (k + of_nat (length (c # d))))"
    if "in_checksum line body n r (10 * v + of_nat (digit_value c)) (k + 1) t" for t :: "'a StringParser_scheme"
    using Cons.IH [OF that c(2)] by (simp add: add.assoc)
  show ?case by (rule feeds_step [OF Put_checksum_digit [OF Cons.prems(1) c(1)] rest])
qed simp

text \<open>What ends a line.\<close>

definition line_end :: "LineEnv \<Rightarrow> char \<Rightarrow> bool" where
  "line_end env c \<longleftrightarrow> c = NUL \<or> c = CHR 0x0A \<or> c = CHR 0x0D \<and> \<not> le_isDoingFile env"

lemma Put_line_end:
  "line_end env c \<Longrightarrow> \<exists>n. Put env c s = LineFinished env (s\<lparr>sp_commandLength := n\<rparr>)"
proof (cases "c = NUL")
  case True
  then have "Put env c s = LineFinished env (s\<lparr>sp_commandLength := sp_commandLength s\<rparr>)" by (simp add: Put_def Let_def)
  then show ?thesis by (rule exI)
next
  case False
  assume "line_end env c"
  with False have "Put env c s = LineFinished env (s\<lparr>sp_commandLength := sp_commandLength s + 1\<rparr>)"
    by (auto simp: Put_def Let_def line_end_def)
  then show ?thesis by (rule exI)
qed

text \<open>Which checksums are accepted: up to three digits for the exclusive or, five for the CRC.\<close>

definition accepts :: "bool \<Rightarrow> string \<Rightarrow> string \<Rightarrow> bool" where
  "accepts crc line d \<longleftrightarrow>
     length d \<in> {1, 2, 3} \<and> \<not> crc \<and> (of_nat (dec_value 0 d) :: u32) = ucast (xor_sum line)
     \<or> length d = 5 \<and> (of_nat (dec_value 0 d) :: u32) = ucast (crc_sum line)"

lemma content_stored:
  assumes "length b = MaxGCodeLength" "k < MaxGCodeLength" "take k b = body" "is_text body" "length body = k"
  shows "content (b[k := NUL]) = body"
proof -
  have "b[k := NUL] = body @ NUL # drop (Suc k) b"
    using assms by (simp add: upd_conv_take_nth_drop)
  then show ?thesis using assms(4) by simp
qed

lemma checksum_finished:
  assumes "in_checksum line body n r (of_nat (dec_value 0 d)) (of_nat (length d)) s" "length d < 256"
    and "body \<noteq> []" "is_text body"
  shows "yields (\<lambda>(ok, t). ok = accepts r line d \<and>
    (if ok then content (sp_buffer t) = body \<and> sp_lineNumber t = n \<and> \<not> sp_overflowed t else fresh t)) (LineFinished env s)"
proof -
  have wf: "length (sp_buffer s) = MaxGCodeLength" "length body < MaxGCodeLength" "sp_gcodeLineEnd s = length body"
    "take (length body) (sp_buffer s) = body"
    using assms(1) by (auto simp: in_checksum_def line_wf_def)
  define t where "t = s\<lparr>sp_lineNumber := n, sp_buffer := (sp_buffer s)[length body := NUL]\<rparr>"
  have k: "of_nat (length d) \<in> {1, 2, 3 :: u8} \<longleftrightarrow> length d \<in> {1, 2, 3}" "(of_nat (length d) :: u8) = 5 \<longleftrightarrow> length d = 5"
  proof -
    have "unat (of_nat (length d) :: u8) = length d" using assms(2) by (simp add: unat_of_nat_small)
    then show "of_nat (length d) \<in> {1, 2, 3 :: u8} \<longleftrightarrow> length d \<in> {1, 2, 3}"
      "(of_nat (length d) :: u8) = 5 \<longleftrightarrow> length d = 5" by (simp_all add: word_unat_eq_iff)
  qed
  have bad: "bad_checksum t = (\<not> accepts r line d)"
    using assms(1) k by (auto simp: t_def bad_checksum_def accepts_def in_checksum_def)
  have miss: "\<not> missing_checksum env t" using assms(1) by (simp add: t_def missing_checksum_def in_checksum_def)
  have st: "sp_bufferState t \<noteq> parsingComment" using assms(1) by (simp add: t_def in_checksum_def)
  have "LineFinished env s = (if bad_checksum t then Some (False, sp_Init t) else Some (True, t\<lparr>sp_commandStart := 0\<rparr>))"
    using assms(1,3) wf st miss by (simp add: LineFinished_def Let_def poke_def t_def in_checksum_def)
  moreover have "line_wf t" using wf by (simp add: t_def line_wf_def)
  moreover have "content (sp_buffer t) = body"
    unfolding t_def using content_stored [OF wf(1,2,4) assms(4) refl] by simp
  moreover have "sp_lineNumber t = n" "\<not> sp_overflowed t" using assms(1) by (simp_all add: t_def in_checksum_def)
  ultimately show ?thesis using bad by (simp add: fresh_Init)
qed

lemma numbered_line_text: "numbered_line line t ws body \<Longrightarrow> is_text body \<and> body \<noteq> []"
  by (auto simp: numbered_line_def is_text_def list_all_iff plain_def)

lemma line_checksum_exact_raw:
  assumes "fresh s" "numbered_line line t ws body" "list_all is_digit d" "length d < 256" "line_end env e"
  shows "yields (\<lambda>(ok, rest, u). ok = accepts (sp_crcRequired s) line d \<and> rest = [] \<and>
      (if ok then content (sp_buffer u) = body \<and> sp_lineNumber u = of_nat (dec_value 0 t) \<and> \<not> sp_overflowed u else fresh u))
    (Put_all env (line @ ''*'' @ d @ [e]) s)"
proof -
  let ?n = "of_nat (dec_value 0 t) :: u32" and ?r = "sp_crcRequired s"
  have v: "foldl (\<lambda>m c. 10 * m + of_nat (digit_value c)) 0 d = (of_nat (dec_value 0 d) :: u32)"
    using of_nat_dec_value [of 0 d] by simp
  have digits: "feeds env d a (in_checksum line body ?n ?r (of_nat (dec_value 0 d)) (of_nat (length d)))"
    if "in_checksum line body ?n ?r 0 0 a" for a :: "'a StringParser_scheme"
    using feed_checksum [OF that assms(3), of env] v by simp
  have star: "feeds env (''*'' @ d) a (in_checksum line body ?n ?r (of_nat (dec_value 0 d)) (of_nat (length d)))"
    if "numbered parsingGCode line body ?n ?r a" for a :: "'a StringParser_scheme"
    using feeds_step [OF Put_star [OF that] digits] by simp
  have "feeds env (line @ ''*'' @ d) s (in_checksum line body ?n ?r (of_nat (dec_value 0 d)) (of_nat (length d)))"
    by (rule feeds_append [OF feed_line [OF assms(1,2)] star])
  then obtain b x a where a: "Put_all env (line @ ''*'' @ d) s = Some (b, x, a)" "\<not> b"
    "in_checksum line body ?n ?r (of_nat (dec_value 0 d)) (of_nat (length d)) a"
    unfolding feeds_def by (auto elim!: yieldsE)
  obtain m where m: "Put env e a = LineFinished env (a\<lparr>sp_commandLength := m\<rparr>)" using Put_line_end [OF assms(5)] by blast
  have "in_checksum line body ?n ?r (of_nat (dec_value 0 d)) (of_nat (length d)) (a\<lparr>sp_commandLength := m\<rparr>)"
    using a(3) by (simp add: in_checksum_def)
  from checksum_finished [OF this assms(4), of env] numbered_line_text [OF assms(2)]
  have fin: "yields (\<lambda>(ok, u). ok = accepts ?r line d \<and>
      (if ok then content (sp_buffer u) = body \<and> sp_lineNumber u = ?n \<and> \<not> sp_overflowed u else fresh u)) (Put env e a)"
    unfolding m by blast
  have "Put_all env (line @ ''*'' @ d @ [e]) s = Put_all env [e] a"
    using Put_all_append [of env "line @ ''*'' @ d" "[e]" s] a(1,2) by simp
  then show ?thesis using fin by (cases "Put env e a") (auto split: if_splits)
qed

text \<open>
  C22. A numbered line with a checksum is delivered exactly when the checksum is right: up to three digits must give the
  exclusive or of all the characters before the asterisk, unless a CRC is required; five digits must give their CRC-16. Then
  the buffer holds the command without number, blanks and checksum, and the line number is the one received; when the command
  is finished and the parser initialised, it is ready for the next line. Otherwise it is ready at once. The command consists of
  plain characters: none that the parser treats specially.
\<close>

lemma line_checksum_exact:
  assumes "fresh s" "numbered_line line t ws body" "list_all is_digit d" "length d < 256" "line_end env e"
  shows "yields (\<lambda>(ok, rest, u). ok = accepts (sp_crcRequired s) line d \<and> rest = [] \<and>
      (if ok then content (sp_buffer u) = body \<and> sp_lineNumber u = of_nat (dec_value 0 t) \<and> \<not> sp_overflowed u \<and> fresh (sp_Init u)
       else fresh u))
    (Put_all env (line @ ''*'' @ d @ [e]) s)"
proof -
  have wf: "line_wf s" using assms(1) by (simp add: fresh_def)
  show ?thesis
    using line_checksum_exact_raw [OF assms] Put_all_total_raw [OF wf, of env "line @ ''*'' @ d @ [e]"]
    by (auto elim!: yieldsE intro: fresh_Init)
qed

lemma checksum_example: "numbered_line ''N3 T0'' ''3'' '' '' ''T0''" "accepts False ''N3 T0'' ''57''"
  by (simp_all add: numbered_line_def is_digit_def blank_def plain_def MaxGCodeLength_def accepts_def xor_sum_def
      char_byte_def digit_value_def)

text \<open>A parser as it is after construction.\<close>

definition new_parser :: StringParser where
  "new_parser = \<lparr>sp_buffer = replicate MaxGCodeLength NUL, sp_bufferState = parseNotStarted, sp_gcodeLineEnd = 0,
     sp_commandStart = 0, sp_commandLength = 0, sp_readPointer = - 1, sp_braceCount = 0, sp_hadLineNumber = False,
     sp_hadChecksum = False, sp_overflowed = False, sp_seenExpression = False, sp_computedChecksum = 0, sp_crc16 = 0,
     sp_receivedLineNumber = 0, sp_declaredChecksum = 0, sp_checksumCharsReceived = 0, sp_commandIndent = 0,
     sp_seenLeadingSpace = False, sp_seenLeadingTab = False, sp_seenMetaCommand = False, sp_checksumRequired = False,
     sp_crcRequired = False, sp_lineNumber = 0\<rparr>"

lemma new_parser_fresh: "fresh new_parser" "\<not> sp_crcRequired new_parser" "line_wf new_parser"
  by (simp_all add: fresh_def new_parser_def line_wf_def MaxGCodeLength_def)

lemma line_checksum_exact_witness:
  "yields (\<lambda>(ok, rest, u). ok \<and> rest = [] \<and> content (sp_buffer u) = ''T0'' \<and> sp_lineNumber u = 3)
    (Put_all \<lparr>le_isDoingFile = False, le_cnc = False, le_nested = False\<rparr> (''N3 T0'' @ ''*'' @ ''57'' @ [CHR 0x0A]) new_parser)"
proof -
  let ?env = "\<lparr>le_isDoingFile = False, le_cnc = False, le_nested = False\<rparr>"
  have d: "list_all is_digit ''57''" "length ''57'' < 256" "line_end ?env CHR 0x0A" by (simp_all add: is_digit_def line_end_def)
  have n: "dec_value 0 ''3'' = 3" by (simp add: digit_value_def)
  show ?thesis
    by (rule yields_mono [OF line_checksum_exact [OF new_parser_fresh(1) checksum_example(1) d]])
      (use checksum_example(2) new_parser_fresh(2) n in auto)
qed











text \<open>
  A character that arrives as a semicolon turns the rest of the line, with the checksum, into a comment: the command before it is
  delivered unchecked unless checksums are required.
\<close>

lemma corruption_to_comment:
  "accepts False ''N3 T0'' ''57'' \<and> yields (\<lambda>(ok, rest, u). ok \<and> rest = [] \<and> content (sp_buffer u) = ''T'')
    (Put_all \<lparr>le_isDoingFile = False, le_cnc = False, le_nested = False\<rparr> (''N3 T;*57'' @ [CHR 0x0A]) new_parser)"
  using checksum_example(2)
  by (simp add: Put_def Let_def put_loop.simps put_step_def put_start_def put_line_number_def put_whitespace_def put_gcode_def
      StoreAndAddToChecksum_def AddToChecksum_def poke_def new_parser_def MaxGCodeLength_def LineFinished_def is_digit_def
      bad_checksum_def missing_checksum_def content_def numeral_eq_Suc)

lemma Put_all_total_witness:
  "yields (\<lambda>(ok, _, t). line_wf t \<and> (ok \<longrightarrow> terminated t))
    (Put_all \<lparr>le_isDoingFile = False, le_cnc = False, le_nested = False\<rparr> (replicate 300 CHR ''x'' @ [CHR 0x0A]) new_parser)"
  by (rule Put_all_total [OF new_parser_fresh(3)])

section \<open>Lost lines\<close>

lemma LineFinished_fresh: "line_wf s \<Longrightarrow> yields (\<lambda>(ok, t). \<not> ok \<longrightarrow> fresh t) (LineFinished env s)"
proof -
  assume wf: "line_wf s"
  have w: "line_wf (s\<lparr>sp_lineNumber := n, sp_buffer := (sp_buffer s)[k := NUL]\<rparr>)" for n k
    using wf by (simp add: line_wf_def)
  show ?thesis using wf fresh_Init [OF w] fresh_Init [of "s\<lparr>sp_lineNumber := n\<rparr>" for n]
    by (simp add: LineFinished_def Let_def poke_def) (simp add: line_wf_def)
qed

lemma Put_end_fresh: "line_wf s \<Longrightarrow> line_end env e \<Longrightarrow> yields (\<lambda>(ok, t). \<not> ok \<longrightarrow> fresh t) (Put env e s)"
  using Put_line_end [of env e s] LineFinished_fresh line_wf_updates(3) by metis

text \<open>
  C31. A line that is lost does not take another with it: after anything at all, if it delivers nothing up to the end of its
  line, a numbered line with a right checksum is delivered.
\<close>

lemma lost_line_recovery:
  assumes "line_wf s" "Put_all env (noise @ [e]) s = Some (False, rest, s')" "line_end env e"
    and "numbered_line line t ws body" "accepts (sp_crcRequired s') line d" "list_all is_digit d" "line_end env e'"
  shows "yields (\<lambda>(ok, rest, u). ok \<and> rest = [] \<and> content (sp_buffer u) = body \<and> sp_lineNumber u = of_nat (dec_value 0 t))
    (Put_all env (noise @ [e] @ line @ ''*'' @ d @ [e']) s)"
proof -
  obtain q n where q: "Put_all env noise s = Some (False, n, q)" "Put env e q = Some (False, s')"
    using assms(2) by (auto simp: Put_all_append bind_eq_Some_conv split: if_splits)
  have "line_wf q" using Put_all_total_raw [OF assms(1), of env noise] q(1) by simp
  then have f: "fresh s'" using Put_end_fresh [OF _ assms(3)] q(2) by fastforce
  have "length d < 256" using assms(5) by (auto simp: accepts_def)
  from line_checksum_exact_raw [OF f assms(4,6) this assms(7)]
  have "yields (\<lambda>(ok, rest, u). ok \<and> rest = [] \<and> content (sp_buffer u) = body \<and> sp_lineNumber u = of_nat (dec_value 0 t))
      (Put_all env (line @ ''*'' @ d @ [e']) s')"
    by (rule yields_mono) (use assms(5) in auto)
  then show ?thesis using assms(2) Put_all_append [of env "noise @ [e]" "line @ ''*'' @ d @ [e']" s] by simp
qed

text \<open>
  A line in which the receiver reported an overrun, by a character 0x7F, is not delivered, whatever came before and
  comes after in it, unless its checksum or a comment had already ended it.
\<close>

lemma overrun_drops_line:
  assumes "line_wf s" "sp_bufferState s \<noteq> discarding" "\<forall>c\<in>set b. c \<notin> {NUL, CHR 0x0A, CHR 0x0D}" "line_end env e"
  shows "yields (\<lambda>(ok, rest, u). \<not> ok \<and> rest = [] \<and> fresh u) (Put_all env (CHR 0x7F # b @ [e]) s)"
proof -
  let ?Q = "\<lambda>t. line_wf t \<and> sp_bufferState t = discarding \<and> sp_gcodeLineEnd t = 0"
  have loop: "put_loop cnc c t = Some t" if "?Q t" for cnc c and t :: "'a StringParser_scheme"
    using that by (subst put_loop.simps) (simp add: put_step_def)
  have keep: "yields (\<lambda>(d, t). \<not> d \<and> ?Q t) (Put env c t)" if "?Q t" "c \<notin> {NUL, CHR 0x0A, CHR 0x0D}"
    for c and t :: "'a StringParser_scheme"
    using that loop [of "t\<lparr>sp_commandLength := sp_commandLength t + 1\<rparr>"] by (simp add: Put_def Let_def)
  have rest: "feeds env b t ?Q" if "?Q t" for t :: "'a StringParser_scheme"
    using that assms(3)
  proof (induction b arbitrary: t)
    case (Cons c b)
    then show ?case by (intro feeds_step [OF keep]) auto
  qed simp
  have "yields (\<lambda>(d, t). \<not> d \<and> ?Q t) (Put env CHR 0x7F s)"
    using assms(1,2) loop [of "s\<lparr>sp_commandLength := sp_commandLength s + 1, sp_gcodeLineEnd := 0, sp_bufferState := discarding\<rparr>"]
    by (simp add: Put_def Let_def line_wf_def MaxGCodeLength_def)
  from feeds_step [OF this rest] obtain x q where q: "Put_all env (CHR 0x7F # b) s = Some (False, x, q)" "?Q q"
    unfolding feeds_def by (auto elim!: yieldsE)
  have "yields (\<lambda>(ok, u). \<not> ok \<and> fresh u) (Put env e q)"
  proof -
    obtain n where n: "Put env e q = LineFinished env (q\<lparr>sp_commandLength := n\<rparr>)" using Put_line_end [OF assms(4)] by blast
    show ?thesis unfolding n using q(2) by (simp add: LineFinished_def Let_def fresh_Init)
  qed
  then show ?thesis using q(1) Put_all_append [of env "CHR 0x7F # b" "[e]" s]
    by (cases "Put env e q") auto
qed

lemma lost_line_recovery_witness:
  "yields (\<lambda>(ok, rest, u). ok \<and> rest = [] \<and> content (sp_buffer u) = ''T0'' \<and> sp_lineNumber u = 3)
    (Put_all \<lparr>le_isDoingFile = False, le_cnc = False, le_nested = False\<rparr>
      (''(*'' @ [CHR 0x7F] @ [CHR 0x0A] @ ''N3 T0'' @ ''*'' @ ''57'' @ [CHR 0x0A]) new_parser)"
proof -
  let ?env = "\<lparr>le_isDoingFile = False, le_cnc = False, le_nested = False\<rparr>"
  obtain s' where s': "Put_all ?env (''(*'' @ [CHR 0x7F] @ [CHR 0x0A]) new_parser = Some (False, [], s')" "\<not> sp_crcRequired s'"
    by (simp add: Put_def Let_def put_loop.simps put_step_def put_start_def put_gcode_def StoreAndAddToChecksum_def
        AddToChecksum_def poke_def new_parser_def MaxGCodeLength_def LineFinished_def sp_Init_def)
  have "dec_value 0 ''3'' = 3" by (simp add: digit_value_def)
  then show ?thesis
    using lost_line_recovery [OF new_parser_fresh(3), of ?env "''(*'' @ [CHR 0x7F]" "CHR 0x0A" "[]" s' "''N3 T0''" "''3''"
        "'' ''" "''T0''" "''57''" "CHR 0x0A"] s' checksum_example
    by (simp add: line_end_def is_digit_def del: Put_all.simps)
qed

lemma overrun_drops_line_witness:
  "yields (\<lambda>(ok, rest, u). \<not> ok \<and> rest = [] \<and> fresh u)
    (Put_all \<lparr>le_isDoingFile = False, le_cnc = False, le_nested = False\<rparr> (CHR 0x7F # ''N3 T0*57'' @ [CHR 0x0A]) new_parser)"
  by (rule overrun_drops_line [OF new_parser_fresh(3)]) (simp_all add: new_parser_def line_end_def)

section \<open>The width of the indentation\<close>

text \<open>The indentation is counted in eight bits: 256 spaces are none.\<close>

lemma indentation_wraps:
  "sp_bufferState s = parseNotStarted \<Longrightarrow>
   yields (\<lambda>(ok, rest, u). \<not> ok \<and> rest = [] \<and> sp_bufferState u = parseNotStarted
     \<and> sp_commandIndent u = sp_commandIndent s + of_nat n) (Put_all env (replicate n CHR '' '') s)"
proof (induction n arbitrary: s)
  case (Suc n)
  obtain u where u: "Put env CHR '' '' s = Some (False, u)" "sp_bufferState u = parseNotStarted"
    "sp_commandIndent u = sp_commandIndent s + 1"
    using Suc.prems by (simp add: Put_def Let_def put_loop.simps put_step_def put_start_def AddToChecksum_def)
  from Suc.IH [OF u(2)] show ?case using u(1,3) by (auto elim!: yields_mono simp: add.assoc)
qed simp

lemma indentation_of_256_spaces:
  "yields (\<lambda>(_, _, u). sp_commandIndent u = 0) (Put_all env (replicate 256 CHR '' '') new_parser)"
  by (rule yields_mono [OF indentation_wraps]) (auto simp: new_parser_def)

end
