(* ===== verification/GCodeText.thy ===== *)
theory GCodeText
  imports GCodeLineProps
begin

text \<open>
  Lines without numbers, as files have them: some spaces and a text. What the line parser makes of them, with
  everything it leaves alone, for the theories on commands and on blocks.
\<close>

text \<open>Characters that are stored as they are, quotes and braces among them.\<close>

definition stored_char :: "LineEnv \<Rightarrow> char \<Rightarrow> bool" where
  "stored_char env c \<longleftrightarrow> c \<notin> {NUL, CHR 0x0A, CHR 0x0D, CHR 0x7F, CHR '';''} \<and> \<not> (le_cnc env \<and> c = CHR ''('')"

definition line_text :: "LineEnv \<Rightarrow> string \<Rightarrow> bool" where
  "line_text env t \<longleftrightarrow> t \<noteq> [] \<and> hd t \<notin> {CHR '' '', CHR 0x09, CHR ''N'', CHR ''n''} \<and> list_all (stored_char env) t
     \<and> length t < MaxGCodeLength"

text \<open>
  In the middle of a line: \<open>n\<close> spaces and then \<open>body\<close>, \<open>len\<close> characters in all, after the state \<open>s0\<close>.
\<close>

definition typed :: "'a StringParser_scheme \<Rightarrow> nat \<Rightarrow> string \<Rightarrow> nat \<Rightarrow> 'a StringParser_scheme \<Rightarrow> bool" where
  "typed s0 n body len s \<longleftrightarrow> line_wf s \<and> \<not> sp_hadLineNumber s \<and> \<not> sp_hadChecksum s \<and> \<not> sp_overflowed s
     \<and> sp_gcodeLineEnd s = length body \<and> take (length body) (sp_buffer s) = body \<and> sp_commandIndent s = of_nat n
     \<and> sp_commandLength s = sp_commandLength s0 + len
     \<and> sp_lineNumber s = sp_lineNumber s0 \<and> sp_seenMetaCommand s = sp_seenMetaCommand s0
     \<and> sp_seenLeadingSpace s = (sp_seenLeadingSpace s0 \<or> 0 < n) \<and> sp_seenLeadingTab s = sp_seenLeadingTab s0
     \<and> sp_checksumRequired s = sp_checksumRequired s0 \<and> sp_crcRequired s = sp_crcRequired s0
     \<and> StringParser.more s = StringParser.more s0"

abbreviation in_text :: "'a StringParser_scheme \<Rightarrow> bool" where
  "in_text s \<equiv> sp_bufferState s = parsingGCode \<or> sp_bufferState s = parsingQuotedString"

lemma typed_fresh: "fresh s \<Longrightarrow> typed s 0 [] 0 s"
  by (simp add: fresh_def typed_def)

lemma Put_space:
  assumes "typed s0 n [] len s" "sp_bufferState s = parseNotStarted"
  shows "yields (\<lambda>(d, t). \<not> d \<and> typed s0 (Suc n) [] (Suc len) t \<and> sp_bufferState t = parseNotStarted) (Put env CHR '' '' s)"
  using assms
  by (auto simp: Put_ordinary put_loop.simps put_step_def put_start_def Let_def typed_def line_wf_def AddToChecksum_def)

lemma feed_spaces:
  "typed s0 n [] n s \<Longrightarrow> sp_bufferState s = parseNotStarted \<Longrightarrow>
   feeds env (replicate k CHR '' '') s (\<lambda>t. typed s0 (n + k) [] (n + k) t \<and> sp_bufferState t = parseNotStarted)"
proof (induction k arbitrary: n s)
  case (Suc k)
  show ?case unfolding replicate_Suc
    by (rule feeds_step [OF Put_space [OF Suc.prems]]) (use Suc.IH [of "Suc n"] in simp)
qed simp

lemma Store_typed:
  assumes "typed s0 n body len s" "in_text s" "length body < MaxGCodeLength - 1"
  shows "StoreAndAddToChecksum c s = Some (s\<lparr>sp_buffer := (sp_buffer s)[length body := c], sp_gcodeLineEnd := Suc (length body)\<rparr>)"
  using assms by (auto simp: StoreAndAddToChecksum_def Let_def poke_def typed_def line_wf_def AddToChecksum_def)

lemma stored_typed:
  assumes "typed s0 n body len s" "length body < MaxGCodeLength - 1"
  shows "typed s0 n (body @ [c]) len (s\<lparr>sp_buffer := (sp_buffer s)[length body := c], sp_gcodeLineEnd := Suc (length body)\<rparr>)"
proof -
  have "take (Suc (length body)) ((sp_buffer s)[length body := c]) = body @ [c]"
    using assms by (simp add: take_Suc_conv_app_nth typed_def line_wf_def)
  then show ?thesis using assms by (simp add: typed_def line_wf_def)
qed

lemma typed_updates [simp]:
  "typed s0 n body len (s\<lparr>sp_bufferState := b\<rparr>) = typed s0 n body len s"
  "typed s0 n body len (s\<lparr>sp_braceCount := k\<rparr>) = typed s0 n body len s"
  "typed s0 n body len (s\<lparr>sp_seenExpression := x\<rparr>) = typed s0 n body len s"
  "typed s0 n body len (s\<lparr>sp_commandStart := k\<rparr>) = typed s0 n body len s"
  by (simp_all add: typed_def)

lemma store_step:
  assumes "typed s0 n body len s" "in_text s" "length body < MaxGCodeLength - 1"
  shows "yields (\<lambda>t. typed s0 n (body @ [c]) len t \<and> sp_bufferState t = sp_bufferState s) (StoreAndAddToChecksum c s)"
  using Store_typed [OF assms] stored_typed [OF assms(1,3)] by simp

lemma text_step:
  assumes "typed s0 n body len s" "in_text s" "length body < MaxGCodeLength - 1" "stored_char env c"
  shows "yields (\<lambda>t. typed s0 n (body @ [c]) len t \<and> in_text t) (put_loop (le_cnc env) c s)"
proof -
  let ?P = "\<lambda>t. typed s0 n (body @ [c]) len t \<and> in_text t"
  have store: "yields ?P (StoreAndAddToChecksum c u)" if "typed s0 n body len u" "in_text u" for u :: "'a StringParser_scheme"
    by (rule yields_mono [OF store_step [OF that assms(3)]]) (use that(2) in auto)
  have quote: "yields (\<lambda>t. ?P (t\<lparr>sp_bufferState := parsingQuotedString\<rparr>)) (StoreAndAddToChecksum c s)"
    by (rule yields_mono [OF store_step [OF assms(1,2,3)]]) simp
  have num: "\<not> sp_hadLineNumber s" using assms(1) by (simp add: typed_def)
  have c: "c \<noteq> CHR '';''" "c = CHR ''('' \<Longrightarrow> \<not> le_cnc env" using assms(4) by (auto simp: stored_char_def)
  have pg: "put_gcode (le_cnc env) c s =
     (if c = CHR 0x22 then map_option (\<lambda>s. s\<lparr>sp_bufferState := parsingQuotedString\<rparr>) (StoreAndAddToChecksum c s)
      else StoreAndAddToChecksum c (if c = CHR ''{'' then s\<lparr>sp_braceCount := sp_braceCount s + 1, sp_seenExpression := True\<rparr>
        else if c = CHR ''}'' then (if sp_braceCount s \<noteq> 0 then s\<lparr>sp_braceCount := sp_braceCount s - 1\<rparr> else s) else s))"
    using num c unfolding put_gcode_def by simp
  have g: "yields ?P (put_gcode (le_cnc env) c s)"
  proof (cases "c = CHR 0x22")
    case True
    then show ?thesis unfolding pg using quote by (cases "StoreAndAddToChecksum c s") simp_all
  next
    case False
    then show ?thesis unfolding pg by (simp only: if_False, intro store) (use assms(1,2) in auto)
  qed
  have q: "yields ?P (put_quoted c s)"
    unfolding put_quoted_def by (simp, rule yields_mono [OF store_step [OF assms(1,2,3)]]) (use assms(2) in auto)
  from assms(2) show ?thesis
  proof
    assume st: "sp_bufferState s = parsingGCode"
    from g show ?thesis
      by (subst put_loop.simps) (cases "put_gcode (le_cnc env) c s"; simp add: put_step_def st)
  next
    assume st: "sp_bufferState s = parsingQuotedString"
    from q show ?thesis by (subst put_loop.simps) (cases "put_quoted c s"; simp add: put_step_def st)
  qed
qed

lemma stored_ordinary: "stored_char env c \<Longrightarrow> c \<notin> {NUL, CHR 0x0A, CHR 0x0D, CHR 0x7F}"
  by (auto simp: stored_char_def)

lemma typed_length: "typed s0 n body len s \<Longrightarrow> typed s0 n body (Suc len) (s\<lparr>sp_commandLength := sp_commandLength s + 1\<rparr>)"
  by (simp add: typed_def)

lemma Put_text:
  assumes "typed s0 n body len s" "in_text s" "length body < MaxGCodeLength - 1" "stored_char env c"
  shows "yields (\<lambda>(d, t). \<not> d \<and> typed s0 n (body @ [c]) (Suc len) t \<and> in_text t) (Put env c s)"
  using text_step [OF typed_length [OF assms(1)] _ assms(3,4)] assms(2) stored_ordinary [OF assms(4)]
  by (simp add: Put_ordinary)

lemma Put_text_first:
  assumes "typed s0 n [] len s" "sp_bufferState s = parseNotStarted" "stored_char env c"
    "c \<notin> {CHR '' '', CHR 0x09, CHR ''N'', CHR ''n''}"
  shows "yields (\<lambda>(d, t). \<not> d \<and> typed s0 n [c] (Suc len) t \<and> in_text t) (Put env c s)"
proof -
  let ?s = "s\<lparr>sp_commandLength := sp_commandLength s + 1\<rparr>"
  let ?g = "?s\<lparr>sp_braceCount := 0, sp_bufferState := parsingGCode, sp_commandStart := 0\<rparr>"
  have "put_loop (le_cnc env) c ?s = put_loop (le_cnc env) c ?g"
    using assms(2,4) by (subst put_loop.simps) (simp add: put_step_def put_start_def Let_def)
  moreover have "yields (\<lambda>t. typed s0 n ([] @ [c]) (Suc len) t \<and> in_text t) (put_loop (le_cnc env) c ?g)"
    by (rule text_step [OF _ _ _ assms(3)]) (use typed_length [OF assms(1)] in \<open>simp_all add: MaxGCodeLength_def\<close>)
  ultimately show ?thesis using stored_ordinary [OF assms(3)] by (simp add: Put_ordinary)
qed

lemma feed_text:
  "typed s0 n body len s \<Longrightarrow> in_text s \<Longrightarrow> list_all (stored_char env) t \<Longrightarrow> length body + length t < MaxGCodeLength \<Longrightarrow>
   feeds env t s (\<lambda>u. typed s0 n (body @ t) (len + length t) u \<and> in_text u)"
proof (induction t arbitrary: body len s)
  case (Cons c t)
  have c: "stored_char env c" "list_all (stored_char env) t" "length body < MaxGCodeLength - 1"
    using Cons.prems(3,4) by simp_all
  show ?case
    by (rule feeds_step [OF Put_text [OF Cons.prems(1,2) c(3,1)]])
      (use Cons.IH [of "body @ [c]" "Suc len"] c(2) Cons.prems(4) in simp)
qed simp

lemma feed_line_text:
  assumes "fresh s" "line_text env t"
  shows "feeds env (replicate n CHR '' '' @ t) s (\<lambda>u. typed s n t (n + length t) u \<and> in_text u)"
proof -
  obtain c r where t: "t = c # r" using assms(2) by (cases t) (simp_all add: line_text_def)
  have c: "stored_char env c" "list_all (stored_char env) r" "c \<notin> {CHR '' '', CHR 0x09, CHR ''N'', CHR ''n''}"
    "length [c] + length r < MaxGCodeLength"
    using assms(2) by (simp_all add: line_text_def t)
  have st: "sp_bufferState s = parseNotStarted" using assms(1) by (simp add: fresh_def)
  have "feeds env (c # r) u (\<lambda>v. typed s n t (n + length t) v \<and> in_text v)"
    if "typed s n [] n u \<and> sp_bufferState u = parseNotStarted" for u
    by (rule feeds_step [OF Put_text_first [OF conjunct1 [OF that] conjunct2 [OF that] c(1,3)]])
      (use feed_text [of s n "[c]" "Suc n"] c(2,4) in \<open>simp add: t\<close>)
  then show ?thesis
    using feeds_append [OF feed_spaces [OF typed_fresh [OF assms(1)] st, of env n]] by (simp add: t)
qed

text \<open>A complete line, ready to be looked at.\<close>

definition line_ready :: "'a StringParser_scheme \<Rightarrow> nat \<Rightarrow> string \<Rightarrow> 'a StringParser_scheme \<Rightarrow> bool" where
  "line_ready s0 n t s \<longleftrightarrow> typed s0 n t (Suc (n + length t)) (s\<lparr>sp_lineNumber := sp_lineNumber s0\<rparr>) \<and> in_text s
     \<and> sp_lineNumber s = sp_lineNumber s0 + 1 \<and> sp_commandStart s = 0 \<and> sp_buffer s ! length t = NUL"

lemma finish_line:
  assumes "typed s0 n t len s" "in_text s" "t \<noteq> []" "length t < MaxGCodeLength" "\<not> missing_checksum env s"
  shows "yields (\<lambda>(d, u). d \<and> typed s0 n t len (u\<lparr>sp_lineNumber := sp_lineNumber s0\<rparr>) \<and> in_text u
    \<and> sp_lineNumber u = sp_lineNumber s0 + 1 \<and> sp_commandStart u = 0 \<and> sp_buffer u ! length t = NUL) (LineFinished env s)"
  using assms
  by (auto simp: LineFinished_def Let_def poke_def typed_def line_wf_def bad_checksum_def missing_checksum_def)

text \<open>A line, and the line feed at its end. A checksum may be missing only where none is required.\<close>

lemma line_completed:
  assumes "fresh s" "line_text env t" "le_nested env \<or> \<not> sp_checksumRequired s \<and> \<not> sp_crcRequired s"
  obtains x u v where "Put_all env (replicate n CHR '' '' @ t) s = Some (False, x, u)" "Put env CHR 0x0A u = Some (True, v)"
    "line_ready s n t v"
proof -
  obtain x u where u: "Put_all env (replicate n CHR '' '' @ t) s = Some (False, x, u)" "typed s n t (n + length t) u" "in_text u"
    using feed_line_text [OF assms(1,2), of n] unfolding feeds_def by (auto elim!: yieldsE)
  have t: "t \<noteq> []" "length t < MaxGCodeLength" using assms(2) by (auto simp: line_text_def)
  have "Put env CHR 0x0A u = LineFinished env (u\<lparr>sp_commandLength := sp_commandLength u + 1\<rparr>)"
    by (simp add: Put_def Let_def)
  moreover have m: "\<not> missing_checksum env (u\<lparr>sp_commandLength := sp_commandLength u + 1\<rparr>)"
    using assms(3) u(2) by (auto simp: missing_checksum_def typed_def)
  have "yields (\<lambda>(d, v). d \<and> line_ready s n t v) (LineFinished env (u\<lparr>sp_commandLength := sp_commandLength u + 1\<rparr>))"
    by (rule yields_mono [OF finish_line [OF typed_length [OF u(2)] _ t m]]) (use u(3) in \<open>auto simp: line_ready_def\<close>)
  ultimately obtain v where "Put env CHR 0x0A u = Some (True, v)" "line_ready s n t v"
    by (auto elim!: yieldsE)
  then show thesis using that u(1) by blast
qed

lemma line_received:
  assumes "fresh s" "line_text env t" "le_nested env \<or> \<not> sp_checksumRequired s \<and> \<not> sp_crcRequired s"
  shows "yields (\<lambda>(d, rest, u). d \<and> rest = r \<and> line_ready s n t u) (Put_all env (replicate n CHR '' '' @ t @ CHR 0x0A # r) s)"
proof -
  obtain x u v where v: "Put_all env (replicate n CHR '' '' @ t) s = Some (False, x, u)" "Put env CHR 0x0A u = Some (True, v)"
    "line_ready s n t v"
    by (rule line_completed [OF assms])
  have "Put_all env (replicate n CHR '' '' @ t @ CHR 0x0A # r) s = Some (True, r, v)"
    using Put_all_append [of env "replicate n CHR '' '' @ t" "CHR 0x0A # r" s] v(1,2) by simp
  with v(3) show ?thesis by simp
qed

text \<open>What the buffer holds then.\<close>

lemma line_ready_buffer:
  assumes "line_ready s0 n t s" "length t < MaxGCodeLength"
  obtains junk where "sp_buffer s = t @ NUL # junk" "length (sp_buffer s) = MaxGCodeLength" "sp_gcodeLineEnd s = length t"
    "sp_commandStart s = 0" "StringParser.more s = StringParser.more s0"
proof -
  have s: "take (length t) (sp_buffer s) = t" "sp_buffer s ! length t = NUL" "length (sp_buffer s) = MaxGCodeLength"
    "sp_gcodeLineEnd s = length t" "sp_commandStart s = 0" "StringParser.more s = StringParser.more s0"
    using assms(1) by (auto simp: line_ready_def typed_def line_wf_def)
  then have "sp_buffer s = t @ NUL # drop (Suc (length t)) (sp_buffer s)"
    using assms(2) id_take_nth_drop [of "length t" "sp_buffer s"] by simp
  then show thesis using that s by blast
qed

end
