(* ===== verification/GCodeBlocksProps.thy ===== *)
theory GCodeBlocksProps
  imports GCodeBlocks GCodeText
begin

text \<open>
  One line of a file at a time: what the stack of blocks and the skipping of lines make of a line that is indented by so
  many spaces, before its command is looked at.
\<close>

section \<open>Between lines and at a line\<close>

abbreviation depth :: "BlockState \<Rightarrow> nat" where "depth b \<equiv> unat (bs_indent b)"

text \<open>Ready for the line at position \<open>p\<close>, with the stack of blocks, the indentation to skip to, and the world.\<close>

definition at_line :: "nat \<Rightarrow> BlockState list \<Rightarrow> u16 \<Rightarrow> 'w \<Rightarrow> ('w, 'a) BlockParser_scheme \<Rightarrow> bool" where
  "at_line p stk k w s \<longleftrightarrow> fresh s \<and> sp_commandLength s = 0 \<and> \<not> sp_seenLeadingTab s \<and> \<not> sp_checksumRequired s \<and> \<not> sp_crcRequired s
     \<and> bp_position s = p \<and> bp_block s # bp_outer s = stk \<and> bp_indentToSkipTo s = k \<and> bp_fileOpen s \<and> bp_world s = w"

text \<open>A complete line \<open>t\<close> with \<open>n\<close> spaces before it, which began at \<open>p\<close>; the next one begins at \<open>q\<close>.\<close>

definition line_state :: "nat \<Rightarrow> nat \<Rightarrow> nat \<Rightarrow> string \<Rightarrow> BlockState list \<Rightarrow> u16 \<Rightarrow> 'w \<Rightarrow> ('w, 'a) BlockParser_scheme \<Rightarrow> bool" where
  "line_state p q n t stk k w s \<longleftrightarrow> line_wf s \<and> (\<exists>junk. sp_buffer s = t @ NUL # junk) \<and> sp_gcodeLineEnd s = length t
     \<and> sp_commandStart s = 0 \<and> indent_of s = n \<and> \<not> sp_overflowed s \<and> \<not> sp_seenLeadingTab s
     \<and> \<not> sp_checksumRequired s \<and> \<not> sp_crcRequired s \<and> GetFilePosition s = p \<and> bp_position s = q
     \<and> bp_block s # bp_outer s = stk \<and> bp_indentToSkipTo s = k \<and> bp_fileOpen s \<and> bp_world s = w"

lemma at_line_Init:
  assumes "line_wf s" "\<not> sp_seenLeadingTab s" "\<not> sp_checksumRequired s" "\<not> sp_crcRequired s" "bp_fileOpen s"
  shows "at_line (bp_position s) (bp_block s # bp_outer s) (bp_indentToSkipTo s) (bp_world s) (sp_Init s)"
  using assms fresh_Init [OF assms(1)] by (simp add: at_line_def sp_Init_def)

lemma line_state_Init: "line_state p q n t stk k w s \<Longrightarrow> at_line q stk k w (sp_Init s)"
  using at_line_Init [of s] by (auto simp: line_state_def)

text \<open>Reading the next line.\<close>

definition file_line :: "nat \<Rightarrow> string \<Rightarrow> string" where
  "file_line n t = replicate n CHR '' '' @ t @ [CHR 0x0A]"

lemma length_file_line [simp]: "length (file_line n t) = n + length t + 1"
  by (simp add: file_line_def)

lemma read_line:
  assumes "at_line p stk k w s" "drop p file = file_line n t @ r" "line_text lenv t" "n < 256" "p \<le> length file"
  obtains u where "line_state p (p + length (file_line n t)) n t stk k w u"
    "file_step lenv cenv env file s = do_line lenv cenv env u"
proof -
  have f: "fresh s" "bp_position s = p" using assms(1) by (simp_all add: at_line_def)
  have "le_nested lenv \<or> \<not> sp_checksumRequired s \<and> \<not> sp_crcRequired s" using assms(1) by (simp add: at_line_def)
  from line_received [OF f(1) assms(3) this, of r n]
  obtain v where v: "Put_all lenv (drop p file) s = Some (True, r, v)" "line_ready s n t v"
    unfolding assms(2) file_line_def by (auto elim!: yieldsE)
  have len: "length file = p + length (file_line n t) + length r"
    using arg_cong [OF assms(2), of length] assms(5) by simp
  let ?u = "v\<lparr>bp_position := p + length (file_line n t)\<rparr>"
  have "length t < MaxGCodeLength" using assms(3) by (simp add: line_text_def)
  from line_ready_buffer [OF v(2) this] obtain junk where b: "sp_buffer v = t @ NUL # junk" "length (sp_buffer v) = MaxGCodeLength"
    "sp_gcodeLineEnd v = length t" "sp_commandStart v = 0" "StringParser.more v = StringParser.more s" by metis
  have more: "bp_position v = bp_position s" "bp_block v = bp_block s" "bp_outer v = bp_outer s" "bp_indentToSkipTo v = bp_indentToSkipTo s"
    "bp_fileOpen v = bp_fileOpen s" "bp_world v = bp_world s"
    using b(5) by (cases s; cases v; simp)+
  have ty: "sp_commandLength v = Suc (n + length t)" "indent_of v = n" "\<not> sp_overflowed v" "\<not> sp_seenLeadingTab v"
    "\<not> sp_checksumRequired v" "\<not> sp_crcRequired v"
    using v(2) assms(1,4) by (auto simp: line_ready_def typed_def at_line_def unat_of_nat_small)
  have "line_state p (p + length (file_line n t)) n t stk k w ?u"
    using b ty more assms(1) \<open>length t < MaxGCodeLength\<close>
    by (auto simp: line_state_def line_wf_def at_line_def GetFilePosition_def)
  moreover have "file_step lenv cenv env file s = do_line lenv cenv env ?u"
    using v(1) f(2) len by (simp add: file_step_def)
  ultimately show thesis by (rule that)
qed

section \<open>Leaving blocks\<close>

text \<open>The scopes that end when \<open>j\<close> blocks are left, and \<open>m\<close> blocks are around the one that is come to.\<close>

fun unwind :: "'w MetaEnv \<Rightarrow> nat \<Rightarrow> nat \<Rightarrow> 'w \<Rightarrow> 'w" where
  "unwind env 0 m w = w"
| "unwind env (Suc j) m w = unwind env j m (me_endScope env (m + j) w)"

lemma unwind_last: "unwind env (Suc j) m w = me_endScope env m (unwind env j (Suc m) w)"
  by (induction j arbitrary: w) simp_all

lemma unwind_add: "unwind env (i + j) m w = unwind env i m (unwind env j (m + i) w)"
  by (induction j arbitrary: w) (simp_all add: ac_simps)

lemma line_state_EndBlock:
  "line_state p q n t (x # b # bs) k w s \<Longrightarrow> line_state p q n t (b # bs) k (me_endScope env (length bs) w) (EndBlock env s)"
  by (auto simp: line_state_def EndBlock_def line_wf_def GetFilePosition_def)

lemma leave_blocks_to:
  assumes "line_state p q n t (xs @ b # S) k w s" "\<forall>x \<in> set xs. n < depth x" "depth b \<le> n"
    "xs = [] \<or> bs_type b \<noteq> loopBlock \<and> (\<forall>x \<in> set xs. bs_type x \<noteq> loopBlock)"
  shows "yields (\<lambda>(again, u). \<not> again \<and> line_state p q n t (b # S) k (unwind env (length xs) (length S) w) u) (leave_blocks env s)"
  using assms
proof (induction xs arbitrary: w s)
  case Nil
  have "bp_block s = b" "indent_of s = n" using Nil.prems(1) by (auto simp: line_state_def)
  then show ?case using Nil.prems by (subst leave_blocks.simps) simp
next
  case (Cons x xs)
  obtain y ys where y: "xs @ b # S = y # ys" "bs_type y \<noteq> loopBlock" using Cons.prems(4) by (cases xs) auto
  have s: "bp_block s = x" "bp_outer s = y # ys" "indent_of s = n" using Cons.prems(1) y(1) by (auto simp: line_state_def)
  have len: "length S + length xs = length ys" using arg_cong [OF y(1), of length] by simp
  let ?t = "EndBlock env s"
  have t: "line_state p q n t (xs @ b # S) k (me_endScope env (length S + length xs) w) ?t" "bp_block ?t = y"
    using line_state_EndBlock [of p q n t x y ys k w s env] Cons.prems(1) y(1) s(2) len
    by (simp_all add: EndBlock_def)
  have "leave_blocks env s = leave_blocks env ?t"
    using s t(2) y(2) Cons.prems(2) by (subst leave_blocks.simps) (simp add: Let_def)
  then show ?case using Cons.IH [OF t(1)] Cons.prems(2-4) by auto
qed

lemma leave_blocks_restart:
  assumes "line_state p q n t (xs @ b # S) NoIndentSkip w s" "xs \<noteq> []" "\<forall>x \<in> set xs. n < depth x \<and> bs_type x \<noteq> loopBlock"
    "bs_type b = loopBlock"
  shows "yields (\<lambda>(again, u). again \<and> at_line (bs_fpos b) (b # S) NoIndentSkip (unwind env (length xs) (length S) w) u) (leave_blocks env s)"
  using assms
proof (induction xs arbitrary: w s)
  case (Cons x xs)
  obtain y ys where y: "xs @ b # S = y # ys" by (cases xs) auto
  have s: "bp_block s = x" "bp_outer s = y # ys" "indent_of s = n" using Cons.prems(1) y by (auto simp: line_state_def)
  have len: "length S + length xs = length ys" using arg_cong [OF y, of length] by simp
  let ?t = "EndBlock env s"
  have t: "line_state p q n t (xs @ b # S) NoIndentSkip (me_endScope env (length S + length xs) w) ?t" "bp_block ?t = y"
    using line_state_EndBlock [of p q n t x y ys NoIndentSkip w s env] Cons.prems(1) y s(2) len
    by (simp_all add: EndBlock_def)
  show ?case
  proof (cases "xs = []")
    case True
    then have b: "y = b" "ys = S" using y by auto
    have "leave_blocks env s = Some (True, sp_Init (restart_loop ?t))"
      using s t(2) Cons.prems(3,4) b by (subst leave_blocks.simps) (simp add: Let_def)
    moreover have "at_line (bs_fpos b) (b # S) NoIndentSkip (me_endScope env (length S) w) (sp_Init (restart_loop ?t))"
      using t True b at_line_Init [of "restart_loop ?t"]
      by (auto simp: line_state_def restart_loop_def RestartFrom_def sp_Init_def line_wf_def at_line_def fresh_def MaxGCodeLength_def)
    ultimately show ?thesis using True by simp
  next
    case False
    then have "bs_type y \<noteq> loopBlock" using y Cons.prems(3) by (cases xs) auto
    then have "leave_blocks env s = leave_blocks env ?t"
      using s t(2) Cons.prems(3) by (subst leave_blocks.simps) (simp add: Let_def)
    then show ?thesis using Cons.IH [OF t(1) False] Cons.prems(3,4) by simp
  qed
qed simp

section \<open>Arriving at a line\<close>

lemma line_state_flags:
  assumes "line_state p q n t stk k w s"
  shows "line_state p q n t stk k w
    (if sp_commandIndent s = 0 then s\<lparr>sp_seenLeadingSpace := False, sp_seenLeadingTab := False\<rparr> else CheckForMixedSpacesAndTabs env s)"
  using assms by (auto simp: line_state_def CheckForMixedSpacesAndTabs_def line_wf_def GetFilePosition_def)

lemma enter_line_cases:
  assumes "line_state p q n t stk k w s"
  obtains u where "line_state p q n t stk k w u"
    "enter_line env s = (case skip_block u of (skipping, skipped, v) \<Rightarrow> if skipping then Some (True, skipped, v) else settle env skipped v)"
  using line_state_flags [OF assms, of env] by (rule that) (simp add: enter_line_def Let_def)

text \<open>Lines that are skipped.\<close>

lemma enter_skipped:
  assumes "line_state p q n t stk k w s" "k \<noteq> NoIndentSkip" "unat k < n"
  shows "yields (\<lambda>(done, _, u). done \<and> at_line q stk k w u) (enter_line env s)"
proof -
  obtain u where u: "line_state p q n t stk k w u"
    "enter_line env s = (case skip_block u of (skipping, skipped, v) \<Rightarrow> if skipping then Some (True, skipped, v) else settle env skipped v)"
    by (rule enter_line_cases [OF assms(1)])
  have "skip_block u = (True, plainBlock, sp_Init u)"
    using u(1) assms(2,3) by (auto simp: skip_block_def line_state_def)
  then show ?thesis using u line_state_Init [OF u(1)] by simp
qed

text \<open>A line at the indentation of a block that is open: deeper ones are left.\<close>

definition resume :: "BlockState list \<Rightarrow> u16 \<Rightarrow> BlockState \<Rightarrow> BlockType \<times> BlockState" where
  "resume xs k b = (if k \<noteq> NoIndentSkip \<and> xs = [] then (bs_type b, SetBlock plainBlock b) else (plainBlock, b))"

lemma depth_SetBlock [simp]: "bs_indent (SetBlock ty b) = bs_indent b" "bs_type (SetBlock ty b) = ty"
  by (simp_all add: SetBlock_def)

lemma enter_open_block:
  assumes "line_state p q n t (xs @ b # S) k w s" "\<forall>x \<in> set xs. n < depth x" "depth b = n"
    "xs = [] \<or> bs_type b \<noteq> loopBlock \<and> (\<forall>x \<in> set xs. bs_type x \<noteq> loopBlock)"
    "k = NoIndentSkip \<or> k = bs_indent (hd (xs @ [b]))"
  shows "yields (\<lambda>(done, skipped, u). \<not> done \<and> skipped = fst (resume xs k b)
      \<and> line_state p q n t (snd (resume xs k b) # S) NoIndentSkip (unwind env (length xs) (length S) w) u) (enter_line env s)"
proof -
  obtain u where u: "line_state p q n t (xs @ b # S) k w u"
    "enter_line env s = (case skip_block u of (skipping, skipped, v) \<Rightarrow> if skipping then Some (True, skipped, v) else settle env skipped v)"
    by (rule enter_line_cases [OF assms(1)])
  let ?b = "snd (resume xs k b)"
  obtain v where v: "skip_block u = (False, fst (resume xs k b), v)" "line_state p q n t (xs @ ?b # S) NoIndentSkip w v"
  proof (cases "k = NoIndentSkip")
    case True
    then show thesis using that [of u] u(1) by (simp add: resume_def skip_block_def line_state_def Let_def)
  next
    case False
    show thesis
    proof (cases xs)
      case Nil
      then have "unat k = n" using False assms(3,5) by simp
      then show thesis using that [of "(set_block plainBlock u)\<lparr>bp_indentToSkipTo := NoIndentSkip\<rparr>"] u(1) Nil False
        by (auto simp: resume_def skip_block_def line_state_def line_wf_def GetFilePosition_def)
    next
      case (Cons x ys)
      then have "n < unat k" using False assms(2,5) by simp
      then show thesis using that [of "u\<lparr>bp_indentToSkipTo := NoIndentSkip\<rparr>"] u(1) Cons False
        by (auto simp: resume_def skip_block_def line_state_def line_wf_def GetFilePosition_def)
    qed
  qed
  have nl: "xs = [] \<or> bs_type ?b \<noteq> loopBlock \<and> (\<forall>x \<in> set xs. bs_type x \<noteq> loopBlock)"
    using assms(4) by (auto simp: resume_def)
  have d: "depth ?b = n" using assms(3) by (simp add: resume_def)
  obtain z where z: "leave_blocks env v = Some (False, z)" "line_state p q n t (?b # S) NoIndentSkip (unwind env (length xs) (length S) w) z"
    using leave_blocks_to [OF v(2) assms(2) _ nl, of env] d by (auto elim!: yieldsE)
  then have "GetBlockIndent z = n" "indent_of z = n" using d by (auto simp: line_state_def)
  then show ?thesis using u(2) v(1) z by (simp add: settle_def)
qed

text \<open>A line that is indented deeper than the current block opens a new one.\<close>

definition new_block :: "nat \<Rightarrow> BlockState" where
  "new_block n = \<lparr>bs_type = plainBlock, bs_fpos = 0, bs_lineNumber = 0, bs_iterations = 0, bs_indent = of_nat n\<rparr>"

lemma enter_new_block:
  assumes "line_state p q n t (b # S) NoIndentSkip w s" "depth b < n"
  shows "yields (\<lambda>(done, skipped, u). \<not> done \<and> skipped = plainBlock
      \<and> line_state p q n t (new_block n # b # S) NoIndentSkip w u) (enter_line env s)"
proof -
  obtain u where u: "line_state p q n t (b # S) NoIndentSkip w u"
    "enter_line env s = (case skip_block u of (skipping, skipped, v) \<Rightarrow> if skipping then Some (True, skipped, v) else settle env skipped v)"
    by (rule enter_line_cases [OF assms(1)])
  have n: "indent_of u = n" "bp_block u = b" "bp_outer u = S" using u(1) by (auto simp: line_state_def)
  have "skip_block u = (False, plainBlock, u)" using u(1) by (simp add: skip_block_def line_state_def Let_def)
  moreover have "leave_blocks env u = Some (False, u)" using n assms(2) by (subst leave_blocks.simps) simp
  moreover have "(ucast (sp_commandIndent u) :: u16) = of_nat n"
    using n(1) u8_bound [of "sp_commandIndent u"] by (simp add: word_unat_eq_iff unat_ucast_up unat_of_nat_small)
  then have "line_state p q n t (new_block n # b # S) NoIndentSkip w (CreateBlock (ucast (sp_commandIndent u)) u)"
    using u(1) n(2,3) by (auto simp: line_state_def CreateBlock_def new_block_def line_wf_def GetFilePosition_def)
  ultimately show ?thesis using u(2) n assms(2) by (simp add: settle_def)
qed

text \<open>A line that ends the body of a loop: back to the line of the loop.\<close>

lemma enter_restart:
  assumes "line_state p q n t (xs @ b # S) k w s" "xs \<noteq> []" "\<forall>x \<in> set xs. n < depth x \<and> bs_type x \<noteq> loopBlock" "bs_type b = loopBlock"
    "k = NoIndentSkip \<or> k = bs_indent (hd xs)"
  shows "yields (\<lambda>(done, _, u). done \<and> at_line (bs_fpos b) (b # S) NoIndentSkip (unwind env (length xs) (length S) w) u) (enter_line env s)"
proof -
  obtain u where u: "line_state p q n t (xs @ b # S) k w u"
    "enter_line env s = (case skip_block u of (skipping, skipped, v) \<Rightarrow> if skipping then Some (True, skipped, v) else settle env skipped v)"
    by (rule enter_line_cases [OF assms(1)])
  obtain v where v: "skip_block u = (False, plainBlock, v)" "line_state p q n t (xs @ b # S) NoIndentSkip w v"
  proof (cases "k = NoIndentSkip")
    case True
    then show thesis using that [of u] u(1) by (simp add: skip_block_def line_state_def Let_def)
  next
    case False
    then have "n < unat k" using assms(2,3,5) by (cases xs) auto
    then show thesis using that [of "u\<lparr>bp_indentToSkipTo := NoIndentSkip\<rparr>"] u(1) False
      by (auto simp: skip_block_def line_state_def line_wf_def GetFilePosition_def)
  qed
  obtain z where "leave_blocks env v = Some (True, z)"
    "at_line (bs_fpos b) (b # S) NoIndentSkip (unwind env (length xs) (length S) w) z"
    using leave_blocks_restart [OF v(2) assms(2-4), of env] by (auto elim!: yieldsE)
  then show ?thesis using u(2) v(1) by (simp add: settle_def)
qed

end
