(* ===== verification/GCodeStructured.thy ===== *)
theory GCodeStructured
  imports GCodeBlocksProps
begin

text \<open>
  Structured programs: what a file with nested \<open>if\<close>, \<open>while\<close>, \<open>break\<close> and \<open>continue\<close> means, as a big-step semantics
  of an abstract syntax, and the proof that the line machine, which sees one line at a time and knows only
  indentations and a stack of blocks, executes the printed program in that way.
\<close>

section \<open>One line of the file\<close>

text \<open>The state after a meta command, before the parser is made ready for the next line.\<close>

definition settled :: "nat \<Rightarrow> BlockState list \<Rightarrow> u16 \<Rightarrow> 'w \<Rightarrow> ('w, 'a) BlockParser_scheme \<Rightarrow> bool" where
  "settled q stk k w s \<longleftrightarrow> line_wf s \<and> \<not> sp_seenLeadingTab s \<and> \<not> sp_checksumRequired s \<and> \<not> sp_crcRequired s
     \<and> bp_position s = q \<and> bp_block s # bp_outer s = stk \<and> bp_indentToSkipTo s = k \<and> bp_fileOpen s \<and> bp_world s = w"

lemma line_state_settled: "line_state p q n t stk k w s \<Longrightarrow> settled q stk k w s"
  by (simp add: settled_def line_state_def)

lemma at_line_settled: "at_line q stk k w s \<Longrightarrow> settled q stk k w s"
  by (simp add: settled_def at_line_def fresh_def)

lemma settled_done:
  assumes "settled q stk k w v"
  shows "at_line q stk k w (sp_Init (CheckForMixedSpacesAndTabs env (v\<lparr>sp_seenMetaCommand := True, cp_commandEnd := e\<rparr>)))"
proof -
  let ?u = "CheckForMixedSpacesAndTabs env (v\<lparr>sp_seenMetaCommand := True, cp_commandEnd := e\<rparr>)"
  have "?u = v\<lparr>sp_seenMetaCommand := True, cp_commandEnd := e\<rparr>"
    using assms by (simp add: CheckForMixedSpacesAndTabs_def settled_def)
  then show ?thesis using at_line_Init [of ?u] assms by (simp add: settled_def line_wf_def)
qed

text \<open>The text in the buffer.\<close>

lemma line_text_is_text: "line_text lenv t \<Longrightarrow> is_text t"
  by (auto simp: line_text_def is_text_def list_all_iff stored_char_def)

lemma line_state_text:
  assumes "line_state p q n t stk k w s" "is_text t" "i \<le> length t"
  shows "text_from i s = drop i t" "command_word (sp_buffer s) = command_word (t @ [NUL])"
proof -
  obtain junk where b: "sp_buffer s = t @ NUL # junk" using assms(1) by (auto simp: line_state_def)
  show "text_from i s = drop i t" using assms(2,3) by (simp add: text_from_def b)
  have w: "takeWhile is_lower (take 9 (t @ NUL # r)) = takeWhile is_lower (take 9 t)" for r
    by (cases "9 - length t") (simp_all add: takeWhile_tail is_lower_def)
  have "length (takeWhile is_lower (take 9 t)) \<le> length t"
    using length_takeWhile_le [of is_lower "take 9 t"] by simp
  then have nth: "(t @ NUL # r) ! length (takeWhile is_lower (take 9 t)) = (t @ [NUL]) ! length (takeWhile is_lower (take 9 t))" for r
    by (simp add: nth_append)
  show "command_word (sp_buffer s) = command_word (t @ [NUL])"
    unfolding command_word_def Let_def b using w [of junk] w [of "[]"] nth [of junk] by (simp only:)
qed

lemma settled_updates [simp]:
  "settled q stk k w (s\<lparr>cp_commandLetter := c\<rparr>) = settled q stk k w s"
  "settled q stk k w (s\<lparr>sp_readPointer := i\<rparr>) = settled q stk k w s"
  by (simp_all add: settled_def line_wf_def)

lemma line_state_updates [simp]:
  "line_state p q n t stk k w (s\<lparr>cp_commandLetter := c\<rparr>) = line_state p q n t stk k w s"
  "line_state p q n t stk k w (s\<lparr>sp_readPointer := i\<rparr>) = line_state p q n t stk k w s"
  by (simp_all add: line_state_def line_wf_def GetFilePosition_def)

text \<open>A line with a meta command, once its block has been entered.\<close>

definition at_word :: "string \<Rightarrow> ('w, 'a) BlockParser_scheme \<Rightarrow> ('w, 'a) BlockParser_scheme" where
  "at_word word u = u\<lparr>cp_commandLetter := CHR ''E'', sp_readPointer := int (length word)\<rparr>"

lemma line_first:
  assumes "line_state p q n t stk k w s" "line_text lenv t"
  shows "sp_buffer s ! 0 \<noteq> CHR '';''" "\<not> sp_overflowed s"
proof -
  obtain c r where c: "t = c # r" "stored_char lenv c" using assms(2) by (cases t) (auto simp: line_text_def)
  then show "sp_buffer s ! 0 \<noteq> CHR '';''" using assms(1) by (auto simp: line_state_def stored_char_def)
  show "\<not> sp_overflowed s" using assms(1) by (simp add: line_state_def)
qed

lemma do_meta_line:
  assumes "line_state p q n t stk0 k0 w0 s" "line_text lenv t" "le_isDoingFile lenv"
    and "enter_line env s = Some (False, skipped, u)" "line_state p q n t stk k w u"
    and "command_word (t @ [NUL]) = Some word" "process_word True env skipped word (at_word word u) = Some (Some (Inr (), v))"
    and "settled q' stk' k' w' v"
  shows "yields (\<lambda>(out, z). out = Running \<and> at_line q' stk' k' w' z) (do_line lenv cenv env s)"
proof -
  have "command_word (sp_buffer u) = Some word"
    using line_state_text(2) [OF assms(5) line_text_is_text [OF assms(2)], of 0] assms(6) by simp
  then have "ProcessConditionalGCode env skipped True (u\<lparr>cp_commandLetter := CHR ''E''\<rparr>) = Some (Inr True, v)"
    using assms(7) by (simp add: ProcessConditionalGCode_def at_word_def)
  then have "CheckMetaCommand lenv env s = Some (Inr True,
      sp_Init (CheckForMixedSpacesAndTabs env (v\<lparr>sp_seenMetaCommand := True, cp_commandEnd := sp_gcodeLineEnd v\<rparr>)))"
    using line_first [OF assms(1,2)] assms(3,4) by (simp add: CheckMetaCommand_def Let_def)
  then show ?thesis
    using settled_done [OF assms(8), of env "sp_gcodeLineEnd v"] by (simp add: do_line_def) (simp add: at_line_def)
qed

text \<open>A line that is skipped, and one that ends the body of a loop.\<close>

lemma do_absorbed_line:
  assumes "line_state p q n t stk0 k0 w0 s" "line_text lenv t" "le_isDoingFile lenv"
    and "enter_line env s = Some (True, skipped, u)" "at_line q' stk' k' w' u"
  shows "do_line lenv cenv env s = Some (Running, u)"
  using line_first [OF assms(1,2)] assms(3-5) by (simp add: do_line_def CheckMetaCommand_def at_line_def)

text \<open>An ordinary line.\<close>

lemma do_ordinary_line:
  assumes "line_state p q n t stk0 k0 w0 s" "line_text lenv t" "le_isDoingFile lenv"
    and "enter_line env s = Some (False, skipped, u)" "line_state p q n t stk k w u"
    and "case command_word (t @ [NUL]) of None \<Rightarrow> True | Some word \<Rightarrow> process_word True env skipped word (at_word word u) = None"
  shows "\<exists>v. line_state p q n t stk k w v \<and>
    do_line lenv cenv env s = map_option (Pair Running) (Option.bind (DecodeCommand cenv v) (run_commands cenv env (length t + 1)))"
proof -
  have cw: "command_word (sp_buffer u) = command_word (t @ [NUL])"
    using line_state_text(2) [OF assms(5) line_text_is_text [OF assms(2)], of 0] by simp
  let ?u = "u\<lparr>cp_commandLetter := CHR ''E'', sp_readPointer := - 1\<rparr>"
  have "ProcessConditionalGCode env skipped True (u\<lparr>cp_commandLetter := CHR ''E''\<rparr>) = Some (Inr False, ?u)"
    using assms(6) by (auto simp: ProcessConditionalGCode_def at_word_def cw Let_def split: option.splits)
  then have "CheckMetaCommand lenv env s = Some (Inr False, ?u\<lparr>cp_commandLetter := cp_commandLetter u\<rparr>)"
    using line_first [OF assms(1,2)] assms(3,4) by (simp add: CheckMetaCommand_def)
  moreover have "line_state p q n t stk k w (?u\<lparr>cp_commandLetter := cp_commandLetter u\<rparr>)" using assms(5) by simp
  moreover from this have "sp_gcodeLineEnd (?u\<lparr>cp_commandLetter := cp_commandLetter u\<rparr>) = length t" by (simp add: line_state_def)
  ultimately show ?thesis by (intro exI [of _ "?u\<lparr>cp_commandLetter := cp_commandLetter u\<rparr>"]) (simp add: do_line_def)
qed

section \<open>Turns of the loop over the file\<close>

text \<open>After some turns the loop is in state \<open>t\<close>.\<close>

definition runs :: "LineEnv \<Rightarrow> CommandEnv \<Rightarrow> 'w MetaEnv \<Rightarrow> string \<Rightarrow> 'w BlockParser \<Rightarrow> 'w BlockParser \<Rightarrow> bool" where
  "runs lenv cenv env file s t \<longleftrightarrow> (\<exists>j. \<forall>m. file_run lenv cenv env file (j + m) s = file_run lenv cenv env file m t)"

lemma runs_refl: "runs lenv cenv env file s s"
  unfolding runs_def by (rule exI [of _ 0]) simp

lemma runs_trans:
  assumes "runs lenv cenv env file s t" "runs lenv cenv env file t u"
  shows "runs lenv cenv env file s u"
proof -
  obtain i j where "\<forall>m. file_run lenv cenv env file (i + m) s = file_run lenv cenv env file m t"
    "\<forall>m. file_run lenv cenv env file (j + m) t = file_run lenv cenv env file m u"
    using assms unfolding runs_def by blast
  then show ?thesis unfolding runs_def by (intro exI [of _ "i + j"]) (simp add: add.assoc)
qed

lemma runs_step: "file_step lenv cenv env file s = Some (Running, t) \<Longrightarrow> runs lenv cenv env file s t"
  unfolding runs_def by (rule exI [of _ 1]) simp

text \<open>Lines as pairs of their indentation and their text.\<close>

type_synonym line = "nat \<times> string"

definition text_of :: "line list \<Rightarrow> string" where
  "text_of ls = concat (map (\<lambda>(n, t). file_line n t) ls)"

lemma text_of_simps [simp]:
  "text_of [] = []" "text_of ((n, t) # ls) = file_line n t @ text_of ls" "text_of (ls @ ms) = text_of ls @ text_of ms"
  by (simp_all add: text_of_def)

definition lines_ok :: "LineEnv \<Rightarrow> line list \<Rightarrow> bool" where
  "lines_ok lenv ls \<longleftrightarrow> list_all (\<lambda>(n, t). n < 256 \<and> line_text lenv t) ls"

lemma lines_ok_simps [simp]:
  "lines_ok lenv []" "lines_ok lenv ((n, t) # ls) \<longleftrightarrow> n < 256 \<and> line_text lenv t \<and> lines_ok lenv ls"
  "lines_ok lenv (ls @ ms) \<longleftrightarrow> lines_ok lenv ls \<and> lines_ok lenv ms"
  by (auto simp: lines_ok_def)

text \<open>The lines that stand at position \<open>p\<close> of the file, with what comes after them.\<close>

definition stands :: "string \<Rightarrow> nat \<Rightarrow> string \<Rightarrow> bool" where
  "stands file p r \<longleftrightarrow> p \<le> length file \<and> drop p file = r"

lemma stands_append: "stands file p (a @ r) \<Longrightarrow> stands file (p + length a) r"
proof -
  assume a: "stands file p (a @ r)"
  then have "drop (length a) (drop p file) = r" by (simp add: stands_def)
  moreover have "length a + length r = length file - p" using a by (metis length_append length_drop stands_def)
  ultimately show ?thesis using a by (auto simp: stands_def add.commute)
qed

text \<open>The next line read, whatever becomes of it.\<close>

lemma next_line:
  assumes "at_line p stk k w s" "stands file p (file_line n t @ r)" "n < 256" "line_text lenv t"
  obtains u where "line_state p (p + length (file_line n t)) n t stk k w u"
    "file_step lenv cenv env file s = do_line lenv cenv env u"
proof -
  have d: "drop p file = file_line n t @ r" "p \<le> length file" using assms(2) by (simp_all add: stands_def)
  show thesis by (rule read_line [OF assms(1) d(1) assms(4,3) d(2)]) (rule that)
qed

text \<open>Lines that are skipped.\<close>

lemma skip_line:
  assumes "at_line p stk k w s" "stands file p (file_line n t @ r)" "n < 256" "line_text lenv t" "le_isDoingFile lenv"
    and "k \<noteq> NoIndentSkip" "unat k < n"
  shows "\<exists>s'. runs lenv cenv env file s s' \<and> at_line (p + length (file_line n t)) stk k w s'"
proof -
  obtain u where u: "line_state p (p + length (file_line n t)) n t stk k w u"
    "file_step lenv cenv env file s = do_line lenv cenv env u"
    by (rule next_line [OF assms(1-4)])
  obtain sk v where v: "enter_line env u = Some (True, sk, v)" "at_line (p + length (file_line n t)) stk k w v"
    using enter_skipped [OF u(1) assms(6,7), of env] by (auto elim!: yieldsE)
  have "file_step lenv cenv env file s = Some (Running, v)"
    using do_absorbed_line [OF u(1) assms(4,5) v] u(2) by simp
  then show ?thesis using v(2) runs_step by blast
qed

lemma skip_lines:
  "at_line p stk k w s \<Longrightarrow> stands file p (text_of ls @ r) \<Longrightarrow> lines_ok lenv ls \<Longrightarrow> le_isDoingFile lenv \<Longrightarrow>
   k \<noteq> NoIndentSkip \<Longrightarrow> list_all (\<lambda>(n, _). unat k < n) ls \<Longrightarrow>
   \<exists>s'. runs lenv cenv env file s s' \<and> at_line (p + length (text_of ls)) stk k w s'"
proof (induction ls arbitrary: p s)
  case Nil
  then show ?case by (intro exI [of _ s]) (simp add: runs_refl)
next
  case (Cons l ls)
  obtain n t where l: "l = (n, t)" by (cases l)
  have f: "stands file p (file_line n t @ text_of ls @ r)" "n < 256" "line_text lenv t" "lines_ok lenv ls" "unat k < n"
    "list_all (\<lambda>(n, _). unat k < n) ls"
    using Cons.prems by (simp_all add: l)
  obtain s1 where s1: "runs lenv cenv env file s s1" "at_line (p + length (file_line n t)) stk k w s1"
    using skip_line [OF Cons.prems(1) f(1-3) Cons.prems(4,5) f(5)] by blast
  obtain s2 where "runs lenv cenv env file s1 s2" "at_line (p + length (file_line n t) + length (text_of ls)) stk k w s2"
    using Cons.IH [OF s1(2) stands_append [OF f(1)] f(4) Cons.prems(4,5) f(6)] by blast
  then show ?case using runs_trans [OF s1(1)] by (auto simp: l add.assoc)
qed

section \<open>The meta commands\<close>

definition iters :: "BlockState list \<Rightarrow> int" where
  "iters stk = (case find (\<lambda>b. bs_type b = loopBlock) stk of Some b \<Rightarrow> sint (bs_iterations b) | None \<Rightarrow> - 1)"

lemma iters_Cons [simp]:
  "bs_type b \<noteq> loopBlock \<Longrightarrow> iters (b # S) = iters S" "bs_type b = loopBlock \<Longrightarrow> iters (b # S) = sint (bs_iterations b)"
  by (simp_all add: iters_def)

lemma EvaluateCondition_at_word:
  assumes "line_state p q n t (b # S) k w u" "line_text lenv t" "length word \<le> length t"
    and "me_condition env (drop (length word) t) (iters (b # S)) w = (Inr v, w1)"
  shows "EvaluateCondition env (at_word word u) = (Inr v, (at_word word u)\<lparr>bp_world := w1\<rparr>)"
proof -
  have "text_from (length word) u = drop (length word) t"
    by (rule line_state_text(1) [OF assms(1) line_text_is_text [OF assms(2)] assms(3)])
  then have "text_from (length word) (at_word word u) = drop (length word) t" by (simp add: text_from_def at_word_def)
  moreover have "GetIterations (at_word word u) = iters (b # S)" "bp_world (at_word word u) = w"
    using assms(1) by (auto simp: GetIterations_def iters_def at_word_def line_state_def)
  ultimately show ?thesis using assms(4) by (simp add: EvaluateCondition_def) (simp add: at_word_def)
qed

lemma settled_at_word: "settled q stk k w u \<Longrightarrow> settled q stk k w (at_word word u)"
  by (simp add: at_word_def)

lemma settled_block:
  assumes "settled q (b # S) k w u"
  shows "settled q (f b # S) k' w' (u\<lparr>bp_block := f b, bp_indentToSkipTo := k', bp_world := w'\<rparr>)"
  using assms by (simp add: settled_def line_wf_def)

lemma line_if:
  assumes "line_state p q n t (b # S) NoIndentSkip w u" "line_text lenv t" "t = ''if '' @ c"
    and "me_condition env (CHR '' '' # c) (iters (b # S)) w = (Inr v, w1)"
  shows "command_word (t @ [NUL]) = Some ''if''"
    and "\<exists>x. process_word True env skipped ''if'' (at_word ''if'' u) = Some (Some (Inr (), x))
      \<and> settled q (SetBlock (if v then ifTrue else ifFalseNoneTrue) b # S) (if v then NoIndentSkip else bs_indent b) w1 x"
proof -
  show "command_word (t @ [NUL]) = Some ''if''" by (simp add: assms(3) command_word_def is_lower_def Let_def)
  have ev: "EvaluateCondition env (at_word ''if'' u) = (Inr v, (at_word ''if'' u)\<lparr>bp_world := w1\<rparr>)"
    by (rule EvaluateCondition_at_word [OF assms(1,2)]) (use assms(3,4) in simp_all)
  have "settled q (b # S) NoIndentSkip w (at_word ''if'' u)" "bp_block (at_word ''if'' u) = b"
    using line_state_settled [OF assms(1)] assms(1) settled_at_word by (auto simp: line_state_def at_word_def)
  then show "\<exists>x. process_word True env skipped ''if'' (at_word ''if'' u) = Some (Some (Inr (), x))
      \<and> settled q (SetBlock (if v then ifTrue else ifFalseNoneTrue) b # S) (if v then NoIndentSkip else bs_indent b) w1 x"
    by (simp add: process_word_def ProcessIfCommand_def branch_on_def ev skip_this_block_def)
      (auto simp: settled_def line_wf_def)
qed

lemma line_else:
  assumes "line_state p q n t (b # S) NoIndentSkip w u" "line_text lenv t" "t = ''else''"
    and "skipped = ifFalseNoneTrue \<or> skipped = ifFalseHadTrue \<or> bs_type b = ifTrue"
  shows "command_word (t @ [NUL]) = Some ''else''"
    and "\<exists>x. process_word True env skipped ''else'' (at_word ''else'' u) = Some (Some (Inr (), x))
      \<and> settled q (SetBlock plainBlock b # S) (if skipped = ifFalseNoneTrue then NoIndentSkip else bs_indent b) w x"
proof -
  show "command_word (t @ [NUL]) = Some ''else''" by (simp add: assms(3) command_word_def is_lower_def Let_def)
  have "text_from 4 u = []"
    using line_state_text(1) [OF assms(1) line_text_is_text [OF assms(2)], of 4] assms(3) by simp
  then have "text_from 4 (at_word ''else'' u) = []" by (simp add: text_from_def at_word_def)
  moreover have "settled q (b # S) NoIndentSkip w (at_word ''else'' u)" "bp_block (at_word ''else'' u) = b"
    "sp_readPointer (at_word ''else'' u) = 4"
    using line_state_settled [OF assms(1)] assms(1) settled_at_word by (auto simp: line_state_def at_word_def)
  ultimately show "\<exists>x. process_word True env skipped ''else'' (at_word ''else'' u) = Some (Some (Inr (), x))
      \<and> settled q (SetBlock plainBlock b # S) (if skipped = ifFalseNoneTrue then NoIndentSkip else bs_indent b) w x"
    using assms(4) by (simp add: process_word_def ProcessElseCommand_def skip_this_block_def)
      (auto simp: settled_def line_wf_def)
qed

lemma line_elif:
  assumes "line_state p q n t (b # S) NoIndentSkip w u" "line_text lenv t" "t = ''elif '' @ c"
    and "skipped = ifFalseNoneTrue \<Longrightarrow> me_condition env (CHR '' '' # c) (iters (b # S)) w = (Inr v, w1)"
    and "skipped \<noteq> ifFalseNoneTrue \<Longrightarrow> (skipped = ifFalseHadTrue \<or> bs_type b = ifTrue) \<and> \<not> v \<and> w1 = w"
  shows "command_word (t @ [NUL]) = Some ''elif''"
    and "\<exists>x. process_word True env skipped ''elif'' (at_word ''elif'' u) = Some (Some (Inr (), x))
      \<and> settled q (SetBlock (if v then ifTrue else if skipped = ifFalseNoneTrue then ifFalseNoneTrue else ifFalseHadTrue) b # S)
          (if v then NoIndentSkip else bs_indent b) w1 x"
proof -
  show "command_word (t @ [NUL]) = Some ''elif''" by (simp add: assms(3) command_word_def is_lower_def Let_def)
  have st: "settled q (b # S) NoIndentSkip w (at_word ''elif'' u)" "bp_block (at_word ''elif'' u) = b"
    using line_state_settled [OF assms(1)] assms(1) settled_at_word by (auto simp: line_state_def at_word_def)
  show "\<exists>x. process_word True env skipped ''elif'' (at_word ''elif'' u) = Some (Some (Inr (), x))
      \<and> settled q (SetBlock (if v then ifTrue else if skipped = ifFalseNoneTrue then ifFalseNoneTrue else ifFalseHadTrue) b # S)
          (if v then NoIndentSkip else bs_indent b) w1 x"
  proof (cases "skipped = ifFalseNoneTrue")
    case True
    have ev: "EvaluateCondition env (at_word ''elif'' u) = (Inr v, (at_word ''elif'' u)\<lparr>bp_world := w1\<rparr>)"
      by (rule EvaluateCondition_at_word [OF assms(1,2)]) (use assms(3,4) True in simp_all)
    then show ?thesis using True st
      by (simp add: process_word_def ProcessElifCommand_def branch_on_def skip_this_block_def) (auto simp: settled_def line_wf_def)
  next
    case False
    then show ?thesis using assms(5) st
      by (simp add: process_word_def ProcessElifCommand_def skip_this_block_def) (auto simp: settled_def line_wf_def)
  qed
qed

text \<open>The block of a loop at the start of an iteration.\<close>

definition loop_at :: "nat \<Rightarrow> u32 \<Rightarrow> BlockState \<Rightarrow> bool" where
  "loop_at p k b \<longleftrightarrow> bs_type b = loopBlock \<and> bs_fpos b = p \<and> bs_iterations b = k"

lemma line_while:
  assumes "line_state p q n t (b # S) NoIndentSkip w u" "line_text lenv t" "t = ''while '' @ c"
    and "bs_type b \<noteq> loopBlock \<and> k = 0 \<or> loop_at p (k - 1) b"
    and "me_condition env (CHR '' '' # c) (sint k) w = (Inr v, w1)"
  shows "command_word (t @ [NUL]) = Some ''while''"
    and "\<exists>x b'. process_word True env skipped ''while'' (at_word ''while'' u) = Some (Some (Inr (), x))
      \<and> loop_at p k b' \<and> bs_indent b' = bs_indent b
      \<and> settled q ((if v then b' else SetBlock plainBlock b') # S) (if v then NoIndentSkip else bs_indent b) w1 x"
proof -
  show "command_word (t @ [NUL]) = Some ''while''" by (simp add: assms(3) command_word_def is_lower_def Let_def)
  let ?u = "at_word ''while'' u"
  let ?b = "if bs_type b = loopBlock then b\<lparr>bs_iterations := bs_iterations b + 1\<rparr> else SetLoopBlock (GetFilePosition ?u) (sp_lineNumber ?u - 1) b"
  let ?x = "u\<lparr>bp_block := ?b\<rparr>"
  have p: "GetFilePosition ?u = p" "bp_block ?u = b" using assms(1) by (auto simp: line_state_def GetFilePosition_def at_word_def)
  have b: "loop_at p k ?b" "bs_indent ?b = bs_indent b"
    using assms(4) p(1) by (auto simp: loop_at_def SetLoopBlock_def)
  have x: "line_state p q n t (?b # S) NoIndentSkip w ?x"
    using assms(1) by (auto simp: line_state_def line_wf_def GetFilePosition_def)
  have "EvaluateCondition env (at_word ''while'' ?x) = (Inr v, (at_word ''while'' ?x)\<lparr>bp_world := w1\<rparr>)"
  proof (rule EvaluateCondition_at_word [OF x assms(2)])
    have "bs_type ?b = loopBlock" "bs_iterations ?b = k" using b(1) by (simp_all add: loop_at_def)
    then have "iters (?b # S) = sint k" by (simp only: iters_Cons)
    then show "me_condition env (drop (length ''while'') t) (iters (?b # S)) w = (Inr v, w1)" using assms(3,5) by simp
  qed (use assms(3) in simp)
  moreover have "at_word ''while'' ?x = ?u\<lparr>bp_block := ?b\<rparr>" by (simp add: at_word_def)
  ultimately have ev: "EvaluateCondition env (?u\<lparr>bp_block := ?b\<rparr>) = (Inr v, ?u\<lparr>bp_block := ?b, bp_world := w1\<rparr>)" by simp
  have pw: "ProcessWhileCommand env ?u = Some (Inr (), if v then ?u\<lparr>bp_block := ?b, bp_world := w1\<rparr>
     else skip_this_block (?u\<lparr>bp_world := w1, bp_block := SetBlock plainBlock ?b\<rparr>))"
    using ev p(2) by (cases "bs_type b = loopBlock") (simp_all add: ProcessWhileCommand_def branch_on_def)
  have "settled q (?b # S) NoIndentSkip w (at_word ''while'' ?x)" by (rule settled_at_word [OF line_state_settled [OF x]])
  then have "settled q ((if v then ?b else SetBlock plainBlock ?b) # S) (if v then NoIndentSkip else bs_indent b) w1
     (if v then ?u\<lparr>bp_block := ?b, bp_world := w1\<rparr> else skip_this_block (?u\<lparr>bp_world := w1, bp_block := SetBlock plainBlock ?b\<rparr>))"
    using b(2) by (simp add: settled_def line_wf_def at_word_def skip_this_block_def)
  then show "\<exists>x b'. process_word True env skipped ''while'' ?u = Some (Some (Inr (), x))
      \<and> loop_at p k b' \<and> bs_indent b' = bs_indent b
      \<and> settled q ((if v then b' else SetBlock plainBlock b') # S) (if v then NoIndentSkip else bs_indent b) w1 x"
    using pw b by (auto simp: process_word_def)
qed

text \<open>Leaving blocks up to a loop.\<close>

lemma leave_to_loop_found:
  assumes "settled q (x # ys @ b # S) k w s" "0 < depth x" "\<forall>y \<in> set ys. 0 < depth y \<and> bs_type y \<noteq> loopBlock" "bs_type b = loopBlock"
  shows "yields (\<lambda>(r, z). r = Inr () \<and> settled q (b # S) k (unwind env (Suc (length ys)) (length S) w) z) (leave_to_loop env word s)"
  using assms
proof (induction ys arbitrary: x w s)
  case Nil
  then have s: "bp_block s = x" "bp_outer s = b # S" by (auto simp: settled_def)
  have "leave_to_loop env word s = Some (Inr (), EndBlock env s)"
    using Nil.prems s by (subst leave_to_loop.simps) (simp add: Let_def EndBlock_def)
  then show ?case using Nil.prems(1) s by (simp add: EndBlock_def settled_def line_wf_def)
next
  case (Cons y ys)
  then have s: "bp_block s = x" "bp_outer s = y # ys @ b # S" by (auto simp: settled_def)
  let ?t = "EndBlock env s"
  have t: "settled q (y # ys @ b # S) k (me_endScope env (length S + Suc (length ys)) w) ?t" "bp_block ?t = y"
    using Cons.prems(1) s by (simp_all add: EndBlock_def settled_def line_wf_def add.commute)
  have "leave_to_loop env word s = leave_to_loop env word ?t"
    using Cons.prems(2,3) s t(2) by (subst leave_to_loop.simps) (simp add: Let_def)
  then show ?case using Cons.IH [OF t(1)] Cons.prems(3,4) by simp
qed

lemma line_break:
  assumes "line_state p q n t (x # ys @ b # S) NoIndentSkip w u" "line_text lenv t" "t = ''break''"
    and "0 < depth x" "\<forall>y \<in> set ys. 0 < depth y \<and> bs_type y \<noteq> loopBlock" "bs_type b = loopBlock"
  shows "command_word (t @ [NUL]) = Some ''break''"
    and "\<exists>z. process_word True env skipped ''break'' (at_word ''break'' u) = Some (Some (Inr (), z))
      \<and> settled q (SetBlock plainBlock b # S) (bs_indent b) (unwind env (Suc (length ys)) (length S) w) z"
proof -
  show "command_word (t @ [NUL]) = Some ''break''" by (simp add: assms(3) command_word_def is_lower_def Let_def)
  obtain z where z: "leave_to_loop env ''break'' (at_word ''break'' u) = Some (Inr (), z)"
    "settled q (b # S) NoIndentSkip (unwind env (Suc (length ys)) (length S) w) z"
    using leave_to_loop_found [OF settled_at_word [OF line_state_settled [OF assms(1)]] assms(4-6), of env "''break''"]
    by (auto elim!: yieldsE)
  then show "\<exists>z. process_word True env skipped ''break'' (at_word ''break'' u) = Some (Some (Inr (), z))
      \<and> settled q (SetBlock plainBlock b # S) (bs_indent b) (unwind env (Suc (length ys)) (length S) w) z"
    by (auto simp: process_word_def ProcessBreakCommand_def skip_this_block_def settled_def line_wf_def)
qed

lemma line_continue:
  assumes "line_state p q n t (x # ys @ b # S) NoIndentSkip w u" "line_text lenv t" "t = ''continue''"
    and "0 < depth x" "\<forall>y \<in> set ys. 0 < depth y \<and> bs_type y \<noteq> loopBlock" "bs_type b = loopBlock"
  shows "command_word (t @ [NUL]) = Some ''continue''"
    and "\<exists>z. process_word True env skipped ''continue'' (at_word ''continue'' u) = Some (Some (Inr (), z))
      \<and> settled (bs_fpos b) (b # S) NoIndentSkip (unwind env (Suc (length ys)) (length S) w) z"
proof -
  show "command_word (t @ [NUL]) = Some ''continue''" by (simp add: assms(3) command_word_def is_lower_def Let_def)
  obtain z where z: "leave_to_loop env ''continue'' (at_word ''continue'' u) = Some (Inr (), z)"
    "settled q (b # S) NoIndentSkip (unwind env (Suc (length ys)) (length S) w) z"
    using leave_to_loop_found [OF settled_at_word [OF line_state_settled [OF assms(1)]] assms(4-6), of env "''continue''"]
    by (auto elim!: yieldsE)
  then show "\<exists>z. process_word True env skipped ''continue'' (at_word ''continue'' u) = Some (Some (Inr (), z))
      \<and> settled (bs_fpos b) (b # S) NoIndentSkip (unwind env (Suc (length ys)) (length S) w) z"
    by (auto simp: process_word_def ProcessContinueCommand_def restart_loop_def RestartFrom_def settled_def line_wf_def sp_Init_def
        MaxGCodeLength_def)
qed

text \<open>The other meta commands, and ordinary lines, as far as the blocks are concerned.\<close>

definition control_words :: "string set" where
  "control_words = {''if'', ''else'', ''elif'', ''while'', ''break'', ''continue'', ''abort''}"

text \<open>What decoding and executing the commands of a line does to the world, in whatever state the parser is.\<close>

definition commands_effect :: "CommandEnv \<Rightarrow> 'w MetaEnv \<Rightarrow> string \<Rightarrow> 'w \<Rightarrow> 'w \<Rightarrow> bool" where
  "commands_effect cenv env t w w' \<longleftrightarrow> (\<forall>s p q n stk k. line_state p q n t stk k w (s :: 'w BlockParser) \<longrightarrow>
     yields (at_line q stk k w') (Option.bind (DecodeCommand cenv s) (run_commands cenv env (length t + 1))))"

text \<open>A line without control flow, inside so many blocks, with the iterations of the innermost loop.\<close>

definition line_effect :: "CommandEnv \<Rightarrow> 'w MetaEnv \<Rightarrow> nat \<Rightarrow> int \<Rightarrow> string \<Rightarrow> 'w \<Rightarrow> 'w \<Rightarrow> bool" where
  "line_effect cenv env m i t w w' \<longleftrightarrow>
    (case command_word (t @ [NUL]) of None \<Rightarrow> commands_effect cenv env t w w'
     | Some word \<Rightarrow>
         if word \<in> {''var'', ''set'', ''echo'', ''global''} then me_other env word (drop (length word) t) i m w = (Inr (), w')
         else if word = ''skip'' then w' = w
         else word \<notin> control_words \<and> commands_effect cenv env t w w')"

lemma command_word_length: "command_word (t @ [NUL]) = Some word \<Longrightarrow> length word \<le> length t"
proof -
  assume "command_word (t @ [NUL]) = Some word"
  then have "word = takeWhile is_lower (take 9 (t @ [NUL]))" by (simp add: command_word_def Let_def split: if_splits)
  also have "\<dots> = takeWhile is_lower (take 9 t)" by (cases "9 - length t") (simp_all add: takeWhile_tail is_lower_def)
  finally show ?thesis using length_takeWhile_le [of is_lower "take 9 t"] by simp
qed

lemma process_word_other:
  "word \<in> {''var'', ''set'', ''echo'', ''global''} \<Longrightarrow> process_word d env skipped word s = Some (other_command env word s)"
  by (elim insertE emptyE) (simp_all add: process_word_def)

lemma line_plain:
  assumes "line_state p q n t stk0 k0 w0 s" "line_text lenv t" "le_isDoingFile lenv"
    and "enter_line env s = Some (False, skipped, u)" "line_state p q n t (b # S) NoIndentSkip w u"
    and "line_effect cenv env (length S) (iters (b # S)) t w w'"
  shows "yields (\<lambda>(out, z). out = Running \<and> at_line q (b # S) NoIndentSkip w' z) (do_line lenv cenv env (s :: 'w BlockParser))"
proof -
  have ordinary: ?thesis
    if c: "case command_word (t @ [NUL]) of None \<Rightarrow> True | Some word \<Rightarrow> process_word True env skipped word (at_word word u) = None"
      "commands_effect cenv env t w w'"
  proof -
    obtain v where v: "line_state p q n t (b # S) NoIndentSkip w v"
      "do_line lenv cenv env s = map_option (Pair Running) (Option.bind (DecodeCommand cenv v) (run_commands cenv env (length t + 1)))"
      using do_ordinary_line [OF assms(1-5) c(1), of cenv] by blast
    have "yields (at_line q (b # S) NoIndentSkip w') (Option.bind (DecodeCommand cenv v) (run_commands cenv env (length t + 1)))"
      using c(2) v(1) unfolding commands_effect_def by blast
    then show ?thesis by (simp add: v(2) del: run_commands.simps)
  qed
  show ?thesis
  proof (cases "command_word (t @ [NUL])")
    case None
    then show ?thesis using ordinary assms(6) by (simp add: line_effect_def)
  next
    case (Some word)
    have rest: "text_from (length word) u = drop (length word) t"
      by (rule line_state_text(1) [OF assms(5) line_text_is_text [OF assms(2)] command_word_length [OF Some]])
    have st: "settled q (b # S) NoIndentSkip w (at_word word u)" by (rule settled_at_word [OF line_state_settled [OF assms(5)]])
    consider "word \<in> {''var'', ''set'', ''echo'', ''global''}" | "word = ''skip''" "w' = w"
      | "word \<notin> {''var'', ''set'', ''echo'', ''global'', ''skip''}" "word \<notin> control_words" "commands_effect cenv env t w w'"
      using assms(6) Some by (auto simp: line_effect_def split: if_splits)
    then show ?thesis
    proof cases
      case 1
      have "me_other env word (drop (length word) t) (iters (b # S)) (length S) w = (Inr (), w')"
        using assms(6) Some 1 by (simp add: line_effect_def)
      moreover have "GetIterations (at_word word u) = iters (b # S)" "bp_world (at_word word u) = w" "bp_outer (at_word word u) = S"
        "nat (sp_readPointer (at_word word u)) = length word" "text_from (length word) (at_word word u) = drop (length word) t"
        using assms(5) rest by (auto simp: GetIterations_def iters_def at_word_def line_state_def text_from_def)
      ultimately have "process_word True env skipped word (at_word word u) = Some (Some (Inr (), (at_word word u)\<lparr>bp_world := w'\<rparr>))"
        by (simp only: process_word_other [OF 1] other_command_def prod.case)
      moreover have "settled q (b # S) NoIndentSkip w' ((at_word word u)\<lparr>bp_world := w'\<rparr>)"
        using st by (simp add: settled_def line_wf_def)
      ultimately show ?thesis by (rule do_meta_line [OF assms(1-5) Some])
    next
      case 2
      have "process_word True env skipped word (at_word word u) = Some (Some (Inr (), at_word word u))"
        by (simp add: process_word_def 2)
      from do_meta_line [OF assms(1-5) Some this st] 2(2) show ?thesis by simp
    next
      case 3
      then show ?thesis using ordinary Some by (simp add: process_word_def control_words_def)
    qed
  qed
qed

section \<open>Structured programs\<close>

text \<open>
  The body of a branch or loop is indented by one space more than its line, and by as many again as its number says.
\<close>

datatype stmt =
    LineS string
  | IfS string nat "stmt list" tail
  | WhileS string nat "stmt list"
  | BreakS
  | ContinueS
and tail =
    EndIf
  | ElseT nat "stmt list"
  | ElifT string nat "stmt list" tail

fun lay :: "nat \<Rightarrow> stmt list \<Rightarrow> line list" and lay1 :: "nat \<Rightarrow> stmt \<Rightarrow> line list" and layt :: "nat \<Rightarrow> tail \<Rightarrow> line list" where
  "lay n [] = []"
| "lay n (s # ss) = lay1 n s @ lay n ss"
| "lay1 n (LineS t) = [(n, t)]"
| "lay1 n (IfS c d b t) = (n, ''if '' @ c) # lay (n + 1 + d) b @ layt n t"
| "lay1 n (WhileS c d b) = (n, ''while '' @ c) # lay (n + 1 + d) b"
| "lay1 n BreakS = [(n, ''break'')]"
| "lay1 n ContinueS = [(n, ''continue'')]"
| "layt n EndIf = []"
| "layt n (ElseT d b) = (n, ''else'') # lay (n + 1 + d) b"
| "layt n (ElifT c d b t) = (n, ''elif '' @ c) # lay (n + 1 + d) b @ layt n t"

text \<open>No body is empty.\<close>

fun bodies :: "stmt list \<Rightarrow> bool" and bodies1 :: "stmt \<Rightarrow> bool" and bodiest :: "tail \<Rightarrow> bool" where
  "bodies [] \<longleftrightarrow> True"
| "bodies (s # ss) \<longleftrightarrow> bodies1 s \<and> bodies ss"
| "bodies1 (IfS c d b t) \<longleftrightarrow> b \<noteq> [] \<and> bodies b \<and> bodiest t"
| "bodies1 (WhileS c d b) \<longleftrightarrow> b \<noteq> [] \<and> bodies b"
| "bodies1 _ \<longleftrightarrow> True"
| "bodiest EndIf \<longleftrightarrow> True"
| "bodiest (ElseT d b) \<longleftrightarrow> b \<noteq> [] \<and> bodies b"
| "bodiest (ElifT c d b t) \<longleftrightarrow> b \<noteq> [] \<and> bodies b \<and> bodiest t"

lemma lay_deep:
  "list_all (\<lambda>(m, _). n \<le> m) (lay n ss)" "list_all (\<lambda>(m, _). n \<le> m) (lay1 n s)" "list_all (\<lambda>(m, _). n \<le> m) (layt n t)"
proof (induction n ss and n s and n t rule: lay_lay1_layt.induct)
qed (auto simp: list_all_iff split_beta' dest!: bspec)

text \<open>
  What a program means, inside \<open>m\<close> blocks and with the number \<open>i\<close> of iterations of the innermost loop: it runs to its end, or
  leaves the loop, or starts its next iteration. The scope of a body ends with it.
\<close>

datatype flow = Normal | Brk | Cont

inductive
  exec :: "CommandEnv \<Rightarrow> 'w MetaEnv \<Rightarrow> nat \<Rightarrow> int \<Rightarrow> stmt list \<Rightarrow> 'w \<Rightarrow> flow \<Rightarrow> 'w \<Rightarrow> bool" and
  exec1 :: "CommandEnv \<Rightarrow> 'w MetaEnv \<Rightarrow> nat \<Rightarrow> int \<Rightarrow> stmt \<Rightarrow> 'w \<Rightarrow> flow \<Rightarrow> 'w \<Rightarrow> bool" and
  exect :: "CommandEnv \<Rightarrow> 'w MetaEnv \<Rightarrow> nat \<Rightarrow> int \<Rightarrow> tail \<Rightarrow> 'w \<Rightarrow> flow \<Rightarrow> 'w \<Rightarrow> bool" and
  execw :: "CommandEnv \<Rightarrow> 'w MetaEnv \<Rightarrow> nat \<Rightarrow> nat \<Rightarrow> string \<Rightarrow> stmt list \<Rightarrow> 'w \<Rightarrow> 'w \<Rightarrow> bool"
  for cenv env where
  exec_Nil: "exec cenv env m i [] w Normal w"
| exec_Cons: "exec1 cenv env m i s w Normal w1 \<Longrightarrow> exec cenv env m i ss w1 f w2 \<Longrightarrow> exec cenv env m i (s # ss) w f w2"
| exec_Jump: "exec1 cenv env m i s w f w1 \<Longrightarrow> f \<noteq> Normal \<Longrightarrow> exec cenv env m i (s # ss) w f w1"
| exec_Line: "line_effect cenv env m i t w w1 \<Longrightarrow> exec1 cenv env m i (LineS t) w Normal w1"
| exec_If: "me_condition env (CHR '' '' # c) i w = (Inr True, w1) \<Longrightarrow> exec cenv env (m + 1) i b w1 f w2 \<Longrightarrow>
    exec1 cenv env m i (IfS c d b t) w f (me_endScope env m w2)"
| exec_If_not: "me_condition env (CHR '' '' # c) i w = (Inr False, w1) \<Longrightarrow> exect cenv env m i t w1 f w2 \<Longrightarrow>
    exec1 cenv env m i (IfS c d b t) w f w2"
| exec_EndIf: "exect cenv env m i EndIf w Normal w"
| exec_Else: "exec cenv env (m + 1) i b w f w1 \<Longrightarrow> exect cenv env m i (ElseT d b) w f (me_endScope env m w1)"
| exec_Elif: "me_condition env (CHR '' '' # c) i w = (Inr True, w1) \<Longrightarrow> exec cenv env (m + 1) i b w1 f w2 \<Longrightarrow>
    exect cenv env m i (ElifT c d b t) w f (me_endScope env m w2)"
| exec_Elif_not: "me_condition env (CHR '' '' # c) i w = (Inr False, w1) \<Longrightarrow> exect cenv env m i t w1 f w2 \<Longrightarrow>
    exect cenv env m i (ElifT c d b t) w f w2"
| exec_While: "execw cenv env m 0 c b w w1 \<Longrightarrow> exec1 cenv env m i (WhileS c d b) w Normal w1"
| exec_Done: "me_condition env (CHR '' '' # c) (int k) w = (Inr False, w1) \<Longrightarrow> execw cenv env m k c b w w1"
| exec_Left: "me_condition env (CHR '' '' # c) (int k) w = (Inr True, w1) \<Longrightarrow> exec cenv env (m + 1) (int k) b w1 Brk w2 \<Longrightarrow>
    execw cenv env m k c b w (me_endScope env m w2)"
| exec_Again: "me_condition env (CHR '' '' # c) (int k) w = (Inr True, w1) \<Longrightarrow> exec cenv env (m + 1) (int k) b w1 f w2 \<Longrightarrow>
    f \<noteq> Brk \<Longrightarrow> k + 1 < 2 ^ 31 \<Longrightarrow> execw cenv env m (k + 1) c b (me_endScope env m w2) w3 \<Longrightarrow> execw cenv env m k c b w w3"
| exec_Break: "0 \<le> i \<Longrightarrow> exec1 cenv env m i BreakS w Brk w"
| exec_Continue: "0 \<le> i \<Longrightarrow> exec1 cenv env m i ContinueS w Cont w"

section \<open>The stack of blocks before and after a program\<close>

text \<open>
  After the last line of a program at indentation \<open>n\<close> on the stack \<open>S\<close>, its block and perhaps deeper ones are still open, and
  the world is that after those are left.
\<close>

definition after_list :: "'w MetaEnv \<Rightarrow> nat \<Rightarrow> BlockState list \<Rightarrow> BlockState list \<Rightarrow> u16 \<Rightarrow> 'w \<Rightarrow> 'w \<Rightarrow> bool" where
  "after_list env n S stk k w w' \<longleftrightarrow> (\<exists>xs b. stk = xs @ b # S \<and> depth b = n \<and> bs_type b \<noteq> loopBlock
     \<and> (\<forall>x \<in> set xs. n < depth x \<and> bs_type x \<noteq> loopBlock) \<and> (k = NoIndentSkip \<or> k = bs_indent (hd stk))
     \<and> w' = unwind env (length xs) (length S) w)"

text \<open>Before a program its block may not have been opened yet.\<close>

definition before_list :: "'w MetaEnv \<Rightarrow> nat \<Rightarrow> BlockState list \<Rightarrow> BlockState list \<Rightarrow> u16 \<Rightarrow> 'w \<Rightarrow> 'w \<Rightarrow> bool" where
  "before_list env n S stk k w w' \<longleftrightarrow> after_list env n S stk k w w'
     \<or> (S \<noteq> [] \<and> stk = S \<and> depth (hd S) < n \<and> k = NoIndentSkip \<and> w' = w)"

definition stack_ok :: "nat \<Rightarrow> BlockState list \<Rightarrow> bool" where
  "stack_ok n S \<longleftrightarrow> (\<forall>b \<in> set S. depth b < n) \<and> sorted_wrt (\<lambda>a b. depth b < depth a) S"

text \<open>What follows a program is the end of the file, or a line that is not indented deeper.\<close>

definition follows :: "LineEnv \<Rightarrow> nat \<Rightarrow> string \<Rightarrow> bool" where
  "follows lenv n r \<longleftrightarrow> r = [] \<or> (\<exists>j t r'. r = file_line j t @ r' \<and> j \<le> n \<and> j < 256 \<and> line_text lenv t)"

text \<open>
  How a program ends: behind its last line; or in the loop that encloses it, which is left, so that the rest is skipped; or
  at the line of that loop.
\<close>

fun outcome :: "'w MetaEnv \<Rightarrow> nat \<Rightarrow> BlockState list \<Rightarrow> flow \<Rightarrow> nat \<Rightarrow> 'w \<Rightarrow> 'w BlockParser \<Rightarrow> bool" where
  "outcome env n S Normal p w' s \<longleftrightarrow> (\<exists>stk k w. at_line p stk k w s \<and> after_list env n S stk k w w')"
| "outcome env n S Brk p w' s \<longleftrightarrow> (\<exists>ys b T. S = ys @ b # T \<and> (\<forall>y \<in> set ys. bs_type y \<noteq> loopBlock) \<and> bs_type b = loopBlock
     \<and> at_line p (SetBlock plainBlock b # T) (bs_indent b) (unwind env (Suc (length ys)) (length T) w') s)"
| "outcome env n S Cont p w' s \<longleftrightarrow> (\<exists>ys b T. S = ys @ b # T \<and> (\<forall>y \<in> set ys. bs_type y \<noteq> loopBlock) \<and> bs_type b = loopBlock
     \<and> at_line (bs_fpos b) (b # T) NoIndentSkip (unwind env (Suc (length ys)) (length T) w') s)"

lemma small_indent: "depth b < 256 \<Longrightarrow> bs_indent b \<noteq> NoIndentSkip"
  by (auto simp: NoIndentSkip_def)

lemma unwind_pop: "m + Suc j = l \<Longrightarrow> unwind env (Suc (Suc j)) m w = unwind env (Suc j) m (me_endScope env l w)"
  by simp

lemma outcome_pop:
  assumes "outcome env (n + 1 + d) (b # S) f p w s" "depth b = n" "bs_type b \<noteq> loopBlock"
  shows "outcome env n S f p (me_endScope env (length S) w) s"
proof (cases f)
  case Normal
  then obtain stk k w0 xs x where a: "at_line p stk k w0 s" "stk = xs @ x # b # S" "depth x = n + 1 + d" "bs_type x \<noteq> loopBlock"
    "\<forall>y \<in> set xs. n + 1 + d < depth y \<and> bs_type y \<noteq> loopBlock" "k = NoIndentSkip \<or> k = bs_indent (hd stk)"
    "w = unwind env (length xs) (Suc (length S)) w0"
    using assms(1) by (auto simp: after_list_def)
  have "after_list env n S stk k w0 (me_endScope env (length S) w)"
    unfolding after_list_def
    by (rule exI [of _ "xs @ [x]"], rule exI [of _ b])
      (use a(2-7) assms(2,3) in \<open>auto simp: unwind_last simp del: unwind.simps(2)\<close>)
  then show ?thesis using a(1) Normal by auto
next
  case Brk
  then obtain ys c T where a: "b # S = ys @ c # T" "\<forall>y \<in> set ys. bs_type y \<noteq> loopBlock" "bs_type c = loopBlock"
    "at_line p (SetBlock plainBlock c # T) (bs_indent c) (unwind env (Suc (length ys)) (length T) w) s"
    using assms(1) by auto
  then obtain zs where z: "ys = b # zs" "S = zs @ c # T" using assms(3) by (cases ys) auto
  have "length T + Suc (length zs) = length S" by (simp add: z(2))
  then have "unwind env (Suc (length ys)) (length T) w = unwind env (Suc (length zs)) (length T) (me_endScope env (length S) w)"
    using unwind_pop by (simp add: z(1) del: unwind.simps)
  then show ?thesis using a(2-4) z Brk by auto
next
  case Cont
  then obtain ys c T where a: "b # S = ys @ c # T" "\<forall>y \<in> set ys. bs_type y \<noteq> loopBlock" "bs_type c = loopBlock"
    "at_line (bs_fpos c) (c # T) NoIndentSkip (unwind env (Suc (length ys)) (length T) w) s"
    using assms(1) by auto
  then obtain zs where z: "ys = b # zs" "S = zs @ c # T" using assms(3) by (cases ys) auto
  have "length T + Suc (length zs) = length S" by (simp add: z(2))
  then have "unwind env (Suc (length ys)) (length T) w = unwind env (Suc (length zs)) (length T) (me_endScope env (length S) w)"
    using unwind_pop by (simp add: z(1) del: unwind.simps)
  then show ?thesis using a(2-4) z Cont by auto
qed

lemma before_body:
  assumes "depth b = n"
  shows "before_list env (n + 1 + d) (b # S) (b # S) NoIndentSkip w w"
  using assms by (simp add: before_list_def)

lemma stack_ok_push: "stack_ok n S \<Longrightarrow> depth b = n \<Longrightarrow> stack_ok (n + 1 + d) (b # S)"
  by (auto simp: stack_ok_def)

lemma follows_mono: "follows lenv n r \<Longrightarrow> n \<le> m \<Longrightarrow> follows lenv m r"
  unfolding follows_def by (metis le_trans)

lemma follows_line: "n < 256 \<Longrightarrow> line_text lenv t \<Longrightarrow> n \<le> m \<Longrightarrow> follows lenv m (file_line n t @ r)"
  by (auto simp: follows_def)

lemma follows_lines:
  assumes "follows lenv n r" "ls = [] \<or> fst (hd ls) \<le> m" "lines_ok lenv ls" "n \<le> m"
  shows "follows lenv m (text_of ls @ r)"
proof (cases ls)
  case Nil
  then show ?thesis using follows_mono [OF assms(1,4)] by simp
next
  case (Cons l ls')
  then show ?thesis using assms(2,3) by (cases l) (auto intro: follows_line)
qed

lemma lay_first: "ss \<noteq> [] \<Longrightarrow> fst (hd (lay n ss)) = n" "lay1 n s \<noteq> []" "fst (hd (lay1 n s)) = n" "t \<noteq> EndIf \<Longrightarrow> fst (hd (layt n t)) = n"
proof -
  show a: "lay1 n s \<noteq> []" "fst (hd (lay1 n s)) = n" for s by (cases s; simp)+
  show "fst (hd (lay n ss)) = n" if "ss \<noteq> []" using that a by (cases ss) (auto simp: hd_append)
  show "fst (hd (layt n t)) = n" if "t \<noteq> EndIf" using that by (cases t) auto
qed

text \<open>Arriving at a line of the program.\<close>

lemma arrive:
  assumes "at_line p stk k w0 s" "before_list env n S stk k w0 w" "stands file p (file_line n t @ r)" "n < 256" "line_text lenv t"
  obtains u0 u b skipped where "file_step lenv cenv env file s = do_line lenv cenv env u0"
    "line_state p (p + length (file_line n t)) n t stk k w0 u0" "enter_line env u0 = Some (False, skipped, u)"
    "line_state p (p + length (file_line n t)) n t (b # S) NoIndentSkip w u" "depth b = n" "bs_type b \<noteq> loopBlock"
proof -
  obtain u0 where u0: "line_state p (p + length (file_line n t)) n t stk k w0 u0"
    "file_step lenv cenv env file s = do_line lenv cenv env u0"
    by (rule next_line [OF assms(1,3-5)])
  from assms(2) consider "after_list env n S stk k w0 w" | "S \<noteq> []" "stk = S" "depth (hd S) < n" "k = NoIndentSkip" "w = w0"
    by (auto simp: before_list_def)
  then show thesis
  proof cases
    case 1
    then obtain xs b where a: "stk = xs @ b # S" "depth b = n" "bs_type b \<noteq> loopBlock"
      "\<forall>x \<in> set xs. n < depth x \<and> bs_type x \<noteq> loopBlock" "k = NoIndentSkip \<or> k = bs_indent (hd (xs @ [b]))"
      "w = unwind env (length xs) (length S) w0"
      by (auto simp: after_list_def hd_append)
    let ?b = "snd (resume xs k b)"
    have "depth ?b = n" "bs_type ?b \<noteq> loopBlock" using a(2,3) by (simp_all add: resume_def)
    moreover have "yields (\<lambda>(done, sk, u). \<not> done \<and> sk = fst (resume xs k b)
      \<and> line_state p (p + length (file_line n t)) n t (?b # S) NoIndentSkip w u) (enter_line env u0)"
      unfolding a(6) by (rule enter_open_block [OF u0(1) [unfolded a(1)]]) (use a in auto)
    ultimately show thesis using that u0 by (auto elim!: yieldsE)
  next
    case 2
    then obtain b T where S: "S = b # T" by (cases S) auto
    have "yields (\<lambda>(done, sk, u). \<not> done \<and> sk = plainBlock
      \<and> line_state p (p + length (file_line n t)) n t (new_block n # S) NoIndentSkip w u) (enter_line env u0)"
      unfolding S 2(5) by (rule enter_new_block) (use u0(1) 2 S in auto)
    moreover have "depth (new_block n) = n" "bs_type (new_block n) \<noteq> loopBlock"
      using assms(4) by (simp_all add: new_block_def unat_of_nat_small)
    ultimately show thesis using that u0 by (auto elim!: yieldsE)
  qed
qed

section \<open>The turns of a program\<close>

lemma meta_turn:
  assumes "file_step lenv cenv env file s = do_line lenv cenv env u0" "line_state p q n t stk0 k0 w0 u0" "line_text lenv t"
    "le_isDoingFile lenv" "enter_line env u0 = Some (False, skipped, u)" "line_state p q n t stk k w u"
    "command_word (t @ [NUL]) = Some word"
    and "\<exists>x. process_word True env skipped word (at_word word u) = Some (Some (Inr (), x)) \<and> settled q' stk' k' w' x"
  shows "\<exists>s'. runs lenv cenv env file s s' \<and> at_line q' stk' k' w' s'"
proof -
  obtain x where x: "process_word True env skipped word (at_word word u) = Some (Some (Inr (), x))" "settled q' stk' k' w' x"
    using assms(8) by blast
  from do_meta_line [OF assms(2-7) x, of cenv] show ?thesis
    using assms(1) runs_step [of lenv cenv env "file" s] by (auto elim!: yieldsE)
qed

text \<open>What a program needs of the place where it stands.\<close>

definition program_at :: "LineEnv \<Rightarrow> string \<Rightarrow> nat \<Rightarrow> BlockState list \<Rightarrow> nat \<Rightarrow> line list \<Rightarrow> string \<Rightarrow> bool" where
  "program_at lenv file n S p ls r \<longleftrightarrow> le_isDoingFile lenv \<and> stack_ok n S \<and> stands file p (text_of ls @ r) \<and> lines_ok lenv ls
     \<and> n < 256 \<and> follows lenv n r"

lemma if_turn:
  assumes "at_line p stk k w0 s" "before_list env n S stk k w0 w" "program_at lenv file n S p ((n, ''if '' @ c) # ls) r"
    "me_condition env (CHR '' '' # c) (iters S) w = (Inr v, w1)"
  obtains s' b where "runs lenv cenv env file s s'" "depth b = n" "bs_type b = (if v then ifTrue else ifFalseNoneTrue)"
    "at_line (p + length (file_line n (''if '' @ c))) (b # S) (if v then NoIndentSkip else bs_indent b) w1 s'"
proof -
  let ?t = "''if '' @ c"
  have pr: "stands file p (file_line n ?t @ text_of ls @ r)" "n < 256" "line_text lenv ?t" "le_isDoingFile lenv"
    using assms(3) by (simp_all add: program_at_def)
  obtain u0 u b sk where a: "file_step lenv cenv env file s = do_line lenv cenv env u0"
    "line_state p (p + length (file_line n ?t)) n ?t stk k w0 u0" "enter_line env u0 = Some (False, sk, u)"
    "line_state p (p + length (file_line n ?t)) n ?t (b # S) NoIndentSkip w u" "depth b = n" "bs_type b \<noteq> loopBlock"
    by (rule arrive [OF assms(1,2) pr(1-3)])
  have "me_condition env (CHR '' '' # c) (iters (b # S)) w = (Inr v, w1)" using assms(4) a(6) by simp
  note l = line_if [OF a(4) pr(3) refl this]
  obtain s' where "runs lenv cenv env file s s'" "at_line (p + length (file_line n ?t))
      (SetBlock (if v then ifTrue else ifFalseNoneTrue) b # S) (if v then NoIndentSkip else bs_indent b) w1 s'"
    using meta_turn [OF a(1,2) pr(3,4) a(3,4) l] by blast
  then show thesis using that [of s' "SetBlock (if v then ifTrue else ifFalseNoneTrue) b"] a(5) by (cases v) simp_all
qed

text \<open>Lines of a program that are skipped because an enclosing block is.\<close>

lemma skip_program:
  assumes "at_line p (b # T) (bs_indent b) w s" "depth b \<le> n" "n < 256" "stands file p (text_of ls @ r)" "lines_ok lenv ls"
    "le_isDoingFile lenv" "list_all (\<lambda>(m, _). n < m) ls \<or> depth b < n \<and> list_all (\<lambda>(m, _). n \<le> m) ls"
  shows "\<exists>s'. runs lenv cenv env file s s' \<and> at_line (p + length (text_of ls)) (b # T) (bs_indent b) w s'"
proof (rule skip_lines [OF assms(1,4,5,6)])
  show "bs_indent b \<noteq> NoIndentSkip" by (rule small_indent) (use assms(2,3) in simp)
  show "list_all (\<lambda>(m, _). depth b < m) ls" using assms(2,7) by (auto simp: list_all_iff split_beta')
qed

lemma lay_inside: "list_all (\<lambda>(m, _). n < m) (lay (n + 1 + d) ss)"
  using lay_deep(1) [of "n + 1 + d" ss] by (auto simp: list_all_iff split_beta')

text \<open>The rest of a program after its loop has been left.\<close>

lemma skip_rest:
  assumes "outcome env n S Brk p w s" "stack_ok n S" "n < 256" "stands file p (text_of ls @ r)" "lines_ok lenv ls" "le_isDoingFile lenv"
    "list_all (\<lambda>(m, _). n \<le> m) ls"
  shows "\<exists>s'. runs lenv cenv env file s s' \<and> outcome env n S Brk (p + length (text_of ls)) w s'"
proof -
  obtain ys b T where b: "S = ys @ b # T" "\<forall>y \<in> set ys. bs_type y \<noteq> loopBlock" "bs_type b = loopBlock"
    "at_line p (SetBlock plainBlock b # T) (bs_indent b) (unwind env (Suc (length ys)) (length T) w) s"
    using assms(1) by auto
  have "depth b < n" using assms(2) b(1) by (simp add: stack_ok_def)
  then have "\<exists>s'. runs lenv cenv env file s s' \<and> at_line (p + length (text_of ls)) (SetBlock plainBlock b # T)
      (bs_indent (SetBlock plainBlock b)) (unwind env (Suc (length ys)) (length T) w) s'"
    by (intro skip_program [OF _ _ assms(3-6)]) (use b(4) assms(7) in simp_all)
  then show ?thesis using b by auto
qed

text \<open>After a branch has been taken, its alternatives are passed over.\<close>

definition taken :: "'w MetaEnv \<Rightarrow> nat \<Rightarrow> BlockState list \<Rightarrow> BlockState list \<Rightarrow> u16 \<Rightarrow> 'w \<Rightarrow> 'w \<Rightarrow> bool" where
  "taken env n S stk k w w' \<longleftrightarrow> (\<exists>xs b. stk = xs @ b # S \<and> depth b = n
     \<and> (\<forall>x \<in> set xs. n < depth x \<and> bs_type x \<noteq> loopBlock) \<and> (k = NoIndentSkip \<or> k = bs_indent (hd stk))
     \<and> w' = unwind env (length xs) (length S) w
     \<and> (xs \<noteq> [] \<and> bs_type b = ifTrue \<or> xs = [] \<and> k = bs_indent b \<and> bs_type b = ifFalseHadTrue))"

lemma taken_after: "taken env n S stk k w w' \<Longrightarrow> after_list env n S stk k w w'"
  unfolding taken_def after_list_def by force

lemma arrive_taken:
  assumes "at_line p stk k w0 s" "taken env n S stk k w0 w" "stands file p (file_line n t @ r)" "n < 256" "line_text lenv t"
  obtains u0 u b skipped where "file_step lenv cenv env file s = do_line lenv cenv env u0"
    "line_state p (p + length (file_line n t)) n t stk k w0 u0" "enter_line env u0 = Some (False, skipped, u)"
    "line_state p (p + length (file_line n t)) n t (b # S) NoIndentSkip w u" "depth b = n"
    "skipped \<noteq> ifFalseNoneTrue" "skipped = ifFalseHadTrue \<or> bs_type b = ifTrue"
proof -
  obtain u0 where u0: "line_state p (p + length (file_line n t)) n t stk k w0 u0"
    "file_step lenv cenv env file s = do_line lenv cenv env u0"
    by (rule next_line [OF assms(1,3-5)])
  obtain xs b where a: "stk = xs @ b # S" "depth b = n" "\<forall>x \<in> set xs. n < depth x \<and> bs_type x \<noteq> loopBlock"
    "k = NoIndentSkip \<or> k = bs_indent (hd (xs @ [b]))" "w = unwind env (length xs) (length S) w0"
    "xs \<noteq> [] \<and> bs_type b = ifTrue \<or> xs = [] \<and> k = bs_indent b \<and> bs_type b = ifFalseHadTrue"
    using assms(2) by (auto simp: taken_def hd_append)
  have k: "xs = [] \<Longrightarrow> k \<noteq> NoIndentSkip" using a(2,6) small_indent [of b] assms(4) by auto
  let ?sk = "fst (resume xs k b)" and ?b = "snd (resume xs k b)"
  have "depth ?b = n" "?sk \<noteq> ifFalseNoneTrue" "?sk = ifFalseHadTrue \<or> bs_type ?b = ifTrue"
    using a(2,6) k by (auto simp: resume_def)
  moreover have "yields (\<lambda>(done, sk, u). \<not> done \<and> sk = ?sk
      \<and> line_state p (p + length (file_line n t)) n t (?b # S) NoIndentSkip w u) (enter_line env u0)"
    unfolding a(5) by (rule enter_open_block [OF u0(1) [unfolded a(1)]]) (use a in auto)
  ultimately show thesis using that u0 by (auto elim!: yieldsE)
qed

lemma program_at_tail:
  assumes "program_at lenv file n S p ((n, t) # ls @ ms) r"
  shows "stands file p (file_line n t @ text_of ls @ text_of ms @ r)" "line_text lenv t" "lines_ok lenv ls" "lines_ok lenv ms"
    "stands file (p + length (file_line n t)) (text_of ls @ text_of ms @ r)"
    "stands file (p + length (file_line n t) + length (text_of ls)) (text_of ms @ r)" "n < 256" "le_isDoingFile lenv" "stack_ok n S" "follows lenv n r"
proof -
  show s: "stands file p (file_line n t @ text_of ls @ text_of ms @ r)" using assms by (simp add: program_at_def)
  show "stands file (p + length (file_line n t)) (text_of ls @ text_of ms @ r)" using stands_append [OF s] .
  from stands_append [OF this] show "stands file (p + length (file_line n t) + length (text_of ls)) (text_of ms @ r)" .
qed (use assms in \<open>simp_all add: program_at_def\<close>)

lemma tail_passed:
  "program_at lenv file n S p (layt n t) r \<Longrightarrow> at_line p stk k w0 s \<Longrightarrow> taken env n S stk k w0 w \<Longrightarrow>
   \<exists>s'. runs lenv cenv env file s s' \<and> outcome env n S Normal (p + length (text_of (layt n t))) w s'"
proof (induction t arbitrary: p stk k w0 s rule: tail.induct [where ?P1.0 = "\<lambda>_. True", case_names Line If While Break Continue EndIf Else Elif])
  case EndIf
  then show ?case by (intro exI [of _ s]) (auto simp: runs_refl dest: taken_after)
next
  case (Else d bd)
  let ?l = "file_line n ''else''"
  have "program_at lenv file n S p ((n, ''else'') # lay (n + 1 + d) bd @ []) r" using Else.prems(1) by simp
  note pr = program_at_tail [OF this]
  obtain u0 u b sk where a: "file_step lenv cenv env file s = do_line lenv cenv env u0"
    "line_state p (p + length ?l) n ''else'' stk k w0 u0" "enter_line env u0 = Some (False, sk, u)"
    "line_state p (p + length ?l) n ''else'' (b # S) NoIndentSkip w u" "depth b = n" "sk \<noteq> ifFalseNoneTrue"
    "sk = ifFalseHadTrue \<or> bs_type b = ifTrue"
    by (rule arrive_taken [OF Else.prems(2,3) pr(1,7,2)])
  have "sk = ifFalseNoneTrue \<or> sk = ifFalseHadTrue \<or> bs_type b = ifTrue" using a(7) by blast
  note l = line_else [OF a(4) pr(2) refl this]
  obtain s1 where s1: "runs lenv cenv env file s s1"
    "at_line (p + length ?l) (SetBlock plainBlock b # S) (bs_indent b) w s1"
    using meta_turn [OF a(1,2) pr(2,8) a(3,4) l] a(6) by auto
  obtain s2 where s2: "runs lenv cenv env file s1 s2"
    "at_line (p + length ?l + length (text_of (lay (n + 1 + d) bd))) (SetBlock plainBlock b # S) (bs_indent b) w s2"
    using skip_program [of "p + length ?l" "SetBlock plainBlock b" S w s1 n "file" _ _ lenv cenv env, OF _ _ pr(7,5,3,8)] s1(2) a(5) lay_inside
    by auto
  have "after_list env n S (SetBlock plainBlock b # S) (bs_indent b) w w"
    unfolding after_list_def by (rule exI [of _ "[]"]) (use a(5) in auto)
  then show ?case using runs_trans [OF s1(1) s2(1)] s2(2) by (intro exI [of _ s2]) (auto simp: add.assoc)
next
  case (Elif c d bd t)
  let ?t = "''elif '' @ c"
  let ?l = "file_line n ?t"
  have "program_at lenv file n S p ((n, ?t) # lay (n + 1 + d) bd @ layt n t) r" using Elif.prems(1) by simp
  note pr = program_at_tail [OF this]
  obtain u0 u b sk where a: "file_step lenv cenv env file s = do_line lenv cenv env u0"
    "line_state p (p + length ?l) n ?t stk k w0 u0" "enter_line env u0 = Some (False, sk, u)"
    "line_state p (p + length ?l) n ?t (b # S) NoIndentSkip w u" "depth b = n" "sk \<noteq> ifFalseNoneTrue"
    "sk = ifFalseHadTrue \<or> bs_type b = ifTrue"
    by (rule arrive_taken [OF Elif.prems(2,3) pr(1,7,2)])
  have "sk = ifFalseNoneTrue \<Longrightarrow> me_condition env (CHR '' '' # c) (iters (b # S)) w = (Inr False, w)"
    "sk \<noteq> ifFalseNoneTrue \<Longrightarrow> (sk = ifFalseHadTrue \<or> bs_type b = ifTrue) \<and> \<not> False \<and> w = w" using a(6,7) by blast+
  note l = line_elif [OF a(4) pr(2) refl this]
  let ?b = "SetBlock ifFalseHadTrue b"
  have "\<exists>x. process_word True env sk ''elif'' (at_word ''elif'' u) = Some (Some (Inr (), x))
      \<and> settled (p + length ?l) (?b # S) (bs_indent b) w x" using l(2) a(6) by simp
  from meta_turn [OF a(1,2) pr(2,8) a(3,4) l(1) this]
  obtain s1 where s1: "runs lenv cenv env file s s1" "at_line (p + length ?l) (?b # S) (bs_indent b) w s1" by blast
  obtain s2 where s2: "runs lenv cenv env file s1 s2"
    "at_line (p + length ?l + length (text_of (lay (n + 1 + d) bd))) (?b # S) (bs_indent b) w s2"
    using skip_program [of "p + length ?l" ?b S w s1 n "file" _ _ lenv cenv env, OF _ _ pr(7,5,3,8)] s1(2) a(5) lay_inside
    by auto
  have tk: "taken env n S (?b # S) (bs_indent b) w w"
    unfolding taken_def by (rule exI [of _ "[]"]) (use a(5) in auto)
  have "program_at lenv file n S (p + length ?l + length (text_of (lay (n + 1 + d) bd))) (layt n t) r"
    using pr by (simp add: program_at_def)
  then obtain s3 where "runs lenv cenv env file s2 s3"
    "outcome env n S Normal (p + length ?l + length (text_of (lay (n + 1 + d) bd)) + length (text_of (layt n t))) w s3"
    using Elif.IH [OF _ s2(2) tk] by blast
  then show ?case using runs_trans [OF runs_trans [OF s1(1) s2(1)]] by (intro exI [of _ s3]) (simp add: ac_simps)
qed simp_all

section \<open>Loops\<close>

text \<open>At the end of the file the command \<open>skip\<close> is put in as a last line, without indentation.\<close>

lemma feed_string_all: "Put_all lenv cs s = Some (False, r, u) \<Longrightarrow> feed_string lenv cs s = Some u"
  by (induction cs arbitrary: s) (auto simp: bind_eq_Some_conv split: if_splits)

lemma feed_string_append: "feed_string lenv (a @ b) s = Option.bind (feed_string lenv a s) (feed_string lenv b)"
  by (induction a arbitrary: s) (auto simp: split_beta' intro!: bind_option_cong)

lemma typed_line_state:
  assumes "typed s n t len (v\<lparr>sp_lineNumber := l\<rparr>)" "at_line p stk k w s" "sp_commandStart v = 0" "sp_buffer v ! length t = NUL"
    "length t < MaxGCodeLength" "n < 256"
  shows "line_state (p - len) p n t stk k w v"
proof -
  have "take (length t) (sp_buffer v) = t" "length (sp_buffer v) = MaxGCodeLength" using assms(1) by (simp_all add: typed_def line_wf_def)
  then have b: "sp_buffer v = t @ NUL # drop (Suc (length t)) (sp_buffer v)"
    using assms(4,5) id_take_nth_drop [of "length t" "sp_buffer v"] by simp
  have "StringParser.more v = StringParser.more s" using assms(1) by (cases v) (simp add: typed_def)
  then have more: "bp_position v = bp_position s" "bp_block v = bp_block s" "bp_outer v = bp_outer s" "bp_indentToSkipTo v = bp_indentToSkipTo s"
    "bp_fileOpen v = bp_fileOpen s" "bp_world v = bp_world s"
    by (cases s; cases v; simp)+
  show ?thesis
    using assms(1-3,6) more b
    by (auto simp: line_state_def typed_def at_line_def line_wf_def GetFilePosition_def unat_of_nat_small)
qed

lemma end_of_file:
  assumes "at_line p stk k w s" "stands file p []" "0 \<le> iters stk"
  obtains u p' where "line_state p' p 0 ''skip'' stk k w u" "file_step lenv cenv env file s = do_line lenv cenv env u"
proof -
  define t where "t = ''skip''"
  have t: "line_text lenv t" "t \<noteq> []" "length t < MaxGCodeLength"
    by (simp_all add: t_def line_text_def stored_char_def MaxGCodeLength_def)
  have at: "at_line p stk k w (sp_Init s)" using at_line_Init [of s] assms(1) by (auto simp: at_line_def fresh_def)
  then have f: "fresh (sp_Init s)" by (simp add: at_line_def)
  obtain x u where u: "Put_all lenv t (sp_Init s) = Some (False, x, u)" "typed (sp_Init s) 0 t (length t) u" "in_text u"
    using feed_line_text [OF f t(1), of 0] unfolding feeds_def by (auto elim!: yieldsE)
  have "\<not> missing_checksum lenv u" using u(2) at by (simp add: missing_checksum_def typed_def at_line_def)
  from finish_line [OF u(2,3) t(2,3) this]
  obtain v where v: "LineFinished lenv u = Some (True, v)" "typed (sp_Init s) 0 t (length t) (v\<lparr>sp_lineNumber := sp_lineNumber (sp_Init s)\<rparr>)"
    "sp_commandStart v = 0" "sp_buffer v ! length t = NUL"
    by (auto elim!: yieldsE)
  have "PutCommand lenv t (sp_Init s) = Some v"
    using feed_string_all [OF u(1)] v(1) by (simp add: PutCommand_def feed_string_append Put_def)
  moreover have "sp_gcodeLineEnd s = 0" using assms(1) by (simp add: fresh_def at_line_def)
  moreover have "GetIterations s = iters stk" using assms(1) by (auto simp: GetIterations_def iters_def at_line_def)
  ultimately have fe: "FileEnded lenv s = Some (True, v)" using assms(3) by (simp add: FileEnded_def t_def)
  have p: "bp_position s = length file" using assms(1,2) by (simp add: at_line_def stands_def)
  then have id: "s\<lparr>bp_position := length file\<rparr> = s" by simp
  have "file_step lenv cenv env file s = Option.bind (FileEnded lenv (s\<lparr>bp_position := length file\<rparr>)) (\<lambda>(waiting, u).
     if waiting then do_line lenv cenv env u else Some (Finished, u))"
    by (simp add: file_step_def p Let_def)
  then have "file_step lenv cenv env file s = do_line lenv cenv env v" unfolding id fe by simp
  then show thesis
    using that typed_line_state [OF v(2) at v(3,4) t(3), of] by (simp add: t_def)
qed

text \<open>At the end of its body a loop is started again.\<close>

lemma loop_end:
  assumes "at_line p stk k w0 s" "after_list env (n + 1 + d) (b # S) stk k w0 w" "depth b = n" "bs_type b = loopBlock"
    "0 \<le> sint (bs_iterations b)" "stands file p r" "follows lenv n r" "le_isDoingFile lenv"
  shows "\<exists>s'. runs lenv cenv env file s s' \<and> at_line (bs_fpos b) (b # S) NoIndentSkip (me_endScope env (length S) w) s'"
proof -
  obtain xs x where a: "stk = (xs @ [x]) @ b # S" "depth x = n + 1 + d" "bs_type x \<noteq> loopBlock"
    "\<forall>y \<in> set xs. n + 1 + d < depth y \<and> bs_type y \<noteq> loopBlock" "k = NoIndentSkip \<or> k = bs_indent (hd (xs @ [x]))"
    "w = unwind env (length xs) (Suc (length S)) w0"
    using assms(2) by (auto simp: after_list_def hd_append)
  have deep: "\<forall>y \<in> set (xs @ [x]). j < depth y \<and> bs_type y \<noteq> loopBlock" if "j \<le> n" for j using a(2-4) that by auto
  have un: "unwind env (length (xs @ [x])) (length S) w0 = me_endScope env (length S) w"
    by (simp add: a(6) unwind_last del: unwind.simps(2))
  have restart: ?thesis if u: "line_state p' q j t stk k w0 u" "file_step lenv cenv env file s = do_line lenv cenv env u" "line_text lenv t" "j \<le> n"
    for p' q j t u
  proof -
    obtain sk v where v: "enter_line env u = Some (True, sk, v)" "at_line (bs_fpos b) (b # S) NoIndentSkip (me_endScope env (length S) w) v"
      using enter_restart [OF u(1) [unfolded a(1)] _ deep [OF u(4)] assms(4) a(5), of env] un by (auto elim!: yieldsE)
    have "file_step lenv cenv env file s = Some (Running, v)"
      using do_absorbed_line [OF u(1,3) assms(8) v] u(2) by simp
    then show ?thesis using v(2) runs_step by blast
  qed
  show ?thesis
  proof (cases "r = []")
    case True
    have "find (\<lambda>b. bs_type b = loopBlock) (ys @ b # S) = Some b" if "\<forall>y \<in> set ys. bs_type y \<noteq> loopBlock" for ys
      using that assms(4) by (induction ys) auto
    from this [of "xs @ [x]"] have "iters stk = sint (bs_iterations b)" using a(3,4) by (simp add: a(1) iters_def)
    then have it: "0 \<le> iters stk" using assms(5) by simp
    obtain u p' where "line_state p' p 0 ''skip'' stk k w0 u" "file_step lenv cenv env file s = do_line lenv cenv env u"
      by (rule end_of_file [OF assms(1) assms(6) [unfolded True] it])
    then show ?thesis by (rule restart) (simp_all add: line_text_def stored_char_def MaxGCodeLength_def)
  next
    case False
    then obtain j t r' where r: "r = file_line j t @ r'" "j \<le> n" "j < 256" "line_text lenv t" using assms(7) by (auto simp: follows_def)
    obtain u where "line_state p (p + length (file_line j t)) j t stk k w0 u" "file_step lenv cenv env file s = do_line lenv cenv env u"
      using next_line [OF assms(1) assms(6) [unfolded r(1)] r(3,4), of cenv env] by blast
    then show ?thesis by (rule restart) (use r in simp_all)
  qed
qed

text \<open>At the line of a loop that has done \<open>k\<close> iterations, for the first time or again.\<close>

definition while_entry :: "'w MetaEnv \<Rightarrow> nat \<Rightarrow> BlockState list \<Rightarrow> nat \<Rightarrow> nat \<Rightarrow> 'w \<Rightarrow> 'w BlockParser \<Rightarrow> bool" where
  "while_entry env n S p k w s \<longleftrightarrow> (k = 0 \<and> (\<exists>stk kk w0. at_line p stk kk w0 s \<and> before_list env n S stk kk w0 w))
     \<or> (\<exists>b. 0 < k \<and> at_line p (b # S) NoIndentSkip w s \<and> depth b = n \<and> loop_at p (of_nat (k - 1)) b)"

lemma sint_small: "k < 2 ^ 31 \<Longrightarrow> sint (of_nat k :: u32) = int k"
proof -
  assume "k < 2 ^ 31"
  then have "int k < 2 ^ 31" by (metis of_nat_less_iff of_nat_numeral of_nat_power)
  then show ?thesis by (simp add: signed_of_nat signed_take_bit_int_eq_self_iff)
qed

lemma while_turn:
  assumes "while_entry env n S p k w s" "program_at lenv file n S p ((n, ''while '' @ c) # ls) r" "k < 2 ^ 31"
    "me_condition env (CHR '' '' # c) (int k) w = (Inr v, w1)"
  obtains s' b where "runs lenv cenv env file s s'" "loop_at p (of_nat k) b" "depth b = n"
    "at_line (p + length (file_line n (''while '' @ c))) ((if v then b else SetBlock plainBlock b) # S)
      (if v then NoIndentSkip else bs_indent b) w1 s'"
proof -
  let ?t = "''while '' @ c"
  let ?q = "p + length (file_line n ?t)"
  have pr: "stands file p (file_line n ?t @ text_of ls @ r)" "n < 256" "line_text lenv ?t" "le_isDoingFile lenv"
    using assms(2) by (simp_all add: program_at_def)
  obtain stk k' w' u0 u b sk where a: "file_step lenv cenv env file s = do_line lenv cenv env u0"
    "line_state p ?q n ?t stk k' w' u0" "enter_line env u0 = Some (False, sk, u)"
    "line_state p ?q n ?t (b # S) NoIndentSkip w u" "depth b = n"
    "bs_type b \<noteq> loopBlock \<and> (of_nat k :: u32) = 0 \<or> loop_at p (of_nat k - 1) b"
  proof (cases "k = 0")
    case True
    then obtain stk kk w0 where at: "at_line p stk kk w0 s" "before_list env n S stk kk w0 w"
      using assms(1) by (auto simp: while_entry_def)
    obtain u0 u b sk where a: "file_step lenv cenv env file s = do_line lenv cenv env u0" "line_state p ?q n ?t stk kk w0 u0"
      "enter_line env u0 = Some (False, sk, u)" "line_state p ?q n ?t (b # S) NoIndentSkip w u" "depth b = n" "bs_type b \<noteq> loopBlock"
      by (rule arrive [OF at pr(1-3)])
    show thesis by (rule that [OF a(1-5)]) (simp add: a(6) True)
  next
    case False
    then obtain b where b: "at_line p (b # S) NoIndentSkip w s" "depth b = n" "loop_at p (of_nat (k - 1)) b"
      using assms(1) by (auto simp: while_entry_def)
    obtain u0 where u0: "line_state p ?q n ?t (b # S) NoIndentSkip w u0"
      "file_step lenv cenv env file s = do_line lenv cenv env u0"
      by (rule next_line [OF b(1) pr(1-3)])
    have "yields (\<lambda>(done, sk, u). \<not> done \<and> sk = plainBlock \<and> line_state p ?q n ?t (b # S) NoIndentSkip w u) (enter_line env u0)"
      using enter_open_block [of p ?q n ?t "[]" b S NoIndentSkip w u0 env] u0(1) b(2) by (simp add: resume_def)
    moreover have "loop_at p (of_nat k - 1) b" using b(3) False by (simp add: of_nat_diff)
    ultimately show thesis using that u0 b(2) by (auto elim!: yieldsE)
  qed
  have "me_condition env (CHR '' '' # c) (sint (of_nat k :: u32)) w = (Inr v, w1)"
    using assms(4) by (simp add: sint_small [OF assms(3)])
  note l = line_while [OF a(4) pr(3) refl a(6) this]
  obtain x b' where x: "process_word True env sk ''while'' (at_word ''while'' u) = Some (Some (Inr (), x))"
    "loop_at p (of_nat k) b'" "bs_indent b' = bs_indent b"
    "settled ?q ((if v then b' else SetBlock plainBlock b') # S) (if v then NoIndentSkip else bs_indent b) w1 x"
    using l(2) by blast
  have "\<exists>s'. runs lenv cenv env file s s' \<and> at_line ?q ((if v then b' else SetBlock plainBlock b') # S)
      (if v then NoIndentSkip else bs_indent b') w1 s'"
    using meta_turn [OF a(1,2) pr(3,4) a(3,4) l(1), of ?q _ _ w1] x by auto
  then show thesis using that [OF _ x(2)] a(5) x(3) by auto
qed

end
