(* ===== verification/GCodeStack.thy ===== *)
theory GCodeStack
  imports GCodeBlocksProps
begin

text \<open>
  The stack of blocks, whatever the file holds: its indentations grow strictly from the outermost block, which is not indented,
  to the innermost, and what is skipped is skipped for the innermost. So the loops that leave blocks always end.
\<close>

section \<open>The invariant\<close>

definition stack_wf :: "BlockState list \<Rightarrow> u16 \<Rightarrow> bool" where
  "stack_wf stk k \<longleftrightarrow> stk \<noteq> [] \<and> sorted_wrt (\<lambda>a b. depth b < depth a) stk \<and> depth (last stk) = 0
     \<and> (k = NoIndentSkip \<or> k = bs_indent (hd stk))"

definition blocks_ok :: "('w, 'a) BlockParser_scheme \<Rightarrow> bool" where
  "blocks_ok s \<longleftrightarrow> stack_wf (bp_block s # bp_outer s) (bp_indentToSkipTo s)"

definition nothing_skipped :: "('w, 'a) BlockParser_scheme \<Rightarrow> bool" where
  "nothing_skipped s \<longleftrightarrow> blocks_ok s \<and> bp_indentToSkipTo s = NoIndentSkip"

lemma nothing_skipped_iff:
  "nothing_skipped s \<longleftrightarrow> stack_wf (bp_block s # bp_outer s) NoIndentSkip \<and> bp_indentToSkipTo s = NoIndentSkip"
  by (auto simp: nothing_skipped_def blocks_ok_def)

lemma blocks_cong:
  "bp_block t = bp_block s \<Longrightarrow> bp_outer t = bp_outer s \<Longrightarrow> bp_indentToSkipTo t = bp_indentToSkipTo s \<Longrightarrow> blocks_ok t = blocks_ok s"
  by (simp add: blocks_ok_def)

lemma blocks_same_rest:
  "CommandParser.more t = CommandParser.more s \<Longrightarrow> blocks_ok t = blocks_ok s"
  by (rule blocks_cong) (cases s; cases t; simp)+

lemma stack_wf_simps:
  "stack_wf (b # bs) k \<longleftrightarrow> sorted_wrt (\<lambda>a b. depth b < depth a) (b # bs) \<and> depth (last (b # bs)) = 0 \<and> (k = NoIndentSkip \<or> k = bs_indent b)"
  by (simp add: stack_wf_def)

lemma stack_wf_indent: "stack_wf (b # bs) k \<Longrightarrow> bs_indent c = bs_indent b \<Longrightarrow> stack_wf (c # bs) k"
  by (cases bs) (auto simp: stack_wf_simps)

lemma stack_wf_tl: "stack_wf (b # c # bs) NoIndentSkip \<Longrightarrow> stack_wf (c # bs) NoIndentSkip"
  by (simp add: stack_wf_simps)

section \<open>What receiving and decoding leave alone\<close>

lemma AddToChecksum_rest [simp]: "StringParser.more (AddToChecksum c s) = StringParser.more s"
  by (simp add: AddToChecksum_def)

lemma Store_rest: "StoreAndAddToChecksum c s = Some t \<Longrightarrow> StringParser.more t = StringParser.more s"
  by (auto simp: StoreAndAddToChecksum_def Let_def bind_eq_Some_conv split: if_splits)

lemma sp_Init_rest [simp]: "StringParser.more (sp_Init s) = StringParser.more s"
  by (simp add: sp_Init_def)

lemma put_step_rest: "put_step cnc c s = Some (again, t) \<Longrightarrow> StringParser.more t = StringParser.more s"
  by (auto simp: put_step_def put_start_def put_line_number_def put_whitespace_def put_checksum_def put_bracketed_def put_quoted_def put_gcode_def
      Let_def dest: Store_rest split: GCodeBufferState.splits if_splits)

lemma put_loop_rest: "put_loop cnc c s = Some t \<Longrightarrow> StringParser.more t = StringParser.more s"
proof (induction cnc c s rule: put_loop.induct)
  case (1 cnc c s)
  obtain again u where u: "put_step cnc c s = Some (again, u)" using "1.prems" by (subst (asm) put_loop.simps) (auto split: option.splits)
  then show ?case using "1.IH" [OF u refl] "1.prems" put_step_rest [OF u] by (subst (asm) put_loop.simps) (auto split: if_splits)
qed

lemma LineFinished_rest: "LineFinished env s = Some (ok, t) \<Longrightarrow> StringParser.more t = StringParser.more s"
  by (auto simp: LineFinished_def Let_def bind_eq_Some_conv split: if_splits)

lemma Put_rest: "Put env c s = Some (ok, t) \<Longrightarrow> StringParser.more t = StringParser.more s"
  by (auto simp: Put_def Let_def dest!: LineFinished_rest put_loop_rest split: if_splits)

lemma Put_all_rest: "Put_all env cs s = Some (ok, r, t) \<Longrightarrow> StringParser.more t = StringParser.more s"
  by (induction cs arbitrary: s) (auto simp: bind_eq_Some_conv dest!: Put_rest split: if_splits)

lemma feed_string_rest: "feed_string env cs s = Some t \<Longrightarrow> StringParser.more t = StringParser.more s"
  by (induction cs arbitrary: s) (auto simp: bind_eq_Some_conv dest!: Put_rest)

lemma PutCommand_rest: "PutCommand env str s = Some t \<Longrightarrow> StringParser.more t = StringParser.more s"
  unfolding PutCommand_def by (rule feed_string_rest)

lemma blocks_same_tail: "StringParser.more t = StringParser.more s \<Longrightarrow> blocks_ok t = blocks_ok s"
  by (rule blocks_cong) (cases s; cases t; simp)+

text \<open>Decoding changes the command, the start of it and the state of the buffer.\<close>

definition same_line :: "'a CommandParser_scheme \<Rightarrow> 'a CommandParser_scheme \<Rightarrow> bool" where
  "same_line s t \<longleftrightarrow> CommandParser.more t = CommandParser.more s \<and> sp_buffer t = sp_buffer s \<and> sp_gcodeLineEnd t = sp_gcodeLineEnd s
     \<and> sp_seenLeadingTab t = sp_seenLeadingTab s \<and> sp_checksumRequired t = sp_checksumRequired s \<and> sp_crcRequired t = sp_crcRequired s"

lemma FindParameters_same: "same_line s (FindParameters t) = same_line s t"
  by (simp add: same_line_def FindParameters_def split_beta')

lemma DecodeCommand_same: "DecodeCommand env s = Some t \<Longrightarrow> same_line s t"
proof -
  have d: "decode_letter cl u = Some v \<Longrightarrow> same_line u v" for cl and u v :: "'a CommandParser_scheme"
    by (auto simp: decode_letter_def Let_def FindParameters_same skip_blanks_def split: list.splits if_splits)
      (auto simp: same_line_def)
  have o: "decode_other env cl u = Some v \<Longrightarrow> same_line u v" for cl and u v :: "'a CommandParser_scheme"
    by (auto simp: decode_other_def Let_def FindParameters_same split: if_splits) (auto simp: same_line_def)
  let ?first = "\<lambda>c0. if c0 = CHR 0x27
     then let u = s\<lparr>sp_commandStart := sp_commandStart s + 1\<rparr> in map_option (\<lambda>c1. (u, tolower c1)) (peek (sp_buffer u) (sp_commandStart u))
     else Some (s, toupper c0)"
  let ?second = "\<lambda>u cl. if cl \<in> {CHR ''G'', CHR ''M'', CHR ''T''} then decode_letter cl u else decode_other env cl u"
  let ?third = "\<lambda>v. v\<lparr>cp_explicitLineNumber := if ce_topLevel env then if sp_hadLineNumber v then Some (sp_receivedLineNumber v) else None
     else cp_explicitLineNumber v, sp_bufferState := ready\<rparr>"
  assume "DecodeCommand env s = Some t"
  then obtain c0 u cl v where u: "?first c0 = Some (u, cl)" and v: "?second u cl = Some v" and t: "t = ?third v"
    unfolding DecodeCommand_def bind_eq_Some_conv split_paired_Ex prod.case option.inject by blast
  have "same_line s u" using u by (auto simp: same_line_def Let_def split: if_splits)
  moreover have "same_line u v" using v d o by (metis (full_types))
  moreover have "same_line v t" by (simp add: t same_line_def)
  ultimately show ?thesis by (simp add: same_line_def)
qed

lemma SetFinished_rest: "SetFinished env s = Some t \<Longrightarrow> CommandParser.more t = CommandParser.more s"
  by (auto simp: SetFinished_def sp_Init_def same_line_def dest!: DecodeCommand_same split: if_splits)

section \<open>Lines and the stack\<close>

lemma nothing_skipped_EndBlock: "nothing_skipped s \<Longrightarrow> bp_outer s = b # bs \<Longrightarrow> nothing_skipped (EndBlock env s)"
  using stack_wf_tl [of "bp_block s" b bs] by (auto simp: nothing_skipped_iff EndBlock_def)

lemma leave_blocks_ok:
  "nothing_skipped s \<Longrightarrow> yields (\<lambda>(again, t). nothing_skipped t) (leave_blocks env s)"
proof (induction env s rule: leave_blocks.induct)
  case (1 env s)
  show ?case
  proof (cases "indent_of s < GetBlockIndent s")
    case False
    then show ?thesis using "1.prems" by (subst leave_blocks.simps) simp
  next
    case True
    have wf: "stack_wf (bp_block s # bp_outer s) NoIndentSkip" using "1.prems" by (simp add: nothing_skipped_iff)
    then obtain b bs where o: "bp_outer s = b # bs" using True by (cases "bp_outer s") (auto simp: stack_wf_simps)
    let ?t = "EndBlock env s"
    have t: "nothing_skipped ?t" by (rule nothing_skipped_EndBlock [OF "1.prems" o])
    have "nothing_skipped (sp_Init (restart_loop ?t))"
      using t by (simp add: nothing_skipped_iff restart_loop_def RestartFrom_def sp_Init_def)
    moreover have "bs_type (bp_block ?t) \<noteq> loopBlock \<Longrightarrow> yields (\<lambda>(again, t). nothing_skipped t) (leave_blocks env ?t)"
      by (rule "1.IH") (use True o t in simp_all)
    ultimately show ?thesis using True o by (subst leave_blocks.simps) (simp add: Let_def)
  qed
qed

text \<open>After leaving blocks that does not restart a loop, the line is as deep as its block, or deeper.\<close>

lemma leave_blocks_depth: "leave_blocks env s = Some (False, t) \<Longrightarrow> GetBlockIndent t \<le> indent_of t"
proof (induction env s rule: leave_blocks.induct)
  case (1 env s)
  show ?case
  proof (cases "\<not> indent_of s < GetBlockIndent s")
    case True
    then show ?thesis using "1.prems" by (subst (asm) leave_blocks.simps) simp
  next
    case False
    then show ?thesis
      using "1.IH" [OF _ _ refl] "1.prems" by (subst (asm) (2) leave_blocks.simps) (auto simp: Let_def split: if_splits)
  qed
qed

lemma settle_ok: "nothing_skipped s \<Longrightarrow> yields (\<lambda>(again, _, t). nothing_skipped t) (settle env skipped s)"
proof -
  assume s: "nothing_skipped s"
  obtain again t where t: "leave_blocks env s = Some (again, t)" "nothing_skipped t"
    using leave_blocks_ok [OF s, of env] by (auto elim!: yieldsE)
  have "nothing_skipped (CreateBlock (ucast (sp_commandIndent t)) t)" if "GetBlockIndent t < indent_of t"
  proof -
    have "unat (ucast (sp_commandIndent t) :: u16) = indent_of t" using u8_bound [of "sp_commandIndent t"] by (simp add: unat_ucast_up)
    moreover have "stack_wf (bp_block t # bp_outer t) NoIndentSkip" "bp_indentToSkipTo t = NoIndentSkip"
      using t(2) by (simp_all add: nothing_skipped_iff)
    ultimately show ?thesis
      using that by (fastforce simp: nothing_skipped_iff CreateBlock_def stack_wf_simps)
  qed
  then show ?thesis using t by (simp add: settle_def)
qed

lemma skip_block_ok: "blocks_ok s \<Longrightarrow> case skip_block s of (skipping, _, t) \<Rightarrow> blocks_ok t \<and> (\<not> skipping \<longrightarrow> nothing_skipped t)"
  by (auto simp: skip_block_def Let_def nothing_skipped_def blocks_ok_def sp_Init_def stack_wf_simps)

lemma flags_ok:
  "blocks_ok s \<Longrightarrow> blocks_ok (CheckForMixedSpacesAndTabs env s)"
  "blocks_ok s \<Longrightarrow> blocks_ok (s\<lparr>sp_seenLeadingSpace := a, sp_seenLeadingTab := b\<rparr>)"
  by (simp_all add: CheckForMixedSpacesAndTabs_def blocks_ok_def)

lemma enter_line_ok: "blocks_ok s \<Longrightarrow> yields (\<lambda>(done, _, t). blocks_ok t \<and> (\<not> done \<longrightarrow> nothing_skipped t)) (enter_line env s)"
proof -
  assume "blocks_ok s"
  then have s1: "blocks_ok (if sp_commandIndent s = 0 then s\<lparr>sp_seenLeadingSpace := False, sp_seenLeadingTab := False\<rparr>
      else CheckForMixedSpacesAndTabs env s)" (is "blocks_ok ?s") by (simp add: flags_ok)
  obtain skipping skipped t where t: "skip_block ?s = (skipping, skipped, t)" "blocks_ok t" "\<not> skipping \<longrightarrow> nothing_skipped t"
    using skip_block_ok [OF s1] by (cases "skip_block ?s") auto
  have "\<not> skipping \<Longrightarrow> yields (\<lambda>(done, _, t). blocks_ok t \<and> (\<not> done \<longrightarrow> nothing_skipped t)) (settle env skipped t)"
    using settle_ok [of t env skipped] t(3) by (auto simp: nothing_skipped_def elim!: yields_mono)
  then show ?thesis using t by (simp add: enter_line_def Let_def)
qed

section \<open>Leaving a loop\<close>

text \<open>The blocks from the innermost loop around the current block on.\<close>

definition loops_around :: "('w, 'a) BlockParser_scheme \<Rightarrow> BlockState list" where
  "loops_around s = dropWhile (\<lambda>b. bs_type b \<noteq> loopBlock) (bp_outer s)"

definition left_to_loop :: "'w MetaEnv \<Rightarrow> string \<Rightarrow> ('w, 'a) BlockParser_scheme \<Rightarrow> (string + unit) \<Rightarrow> ('w, 'a) BlockParser_scheme \<Rightarrow> bool" where
  "left_to_loop env word s r t \<longleftrightarrow> (case loops_around s of
       [] \<Rightarrow> r = Inl (apostrophe @ word @ apostrophe @ '' was not inside a loop'') \<and> bp_outer t = []
         \<and> bp_world t = unwind env (length (bp_outer s)) 0 (bp_world s)
     | L # T \<Rightarrow> r = Inr () \<and> bp_block t = L \<and> bp_outer t = T
         \<and> bp_world t = unwind env (length (bp_outer s) - length T) (length T) (bp_world s))"

lemma leave_to_loop_exact:
  "nothing_skipped s \<Longrightarrow> yields (\<lambda>(r, t). left_to_loop env word s r t \<and> nothing_skipped t \<and> bp_position t = bp_position s) (leave_to_loop env word s)"
proof (induction env word s rule: leave_to_loop.induct)
  case (1 env word s)
  have wf: "stack_wf (bp_block s # bp_outer s) NoIndentSkip" using "1.prems" by (simp add: nothing_skipped_iff)
  show ?case
  proof (cases "bp_outer s")
    case Nil
    then have "GetBlockIndent s = 0" using wf by (simp add: stack_wf_simps)
    then show ?thesis using Nil "1.prems" by (subst leave_to_loop.simps) (simp add: left_to_loop_def loops_around_def)
  next
    case (Cons b bs)
    have pos: "GetBlockIndent s \<noteq> 0" using wf by (auto simp: Cons stack_wf_simps)
    let ?t = "EndBlock env s"
    have ok: "nothing_skipped ?t" by (rule nothing_skipped_EndBlock [OF "1.prems" Cons])
    have t: "bp_block ?t = b" "bp_outer ?t = bs" "bp_world ?t = me_endScope env (length bs) (bp_world s)"
      "bp_position ?t = bp_position s"
      by (simp_all add: EndBlock_def Cons)
    show ?thesis
    proof (cases "bs_type b = loopBlock")
      case True
      have "leave_to_loop env word s = Some (Inr (), ?t)"
        using pos Cons t(1) True by (subst leave_to_loop.simps) (simp add: Let_def)
      then show ?thesis using ok t True Cons by (simp add: left_to_loop_def loops_around_def)
    next
      case False
      have eq: "leave_to_loop env word s = leave_to_loop env word ?t"
        using pos Cons t(1) False by (subst leave_to_loop.simps) (simp add: Let_def)
      have lp: "loops_around s = loops_around ?t" using Cons False t(2) by (simp add: loops_around_def)
      have "left_to_loop env word ?t r u \<Longrightarrow> left_to_loop env word s r u" for r u
      proof (cases "loops_around ?t")
        case Nil
        then show "left_to_loop env word ?t r u \<Longrightarrow> left_to_loop env word s r u"
          using lp t(2,3) Cons by (simp add: left_to_loop_def)
      next
        case (Cons L T)
        have "length (L # T) \<le> length bs"
          using Cons t(2) length_dropWhile_le [of "\<lambda>b. bs_type b \<noteq> loopBlock" bs] by (simp add: loops_around_def)
        then have "Suc (length bs) - length T = Suc (length bs - length T)" "length T + (length bs - length T) = length bs" by simp_all
        then show "left_to_loop env word ?t r u \<Longrightarrow> left_to_loop env word s r u"
          using lp t(2,3) Cons \<open>bp_outer s = b # bs\<close> by (simp add: left_to_loop_def)
      qed
      moreover have "yields (\<lambda>(r, u). left_to_loop env word ?t r u \<and> nothing_skipped u \<and> bp_position u = bp_position ?t) (leave_to_loop env word ?t)"
        by (rule "1.IH") (use pos Cons ok t False in simp_all)
      ultimately show ?thesis unfolding eq by (auto simp: t elim!: yields_mono)
    qed
  qed
qed

text \<open>
  C28. Errors of \<open>break\<close> and \<open>continue\<close>: they fail exactly when no block around the current one is a loop, and have then closed
  every block but the outermost; otherwise exactly the scopes inside the innermost such loop are ended, and the file is
  skipped to the end of that loop, or read again from its line.
\<close>

theorem jumps_exact:
  assumes "blocks_ok s" "bp_indentToSkipTo s = NoIndentSkip"
  shows "yields (\<lambda>(r, t). case loops_around s of
        [] \<Rightarrow> r = Inl (apostrophe @ ''break'' @ apostrophe @ '' was not inside a loop'') \<and> bp_outer t = []
      | L # T \<Rightarrow> r = Inr () \<and> bp_block t = SetBlock plainBlock L \<and> bp_outer t = T \<and> bp_indentToSkipTo t = bs_indent L
          \<and> bp_position t = bp_position s \<and> bp_world t = unwind env (length (bp_outer s) - length T) (length T) (bp_world s))
      (ProcessBreakCommand env s)
    \<and> yields (\<lambda>(r, t). case loops_around s of
        [] \<Rightarrow> r = Inl (apostrophe @ ''continue'' @ apostrophe @ '' was not inside a loop'') \<and> bp_outer t = []
      | L # T \<Rightarrow> r = Inr () \<and> bp_block t = L \<and> bp_outer t = T \<and> bp_indentToSkipTo t = NoIndentSkip
          \<and> bp_position t = bs_fpos L \<and> sp_lineNumber t = bs_lineNumber L \<and> sp_bufferState t = parseNotStarted
          \<and> bp_world t = unwind env (length (bp_outer s) - length T) (length T) (bp_world s))
      (ProcessContinueCommand env s)"
proof -
  have ns: "nothing_skipped s" using assms by (simp add: nothing_skipped_def)
  obtain r t where b: "leave_to_loop env ''break'' s = Some (r, t)" "left_to_loop env ''break'' s r t" "bp_position t = bp_position s"
    using leave_to_loop_exact [OF ns, of env "''break''"] by (auto elim!: yieldsE)
  obtain q u where c: "leave_to_loop env ''continue'' s = Some (q, u)" "left_to_loop env ''continue'' s q u" "nothing_skipped u"
    using leave_to_loop_exact [OF ns, of env "''continue''"] by (auto elim!: yieldsE)
  show ?thesis
    using b c
    by (cases "loops_around s")
      (simp_all add: ProcessBreakCommand_def ProcessContinueCommand_def left_to_loop_def skip_this_block_def restart_loop_def RestartFrom_def
        sp_Init_def nothing_skipped_iff)
qed

section \<open>Meta commands and the stack\<close>

lemma blocks_ok_set: "nothing_skipped s \<Longrightarrow> bs_indent b = bs_indent (bp_block s) \<Longrightarrow> k = NoIndentSkip \<or> k = bs_indent (bp_block s) \<Longrightarrow>
    bp_outer t = bp_outer s \<Longrightarrow> bp_block t = b \<Longrightarrow> bp_indentToSkipTo t = k \<Longrightarrow> blocks_ok t"
  by (auto simp: nothing_skipped_iff blocks_ok_def stack_wf_simps)

lemma branch_on_ok:
  assumes "nothing_skipped s" "\<And>v w. blocks_ok (f v (s\<lparr>bp_world := w\<rparr>))"
  shows "yields (\<lambda>(_, t). blocks_ok t) (branch_on env f s)"
  using assms by (auto simp: branch_on_def EvaluateCondition_def nothing_skipped_def blocks_ok_def split: sum.splits prod.splits)

lemma conditions_ok:
  assumes "nothing_skipped s"
  shows "yields (\<lambda>(_, t). blocks_ok t) (ProcessIfCommand env s)" "yields (\<lambda>(_, t). blocks_ok t) (ProcessElseCommand skipped s)"
    "yields (\<lambda>(_, t). blocks_ok t) (ProcessElifCommand env skipped s)" "yields (\<lambda>(_, t). blocks_ok t) (ProcessWhileCommand env s)"
proof -
  have ok: "blocks_ok s" using assms by (simp add: nothing_skipped_def)
  have k: "bp_indentToSkipTo s = NoIndentSkip" using assms by (simp add: nothing_skipped_def)
  have b: "blocks_ok (set_block ty (skip_this_block (s\<lparr>bp_world := w\<rparr>)))" "blocks_ok (set_block ty (s\<lparr>bp_world := w\<rparr>))"
    "blocks_ok (skip_this_block (set_block ty (s\<lparr>bp_world := w\<rparr>)))"
    for ty w by (rule blocks_ok_set [OF assms _ _ _ refl refl]; simp add: skip_this_block_def k)+
  show "yields (\<lambda>(_, t). blocks_ok t) (ProcessIfCommand env s)"
    unfolding ProcessIfCommand_def by (rule branch_on_ok [OF assms]) (use b in simp)
  have "blocks_ok (set_block ty (skip_this_block s))" "blocks_ok (set_block ty s)" for ty
    by (rule blocks_ok_set [OF assms _ _ _ refl refl]; simp add: skip_this_block_def k)+
  then show "yields (\<lambda>(_, t). blocks_ok t) (ProcessElseCommand skipped s)" using ok by (simp add: ProcessElseCommand_def)
  have "blocks_ok (set_block ifFalseHadTrue (skip_this_block s))"
    by (rule blocks_ok_set [OF assms _ _ _ refl refl]; simp add: skip_this_block_def)
  moreover have "yields (\<lambda>(_, t). blocks_ok t)
     (branch_on env (\<lambda>b s. if b then set_block ifTrue s else set_block ifFalseNoneTrue (skip_this_block s)) s)"
    by (rule branch_on_ok [OF assms]) (use b in simp)
  ultimately show "yields (\<lambda>(_, t). blocks_ok t) (ProcessElifCommand env skipped s)" using ok by (simp add: ProcessElifCommand_def)
  let ?s = "if bs_type (bp_block s) = loopBlock then s\<lparr>bp_block := (bp_block s)\<lparr>bs_iterations := bs_iterations (bp_block s) + 1\<rparr>\<rparr>
     else s\<lparr>bp_block := SetLoopBlock (GetFilePosition s) (sp_lineNumber s - 1) (bp_block s)\<rparr>"
  have sb: "bs_indent (bp_block ?s) = bs_indent (bp_block s)" "bp_outer ?s = bp_outer s" "bp_indentToSkipTo ?s = NoIndentSkip"
    using k by (simp_all add: SetLoopBlock_def)
  have ns: "nothing_skipped ?s"
    using assms stack_wf_indent [OF _ sb(1)] sb by (simp only: nothing_skipped_iff)
  have "blocks_ok (skip_this_block (set_block plainBlock (?s\<lparr>bp_world := w\<rparr>)))" "blocks_ok (?s\<lparr>bp_world := w\<rparr>)" for w
    by (rule blocks_ok_set [OF ns _ _ _ refl refl]; simp add: skip_this_block_def k)+
  then show "yields (\<lambda>(_, t). blocks_ok t) (ProcessWhileCommand env s)"
    unfolding ProcessWhileCommand_def by (intro branch_on_ok [OF ns]) simp
qed

lemma jumps_ok:
  assumes "nothing_skipped s"
  shows "yields (\<lambda>(_, t). blocks_ok t) (ProcessBreakCommand env s)" "yields (\<lambda>(_, t). blocks_ok t) (ProcessContinueCommand env s)"
proof -
  have l: "yields (\<lambda>(r, t). nothing_skipped t) (leave_to_loop env word s)" for word
    by (rule yields_mono [OF leave_to_loop_exact [OF assms]]) auto
  have "blocks_ok t \<and> blocks_ok (skip_this_block (set_block plainBlock t)) \<and> blocks_ok (restart_loop t)"
    if t: "nothing_skipped t" for t :: "('a, 'b) BlockParser_scheme"
  proof -
    have "blocks_ok (skip_this_block (set_block plainBlock t))"
      by (rule blocks_ok_set [OF t _ _ _ refl refl]) (simp_all add: skip_this_block_def)
    then show ?thesis using t by (auto simp: nothing_skipped_iff blocks_ok_def restart_loop_def RestartFrom_def sp_Init_def)
  qed
  then show "yields (\<lambda>(_, t). blocks_ok t) (ProcessBreakCommand env s)" "yields (\<lambda>(_, t). blocks_ok t) (ProcessContinueCommand env s)"
    by (auto simp: ProcessBreakCommand_def ProcessContinueCommand_def intro!: yields_mono [OF l] split: sum.splits)
qed

lemma process_word_ok:
  assumes "blocks_ok s" "doingFile \<longrightarrow> nothing_skipped s" "process_word doingFile env skipped word s = Some m"
  shows "yields (\<lambda>(_, t). blocks_ok t) m"
proof -
  have "blocks_ok (s\<lparr>bp_world := w\<rparr>)" "blocks_ok (s\<lparr>bp_fileOpen := q, bp_world := w\<rparr>)" for w q
    using assms(1) by (simp_all add: blocks_ok_def)
  then have "yields (\<lambda>(_, t). blocks_ok t) (other_command env word s)" "yields (\<lambda>(_, t). blocks_ok t) (ProcessAbortCommand env s)" for word
    by (simp_all add: other_command_def ProcessAbortCommand_def split_beta')
  then show ?thesis using assms conditions_ok jumps_ok by (auto simp: process_word_def split: if_splits)
qed

lemma CheckMetaCommand_ok:
  assumes "blocks_ok s"
  shows "yields (\<lambda>(_, t). blocks_ok t) (CheckMetaCommand lenv env s)"
proof -
  have "yields (\<lambda>(done, _, t). blocks_ok t \<and> (\<not> done \<longrightarrow> le_isDoingFile lenv \<longrightarrow> nothing_skipped t))
      (if le_isDoingFile lenv then enter_line env s else Some (False, plainBlock, s))"
    using enter_line_ok [OF assms, of env] assms by (auto elim!: yields_mono)
  then obtain dn sk t where t: "(if le_isDoingFile lenv then enter_line env s else Some (False, plainBlock, s)) = Some (dn, sk, t)" "blocks_ok t"
    "\<not> dn \<longrightarrow> le_isDoingFile lenv \<longrightarrow> nothing_skipped t"
    by (auto elim!: yieldsE)
  have same: "blocks_ok (u\<lparr>cp_commandLetter := c\<rparr>) = blocks_ok u" "blocks_ok (u\<lparr>sp_readPointer := i\<rparr>) = blocks_ok u"
    "blocks_ok (u\<lparr>sp_seenMetaCommand := q, cp_commandEnd := e\<rparr>) = blocks_ok u" "blocks_ok (sp_Init u) = blocks_ok u"
    "blocks_ok (CheckForMixedSpacesAndTabs env u) = blocks_ok u"
    for u :: "('a, 'b) BlockParser_scheme" and c i q e
    by (simp_all add: blocks_ok_def sp_Init_def CheckForMixedSpacesAndTabs_def)
  have "yields (\<lambda>(_, u). blocks_ok u) (ProcessConditionalGCode env sk (le_isDoingFile lenv) (t\<lparr>cp_commandLetter := CHR ''E''\<rparr>))" if "\<not> dn"
  proof -
    have "blocks_ok (t\<lparr>cp_commandLetter := CHR ''E'', sp_readPointer := i\<rparr>)"
      "le_isDoingFile lenv \<longrightarrow> nothing_skipped (t\<lparr>cp_commandLetter := CHR ''E'', sp_readPointer := i\<rparr>)" for i
      using t(2,3) that by (auto simp: blocks_ok_def nothing_skipped_def)
    note pw = process_word_ok [OF this]
    show ?thesis
      using t(2) by (auto simp: ProcessConditionalGCode_def Let_def same split: option.splits dest!: pw elim!: yields_mono)
  qed
  then show ?thesis
    using assms t(1,2)
    by (auto simp: CheckMetaCommand_def Let_def same elim!: yields_mono split: sum.splits bool.splits if_splits)
qed

section \<open>Files and the stack\<close>

lemma run_commands_rest:
  "run_commands cenv env fuel s = Some t \<Longrightarrow> blocks_ok t = blocks_ok (s :: ('w, 'a) BlockParser_scheme)"
proof (induction fuel arbitrary: s)
  case (Suc fuel)
  show ?case
  proof (cases "sp_bufferState s = ready")
    case True
    let ?s = "s\<lparr>bp_world := me_act env (CommandParser.truncate s) (bp_world s)\<rparr>"
    obtain u where u: "SetFinished cenv ?s = Some u" "run_commands cenv env fuel u = Some t"
      using Suc.prems True by (auto simp: bind_eq_Some_conv)
    have "blocks_ok u = blocks_ok ?s" by (rule blocks_same_rest [OF SetFinished_rest [OF u(1)]])
    also have "\<dots> = blocks_ok s" by (simp add: blocks_ok_def)
    finally show ?thesis using Suc.IH [OF u(2)] by simp
  qed (use Suc.prems in simp)
qed simp

lemma do_line_ok:
  assumes "blocks_ok s" "do_line lenv cenv env s = Some (out, t)"
  shows "blocks_ok t"
proof -
  obtain r u where u: "CheckMetaCommand lenv env s = Some (r, u)" "blocks_ok u"
    using CheckMetaCommand_ok [OF assms(1), of lenv env] by (auto elim!: yieldsE)
  have "blocks_ok v = blocks_ok u" if v: "DecodeCommand cenv u = Some v" for v
    using DecodeCommand_same [OF v] blocks_same_rest by (auto simp: same_line_def)
  moreover have "blocks_ok (sp_Init u)" using u(2) by (simp add: blocks_ok_def sp_Init_def)
  ultimately show ?thesis
    using assms(2) u by (auto simp: do_line_def bind_eq_Some_conv simp del: run_commands.simps dest!: run_commands_rest split: sum.splits bool.splits)
qed

lemma file_step_ok:
  assumes "blocks_ok s" "file_step lenv cenv env file s = Some (out, t)"
  shows "blocks_ok t"
proof -
  obtain dn r u where u: "Put_all lenv (drop (bp_position s) file) s = Some (dn, r, u)"
    using assms(2) by (auto simp: file_step_def bind_eq_Some_conv)
  let ?u = "u\<lparr>bp_position := length file - length r\<rparr>"
  have "blocks_ok u" using assms(1) blocks_same_tail [OF Put_all_rest [OF u]] by simp
  then have bu: "blocks_ok ?u" by (simp add: blocks_ok_def)
  have "blocks_ok v" if v: "FileEnded lenv ?u = Some (w, v)" for w v
  proof -
    have "StringParser.more v = StringParser.more ?u"
      using v by (auto simp: FileEnded_def dest!: Put_rest PutCommand_rest split: if_splits)
    then show ?thesis using bu blocks_same_tail by blast
  qed
  then show ?thesis
    using assms(2) u bu by (auto simp: file_step_def bind_eq_Some_conv Let_def dest: do_line_ok split: if_splits)
qed

text \<open>
  C18. The stack of blocks, whatever the file says and however often it is read: when the outermost block is not indented to
  begin with, the indentations of the open blocks always grow strictly from it to the innermost, a block whose lines are skipped
  is the innermost one, and no line makes the loops that leave blocks run forever.
\<close>

theorem block_stack_invariant:
  assumes "blocks_ok s"
  shows "CheckMetaCommand lenv env s \<noteq> None \<and> (\<forall>n out t. file_run lenv cenv env file n s = Some (out, t) \<longrightarrow>
    blocks_ok t \<and> CheckMetaCommand lenv env t \<noteq> None)"
proof -
  have c: "blocks_ok t \<Longrightarrow> CheckMetaCommand lenv env t \<noteq> None" for t
    using CheckMetaCommand_ok [of t lenv env] by (cases "CheckMetaCommand lenv env t") simp_all
  have "file_run lenv cenv env file n s = Some (out, t) \<Longrightarrow> blocks_ok s \<Longrightarrow> blocks_ok t" for n out s t
    by (induction n arbitrary: s) (auto simp: bind_eq_Some_conv dest: file_step_ok split: if_splits)
  then show ?thesis using assms c by blast
qed

section \<open>Examples\<close>

definition start_parser :: "'w \<Rightarrow> 'w BlockParser" where
  "start_parser w = CommandParser.extend (StringParser.extend new_parser (CommandParser.fields CHR ''Q'' False 0 0 0 0 0 NUL False None))
     (BlockParser.fields (new_block 0) [] NoIndentSkip False 0 True w)"

lemma start_parser_at_line: "at_line 0 [new_block 0] NoIndentSkip w (start_parser w)"
  by (simp add: at_line_def fresh_def line_wf_def start_parser_def new_parser_def CommandParser.defs StringParser.defs BlockParser.defs
      MaxGCodeLength_def)

definition in_loop :: "nat BlockParser" where
  "in_loop = (start_parser 0)\<lparr>bp_block := new_block 4, bp_outer := [new_block 2, SetLoopBlock 7 3 (new_block 0)]\<rparr>"

lemma in_loop_ok: "blocks_ok in_loop" "bp_indentToSkipTo in_loop = NoIndentSkip"
  by (simp_all add: blocks_ok_def in_loop_def start_parser_def CommandParser.defs BlockParser.defs stack_wf_def new_block_def SetLoopBlock_def)

definition counting_scopes :: "nat MetaEnv" where
  "counting_scopes = \<lparr>me_condition = \<lambda>_ i w. (Inr (i < 1), w), me_other = \<lambda>_ _ _ _ w. (Inr (), w), me_abort = \<lambda>_ w. w,
     me_endScope = \<lambda>m w. 10 * w + m + 1, me_warning = \<lambda>_ w. w, me_act = \<lambda>_ w. w\<rparr>"

lemma jumps_exact_witness:
  "yields (\<lambda>(r, t). r = Inr () \<and> bp_outer t = [] \<and> bp_world t = 21) (ProcessBreakCommand counting_scopes in_loop)
    \<and> yields (\<lambda>(r, t). r = Inr () \<and> bp_position t = 7 \<and> bp_world t = 21) (ProcessContinueCommand counting_scopes in_loop)"
proof -
  have l: "loops_around in_loop = [SetLoopBlock 7 3 (new_block 0)]"
    by (simp add: loops_around_def in_loop_def new_block_def SetLoopBlock_def)
  have w: "unwind counting_scopes (length (bp_outer in_loop) - length ([] :: BlockState list)) (length ([] :: BlockState list)) (bp_world in_loop) = 21"
    by (simp add: in_loop_def start_parser_def CommandParser.defs BlockParser.defs counting_scopes_def numeral_2_eq_2)
  show ?thesis
    using jumps_exact [OF in_loop_ok, of counting_scopes] unfolding l list.case w by (auto simp: SetLoopBlock_def elim!: yields_mono)
qed

lemma block_stack_invariant_witness:
  "CheckMetaCommand \<lparr>le_isDoingFile = True, le_cnc = False, le_nested = False\<rparr> counting_scopes in_loop \<noteq> None \<and> blocks_ok in_loop"
proof -
  let ?lenv = "\<lparr>le_isDoingFile = True, le_cnc = False, le_nested = False\<rparr>"
    and ?cenv = "\<lparr>ce_axisLetters = ''XYZ'', ce_fanuc = False, ce_topLevel = True\<rparr>"
  have "file_run ?lenv ?cenv counting_scopes ''break'' 0 in_loop = Some (Running, in_loop)" by simp
  then show ?thesis
    using block_stack_invariant [OF in_loop_ok(1), of ?lenv counting_scopes ?cenv "''break''"] by blast
qed

end
