(* ===== verification/GCodeCommandProps.thy ===== *)
theory GCodeCommandProps
  imports GCodeCommand GCodeText NumericFloats
begin

text \<open>
  Commands and their parameters: the search for a parameter agrees with the bitmap made when the command was decoded,
  a line is taken apart into commands without end, and what is written into a line is what its
  command and the readers of its parameters give back.
\<close>

section \<open>The bitmap and the search\<close>

text \<open>No apostrophe is followed by another one or by a quotation mark.\<close>

fun apostrophes_ok :: "string \<Rightarrow> bool" where
  "apostrophes_ok (a # b # cs) \<longleftrightarrow> \<not> (a = CHR 0x27 \<and> b \<in> {CHR 0x27, CHR 0x22}) \<and> apostrophes_ok (b # cs)"
| "apostrophes_ok _ \<longleftrightarrow> True"

lemma apostrophes_ok_tl: "apostrophes_ok (a # cs) \<Longrightarrow> apostrophes_ok cs"
  by (cases cs) auto

text \<open>Letters, and the bits of letters.\<close>

definition letter :: "char \<Rightarrow> bool" where
  "letter c \<longleftrightarrow> (of_char c :: nat) \<in> {65..90} \<or> (of_char c :: nat) \<in> {97..122}"

abbreviation lower :: "char \<Rightarrow> bool" where "lower c \<equiv> 97 \<le> (of_char c :: nat)"

lemma highest_axis: "(of_char (toupper HighestAxisLetter) :: nat) = 70"
  by (simp add: HighestAxisLetter_def toupper_def)

lemma toupper_lower: "letter c \<Longrightarrow> (of_char (toupper c) :: nat) = (if lower c then of_char c - 32 else of_char c)"
  by (auto simp: toupper_def letter_def)

lemma char_eq_iff: "a = b \<longleftrightarrow> (of_char a :: nat) = of_char b"
  by simp

lemma upper_bit:
  assumes "letter c" "parameter_bit c < 32"
  shows "bit (upper_parameter prev d bits) (parameter_bit c) \<longleftrightarrow>
    bit bits (parameter_bit c) \<or> (d = toupper c \<and> \<not> lower c \<and> starts_parameter prev d)"
  using assms toupper_lower [OF assms(1)]
  by (auto simp: upper_parameter_def parameter_bit_def letter_def bit_simps char_eq_iff simp del: of_char_eq_iff)

lemma lower_bit:
  assumes "letter c" "parameter_bit c < 32"
  shows "bit (lower_parameter prev d bits) (parameter_bit c) \<longleftrightarrow>
    bit bits (parameter_bit c) \<or> (d = toupper c \<and> lower c \<and> starts_parameter prev d)"
  using assms toupper_lower [OF assms(1)]
  by (auto simp: lower_parameter_def parameter_bit_def letter_def bit_simps char_eq_iff highest_axis simp del: of_char_eq_iff)

lemma find_loop_length: "find_loop prev q e n bits cs = (k, b) \<Longrightarrow> k \<le> length cs"
  by (induction prev q e n bits cs arbitrary: k b rule: find_loop.induct)
    (auto simp: Let_def apfst_def map_prod_def split: if_splits prod.splits)

text \<open>The search takes the same steps as the loop that makes the bitmap.\<close>

lemma find_seen:
  assumes "letter c" "parameter_bit c < 32"
  shows "find_loop prev q e n bits cs = (k, bits') \<Longrightarrow> apostrophes_ok (if e then CHR 0x27 # cs else cs) \<Longrightarrow> q \<longrightarrow> \<not> e \<Longrightarrow>
    bit bits' (parameter_bit c) \<longleftrightarrow>
    bit bits (parameter_bit c) \<or> seen_loop (toupper c) (lower c) prev q e n (take k cs) \<noteq> None"
proof (induction cs arbitrary: prev q e n bits k bits')
  case (Cons d ds)
  let ?b = "parameter_bit c" and ?seen = "seen_loop (toupper c) (lower c)"
  have ok: "apostrophes_ok (d # ds)" "apostrophes_ok ds" "e \<longrightarrow> d \<noteq> CHR 0x27 \<and> d \<noteq> CHR 0x22"
    using Cons.prems(2) by (auto split: if_splits dest: apostrophes_ok_tl)
  have step: ?case
    if f: "find_loop prev q e n bits (d # ds) = apfst Suc (find_loop (Some d) q1 e1 n1 bits1 ds)"
      and e1: "e1 \<longrightarrow> \<not> q1 \<and> d = CHR 0x27" and b: "bit bits1 ?b \<longleftrightarrow> bit bits ?b \<or> hit"
      and s: "\<And>r. ?seen prev q e n (d # r) = (if hit then Some 1 else map_option Suc (?seen (Some d) q1 e1 n1 r))"
    for q1 e1 n1 bits1 hit
  proof -
    obtain k1 where k: "k = Suc k1" "find_loop (Some d) q1 e1 n1 bits1 ds = (k1, bits')"
      using f Cons.prems(1) by (cases "find_loop (Some d) q1 e1 n1 bits1 ds") auto
    have "bit bits' ?b \<longleftrightarrow> bit bits1 ?b \<or> ?seen (Some d) q1 e1 n1 (take k1 ds) \<noteq> None"
      by (rule Cons.IH [OF k(2)]) (use e1 ok in auto)
    then show ?thesis using b by (auto simp: k(1) s simp del: seen_loop.simps)
  qed
  consider "d = CHR 0x27" | "d = CHR 0x22" | "d \<noteq> CHR 0x27" "d \<noteq> CHR 0x22" "q"
    | "d = CHR ''{''" "\<not> q" | "d \<noteq> CHR 0x27" "d \<noteq> CHR 0x22" "\<not> q" "d \<noteq> CHR ''{''" "n \<noteq> 0"
    | "d \<noteq> CHR 0x27" "d \<noteq> CHR 0x22" "\<not> q" "d \<noteq> CHR ''{''" "n = 0" by blast
  then show ?case
  proof cases
    case 1
    then show ?thesis by (intro step [of q "\<not> q" n bits False]) (use ok in auto)
  next
    case 2
    then show ?thesis by (intro step [of "\<not> q" False n bits False]) (use ok in auto)
  next
    case 3
    then show ?thesis by (intro step [of q False n bits False]) (use Cons.prems(3) in auto)
  next
    case 4
    then have "(of_char (toupper d) :: nat) = 123" "(of_char (toupper c) :: nat) \<le> 90"
      using toupper_lower [OF assms(1)] assms(1) by (auto simp: letter_def toupper_def)
    then have "toupper d \<noteq> toupper c" by auto
    with 4 show ?thesis by (intro step [of q False "n + 1" bits False]) auto
  next
    case 5
    then show ?thesis by (intro step [of q False "if d = CHR ''}'' then n - 1 else n" bits False]) auto
  next
    case 6
    show ?thesis
    proof (cases "\<not> e \<and> (toupper d = CHR ''G'' \<or> toupper d = CHR ''M'')")
      case True
      then show ?thesis using Cons.prems(1) 6 by (simp add: Let_def)
    next
      case False
      let ?hit = "toupper d = toupper c \<and> e = lower c \<and> starts_parameter prev (toupper d)"
      show ?thesis
        by (rule step [of q False n "if e then lower_parameter prev (toupper d) bits else upper_parameter prev (toupper d) bits" ?hit])
          (use 6 False upper_bit [OF assms] lower_bit [OF assms] in \<open>auto simp: Let_def\<close>)
    qed
  qed
qed simp

lemma seen_loop_at: "seen_loop C l prev q e n bs = Some m \<Longrightarrow> 0 < m \<and> m \<le> length bs \<and> toupper (bs ! (m - 1)) = C"
proof (induction C l prev q e n bs arbitrary: m rule: seen_loop.induct)
  case (2 C l prev q e n b bs)
  have "m = 1 \<and> toupper b = C \<or> (\<exists>q' e' n' m'. seen_loop C l (Some b) q' e' n' bs = Some m' \<and> m = Suc m'
      \<and> 0 < m' \<and> m' \<le> length bs \<and> toupper (bs ! (m' - 1)) = C)"
    using "2.prems" "2.IH" by (auto simp: Let_def split: if_splits)
  then show ?case by (auto simp: nth_Cons')
qed simp

lemma rest_of_line_take: "rest_of_line s = take (sp_gcodeLineEnd s - cp_parameterStart s) (drop (cp_parameterStart s) (sp_buffer s))"
  by (simp add: rest_of_line_def drop_take)

lemma parameters_found:
  assumes "find_loop None False False 0 0 (rest_of_line s) = (k, b)"
  shows "parameters (FindParameters s) = take k (rest_of_line s)"
proof -
  have "k \<le> sp_gcodeLineEnd s - cp_parameterStart s"
    using find_loop_length [OF assms] by (auto simp: rest_of_line_take)
  moreover have "parameters (FindParameters s) = take k (drop (cp_parameterStart s) (sp_buffer s))"
    using assms by (simp add: FindParameters_def parameters_def drop_take)
  ultimately show ?thesis by (simp add: rest_of_line_take min_absorb1)
qed

text \<open>
  C27. A parameter is found exactly when the bitmap made by \<open>FindParameters\<close> says that it is there, provided that no
  apostrophe is followed by another or by a quotation mark; the reading position is then right behind
  the letter, inside the command. So a parameter that is in the line is not overlooked, and the bitmap saves
  the search only where it would fail.
\<close>

lemma Seen_exact:
  assumes "letter c" "apostrophes_ok (rest_of_line s)" "t = FindParameters s"
  shows "(fst (Seen c t) \<longleftrightarrow> parameter_bit c < 32 \<and> bit (cp_parametersPresent t) (parameter_bit c))
    \<and> (fst (Seen c t) \<longrightarrow> (\<exists>i. cp_parameterStart s \<le> i \<and> i < cp_commandEnd t \<and> sp_readPointer (snd (Seen c t)) = int (i + 1)
      \<and> toupper (sp_buffer s ! i) = toupper c))"
proof -
  obtain k b where f: "find_loop None False False 0 0 (rest_of_line s) = (k, b)" by fastforce
  have t: "cp_parametersPresent t = b" "cp_commandEnd t = cp_parameterStart s + k" "cp_parameterStart t = cp_parameterStart s"
      "sp_buffer t = sp_buffer s" "parameters t = take k (rest_of_line s)"
    using f parameters_found [OF f] by (simp_all add: FindParameters_def assms(3))
  let ?m = "seen_loop (toupper c) (lower c) None False False 0 (take k (rest_of_line s))"
  show ?thesis
  proof (cases "parameter_bit c < 32 \<and> bit b (parameter_bit c)")
    case True
    then have "?m \<noteq> None" using find_seen [OF assms(1) _ f] assms(2) by simp
    then obtain m where m: "?m = Some m" by auto
    have Seen: "Seen c t = (True, t\<lparr>sp_readPointer := int (cp_parameterStart s + m), cp_characterSeen := toupper c\<rparr>)"
      using True m by (simp add: Seen_def t)
    have at: "0 < m" "m \<le> k" "toupper (take k (rest_of_line s) ! (m - 1)) = toupper c" "m - 1 < length (rest_of_line s)"
      using seen_loop_at [OF m] by auto
    moreover from at(4) have "cp_parameterStart s \<le> length (sp_buffer s)" by (auto simp: rest_of_line_take)
    ultimately have "take k (rest_of_line s) ! (m - 1) = sp_buffer s ! (cp_parameterStart s + (m - 1))"
      by (simp add: rest_of_line_take)
    then show ?thesis using at Seen True t by (intro conjI exI [of _ "cp_parameterStart s + (m - 1)"] impI) simp_all
  next
    case False
    then show ?thesis by (auto simp: Seen_def t)
  qed
qed

definition example_parser :: "string \<Rightarrow> CommandParser" where
  "example_parser t = CommandParser.make (t @ replicate (256 - length t) NUL) ready (length t) 0 (length t) (- 1) 0
     False False False False 0 0 0 0 0 0 False False False False False 0 CHR ''G'' True 1 (- 1) 3 0 0 NUL False None"

text \<open>Upper case of a literal, by its bits.\<close>

lemma toupper_Char: "toupper (Char b0 b1 b2 b3 b4 b5 b6 b7) =
  (if b6 \<and> b5 \<and> \<not> b7 \<and> (b0 \<or> b1 \<or> b2 \<or> b3 \<or> b4) \<and> \<not> (b4 \<and> b3 \<and> (b2 \<or> b0 \<and> b1))
   then Char b0 b1 b2 b3 b4 False True False else Char b0 b1 b2 b3 b4 b5 b6 b7)"
  by (cases b0; cases b1; cases b2; cases b3; cases b4; cases b5; cases b6; cases b7;
      simp add: toupper_def char_of_def bit_Suc_0_iff bit_numeral_rec)

text \<open>The loop without its local function, for evaluation.\<close>

lemma find_loop_Cons:
  "find_loop prev q e n bits (c # cs) =
    (if \<not> q \<and> n = 0 \<and> \<not> e \<and> (toupper c = CHR ''G'' \<or> toupper c = CHR ''M'') then (0, bits)
     else apfst Suc (find_loop (Some c) (if c = CHR 0x22 then \<not> q else q) (c = CHR 0x27 \<and> \<not> q)
       (if q \<or> c = CHR 0x27 \<or> c = CHR 0x22 then n else if c = CHR ''{'' then n + 1 else if n \<noteq> 0 \<and> c = CHR ''}'' then n - 1 else n)
       (if q \<or> n \<noteq> 0 \<or> c = CHR 0x27 \<or> c = CHR 0x22 \<or> c = CHR ''{'' then bits
        else if e then lower_parameter prev (toupper c) bits else upper_parameter prev (toupper c) bits) cs))"
  by (auto simp: Let_def toupper_Char)

declare find_loop.simps(2) [simp del]

lemma example_rest: "rest_of_line (example_parser t) = drop 3 t"
  by (simp add: rest_of_line_def example_parser_def CommandParser.defs)

lemma Seen_exact_witness:
  "fst (Seen CHR ''a'' (FindParameters (example_parser (''G1 X10 {x} '' @ CHR 0x27 # ''a5''))))"
proof -
  let ?s = "example_parser (''G1 X10 {x} '' @ CHR 0x27 # ''a5'')"
  have r: "rest_of_line ?s = ''X10 {x} '' @ CHR 0x27 # ''a5''" by (simp add: example_rest)
  have "find_loop None False False 0 0 (''X10 {x} '' @ CHR 0x27 # ''a5'') = (11, 0x04800000)"
    by (simp add: find_loop_Cons toupper_Char lower_parameter_def upper_parameter_def starts_parameter_def highest_axis)
  then have "bit (cp_parametersPresent (FindParameters ?s)) 26" by (simp add: FindParameters_def r del: append.simps)
  then show ?thesis
    using Seen_exact [of "CHR ''a''" ?s, OF _ _ refl] unfolding r by (simp add: letter_def parameter_bit_def del: fst_conv)
qed

section \<open>The commands of a line\<close>

text \<open>
  Every number that follows a letter G, M or T, with or without a sign, fits in an \<open>int\<close>; a larger command number overflows, which
  is undefined.
\<close>

definition unsigned_text :: "string \<Rightarrow> string" where
  "unsigned_text cs = (if cs \<noteq> [] \<and> hd cs = CHR ''-'' then tl cs else cs)"

fun numbers_fit :: "string \<Rightarrow> bool" where
  "numbers_fit [] \<longleftrightarrow> True"
| "numbers_fit (c # cs) \<longleftrightarrow> (toupper c \<in> {CHR ''G'', CHR ''M'', CHR ''T''} \<longrightarrow>
     dec_value 0 (takeWhile is_digit (unsigned_text cs)) < 2147483648) \<and> numbers_fit cs"

lemma numbers_fit_suffix: "numbers_fit (a @ b) \<Longrightarrow> numbers_fit b"
  by (induction a) auto

text \<open>A line with its terminator, and what comes before the terminator from a position on.\<close>

definition line_ok :: "'a StringParser_scheme \<Rightarrow> bool" where
  "line_ok s \<longleftrightarrow> line_wf s \<and> sp_buffer s ! sp_gcodeLineEnd s = NUL \<and> numbers_fit (take (sp_gcodeLineEnd s) (sp_buffer s))"

lemma line_ok_from:
  assumes "line_ok s" "i \<le> sp_gcodeLineEnd s"
  obtains a b where "drop i (sp_buffer s) = a @ NUL # b" "length a = sp_gcodeLineEnd s - i" "numbers_fit a"
proof -
  let ?e = "sp_gcodeLineEnd s"
  have wf: "?e < length (sp_buffer s)" using assms(1) by (simp add: line_ok_def line_wf_def)
  have "drop i (sp_buffer s) = take (?e - i) (drop i (sp_buffer s)) @ drop ?e (sp_buffer s)"
    using assms(2) append_take_drop_id [of "?e - i" "drop i (sp_buffer s)"] by simp
  moreover have "drop ?e (sp_buffer s) = NUL # drop (Suc ?e) (sp_buffer s)"
    using assms(1) wf by (simp add: line_ok_def Cons_nth_drop_Suc [symmetric])
  moreover have "numbers_fit (drop i (take ?e (sp_buffer s)))"
    using assms numbers_fit_suffix [of "take i (take ?e (sp_buffer s))" "drop i (take ?e (sp_buffer s))"]
    by (simp only: append_take_drop_id line_ok_def)
  then have "numbers_fit (take (?e - i) (drop i (sp_buffer s)))" by (simp only: drop_take)
  moreover have "length (take (?e - i) (drop i (sp_buffer s))) = ?e - i" using wf assms(2) by simp
  ultimately show thesis using that by metis
qed

lemma command_digits_fit:
  "dec_value v (takeWhile is_digit a) < 2147483648 \<Longrightarrow>
   yields (\<lambda>(_, rest). \<exists>p q. a = p @ q \<and> rest = q @ NUL # b) (command_digits (int v) (a @ NUL # b))"
proof (induction a arbitrary: v)
  case (Cons c a)
  show ?case
  proof (cases "is_digit c")
    case True
    let ?v = "10 * v + digit_value c"
    have d: "dec_value ?v (takeWhile is_digit a) < 2147483648" using Cons.prems True by simp
    then have "?v < 2147483648" using dec_value_ge [of ?v "takeWhile is_digit a"] by linarith
    moreover have "yields (\<lambda>(_, rest). \<exists>p q. c # a = p @ q \<and> rest = q @ NUL # b) (command_digits (int ?v) (a @ NUL # b))"
      by (rule yields_mono [OF Cons.IH [OF d]]) (auto intro: exI [of _ "c # _"])
    ultimately show ?thesis using True by (simp add: Let_def)
  next
    case False
    then show ?thesis by simp
  qed
qed (simp add: is_digit_def)

text \<open>What is left is the end of what there was, with the terminator.\<close>

abbreviation ends_in :: "string \<Rightarrow> string \<Rightarrow> char list \<Rightarrow> bool" where
  "ends_in a b rest \<equiv> \<exists>p q. a = p @ q \<and> rest = q @ NUL # b"

lemma command_fraction_short: "yields (\<lambda>(_, rest). ends_in a b rest) (command_fraction n (a @ NUL # b))"
proof (cases a)
  case (Cons c r)
  then show ?thesis
    by (cases r) (auto simp: command_fraction_def is_digit_def intro: exI [of _ "[c]"] exI [of _ "[c, hd r]"])
qed (simp add: command_fraction_def)

lemma number_fits:
  assumes "dec_value 0 (takeWhile is_digit a) < 2147483648"
  shows "yields (\<lambda>(_, rest). ends_in a b rest) (Option.bind (command_digits 0 (a @ NUL # b)) (\<lambda>(n, cs). command_fraction (f n) cs))"
proof -
  obtain n p q where q: "command_digits 0 (a @ NUL # b) = Some (n, q @ NUL # b)" "a = p @ q"
    using command_digits_fit [OF assms, of b] by (auto elim!: yieldsE)
  have "yields (\<lambda>(_, rest). ends_in a b rest) (command_fraction (f n) (q @ NUL # b))"
    by (rule yields_mono [OF command_fraction_short]) (auto simp: q(2) intro: exI [of _ "p @ _"])
  then show ?thesis by (simp add: q(1))
qed

lemma read_command_number_fits:
  assumes "dec_value 0 (takeWhile is_digit (unsigned_text a)) < 2147483648"
  shows "yields (\<lambda>(_, rest). ends_in a b rest) (read_command_number (a @ NUL # b))"
proof (cases a)
  case Nil
  then show ?thesis by (simp add: read_command_number_def is_digit_def)
next
  case (Cons c r)
  show ?thesis
  proof (cases "c = CHR ''-''")
    case True
    then have "dec_value 0 (takeWhile is_digit r) < 2147483648" using assms by (simp add: Cons unsigned_text_def)
    then have "yields (\<lambda>(_, rest). ends_in a b rest) (Option.bind (command_digits 0 (r @ NUL # b)) (\<lambda>(n, cs). command_fraction (- n) cs))"
      by (intro yields_mono [OF number_fits]) (auto simp: Cons intro: exI [of _ "c # _"])
    then show ?thesis using True
      by (cases r) (auto simp: read_command_number_def Let_def is_digit_def Cons simp del: command_digits.simps intro: exI [of _ "[c]"])
  next
    case False
    then have "dec_value 0 (takeWhile is_digit a) < 2147483648" using assms by (simp add: Cons unsigned_text_def)
    then show ?thesis using number_fits [of a b "\<lambda>n. n"] False
      by (simp add: read_command_number_def Let_def Cons del: command_digits.simps)
  qed
qed

text \<open>Decoding looks at a line and does not change it; the command ends inside it, at the letter of the next one.\<close>

definition next_at :: "'a CommandParser_scheme \<Rightarrow> nat \<Rightarrow> bool" where
  "next_at s i \<longleftrightarrow> i \<le> sp_gcodeLineEnd s \<and> (i < sp_gcodeLineEnd s \<longrightarrow> toupper (sp_buffer s ! i) \<in> {CHR ''G'', CHR ''M''})"

lemma find_loop_stops:
  "find_loop prev q e n bits cs = (k, b) \<Longrightarrow> k < length cs \<Longrightarrow> toupper (cs ! k) \<in> {CHR ''G'', CHR ''M''}"
proof (induction cs arbitrary: prev q e n bits k)
  case (Cons c cs)
  let ?stop = "\<not> q \<and> n = 0 \<and> \<not> e \<and> (toupper c = CHR ''G'' \<or> toupper c = CHR ''M'')"
  obtain q' e' n' bits' where f: "find_loop prev q e n bits (c # cs) = (if ?stop then (0, bits) else apfst Suc (find_loop (Some c) q' e' n' bits' cs))"
    unfolding find_loop_Cons by blast
  show ?case
  proof (cases ?stop)
    case True
    then show ?thesis using Cons.prems(1) f by auto
  next
    case False
    then have "apfst Suc (find_loop (Some c) q' e' n' bits' cs) = (k, b)" using Cons.prems(1) f by (simp only: if_not_P [OF False] if_False)
    then obtain k' where "find_loop (Some c) q' e' n' bits' cs = (k', b)" "k = Suc k'"
      by (cases "find_loop (Some c) q' e' n' bits' cs") auto
    then show ?thesis using Cons.IH [of "Some c" q' e' n' bits' k'] Cons.prems(2) by simp
  qed
qed simp

lemma find_loop_first:
  "find_loop None False False 0 bits (c # cs) = (k, b) \<Longrightarrow> toupper c \<notin> {CHR ''G'', CHR ''M''} \<Longrightarrow> 0 < k"
  by (auto simp: find_loop_Cons apfst_def map_prod_def split: prod.splits)

lemma FindParameters_frame [simp]:
  "sp_buffer (FindParameters s) = sp_buffer s" "sp_gcodeLineEnd (FindParameters s) = sp_gcodeLineEnd s"
  "sp_commandStart (FindParameters s) = sp_commandStart s" "cp_parameterStart (FindParameters s) = cp_parameterStart s"
  "cp_commandLetter (FindParameters s) = cp_commandLetter s" "cp_commandNumber (FindParameters s) = cp_commandNumber s"
  "cp_hasCommandNumber (FindParameters s) = cp_hasCommandNumber s" "cp_commandFraction (FindParameters s) = cp_commandFraction s"
  by (simp_all add: FindParameters_def split_beta')

lemma FindParameters_end:
  assumes "line_wf s" "cp_parameterStart s \<le> sp_gcodeLineEnd s"
  shows "cp_parameterStart s \<le> cp_commandEnd (FindParameters s)" "next_at s (cp_commandEnd (FindParameters s))"
    and "cp_parameterStart s < sp_gcodeLineEnd s \<Longrightarrow> toupper (sp_buffer s ! cp_parameterStart s) \<notin> {CHR ''G'', CHR ''M''}
      \<Longrightarrow> cp_parameterStart s < cp_commandEnd (FindParameters s)"
proof -
  obtain k b where f: "find_loop None False False 0 0 (rest_of_line s) = (k, b)" by fastforce
  have len: "length (rest_of_line s) = sp_gcodeLineEnd s - cp_parameterStart s"
    using assms by (simp add: rest_of_line_def line_wf_def min_def)
  have at: "rest_of_line s ! i = sp_buffer s ! (cp_parameterStart s + i)" if "i < length (rest_of_line s)" for i
    using that assms by (simp add: rest_of_line_take line_wf_def)
  have e: "cp_commandEnd (FindParameters s) = cp_parameterStart s + k" by (simp add: FindParameters_def f)
  show "cp_parameterStart s \<le> cp_commandEnd (FindParameters s)" by (simp add: e)
  show "next_at s (cp_commandEnd (FindParameters s))"
    using find_loop_length [OF f] find_loop_stops [OF f] at [of k] len assms(2) by (auto simp: next_at_def e)
  show "cp_parameterStart s < cp_commandEnd (FindParameters s)"
    if p: "cp_parameterStart s < sp_gcodeLineEnd s" "toupper (sp_buffer s ! cp_parameterStart s) \<notin> {CHR ''G'', CHR ''M''}"
  proof -
    obtain c cs where c: "rest_of_line s = c # cs" using len p(1) by (cases "rest_of_line s") auto
    then have "c = sp_buffer s ! cp_parameterStart s" using at [of 0] by simp
    then show ?thesis using find_loop_first [OF f [unfolded c]] p(2) by (simp add: e)
  qed
qed

text \<open>One command decoded, from position \<open>i\<close> on.\<close>

definition decoded_at :: "'a CommandParser_scheme \<Rightarrow> nat \<Rightarrow> 'a CommandParser_scheme \<Rightarrow> bool" where
  "decoded_at s i t \<longleftrightarrow> sp_buffer t = sp_buffer s \<and> sp_gcodeLineEnd t = sp_gcodeLineEnd s \<and> i < cp_commandEnd t \<and> next_at s (cp_commandEnd t)"

lemma skip_blanks_frame [simp]:
  "sp_buffer (skip_blanks s) = sp_buffer s" "sp_gcodeLineEnd (skip_blanks s) = sp_gcodeLineEnd s"
  "sp_commandStart (skip_blanks s) = sp_commandStart s" "cp_parameterStart s \<le> cp_parameterStart (skip_blanks s)"
  by (simp_all add: skip_blanks_def)

lemma skip_blanks_inside:
  "line_wf s \<Longrightarrow> cp_parameterStart s \<le> sp_gcodeLineEnd s \<Longrightarrow> cp_parameterStart (skip_blanks s) \<le> sp_gcodeLineEnd s"
  using length_takeWhile_le [of white "rest_of_line s"] by (auto simp: skip_blanks_def rest_of_line_take)

lemma next_at_cong: "sp_buffer t = sp_buffer s \<Longrightarrow> sp_gcodeLineEnd t = sp_gcodeLineEnd s \<Longrightarrow> next_at t = next_at s"
  by (rule ext) (simp add: next_at_def)

text \<open>Parameters that start behind the letter, or at it.\<close>

lemma parameters_decoded:
  assumes "line_wf s" "sp_buffer t = sp_buffer s" "sp_gcodeLineEnd t = sp_gcodeLineEnd s" "cp_parameterStart t \<le> sp_gcodeLineEnd s"
    and "i < cp_parameterStart t \<or> i = cp_parameterStart t \<and> i < sp_gcodeLineEnd s \<and> toupper (sp_buffer s ! i) \<notin> {CHR ''G'', CHR ''M''}"
  shows "decoded_at s i (FindParameters t)"
proof -
  have wf: "line_wf t" using assms(1-3) by (simp add: line_wf_def)
  show ?thesis
    using FindParameters_end [OF wf] assms(2-5) next_at_cong [OF assms(2,3)] by (auto simp: decoded_at_def)
qed

lemma decode_letter_decoded:
  assumes "line_ok s" "sp_commandStart s < sp_gcodeLineEnd s" "cl = toupper (sp_buffer s ! sp_commandStart s)"
    and "cl \<in> {CHR ''G'', CHR ''M'', CHR ''T''}"
  shows "yields (\<lambda>t. decoded_at s (sp_commandStart s) t \<and> sp_commandStart t = sp_commandStart s) (decode_letter cl s)"
proof -
  let ?i = "sp_commandStart s" and ?e = "sp_gcodeLineEnd s"
  have wf: "line_wf s" using assms(1) by (simp add: line_ok_def)
  obtain a0 b where a0: "drop ?i (sp_buffer s) = a0 @ NUL # b" "length a0 = ?e - ?i" "numbers_fit a0"
    using line_ok_from [OF assms(1), of ?i] assms(2) by auto
  obtain a where a: "a0 = sp_buffer s ! ?i # a"
    using a0(1,2) assms(2) wf by (cases a0) (auto simp: line_wf_def Cons_nth_drop_Suc [symmetric])
  have ab: "drop (?i + 1) (sp_buffer s) = a @ NUL # b" "length a = ?e - (?i + 1)"
    using a0(1,2) wf assms(2) by (simp_all add: a line_wf_def Cons_nth_drop_Suc [symmetric])
  have fits: "dec_value 0 (takeWhile is_digit (unsigned_text a)) < 2147483648" using a0(3) assms(3,4) by (auto simp: a)
  obtain c1 cs where c1: "a @ NUL # b = c1 # cs" by (cases a) auto
  obtain h p q where r: "read_command_number (c1 # cs) = Some (h, q @ NUL # b)" "a = p @ q"
    using read_command_number_fits [OF fits, of b] c1 by (auto elim!: yieldsE)
  have sb: "decoded_at s ?i (FindParameters (skip_blanks t))"
    if "sp_buffer t = sp_buffer s" "sp_gcodeLineEnd t = ?e" "?i < cp_parameterStart t" "cp_parameterStart t \<le> ?e" for t
    using that wf skip_blanks_inside [of t] skip_blanks_frame(4) [of t]
    by (intro parameters_decoded [OF wf]) (auto simp: line_wf_def simp del: skip_blanks_frame(4))
  have "length (sp_buffer s) = ?i + 1 + length (a @ NUL # b)"
    using ab(1) assms(2) wf length_drop [of "?i + 1" "sp_buffer s"] by (simp add: line_wf_def)
  then have ps: "?i < length (sp_buffer s) - length (q @ NUL # b)" "length (sp_buffer s) - length (q @ NUL # b) \<le> ?e"
    using r(2) ab(2) assms(2) by auto
  show ?thesis
  proof (cases "cl = CHR ''T'' \<and> c1 = CHR ''{''")
    case True
    let ?t = "s\<lparr>cp_commandLetter := cl, cp_hasCommandNumber := False, cp_commandNumber := - 1, cp_commandFraction := - 1,
                cp_parameterStart := ?i\<rparr>"
    have "toupper (sp_buffer s ! ?i) = CHR ''T''" using True assms(3) by simp
    moreover from this have "\<not> white (sp_buffer s ! ?i)" by (auto simp: white_def toupper_def)
    moreover have "rest_of_line ?t = (sp_buffer s ! ?i) # tl (rest_of_line ?t)"
      using assms(2) wf by (simp add: rest_of_line_def line_wf_def Cons_nth_drop_Suc [symmetric])
    ultimately have "takeWhile white (rest_of_line ?t) = []" by (metis takeWhile.simps(2))
    then have "skip_blanks ?t = ?t" by (simp add: skip_blanks_def)
    moreover have "decoded_at s ?i (FindParameters ?t)"
      by (rule parameters_decoded [OF wf]) (use assms(2,3) True in auto)
    ultimately show ?thesis using True ab(1) c1 by (simp add: decode_letter_def Let_def)
  next
    case False
    then show ?thesis using ab(1) c1 r(1) sb ps by (auto simp: decode_letter_def Let_def split_beta')
  qed
qed

lemma tolower_not_upper: "tolower c \<notin> {CHR ''G'', CHR ''M'', CHR ''T''}"
proof -
  have "(of_char (tolower c) :: nat) \<notin> {71, 77, 84}" by (auto simp: tolower_def)
  moreover have "(of_char CHR ''G'' :: nat) = 71" "(of_char CHR ''M'' :: nat) = 77" "(of_char CHR ''T'' :: nat) = 84" by simp_all
  ultimately show ?thesis by (metis insertE insertI1 insertI2 empty_iff)
qed

lemma decode_other_decoded:
  assumes "line_ok s" "i \<le> sp_commandStart s" "sp_commandStart s \<le> sp_gcodeLineEnd s" "sp_commandStart s + 1 < MaxGCodeLength"
    and "i < sp_commandStart s \<or> toupper (sp_buffer s ! i) \<notin> {CHR ''G'', CHR ''M''} \<and> i < sp_gcodeLineEnd s"
  shows "yields (\<lambda>t. decoded_at s i t \<and> sp_commandStart t = sp_commandStart s) (decode_other env cl s)"
proof -
  have wf: "line_wf s" using assms(1) by (simp add: line_ok_def)
  have "yields (\<lambda>_. True) (repeats_command env cl (s\<lparr>cp_commandFraction := - 1\<rparr>))"
    using assms(4) wf by (simp add: repeats_command_def peek_def line_wf_def)
  then obtain again where "repeats_command env cl (s\<lparr>cp_commandFraction := - 1\<rparr>) = Some again" by (auto elim: yieldsE)
  moreover have "decoded_at s i (FindParameters (s\<lparr>cp_commandFraction := f, cp_parameterStart := sp_commandStart s\<rparr>))" for f
    by (rule parameters_decoded [OF wf]) (use assms(2,3,5) in auto)
  moreover have "i < sp_gcodeLineEnd s" using assms(3,5) by auto
  ultimately show ?thesis by (auto simp: decode_other_def Let_def decoded_at_def next_at_def)
qed

text \<open>The start of a command is behind an apostrophe, if there is one.\<close>

definition start_of :: "'a CommandParser_scheme \<Rightarrow> nat" where
  "start_of s = (if sp_buffer s ! sp_commandStart s = CHR 0x27 then sp_commandStart s + 1 else sp_commandStart s)"

lemma DecodeCommand_decoded:
  assumes "line_ok s" "sp_commandStart s < sp_gcodeLineEnd s" "sp_commandStart s = 0 \<or> next_at s (sp_commandStart s)"
  shows "yields (\<lambda>t. decoded_at s (sp_commandStart s) t \<and> sp_commandStart t = start_of s \<and> sp_bufferState t = ready)
    (DecodeCommand env s)"
proof -
  let ?i = "sp_commandStart s" and ?c = "sp_buffer s ! sp_commandStart s"
  have wf: "sp_gcodeLineEnd s < 256" "length (sp_buffer s) = 256"
    using assms(1) by (simp_all add: line_ok_def line_wf_def MaxGCodeLength_def)
  have apo: "?i = 0" if "?c = CHR 0x27" using assms(2,3) that by (auto simp: next_at_def toupper_def)
  let ?P = "\<lambda>t. decoded_at s ?i t \<and> sp_commandStart t = start_of s"
  have "yields ?P (if cl \<in> {CHR ''G'', CHR ''M'', CHR ''T''} then decode_letter cl u else decode_other env cl u)"
    if u: "(u, cl) = (if ?c = CHR 0x27 then (s\<lparr>sp_commandStart := ?i + 1\<rparr>, tolower (sp_buffer s ! (?i + 1))) else (s, toupper ?c))" for u cl
  proof (cases "?c = CHR 0x27")
    case True
    then have u: "u = s\<lparr>sp_commandStart := 1\<rparr>" "cl = tolower (sp_buffer s ! 1)" using u apo by simp_all
    have "line_ok u" using assms(1) by (simp add: u(1) line_ok_def)
    then have "yields (\<lambda>t. decoded_at u 0 t \<and> sp_commandStart t = sp_commandStart u) (decode_other env cl u)"
      by (rule decode_other_decoded) (use apo True assms(2) in \<open>auto simp: u(1) MaxGCodeLength_def\<close>)
    then show ?thesis
      using True apo tolower_not_upper by (auto simp: u decoded_at_def next_at_def start_of_def elim!: yields_mono)
  next
    case False
    then have u: "u = s" "cl = toupper ?c" using u by simp_all
    have "yields ?P (decode_letter cl u)" if "cl \<in> {CHR ''G'', CHR ''M'', CHR ''T''}"
      using decode_letter_decoded [OF assms(1,2) u(2) that] False by (simp add: u(1) start_of_def)
    moreover have "yields ?P (decode_other env cl u)" if "cl \<notin> {CHR ''G'', CHR ''M'', CHR ''T''}"
      using decode_other_decoded [OF assms(1), of ?i env cl] that False assms(2) wf(1)
      by (simp add: u start_of_def MaxGCodeLength_def)
    ultimately show ?thesis by simp
  qed
  then show ?thesis
    using assms(2) wf apo
    by (simp add: DecodeCommand_def peek_def Let_def) (auto simp: decoded_at_def elim!: yields_mono split: if_splits)
qed

section \<open>A line is taken apart\<close>

text \<open>The commands that are ready one after another, with the parser after the last.\<close>

fun run_line :: "CommandEnv \<Rightarrow> nat \<Rightarrow> 'a CommandParser_scheme \<Rightarrow> ('a CommandParser_scheme list \<times> 'a CommandParser_scheme) option" where
  "run_line env 0 s = None"
| "run_line env (Suc fuel) s =
    (if sp_bufferState s \<noteq> ready then Some ([], s)
     else Option.bind (SetFinished env s) (\<lambda>t. map_option (apfst ((#) s)) (run_line env fuel t)))"

text \<open>Each command begins where the one before ends, and is not empty.\<close>

fun consecutive :: "char list \<Rightarrow> nat \<Rightarrow> nat \<Rightarrow> 'a CommandParser_scheme list \<Rightarrow> bool" where
  "consecutive buf i e [] \<longleftrightarrow> i = e"
| "consecutive buf i e (t # ts) \<longleftrightarrow>
     sp_buffer t = buf \<and> sp_commandStart t = (if buf ! i = CHR 0x27 then i + 1 else i) \<and> i < cp_commandEnd t
     \<and> (ts \<noteq> [] \<longrightarrow> toupper (buf ! cp_commandEnd t) \<in> {CHR ''G'', CHR ''M''}) \<and> consecutive buf (cp_commandEnd t) e ts"

lemma decoded_line_ok: "line_ok s \<Longrightarrow> decoded_at s i t \<Longrightarrow> line_ok t"
  by (simp add: decoded_at_def line_ok_def line_wf_def)

lemma consecutive_length: "consecutive buf i e ts \<Longrightarrow> i + length ts \<le> e"
  by (induction ts arbitrary: i) force+

lemma run_line_consecutive:
  assumes "line_ok s" "i < sp_gcodeLineEnd s" "decoded_at s i t" "sp_commandStart t = (if sp_buffer s ! i = CHR 0x27 then i + 1 else i)"
    "sp_bufferState t = ready" "sp_gcodeLineEnd s \<le> i + fuel"
  shows "yields (\<lambda>(ts, u). ts \<noteq> [] \<and> hd ts = t \<and> consecutive (sp_buffer s) i (sp_gcodeLineEnd s) ts \<and> sp_bufferState u = parseNotStarted)
    (run_line env (Suc fuel) t)"
  using assms
proof (induction fuel arbitrary: i t)
  case (Suc fuel)
  let ?e = "cp_commandEnd t"
  have d: "sp_buffer t = sp_buffer s" "sp_gcodeLineEnd t = sp_gcodeLineEnd s" "i < ?e" "next_at s ?e"
    using Suc.prems(3) by (simp_all add: decoded_at_def)
  show ?case
  proof (cases "?e < sp_gcodeLineEnd s")
    case True
    let ?t = "t\<lparr>sp_commandStart := ?e\<rparr>"
    have ok: "line_ok ?t" using decoded_line_ok [OF Suc.prems(1,3)] by (simp add: line_ok_def)
    have "next_at ?t ?e" using d(4) next_at_cong [of ?t s] d(1,2) by simp
    then obtain v where v: "DecodeCommand env ?t = Some v" "decoded_at ?t ?e v" "sp_commandStart v = start_of ?t" "sp_bufferState v = ready"
      using DecodeCommand_decoded [OF ok, of env] True d(2) by (auto elim: yieldsE)
    have "decoded_at s ?e v" using v(2) d(1,2) next_at_cong [of ?t s] by (simp add: decoded_at_def)
    from Suc.IH [OF Suc.prems(1) True this _ v(4)] v(3) d Suc.prems(6)
    have "yields (\<lambda>(ts, u). ts \<noteq> [] \<and> hd ts = v \<and> consecutive (sp_buffer s) ?e (sp_gcodeLineEnd s) ts \<and> sp_bufferState u = parseNotStarted)
      (run_line env (Suc fuel) v)" by (simp add: start_of_def del: run_line.simps)
    then show ?thesis
      using Suc.prems(4,5) True d v(1)
      by (auto simp: SetFinished_def next_at_def run_line.simps(2) [of env "Suc fuel"] simp del: run_line.simps elim!: yields_mono)
  next
    case False
    then have "?e = sp_gcodeLineEnd s" using d(4) by (simp add: next_at_def)
    then show ?thesis using Suc.prems(4,5) d by (auto simp: SetFinished_def sp_Init_def)
  qed
qed simp

text \<open>
  C19. However a line is made up, it is taken apart into at least one command and at most as many as it has characters: each
  begins where the one before ends, the later ones with one of the letters G and M, the last ends with the line, and
  the parser is then ready for the next line. The number of a command must fit in an \<open>int\<close> (no letter G, M or T is followed by
  a larger one), and the line has its terminator.
\<close>

lemma line_taken_apart:
  assumes "line_ok s" "sp_commandStart s = 0" "0 < sp_gcodeLineEnd s"
  shows "yields (\<lambda>(ts, u). ts \<noteq> [] \<and> length ts \<le> sp_gcodeLineEnd s \<and> consecutive (sp_buffer s) 0 (sp_gcodeLineEnd s) ts
      \<and> sp_bufferState u = parseNotStarted)
    (Option.bind (DecodeCommand env s) (run_line env (Suc (sp_gcodeLineEnd s))))"
proof -
  obtain t where t: "DecodeCommand env s = Some t" "decoded_at s 0 t" "sp_commandStart t = start_of s" "sp_bufferState t = ready"
    using DecodeCommand_decoded [OF assms(1), of env] assms(2,3) by (auto elim: yieldsE)
  have "sp_commandStart t = (if sp_buffer s ! 0 = CHR 0x27 then 0 + 1 else 0)" using t(3) assms(2) by (simp add: start_of_def)
  from run_line_consecutive [OF assms(1,3) t(2) this t(4), of "sp_gcodeLineEnd s" env]
  have "yields (\<lambda>(ts, u). ts \<noteq> [] \<and> consecutive (sp_buffer s) 0 (sp_gcodeLineEnd s) ts \<and> sp_bufferState u = parseNotStarted)
    (run_line env (Suc (sp_gcodeLineEnd s)) t)" by (auto simp del: run_line.simps elim!: yields_mono)
  then show ?thesis
    using t(1) by (auto simp del: run_line.simps elim!: yields_mono dest: consecutive_length)
qed

lemma line_taken_apart_witness:
  "yields (\<lambda>(ts, _). ts \<noteq> []) (Option.bind (DecodeCommand \<lparr>ce_axisLetters = ''XYZ'', ce_fanuc = False, ce_topLevel = True\<rparr> (example_parser ''G1X2 M114G28''))
     (run_line \<lparr>ce_axisLetters = ''XYZ'', ce_fanuc = False, ce_topLevel = True\<rparr> (Suc (sp_gcodeLineEnd (example_parser ''G1X2 M114G28'')))))"
  using line_taken_apart [of "example_parser ''G1X2 M114G28''" "\<lparr>ce_axisLetters = ''XYZ'', ce_fanuc = False, ce_topLevel = True\<rparr>"]
  by (auto simp: example_parser_def CommandParser.defs line_ok_def line_wf_def MaxGCodeLength_def is_digit_def
      unsigned_text_def digit_value_def simp del: run_line.simps elim!: yields_mono)

end
