(* ===== verification/GCodeCommandText.thy ===== *)
theory GCodeCommandText
  imports GCodeCommandProps
begin

text \<open>
  What is written into a line is what comes out: a command with its number and parameters, written in the usual way, is
  decoded to the same command, each of its parameters is found, no other is, and the readers give back the
  numbers that were written.
\<close>

section \<open>Writing a command\<close>

text \<open>Arguments: an integer, or a decimal number of two texts of digits around the point.\<close>

datatype arg = IntArg int | DecArg bool string string

fun arg_text :: "arg \<Rightarrow> string" where
  "arg_text (IntArg i) = int_dec i"
| "arg_text (DecArg neg a b) = (if neg then ''-'' else []) @ a @ ''.'' @ b"

fun arg_ok :: "arg \<Rightarrow> bool" where
  "arg_ok (IntArg i) \<longleftrightarrow> - (2 ^ 31) \<le> i \<and> i < 2 ^ 31"
| "arg_ok (DecArg neg a b) \<longleftrightarrow> list_all is_digit a \<and> list_all is_digit b \<and> a @ b \<noteq> [] \<and> dec_value 0 (a @ b) < 2 ^ 32 \<and> length b \<le> 10"

text \<open>The number nearest to a decimal, as the reader computes it.\<close>

definition decimal_float :: "bool \<Rightarrow> string \<Rightarrow> string \<Rightarrow> f32" where
  "decimal_float neg a b = (let f = d_to_f32 (d_lit (dec_value 0 (a @ b)) (10 ^ length b)) in if neg then f_neg f else f)"

fun arg_reads :: "arg \<Rightarrow> 'a CommandParser_scheme \<Rightarrow> bool" where
  "arg_reads (IntArg i) s \<longleftrightarrow> (\<forall>expr. yields (\<lambda>(r, _). r = Inr (of_int i)) (GetIValue expr s))"
| "arg_reads (DecArg neg a b) s \<longleftrightarrow> (\<forall>expr. yields (\<lambda>(r, _). r = Inr (decimal_float neg a b)) (GetFValue expr s))"

definition param_text :: "(char \<times> arg) list \<Rightarrow> string" where
  "param_text ps = concat (map (\<lambda>(x, v). CHR '' '' # x # arg_text v) ps)"

definition fraction_text :: "nat option \<Rightarrow> string" where
  "fraction_text f = (case f of None \<Rightarrow> [] | Some d \<Rightarrow> ''.'' @ dec d)"

definition command_text :: "char \<Rightarrow> nat \<Rightarrow> nat option \<Rightarrow> (char \<times> arg) list \<Rightarrow> string" where
  "command_text l n f ps = l # dec n @ fraction_text f @ param_text ps"

definition param_letter :: "char \<Rightarrow> bool" where
  "param_letter x \<longleftrightarrow> (of_char x :: nat) \<in> {65..90} \<and> x \<notin> {CHR ''G'', CHR ''M''}"

definition command_ok :: "char \<Rightarrow> nat \<Rightarrow> nat option \<Rightarrow> (char \<times> arg) list \<Rightarrow> bool" where
  "command_ok l n f ps \<longleftrightarrow> l \<in> {CHR ''G'', CHR ''M'', CHR ''T''} \<and> n < 2 ^ 31 \<and> (case f of None \<Rightarrow> True | Some d \<Rightarrow> d < 10)
     \<and> distinct (map fst ps) \<and> list_all (\<lambda>(x, v). param_letter x \<and> arg_ok v) ps
     \<and> length (command_text l n f ps) < MaxGCodeLength"

section \<open>The characters of the text\<close>

definition value_char :: "char \<Rightarrow> bool" where
  "value_char c \<longleftrightarrow> is_digit c \<or> c = CHR ''.'' \<or> c = CHR ''-''"

lemma digits_value_chars: "list_all is_digit t \<Longrightarrow> list_all value_char t"
  by (auto simp: list_all_iff value_char_def)

lemma arg_text_chars:
  assumes "arg_ok v"
  shows "list_all value_char (arg_text v) \<and> arg_text v \<noteq> []"
proof (cases v)
  case (IntArg i)
  have "list_all value_char (dec n)" "dec n \<noteq> []" for n using dec_digits [of n] digits_value_chars by simp_all
  then show ?thesis by (simp add: IntArg int_dec_def value_char_def)
next
  case (DecArg neg a b)
  then show ?thesis using assms digits_value_chars by (simp add: value_char_def)
qed

lemma param_text_simps [simp]:
  "param_text [] = []" "param_text ((x, v) # ps) = CHR '' '' # x # arg_text v @ param_text ps"
  "param_text (ps @ qs) = param_text ps @ param_text qs"
  by (simp_all add: param_text_def)

definition param_char :: "char \<Rightarrow> bool" where
  "param_char c \<longleftrightarrow> c = CHR '' '' \<or> param_letter c \<or> value_char c"

lemma value_param_chars: "list_all value_char t \<Longrightarrow> list_all param_char t"
  by (erule list.pred_mono_strong) (simp add: param_char_def)

lemma param_text_chars: "list_all (\<lambda>(x, v). param_letter x \<and> arg_ok v) ps \<Longrightarrow> list_all param_char (param_text ps)"
proof (induction ps)
  case (Cons q ps)
  obtain x v where q: "q = (x, v)" by (cases q)
  show ?case
    using Cons value_param_chars [of "arg_text v"] arg_text_chars [of v] by (simp add: q) (simp add: param_char_def)
qed simp

lemma toupper_same: "(of_char c :: nat) < 97 \<Longrightarrow> toupper c = c"
  by (simp add: toupper_def)

lemma char_codes:
  "value_char c \<Longrightarrow> 45 \<le> (of_char c :: nat) \<and> (of_char c :: nat) \<le> 57"
  "param_letter c \<Longrightarrow> 65 \<le> (of_char c :: nat) \<and> (of_char c :: nat) \<le> 90 \<and> c \<noteq> CHR ''G'' \<and> c \<noteq> CHR ''M''"
  "param_char c \<Longrightarrow> 32 \<le> (of_char c :: nat) \<and> (of_char c :: nat) \<le> 90 \<and> (of_char c :: nat) \<notin> {34, 39, 40, 59}"
  by (auto simp: value_char_def is_digit_def param_letter_def param_char_def)

lemma char_by_code: "(of_char c :: nat) \<noteq> of_char d \<Longrightarrow> c \<noteq> d"
  by auto

lemma value_char_facts:
  assumes "value_char c"
  shows "toupper c = c" "c \<noteq> CHR '' ''" "\<not> param_letter c"
proof -
  note k = char_codes(1) [OF assms]
  show "toupper c = c" by (rule toupper_same) (use k in simp)
  show "c \<noteq> CHR '' ''" by (rule char_by_code) (use k in simp)
  show "\<not> param_letter c" using k char_codes(2) [of c] by auto
qed

lemma param_letter_facts:
  assumes "param_letter c"
  shows "toupper c = c" "letter c" "\<not> lower c" "\<not> white c" "\<not> is_digit c" "c \<noteq> CHR '' ''"
proof -
  note k = char_codes(2) [OF assms]
  show "toupper c = c" by (rule toupper_same) (use k in simp)
  show "letter c" "\<not> lower c" "\<not> is_digit c" using k by (simp_all add: letter_def is_digit_def)
  show "c \<noteq> CHR '' ''" by (rule char_by_code) (use k in simp)
  moreover have "c \<noteq> CHR 0x09" by (rule char_by_code) (use k in simp)
  ultimately show "\<not> white c" by (simp add: white_def)
qed

lemma param_char_facts:
  assumes "param_char c"
  shows "toupper c = c" "c \<notin> {CHR 0x27, CHR 0x22, CHR ''{'', CHR ''}'', CHR ''G'', CHR ''M''}" "stored_char env c"
proof -
  note k = char_codes(3) [OF assms]
  show u: "toupper c = c" by (rule toupper_same) (use k in simp)
  have ne: "c \<noteq> d" if "(of_char d :: nat) \<in> {34, 39, 40, 59} \<or> (of_char d :: nat) < 32 \<or> 90 < (of_char d :: nat)" for d
    by (rule char_by_code) (use k that in auto)
  have "c \<noteq> CHR ''G''" "c \<noteq> CHR ''M''"
    using assms by (auto simp: param_char_def param_letter_def value_char_def is_digit_def)
  then show "c \<notin> {CHR 0x27, CHR 0x22, CHR ''{'', CHR ''}'', CHR ''G'', CHR ''M''}" by (simp add: ne)
  show "stored_char env c" by (simp add: stored_char_def ne)
qed

section \<open>Searching the text\<close>

lemma find_loop_params:
  "list_all param_char cs \<Longrightarrow> \<exists>b. find_loop prev False False 0 bits cs = (length cs, b)"
proof (induction cs arbitrary: prev bits)
  case (Cons c cs)
  then show ?case using param_char_facts [of c]
    by (auto simp: find_loop_Cons) (metis (no_types, lifting) apfst_conv)
qed simp

definition skipped :: "char \<Rightarrow> bool \<Rightarrow> char \<Rightarrow> bool" where
  "skipped C l c \<longleftrightarrow> c \<notin> {CHR 0x27, CHR 0x22, CHR ''{'', CHR ''}''} \<and> (toupper c \<noteq> C \<or> l)"

lemma seen_loop_skip:
  "list_all (skipped C l) a \<Longrightarrow> seen_loop C l prev False False 0 (a @ r) =
     map_option ((+) (length a)) (seen_loop C l (if a = [] then prev else Some (last a)) False False 0 r)"
proof (induction a arbitrary: prev)
  case Nil
  then show ?case by (cases "seen_loop C l prev False False 0 r") simp_all
next
  case (Cons c a)
  have c: "skipped C l c" "list_all (skipped C l) a" using Cons.prems by simp_all
  have "seen_loop C l prev False False 0 ((c # a) @ r) = map_option Suc (seen_loop C l (Some c) False False 0 (a @ r))"
    using c(1) by (auto simp: skipped_def Let_def)
  also have "\<dots> = map_option Suc (map_option ((+) (length a)) (seen_loop C l (if a = [] then Some c else Some (last a)) False False 0 r))"
    by (simp only: Cons.IH [OF c(2)])
  finally show ?case
    by (cases "seen_loop C l (if a = [] then Some c else Some (last a)) False False 0 r") (simp_all split: if_splits)
qed

lemma skipped_params:
  assumes "list_all (\<lambda>(x, v). param_letter x \<and> arg_ok v) ps" "letter C" "lower C \<or> C \<notin> fst ` set ps"
  shows "list_all (skipped (toupper C) (lower C)) (param_text ps @ [CHR '' ''])"
proof -
  have up: "65 \<le> (of_char (toupper C) :: nat)" using toupper_lower [OF assms(2)] assms(2) by (auto simp: letter_def)
  have small: "skipped (toupper C) l c" if "param_char c" "(of_char c :: nat) < 65" for c l
    using param_char_facts(1,2) [OF that(1)] that(2) up by (auto simp: skipped_def)
  have "list_all (skipped (toupper C) (lower C)) (param_text ps)"
    using assms(1,3)
  proof (induction ps)
    case (Cons q ps)
    obtain y v where q: "q = (y, v)" by (cases q)
    have y: "param_letter y" "arg_ok v" "lower C \<or> y \<noteq> C" "list_all (skipped (toupper C) (lower C)) (param_text ps)"
      using Cons by (auto simp: q)
    have "skipped (toupper C) (lower C) y"
      using y(1,3) param_char_facts(1,2) [of y] toupper_lower [OF assms(2)]
      by (auto simp: skipped_def param_char_def char_eq_iff simp del: of_char_eq_iff)
    moreover have "skipped (toupper C) (lower C) c" if "c \<in> set (arg_text v)" for c
      using arg_text_chars [OF y(2)] that char_codes(1) [of c] by (intro small) (auto simp: list_all_iff param_char_def)
    ultimately show ?case using y(4) small [of "CHR '' ''"] by (auto simp: q list_all_iff param_char_def)
  qed simp
  then show ?thesis using small [of "CHR '' ''"] by (simp add: param_char_def)
qed

text \<open>The blank before the first parameter is skipped when the command is decoded.\<close>

lemma seen_loop_param:
  assumes "param_letter x" "x \<notin> fst ` set qs" "list_all (\<lambda>(x, v). param_letter x \<and> arg_ok v) qs"
  shows "seen_loop x False None False False 0 (tl (param_text (qs @ (x, v) # rs))) = Some (length (param_text qs) + 1)"
proof -
  let ?a = "tl (param_text qs @ [CHR '' ''])"
  note x = param_letter_facts [OF assms(1)]
  have a: "list_all (skipped x False) ?a"
    using skipped_params [OF assms(3) x(2)] assms(2) x(1,3) by (cases "param_text qs") auto
  have "tl (param_text (qs @ (x, v) # rs)) = ?a @ x # arg_text v @ param_text rs"
    by (cases "param_text qs") simp_all
  moreover have "?a = [] \<or> last ?a = CHR '' ''" by (cases "param_text qs") simp_all
  moreover have "length ?a = length (param_text qs)" by simp
  moreover have "x \<noteq> CHR 0x27" "x \<noteq> CHR 0x22" using assms(1) param_char_facts(2) [of x] by (auto simp: param_char_def)
  ultimately show ?thesis
    using seen_loop_skip [OF a, of None "x # arg_text v @ param_text rs"] x(1)
    by (auto simp: starts_parameter_def is_digit_def Let_def)
qed

lemma apostrophes_ok_params: "list_all param_char cs \<Longrightarrow> apostrophes_ok cs"
  by (induction cs rule: apostrophes_ok.induct) (auto dest: param_char_facts(2))

lemma seen_loop_absent:
  assumes "list_all (\<lambda>(x, v). param_letter x \<and> arg_ok v) ps" "letter c" "lower c \<or> c \<notin> fst ` set ps"
  shows "seen_loop (toupper c) (lower c) None False False 0 (tl (param_text ps)) = None"
proof -
  have "list_all (skipped (toupper c) (lower c)) (tl (param_text ps))"
    using skipped_params [OF assms] by (cases "param_text ps") auto
  from seen_loop_skip [OF this, of None "[]"] show ?thesis by simp
qed

section \<open>Reading the text\<close>

lemma command_digits_exact:
  "list_all is_digit t \<Longrightarrow> \<not> is_digit c \<Longrightarrow> dec_value m t < 2 ^ 31 \<Longrightarrow>
   command_digits (int m) (t @ c # r) = Some (int (dec_value m t), c # r)"
proof (induction t arbitrary: m)
  case (Cons d t)
  have "10 * m + digit_value d < 2 ^ 31"
    using Cons.prems(3) dec_value_ge [of "10 * m + digit_value d" t] by simp
  then have "int (10 * m + digit_value d) < 2 ^ 31" by (metis of_nat_less_iff of_nat_numeral of_nat_power)
  then show ?case using Cons.prems Cons.IH [of "10 * m + digit_value d"] by (simp add: Let_def)
qed simp

lemma dec_digit: "d < 10 \<Longrightarrow> dec d = [char_of (48 + d)]"
  by (simp add: dec.simps)

lemma read_command_number_text:
  assumes "n < 2 ^ 31" "case f of None \<Rightarrow> True | Some d \<Rightarrow> d < 10" "\<not> is_digit c" "c \<noteq> CHR ''.''"
  shows "read_command_number (dec n @ fraction_text f @ c # r)
    = Some ((True, int n, case f of None \<Rightarrow> - 1 | Some d \<Rightarrow> int d), c # r)"
proof -
  obtain d ds where d: "dec n = d # ds" "is_digit d" "list_all is_digit ds" using dec_digits [of n] by (cases "dec n") auto
  then have neg: "d \<noteq> CHR ''-''" by (auto simp: is_digit_def)
  obtain e es where e: "fraction_text f @ c # r = e # es" "\<not> is_digit e"
    using assms(3) by (cases f) (auto simp: fraction_text_def is_digit_def)
  have "command_digits (int 0) (dec n @ e # es) = Some (int n, e # es)"
    using command_digits_exact [of "dec n" e 0 es] dec_digits [of n] e(2) assms(1) by simp
  moreover have "command_fraction (int n) (e # es) = Some ((True, int n, case f of None \<Rightarrow> - 1 | Some d \<Rightarrow> int d), c # r)"
    using e(1) assms(2-4) by (cases f) (auto simp: command_fraction_def fraction_text_def dec_digit is_digit_def digit_value_def)
  ultimately show ?thesis
    using d(1,2) neg e(1) by (simp add: read_command_number_def Let_def del: command_digits.simps)
qed

lemma arg_reads_text:
  assumes "arg_ok v" "0 < sp_readPointer u" "at_pointer u = arg_text v @ c # r" "\<not> is_digit c" "toupper c \<noteq> CHR ''E''"
  shows "arg_reads v u"
proof -
  let ?i = "nat (sp_readPointer u)"
  have v: "arg_text v \<noteq> []" "list_all value_char (arg_text v)" using arg_text_chars [OF assms(1)] by simp_all
  then obtain w ws where w: "arg_text v = w # ws" "value_char w" by (cases "arg_text v") auto
  have len: "?i < length (sp_buffer u)" using assms(3) v(1) by (metis append_is_Nil_conv drop_all linorder_not_le)
  then have peek: "peek (sp_buffer u) ?i = Some w"
    using assms(3) w(1) by (simp add: peek_def) (metis append_Cons nth_via_drop)
  have brace: "w \<noteq> CHR ''{''" by (rule char_by_code) (use char_codes(1) [OF w(2)] in simp)
  have found: "yields (\<lambda>(q, _). q = Inr y) (get_value (read_value expr number) u)"
    if "number (at_pointer u) = Some (y, c # r)" for y :: 'b and number expr
    using that assms(2,3) peek brace v(1) by (simp add: get_value_def read_value_def CheckNumberFound_def)
  show ?thesis
  proof (cases v)
    case (IntArg i)
    have "StrToI32 (at_pointer u) = Some (of_int i, c # r)"
    proof (cases "i < 0")
      case True
      then show ?thesis
        using StrToI32_clamps [of "dec (nat (- i))" c "''-''" r] dec_digits [of "nat (- i)"] assms(1,3,4) by (simp add: IntArg int_dec_def)
    next
      case False
      then show ?thesis
        using StrToI32_clamps [of "dec (nat i)" c "[]" r] dec_digits [of "nat i"] assms(1,3,4) by (simp add: IntArg int_dec_def)
    qed
    then have "yields (\<lambda>(q, _). q = Inr (of_int i)) (get_value (read_value e StrToI32) u)" for e by (rule found)
    then show ?thesis by (simp add: IntArg GetIValue_def ReadIValue_def)
  next
    case (DecArg neg a b)
    have "SafeStrtof (at_pointer u) = Some (decimal_float neg a b, c # r)"
      using SafeStrtof_decimal [of a b c "if neg then ''-'' else []" r] assms by (simp add: DecArg decimal_float_def Let_def)
    then have "yields (\<lambda>(q, _). q = Inr (decimal_float neg a b)) (get_value (read_value e SafeStrtof) u)" for e by (rule found)
    then show ?thesis by (simp add: DecArg GetFValue_def ReadFloatValue_def)
  qed
qed

text \<open>The decoder at the text of a command.\<close>

definition decoded_text :: "char \<Rightarrow> nat \<Rightarrow> nat option \<Rightarrow> (char \<times> arg) list \<Rightarrow> 'a CommandParser_scheme \<Rightarrow> bool" where
  "decoded_text l n f ps t \<longleftrightarrow> cp_commandLetter t = l \<and> cp_hasCommandNumber t \<and> cp_commandNumber t = int n
     \<and> cp_commandFraction t = (case f of None \<Rightarrow> - 1 | Some d \<Rightarrow> int d)
     \<and> (\<exists>junk. sp_buffer t = command_text l n f ps @ NUL # junk)
     \<and> cp_parameterStart t = length (command_text l n f []) + (if ps = [] then 0 else 1)
     \<and> cp_commandEnd t = length (command_text l n f ps) \<and> sp_gcodeLineEnd t = cp_commandEnd t
     \<and> find_loop None False False 0 0 (tl (param_text ps)) = (length (tl (param_text ps)), cp_parametersPresent t)"

lemma command_text_append: "command_text l n f ps = command_text l n f [] @ param_text ps"
  by (simp add: command_text_def)

lemma white_params: "length (takeWhile white (param_text ps)) = (if ps = [] then 0 else 1)" if "list_all (\<lambda>(x, v). param_letter x \<and> arg_ok v) ps"
  using that param_letter_facts(4) by (cases ps) (auto simp: white_def)

lemma decode_letter_text:
  assumes "command_ok l n f ps" "sp_buffer s = command_text l n f ps @ NUL # junk" "sp_commandStart s = 0"
    "sp_gcodeLineEnd s = length (command_text l n f ps)"
  shows "yields (decoded_text l n f ps) (decode_letter l s)"
proof -
  let ?h = "command_text l n f []" and ?p = "param_text ps"
  have ok: "n < 2 ^ 31" "case f of None \<Rightarrow> True | Some d \<Rightarrow> d < 10" "list_all (\<lambda>(x, v). param_letter x \<and> arg_ok v) ps"
    using assms(1) by (simp_all add: command_ok_def)
  obtain c r where c: "?p @ NUL # junk = c # r" "\<not> is_digit c" "c \<noteq> CHR ''.''"
    by (cases ps) (auto simp: is_digit_def)
  obtain d ds where d: "dec n = d # ds" "is_digit d" using dec_digits [of n] by (cases "dec n") auto
  then have brace: "d \<noteq> CHR ''{''" by (auto simp: is_digit_def)
  have rd: "read_command_number (dec n @ fraction_text f @ ?p @ NUL # junk)
      = Some ((True, int n, case f of None \<Rightarrow> - 1 | Some d \<Rightarrow> int d), ?p @ NUL # junk)"
    using read_command_number_text [OF ok(1,2) c(2,3)] c(1) by simp
  have buf: "sp_buffer s = ?h @ ?p @ NUL # junk" "drop 1 (sp_buffer s) = dec n @ fraction_text f @ ?p @ NUL # junk"
    using assms(2) command_text_append [of l n f ps] by (simp_all add: command_text_def)
  define t where "t = s\<lparr>cp_commandLetter := l, cp_hasCommandNumber := True, cp_commandNumber := int n,
     cp_commandFraction := (case f of None \<Rightarrow> - 1 | Some d \<Rightarrow> int d), cp_parameterStart := length ?h\<rparr>"
  have "length (sp_buffer s) - length (?p @ NUL # junk) = length ?h" using buf(1) by simp
  then have dec: "decode_letter l s = Some (FindParameters (skip_blanks t))"
    using rd buf(2) d(1) brace assms(3) by (simp add: decode_letter_def Let_def t_def)
  have rest: "rest_of_line t = ?p" "rest_of_line (skip_blanks t) = tl ?p"
    using buf(1) assms(4) white_params [OF ok(3)] command_text_append [of l n f ps]
    by (auto simp: t_def rest_of_line_def skip_blanks_def drop_Suc)
  obtain b where b: "find_loop None False False 0 0 (tl ?p) = (length (tl ?p), b)"
    using find_loop_params [of "tl ?p" None 0] param_text_chars [OF ok(3)] by (cases ?p) auto
  define i where "i = length ?h + (if ps = [] then 0 else 1)"
  have sk: "skip_blanks t = t\<lparr>cp_parameterStart := i\<rparr>"
    using rest(1) white_params [OF ok(3)] by (simp add: skip_blanks_def t_def i_def)
  have "FindParameters (skip_blanks t) = t\<lparr>cp_parameterStart := i, cp_commandEnd := i + length (tl ?p), cp_parametersPresent := b\<rparr>"
    by (simp add: FindParameters_def rest(2) b) (simp add: sk)
  moreover have "length (command_text l n f ps) = i + length (tl ?p)"
    using command_text_append [of l n f ps] by (cases ps) (auto simp: i_def)
  ultimately have "decoded_text l n f ps (FindParameters (skip_blanks t))"
    using assms(2,4) b by (simp add: decoded_text_def t_def) (simp add: i_def)
  then show ?thesis using dec by simp
qed

text \<open>The parameters of a decoded text.\<close>

lemma decoded_parameters:
  assumes "decoded_text l n f ps s"
  shows "parameters s = tl (param_text ps)"
proof -
  have "cp_parameterStart s = length (command_text l n f []) + (if ps = [] then 0 else 1)"
    "cp_commandEnd s = length (command_text l n f []) + length (param_text ps)"
    "take (cp_commandEnd s) (sp_buffer s) = command_text l n f [] @ param_text ps"
    using assms command_text_append [of l n f ps] by (auto simp: decoded_text_def)
  then show ?thesis by (simp add: parameters_def drop_Suc)
qed

lemma parameter_absent:
  assumes "list_all (\<lambda>(x, v). param_letter x \<and> arg_ok v) ps" "letter c" "lower c \<or> c \<notin> fst ` set ps" "parameters s = tl (param_text ps)"
  shows "\<not> fst (Seen c s)"
  using seen_loop_absent [OF assms(1-3)] by (simp add: Seen_def assms(4))

lemma parameter_present:
  assumes ok: "list_all (\<lambda>(x, v). param_letter x \<and> arg_ok v) ps" "distinct (map fst ps)" and xv: "(x, v) \<in> set ps" and s: "decoded_text l n f ps s"
  shows "fst (Seen x s) \<and> arg_reads v (snd (Seen x s))"
proof -
  let ?p = "param_text ps" and ?h = "length (command_text l n f [])"
  obtain qs rs where ps: "ps = qs @ (x, v) # rs" using xv by (metis split_list)
  have x: "param_letter x" "arg_ok v" "x \<notin> fst ` set qs" "list_all (\<lambda>(x, v). param_letter x \<and> arg_ok v) qs"
    using ok ps by auto
  note l = param_letter_facts [OF x(1)]
  obtain junk where junk: "sp_buffer s = command_text l n f ps @ NUL # junk" using s by (auto simp: decoded_text_def)
  have ps0: "cp_parameterStart s = ?h + 1" using s ps by (auto simp: decoded_text_def)
  have buf: "sp_buffer s = (command_text l n f [] @ ?p) @ NUL # junk" using junk command_text_append [of l n f ps] by simp
  have sl: "seen_loop (toupper x) (lower x) None False False 0 (tl ?p) = Some (length (param_text qs) + 1)"
    using seen_loop_param [OF x(1,3,4)] l(1,3) by (simp add: ps)
  have bits: "find_loop None False False 0 0 (tl ?p) = (length (tl ?p), cp_parametersPresent s)"
    using s by (simp add: decoded_text_def)
  have "list_all param_char (tl ?p)" using param_text_chars [OF ok(1)] by (cases ?p) auto
  then have apo: "apostrophes_ok (tl ?p)" by (rule apostrophes_ok_params)
  have bit: "parameter_bit x < 32" using char_codes(2) [OF x(1)] by (auto simp: parameter_bit_def)
  have "bit (cp_parametersPresent s) (parameter_bit x)"
    using find_seen [OF l(2) bit bits] apo sl by simp
  then have Seen: "Seen x s = (True, s\<lparr>sp_readPointer := int (?h + 1 + (length (param_text qs) + 1)), cp_characterSeen := toupper x\<rparr>)"
    using bit sl decoded_parameters [OF s] ps0 by (simp add: Seen_def)
  obtain c r where c: "param_text rs @ NUL # junk = c # r" "\<not> is_digit c" "toupper c \<noteq> CHR ''E''"
    by (cases rs) (auto simp: is_digit_def toupper_same)
  have "drop (?h + 1 + (length (param_text qs) + 1)) (sp_buffer s) = arg_text v @ c # r"
    using buf c(1) by (simp add: ps)
  then have "at_pointer (snd (Seen x s)) = arg_text v @ c # r" "0 < sp_readPointer (snd (Seen x s))"
    unfolding Seen snd_conv by (simp_all del: of_nat_add of_nat_Suc add_Suc_right add_2_eq_Suc add_2_eq_Suc')
  then have "arg_reads v (snd (Seen x s))" using arg_reads_text [OF x(2) _ _ c(2,3)] by blast
  then show ?thesis by (simp add: Seen)
qed

section \<open>The round trip\<close>

lemma DecodeCommand_text:
  assumes "command_ok l n f ps" "sp_buffer s = command_text l n f ps @ NUL # junk" "sp_commandStart s = 0"
    "sp_gcodeLineEnd s = length (command_text l n f ps)"
  shows "yields (\<lambda>t. decoded_text l n f ps t \<and> sp_bufferState t = ready) (DecodeCommand env s)"
proof -
  have l: "l \<in> {CHR ''G'', CHR ''M'', CHR ''T''}" using assms(1) by (simp add: command_ok_def)
  then have up: "toupper l = l" "l \<noteq> CHR 0x27" by (auto simp: toupper_same)
  obtain t where t: "decode_letter l s = Some t" "decoded_text l n f ps t"
    using decode_letter_text [OF assms] by (auto elim: yieldsE)
  have "peek (sp_buffer s) 0 = Some l" by (simp add: assms(2) peek_def command_text_def)
  then have "DecodeCommand env s = Some (t\<lparr>cp_explicitLineNumber :=
         if ce_topLevel env then if sp_hadLineNumber t then Some (sp_receivedLineNumber t) else None else cp_explicitLineNumber t,
       sp_bufferState := ready\<rparr>)"
    using t(1) up l assms(3) by (simp add: DecodeCommand_def)
  then show ?thesis using t(2) by (simp add: decoded_text_def)
qed

lemma command_text_line:
  assumes "command_ok l n f ps"
  shows "line_text env (command_text l n f ps)"
proof -
  have ok: "l \<in> {CHR ''G'', CHR ''M'', CHR ''T''}" "list_all (\<lambda>(x, v). param_letter x \<and> arg_ok v) ps"
    "case f of None \<Rightarrow> True | Some d \<Rightarrow> d < 10" "length (command_text l n f ps) < MaxGCodeLength"
    using assms by (simp_all add: command_ok_def)
  have "list_all param_char (dec m)" for m
    using dec_digits [of m] digits_value_chars value_param_chars by simp
  then have "list_all param_char (dec n @ fraction_text f @ param_text ps)"
    using param_text_chars [OF ok(2)] ok(3) by (cases f) (simp_all add: fraction_text_def param_char_def value_char_def)
  then have "list_all (stored_char env) (dec n @ fraction_text f @ param_text ps)"
    using param_char_facts(3) by (auto simp: list_all_iff)
  moreover have "stored_char env l" using ok(1) by (auto simp: stored_char_def)
  ultimately show ?thesis using ok(1,4) by (auto simp: line_text_def command_text_def)
qed

text \<open>A command that is as it was written: its letter, number and fraction, exactly its parameters, and their values.\<close>

definition as_written :: "char \<Rightarrow> nat \<Rightarrow> nat option \<Rightarrow> (char \<times> arg) list \<Rightarrow> 'a CommandParser_scheme \<Rightarrow> bool" where
  "as_written l n f ps t \<longleftrightarrow> cp_commandLetter t = l \<and> cp_hasCommandNumber t \<and> cp_commandNumber t = int n
     \<and> cp_commandFraction t = (case f of None \<Rightarrow> - 1 | Some d \<Rightarrow> int d)
     \<and> (\<forall>c. letter c \<longrightarrow> (case map_of ps c of None \<Rightarrow> \<not> fst (Seen c t) | Some v \<Rightarrow> fst (Seen c t) \<and> arg_reads v (snd (Seen c t))))"

lemma decoded_as_written:
  assumes "command_ok l n f ps" "decoded_text l n f ps t"
  shows "as_written l n f ps t"
proof -
  have ok: "list_all (\<lambda>(x, v). param_letter x \<and> arg_ok v) ps" "distinct (map fst ps)"
    using assms(1) by (simp_all add: command_ok_def)
  have "case map_of ps c of None \<Rightarrow> \<not> fst (Seen c t) | Some w \<Rightarrow> fst (Seen c t) \<and> arg_reads w (snd (Seen c t))" if "letter c" for c
  proof (cases "map_of ps c")
    case None
    then have "\<not> fst (Seen c t)"
      using parameter_absent [OF ok(1) that _ decoded_parameters [OF assms(2)]] by (simp add: map_of_eq_None_iff)
    then show ?thesis using None by simp
  next
    case (Some w)
    then show ?thesis using parameter_present [OF ok map_of_SomeD [OF Some] assms(2)] by simp
  qed
  then show ?thesis using assms(2) by (simp add: as_written_def decoded_text_def)
qed

text \<open>
  C12. Every command written in the usual way, one of the letters G, M, T with its number, a fractional digit or not, and
  parameters with distinct letters, comes out of the line parser and the decoder as it was written: letter, number and
  fraction are the same, exactly the parameters that were written are found, and reading each gives its integer, or
  the float nearest to its decimal number.
\<close>

lemma command_roundtrip:
  assumes "command_ok l n f ps" "line_wf s" "le_nested lenv \<or> \<not> sp_checksumRequired s \<and> \<not> sp_crcRequired s"
  shows "yields (as_written l n f ps) (PutAndDecode lenv env (command_text l n f ps) s)"
proof -
  let ?t = "command_text l n f ps"
  have fr: "fresh (sp_Init s)" by (rule fresh_Init [OF assms(2)])
  have cs: "le_nested lenv \<or> \<not> sp_checksumRequired (sp_Init s) \<and> \<not> sp_crcRequired (sp_Init s)"
    using assms(3) by (simp add: sp_Init_def)
  obtain x u v where v: "Put_all lenv ?t (sp_Init s) = Some (False, x, u)" "Put lenv CHR 0x0A u = Some (True, v)"
    "line_ready (sp_Init s) 0 ?t v"
    using line_completed [OF fr command_text_line [OF assms(1)] cs, of 0] by auto
  have "length ?t < MaxGCodeLength" using assms(1) by (simp add: command_ok_def)
  from line_ready_buffer [OF v(3) this]
  obtain junk where b: "sp_buffer v = ?t @ NUL # junk" "sp_commandStart v = 0" "sp_gcodeLineEnd v = length ?t" by metis
  obtain t where t: "DecodeCommand env v = Some t" "decoded_text l n f ps t"
    using DecodeCommand_text [OF assms(1) b, of env] by (auto elim: yieldsE)
  show ?thesis using v(1,2) t(1) decoded_as_written [OF assms(1) t(2)] by (simp add: PutAndDecode_def)
qed

lemma command_roundtrip_witness:
  "yields (\<lambda>t. cp_commandNumber t = 1 \<and> arg_reads (IntArg 10) (snd (Seen CHR ''X'' t)) \<and> \<not> fst (Seen CHR ''Y'' t))
    (PutAndDecode \<lparr>le_isDoingFile = True, le_cnc = False, le_nested = False\<rparr> \<lparr>ce_axisLetters = ''XYZ'', ce_fanuc = False, ce_topLevel = True\<rparr>
      (command_text CHR ''G'' 1 None [(CHR ''X'', IntArg 10), (CHR ''E'', DecArg True ''0'' ''5'')]) (example_parser []))"
proof -
  let ?ps = "[(CHR ''X'', IntArg 10), (CHR ''E'', DecArg True ''0'' ''5'')]"
  have "dec 1 = ''1''" "dec 10 = ''10''" by (simp_all add: dec.simps char_of_def bit_Suc_0_iff bit_numeral_rec)
  then have ok: "command_ok CHR ''G'' 1 None ?ps"
    by (simp add: command_ok_def command_text_def fraction_text_def int_dec_def param_letter_def MaxGCodeLength_def is_digit_def digit_value_def)
  have wf: "line_wf (example_parser [])" by (simp add: line_wf_def example_parser_def CommandParser.defs MaxGCodeLength_def)
  show ?thesis
    by (rule yields_mono [OF command_roundtrip [OF ok wf]])
      (auto simp: as_written_def example_parser_def CommandParser.defs letter_def dest: spec [of _ "CHR ''X''"] spec [of _ "CHR ''Y''"])
qed

section \<open>Quoted strings\<close>

text \<open>In a quoted string, quotation marks and apostrophes are doubled.\<close>

definition quote_char :: "char \<Rightarrow> string" where
  "quote_char c = (if c = CHR 0x22 \<or> c = CHR 0x27 then [c, c] else [c])"

definition quote_text :: "string \<Rightarrow> string" where
  "quote_text t = concat (map quote_char t)"

definition printable :: "char \<Rightarrow> bool" where
  "printable c \<longleftrightarrow> 32 \<le> (of_char c :: nat)"

lemma quote_text_simps [simp]: "quote_text [] = []" "quote_text (c # t) = quote_char c @ quote_text t"
  by (simp_all add: quote_text_def)

lemma quoted_loop_char:
  assumes "printable c"
  shows "quoted_loop (quote_char c @ r) str = Option.bind (sr_catc str c) (\<lambda>(full, str1).
     if full then Some (Inl ''string too long'', r, str1) else quoted_loop r str1)"
proof -
  have "\<not> is_alpha CHR 0x27" by (simp add: is_alpha_def toupper_same)
  then show ?thesis using assms by (auto simp: quote_char_def quoted_char_def printable_def)
qed

lemma quoted_loop_text:
  assumes "list_all printable t" "c \<noteq> CHR 0x22"
  shows "sref str \<Longrightarrow> \<exists>q rest. quoted_loop (quote_text t @ CHR 0x22 # c # r) str =
      Some (if length (content str) + length t < length str then Inr () else Inl ''string too long'', rest, q)
    \<and> holds (length str) (take (length str - 1) (content str @ t)) q
    \<and> (length (content str) + length t < length str \<longrightarrow> rest = c # r)"
  using assms(1)
proof (induction t arbitrary: str)
  case Nil
  then show ?case
    using assms(2) sref_len [of str] by (simp add: quoted_char_def holds_def sref_def)
next
  case (Cons d t)
  have d: "printable d" "d \<noteq> NUL" using Cons.prems(2) by (auto simp: printable_def)
  obtain q where q: "sr_catc str d = Some (length str \<le> length (content str) + 1, q)"
    "holds (length str) (take (length str - 1) (content str @ [d])) q"
    using catc_stores [OF Cons.prems(1) d(2)] by (auto simp: stores_flag_def)
  show ?case
  proof (cases "length str \<le> length (content str) + 1")
    case True
    then have "take (length str - 1) (content str @ [d]) = take (length str - 1) (content str @ d # t)"
      using sref_len [OF Cons.prems(1)] by simp
    then show ?thesis using True q by (simp add: quoted_loop_char [OF d(1)])
  next
    case False
    then have h: "sref q" "content q = content str @ [d]" "length q = length str"
      using holds_sref [OF q(2)] by simp_all
    show ?thesis
      using Cons.IH [OF h(1)] Cons.prems(2) False q(1) by (simp add: quoted_loop_char [OF d(1)] h(2,3))
  qed
qed

text \<open>
  C29. A text that is written as a quoted string, with its quotation marks and apostrophes doubled, is read back exactly as it
  was, and reading goes on behind the closing quotation mark; a text too long for the string that receives it is
  cut there and reported. The text may hold any characters but control characters.
\<close>

lemma quoted_string_roundtrip:
  assumes "list_all printable t" "c \<noteq> CHR 0x22" "0 < sp_readPointer s"
    "at_pointer s = CHR 0x22 # quote_text t @ CHR 0x22 # c # r" "sref str" "allowEmpty \<or> t \<noteq> []"
  shows "yields (\<lambda>(e, u, q).
      if length t < length str then e = Inr () \<and> content q = t \<and> at_pointer u = c # r
      else e = Inl ''string too long'' \<and> content q = take (length str - 1) t)
    (GetQuotedString expr allowEmpty s str)"
proof -
  let ?i = "nat (sp_readPointer s)"
  obtain p1 where p1: "Clear str = Some p1" "holds (length str) [] p1" using Clear_holds [OF assms(5)] by blast
  obtain p2 where p2: "Clear p1 = Some p2" "holds (length str) [] p2"
    using Clear_holds [of p1] holds_sref [OF p1(2)] by auto
  note h = holds_sref [OF p2(2)]
  obtain q rest where q: "quoted_loop (quote_text t @ CHR 0x22 # c # r) p2 =
      Some (if length t < length str then Inr () else Inl ''string too long'', rest, q)"
    "holds (length str) (take (length str - 1) t) q" "length t < length str \<longrightarrow> rest = c # r"
    using quoted_loop_text [OF assms(1,2) h(1), of r] h(2,3) by auto
  have len: "?i < length (sp_buffer s)" using assms(4) by (metis drop_all list.distinct(1) linorder_not_le)
  then have peek: "peek (sp_buffer s) ?i = Some CHR 0x22"
    using assms(4) by (simp add: peek_def) (metis nth_via_drop)
  let ?a = "take ?i (sp_buffer s) @ CHR 0x22 # quote_text t @ [CHR 0x22]"
  have buf: "sp_buffer s = ?a @ c # r" using append_take_drop_id [of ?i "sp_buffer s"] assms(4) by simp
  then have "length (sp_buffer s) - length (c # r) = length ?a" by (metis add_diff_cancel_right' length_append)
  then have at: "drop (length (sp_buffer s) - length (c # r)) (sp_buffer s) = c # r"
    using buf by (metis append_eq_conv_conj)
  have "InternalGetQuotedString s p1 = Some (if length t < length str then Inr () else Inl ''string too long'',
      s\<lparr>sp_readPointer := int (length (sp_buffer s) - length rest)\<rparr>, q)"
    using p2(1) q(1) assms(4) by (simp add: InternalGetQuotedString_def)
  then have "GetQuotedString expr allowEmpty s str = check_empty allowEmpty
      (Some (if length t < length str then Inr () else Inl ''string too long'',
        s\<lparr>sp_readPointer := int (length (sp_buffer s) - length rest)\<rparr>, q))"
    using assms(3) p1(1) peek by (simp add: GetQuotedString_def)
  moreover have "content q = take (length str - 1) t" using q(2) by (simp add: holds_def)
  ultimately show ?thesis
    using q(3) at assms(6) by (cases "length t < length str") (auto simp: check_empty_def)
qed

lemma quoted_string_roundtrip_witness:
  "yields (\<lambda>(e, _, q). e = Inr () \<and> content q = ''a'' @ CHR 0x27 # ''B'')
    (GetQuotedString (\<lambda>_ _. Inl []) False ((example_parser (''M117 '' @ [CHR 0x22] @ quote_text (''a'' @ CHR 0x27 # ''B'') @ [CHR 0x22]))
      \<lparr>sp_readPointer := 5\<rparr>) (replicate 10 NUL))"
proof -
  have "replicate 245 NUL = NUL # replicate 244 NUL" by (simp flip: replicate_Suc)
  then show ?thesis
    by (intro yields_mono [OF quoted_string_roundtrip [of "''a'' @ CHR 0x27 # ''B''" NUL _ "replicate 244 NUL"]])
      (simp_all add: example_parser_def CommandParser.defs printable_def quote_char_def sref_def split_beta' del: replicate.simps)
qed

end
