(* ===== verification/GCodeSimulation.thy ===== *)
theory GCodeSimulation
  imports GCodeStructured GCodeStack GCodeCommandText
begin

text \<open>
  The line machine executes a structured program: each case of the big-step semantics is a run of the machine from the first
  line of the program to the line behind its last one, or to the loop that the program leaves or continues.
\<close>

section \<open>Parts of a program\<close>

lemma program_at_append:
  assumes "program_at lenv file n S p (a @ b) r" "b = [] \<or> fst (hd b) \<le> n"
  shows "program_at lenv file n S p a (text_of b @ r)" "program_at lenv file n S (p + length (text_of a)) b r"
proof -
  have pr: "stands file p (text_of a @ text_of b @ r)" "lines_ok lenv b" "follows lenv n r"
    using assms(1) by (simp_all add: program_at_def)
  have "follows lenv n (text_of b @ r)" by (rule follows_lines [OF pr(3) assms(2) pr(2)]) simp
  then show "program_at lenv file n S p a (text_of b @ r)" using assms(1) pr(1) by (simp add: program_at_def)
  show "program_at lenv file n S (p + length (text_of a)) b r"
    using assms(1) stands_append [OF pr(1)] by (simp add: program_at_def)
qed

lemma program_at_body:
  assumes "program_at lenv file n S p ((n, t) # lay (n + 1 + d) bd @ ls) r" "bd \<noteq> []" "ls = [] \<or> fst (hd ls) \<le> n" "depth b = n"
  shows "program_at lenv file (n + 1 + d) (b # S) (p + length (file_line n t)) (lay (n + 1 + d) bd) (text_of ls @ r)"
proof -
  note pr = program_at_tail [OF assms(1)]
  have "fst (hd (lay (n + 1 + d) bd)) = n + 1 + d" "lay (n + 1 + d) bd \<noteq> []"
    using lay_first(1) [OF assms(2)] lay_first(2) assms(2) by (cases bd; simp)+
  then have "n + 1 + d < 256" using pr(3) by (cases "lay (n + 1 + d) bd") (auto simp: lines_ok_def)
  moreover have "follows lenv (n + 1 + d) (text_of ls @ r)"
    by (rule follows_lines [OF pr(10) _ pr(4)]) (use assms(3) in auto)
  ultimately show ?thesis using pr stack_ok_push [OF pr(9) assms(4)] by (simp add: program_at_def)
qed

lemma layt_first: "layt n t = [] \<or> fst (hd (layt n t)) \<le> n"
  using lay_first(4) [of t n] by (cases t) auto

lemma lay_start: "lay n ss = [] \<or> fst (hd (lay n ss)) \<le> n"
  using lay_first(1) [of ss n] by (cases ss) auto

section \<open>Single steps\<close>

definition reaches :: "LineEnv \<Rightarrow> CommandEnv \<Rightarrow> 'w MetaEnv \<Rightarrow> string \<Rightarrow> 'w BlockParser \<Rightarrow> nat \<Rightarrow> BlockState list \<Rightarrow> flow \<Rightarrow> nat \<Rightarrow> 'w \<Rightarrow> bool" where
  "reaches lenv cenv env file s n S f p w \<longleftrightarrow> (\<exists>s'. runs lenv cenv env file s s' \<and> outcome env n S f p w s')"

lemma reaches_runs: "runs lenv cenv env file s t \<Longrightarrow> reaches lenv cenv env file t n S f p w \<Longrightarrow> reaches lenv cenv env file s n S f p w"
  unfolding reaches_def using runs_trans by blast

lemma reaches_block:
  assumes "runs lenv cenv env file s t" "at_line p (b # S) k w t" "k = NoIndentSkip \<or> k = bs_indent b" "depth b = n" "bs_type b \<noteq> loopBlock"
  shows "reaches lenv cenv env file s n S Normal p w"
proof -
  have "after_list env n S (b # S) k w w"
    unfolding after_list_def by (rule exI [of _ "[]"]) (use assms in auto)
  then show ?thesis using assms(1,2) unfolding reaches_def by auto
qed

text \<open>After the body of a branch.\<close>

lemma branch_done:
  assumes "reaches lenv cenv env file s (n + 1 + d) (b # S) f p w" "depth b = n" "bs_type b = ifTrue"
    "program_at lenv file n S p (layt n t) r"
  shows "reaches lenv cenv env file s n S f (p + length (text_of (layt n t))) (me_endScope env (length S) w)"
proof -
  obtain s1 where s1: "runs lenv cenv env file s s1" "outcome env (n + 1 + d) (b # S) f p w s1"
    using assms(1) by (auto simp: reaches_def)
  have o: "outcome env n S f p (me_endScope env (length S) w) s1"
    by (rule outcome_pop [OF s1(2) assms(2)]) (simp add: assms(3))
  have "reaches lenv cenv env file s1 n S f (p + length (text_of (layt n t))) (me_endScope env (length S) w)"
  proof (cases f)
    case Normal
    then obtain stk k w0 xs x where a: "at_line p stk k w0 s1" "stk = xs @ x # b # S" "depth x = n + 1 + d" "bs_type x \<noteq> loopBlock"
      "\<forall>y \<in> set xs. n + 1 + d < depth y \<and> bs_type y \<noteq> loopBlock" "k = NoIndentSkip \<or> k = bs_indent (hd stk)"
      "w = unwind env (length xs) (Suc (length S)) w0"
      using s1(2) by (auto simp: after_list_def)
    have "taken env n S stk k w0 (me_endScope env (length S) w)"
      unfolding taken_def
      by (rule exI [of _ "xs @ [x]"], rule exI [of _ b])
        (use a(2-7) assms(2,3) in \<open>auto simp: unwind_last simp del: unwind.simps(2)\<close>)
    then show ?thesis unfolding Normal reaches_def by (rule tail_passed [OF assms(4) a(1)])
  next
    case Brk
    have "stands file p (text_of (layt n t) @ r)" "lines_ok lenv (layt n t)" "stack_ok n S" "n < 256" "le_isDoingFile lenv"
      using assms(4) by (simp_all add: program_at_def)
    then show ?thesis unfolding Brk reaches_def
      by (intro skip_rest [OF o [unfolded Brk]]) (simp_all add: lay_deep(3))
  next
    case Cont
    then show ?thesis unfolding reaches_def by (intro exI [of _ s1]) (use o in \<open>simp add: runs_refl\<close>)
  qed
  then show ?thesis by (rule reaches_runs [OF s1(1)])
qed

text \<open>At a line that continues the block that has been skipped.\<close>

lemma arrive_skipped:
  assumes "at_line p (b # S) (bs_indent b) w s" "depth b = n" "stands file p (file_line n t @ r)" "n < 256" "line_text lenv t"
  obtains u0 u where "file_step lenv cenv env file s = do_line lenv cenv env u0"
    "line_state p (p + length (file_line n t)) n t (b # S) (bs_indent b) w u0" "enter_line env u0 = Some (False, bs_type b, u)"
    "line_state p (p + length (file_line n t)) n t (SetBlock plainBlock b # S) NoIndentSkip w u"
proof -
  obtain u0 where u0: "line_state p (p + length (file_line n t)) n t (b # S) (bs_indent b) w u0"
    "file_step lenv cenv env file s = do_line lenv cenv env u0"
    by (rule next_line [OF assms(1,3-5)])
  have "bs_indent b \<noteq> NoIndentSkip" by (rule small_indent) (simp add: assms(2,4))
  then have "yields (\<lambda>(done, sk, u). \<not> done \<and> sk = bs_type b
      \<and> line_state p (p + length (file_line n t)) n t (SetBlock plainBlock b # S) NoIndentSkip w u) (enter_line env u0)"
    using enter_open_block [of p _ n t "[]" b S "bs_indent b" w u0 env] u0(1) assms(2) by (simp add: resume_def)
  then show thesis using that u0 by (auto elim!: yieldsE)
qed

lemma skip_body:
  assumes "at_line (p + length (file_line n t)) (b # S) (bs_indent b) w s" "depth b = n"
    "program_at lenv file n S p ((n, t) # lay (n + 1 + d) bd @ ls) r"
  shows "\<exists>s'. runs lenv cenv env file s s'
    \<and> at_line (p + length (file_line n t) + length (text_of (lay (n + 1 + d) bd))) (b # S) (bs_indent b) w s'"
proof -
  note pr = program_at_tail [OF assms(3)]
  show ?thesis by (rule skip_program [OF assms(1) _ pr(7,5,3,8)]) (use lay_inside [of n d bd] in \<open>simp_all add: assms(2)\<close>)
qed

text \<open>The loop around a line.\<close>

lemma iters_loop:
  assumes "0 \<le> iters S"
  obtains ys b T where "S = ys @ b # T" "\<forall>y \<in> set ys. bs_type y \<noteq> loopBlock" "bs_type b = loopBlock"
proof -
  obtain b where "find (\<lambda>b. bs_type b = loopBlock) S = Some b" using assms by (auto simp: iters_def split: option.splits)
  then obtain i where i: "i < length S" "bs_type (S ! i) = loopBlock" "\<forall>j < i. bs_type (S ! j) \<noteq> loopBlock"
    by (auto simp: find_Some_iff)
  show thesis
  proof (rule that)
    show "S = take i S @ S ! i # drop (Suc i) S" using i(1) by (rule id_take_nth_drop)
    show "\<forall>y \<in> set (take i S). bs_type y \<noteq> loopBlock" using i(1,3) by (auto simp: in_set_conv_nth)
  qed (rule i(2))
qed

lemma stack_above: "stack_ok n (ys @ b # T) \<Longrightarrow> y \<in> set ys \<Longrightarrow> 0 < depth y"
  by (auto simp: stack_ok_def sorted_wrt_append)

section \<open>The simulation\<close>

text \<open>What each of the four judgements of the semantics says of the machine.\<close>

definition sim_list :: "LineEnv \<Rightarrow> CommandEnv \<Rightarrow> 'w MetaEnv \<Rightarrow> string \<Rightarrow> nat \<Rightarrow> int \<Rightarrow> stmt list \<Rightarrow> 'w \<Rightarrow> flow \<Rightarrow> 'w \<Rightarrow> bool" where
  "sim_list lenv cenv env file m i ss w f w' \<longleftrightarrow> (\<forall>n S p stk k w0 s r.
     length S = m \<longrightarrow> iters S = i \<longrightarrow> bodies ss \<longrightarrow> program_at lenv file n S p (lay n ss) r \<longrightarrow>
     at_line p stk k w0 s \<longrightarrow> before_list env n S stk k w0 w \<longrightarrow>
     (if ss = [] then f = Normal \<and> w' = w else reaches lenv cenv env file s n S f (p + length (text_of (lay n ss))) w'))"

definition sim_stmt :: "LineEnv \<Rightarrow> CommandEnv \<Rightarrow> 'w MetaEnv \<Rightarrow> string \<Rightarrow> nat \<Rightarrow> int \<Rightarrow> stmt \<Rightarrow> 'w \<Rightarrow> flow \<Rightarrow> 'w \<Rightarrow> bool" where
  "sim_stmt lenv cenv env file m i c w f w' \<longleftrightarrow> (\<forall>n S p stk k w0 s r.
     length S = m \<longrightarrow> iters S = i \<longrightarrow> bodies1 c \<longrightarrow> program_at lenv file n S p (lay1 n c) r \<longrightarrow>
     at_line p stk k w0 s \<longrightarrow> before_list env n S stk k w0 w \<longrightarrow>
     reaches lenv cenv env file s n S f (p + length (text_of (lay1 n c))) w')"

definition sim_tail :: "LineEnv \<Rightarrow> CommandEnv \<Rightarrow> 'w MetaEnv \<Rightarrow> string \<Rightarrow> nat \<Rightarrow> int \<Rightarrow> tail \<Rightarrow> 'w \<Rightarrow> flow \<Rightarrow> 'w \<Rightarrow> bool" where
  "sim_tail lenv cenv env file m i t w f w' \<longleftrightarrow> (\<forall>n S p b s r.
     length S = m \<longrightarrow> iters S = i \<longrightarrow> bodiest t \<longrightarrow> program_at lenv file n S p (layt n t) r \<longrightarrow>
     at_line p (b # S) (bs_indent b) w s \<longrightarrow> depth b = n \<longrightarrow> bs_type b = ifFalseNoneTrue \<longrightarrow>
     reaches lenv cenv env file s n S f (p + length (text_of (layt n t))) w')"

definition sim_while :: "LineEnv \<Rightarrow> CommandEnv \<Rightarrow> 'w MetaEnv \<Rightarrow> string \<Rightarrow> nat \<Rightarrow> nat \<Rightarrow> string \<Rightarrow> stmt list \<Rightarrow> 'w \<Rightarrow> 'w \<Rightarrow> bool" where
  "sim_while lenv cenv env file m k c bd w w' \<longleftrightarrow> (\<forall>n S p d s r.
     length S = m \<longrightarrow> k < 2 ^ 31 \<longrightarrow> bd \<noteq> [] \<longrightarrow> bodies bd \<longrightarrow> program_at lenv file n S p (lay1 n (WhileS c d bd)) r \<longrightarrow>
     while_entry env n S p k w s \<longrightarrow>
     reaches lenv cenv env file s n S Normal (p + length (text_of (lay1 n (WhileS c d bd)))) w')"

lemma sim_body:
  assumes "sim_list lenv cenv env file (length S + 1) i bd w f w'" "iters (b # S) = i" "bd \<noteq> []" "bodies bd"
    "program_at lenv file n S p ((n, t) # lay (n + 1 + d) bd @ ls) r" "ls = [] \<or> fst (hd ls) \<le> n" "depth b = n"
    "at_line (p + length (file_line n t)) (b # S) NoIndentSkip w s"
  shows "reaches lenv cenv env file s (n + 1 + d) (b # S) f (p + length (file_line n t) + length (text_of (lay (n + 1 + d) bd))) w'"
proof -
  have "length (b # S) = length S + 1" by simp
  from assms(1) [unfolded sim_list_def, rule_format, OF this assms(2,4) program_at_body [OF assms(5,3,6,7)] assms(8) before_body [OF assms(7)]]
  show ?thesis using assms(3) by simp
qed

lemma sim_Cons:
  assumes "sim_stmt lenv cenv (env :: 'w MetaEnv) file m i c w Normal w1" "sim_list lenv cenv env file m i ss w1 f w2"
  shows "sim_list lenv cenv env file m i (c # ss) w f w2"
  unfolding sim_list_def
proof (intro allI impI)
  fix n S p stk k w0 r and s :: "'w BlockParser"
  assume S: "length S = m" "iters S = i" and b: "bodies (c # ss)" and "program_at lenv file n S p (lay n (c # ss)) r"
    and at: "at_line p stk k w0 s" "before_list env n S stk k w0 w"
  then have "program_at lenv file n S p (lay1 n c @ lay n ss) r" by simp
  note pr = program_at_append [OF this lay_start]
  have bs: "bodies1 c" "bodies ss" using b by simp_all
  obtain s1 where s1: "runs lenv cenv env file s s1" "outcome env n S Normal (p + length (text_of (lay1 n c))) w1 s1"
    using assms(1) [unfolded sim_stmt_def, rule_format, OF S bs(1) pr(1) at] by (auto simp: reaches_def)
  then obtain stk1 k1 w3 where a: "at_line (p + length (text_of (lay1 n c))) stk1 k1 w3 s1" "after_list env n S stk1 k1 w3 w1" by auto
  have "before_list env n S stk1 k1 w3 w1" using a(2) by (simp add: before_list_def)
  note rest = assms(2) [unfolded sim_list_def, rule_format, OF S bs(2) pr(2) a(1) this]
  have "reaches lenv cenv env file s1 n S f (p + length (text_of (lay1 n c)) + length (text_of (lay n ss))) w2"
  proof (cases "ss = []")
    case True
    then have "f = Normal" "w2 = w1" using rest by simp_all
    then show ?thesis using True s1(2) runs_refl unfolding reaches_def by (intro exI [of _ s1]) simp
  next
    case False
    then show ?thesis using rest by simp
  qed
  from reaches_runs [OF s1(1) this]
  show "if c # ss = [] then f = Normal \<and> w2 = w else reaches lenv cenv env file s n S f (p + length (text_of (lay n (c # ss)))) w2"
    by (simp add: add.assoc)
qed

lemma sim_Jump:
  assumes "sim_stmt lenv cenv (env :: 'w MetaEnv) file m i c w f w1" "f \<noteq> Normal"
  shows "sim_list lenv cenv env file m i (c # ss) w f w1"
  unfolding sim_list_def
proof (intro allI impI)
  fix n S p stk k w0 r and s :: "'w BlockParser"
  assume S: "length S = m" "iters S = i" and b: "bodies (c # ss)" and "program_at lenv file n S p (lay n (c # ss)) r"
    and at: "at_line p stk k w0 s" "before_list env n S stk k w0 w"
  then have "program_at lenv file n S p (lay1 n c @ lay n ss) r" by simp
  note pr = program_at_append [OF this lay_start]
  have bs: "bodies1 c" using b by simp
  obtain s1 where s1: "runs lenv cenv env file s s1" "outcome env n S f (p + length (text_of (lay1 n c))) w1 s1"
    using assms(1) [unfolded sim_stmt_def, rule_format, OF S bs pr(1) at] by (auto simp: reaches_def)
  have "reaches lenv cenv env file s1 n S f (p + length (text_of (lay1 n c)) + length (text_of (lay n ss))) w1"
  proof (cases f)
    case Brk
    have "stands file (p + length (text_of (lay1 n c))) (text_of (lay n ss) @ r)" "lines_ok lenv (lay n ss)" "stack_ok n S" "n < 256"
      "le_isDoingFile lenv"
      using pr(2) by (simp_all add: program_at_def)
    then show ?thesis unfolding Brk reaches_def by (intro skip_rest [OF s1(2) [unfolded Brk]]) (simp_all add: lay_deep(1))
  next
    case Cont
    then show ?thesis unfolding reaches_def by (intro exI [of _ s1]) (use s1(2) in \<open>simp add: runs_refl\<close>)
  qed (use assms(2) in simp)
  from reaches_runs [OF s1(1) this]
  show "if c # ss = [] then f = Normal \<and> w1 = w else reaches lenv cenv env file s n S f (p + length (text_of (lay n (c # ss)))) w1"
    by (simp add: add.assoc)
qed

text \<open>Lines without a body.\<close>

lemma sim_Line:
  assumes "line_effect cenv (env :: 'w MetaEnv) m i t w w1"
  shows "sim_stmt lenv cenv env file m i (LineS t) w Normal w1"
  unfolding sim_stmt_def
proof (intro allI impI)
  fix n S p stk k w0 r and s :: "'w BlockParser"
  assume S: "length S = m" "iters S = i" and "program_at lenv file n S p (lay1 n (LineS t)) r"
    and at: "at_line p stk k w0 s" "before_list env n S stk k w0 w"
  then have pr: "stands file p (file_line n t @ r)" "n < 256" "line_text lenv t" "le_isDoingFile lenv"
    by (simp_all add: program_at_def)
  obtain u0 u b sk where a: "file_step lenv cenv env file s = do_line lenv cenv env u0"
    "line_state p (p + length (file_line n t)) n t stk k w0 u0" "enter_line env u0 = Some (False, sk, u)"
    "line_state p (p + length (file_line n t)) n t (b # S) NoIndentSkip w u" "depth b = n" "bs_type b \<noteq> loopBlock"
    by (rule arrive [OF at pr(1-3)])
  have "line_effect cenv env (length S) (iters (b # S)) t w w1" using assms S a(6) by simp
  from line_plain [OF a(2) pr(3,4) a(3,4) this]
  obtain s1 where s1: "file_step lenv cenv env file s = Some (Running, s1)" "at_line (p + length (file_line n t)) (b # S) NoIndentSkip w1 s1"
    unfolding a(1) by (auto elim!: yieldsE)
  from reaches_block [OF runs_step [OF s1(1)] s1(2) _ a(5,6)]
  show "reaches lenv cenv env file s n S Normal (p + length (text_of (lay1 n (LineS t)))) w1" by simp
qed

text \<open>\<open>break\<close> and \<open>continue\<close>.\<close>

lemma jump_turn:
  assumes "program_at lenv file n S p [(n, t)] r" "at_line p stk k w0 (s :: 'w BlockParser)" "before_list env n S stk k w0 w" "0 \<le> iters S"
  obtains x ys b T sk u0 u where "S = ys @ b # T" "\<forall>y \<in> set ys. 0 < depth y \<and> bs_type y \<noteq> loopBlock" "bs_type b = loopBlock" "0 < depth x"
    "file_step lenv cenv env file s = do_line lenv cenv env u0" "line_state p (p + length (file_line n t)) n t stk k w0 u0"
    "line_text lenv t" "le_isDoingFile lenv" "enter_line env u0 = Some (False, sk, u)"
    "line_state p (p + length (file_line n t)) n t (x # ys @ b # T) NoIndentSkip w u"
proof -
  have pr: "stands file p (file_line n t @ r)" "n < 256" "line_text lenv t" "le_isDoingFile lenv" "stack_ok n S"
    using assms(1) by (simp_all add: program_at_def)
  obtain ys b T where S: "S = ys @ b # T" "\<forall>y \<in> set ys. bs_type y \<noteq> loopBlock" "bs_type b = loopBlock"
    by (rule iters_loop [OF assms(4)])
  have ys: "\<forall>y \<in> set ys. 0 < depth y \<and> bs_type y \<noteq> loopBlock" using S(2) stack_above pr(5) unfolding S(1) by blast
  obtain u0 u x sk where a: "file_step lenv cenv env file s = do_line lenv cenv env u0"
    "line_state p (p + length (file_line n t)) n t stk k w0 u0" "enter_line env u0 = Some (False, sk, u)"
    "line_state p (p + length (file_line n t)) n t (x # S) NoIndentSkip w u" "depth x = n" "bs_type x \<noteq> loopBlock"
    by (rule arrive [OF assms(2,3) pr(1-3)])
  have "0 < depth x" using pr(5) a(5) by (auto simp: stack_ok_def S(1))
  from that [OF S(1) ys S(3) this a(1,2) pr(3,4) a(3)] show thesis using a(4) by (simp add: S(1))
qed

lemma sim_Break:
  assumes "0 \<le> i"
  shows "sim_stmt lenv cenv (env :: 'w MetaEnv) file m i BreakS w Brk w"
  unfolding sim_stmt_def
proof (intro allI impI)
  fix n S p stk k w0 r and s :: "'w BlockParser"
  assume S: "length S = m" "iters S = i" and pr: "program_at lenv file n S p (lay1 n BreakS) r"
    and at: "at_line p stk k w0 s" "before_list env n S stk k w0 w"
  from pr have pr: "program_at lenv file n S p [(n, ''break'')] r" by simp
  have "0 \<le> iters S" using assms S(2) by simp
  from jump_turn [OF pr at this]
  obtain x ys b T sk u0 u where a: "S = ys @ b # T" "\<forall>y \<in> set ys. 0 < depth y \<and> bs_type y \<noteq> loopBlock" "bs_type b = loopBlock" "0 < depth x"
    "file_step lenv cenv env file s = do_line lenv cenv env u0" "line_state p (p + length (file_line n ''break'')) n ''break'' stk k w0 u0"
    "line_text lenv ''break''" "le_isDoingFile lenv" "enter_line env u0 = Some (False, sk, u)"
    "line_state p (p + length (file_line n ''break'')) n ''break'' (x # ys @ b # T) NoIndentSkip w u" by metis
  note l = line_break [OF a(10,7) refl a(4,2,3)]
  obtain s1 where s1: "runs lenv cenv env file s s1"
    "at_line (p + length (file_line n ''break'')) (SetBlock plainBlock b # T) (bs_indent b) (unwind env (Suc (length ys)) (length T) w) s1"
    using meta_turn [OF a(5-10) l] by blast
  have "outcome env n S Brk (p + length (text_of (lay1 n BreakS))) w s1"
    unfolding outcome.simps by (intro exI [of _ ys] exI [of _ b] exI [of _ T]) (use a(1-3) s1(2) in simp)
  then show "reaches lenv cenv env file s n S Brk (p + length (text_of (lay1 n BreakS))) w"
    unfolding reaches_def using s1(1) by blast
qed

lemma sim_Continue:
  assumes "0 \<le> i"
  shows "sim_stmt lenv cenv (env :: 'w MetaEnv) file m i ContinueS w Cont w"
  unfolding sim_stmt_def
proof (intro allI impI)
  fix n S p stk k w0 r and s :: "'w BlockParser"
  assume S: "length S = m" "iters S = i" and pr: "program_at lenv file n S p (lay1 n ContinueS) r"
    and at: "at_line p stk k w0 s" "before_list env n S stk k w0 w"
  from pr have pr: "program_at lenv file n S p [(n, ''continue'')] r" by simp
  have "0 \<le> iters S" using assms S(2) by simp
  from jump_turn [OF pr at this]
  obtain x ys b T sk u0 u where a: "S = ys @ b # T" "\<forall>y \<in> set ys. 0 < depth y \<and> bs_type y \<noteq> loopBlock" "bs_type b = loopBlock" "0 < depth x"
    "file_step lenv cenv env file s = do_line lenv cenv env u0" "line_state p (p + length (file_line n ''continue'')) n ''continue'' stk k w0 u0"
    "line_text lenv ''continue''" "le_isDoingFile lenv" "enter_line env u0 = Some (False, sk, u)"
    "line_state p (p + length (file_line n ''continue'')) n ''continue'' (x # ys @ b # T) NoIndentSkip w u" by metis
  note l = line_continue [OF a(10,7) refl a(4,2,3)]
  obtain s1 where s1: "runs lenv cenv env file s s1"
    "at_line (bs_fpos b) (b # T) NoIndentSkip (unwind env (Suc (length ys)) (length T) w) s1"
    using meta_turn [OF a(5-10) l] by blast
  have "outcome env n S Cont (p + length (text_of (lay1 n ContinueS))) w s1"
    unfolding outcome.simps by (intro exI [of _ ys] exI [of _ b] exI [of _ T]) (use a(1-3) s1(2) in simp)
  then show "reaches lenv cenv env file s n S Cont (p + length (text_of (lay1 n ContinueS))) w"
    unfolding reaches_def using s1(1) by blast
qed

text \<open>Branches.\<close>

lemma sim_If:
  assumes "me_condition env (CHR '' '' # c) i w = (Inr True, w1)" "sim_list lenv cenv (env :: 'w MetaEnv) file (m + 1) i bd w1 f w2"
  shows "sim_stmt lenv cenv env file m i (IfS c d bd t) w f (me_endScope env m w2)"
  unfolding sim_stmt_def
proof (intro allI impI)
  fix n S p stk k w0 r and s :: "'w BlockParser"
  assume S: "length S = m" "iters S = i" and b: "bodies1 (IfS c d bd t)" and pr: "program_at lenv file n S p (lay1 n (IfS c d bd t)) r"
    and at: "at_line p stk k w0 s" "before_list env n S stk k w0 w"
  from pr have pr: "program_at lenv file n S p ((n, ''if '' @ c) # lay (n + 1 + d) bd @ layt n t) r" by simp
  have "me_condition env (CHR '' '' # c) (iters S) w = (Inr True, w1)" using assms(1) S(2) by simp
  from if_turn [OF at pr this]
  obtain s1 b where s1: "runs lenv cenv env file s s1" "depth b = n" "bs_type b = ifTrue"
    "at_line (p + length (file_line n (''if '' @ c))) (b # S) NoIndentSkip w1 s1" by auto
  have "reaches lenv cenv env file s1 (n + 1 + d) (b # S) f (p + length (file_line n (''if '' @ c)) + length (text_of (lay (n + 1 + d) bd))) w2"
    by (rule sim_body [OF assms(2) [folded S(1)] _ _ _ pr layt_first s1(2,4)]) (use b s1(3) S(2) in simp_all)
  from branch_done [OF this s1(2,3), where t = t and r = r]
  have "reaches lenv cenv env file s1 n S f (p + length (file_line n (''if '' @ c)) + length (text_of (lay (n + 1 + d) bd))
      + length (text_of (layt n t))) (me_endScope env (length S) w2)"
    using program_at_tail [OF pr] by (simp add: program_at_def)
  from reaches_runs [OF s1(1) this]
  show "reaches lenv cenv env file s n S f (p + length (text_of (lay1 n (IfS c d bd t)))) (me_endScope env m w2)"
    using S(1) by (simp add: ac_simps)
qed

lemma sim_If_not:
  assumes "me_condition env (CHR '' '' # c) i w = (Inr False, w1)" "sim_tail lenv cenv (env :: 'w MetaEnv) file m i t w1 f w2"
  shows "sim_stmt lenv cenv env file m i (IfS c d bd t) w f w2"
  unfolding sim_stmt_def
proof (intro allI impI)
  fix n S p stk k w0 r and s :: "'w BlockParser"
  assume S: "length S = m" "iters S = i" and b: "bodies1 (IfS c d bd t)" and pr: "program_at lenv file n S p (lay1 n (IfS c d bd t)) r"
    and at: "at_line p stk k w0 s" "before_list env n S stk k w0 w"
  from pr have pr: "program_at lenv file n S p ((n, ''if '' @ c) # lay (n + 1 + d) bd @ layt n t) r" by simp
  have "me_condition env (CHR '' '' # c) (iters S) w = (Inr False, w1)" using assms(1) S(2) by simp
  from if_turn [OF at pr this]
  obtain s1 b where s1: "runs lenv cenv env file s s1" "depth b = n" "bs_type b = ifFalseNoneTrue"
    "at_line (p + length (file_line n (''if '' @ c))) (b # S) (bs_indent b) w1 s1" by auto
  let ?q = "p + length (file_line n (''if '' @ c)) + length (text_of (lay (n + 1 + d) bd))"
  obtain s2 where s2: "runs lenv cenv env file s1 s2" "at_line ?q (b # S) (bs_indent b) w1 s2"
    using skip_body [OF s1(4,2) pr] by blast
  have tl: "program_at lenv file n S ?q (layt n t) r" using program_at_tail [OF pr] by (simp add: program_at_def)
  have "bodiest t" using b by simp
  from assms(2) [unfolded sim_tail_def, rule_format, OF S this tl s2(2) s1(2,3)]
  have "reaches lenv cenv env file s n S f (?q + length (text_of (layt n t))) w2"
    by (rule reaches_runs [OF runs_trans [OF s1(1) s2(1)]])
  then show "reaches lenv cenv env file s n S f (p + length (text_of (lay1 n (IfS c d bd t)))) w2" by (simp add: ac_simps)
qed

text \<open>The alternatives of a branch, when none has been taken yet.\<close>

lemma sim_EndIf: "sim_tail lenv cenv (env :: 'w MetaEnv) file m i EndIf w Normal w"
  unfolding sim_tail_def by (auto intro!: reaches_block [OF runs_refl])

lemma sim_Else:
  assumes "sim_list lenv cenv (env :: 'w MetaEnv) file (m + 1) i bd w f w1"
  shows "sim_tail lenv cenv env file m i (ElseT d bd) w f (me_endScope env m w1)"
  unfolding sim_tail_def
proof (intro allI impI)
  fix n S p b r and s :: "'w BlockParser"
  assume S: "length S = m" "iters S = i" and bd: "bodiest (ElseT d bd)" and pr: "program_at lenv file n S p (layt n (ElseT d bd)) r"
    and at: "at_line p (b # S) (bs_indent b) w s" and b: "depth b = n" "bs_type b = ifFalseNoneTrue"
  from pr have pr: "program_at lenv file n S p ((n, ''else'') # lay (n + 1 + d) bd @ []) r" by simp
  note tl = program_at_tail [OF pr]
  let ?b = "SetBlock plainBlock b"
  obtain u0 u where a: "file_step lenv cenv env file s = do_line lenv cenv env u0"
    "line_state p (p + length (file_line n ''else'')) n ''else'' (b # S) (bs_indent b) w u0" "enter_line env u0 = Some (False, bs_type b, u)"
    "line_state p (p + length (file_line n ''else'')) n ''else'' (?b # S) NoIndentSkip w u"
    by (rule arrive_skipped [OF at b(1) tl(1,7,2)])
  have "bs_type b = ifFalseNoneTrue \<or> bs_type b = ifFalseHadTrue \<or> bs_type ?b = ifTrue" using b(2) by simp
  note l = line_else [OF a(4) tl(2) refl this]
  have sb: "SetBlock plainBlock ?b = ?b" by (simp add: SetBlock_def)
  obtain s1 where s1: "runs lenv cenv env file s s1" "at_line (p + length (file_line n ''else'')) (?b # S) NoIndentSkip w s1"
    using meta_turn [OF a(1,2) tl(2,8) a(3,4) l] b(2) unfolding sb by auto
  have db: "depth ?b = n" using b(1) by simp
  have "reaches lenv cenv env file s1 (n + 1 + d) (?b # S) f (p + length (file_line n ''else'') + length (text_of (lay (n + 1 + d) bd))) w1"
    by (rule sim_body [OF assms [folded S(1)] _ _ _ pr _ db s1(2)]) (use bd S(2) in simp_all)
  then have "reaches lenv cenv env file s1 n S f (p + length (file_line n ''else'') + length (text_of (lay (n + 1 + d) bd))) (me_endScope env (length S) w1)"
    unfolding reaches_def using outcome_pop [OF _ db] by fastforce
  from reaches_runs [OF s1(1) this]
  show "reaches lenv cenv env file s n S f (p + length (text_of (layt n (ElseT d bd)))) (me_endScope env m w1)"
    using S(1) by (simp add: ac_simps)
qed

lemma elif_turn:
  assumes "at_line p (b # S) (bs_indent b) w (s :: 'w BlockParser)" "program_at lenv file n S p ((n, ''elif '' @ c) # ls) r"
    "depth b = n" "bs_type b = ifFalseNoneTrue" "me_condition env (CHR '' '' # c) (iters S) w = (Inr v, w1)"
  obtains s' b' where "runs lenv cenv env file s s'" "depth b' = n" "bs_type b' = (if v then ifTrue else ifFalseNoneTrue)"
    "at_line (p + length (file_line n (''elif '' @ c))) (b' # S) (if v then NoIndentSkip else bs_indent b') w1 s'"
proof -
  let ?t = "''elif '' @ c"
  have pr: "stands file p (file_line n ?t @ text_of ls @ r)" "n < 256" "line_text lenv ?t" "le_isDoingFile lenv"
    using assms(2) by (simp_all add: program_at_def)
  let ?b = "SetBlock plainBlock b"
  obtain u0 u where a: "file_step lenv cenv env file s = do_line lenv cenv env u0"
    "line_state p (p + length (file_line n ?t)) n ?t (b # S) (bs_indent b) w u0" "enter_line env u0 = Some (False, bs_type b, u)"
    "line_state p (p + length (file_line n ?t)) n ?t (?b # S) NoIndentSkip w u"
    by (rule arrive_skipped [OF assms(1,3) pr(1-3)])
  have "bs_type b = ifFalseNoneTrue \<Longrightarrow> me_condition env (CHR '' '' # c) (iters (?b # S)) w = (Inr v, w1)"
    "bs_type b \<noteq> ifFalseNoneTrue \<Longrightarrow> (bs_type b = ifFalseHadTrue \<or> bs_type ?b = ifTrue) \<and> \<not> v \<and> w1 = w"
    using assms(4,5) by simp_all
  note l = line_elif [OF a(4) pr(3) refl this]
  let ?c = "SetBlock (if v then ifTrue else ifFalseNoneTrue) ?b"
  have ty: "(if bs_type b = ifFalseNoneTrue then ifFalseNoneTrue else ifFalseHadTrue) = ifFalseNoneTrue" using assms(4) by simp
  obtain s' where "runs lenv cenv env file s s'"
    "at_line (p + length (file_line n ?t)) (?c # S) (if v then NoIndentSkip else bs_indent ?b) w1 s'"
    using meta_turn [OF a(1,2) pr(3,4) a(3,4) l] unfolding ty by blast
  then show thesis using that [of s' ?c] assms(3) by (cases v) simp_all
qed

lemma sim_Elif:
  assumes "me_condition env (CHR '' '' # c) i w = (Inr True, w1)" "sim_list lenv cenv (env :: 'w MetaEnv) file (m + 1) i bd w1 f w2"
  shows "sim_tail lenv cenv env file m i (ElifT c d bd t) w f (me_endScope env m w2)"
  unfolding sim_tail_def
proof (intro allI impI)
  fix n S p b r and s :: "'w BlockParser"
  assume S: "length S = m" "iters S = i" and bd: "bodiest (ElifT c d bd t)" and pr: "program_at lenv file n S p (layt n (ElifT c d bd t)) r"
    and at: "at_line p (b # S) (bs_indent b) w s" and b: "depth b = n" "bs_type b = ifFalseNoneTrue"
  from pr have pr: "program_at lenv file n S p ((n, ''elif '' @ c) # lay (n + 1 + d) bd @ layt n t) r" by simp
  have "me_condition env (CHR '' '' # c) (iters S) w = (Inr True, w1)" using assms(1) S(2) by simp
  from elif_turn [OF at pr b this]
  obtain s1 b' where s1: "runs lenv cenv env file s s1" "depth b' = n" "bs_type b' = ifTrue"
    "at_line (p + length (file_line n (''elif '' @ c))) (b' # S) NoIndentSkip w1 s1" by auto
  have "reaches lenv cenv env file s1 (n + 1 + d) (b' # S) f (p + length (file_line n (''elif '' @ c)) + length (text_of (lay (n + 1 + d) bd))) w2"
    by (rule sim_body [OF assms(2) [folded S(1)] _ _ _ pr layt_first s1(2,4)]) (use bd s1(3) S(2) in simp_all)
  from branch_done [OF this s1(2,3), where t = t and r = r]
  have "reaches lenv cenv env file s1 n S f (p + length (file_line n (''elif '' @ c)) + length (text_of (lay (n + 1 + d) bd))
      + length (text_of (layt n t))) (me_endScope env (length S) w2)"
    using program_at_tail [OF pr] by (simp add: program_at_def)
  from reaches_runs [OF s1(1) this]
  show "reaches lenv cenv env file s n S f (p + length (text_of (layt n (ElifT c d bd t)))) (me_endScope env m w2)"
    using S(1) by (simp add: ac_simps)
qed

lemma sim_Elif_not:
  assumes "me_condition env (CHR '' '' # c) i w = (Inr False, w1)" "sim_tail lenv cenv (env :: 'w MetaEnv) file m i t w1 f w2"
  shows "sim_tail lenv cenv env file m i (ElifT c d bd t) w f w2"
  unfolding sim_tail_def
proof (intro allI impI)
  fix n S p b r and s :: "'w BlockParser"
  assume S: "length S = m" "iters S = i" and bd: "bodiest (ElifT c d bd t)" and pr: "program_at lenv file n S p (layt n (ElifT c d bd t)) r"
    and at: "at_line p (b # S) (bs_indent b) w s" and b: "depth b = n" "bs_type b = ifFalseNoneTrue"
  from pr have pr: "program_at lenv file n S p ((n, ''elif '' @ c) # lay (n + 1 + d) bd @ layt n t) r" by simp
  have "me_condition env (CHR '' '' # c) (iters S) w = (Inr False, w1)" using assms(1) S(2) by simp
  from elif_turn [OF at pr b this]
  obtain s1 b' where s1: "runs lenv cenv env file s s1" "depth b' = n" "bs_type b' = ifFalseNoneTrue"
    "at_line (p + length (file_line n (''elif '' @ c))) (b' # S) (bs_indent b') w1 s1" by auto
  let ?q = "p + length (file_line n (''elif '' @ c)) + length (text_of (lay (n + 1 + d) bd))"
  obtain s2 where s2: "runs lenv cenv env file s1 s2" "at_line ?q (b' # S) (bs_indent b') w1 s2"
    using skip_body [OF s1(4,2) pr] by blast
  have tl: "program_at lenv file n S ?q (layt n t) r" using program_at_tail [OF pr] by (simp add: program_at_def)
  have "bodiest t" using bd by simp
  from assms(2) [unfolded sim_tail_def, rule_format, OF S this tl s2(2) s1(2,3)]
  have "reaches lenv cenv env file s n S f (?q + length (text_of (layt n t))) w2"
    by (rule reaches_runs [OF runs_trans [OF s1(1) s2(1)]])
  then show "reaches lenv cenv env file s n S f (p + length (text_of (layt n (ElifT c d bd t)))) w2" by (simp add: ac_simps)
qed

text \<open>Loops.\<close>

lemma sim_While:
  assumes "sim_while lenv cenv (env :: 'w MetaEnv) file m 0 c bd w w1"
  shows "sim_stmt lenv cenv env file m i (WhileS c d bd) w Normal w1"
  unfolding sim_stmt_def
proof (intro allI impI)
  fix n S p stk k w0 r and s :: "'w BlockParser"
  assume S: "length S = m" "iters S = i" and b: "bodies1 (WhileS c d bd)" and pr: "program_at lenv file n S p (lay1 n (WhileS c d bd)) r"
    and at: "at_line p stk k w0 s" "before_list env n S stk k w0 w"
  have "while_entry env n S p 0 w s" using at by (auto simp: while_entry_def)
  then show "reaches lenv cenv env file s n S Normal (p + length (text_of (lay1 n (WhileS c d bd)))) w1"
    using assms [unfolded sim_while_def, rule_format, OF S(1) _ _ _ pr] b by simp
qed

text \<open>The start of an iteration, and the end of the loop.\<close>

lemma while_body:
  assumes "while_entry env n S p k w (s :: 'w BlockParser)" "program_at lenv file n S p ((n, ''while '' @ c) # lay (n + 1 + d) bd @ []) r" "k < 2 ^ 31"
    "me_condition env (CHR '' '' # c) (int k) w = (Inr True, w1)" "sim_list lenv cenv env file (length S + 1) (int k) bd w1 f w2"
    "bd \<noteq> []" "bodies bd"
  obtains s' b where "runs lenv cenv env file s s'" "loop_at p (of_nat k) b" "depth b = n"
    "outcome env (n + 1 + d) (b # S) f (p + length (text_of (lay1 n (WhileS c d bd)))) w2 s'"
proof -
  obtain s1 b where s1: "runs lenv cenv env file s s1" "loop_at p (of_nat k) b" "depth b = n"
    "at_line (p + length (file_line n (''while '' @ c))) (b # S) NoIndentSkip w1 s1"
    by (rule while_turn [OF assms(1-4)]) auto
  have "iters (b # S) = sint (of_nat k :: u32)" using s1(2) iters_Cons(2) [of b S] by (simp add: loop_at_def)
  then have it: "iters (b # S) = int k" by (simp add: sint_small [OF assms(3)])
  have "reaches lenv cenv env file s1 (n + 1 + d) (b # S) f (p + length (file_line n (''while '' @ c)) + length (text_of (lay (n + 1 + d) bd))) w2"
    by (rule sim_body [OF assms(5) it assms(6,7,2) _ s1(3,4)]) simp
  from reaches_runs [OF s1(1) this] show thesis using that [OF _ s1(2,3)] by (auto simp: reaches_def ac_simps)
qed

lemma sim_Done:
  assumes "me_condition env (CHR '' '' # c) (int k) w = (Inr False, w1)"
  shows "sim_while lenv cenv (env :: 'w MetaEnv) file m k c bd w w1"
  unfolding sim_while_def
proof (intro allI impI)
  fix n S p d r and s :: "'w BlockParser"
  assume k: "k < 2 ^ 31" and pr: "program_at lenv file n S p (lay1 n (WhileS c d bd)) r" and en: "while_entry env n S p k w s"
  from pr have pr: "program_at lenv file n S p ((n, ''while '' @ c) # lay (n + 1 + d) bd @ []) r" by simp
  obtain s1 b where s1: "runs lenv cenv env file s s1" "depth b = n"
    "at_line (p + length (file_line n (''while '' @ c))) (SetBlock plainBlock b # S) (bs_indent (SetBlock plainBlock b)) w1 s1"
    by (rule while_turn [OF en pr k assms]) auto
  have d: "depth (SetBlock plainBlock b) = n" using s1(2) by simp
  obtain s2 where s2: "runs lenv cenv env file s1 s2"
    "at_line (p + length (file_line n (''while '' @ c)) + length (text_of (lay (n + 1 + d) bd))) (SetBlock plainBlock b # S)
      (bs_indent (SetBlock plainBlock b)) w1 s2"
    using skip_body [OF s1(3) d pr] by blast
  from reaches_block [OF runs_trans [OF s1(1) s2(1)] s2(2) _ d]
  show "reaches lenv cenv env file s n S Normal (p + length (text_of (lay1 n (WhileS c d bd)))) w1" by (simp add: ac_simps)
qed

lemma sim_Left:
  assumes "me_condition env (CHR '' '' # c) (int k) w = (Inr True, w1)" "sim_list lenv cenv (env :: 'w MetaEnv) file (m + 1) (int k) bd w1 Brk w2"
  shows "sim_while lenv cenv env file m k c bd w (me_endScope env m w2)"
  unfolding sim_while_def
proof (intro allI impI)
  fix n S p d r and s :: "'w BlockParser"
  assume S: "length S = m" and k: "k < 2 ^ 31" and bd: "bd \<noteq> []" "bodies bd"
    and pr: "program_at lenv file n S p (lay1 n (WhileS c d bd)) r" and en: "while_entry env n S p k w s"
  from pr have pr: "program_at lenv file n S p ((n, ''while '' @ c) # lay (n + 1 + d) bd @ []) r" by simp
  obtain s1 b where s1: "runs lenv cenv env file s s1" "loop_at p (of_nat k) b" "depth b = n"
    "outcome env (n + 1 + d) (b # S) Brk (p + length (text_of (lay1 n (WhileS c d bd)))) w2 s1"
    by (rule while_body [OF en pr k assms(1) assms(2) [folded S] bd])
  from s1(4) obtain ys L T where L: "b # S = ys @ L # T" "\<forall>y \<in> set ys. bs_type y \<noteq> loopBlock"
    "at_line (p + length (text_of (lay1 n (WhileS c d bd)))) (SetBlock plainBlock L # T) (bs_indent L)
      (unwind env (Suc (length ys)) (length T) w2) s1"
    unfolding outcome.simps by blast
  have "ys = []" using L(1,2) s1(2) by (cases ys) (auto simp: loop_at_def)
  then have "at_line (p + length (text_of (lay1 n (WhileS c d bd)))) (SetBlock plainBlock b # S) (bs_indent b) (me_endScope env m w2) s1"
    using L(1,3) S by simp
  from reaches_block [OF s1(1) this] s1(3)
  show "reaches lenv cenv env file s n S Normal (p + length (text_of (lay1 n (WhileS c d bd)))) (me_endScope env m w2)" by simp
qed

lemma sim_Again:
  assumes "me_condition env (CHR '' '' # c) (int k) w = (Inr True, w1)" "sim_list lenv cenv (env :: 'w MetaEnv) file (m + 1) (int k) bd w1 f w2"
    "f \<noteq> Brk" "k + 1 < 2 ^ 31" "sim_while lenv cenv env file m (k + 1) c bd (me_endScope env m w2) w3"
  shows "sim_while lenv cenv env file m k c bd w w3"
  unfolding sim_while_def
proof (intro allI impI)
  fix n S p d r and s :: "'w BlockParser"
  assume S: "length S = m" and k: "k < 2 ^ 31" and bd: "bd \<noteq> []" "bodies bd"
    and pw: "program_at lenv file n S p (lay1 n (WhileS c d bd)) r" and en: "while_entry env n S p k w s"
  from pw have pr: "program_at lenv file n S p ((n, ''while '' @ c) # lay (n + 1 + d) bd @ []) r" by simp
  let ?q = "p + length (text_of (lay1 n (WhileS c d bd)))"
  obtain s1 b where s1: "runs lenv cenv env file s s1" "loop_at p (of_nat k) b" "depth b = n"
    "outcome env (n + 1 + d) (b # S) f ?q w2 s1"
    by (rule while_body [OF en pr k assms(1) assms(2) [folded S] bd])
  have b: "bs_type b = loopBlock" "bs_fpos b = p" "bs_iterations b = of_nat k" using s1(2) by (simp_all add: loop_at_def)
  have it: "0 \<le> sint (bs_iterations b)" unfolding b(3) sint_small [OF k] by simp
  obtain s2 where s2: "runs lenv cenv env file s1 s2" "at_line p (b # S) NoIndentSkip (me_endScope env (length S) w2) s2"
  proof (cases f)
    case Normal
    then obtain stk kk w0 where o: "at_line ?q stk kk w0 s1" "after_list env (n + 1 + d) (b # S) stk kk w0 w2" using s1(4) by auto
    have e: "stands file ?q r" "follows lenv n r" "le_isDoingFile lenv"
      using pw stands_append [of "file" p "text_of (lay1 n (WhileS c d bd))" r] by (simp_all add: program_at_def)
    from loop_end [OF o s1(3) b(1) it e] show thesis using that b(2) by blast
  next
    case Cont
    then obtain ys L T where L: "b # S = ys @ L # T" "\<forall>y \<in> set ys. bs_type y \<noteq> loopBlock"
      "at_line (bs_fpos L) (L # T) NoIndentSkip (unwind env (Suc (length ys)) (length T) w2) s1"
      using s1(4) unfolding Cont outcome.simps by blast
    have "ys = []" using L(1,2) b(1) by (cases ys) auto
    then show thesis using that [OF runs_refl] L(1,3) b(2) by simp
  qed (use assms(3) in simp)
  have "while_entry env n S p (k + 1) (me_endScope env m w2) s2"
    using s2(2) s1(2,3) S by (auto simp: while_entry_def)
  from assms(5) [unfolded sim_while_def, rule_format, OF S assms(4) bd pw this]
  show "reaches lenv cenv env file s n S Normal ?q w3"
    by (rule reaches_runs [OF runs_trans [OF s1(1) s2(1)]])
qed

text \<open>The machine executes every program as the semantics says.\<close>

lemma simulation:
  "exec cenv env m i ss w f w' \<Longrightarrow> sim_list lenv cenv env file m i ss w f w'"
  "exec1 cenv env m i c w f w' \<Longrightarrow> sim_stmt lenv cenv env file m i c w f w'"
  "exect cenv env m i t w f w' \<Longrightarrow> sim_tail lenv cenv env file m i t w f w'"
  "execw cenv env m k cnd bd w w' \<Longrightarrow> sim_while lenv cenv env file m k cnd bd w w'"
proof (induction rule: exec_exec1_exect_execw.inducts)
  case (exec_Nil m i w)
  show ?case by (simp add: sim_list_def)
qed (blast intro: sim_Cons sim_Jump sim_Line sim_If sim_If_not sim_EndIf sim_Else sim_Elif sim_Elif_not sim_While sim_Done sim_Left
  sim_Again sim_Break sim_Continue)+

section \<open>Whole programs\<close>

lemma program_finished:
  assumes "at_line p stk k w0 s" "after_list env 0 [] stk k w0 w" "stands file p []"
  shows "file_step lenv cenv env file s = Some (Finished, s) \<and> unwind env (length (bp_outer s)) 0 (bp_world s) = w"
proof -
  obtain xs b where a: "stk = xs @ [b]" "bs_type b \<noteq> loopBlock" "\<forall>x \<in> set xs. bs_type x \<noteq> loopBlock" "w = unwind env (length xs) 0 w0"
    using assms(2) by (auto simp: after_list_def)
  have s: "bp_block s # bp_outer s = xs @ [b]" "bp_world s = w0" "bp_position s = length file" "sp_gcodeLineEnd s = 0"
    using assms(1,3) a(1) by (simp_all add: at_line_def stands_def fresh_def)
  have "find (\<lambda>b. bs_type b = loopBlock) (xs @ [b]) = None" using a(2,3) by (auto simp: find_None_iff)
  then have it: "GetIterations s = - 1" unfolding GetIterations_def s(1) by simp
  have id: "s\<lparr>bp_position := length file\<rparr> = s" using s(3) by simp
  have "FileEnded lenv s = Some (False, s)" using s(4) it by (simp add: FileEnded_def)
  then have "file_step lenv cenv env file s = Some (Finished, s)" by (simp add: file_step_def s(3) id)
  moreover have "length (bp_outer s) = length xs" using arg_cong [OF s(1), of length] by simp
  ultimately show ?thesis using a(4) s(2) by simp
qed

text \<open>
  C11. Refinement of the line machine: a file that holds the lines of a structured program, with nested \<open>if\<close>, \<open>elif\<close>,
  \<open>else\<close>, \<open>while\<close>, \<open>break\<close> and \<open>continue\<close> at any indentations below 256, is read to its end, and has then done to the world what
  the program means. The scopes of the blocks that are still open at the end are yet to be ended. No loop does more than
  2147483647 iterations, and no body is empty.
\<close>

theorem structured_program:
  assumes "exec cenv (env :: 'w MetaEnv) 0 (- 1) prog w Normal w'" "prog \<noteq> []" "bodies prog" "lines_ok lenv (lay 0 prog)" "le_isDoingFile lenv"
    and "at_line 0 [b] NoIndentSkip w (s :: 'w BlockParser)" "bs_indent b = 0" "bs_type b \<noteq> loopBlock"
  shows "\<exists>n t. file_run lenv cenv env (text_of (lay 0 prog)) n s = Some (Finished, t)
    \<and> unwind env (length (bp_outer t)) 0 (bp_world t) = w'"
proof -
  let ?f = "text_of (lay 0 prog)"
  have bl: "before_list env 0 [] [b] NoIndentSkip w w"
    unfolding before_list_def after_list_def by (rule disjI1, rule exI [of _ "[]"]) (use assms(7,8) in simp)
  have pr: "program_at lenv ?f 0 [] 0 (lay 0 prog) []"
    using assms(4,5) by (simp add: program_at_def stack_ok_def stands_def follows_def)
  have i: "length ([] :: BlockState list) = 0" "iters [] = - 1" by (simp_all add: iters_def)
  have "reaches lenv cenv env ?f s 0 [] Normal (length ?f) w'"
    using simulation(1) [OF assms(1), unfolded sim_list_def, rule_format, OF i assms(3) pr assms(6) bl] assms(2) by simp
  then obtain t stk k w0 where t: "runs lenv cenv env ?f s t" "at_line (length ?f) stk k w0 t" "after_list env 0 [] stk k w0 w'"
    by (auto simp: reaches_def)
  have "stands ?f (length ?f) []" by (simp add: stands_def)
  note fin = program_finished [OF t(2,3) this, of lenv cenv]
  obtain j where "\<forall>m. file_run lenv cenv env ?f (j + m) s = file_run lenv cenv env ?f m t" using t(1) by (auto simp: runs_def)
  from spec [OF this, of 1] have "file_run lenv cenv env ?f (j + 1) s = Some (Finished, t)" using fin by simp
  then show ?thesis using fin by blast
qed

section \<open>Ordinary commands\<close>

text \<open>
  A line with one command, written in the usual way, does what the machine does when it is given that command: the parser
  has taken it apart as it was written.
\<close>

lemma commands_effect_text:
  assumes "command_ok l n f ps" "\<And>c. as_written l n f ps c \<Longrightarrow> me_act env c w = w'"
  shows "commands_effect cenv (env :: 'w MetaEnv) (command_text l n f ps) w w'"
  unfolding commands_effect_def
proof (intro allI impI)
  fix p q i stk k and s :: "'w BlockParser"
  let ?t = "command_text l n f ps"
  assume s: "line_state p q i ?t stk k w s"
  then obtain junk where b: "sp_buffer s = ?t @ NUL # junk" "sp_commandStart s = 0" "sp_gcodeLineEnd s = length ?t"
    by (auto simp: line_state_def)
  obtain t where t: "DecodeCommand cenv s = Some t" "decoded_text l n f ps t" "sp_bufferState t = ready"
    using DecodeCommand_text [OF assms(1) b, of cenv] by (auto elim: yieldsE)
  have sl: "same_line s t" by (rule DecodeCommand_same [OF t(1)])
  then have "CommandParser.more t = CommandParser.more s" by (simp add: same_line_def)
  then have bp: "bp_position t = bp_position s" "bp_block t = bp_block s" "bp_outer t = bp_outer s" "bp_indentToSkipTo t = bp_indentToSkipTo s"
    "bp_fileOpen t = bp_fileOpen s" "bp_world t = bp_world s"
    by (cases s; cases t; simp)+
  have "decoded_text l n f ps (CommandParser.truncate t)" using t(2) by (simp add: decoded_text_def CommandParser.truncate_def)
  from assms(2) [OF decoded_as_written [OF assms(1) this]] have act: "me_act env (CommandParser.truncate t) w = w'" .
  let ?u = "t\<lparr>bp_world := w', cp_g53Active := False\<rparr>"
  have "at_line q stk k w' (sp_Init ?u)"
    using at_line_Init [of ?u] s sl by (simp add: line_state_def same_line_def line_wf_def bp)
  moreover have "SetFinished cenv (t\<lparr>bp_world := w'\<rparr>) = Some (sp_Init ?u)"
    using t(2) by (simp add: SetFinished_def decoded_text_def)
  moreover have "bp_world t = w" using s bp(6) by (simp add: line_state_def)
  moreover have "sp_bufferState (sp_Init ?u) \<noteq> ready" by (simp add: sp_Init_def)
  moreover obtain m where "length ?t + 1 = Suc (Suc m)" by (simp add: command_text_def)
  ultimately show "yields (at_line q stk k w') (Option.bind (DecodeCommand cenv s) (run_commands cenv env (length ?t + 1)))"
    using t(1,3) act by simp
qed

lemma command_word_text: "command_ok l n f ps \<Longrightarrow> command_word (command_text l n f ps @ [NUL]) = None"
  by (auto simp: command_ok_def command_text_def command_word_def is_lower_def)

section \<open>An example\<close>

definition example_env :: "int list MetaEnv" where
  "example_env = \<lparr>me_condition = \<lambda>t i w. (Inr (t = '' true'' \<or> i < 2), w), me_other = \<lambda>_ _ _ _ w. (Inr (), 100 # w), me_abort = \<lambda>_ w. w,
     me_endScope = \<lambda>m w. (- 1 - int m) # w, me_warning = \<lambda>_ w. w, me_act = \<lambda>c w. cp_commandNumber c # w\<rparr>"

definition example_line :: string where
  "example_line = command_text CHR ''G'' 1 None [(CHR ''X'', IntArg 10)]"

definition example_body :: "stmt list" where
  "example_body = [IfS ''iterations < 2'' 1 [LineS example_line] (ElseT 3 [BreakS])]"

definition example_program :: "stmt list" where
  "example_program = [WhileS ''true'' 1 example_body, LineS ''echo'']"

lemma example_line_text: "example_line = ''G1 X10''" "command_ok CHR ''G'' 1 None [(CHR ''X'', IntArg 10)]"
proof -
  have d: "dec 1 = ''1''" "dec 10 = ''10''" by (simp_all add: dec.simps char_of_def bit_Suc_0_iff bit_numeral_rec)
  then show e: "example_line = ''G1 X10''" by (simp add: example_line_def command_text_def fraction_text_def int_dec_def)
  show "command_ok CHR ''G'' 1 None [(CHR ''X'', IntArg 10)]"
    using e d by (simp add: command_ok_def example_line_def int_dec_def param_letter_def MaxGCodeLength_def is_digit_def digit_value_def)
qed

lemma example_body_again: "i < 2 \<Longrightarrow> exec cenv example_env 1 i example_body w Normal (- 2 # 1 # w)"
proof -
  assume i: "i < 2"
  have "commands_effect cenv example_env example_line w (1 # w)"
    unfolding example_line_def
    by (rule commands_effect_text [OF example_line_text(2)]) (simp add: example_env_def as_written_def)
  then have "line_effect cenv example_env (1 + 1) i example_line w (1 # w)"
    using command_word_text [OF example_line_text(2)] by (simp add: line_effect_def example_line_def)
  then have "exec cenv example_env (1 + 1) i [LineS example_line] w Normal (1 # w)"
    by (rule exec_Cons [OF exec_Line exec_Nil])
  from exec_If [OF _ this] show ?thesis
    unfolding example_body_def
    by (intro exec_Cons [OF _ exec_Nil]) (use i in \<open>force simp: example_env_def\<close>)
qed

lemma example_body_last: "exec cenv example_env 1 2 example_body w Brk (- 2 # w)"
proof -
  have "exec cenv example_env (1 + 1) 2 [BreakS] w Brk w" by (intro exec_Jump exec_Break) simp_all
  from exec_If_not [OF _ exec_Else [OF this]] show ?thesis
    unfolding example_body_def by (intro exec_Jump) (force simp: example_env_def)+
qed

lemma example_executed: "exec cenv example_env 0 (- 1) example_program [] Normal [100, - 1, - 2, - 1, - 2, 1, - 1, - 2, 1]"
proof -
  have c: "me_condition example_env (CHR '' '' # ''true'') (int k) w = (Inr True, w)" "me_endScope example_env 0 w = - 1 # w" for k w
    by (simp_all add: example_env_def)
  have "execw cenv example_env 0 2 ''true'' example_body w (- 1 # - 2 # w)" for w
    using exec_Left [OF c(1) [of 2 w], of cenv 0 example_body "- 2 # w"] example_body_last [of cenv w] by (simp add: c(2))
  then have "execw cenv example_env 0 1 ''true'' example_body w (- 1 # - 2 # - 1 # - 2 # 1 # w)" for w
    using exec_Again [OF c(1) [of 1 w], of cenv 0 example_body Normal "- 2 # 1 # w"] example_body_again [of 1 cenv w]
    by (simp add: c(2) flip: numeral_2_eq_2)
  then have "execw cenv example_env 0 0 ''true'' example_body w (- 1 # - 2 # - 1 # - 2 # 1 # - 1 # - 2 # 1 # w)" for w
    using exec_Again [OF c(1) [of 0 w], of cenv 0 example_body Normal "- 2 # 1 # w"] example_body_again [of 0 cenv w]
    by (simp add: c(2))
  moreover have "exec1 cenv example_env 0 (- 1) (LineS ''echo'') w Normal (100 # w)" for w
    by (rule exec_Line) (simp add: line_effect_def command_word_def is_lower_def Let_def example_env_def)
  ultimately show ?thesis
    unfolding example_program_def by (blast intro: exec_Cons exec_While exec_Nil)
qed

lemma structured_program_witness:
  "\<exists>n t. file_run \<lparr>le_isDoingFile = True, le_cnc = False, le_nested = False\<rparr> \<lparr>ce_axisLetters = ''XYZ'', ce_fanuc = False, ce_topLevel = True\<rparr>
      example_env (text_of (lay 0 example_program)) n (start_parser []) = Some (Finished, t)
    \<and> unwind example_env (length (bp_outer t)) 0 (bp_world t) = [100, - 1, - 2, - 1, - 2, 1, - 1, - 2, 1]"
proof (rule structured_program [OF example_executed])
  let ?lenv = "\<lparr>le_isDoingFile = True, le_cnc = False, le_nested = False\<rparr>"
  show "at_line 0 [new_block 0] NoIndentSkip [] (start_parser [])" by (rule start_parser_at_line)
  show "lines_ok ?lenv (lay 0 example_program)"
    by (simp add: example_program_def example_body_def example_line_text(1) line_text_def stored_char_def MaxGCodeLength_def)
qed (simp_all add: example_program_def example_body_def new_block_def)

end
