(* ===== verification/Spec2Isabelle.thy ===== *)
theory Spec2Isabelle
  imports LpcLink LpcHeaterType StringRefs IspProps CrcProps PrintfUses NumericFloats GCodeSimulation
begin

text \<open>
  RepRapFirmware for the da Vinci Jr. 1.0: the G-code interpreter of the main board, from received characters to commands
  and structured programs, and the hot end, from the heater object of the main board down to the registers of the
  coprocessor that drives the heater.

  \<^bold>\<open>The program.\<close> The printer has two processors. The LPC1115 coprocessor (\<open>LpcFirmware/src\<close>) owns the
  hot end heater, its thermistor, two fans and a few pins, and runs the temperature control. The SAM4E
  main board (\<open>RepRapFirmware/src\<close>) interprets G-code, keeps the heater model and the monitors that limit
  its temperature, and sends them to the coprocessor over a serial link with framed messages
  (\<open>Shared/src/LpcProtocol\<close>). It also installs the coprocessor's firmware through its boot ROM. What is
  verified is, on the way to the heater, that a heater is on only under a controller that has a live link, a complete
  configuration and limits to enforce, that messages arrive as sent or not at all, and that
  an update cannot leave a coprocessor that starts half an image; and, on the way from a file or a serial line to a
  command, that damaged lines are dropped and the others delivered, that a command is decoded as it was written, and
  that a file with nested branches and loops is executed as its structure says.

  \<^bold>\<open>Theories and sources.\<close>

  \<^item> \<open>Prelude\<close>, \<open>Refine\<close>: names for the machine integers, shared lemmas, and two interfaces: \<open>inv_system\<close>
    (an invariant of a step relation holds in every reachable state) and \<open>refinement\<close> (sequences of
    operations refine sequences of abstract operations and never fail).
  \<^item> \<open>FloatFormat\<close>, \<open>Float32\<close>, \<open>Float64\<close>: IEEE binary formats on bit patterns, rounding to nearest even, as
    integer arithmetic on the exact values; single precision for the control code, double precision for
    formatting and number parsing. Conversions to integers out of range, undefined in C++, take their
    value from a parameter, or are \<open>None\<close> in the formatter.
  \<^item> \<open>LpcProtocol\<close>: \<open>Shared/src/LpcProtocol.h\<close> and \<open>.cpp\<close>; encoder, byte-wise decoder and checksum, with the
    interfaces \<open>byte_checksum\<close> and \<open>message_link\<close>.
  \<^item> \<open>LpcGpio\<close>, \<open>LpcPwm\<close>: \<open>Gpio.cpp\<close>, \<open>Pwm.cpp\<close> over a memory-mapped register file.
  \<^item> \<open>LpcThermal\<close>: \<open>Thermal.cpp\<close>, its static variables as one record, one definition per function and per
    case of the control step, and the SysTick interrupt. \<open>LpcThermalSafety\<close> has the safety invariant,
    \<open>LpcThermalProps\<close> faults, limits, time-outs and conversions.
  \<^item> \<open>LpcMain\<close>: \<open>main.cpp\<close>, \<open>Uart.cpp\<close>; the endless loop as the inductive relation \<open>board_step\<close>, with an
    interrupt possible between any two steps.
  \<^item> \<open>HostLpc\<close>: \<open>Hardware/SAM4E/LpcInterface.cpp\<close>; link supervision and replay of the configuration.
    \<open>LpcDrive\<close> reads off the registers how each pin is driven (a level, or a timer setting), and
    \<open>LpcLink\<close> composes both processors: what a replay leaves the coprocessor configured as, pins' outputs
    included. \<open>LpcLimits\<close> bounds how far a temperature limit moves when it is sent in truncated tenths.
  \<^item> \<open>FopDt\<close>, \<open>LpcHeater\<close>: \<open>Heating/FOPDT.cpp\<close>, \<open>LpcHeater.cpp\<close>, \<open>Heater.cpp\<close>, \<open>HeaterMonitor.cpp\<close>; the heater
    object, with the parameters of M307, M570, M143 as records of values that may be absent or malformed, and
    exceptions as \<open>Inl\<close>. \<open>LpcHeaterProps\<close> composes it with the link and the coprocessor,
    \<open>LpcHeaterType\<close> has its well-formedness invariant.
  \<^item> \<open>IspUpdater\<close>: \<open>Hardware/SAM4E/LpcIspUpdater.cpp\<close>; \<open>IspCodec\<close> its number and data formats, \<open>IspProps\<close> the
    sessions it may write, the order in which flash is written, and that it ends.
  \<^item> \<open>CStrings\<close>, \<open>StringRefs\<close>: \<open>RRFLibraries/src/General\<close>; buffers as lists of characters whose accesses are
    checked (\<open>None\<close> is an access outside), so that staying inside is part of every result.
  \<^item> \<open>Decimals\<close>, \<open>Printf\<close>: \<open>SafeVsnprintf.cpp\<close>; the format interpreter over an arbitrary sink, with the digit
    buffers as texts that grow to the left in a limited room. \<open>PrintfProps\<close> gives every format its text,
    and shows that the printer prints it; \<open>PrintfNumbers\<close> and \<open>PrintfFloats\<close> say what the text of a number is,
    and \<open>PrintfUses\<close> puts the formatter into \<open>StringRef\<close> and the updater in place of the text they were given.
  \<^item> \<open>NumericConverter\<close>: \<open>NumericConverter.cpp\<close>, \<open>SafeStrtod.cpp\<close>; \<open>NumericProps\<close> has integers and bounds,
    \<open>NumericFloats\<close> decimal fractions and the round trips with the formatter.
  \<^item> \<open>GCodeLine\<close>, \<open>GCodeLineProps\<close>: \<open>GCodes/GCodeBuffer/StringParser.cpp\<close>, from characters to lines: the state
    machine of \<open>Put\<close>, line numbers, checksums and the recovery after lost or damaged lines.
    \<open>GCodeText\<close> follows a line without a checksum from its characters to the buffer.
  \<^item> \<open>GCodeCommand\<close>: the same file, from lines to commands and their parameters (\<open>DecodeCommand\<close>, \<open>FindParameters\<close>,
    \<open>Seen\<close>, the readers of numbers, lists and strings). \<open>GCodeCommandProps\<close> shows that lines are taken apart completely and
    that the bitmap of parameters is right, \<open>GCodeCommandText\<close> that what is written is what is read.
  \<^item> \<open>GCodeBlocks\<close>: the meta commands of \<open>StringParser.cpp\<close>, the stack of blocks of \<open>GCodes/GCodeMachineState.cpp\<close>, and
    the loop over the lines of a file, \<open>DoFilePrint\<close> of \<open>GCodes/GCodes.cpp\<close>. \<open>GCodeBlocksProps\<close> has what happens to
    the stack at one line, \<open>GCodeStack\<close> its invariant for any file. \<open>GCodeStructured\<close> defines programs with branches and
    loops, how they are laid out in lines, and what they mean, as the inductive relations \<open>exec\<close>, \<open>exec1\<close>, \<open>exect\<close>
    and \<open>execw\<close>; \<open>GCodeSimulation\<close> proves that the line machine executes them so.
  \<^item> \<open>Crc\<close>, \<open>CrcProps\<close>: \<open>Storage/CRC32.cpp\<close>, \<open>CRC16.cpp\<close>; the tables as literals, the update loops, and
    their equality with a shift register taking one bit at a time.

  \<^bold>\<open>State and effects.\<close> Static variables and objects are records passed explicitly; registers are a map from
  addresses to words; what is written to a UART is a list of bytes or an event log. Effects of the
  environment (levels of pins, readings of the converter, time passing in a delay, bytes arriving,
  failing file accesses, the C library's \<open>powf\<close> and \<open>logf\<close>) are
  parameters, and theorems hold for all their values unless they say otherwise.

  \<^bold>\<open>Loops.\<close> Loops over arrays are structural recursions. Loops with a fuel are the reporting loop of
  the coprocessor (nine polls for eight pins, enough by \<open>poll_all_ends\<close>), the wait for the converter
  (10000 turns, the bound in the code), and the loop of \<open>StringRef::Erase\<close> (one turn more than the storage has
  characters, enough by \<open>Erase_spec\<close> when position and count do not wrap). The waiting loops of the updater and its loop over blocks are
  partial functions: \<open>None\<close> would be an endless wait, and \<open>update_terminates\<close> shows that it does not occur
  if a delay lets time pass and the two clock readings of a turn of \<open>WaitForLine\<close> are at most a tick apart;
  \<open>remaining_wraps\<close> shows what happens if they are not. The loops of the formatter that scale a number into the range of one digit are
  partial functions too; the formats with a fixed number of decimals do not use them. Its loop over the format,
  the number reader and the loop of the line parser are total functions, each with its measure. The loop over the commands
  of a line has as fuel the number of its characters and one more, enough by \<open>line_taken_apart\<close>; the loops that
  leave blocks are total functions with the result \<open>None\<close> where the code would run forever, which never
  happens by \<open>block_stack_invariant\<close>; the loop over a file has a number of turns, and \<open>structured_program\<close> says that there is
  one with which it has finished.

  \<^bold>\<open>Idealisations.\<close> The main board runs under a preemptive kernel: one operation of the heater or of the link
  is one step of the model. \<open>WaitForLine\<close> reads the clock twice a turn, as the code does, with any time between.
  The coprocessor has no kernel; its interrupt is interleaved at every step of the main loop, and within
  \<open>ApplyHeater\<close> at every register access; the call of \<open>Gpio::Configure\<close> inside \<open>Pwm::Set\<close> counts as one
  access there. The processors' clocks are not compared.

  \<^bold>\<open>Widths.\<close> On both processors \<open>char\<close> is unsigned, \<open>int\<close> and \<open>long\<close> have 32 bits, and floating literals are
  single precision (the build says so), also where they are cast to \<open>double\<close>.

  \<^bold>\<open>Parameters.\<close> The interpreter is modelled without what it works on: the value of an expression, the effect of the meta
  commands that assign variables or print, and that of an ordinary command are functions on a world of any type. A file
  is read by one channel, without macros, pauses or an attached computer.

  \<^bold>\<open>Not modelled.\<close> The evaluation of expressions and the execution of G-code commands, motion, other heaters and sensors,
  networking, displays, the object model, storage (large subsystems with no part in the paths above, or only called
  through them); auto-tuning and the CAN variants of the heater code, which this printer does not use; the
  variant of CRC-32 for processors with a CRC unit; start-up code in assembler; and vendored code
  (CoreN2G, FreeRTOS, CANlib, FatFs).
\<close>

end
